(* ===== verification/LG_Prelude.thy ===== *)
theory LG_Prelude
  imports Main "HOL-Library.Word" "HOL-Library.List_Lexorder" "HOL-Library.Char_ord"
begin

text \<open>
  Shared vocabulary of the development: the machine integer types of the library, the
  algorithms of the C++ standard library the sources call on vectors (lower_bound,
  binary_search, unique, adjacent_find, set_intersection), the structured
  result of result.hpp, and a generic reachability locale for state machines.

  The binary search is the halving algorithm of the three major standard libraries, not its
  specification: on a range that is not sorted it answers what the loop answers, which
  matters for one caller (the plan validator).
\<close>

unbundle bit_operations_syntax

type_synonym u8 = "8 word"
type_synonym u16 = "16 word"
type_synonym u32 = "32 word"
type_synonym u64 = "64 word"

named_theorems lg_defs \<open>definitions unfolded together when a component is evaluated\<close>

lemma unat_ucast_u8_u32: "unat (ucast (x :: u8) :: u32) = unat x"
  by transfer (simp add: take_bit_eq_mod)

section \<open>Vector algorithms\<close>

function lower_bound_from :: "('a \<Rightarrow> bool) \<Rightarrow> 'a list \<Rightarrow> nat \<Rightarrow> nat \<Rightarrow> nat" where
  "lower_bound_from below xs first len =
     (if len = 0 then first
      else if below (xs ! (first + len div 2))
           then lower_bound_from below xs (Suc (first + len div 2)) (len - len div 2 - 1)
           else lower_bound_from below xs first (len div 2))"
  by pat_completeness auto
termination
  by (relation "measure (\<lambda>(below, xs, first, len). len)") auto

declare lower_bound_from.simps [simp del]

definition lower_bound :: "('a \<Rightarrow> bool) \<Rightarrow> 'a list \<Rightarrow> nat" where
  "lower_bound below xs = lower_bound_from below xs 0 (length xs)"

definition binary_search :: "'a::linorder list \<Rightarrow> 'a \<Rightarrow> bool" where
  "binary_search xs v =
     (let p = lower_bound (\<lambda>x. x < v) xs in p < length xs \<and> \<not> v < xs ! p)"

text \<open>\<open>partitioned\<close> is the precondition the standard puts on a binary search.\<close>

definition partitioned :: "('a \<Rightarrow> bool) \<Rightarrow> 'a list \<Rightarrow> bool" where
  "partitioned below xs \<longleftrightarrow> (\<forall>i j. i \<le> j \<and> j < length xs \<and> below (xs ! j) \<longrightarrow> below (xs ! i))"

lemma lower_bound_from_bounds:
  "lower_bound_from below xs first len \<le> first + len \<and> first \<le> lower_bound_from below xs first len"
proof (induction below xs first len rule: lower_bound_from.induct)
  case (1 below xs first len)
  consider "len = 0" | "len \<noteq> 0" "below (xs ! (first + len div 2))"
    | "len \<noteq> 0" "\<not> below (xs ! (first + len div 2))" by blast
  then show ?case
  proof cases
    case 1
    then show ?thesis by (simp add: lower_bound_from.simps)
  next
    case 2
    have "Suc (first + len div 2) + (len - len div 2 - 1) = first + len" using 2 by simp
    then show ?thesis
      using "1.IH"(1)[OF 2] 2 lower_bound_from.simps[of below xs first len] by simp
  next
    case 3
    have "first + len div 2 \<le> first + len" by simp
    then show ?thesis
      using "1.IH"(2)[OF 3] 3 lower_bound_from.simps[of below xs first len] by auto
  qed
qed

lemma lower_bound_le [simp]: "lower_bound below xs \<le> length xs"
  using lower_bound_from_bounds[of below xs 0 "length xs"] by (simp add: lower_bound_def)

lemma lower_bound_from_correct:
  assumes "partitioned below xs" "first + len \<le> length xs"
    and "\<forall>i<first. below (xs ! i)"
    and "\<forall>i. first + len \<le> i \<and> i < length xs \<longrightarrow> \<not> below (xs ! i)"
  shows "(\<forall>i < lower_bound_from below xs first len. below (xs ! i)) \<and>
         (\<forall>i. lower_bound_from below xs first len \<le> i \<and> i < length xs \<longrightarrow> \<not> below (xs ! i))"
  using assms
proof (induction below xs first len rule: lower_bound_from.induct)
  case (1 below xs first len)
  let ?mid = "first + len div 2"
  consider "len = 0" | "len \<noteq> 0" "below (xs ! ?mid)" | "len \<noteq> 0" "\<not> below (xs ! ?mid)" by blast
  then show ?case
  proof cases
    case 1
    with "1.prems" show ?thesis by (simp add: lower_bound_from.simps)
  next
    case 2
    have mid: "?mid < length xs" using 2 "1.prems"(2) by simp
    have below: "\<forall>i<Suc ?mid. below (xs ! i)"
    proof (intro allI impI)
      fix i assume "i < Suc ?mid"
      then show "below (xs ! i)"
        using 2(2) mid "1.prems"(1) unfolding partitioned_def by (meson less_Suc_eq_le)
    qed
    have "Suc ?mid + (len - len div 2 - 1) = first + len" using 2 by simp
    then show ?thesis
      using "1.IH"(1)[OF 2 "1.prems"(1) _ below] "1.prems" 2
        lower_bound_from.simps[of below xs first len] by simp
  next
    case 3
    have above: "\<forall>i. first + len div 2 \<le> i \<and> i < length xs \<longrightarrow> \<not> below (xs ! i)"
      using 3(2) "1.prems"(1) unfolding partitioned_def by blast
    show ?thesis
      using "1.IH"(2)[OF 3 "1.prems"(1) _ "1.prems"(3) above] "1.prems"(2) 3
        lower_bound_from.simps[of below xs first len] by simp
  qed
qed

lemma lower_bound_correct:
  assumes "partitioned below xs"
  shows "i < lower_bound below xs \<Longrightarrow> below (xs ! i)"
    and "lower_bound below xs \<le> i \<Longrightarrow> i < length xs \<Longrightarrow> \<not> below (xs ! i)"
proof -
  have "(\<forall>i < lower_bound below xs. below (xs ! i)) \<and>
        (\<forall>i. lower_bound below xs \<le> i \<and> i < length xs \<longrightarrow> \<not> below (xs ! i))"
    unfolding lower_bound_def by (rule lower_bound_from_correct[OF assms]) auto
  then show "i < lower_bound below xs \<Longrightarrow> below (xs ! i)"
    and "lower_bound below xs \<le> i \<Longrightarrow> i < length xs \<Longrightarrow> \<not> below (xs ! i)" by blast+
qed

lemma partitioned_key:
  fixes key :: "'a \<Rightarrow> 'k::linorder"
  assumes "sorted (map key xs)"
  shows "partitioned (\<lambda>x. key x < k) xs"
proof (unfold partitioned_def, intro allI impI)
  fix i j
  assume a: "i \<le> j \<and> j < length xs \<and> key (xs ! j) < k"
  then have "key (xs ! i) \<le> key (xs ! j)"
    using sorted_nth_mono[OF assms, of i j] by simp
  also have "... < k" using a by simp
  finally show "key (xs ! i) < k" .
qed

lemma binary_search_iff [simp]:
  assumes "sorted xs"
  shows "binary_search xs v \<longleftrightarrow> v \<in> set xs"
proof -
  have p: "partitioned (\<lambda>x. x < v) xs"
    using partitioned_key[of "\<lambda>x. x" xs v] assms by simp
  let ?p = "lower_bound (\<lambda>x. x < v) xs"
  show ?thesis
  proof
    assume "binary_search xs v"
    then have "?p < length xs" "\<not> v < xs ! ?p" by (auto simp: binary_search_def Let_def)
    moreover from this(1) have "\<not> xs ! ?p < v" using lower_bound_correct(2)[OF p] by blast
    ultimately have "xs ! ?p = v" "?p < length xs" by auto
    then show "v \<in> set xs" by (metis nth_mem)
  next
    assume "v \<in> set xs"
    then obtain i where i: "i < length xs" "xs ! i = v" by (auto simp: in_set_conv_nth)
    have "\<not> i < ?p"
    proof
      assume "i < ?p"
      then have "xs ! i < v" using lower_bound_correct(1)[OF p] by blast
      with i show False by simp
    qed
    then have "?p \<le> i" by simp
    moreover have "?p < length xs" using calculation i by simp
    moreover have "xs ! ?p \<le> xs ! i" using assms i calculation by (intro sorted_nth_mono) auto
    ultimately show "binary_search xs v"
      using i by (simp add: binary_search_def Let_def not_less)
  qed
qed

text \<open>Lookup in a vector of records kept sorted by a key: the pattern of every find in the sources.\<close>

definition find_sorted :: "('a \<Rightarrow> 'k::linorder) \<Rightarrow> 'a list \<Rightarrow> 'k \<Rightarrow> 'a option" where
  "find_sorted key xs k =
     (let p = lower_bound (\<lambda>x. key x < k) xs
      in if p = length xs \<or> key (xs ! p) \<noteq> k then None else Some (xs ! p))"

lemma find_sorted_SomeD:
  "find_sorted key xs k = Some x \<Longrightarrow> x \<in> set xs \<and> key x = k"
  using lower_bound_le[of "\<lambda>x. key x < k" xs]
  by (auto simp: find_sorted_def Let_def nth_mem le_neq_implies_less split: if_splits)

lemma find_sorted_iff:
  assumes "sorted_wrt (<) (map key xs)"
  shows "find_sorted key xs k = Some x \<longleftrightarrow> x \<in> set xs \<and> key x = k"
proof
  show "find_sorted key xs k = Some x \<Longrightarrow> x \<in> set xs \<and> key x = k" by (rule find_sorted_SomeD)
next
  assume a: "x \<in> set xs \<and> key x = k"
  have s: "sorted (map key xs)" "distinct (map key xs)"
    using assms by (simp_all add: strict_sorted_iff)
  from s(1) have p: "partitioned (\<lambda>x. key x < k) xs" by (rule partitioned_key)
  let ?p = "lower_bound (\<lambda>x. key x < k) xs"
  from a obtain i where i: "i < length xs" "xs ! i = x" by (auto simp: in_set_conv_nth)
  have "\<not> i < ?p" using lower_bound_correct(1)[OF p, of i] a i by auto
  then have le: "?p \<le> i" by simp
  with i have lt: "?p < length xs" by simp
  have "\<not> key (xs ! ?p) < k" using lower_bound_correct(2)[OF p, of ?p] lt by simp
  moreover have "key (xs ! ?p) \<le> key (xs ! i)"
    using sorted_nth_mono[OF s(1), of ?p i] le i by simp
  ultimately have "key (xs ! ?p) = key (xs ! i)" using a i by auto
  then have "?p = i" using s(2) i lt by (simp add: distinct_conv_nth) (metis nth_map)
  then show "find_sorted key xs k = Some x" using i a by (auto simp: find_sorted_def Let_def)
qed

lemma find_sorted_None:
  assumes "sorted_wrt (<) (map key xs)"
  shows "find_sorted key xs k = None \<longleftrightarrow> k \<notin> key ` set xs"
proof (cases "find_sorted key xs k")
  case None
  then have "\<not> (x \<in> set xs \<and> key x = k)" for x
    using find_sorted_iff[OF assms, of k x] by simp
  with None show ?thesis by auto
next
  case (Some y)
  then have "y \<in> set xs" "key y = k" using find_sorted_SomeD by fastforce+
  with Some show ?thesis by auto
qed

text \<open>Insertion at the lower bound.\<close>

definition insert_sorted :: "('a \<Rightarrow> 'k::linorder) \<Rightarrow> 'a \<Rightarrow> 'a list \<Rightarrow> 'a list" where
  "insert_sorted key x xs =
     (let p = lower_bound (\<lambda>y. key y < key x) xs in take p xs @ x # drop p xs)"

lemma set_insert_sorted [simp]: "set (insert_sorted key x xs) = insert x (set xs)"
  by (simp add: insert_sorted_def Let_def) (metis set_append append_take_drop_id)

lemma length_insert_sorted [simp]: "length (insert_sorted key x xs) = Suc (length xs)"
  by (simp add: insert_sorted_def Let_def)

lemma take_drop_lower_bound:
  fixes key :: "'a \<Rightarrow> 'k::linorder"
  assumes "sorted (map key xs)"
  shows "\<forall>y \<in> set (take (lower_bound (\<lambda>y. key y < k) xs) xs). key y < k"
    and "\<forall>y \<in> set (drop (lower_bound (\<lambda>y. key y < k) xs) xs). k \<le> key y"
proof -
  let ?p = "lower_bound (\<lambda>y. key y < k) xs"
  note p = partitioned_key[OF assms, of k]
  show "\<forall>y \<in> set (take ?p xs). key y < k"
    using lower_bound_correct(1)[OF p] by (auto simp: in_set_conv_nth)
  show "\<forall>y \<in> set (drop ?p xs). k \<le> key y"
  proof
    fix y assume "y \<in> set (drop ?p xs)"
    then obtain i where i: "i < length xs - ?p" "y = xs ! (?p + i)"
      by (auto simp: in_set_conv_nth)
    have "\<not> key (xs ! (?p + i)) < k" by (rule lower_bound_correct(2)[OF p]) (use i in auto)
    with i show "k \<le> key y" by auto
  qed
qed

lemma sorted_wrt_insert_between:
  assumes "sorted_wrt R (map key (us @ vs))"
    and "\<forall>y \<in> set us. R (key y) (key x)" and "\<forall>y \<in> set vs. R (key x) (key y)"
  shows "sorted_wrt R (map key (us @ x # vs))"
  using assms by (simp add: sorted_wrt_append)

lemma sorted_insert_sorted:
  fixes key :: "'a \<Rightarrow> 'k::linorder"
  assumes "sorted (map key xs)"
  shows "sorted (map key (insert_sorted key x xs))"
  unfolding insert_sorted_def Let_def
proof (rule sorted_wrt_insert_between)
  show "sorted (map key (take (lower_bound (\<lambda>y. key y < key x) xs) xs @
    drop (lower_bound (\<lambda>y. key y < key x) xs) xs))"
    using assms by (simp only: append_take_drop_id)
  show "\<forall>y\<in>set (take (lower_bound (\<lambda>y. key y < key x) xs) xs). key y \<le> key x"
    using take_drop_lower_bound(1)[OF assms, of "key x"] by (meson less_imp_le)
  show "\<forall>y\<in>set (drop (lower_bound (\<lambda>y. key y < key x) xs) xs). key x \<le> key y"
    by (rule take_drop_lower_bound(2)[OF assms])
qed

lemma strict_sorted_insert_sorted:
  fixes key :: "'a \<Rightarrow> 'k::linorder"
  assumes "sorted_wrt (<) (map key xs)" "key x \<notin> key ` set xs"
  shows "sorted_wrt (<) (map key (insert_sorted key x xs))"
  unfolding insert_sorted_def Let_def
proof (rule sorted_wrt_insert_between)
  have s: "sorted (map key xs)" using assms(1) by (simp add: strict_sorted_iff)
  show "sorted_wrt (<) (map key (take (lower_bound (\<lambda>y. key y < key x) xs) xs @
    drop (lower_bound (\<lambda>y. key y < key x) xs) xs))"
    using assms(1) by (simp only: append_take_drop_id)
  show "\<forall>y\<in>set (take (lower_bound (\<lambda>y. key y < key x) xs) xs). key y < key x"
    by (rule take_drop_lower_bound(1)[OF s])
  show "\<forall>y\<in>set (drop (lower_bound (\<lambda>y. key y < key x) xs) xs). key x < key y"
  proof
    fix y assume y: "y \<in> set (drop (lower_bound (\<lambda>y. key y < key x) xs) xs)"
    then have "key x \<le> key y" using take_drop_lower_bound(2)[OF s, of "key x"] by blast
    moreover have "key y \<noteq> key x" using assms(2) in_set_dropD[OF y] by (metis imageI)
    ultimately show "key x < key y" by simp
  qed
qed

text \<open>A list in strict key order is determined by its elements.\<close>

lemma strict_sorted_key_unique:
  fixes key :: "'a \<Rightarrow> 'k::linorder"
  assumes "sorted_wrt (<) (map key xs)" "sorted_wrt (<) (map key ys)" "set xs = set ys"
  shows "xs = ys"
proof (rule map_inj_on)
  show "map key xs = map key ys"
    by (rule strict_sorted_equal) (use assms in simp_all)
  show "inj_on key (set xs \<union> set ys)"
    using assms by (simp add: strict_sorted_iff distinct_map)
qed

text \<open>\<open>std::adjacent_find(...) != end\<close>, \<open>std::set_intersection\<close>, \<open>std::unique\<close> after a sort.\<close>

fun adjacent_dup :: "'a list \<Rightarrow> bool" where
  "adjacent_dup (x # y # zs) = (x = y \<or> adjacent_dup (y # zs))"
| "adjacent_dup _ = False"

fun set_intersection :: "'a::linorder list \<Rightarrow> 'a list \<Rightarrow> 'a list" where
  "set_intersection [] ys = []"
| "set_intersection (x # xs) [] = []"
| "set_intersection (x # xs) (y # ys) =
     (if x < y then set_intersection xs (y # ys)
      else if y < x then set_intersection (x # xs) ys
      else x # set_intersection xs ys)"

definition sort_unique :: "'a::linorder list \<Rightarrow> 'a list" where
  "sort_unique xs = remdups_adj (sort xs)"

fun strictly_increasing :: "'a::linorder list \<Rightarrow> bool" where
  "strictly_increasing (x # y # zs) = (x < y \<and> strictly_increasing (y # zs))"
| "strictly_increasing _ = True"

lemma strictly_increasing_iff [simp]: "strictly_increasing xs \<longleftrightarrow> sorted_wrt (<) xs"
  by (induction xs rule: strictly_increasing.induct) (auto intro: less_trans)

lemma sorted_adjacent_dup:
  "sorted xs \<Longrightarrow> \<not> adjacent_dup xs \<longleftrightarrow> sorted_wrt (<) xs"
  by (induction xs rule: adjacent_dup.induct) (auto simp: le_less intro: less_le_trans)

lemma sort_unique_set [simp]: "set (sort_unique xs) = set xs"
  by (simp add: sort_unique_def)

lemma sorted_distinct_remdups_adj: "sorted xs \<Longrightarrow> sorted_wrt (<) (remdups_adj xs)"
  by (induction xs rule: remdups_adj.induct) (auto simp: le_less)

lemma sort_unique_strict [simp]: "sorted_wrt (<) (sort_unique xs)"
  by (simp add: sort_unique_def sorted_distinct_remdups_adj)

lemma set_intersection_filter:
  assumes "sorted_wrt (<) xs" "sorted_wrt (<) ys"
  shows "set_intersection xs ys = filter (\<lambda>x. x \<in> set ys) xs"
  using assms
proof (induction xs ys rule: set_intersection.induct)
  case (3 x xs y ys)
  consider "x < y" | "y < x" | "x = y" by fastforce
  then show ?case
  proof cases
    case 1
    then have "x \<notin> set (y # ys)" using "3.prems"(2) by auto
    then show ?thesis using 1 "3.IH"(1)[OF 1] "3.prems" by simp
  next
    case 2
    have "filter (\<lambda>z. z \<in> set (y # ys)) (x # xs) = filter (\<lambda>z. z \<in> set ys) (x # xs)"
      using 2 "3.prems"(1) by (intro filter_cong) auto
    moreover have "set_intersection (x # xs) ys = filter (\<lambda>z. z \<in> set ys) (x # xs)"
      using 2 "3.IH"(2) "3.prems" by simp
    moreover have "set_intersection (x # xs) (y # ys) = set_intersection (x # xs) ys"
      using 2 by auto
    ultimately show ?thesis by (simp only:)
  next
    case 3
    have "filter (\<lambda>z. z \<in> set (y # ys)) xs = filter (\<lambda>z. z \<in> set ys) xs"
      using 3 "3.prems"(1) by (intro filter_cong) auto
    moreover have "set_intersection xs ys = filter (\<lambda>z. z \<in> set ys) xs"
      using 3 "3.IH"(3) "3.prems" by simp
    ultimately show ?thesis using 3 by simp
  qed
qed simp_all

section \<open>Compressed adjacency\<close>

text \<open>
  Two components group values by a small key with the same three passes: count the values of each
  key, sum the counts into offsets, and write each value at the cursor of its key. \<open>csr_segment_eq\<close>
  says that the segment of a key then lists its values in their original order.
\<close>

definition csr_counts :: "nat \<Rightarrow> nat list \<Rightarrow> nat list" where
  "csr_counts n ks = foldl (\<lambda>adj k. adj[k + 1 := adj ! (k + 1) + 1]) (replicate (n + 1) 0) ks"

definition csr_offsets :: "nat \<Rightarrow> nat list \<Rightarrow> nat list" where
  "csr_offsets n ks = foldl (\<lambda>adj i. adj[i + 1 := adj ! (i + 1) + adj ! i]) (csr_counts n ks) [0..<n]"

definition csr_fill :: "nat \<Rightarrow> 'a \<Rightarrow> (nat \<times> 'a) list \<Rightarrow> 'a list \<times> nat list" where
  "csr_fill n blank kvs = foldl (\<lambda>(out, cursor) (k, v). (out[cursor ! k := v], cursor[k := cursor ! k + 1]))
     (replicate (length kvs) blank, csr_offsets n (map fst kvs)) kvs"

definition csr_segment :: "nat list \<Rightarrow> 'a list \<Rightarrow> nat \<Rightarrow> 'a list" where
  "csr_segment offsets out k = take (offsets ! (k + 1) - offsets ! k) (drop (offsets ! k) out)"

abbreviation key_count :: "nat \<Rightarrow> nat list \<Rightarrow> nat" where
  "key_count k ks \<equiv> length (filter (\<lambda>k'. k' = k) ks)"

abbreviation below_count :: "nat \<Rightarrow> nat list \<Rightarrow> nat" where
  "below_count k ks \<equiv> length (filter (\<lambda>k'. k' < k) ks)"

lemma csr_counts_nth:
  assumes "\<forall>k \<in> set ks. k < n"
  shows "length (csr_counts n ks) = n + 1"
    and "p \<le> n \<Longrightarrow> csr_counts n ks ! p = (if p = 0 then 0 else key_count (p - 1) ks)"
proof -
  have "length (csr_counts n ks) = n + 1 \<and>
      (\<forall>p \<le> n. csr_counts n ks ! p = (if p = 0 then 0 else key_count (p - 1) ks))"
    using assms
  proof (induction ks rule: rev_induct)
    case (snoc k ks)
    then show ?case by (auto simp: csr_counts_def nth_list_update)
  qed (auto simp: csr_counts_def nth_Cons split: nat.splits simp del: replicate.simps)
  then show "length (csr_counts n ks) = n + 1"
    "p \<le> n \<Longrightarrow> csr_counts n ks ! p = (if p = 0 then 0 else key_count (p - 1) ks)"
    by simp_all
qed

lemma below_count_Suc: "below_count (Suc k) ks = below_count k ks + key_count k ks"
  by (induction ks) auto

lemma below_count_mono: "j \<le> k \<Longrightarrow> below_count j ks \<le> below_count k ks"
  by (induction ks) auto

lemma csr_offsets_nth:
  assumes "\<forall>k \<in> set ks. k < n"
  shows "length (csr_offsets n ks) = n + 1"
    and "p \<le> n \<Longrightarrow> csr_offsets n ks ! p = below_count p ks"
proof -
  let ?step = "\<lambda>adj i. adj[i + 1 := adj ! (i + 1) + adj ! i]"
  have main: "length (foldl ?step (csr_counts n ks) [0..<k]) = n + 1 \<and>
      (\<forall>p \<le> n. foldl ?step (csr_counts n ks) [0..<k] ! p =
        (if p \<le> k then below_count p ks else csr_counts n ks ! p))"
    if "k \<le> n" for k
    using that
  proof (induction k)
    case 0
    then show ?case using csr_counts_nth[OF assms] by auto
  next
    case (Suc k)
    then show ?case
      using csr_counts_nth(2)[OF assms, of "Suc k"]
      by (auto simp: nth_list_update below_count_Suc le_Suc_eq)
  qed
  show "length (csr_offsets n ks) = n + 1" "p \<le> n \<Longrightarrow> csr_offsets n ks ! p = below_count p ks"
    using main[of n] by (simp_all add: csr_offsets_def)
qed

text \<open>The state of the fill after a prefix \<open>ps\<close> of the values.\<close>

lemma csr_fill_prefix:
  fixes kvs :: "(nat \<times> 'a) list" and blank :: 'a
  assumes bound: "\<forall>k \<in> set (map fst kvs). k < n" and "kvs = ps @ qs"
  defines "off \<equiv> \<lambda>k. below_count k (map fst kvs)"
  defines "st \<equiv> foldl (\<lambda>(out, cursor) (k, v). (out[cursor ! k := v], cursor[k := cursor ! k + (1 :: nat)]))
     (replicate (length kvs) blank, csr_offsets n (map fst kvs)) ps"
  shows "length (fst st) = length kvs \<and> length (snd st) = n + 1 \<and>
    (\<forall>k < n. snd st ! k = off k + key_count k (map fst ps) \<and>
      (\<forall>j < key_count k (map fst ps). fst st ! (off k + j) = map snd (filter (\<lambda>(k', v). k' = k) ps) ! j))"
  using assms(2) unfolding st_def
proof (induction ps arbitrary: qs rule: rev_induct)
  case Nil
  then show ?case using csr_offsets_nth[OF bound] by (simp add: off_def)
next
  case (snoc p ps)
  obtain k v where p: "p = (k, v)" by fastforce
  let ?st = "foldl (\<lambda>(out, cursor) (k, v). (out[cursor ! k := v], cursor[k := cursor ! k + (1 :: nat)]))
     (replicate (length kvs) blank, csr_offsets n (map fst kvs)) ps"
  obtain out cur where st: "?st = (out, cur)" by fastforce
  have IH: "length out = length kvs" "length cur = n + 1"
    and cur: "\<And>k. k < n \<Longrightarrow> cur ! k = off k + key_count k (map fst ps)"
    and out: "\<And>k j. k < n \<Longrightarrow> j < key_count k (map fst ps) \<Longrightarrow>
      out ! (off k + j) = map snd (filter (\<lambda>(k', v). k' = k) ps) ! j"
    using snoc.IH[of "p # qs"] snoc.prems st by auto
  have kn: "k < n" using bound snoc.prems p by simp
  have room: "off k' + key_count k' (map fst (ps @ [p])) \<le> off (Suc k')" for k'
    unfolding off_def snoc.prems below_count_Suc by simp
  have top: "off n \<le> length kvs" unfolding off_def by (metis length_filter_le length_map)
  have off_mono: "j \<le> k' \<Longrightarrow> off j \<le> off k'" for j k' unfolding off_def by (rule below_count_mono)
  have pos: "cur ! k < length kvs"
    using cur[OF kn] room[of k] off_mono[of "Suc k" n] top kn by (simp add: p)
  have apart: "off k' + j \<noteq> cur ! k" if "k' < n" "j < key_count k' (map fst ps)" for k' j
  proof -
    consider "k' = k" | "k' < k" | "k < k'" by fastforce
    then show ?thesis
    proof cases
      case 1
      then show ?thesis using that cur[OF kn] by simp
    next
      case 2
      then show ?thesis using that cur[OF kn] room[of k'] off_mono[of "Suc k'" k] by simp
    next
      case 3
      then show ?thesis using that cur[OF kn] room[of k] off_mono[of "Suc k" k'] by (simp add: p)
    qed
  qed
  have new: "foldl (\<lambda>(out, cursor) (k, v). (out[cursor ! k := v], cursor[k := cursor ! k + (1 :: nat)]))
     (replicate (length kvs) blank, csr_offsets n (map fst kvs)) (ps @ [p]) =
     (out[cur ! k := v], cur[k := cur ! k + 1])"
    unfolding foldl_append st p by simp
  have cnt: "length (filter (\<lambda>(k', v). k' = k0) ps) = key_count k0 (map fst ps)" for k0
    by (induction ps) (auto split: prod.splits)
  have written: "out[cur ! k := v] ! (off k' + j) = map snd (filter (\<lambda>(k'', v). k'' = k') (ps @ [p])) ! j"
    if "k' < n" "j < key_count k' (map fst (ps @ [p]))" for k' j
  proof (cases "j < key_count k' (map fst ps)")
    case True
    then show ?thesis
      using apart[OF that(1) True] out[OF that(1) True] by (simp add: nth_append cnt)
  next
    case False
    with that(2) have "k' = k" "j = key_count k (map fst ps)" by (auto simp: p split: if_splits)
    then show ?thesis using pos cur[OF kn] IH(1) by (simp add: nth_append cnt p)
  qed
  have "cur[k := cur ! k + 1] ! k' = off k' + key_count k' (map fst (ps @ [p]))" if "k' < n" for k'
    using that cur[OF that] IH(2) by (simp add: p nth_list_update)
  then show ?case unfolding new using written IH by simp
qed

lemma segment_eqI:
  assumes "b + c \<le> length out" "length xs = c" "\<And>j. j < c \<Longrightarrow> out ! (b + j) = xs ! j"
  shows "take (b + c - b) (drop b out) = xs"
  using assms by (intro nth_equalityI) simp_all

theorem csr_segment_eq:
  assumes "\<forall>k \<in> set (map fst kvs). k < n" "k < n"
  shows "csr_segment (csr_offsets n (map fst kvs)) (fst (csr_fill n blank kvs)) k =
    map snd (filter (\<lambda>(k', v). k' = k) kvs)"
proof -
  let ?ks = "map fst kvs" and ?out = "fst (csr_fill n blank kvs)"
  have cnt: "length (filter (\<lambda>(k', v). k' = k) kvs) = key_count k ?ks"
    by (induction kvs) (auto split: prod.splits)
  have len: "length ?out = length kvs"
    and nth: "\<And>j. j < key_count k ?ks \<Longrightarrow>
      ?out ! (below_count k ?ks + j) = map snd (filter (\<lambda>(k', v). k' = k) kvs) ! j"
    using csr_fill_prefix[OF assms(1), of kvs "[]" blank] assms(2) by (simp_all add: csr_fill_def)
  have off: "csr_offsets n ?ks ! k = below_count k ?ks"
      "csr_offsets n ?ks ! (k + 1) = below_count k ?ks + key_count k ?ks"
    unfolding below_count_Suc[symmetric]
    using csr_offsets_nth(2)[OF assms(1), of k] csr_offsets_nth(2)[OF assms(1), of "k + 1"] assms(2) by simp_all
  have "below_count k ?ks + key_count k ?ks \<le> length kvs"
    unfolding below_count_Suc[symmetric] by (metis length_filter_le length_map)
  then show ?thesis
    unfolding csr_segment_def off using nth by (intro segment_eqI) (simp_all only: len cnt length_map)
qed

section \<open>State machines\<close>

text \<open>
  A machine starts in an initial state and moves by \<open>step\<close>. An invariant that holds initially and
  that every step keeps holds in every reachable state.
\<close>

locale machine =
  fixes initial :: "'s \<Rightarrow> bool" and step :: "'s \<Rightarrow> 's \<Rightarrow> bool"
begin

inductive reachable :: "'s \<Rightarrow> bool" where
  start: "initial s \<Longrightarrow> reachable s"
| move: "reachable s \<Longrightarrow> step s s' \<Longrightarrow> reachable s'"

lemma reachable_steps: "step\<^sup>*\<^sup>* s s' \<Longrightarrow> reachable s \<Longrightarrow> reachable s'"
  by (induction rule: rtranclp_induct) (auto intro: move)

end

locale invariant_machine = machine initial step
  for initial :: "'s \<Rightarrow> bool" and step :: "'s \<Rightarrow> 's \<Rightarrow> bool" +
  fixes inv :: "'s \<Rightarrow> bool"
  assumes inv_initial: "initial s \<Longrightarrow> inv s"
    and inv_step: "inv s \<Longrightarrow> step s s' \<Longrightarrow> inv s'"
begin

lemma reachable_inv: "reachable s \<Longrightarrow> inv s"
  by (induction rule: reachable.induct) (auto intro: inv_initial inv_step)

lemma steps_inv: "step\<^sup>*\<^sup>* s s' \<Longrightarrow> inv s \<Longrightarrow> inv s'"
  by (induction rule: rtranclp_induct) (auto intro: inv_step)

end

end
