(* ===== verification/Enums.thy ===== *)
theory Enums
  imports LG_Prelude
begin

text \<open>
  The closed enumeration vocabulary of include/loop_guard/enums.hpp and the canonical names
  of src/enums.cpp. Every enumeration is a datatype with the source's enumerators in the
  source's order; \<open>values_E\<close> lists them in the order of their underlying values (every
  enumeration starts at 0 and is contiguous, as the header says), so the underlying value
  of an enumerator is its position and \<open>enum_from_u32\<close> is a bounds check and an index.

  The locale \<open>enum_range\<close> is the contract of the header: contiguous, total, at most one
  byte wide. It is interpreted for each enumeration. The names are pairwise
  different, so a name read back by a linear search over the enumeration (the way the text
  parser does it) gives the enumerator back.
\<close>

section \<open>The generic range check\<close>

definition enum_raw :: "'e list \<Rightarrow> 'e \<Rightarrow> u8" where
  "enum_raw vals e = word_of_nat (length (takeWhile (\<lambda>x. x \<noteq> e) vals))"

definition enum_from_u32 :: "'e list \<Rightarrow> u32 \<Rightarrow> 'e option" where
  "enum_from_u32 vals raw =
     (if unat raw < length vals then Some (vals ! unat raw) else None)"

definition enum_parse :: "('e \<Rightarrow> string) \<Rightarrow> 'e list \<Rightarrow> string \<Rightarrow> 'e option" where
  "enum_parse name vals text = find (\<lambda>e. name e = text) vals"

locale enum_range =
  fixes vals :: "'e list" and name :: "'e \<Rightarrow> string"
  assumes distinct_values: "distinct vals"
    and total: "\<And>e. e \<in> set vals"
    and small: "length vals \<le> 256"
    and distinct_names: "distinct (map name vals)"
begin

lemma takeWhile_index:
  assumes "i < length vals"
  shows "length (takeWhile (\<lambda>x. x \<noteq> vals ! i) vals) = i"
proof -
  have "takeWhile (\<lambda>x. x \<noteq> vals ! i) vals = take i vals"
  proof (rule takeWhile_eq_take_P_nth)
    show "vals ! j \<noteq> vals ! i" if "j < i" "j < length vals" for j
      using that assms nth_eq_iff_index_eq[OF distinct_values, of j i] by simp
  qed simp
  with assms show ?thesis by simp
qed

lemma raw_nth:
  assumes "i < length vals"
  shows "unat (enum_raw vals (vals ! i)) = i"
proof -
  have i: "i < 256" using assms small by simp
  have "enum_raw vals (vals ! i) = word_of_nat i"
    unfolding enum_raw_def takeWhile_index[OF assms] ..
  with i show ?thesis by (simp add: unat_of_nat)
qed

lemma raw_bound: "unat (enum_raw vals e) < length vals"
proof -
  obtain i where "i < length vals" "vals ! i = e"
    using total[of e] by (auto simp: in_set_conv_nth)
  then show ?thesis using raw_nth[of i] by simp
qed

lemma nth_raw: "vals ! unat (enum_raw vals e) = e"
proof -
  obtain i where "i < length vals" "vals ! i = e"
    using total[of e] by (auto simp: in_set_conv_nth)
  then show ?thesis using raw_nth[of i] by simp
qed

lemma raw_inject: "enum_raw vals e = enum_raw vals e' \<longleftrightarrow> e = e'"
  by (metis nth_raw)

lemma from_raw: "enum_from_u32 vals (ucast (enum_raw vals e)) = Some e"
proof -
  have "unat (ucast (enum_raw vals e) :: u32) = unat (enum_raw vals e)"
    by (rule unat_ucast_u8_u32)
  then show ?thesis by (simp add: enum_from_u32_def raw_bound nth_raw)
qed

lemma from_u32_SomeD: "enum_from_u32 vals r = Some e \<Longrightarrow> ucast (enum_raw vals e) = r"
  using raw_nth[of "unat r"]
  by (auto simp: enum_from_u32_def word_unat_eq_iff unat_ucast_u8_u32 split: if_splits)

lemma from_u32_None: "enum_from_u32 vals r = None \<longleftrightarrow> length vals \<le> unat r"
  by (auto simp: enum_from_u32_def)

lemma name_inject: "name e = name e' \<longleftrightarrow> e = e'"
  using distinct_names total by (auto simp: distinct_map inj_on_def)

lemma parse_name: "enum_parse name vals (name e) = Some e"
proof -
  have "find (\<lambda>x. x = e) xs = Some e" if "e \<in> set xs" for xs
    using that by (induction xs) auto
  then have "find (\<lambda>x. x = e) vals = Some e" using total by blast
  then show ?thesis by (simp add: enum_parse_def name_inject)
qed

end

section \<open>The enumerations\<close>

datatype outcome =
    Oc_Ok | Oc_Invalid | Oc_Unknown | Oc_Stale | Oc_Conflict | Oc_Unsupported | Oc_NotFound
    | Oc_AlreadyExists | Oc_Exhausted | Oc_IntegrityFailure | Oc_IoFailure | Oc_Refused
    | Oc_Indeterminate | Oc_Interrupted | Oc_Fenced

definition values_outcome :: "outcome list" where
  "values_outcome =
     [Oc_Ok, Oc_Invalid, Oc_Unknown, Oc_Stale, Oc_Conflict, Oc_Unsupported, Oc_NotFound
     , Oc_AlreadyExists, Oc_Exhausted, Oc_IntegrityFailure, Oc_IoFailure, Oc_Refused
     , Oc_Indeterminate, Oc_Interrupted, Oc_Fenced]"

primrec name_outcome :: "outcome \<Rightarrow> string" where
  "name_outcome Oc_Ok = ''Ok''"
| "name_outcome Oc_Invalid = ''Invalid''"
| "name_outcome Oc_Unknown = ''Unknown''"
| "name_outcome Oc_Stale = ''Stale''"
| "name_outcome Oc_Conflict = ''Conflict''"
| "name_outcome Oc_Unsupported = ''Unsupported''"
| "name_outcome Oc_NotFound = ''NotFound''"
| "name_outcome Oc_AlreadyExists = ''AlreadyExists''"
| "name_outcome Oc_Exhausted = ''Exhausted''"
| "name_outcome Oc_IntegrityFailure = ''IntegrityFailure''"
| "name_outcome Oc_IoFailure = ''IoFailure''"
| "name_outcome Oc_Refused = ''Refused''"
| "name_outcome Oc_Indeterminate = ''Indeterminate''"
| "name_outcome Oc_Interrupted = ''Interrupted''"
| "name_outcome Oc_Fenced = ''Fenced''"

interpretation outcome: enum_range values_outcome name_outcome
proof
  show "e \<in> set values_outcome" for e by (cases e) (simp_all add: values_outcome_def)
qed (simp_all add: values_outcome_def)

datatype loop_outcome =
    Loop_NoLoop | Loop_LoopConfirmed | Loop_Unknown | Loop_Stale | Loop_Conflict | Loop_Invalid
    | Loop_Unsupported | Loop_Indeterminate

definition values_loop_outcome :: "loop_outcome list" where
  "values_loop_outcome =
     [Loop_NoLoop, Loop_LoopConfirmed, Loop_Unknown, Loop_Stale, Loop_Conflict, Loop_Invalid
     , Loop_Unsupported, Loop_Indeterminate]"

primrec name_loop_outcome :: "loop_outcome \<Rightarrow> string" where
  "name_loop_outcome Loop_NoLoop = ''NoLoop''"
| "name_loop_outcome Loop_LoopConfirmed = ''LoopConfirmed''"
| "name_loop_outcome Loop_Unknown = ''Unknown''"
| "name_loop_outcome Loop_Stale = ''Stale''"
| "name_loop_outcome Loop_Conflict = ''Conflict''"
| "name_loop_outcome Loop_Invalid = ''Invalid''"
| "name_loop_outcome Loop_Unsupported = ''Unsupported''"
| "name_loop_outcome Loop_Indeterminate = ''Indeterminate''"

interpretation loop_outcome: enum_range values_loop_outcome name_loop_outcome
proof
  show "e \<in> set values_loop_outcome" for e by (cases e) (simp_all add: values_loop_outcome_def)
qed (simp_all add: values_loop_outcome_def)

datatype evidence_class =
    Ev_Present | Ev_Absent | Ev_Unknown

definition values_evidence_class :: "evidence_class list" where
  "values_evidence_class =
     [Ev_Present, Ev_Absent, Ev_Unknown]"

primrec name_evidence_class :: "evidence_class \<Rightarrow> string" where
  "name_evidence_class Ev_Present = ''Present''"
| "name_evidence_class Ev_Absent = ''Absent''"
| "name_evidence_class Ev_Unknown = ''Unknown''"

interpretation evidence_class: enum_range values_evidence_class name_evidence_class
proof
  show "e \<in> set values_evidence_class" for e by (cases e) (simp_all add: values_evidence_class_def)
qed (simp_all add: values_evidence_class_def)

datatype evidence_binding =
    Bind_Exact | Bind_GenerationMismatch | Bind_EpochFenced | Bind_LeaseExpired
    | Bind_Superseded | Bind_NoEvidence

definition values_evidence_binding :: "evidence_binding list" where
  "values_evidence_binding =
     [Bind_Exact, Bind_GenerationMismatch, Bind_EpochFenced, Bind_LeaseExpired, Bind_Superseded
     , Bind_NoEvidence]"

primrec name_evidence_binding :: "evidence_binding \<Rightarrow> string" where
  "name_evidence_binding Bind_Exact = ''Exact''"
| "name_evidence_binding Bind_GenerationMismatch = ''GenerationMismatch''"
| "name_evidence_binding Bind_EpochFenced = ''EpochFenced''"
| "name_evidence_binding Bind_LeaseExpired = ''LeaseExpired''"
| "name_evidence_binding Bind_Superseded = ''Superseded''"
| "name_evidence_binding Bind_NoEvidence = ''NoEvidence''"

interpretation evidence_binding: enum_range values_evidence_binding name_evidence_binding
proof
  show "e \<in> set values_evidence_binding" for e by (cases e) (simp_all add: values_evidence_binding_def)
qed (simp_all add: values_evidence_binding_def)

datatype hop_resolution =
    Hop_ProvenOpen | Hop_ProvenClosed | Hop_UnprovenOpen | Hop_Unproven | Hop_Conflicted
    | Hop_Unsupported

definition values_hop_resolution :: "hop_resolution list" where
  "values_hop_resolution =
     [Hop_ProvenOpen, Hop_ProvenClosed, Hop_UnprovenOpen, Hop_Unproven, Hop_Conflicted
     , Hop_Unsupported]"

primrec name_hop_resolution :: "hop_resolution \<Rightarrow> string" where
  "name_hop_resolution Hop_ProvenOpen = ''ProvenOpen''"
| "name_hop_resolution Hop_ProvenClosed = ''ProvenClosed''"
| "name_hop_resolution Hop_UnprovenOpen = ''UnprovenOpen''"
| "name_hop_resolution Hop_Unproven = ''Unproven''"
| "name_hop_resolution Hop_Conflicted = ''Conflicted''"
| "name_hop_resolution Hop_Unsupported = ''Unsupported''"

interpretation hop_resolution: enum_range values_hop_resolution name_hop_resolution
proof
  show "e \<in> set values_hop_resolution" for e by (cases e) (simp_all add: values_hop_resolution_def)
qed (simp_all add: values_hop_resolution_def)

datatype resource_kind =
    Kind_Switch | Kind_PortGroup | Kind_NextHopGroup | Kind_TunnelEndpoint | Kind_ServiceStage
    | Kind_HostInterface | Kind_VirtualSwitch | Kind_Unsupported

definition values_resource_kind :: "resource_kind list" where
  "values_resource_kind =
     [Kind_Switch, Kind_PortGroup, Kind_NextHopGroup, Kind_TunnelEndpoint, Kind_ServiceStage
     , Kind_HostInterface, Kind_VirtualSwitch, Kind_Unsupported]"

primrec name_resource_kind :: "resource_kind \<Rightarrow> string" where
  "name_resource_kind Kind_Switch = ''Switch''"
| "name_resource_kind Kind_PortGroup = ''PortGroup''"
| "name_resource_kind Kind_NextHopGroup = ''NextHopGroup''"
| "name_resource_kind Kind_TunnelEndpoint = ''TunnelEndpoint''"
| "name_resource_kind Kind_ServiceStage = ''ServiceStage''"
| "name_resource_kind Kind_HostInterface = ''HostInterface''"
| "name_resource_kind Kind_VirtualSwitch = ''VirtualSwitch''"
| "name_resource_kind Kind_Unsupported = ''Unsupported''"

interpretation resource_kind: enum_range values_resource_kind name_resource_kind
proof
  show "e \<in> set values_resource_kind" for e by (cases e) (simp_all add: values_resource_kind_def)
qed (simp_all add: values_resource_kind_def)

datatype administrative_state =
    Admin_Enabled | Admin_Disabled | Admin_Unknown

definition values_administrative_state :: "administrative_state list" where
  "values_administrative_state =
     [Admin_Enabled, Admin_Disabled, Admin_Unknown]"

primrec name_administrative_state :: "administrative_state \<Rightarrow> string" where
  "name_administrative_state Admin_Enabled = ''Enabled''"
| "name_administrative_state Admin_Disabled = ''Disabled''"
| "name_administrative_state Admin_Unknown = ''Unknown''"

interpretation administrative_state: enum_range values_administrative_state name_administrative_state
proof
  show "e \<in> set values_administrative_state" for e by (cases e) (simp_all add: values_administrative_state_def)
qed (simp_all add: values_administrative_state_def)

datatype link_state =
    Link_Up | Link_Down | Link_Unknown

definition values_link_state :: "link_state list" where
  "values_link_state =
     [Link_Up, Link_Down, Link_Unknown]"

primrec name_link_state :: "link_state \<Rightarrow> string" where
  "name_link_state Link_Up = ''Up''"
| "name_link_state Link_Down = ''Down''"
| "name_link_state Link_Unknown = ''Unknown''"

interpretation link_state: enum_range values_link_state name_link_state
proof
  show "e \<in> set values_link_state" for e by (cases e) (simp_all add: values_link_state_def)
qed (simp_all add: values_link_state_def)

datatype traffic_selector_kind =
    Sel_FlowClass | Sel_PrefixPair | Sel_TenantScope | Sel_ServiceChain

definition values_traffic_selector_kind :: "traffic_selector_kind list" where
  "values_traffic_selector_kind =
     [Sel_FlowClass, Sel_PrefixPair, Sel_TenantScope, Sel_ServiceChain]"

primrec name_traffic_selector_kind :: "traffic_selector_kind \<Rightarrow> string" where
  "name_traffic_selector_kind Sel_FlowClass = ''FlowClass''"
| "name_traffic_selector_kind Sel_PrefixPair = ''PrefixPair''"
| "name_traffic_selector_kind Sel_TenantScope = ''TenantScope''"
| "name_traffic_selector_kind Sel_ServiceChain = ''ServiceChain''"

interpretation traffic_selector_kind: enum_range values_traffic_selector_kind name_traffic_selector_kind
proof
  show "e \<in> set values_traffic_selector_kind" for e by (cases e) (simp_all add: values_traffic_selector_kind_def)
qed (simp_all add: values_traffic_selector_kind_def)

datatype containment_outcome =
    Con_NotRequired | Con_PlanOptimal | Con_PlanFeasible | Con_ProvenInfeasible
    | Con_SearchLimitReached | Con_Unsupported | Con_Invalid

definition values_containment_outcome :: "containment_outcome list" where
  "values_containment_outcome =
     [Con_NotRequired, Con_PlanOptimal, Con_PlanFeasible, Con_ProvenInfeasible
     , Con_SearchLimitReached, Con_Unsupported, Con_Invalid]"

primrec name_containment_outcome :: "containment_outcome \<Rightarrow> string" where
  "name_containment_outcome Con_NotRequired = ''NotRequired''"
| "name_containment_outcome Con_PlanOptimal = ''PlanOptimal''"
| "name_containment_outcome Con_PlanFeasible = ''PlanFeasible''"
| "name_containment_outcome Con_ProvenInfeasible = ''ProvenInfeasible''"
| "name_containment_outcome Con_SearchLimitReached = ''SearchLimitReached''"
| "name_containment_outcome Con_Unsupported = ''Unsupported''"
| "name_containment_outcome Con_Invalid = ''Invalid''"

interpretation containment_outcome: enum_range values_containment_outcome name_containment_outcome
proof
  show "e \<in> set values_containment_outcome" for e by (cases e) (simp_all add: values_containment_outcome_def)
qed (simp_all add: values_containment_outcome_def)

datatype target_reason =
    Target_SoleBreakOfWitness | Target_MinimumCostHittingSet | Target_FeasibleHittingSet
    | Target_GreedyRecommendation

definition values_target_reason :: "target_reason list" where
  "values_target_reason =
     [Target_SoleBreakOfWitness, Target_MinimumCostHittingSet, Target_FeasibleHittingSet
     , Target_GreedyRecommendation]"

primrec name_target_reason :: "target_reason \<Rightarrow> string" where
  "name_target_reason Target_SoleBreakOfWitness = ''SoleBreakOfWitness''"
| "name_target_reason Target_MinimumCostHittingSet = ''MinimumCostHittingSet''"
| "name_target_reason Target_FeasibleHittingSet = ''FeasibleHittingSet''"
| "name_target_reason Target_GreedyRecommendation = ''GreedyRecommendation''"

interpretation target_reason: enum_range values_target_reason name_target_reason
proof
  show "e \<in> set values_target_reason" for e by (cases e) (simp_all add: values_target_reason_def)
qed (simp_all add: values_target_reason_def)

datatype authority_kind =
    Auth_Observation | Auth_Eligibility | Auth_Recommendation | Auth_Authorization
    | Auth_Request | Auth_Acknowledgement | Auth_VerifiedEffect | Auth_Withdrawal

definition values_authority_kind :: "authority_kind list" where
  "values_authority_kind =
     [Auth_Observation, Auth_Eligibility, Auth_Recommendation, Auth_Authorization, Auth_Request
     , Auth_Acknowledgement, Auth_VerifiedEffect, Auth_Withdrawal]"

primrec name_authority_kind :: "authority_kind \<Rightarrow> string" where
  "name_authority_kind Auth_Observation = ''Observation''"
| "name_authority_kind Auth_Eligibility = ''Eligibility''"
| "name_authority_kind Auth_Recommendation = ''Recommendation''"
| "name_authority_kind Auth_Authorization = ''Authorization''"
| "name_authority_kind Auth_Request = ''Request''"
| "name_authority_kind Auth_Acknowledgement = ''Acknowledgement''"
| "name_authority_kind Auth_VerifiedEffect = ''VerifiedEffect''"
| "name_authority_kind Auth_Withdrawal = ''Withdrawal''"

interpretation authority_kind: enum_range values_authority_kind name_authority_kind
proof
  show "e \<in> set values_authority_kind" for e by (cases e) (simp_all add: values_authority_kind_def)
qed (simp_all add: values_authority_kind_def)

datatype grant_state =
    Grant_Active | Grant_Consumed | Grant_Expired | Grant_Revoked | Grant_Fenced

definition values_grant_state :: "grant_state list" where
  "values_grant_state =
     [Grant_Active, Grant_Consumed, Grant_Expired, Grant_Revoked, Grant_Fenced]"

primrec name_grant_state :: "grant_state \<Rightarrow> string" where
  "name_grant_state Grant_Active = ''Active''"
| "name_grant_state Grant_Consumed = ''Consumed''"
| "name_grant_state Grant_Expired = ''Expired''"
| "name_grant_state Grant_Revoked = ''Revoked''"
| "name_grant_state Grant_Fenced = ''Fenced''"

interpretation grant_state: enum_range values_grant_state name_grant_state
proof
  show "e \<in> set values_grant_state" for e by (cases e) (simp_all add: values_grant_state_def)
qed (simp_all add: values_grant_state_def)

datatype finding_state =
    Fs_Proposed | Fs_Confirmed | Fs_ContainmentAuthorized | Fs_ContainmentRequested
    | Fs_ContainmentAppliedUnverified | Fs_ContainmentVerified | Fs_Withdrawn | Fs_Stale
    | Fs_Fenced | Fs_Rejected

definition values_finding_state :: "finding_state list" where
  "values_finding_state =
     [Fs_Proposed, Fs_Confirmed, Fs_ContainmentAuthorized, Fs_ContainmentRequested
     , Fs_ContainmentAppliedUnverified, Fs_ContainmentVerified, Fs_Withdrawn, Fs_Stale
     , Fs_Fenced, Fs_Rejected]"

primrec name_finding_state :: "finding_state \<Rightarrow> string" where
  "name_finding_state Fs_Proposed = ''Proposed''"
| "name_finding_state Fs_Confirmed = ''Confirmed''"
| "name_finding_state Fs_ContainmentAuthorized = ''ContainmentAuthorized''"
| "name_finding_state Fs_ContainmentRequested = ''ContainmentRequested''"
| "name_finding_state Fs_ContainmentAppliedUnverified = ''ContainmentAppliedUnverified''"
| "name_finding_state Fs_ContainmentVerified = ''ContainmentVerified''"
| "name_finding_state Fs_Withdrawn = ''Withdrawn''"
| "name_finding_state Fs_Stale = ''Stale''"
| "name_finding_state Fs_Fenced = ''Fenced''"
| "name_finding_state Fs_Rejected = ''Rejected''"

interpretation finding_state: enum_range values_finding_state name_finding_state
proof
  show "e \<in> set values_finding_state" for e by (cases e) (simp_all add: values_finding_state_def)
qed (simp_all add: values_finding_state_def)

datatype fence_cause =
    Cause_None | Cause_TopologyGenerationAdvanced | Cause_ForwardingGenerationAdvanced
    | Cause_PolicyGenerationAdvanced | Cause_FabricEpochAdvanced
    | Cause_CoordinatorEpochAdvanced | Cause_BootAdvanced | Cause_ExplicitWithdrawal
    | Cause_GrantExpired | Cause_GrantRevoked

definition values_fence_cause :: "fence_cause list" where
  "values_fence_cause =
     [Cause_None, Cause_TopologyGenerationAdvanced, Cause_ForwardingGenerationAdvanced
     , Cause_PolicyGenerationAdvanced, Cause_FabricEpochAdvanced, Cause_CoordinatorEpochAdvanced
     , Cause_BootAdvanced, Cause_ExplicitWithdrawal, Cause_GrantExpired, Cause_GrantRevoked]"

primrec name_fence_cause :: "fence_cause \<Rightarrow> string" where
  "name_fence_cause Cause_None = ''None''"
| "name_fence_cause Cause_TopologyGenerationAdvanced = ''TopologyGenerationAdvanced''"
| "name_fence_cause Cause_ForwardingGenerationAdvanced = ''ForwardingGenerationAdvanced''"
| "name_fence_cause Cause_PolicyGenerationAdvanced = ''PolicyGenerationAdvanced''"
| "name_fence_cause Cause_FabricEpochAdvanced = ''FabricEpochAdvanced''"
| "name_fence_cause Cause_CoordinatorEpochAdvanced = ''CoordinatorEpochAdvanced''"
| "name_fence_cause Cause_BootAdvanced = ''BootAdvanced''"
| "name_fence_cause Cause_ExplicitWithdrawal = ''ExplicitWithdrawal''"
| "name_fence_cause Cause_GrantExpired = ''GrantExpired''"
| "name_fence_cause Cause_GrantRevoked = ''GrantRevoked''"

interpretation fence_cause: enum_range values_fence_cause name_fence_cause
proof
  show "e \<in> set values_fence_cause" for e by (cases e) (simp_all add: values_fence_cause_def)
qed (simp_all add: values_fence_cause_def)

datatype evidence_origin =
    Origin_Real | Origin_Synthetic | Origin_Unsupported

definition values_evidence_origin :: "evidence_origin list" where
  "values_evidence_origin =
     [Origin_Real, Origin_Synthetic, Origin_Unsupported]"

primrec name_evidence_origin :: "evidence_origin \<Rightarrow> string" where
  "name_evidence_origin Origin_Real = ''Real''"
| "name_evidence_origin Origin_Synthetic = ''Synthetic''"
| "name_evidence_origin Origin_Unsupported = ''Unsupported''"

interpretation evidence_origin: enum_range values_evidence_origin name_evidence_origin
proof
  show "e \<in> set values_evidence_origin" for e by (cases e) (simp_all add: values_evidence_origin_def)
qed (simp_all add: values_evidence_origin_def)

datatype producer_kind =
    Producer_SyntheticFixture | Producer_InProcessRuntime | Producer_RemoteCoordinator
    | Producer_RemoteWorker | Producer_Operator

definition values_producer_kind :: "producer_kind list" where
  "values_producer_kind =
     [Producer_SyntheticFixture, Producer_InProcessRuntime, Producer_RemoteCoordinator
     , Producer_RemoteWorker, Producer_Operator]"

primrec name_producer_kind :: "producer_kind \<Rightarrow> string" where
  "name_producer_kind Producer_SyntheticFixture = ''SyntheticFixture''"
| "name_producer_kind Producer_InProcessRuntime = ''InProcessRuntime''"
| "name_producer_kind Producer_RemoteCoordinator = ''RemoteCoordinator''"
| "name_producer_kind Producer_RemoteWorker = ''RemoteWorker''"
| "name_producer_kind Producer_Operator = ''Operator''"

interpretation producer_kind: enum_range values_producer_kind name_producer_kind
proof
  show "e \<in> set values_producer_kind" for e by (cases e) (simp_all add: values_producer_kind_def)
qed (simp_all add: values_producer_kind_def)

datatype (plugins only: code) reason_code =
    R_RequestAccepted | R_RequestRejectedStructural | R_LimitsExceeded
    | R_DuplicateObservationRejected | R_ObservationSequenceRegressed
    | R_ObservationGenerationMismatch | R_ObservationEpochFenced | R_ObservationLeaseExpired
    | R_ObservationSuperseded | R_NoObservationForHop | R_HopConflictsWithItself
    | R_CycleInTopologyButNoForwardingEvidence | R_CycleRequiresUnprovenHop
    | R_CycleBrokenByAbsentEvidence | R_WitnessRequiresExactGenerations
    | R_WitnessHopGenerationsDisagree | R_WitnessSelectorNotAdmitted
    | R_WitnessResourceAdministrativelyDown | R_WitnessResourceUnknown
    | R_WitnessSuccessfullyValidated | R_WitnessRejectedByValidator | R_SearchBudgetExhausted
    | R_SearchCompletedExhaustively | R_SelectorScopeEmpty | R_ContainmentNotRequired
    | R_ContainmentPlanEmptyButLoopsRemain | R_ContainmentTargetsProvedMinimum
    | R_ContainmentTargetsFeasibleOnly | R_ContainmentProvedInfeasible
    | R_ContainmentCertificateNonContainableCycle | R_ContainmentPolicyRefusedTargets
    | R_ContainmentUnrelatedForwardingUntouched | R_ContainmentGreedyRecommendationOnly
    | R_ContainmentCostBudgetExceeded | R_ContainmentPlanValidated | R_ContainmentPlanInvalid
    | R_AuthorityGrantAbsent | R_AuthorityGrantExpired | R_AuthorityGrantRevoked
    | R_AuthorityGrantFenced | R_AuthorityTargetOutOfScope | R_AuthorityBudgetExceeded
    | R_AcknowledgementIsNotEffect | R_EffectUnverifiedForTarget | R_EffectVerifiedForTarget
    | R_FindingWithdrawn | R_FindingFencedByGenerationChange | R_FindingFencedByRestart
    | R_FindingSupersededByNewerAssessment | R_PersistenceFormatUnsupported
    | R_PersistenceIntegrityFailure | R_PersistenceTornTailRecovered
    | R_PersistenceTrailingGarbage | R_PersistenceSequenceRegression
    | R_PersistenceRecordRejected | R_PersistenceSnapshotCommitted | R_RestartFreshIncarnation
    | R_DynamicStateNotRestored | R_WireFrameAccepted | R_WireFrameTruncated
    | R_WireFrameOversized | R_WireFrameBadMagic | R_WireFrameBadVersion
    | R_WireFrameBadIntegrity | R_WireFrameBadEnum | R_WireFrameTrailingBytes
    | R_WireSessionMismatch | R_WireSequenceRegressed | R_WireHandshakeRejected
    | R_WireSessionClosed | R_WireFrameTypeUnsupported | R_UnsupportedHardwarePath
    | R_ResourceBudgetExhausted | R_InternalInvariantViolated

definition values_reason_code :: "reason_code list" where
  "values_reason_code =
     [R_RequestAccepted, R_RequestRejectedStructural, R_LimitsExceeded
     , R_DuplicateObservationRejected, R_ObservationSequenceRegressed
     , R_ObservationGenerationMismatch, R_ObservationEpochFenced, R_ObservationLeaseExpired
     , R_ObservationSuperseded, R_NoObservationForHop, R_HopConflictsWithItself
     , R_CycleInTopologyButNoForwardingEvidence, R_CycleRequiresUnprovenHop
     , R_CycleBrokenByAbsentEvidence, R_WitnessRequiresExactGenerations
     , R_WitnessHopGenerationsDisagree, R_WitnessSelectorNotAdmitted
     , R_WitnessResourceAdministrativelyDown, R_WitnessResourceUnknown
     , R_WitnessSuccessfullyValidated, R_WitnessRejectedByValidator, R_SearchBudgetExhausted
     , R_SearchCompletedExhaustively, R_SelectorScopeEmpty, R_ContainmentNotRequired
     , R_ContainmentPlanEmptyButLoopsRemain, R_ContainmentTargetsProvedMinimum
     , R_ContainmentTargetsFeasibleOnly, R_ContainmentProvedInfeasible
     , R_ContainmentCertificateNonContainableCycle, R_ContainmentPolicyRefusedTargets
     , R_ContainmentUnrelatedForwardingUntouched, R_ContainmentGreedyRecommendationOnly
     , R_ContainmentCostBudgetExceeded, R_ContainmentPlanValidated, R_ContainmentPlanInvalid
     , R_AuthorityGrantAbsent, R_AuthorityGrantExpired, R_AuthorityGrantRevoked
     , R_AuthorityGrantFenced, R_AuthorityTargetOutOfScope, R_AuthorityBudgetExceeded
     , R_AcknowledgementIsNotEffect, R_EffectUnverifiedForTarget, R_EffectVerifiedForTarget
     , R_FindingWithdrawn, R_FindingFencedByGenerationChange, R_FindingFencedByRestart
     , R_FindingSupersededByNewerAssessment, R_PersistenceFormatUnsupported
     , R_PersistenceIntegrityFailure, R_PersistenceTornTailRecovered
     , R_PersistenceTrailingGarbage, R_PersistenceSequenceRegression
     , R_PersistenceRecordRejected, R_PersistenceSnapshotCommitted, R_RestartFreshIncarnation
     , R_DynamicStateNotRestored, R_WireFrameAccepted, R_WireFrameTruncated
     , R_WireFrameOversized, R_WireFrameBadMagic, R_WireFrameBadVersion, R_WireFrameBadIntegrity
     , R_WireFrameBadEnum, R_WireFrameTrailingBytes, R_WireSessionMismatch
     , R_WireSequenceRegressed, R_WireHandshakeRejected, R_WireSessionClosed
     , R_WireFrameTypeUnsupported, R_UnsupportedHardwarePath, R_ResourceBudgetExhausted
     , R_InternalInvariantViolated]"

primrec name_reason_code :: "reason_code \<Rightarrow> string" where
  "name_reason_code R_RequestAccepted = ''RequestAccepted''"
| "name_reason_code R_RequestRejectedStructural = ''RequestRejectedStructural''"
| "name_reason_code R_LimitsExceeded = ''LimitsExceeded''"
| "name_reason_code R_DuplicateObservationRejected = ''DuplicateObservationRejected''"
| "name_reason_code R_ObservationSequenceRegressed = ''ObservationSequenceRegressed''"
| "name_reason_code R_ObservationGenerationMismatch = ''ObservationGenerationMismatch''"
| "name_reason_code R_ObservationEpochFenced = ''ObservationEpochFenced''"
| "name_reason_code R_ObservationLeaseExpired = ''ObservationLeaseExpired''"
| "name_reason_code R_ObservationSuperseded = ''ObservationSuperseded''"
| "name_reason_code R_NoObservationForHop = ''NoObservationForHop''"
| "name_reason_code R_HopConflictsWithItself = ''HopConflictsWithItself''"
| "name_reason_code R_CycleInTopologyButNoForwardingEvidence = ''CycleInTopologyButNoForwardingEvidence''"
| "name_reason_code R_CycleRequiresUnprovenHop = ''CycleRequiresUnprovenHop''"
| "name_reason_code R_CycleBrokenByAbsentEvidence = ''CycleBrokenByAbsentEvidence''"
| "name_reason_code R_WitnessRequiresExactGenerations = ''WitnessRequiresExactGenerations''"
| "name_reason_code R_WitnessHopGenerationsDisagree = ''WitnessHopGenerationsDisagree''"
| "name_reason_code R_WitnessSelectorNotAdmitted = ''WitnessSelectorNotAdmitted''"
| "name_reason_code R_WitnessResourceAdministrativelyDown = ''WitnessResourceAdministrativelyDown''"
| "name_reason_code R_WitnessResourceUnknown = ''WitnessResourceUnknown''"
| "name_reason_code R_WitnessSuccessfullyValidated = ''WitnessSuccessfullyValidated''"
| "name_reason_code R_WitnessRejectedByValidator = ''WitnessRejectedByValidator''"
| "name_reason_code R_SearchBudgetExhausted = ''SearchBudgetExhausted''"
| "name_reason_code R_SearchCompletedExhaustively = ''SearchCompletedExhaustively''"
| "name_reason_code R_SelectorScopeEmpty = ''SelectorScopeEmpty''"
| "name_reason_code R_ContainmentNotRequired = ''ContainmentNotRequired''"
| "name_reason_code R_ContainmentPlanEmptyButLoopsRemain = ''ContainmentPlanEmptyButLoopsRemain''"
| "name_reason_code R_ContainmentTargetsProvedMinimum = ''ContainmentTargetsProvedMinimum''"
| "name_reason_code R_ContainmentTargetsFeasibleOnly = ''ContainmentTargetsFeasibleOnly''"
| "name_reason_code R_ContainmentProvedInfeasible = ''ContainmentProvedInfeasible''"
| "name_reason_code R_ContainmentCertificateNonContainableCycle = ''ContainmentCertificateNonContainableCycle''"
| "name_reason_code R_ContainmentPolicyRefusedTargets = ''ContainmentPolicyRefusedTargets''"
| "name_reason_code R_ContainmentUnrelatedForwardingUntouched = ''ContainmentUnrelatedForwardingUntouched''"
| "name_reason_code R_ContainmentGreedyRecommendationOnly = ''ContainmentGreedyRecommendationOnly''"
| "name_reason_code R_ContainmentCostBudgetExceeded = ''ContainmentCostBudgetExceeded''"
| "name_reason_code R_ContainmentPlanValidated = ''ContainmentPlanValidated''"
| "name_reason_code R_ContainmentPlanInvalid = ''ContainmentPlanInvalid''"
| "name_reason_code R_AuthorityGrantAbsent = ''AuthorityGrantAbsent''"
| "name_reason_code R_AuthorityGrantExpired = ''AuthorityGrantExpired''"
| "name_reason_code R_AuthorityGrantRevoked = ''AuthorityGrantRevoked''"
| "name_reason_code R_AuthorityGrantFenced = ''AuthorityGrantFenced''"
| "name_reason_code R_AuthorityTargetOutOfScope = ''AuthorityTargetOutOfScope''"
| "name_reason_code R_AuthorityBudgetExceeded = ''AuthorityBudgetExceeded''"
| "name_reason_code R_AcknowledgementIsNotEffect = ''AcknowledgementIsNotEffect''"
| "name_reason_code R_EffectUnverifiedForTarget = ''EffectUnverifiedForTarget''"
| "name_reason_code R_EffectVerifiedForTarget = ''EffectVerifiedForTarget''"
| "name_reason_code R_FindingWithdrawn = ''FindingWithdrawn''"
| "name_reason_code R_FindingFencedByGenerationChange = ''FindingFencedByGenerationChange''"
| "name_reason_code R_FindingFencedByRestart = ''FindingFencedByRestart''"
| "name_reason_code R_FindingSupersededByNewerAssessment = ''FindingSupersededByNewerAssessment''"
| "name_reason_code R_PersistenceFormatUnsupported = ''PersistenceFormatUnsupported''"
| "name_reason_code R_PersistenceIntegrityFailure = ''PersistenceIntegrityFailure''"
| "name_reason_code R_PersistenceTornTailRecovered = ''PersistenceTornTailRecovered''"
| "name_reason_code R_PersistenceTrailingGarbage = ''PersistenceTrailingGarbage''"
| "name_reason_code R_PersistenceSequenceRegression = ''PersistenceSequenceRegression''"
| "name_reason_code R_PersistenceRecordRejected = ''PersistenceRecordRejected''"
| "name_reason_code R_PersistenceSnapshotCommitted = ''PersistenceSnapshotCommitted''"
| "name_reason_code R_RestartFreshIncarnation = ''RestartFreshIncarnation''"
| "name_reason_code R_DynamicStateNotRestored = ''DynamicStateNotRestored''"
| "name_reason_code R_WireFrameAccepted = ''WireFrameAccepted''"
| "name_reason_code R_WireFrameTruncated = ''WireFrameTruncated''"
| "name_reason_code R_WireFrameOversized = ''WireFrameOversized''"
| "name_reason_code R_WireFrameBadMagic = ''WireFrameBadMagic''"
| "name_reason_code R_WireFrameBadVersion = ''WireFrameBadVersion''"
| "name_reason_code R_WireFrameBadIntegrity = ''WireFrameBadIntegrity''"
| "name_reason_code R_WireFrameBadEnum = ''WireFrameBadEnum''"
| "name_reason_code R_WireFrameTrailingBytes = ''WireFrameTrailingBytes''"
| "name_reason_code R_WireSessionMismatch = ''WireSessionMismatch''"
| "name_reason_code R_WireSequenceRegressed = ''WireSequenceRegressed''"
| "name_reason_code R_WireHandshakeRejected = ''WireHandshakeRejected''"
| "name_reason_code R_WireSessionClosed = ''WireSessionClosed''"
| "name_reason_code R_WireFrameTypeUnsupported = ''WireFrameTypeUnsupported''"
| "name_reason_code R_UnsupportedHardwarePath = ''UnsupportedHardwarePath''"
| "name_reason_code R_ResourceBudgetExhausted = ''ResourceBudgetExhausted''"
| "name_reason_code R_InternalInvariantViolated = ''InternalInvariantViolated''"

interpretation reason_code: enum_range values_reason_code name_reason_code
proof
  show "e \<in> set values_reason_code" for e by (cases e) (simp_all add: values_reason_code_def)
qed (simp_all add: values_reason_code_def)

datatype severity =
    Sev_Info | Sev_Notice | Sev_Warning | Sev_Critical

definition values_severity :: "severity list" where
  "values_severity =
     [Sev_Info, Sev_Notice, Sev_Warning, Sev_Critical]"

primrec name_severity :: "severity \<Rightarrow> string" where
  "name_severity Sev_Info = ''Info''"
| "name_severity Sev_Notice = ''Notice''"
| "name_severity Sev_Warning = ''Warning''"
| "name_severity Sev_Critical = ''Critical''"

interpretation severity: enum_range values_severity name_severity
proof
  show "e \<in> set values_severity" for e by (cases e) (simp_all add: values_severity_def)
qed (simp_all add: values_severity_def)

section \<open>Orders and flag sets\<close>

text \<open>The sources compare resource kinds and severities; C++ compares the underlying values.\<close>

instantiation resource_kind :: linorder
begin

definition less_eq_resource_kind :: "resource_kind \<Rightarrow> resource_kind \<Rightarrow> bool" where
  "less_eq_resource_kind a b \<longleftrightarrow> enum_raw values_resource_kind a \<le> enum_raw values_resource_kind b"

definition less_resource_kind :: "resource_kind \<Rightarrow> resource_kind \<Rightarrow> bool" where
  "less_resource_kind a b \<longleftrightarrow> enum_raw values_resource_kind a < enum_raw values_resource_kind b"

instance
  by standard (auto simp: less_eq_resource_kind_def less_resource_kind_def
      dest: order.antisym simp flip: resource_kind.raw_inject)

end

instantiation severity :: linorder
begin

definition less_eq_severity :: "severity \<Rightarrow> severity \<Rightarrow> bool" where
  "less_eq_severity a b \<longleftrightarrow> enum_raw values_severity a \<le> enum_raw values_severity b"

definition less_severity :: "severity \<Rightarrow> severity \<Rightarrow> bool" where
  "less_severity a b \<longleftrightarrow> enum_raw values_severity a < enum_raw values_severity b"

instance
  by standard (auto simp: less_eq_severity_def less_severity_def
      dest: order.antisym simp flip: severity.raw_inject)

end

instantiation reason_code :: linorder
begin

definition less_eq_reason_code :: "reason_code \<Rightarrow> reason_code \<Rightarrow> bool" where
  "less_eq_reason_code a b \<longleftrightarrow> enum_raw values_reason_code a \<le> enum_raw values_reason_code b"

definition less_reason_code :: "reason_code \<Rightarrow> reason_code \<Rightarrow> bool" where
  "less_reason_code a b \<longleftrightarrow> enum_raw values_reason_code a < enum_raw values_reason_code b"

instance
  by standard (auto simp: less_eq_reason_code_def less_reason_code_def
      dest: order.antisym simp flip: reason_code.raw_inject)

end

definition k_assessment_none :: u32 where "k_assessment_none = 0"
definition k_assessment_search_limit_reached :: u32 where "k_assessment_search_limit_reached = 1"
definition k_assessment_unproven_hops_present :: u32 where "k_assessment_unproven_hops_present = 2"
definition k_assessment_conflicts_present :: u32 where "k_assessment_conflicts_present = 4"
definition k_assessment_stale_evidence_present :: u32 where "k_assessment_stale_evidence_present = 8"
definition k_assessment_additional_cycles_possible :: u32 where "k_assessment_additional_cycles_possible = 16"
definition k_assessment_contained_by_active_intent :: u32 where "k_assessment_contained_by_active_intent = 32"
definition k_assessment_no_evidence_at_all :: u32 where "k_assessment_no_evidence_at_all = 64"
definition k_plan_none :: u32 where "k_plan_none = 0"
definition k_plan_greedy_recommendation_present :: u32 where "k_plan_greedy_recommendation_present = 1"
definition k_plan_touches_non_containable_resources :: u32 where "k_plan_touches_non_containable_resources = 2"
definition k_plan_cost_budget_exceeded :: u32 where "k_plan_cost_budget_exceeded = 4"
definition k_plan_unrelated_forwarding_untouched :: u32 where "k_plan_unrelated_forwarding_untouched = 8"
definition k_plan_witness_set_incomplete :: u32 where "k_plan_witness_set_incomplete = 16"
definition k_plan_search_limit_reached :: u32 where "k_plan_search_limit_reached = 32"
definition k_plan_proved_minimum :: u32 where "k_plan_proved_minimum = 64"
definition k_plan_certificate_attached :: u32 where "k_plan_certificate_attached = 128"
definition k_plan_contains_whole_witness :: u32 where "k_plan_contains_whole_witness = 256"

lemmas flag_defs [lg_defs] =
  k_assessment_none_def k_assessment_search_limit_reached_def
  k_assessment_unproven_hops_present_def k_assessment_conflicts_present_def
  k_assessment_stale_evidence_present_def k_assessment_additional_cycles_possible_def
  k_assessment_contained_by_active_intent_def k_assessment_no_evidence_at_all_def
  k_plan_none_def k_plan_greedy_recommendation_present_def
  k_plan_touches_non_containable_resources_def k_plan_cost_budget_exceeded_def
  k_plan_unrelated_forwarding_untouched_def k_plan_witness_set_incomplete_def
  k_plan_search_limit_reached_def k_plan_proved_minimum_def k_plan_certificate_attached_def
  k_plan_contains_whole_witness_def

definition has_flag :: "u32 \<Rightarrow> u32 \<Rightarrow> bool" where
  "has_flag flags b \<longleftrightarrow> flags AND b \<noteq> 0"

fun join_flags :: "string list \<Rightarrow> string" where
  "join_flags [] = ''None''"
| "join_flags [p] = p"
| "join_flags (p # ps) = p @ '','' @ join_flags ps"

definition assessment_flags_to_string :: "u32 \<Rightarrow> string" where
  "assessment_flags_to_string flags =
     join_flags (map snd (filter (\<lambda>(b, name). has_flag flags b)
       [(k_assessment_search_limit_reached, ''SearchLimitReached''),
        (k_assessment_unproven_hops_present, ''UnprovenHopsPresent''),
        (k_assessment_conflicts_present, ''ConflictsPresent''),
        (k_assessment_stale_evidence_present, ''StaleEvidencePresent''),
        (k_assessment_additional_cycles_possible, ''AdditionalCyclesPossible''),
        (k_assessment_contained_by_active_intent, ''ContainedByActiveIntent''),
        (k_assessment_no_evidence_at_all, ''NoEvidenceAtAll'')]))"

definition plan_flags_to_string :: "u32 \<Rightarrow> string" where
  "plan_flags_to_string flags =
     join_flags (map snd (filter (\<lambda>(b, name). has_flag flags b)
       [(k_plan_greedy_recommendation_present, ''GreedyRecommendationPresent''),
        (k_plan_touches_non_containable_resources, ''TouchesNonContainableResources''),
        (k_plan_cost_budget_exceeded, ''CostBudgetExceeded''),
        (k_plan_unrelated_forwarding_untouched, ''UnrelatedForwardingUntouched''),
        (k_plan_witness_set_incomplete, ''WitnessSetIncomplete''),
        (k_plan_search_limit_reached, ''SearchLimitReached''),
        (k_plan_proved_minimum, ''ProvedMinimum''),
        (k_plan_certificate_attached, ''CertificateAttached''),
        (k_plan_contains_whole_witness, ''ContainsWholeWitness'')]))"

end
