(* ===== verification/Digest.thy ===== *)
theory Digest
  imports LG_Prelude
begin

text \<open>
  The integrity digest of src/digest.cpp: streaming SHA-256 and its hexadecimal rendering.

  \<open>sha256_ctx\<close> is class Sha256: the eight chaining words, the bytes waiting for a complete
  block, the 64-bit byte counter and the finished flag. The source keeps the waiting bytes in
  a 64-byte array with a fill count; the model keeps the filled prefix, the only part
  of the array the source reads. \<open>sha_compress\<close>, \<open>sha_update\<close> and \<open>sha_finish\<close> are the member
  functions of the same names, on 32-bit words.

  \<open>sha_reference\<close> is the abstract specification: pad the whole message, split it into
  blocks, fold the compression function. The lemmas show that a context that absorbed a
  message in any number of pieces represents it (\<open>sha_represents\<close>), so the streaming code
  computes the reference function, and that hexadecimal text is parsed back to its digest.
\<close>

section \<open>The compression function\<close>

type_synonym digest = "u8 list"

definition k_digest_bytes :: nat where
  "k_digest_bytes = 32"

definition initial_state :: "u32 list" where
  "initial_state =
     [0x6A09E667, 0xBB67AE85, 0x3C6EF372, 0xA54FF53A, 0x510E527F, 0x9B05688C,
      0x1F83D9AB, 0x5BE0CD19]"

definition round_constants :: "u32 list" where
  "round_constants =
     [0x428A2F98, 0x71374491, 0xB5C0FBCF, 0xE9B5DBA5, 0x3956C25B, 0x59F111F1,
      0x923F82A4, 0xAB1C5ED5, 0xD807AA98, 0x12835B01, 0x243185BE, 0x550C7DC3,
      0x72BE5D74, 0x80DEB1FE, 0x9BDC06A7, 0xC19BF174, 0xE49B69C1, 0xEFBE4786,
      0x0FC19DC6, 0x240CA1CC, 0x2DE92C6F, 0x4A7484AA, 0x5CB0A9DC, 0x76F988DA,
      0x983E5152, 0xA831C66D, 0xB00327C8, 0xBF597FC7, 0xC6E00BF3, 0xD5A79147,
      0x06CA6351, 0x14292967, 0x27B70A85, 0x2E1B2138, 0x4D2C6DFC, 0x53380D13,
      0x650A7354, 0x766A0ABB, 0x81C2C92E, 0x92722C85, 0xA2BFE8A1, 0xA81A664B,
      0xC24B8B70, 0xC76C51A3, 0xD192E819, 0xD6990624, 0xF40E3585, 0x106AA070,
      0x19A4C116, 0x1E376C08, 0x2748774C, 0x34B0BCB5, 0x391C0CB3, 0x4ED8AA4A,
      0x5B9CCA4F, 0x682E6FF3, 0x748F82EE, 0x78A5636F, 0x84C87814, 0x8CC70208,
      0x90BEFFFA, 0xA4506CEB, 0xBEF9A3F7, 0xC67178F2]"

definition rotr :: "u32 \<Rightarrow> nat \<Rightarrow> u32" where
  "rotr x n = (drop_bit n x OR push_bit (32 - n) x)"

definition schedule_start :: "u8 list \<Rightarrow> u32 list" where
  "schedule_start block = map (\<lambda>i.
     push_bit 24 (ucast (block ! (4 * i))) OR push_bit 16 (ucast (block ! (4 * i + 1))) OR
     push_bit 8 (ucast (block ! (4 * i + 2))) OR ucast (block ! (4 * i + 3))) [0..<16]"

definition schedule_next :: "u32 list \<Rightarrow> nat \<Rightarrow> u32 list" where
  "schedule_next w i =
     (let s0 = rotr (w ! (i - 15)) 7 XOR rotr (w ! (i - 15)) 18 XOR drop_bit 3 (w ! (i - 15));
          s1 = rotr (w ! (i - 2)) 17 XOR rotr (w ! (i - 2)) 19 XOR drop_bit 10 (w ! (i - 2))
      in w @ [w ! (i - 16) + s0 + w ! (i - 7) + s1])"

definition message_schedule :: "u8 list \<Rightarrow> u32 list" where
  "message_schedule block = foldl schedule_next (schedule_start block) [16..<64]"

type_synonym sha_vars = "u32 \<times> u32 \<times> u32 \<times> u32 \<times> u32 \<times> u32 \<times> u32 \<times> u32"

fun sha_round :: "u32 list \<Rightarrow> sha_vars \<Rightarrow> nat \<Rightarrow> sha_vars" where
  "sha_round schedule (a, b, c, d, e, f, g, h) i =
     (let s1 = rotr e 6 XOR rotr e 11 XOR rotr e 25;
          choice = (e AND f) XOR (NOT e AND g);
          temp1 = h + s1 + choice + round_constants ! i + schedule ! i;
          s0 = rotr a 2 XOR rotr a 13 XOR rotr a 22;
          majority = (a AND b) XOR (a AND c) XOR (b AND c);
          temp2 = s0 + majority
      in (temp1 + temp2, a, b, c, d + temp1, e, f, g))"

definition sha_compress :: "u32 list \<Rightarrow> u8 list \<Rightarrow> u32 list" where
  "sha_compress st block =
     (let (a, b, c, d, e, f, g, h) =
        foldl (sha_round (message_schedule block))
          (st ! 0, st ! 1, st ! 2, st ! 3, st ! 4, st ! 5, st ! 6, st ! 7) [0..<64]
      in [st ! 0 + a, st ! 1 + b, st ! 2 + c, st ! 3 + d,
          st ! 4 + e, st ! 5 + f, st ! 6 + g, st ! 7 + h])"

section \<open>The streaming interface\<close>

record sha256_ctx =
  sha_state :: "u32 list"
  sha_buffer :: "u8 list"
  sha_total :: u64
  sha_finished :: bool

definition sha_init :: sha256_ctx where
  "sha_init = \<lparr>sha_state = initial_state, sha_buffer = [], sha_total = 0, sha_finished = False\<rparr>"

text \<open>The loop over complete blocks: the remaining state and the bytes not consumed.\<close>

function sha_blocks :: "u32 list \<Rightarrow> u8 list \<Rightarrow> u32 list \<times> u8 list" where
  "sha_blocks st data =
     (if 64 \<le> length data then sha_blocks (sha_compress st (take 64 data)) (drop 64 data)
      else (st, data))"
  by pat_completeness auto
termination
  by (relation "measure (\<lambda>(st, data). length data)") auto

declare sha_blocks.simps [simp del]

definition sha_update :: "sha256_ctx \<Rightarrow> u8 list \<Rightarrow> sha256_ctx" where
  "sha_update h data =
     (if sha_finished h then h
      else let total_bytes = sha_total h + of_nat (length data);
               offset = (if sha_buffer h = [] then 0
                         else min (length data) (64 - length (sha_buffer h)));
               filled = sha_buffer h @ take offset data;
               (st, buffer) = (if sha_buffer h \<noteq> [] \<and> length filled = 64
                               then (sha_compress (sha_state h) filled, []) else (sha_state h, filled));
               (st', rest) = sha_blocks st (drop offset data)
           in h\<lparr>sha_state := st', sha_total := total_bytes,
                sha_buffer := buffer @ take (64 - length buffer) rest\<rparr>)"

definition be64 :: "u64 \<Rightarrow> u8 list" where
  "be64 n = map (\<lambda>i. ucast (drop_bit ((7 - i) * 8) n AND 0xFF)) [0..<8]"

definition sha_padding :: "u64 \<Rightarrow> u8 list" where
  "sha_padding total_bytes =
     (let bit_length = total_bytes * 8;
          remainder = unat (total_bytes mod 64);
          pad_size = (if remainder < 56 then 56 - remainder else 120 - remainder)
      in 0x80 # replicate (pad_size - 1) 0 @ be64 bit_length)"

definition state_bytes :: "u32 list \<Rightarrow> u8 list" where
  "state_bytes st = concat (map (\<lambda>w. [ucast (drop_bit 24 w AND 0xFF), ucast (drop_bit 16 w AND 0xFF),
     ucast (drop_bit 8 w AND 0xFF), ucast (w AND 0xFF)]) st)"

definition sha_finish_ctx :: "sha256_ctx \<Rightarrow> sha256_ctx" where
  "sha_finish_ctx h =
     (if sha_finished h then h
      else (sha_update h (sha_padding (sha_total h)))\<lparr>sha_finished := True\<rparr>)"

definition sha_finish :: "sha256_ctx \<Rightarrow> digest" where
  "sha_finish h = state_bytes (sha_state (sha_finish_ctx h))"

definition sha256 :: "u8 list \<Rightarrow> digest" where
  "sha256 data = sha_finish (sha_update sha_init data)"

definition sha256_segments :: "u8 list list \<Rightarrow> digest" where
  "sha256_segments segments = sha_finish (foldl sha_update sha_init segments)"

section \<open>Hexadecimal text\<close>

definition digest_is_zero :: "digest \<Rightarrow> bool" where
  "digest_is_zero d \<longleftrightarrow> list_all (\<lambda>b. b = 0) d"

definition hex_digit :: "nat \<Rightarrow> char" where
  "hex_digit n = ''0123456789abcdef'' ! n"

definition to_hex :: "digest \<Rightarrow> string" where
  "to_hex d = concat (map (\<lambda>b. [hex_digit (unat (drop_bit 4 b AND 0x0F)), hex_digit (unat (b AND 0x0F))]) d)"

definition nibble :: "char \<Rightarrow> nat option" where
  "nibble c =
     (if CHR ''0'' \<le> c \<and> c \<le> CHR ''9'' then Some (of_char c - 48)
      else if CHR ''a'' \<le> c \<and> c \<le> CHR ''f'' then Some (of_char c - 97 + 10)
      else if CHR ''A'' \<le> c \<and> c \<le> CHR ''F'' then Some (of_char c - 65 + 10)
      else None)"

fun hex_bytes :: "string \<Rightarrow> u8 list option" where
  "hex_bytes (h # l # rest) =
     (case (nibble h, nibble l) of
        (Some hi, Some lo) \<Rightarrow> map_option (\<lambda>bs. (push_bit 4 (of_nat hi) OR of_nat lo) # bs) (hex_bytes rest)
      | _ \<Rightarrow> None)"
| "hex_bytes _ = Some []"

definition from_hex :: "string \<Rightarrow> digest option" where
  "from_hex text = (if length text \<noteq> 2 * k_digest_bytes then None else hex_bytes text)"

section \<open>The reference function\<close>

definition blocks_of :: "u8 list \<Rightarrow> u8 list list" where
  "blocks_of m = map (\<lambda>i. take 64 (drop (64 * i) m)) [0..<length m div 64]"

definition sha_pad :: "u8 list \<Rightarrow> u8 list" where
  "sha_pad m = m @ 0x80 # replicate ((119 - length m mod 64) mod 64) 0 @ be64 (of_nat (8 * length m))"

definition sha_reference :: "u8 list \<Rightarrow> digest" where
  "sha_reference m = state_bytes (foldl sha_compress initial_state (blocks_of (sha_pad m)))"

section \<open>Streaming agrees with the reference\<close>

lemma sha_blocks_short [simp]: "length data < 64 \<Longrightarrow> sha_blocks st data = (st, data)"
  by (subst sha_blocks.simps) simp

lemma sha_blocks_long:
  "64 \<le> length data \<Longrightarrow> sha_blocks st data = sha_blocks (sha_compress st (take 64 data)) (drop 64 data)"
  by (subst sha_blocks.simps) simp

lemma sha_blocks_rest: "length (snd (sha_blocks st data)) < 64"
  by (induction st data rule: sha_blocks.induct)
     (metis linorder_not_less sha_blocks_long sha_blocks_short snd_conv)

lemma blocks_of_long:
  assumes "64 \<le> length m"
  shows "blocks_of m = take 64 m # blocks_of (drop 64 m)"
proof -
  define n where "n = length m div 64 - 1"
  have n: "length m div 64 = Suc n" "length (drop 64 m) div 64 = n"
    using assms by (simp_all add: n_def div_greater_zero_iff le_div_geq)
  show ?thesis
    unfolding blocks_of_def n
    by (simp add: upt_conv_Cons del: upt_Suc flip: map_Suc_upt) (simp add: add.commute)
qed

lemma sha_blocks_fold:
  "sha_blocks st data =
     (foldl sha_compress st (blocks_of data), drop (64 * (length data div 64)) data)"
proof (induction st data rule: sha_blocks.induct)
  case (1 st data)
  show ?case
  proof (cases "64 \<le> length data")
    case True
    have "length data div 64 = Suc ((length data - 64) div 64)" using True by (simp add: le_div_geq)
    with True 1 show ?thesis by (simp add: sha_blocks_long blocks_of_long add.commute)
  next
    case False
    then show ?thesis by (simp add: blocks_of_def)
  qed
qed

lemma sha_blocks_append:
  "sha_blocks st (m @ d) = (case sha_blocks st m of (st', rest) \<Rightarrow> sha_blocks st' (rest @ d))"
proof (induction st m rule: sha_blocks.induct)
  case (1 st m)
  show ?case
  proof (cases "64 \<le> length m")
    case True
    with 1 show ?thesis by (simp add: sha_blocks_long)
  qed simp
qed

definition sha_represents :: "sha256_ctx \<Rightarrow> u8 list \<Rightarrow> bool" where
  "sha_represents h m \<longleftrightarrow> \<not> sha_finished h \<and> (sha_state h, sha_buffer h) = sha_blocks initial_state m \<and>
     sha_total h = of_nat (length m)"

lemma sha_represents_init: "sha_represents sha_init []"
  by (simp add: sha_represents_def sha_init_def)

lemma sha_represents_buffer: "sha_represents h m \<Longrightarrow> length (sha_buffer h) < 64"
  using sha_blocks_rest[of initial_state m] by (simp add: sha_represents_def) (metis snd_conv)

lemma sha_update_blocks:
  assumes "\<not> sha_finished h" "length (sha_buffer h) < 64"
  shows "sha_update h d = (case sha_blocks (sha_state h) (sha_buffer h @ d) of (st, rest) \<Rightarrow>
           h\<lparr>sha_state := st, sha_total := sha_total h + of_nat (length d), sha_buffer := rest\<rparr>)"
proof -
  obtain st rest where d: "sha_blocks (sha_state h) (sha_buffer h @ d) = (st, rest)" by fastforce
  have rest: "length rest < 64" using sha_blocks_rest[of "sha_state h" "sha_buffer h @ d"] d by simp
  consider (empty) "sha_buffer h = []"
    | (fill) "sha_buffer h \<noteq> []" "64 \<le> length (sha_buffer h) + length d"
    | (part) "sha_buffer h \<noteq> []" "length (sha_buffer h) + length d < 64"
    by linarith
  then show ?thesis
  proof cases
    case empty
    with d rest assms show ?thesis by (simp add: sha_update_def)
  next
    case fill
    have "sha_blocks (sha_state h) (sha_buffer h @ d) =
      sha_blocks (sha_compress (sha_state h) (sha_buffer h @ take (64 - length (sha_buffer h)) d))
        (drop (64 - length (sha_buffer h)) d)"
      using fill assms by (subst sha_blocks_long) simp_all
    with d have "sha_blocks (sha_compress (sha_state h) (sha_buffer h @ take (64 - length (sha_buffer h)) d))
        (drop (64 - length (sha_buffer h)) d) = (st, rest)" by simp
    moreover have "min (length d) (64 - length (sha_buffer h)) = 64 - length (sha_buffer h)"
      using fill by simp
    ultimately show ?thesis
      using d rest assms fill by (simp add: sha_update_def Let_def)
  next
    case part
    with assms show ?thesis by (simp add: sha_update_def min_def)
  qed
qed

lemma sha_represents_update:
  assumes "sha_represents h m"
  shows "sha_represents (sha_update h d) (m @ d)"
proof -
  have "\<not> sha_finished h" "(sha_state h, sha_buffer h) = sha_blocks initial_state m"
    "sha_total h = of_nat (length m)" using assms by (auto simp: sha_represents_def)
  then show ?thesis
    using sha_update_blocks[of h d] sha_represents_buffer[OF assms]
    by (simp add: sha_represents_def sha_blocks_append[of initial_state m d] split: prod.splits)
       (metis prod.inject)
qed

lemma sha_represents_segments:
  "sha_represents h m \<Longrightarrow> sha_represents (foldl sha_update h segs) (m @ concat segs)"
proof (induction segs arbitrary: h m)
  case (Cons d segs)
  then show ?case using Cons.IH[OF sha_represents_update[OF Cons.prems]] by simp
qed simp

lemma length_be64 [simp]: "length (be64 n) = 8"
  by (simp add: be64_def)

lemma sha_padding_pad:
  "m @ sha_padding (of_nat (length m)) = sha_pad m"
proof -
  let ?r = "length m mod 64"
  have r: "unat (of_nat (length m) mod 64 :: u64) = ?r"
    by (simp add: unat_mod unat_of_nat mod_mod_cancel)
  have "(if ?r < 56 then 56 - ?r else 120 - ?r) - 1 = (119 - ?r) mod 64"
  proof (cases "?r < 56")
    case True
    then have "119 - ?r = 64 + (55 - ?r)" by simp
    then have "(119 - ?r) mod 64 = (55 - ?r) mod 64" by (metis mod_add_self1)
    with True show ?thesis by simp
  next
    case False
    then have "119 - ?r < 64" by simp
    then show ?thesis using False by simp
  qed
  then show ?thesis
    by (simp add: sha_padding_def sha_pad_def r Let_def mult.commute)
qed

lemma length_sha_pad_mod: "length (sha_pad m) mod 64 = 0"
proof -
  have "(l + 9 + (119 - l mod 64) mod 64) mod 64 = 0" for l :: nat
  proof -
    have "(l + 9 + (119 - l mod 64) mod 64) mod 64 = (l mod 64 + 9 + (119 - l mod 64)) mod 64"
      by (metis mod_add_left_eq mod_add_right_eq)
    also have "l mod 64 + 9 + (119 - l mod 64) = 128"
      using mod_less_divisor[of 64 l] by linarith
    finally show ?thesis by simp
  qed
  from this[of "length m"] show ?thesis by (simp add: sha_pad_def algebra_simps)
qed

lemma sha_finish_reference:
  assumes "sha_represents h m"
  shows "sha_finish h = sha_reference m"
proof -
  let ?h = "sha_update h (sha_padding (sha_total h))"
  have nf: "\<not> sha_finished h" and t: "sha_total h = of_nat (length m)"
    using assms by (auto simp: sha_represents_def)
  have "sha_represents ?h (sha_pad m)"
    using sha_represents_update[OF assms, of "sha_padding (sha_total h)"] by (simp add: t sha_padding_pad)
  then have "sha_state ?h = fst (sha_blocks initial_state (sha_pad m))"
    by (simp add: sha_represents_def) (metis fst_conv)
  then show ?thesis
    using nf by (simp add: sha_finish_def sha_finish_ctx_def sha_reference_def sha_blocks_fold)
qed

lemma length_state_bytes [simp]: "length (state_bytes st) = 4 * length st"
  by (induction st) (simp_all add: state_bytes_def)

lemma length_sha_compress [simp]: "length (sha_compress st block) = 8"
  by (simp add: sha_compress_def split: prod.splits)

lemma length_fold_compress: "length st = 8 \<Longrightarrow> length (foldl sha_compress st bs) = 8"
  by (induction bs arbitrary: st) simp_all

lemma length_sha_reference [simp]: "length (sha_reference m) = k_digest_bytes"
  by (simp add: sha_reference_def k_digest_bytes_def length_fold_compress initial_state_def)

section \<open>Hexadecimal round trip\<close>

lemma nibble_hex_digit: "n < 16 \<Longrightarrow> nibble (hex_digit n) = Some n"
proof -
  have "list_all (\<lambda>n. nibble (hex_digit n) = Some n) [0..<16]" by code_simp
  then show "n < 16 \<Longrightarrow> nibble (hex_digit n) = Some n" by (simp add: list_all_iff)
qed

lemma and_15_take_bit: "b AND 15 = take_bit 4 (b :: u8)"
  by (simp add: take_bit_eq_mask mask_eq_exp_minus_1)

lemma and_15_less: "unat (b AND 15 :: u8) < 16"
  using take_bit_nat_less_exp[of 4 "unat b"]
  by (simp only: and_15_take_bit unsigned_take_bit_eq) simp

lemma byte_halves: "push_bit 4 (drop_bit 4 b AND 15) OR (b AND 15) = (b :: u8)"
  unfolding and_15_take_bit by (rule bit_word_eqI) (auto simp: bit_simps)

lemma hex_bytes_to_hex: "hex_bytes (to_hex d) = Some d"
proof (induction d)
  case (Cons b d)
  have "to_hex (b # d) = hex_digit (unat (drop_bit 4 b AND 15)) # hex_digit (unat (b AND 15)) # to_hex d"
    by (simp add: to_hex_def)
  then show ?case
    using Cons byte_halves[of b] by (simp only: nibble_hex_digit[OF and_15_less] hex_bytes.simps) simp
qed (simp add: to_hex_def)

lemma length_to_hex [simp]: "length (to_hex d) = 2 * length d"
  by (induction d) (simp_all add: to_hex_def)

lemma from_hex_to_hex: "length d = k_digest_bytes \<Longrightarrow> from_hex (to_hex d) = Some d"
  by (simp add: from_hex_def hex_bytes_to_hex)

lemma length_hex_bytes: "hex_bytes t = Some d \<Longrightarrow> length d = length t div 2"
  by (induction t arbitrary: d rule: hex_bytes.induct) (auto split: option.splits)

lemma from_hex_length: "from_hex t = Some d \<Longrightarrow> length d = k_digest_bytes"
  by (auto simp: from_hex_def length_hex_bytes split: if_splits)

end
