(* ===== verification/Topology.thy ===== *)
theory Topology
  imports Core
begin

text \<open>
  The governed topology definition of include/loop_guard/topology.hpp and src/topology.cpp:
  resources, directed adjacencies and traffic selectors (\<open>resource_record\<close>,
  \<open>forwarding_edge\<close>, \<open>traffic_selector\<close>), the immutable definition with its lookup indices
  (\<open>topology\<close>), the builder (\<open>topology_builder\<close>) and \<open>canonicalize_topology\<close>, which sorts,
  validates and builds the indices. std::sort is the stable sort by the same key: where the
  sources sort records with equal keys they reject the definition right after, but for two
  edges with one identity and different endpoints (see \<open>duplicate_edge_identity_accepted\<close>).

  The lemmas: what a successful canonicalisation promises (\<open>topology_ok\<close>), that lookups by
  identity are exact on such a definition, that the compressed adjacency lists exactly the
  outgoing edges of a resource, and that insertion order cannot change the result.
\<close>

section \<open>Texts\<close>

definition txt_resource_id_must_be_non_zero :: string where
  "txt_resource_id_must_be_non_zero =
     ''resource id must be non-zero''"

definition txt_resource_domain_must_be_non_zero :: string where
  "txt_resource_domain_must_be_non_zero =
     ''resource domain must be non-zero''"

definition txt_containable_resource_must_have_cost_1 :: string where
  "txt_containable_resource_must_have_cost_1 =
     ''containable resource must have cost >= 1''"

definition txt_resource_limit_reached :: string where
  "txt_resource_limit_reached =
     ''resource limit reached''"

definition txt_selector_id_must_be_non_zero :: string where
  "txt_selector_id_must_be_non_zero =
     ''selector id must be non-zero''"

definition txt_selector_limit_reached :: string where
  "txt_selector_limit_reached =
     ''selector limit reached''"

definition txt_edge_id_must_be_non_zero :: string where
  "txt_edge_id_must_be_non_zero =
     ''edge id must be non-zero''"

definition txt_edge_endpoints_must_be_non_zero :: string where
  "txt_edge_endpoints_must_be_non_zero =
     ''edge endpoints must be non-zero''"

definition txt_edge_domain_must_be_non_zero :: string where
  "txt_edge_domain_must_be_non_zero =
     ''edge domain must be non-zero''"

definition txt_edge_selectors_must_be_strictly_increasing_and :: string where
  "txt_edge_selectors_must_be_strictly_increasing_and =
     ''edge selectors must be strictly increasing and duplicate free''"

definition txt_edge_limit_reached :: string where
  "txt_edge_limit_reached =
     ''edge limit reached''"

definition txt_resource_has_an_invalid_identity :: string where
  "txt_resource_has_an_invalid_identity =
     ''resource has an invalid identity''"

definition txt_duplicate_resource_identity :: string where
  "txt_duplicate_resource_identity =
     ''duplicate resource identity''"

definition txt_selector_has_an_invalid_identity :: string where
  "txt_selector_has_an_invalid_identity =
     ''selector has an invalid identity''"

definition txt_duplicate_selector_identity :: string where
  "txt_duplicate_selector_identity =
     ''duplicate selector identity''"

definition txt_edge_has_an_invalid_identity :: string where
  "txt_edge_has_an_invalid_identity =
     ''edge has an invalid identity''"

definition txt_duplicate_edge_identity :: string where
  "txt_duplicate_edge_identity =
     ''duplicate edge identity''"

definition txt_edge_domain_must_match_both_endpoint_domains :: string where
  "txt_edge_domain_must_match_both_endpoint_domains =
     ''edge domain must match both endpoint domains''"

definition txt_edge_references_an_undeclared_selector :: string where
  "txt_edge_references_an_undeclared_selector =
     ''edge references an undeclared selector''"

definition txt_edge_endpoint_is_not_a_resource :: string where
  "txt_edge_endpoint_is_not_a_resource =
     ''edge endpoint is not a resource''"

definition txt_limit_set_is_not_sane :: string where
  "txt_limit_set_is_not_sane =
     ''limit set is not sane''"

definition txt_topology_generation_must_be_non_zero :: string where
  "txt_topology_generation_must_be_non_zero =
     ''topology generation must be non-zero''"

definition txt_resource_limit_exceeded :: string where
  "txt_resource_limit_exceeded =
     ''resource limit exceeded''"

definition txt_edge_limit_exceeded :: string where
  "txt_edge_limit_exceeded =
     ''edge limit exceeded''"

definition txt_selector_limit_exceeded :: string where
  "txt_selector_limit_exceeded =
     ''selector limit exceeded''"

section \<open>Records\<close>

record resource_record =
  rr_id :: u64
  rr_domain :: u64
  rr_kind :: resource_kind
  rr_admin :: administrative_state
  rr_containable :: bool
  rr_cost :: u32
  rr_label :: string

record forwarding_edge =
  fe_id :: u64
  fe_from :: u64
  fe_to :: u64
  fe_domain :: u64
  fe_link :: link_state
  fe_selectors :: "u64 list"

record traffic_selector =
  ts_id :: u64
  ts_kind :: traffic_selector_kind
  ts_label :: string

text \<open>The order of edges: operator< compares source, then target, then identity.\<close>

definition edge_key :: "forwarding_edge \<Rightarrow> u64 \<times> u64 \<times> u64" where
  "edge_key e = (fe_from e, fe_to e, fe_id e)"

definition edge_less :: "forwarding_edge \<Rightarrow> forwarding_edge \<Rightarrow> bool" where
  "edge_less lhs rhs =
     (if fe_from lhs \<noteq> fe_from rhs then fe_from lhs < fe_from rhs
      else if fe_to lhs \<noteq> fe_to rhs then fe_to lhs < fe_to rhs
      else fe_id lhs < fe_id rhs)"

record topology =
  td_generation :: u64
  td_resources :: "resource_record list"
  td_edges :: "forwarding_edge list"
  td_selectors :: "traffic_selector list"
  td_edge_by_id :: "nat list"
  td_adjacency :: "nat list"
  td_out_edge_list :: "nat list"

definition empty_topology :: topology where
  "empty_topology = \<lparr>td_generation = 0, td_resources = [], td_edges = [], td_selectors = [],
     td_edge_by_id = [], td_adjacency = [], td_out_edge_list = []\<rparr>"

section \<open>Lookups\<close>

definition find_resource :: "topology \<Rightarrow> u64 \<Rightarrow> resource_record option" where
  "find_resource t i = find_sorted rr_id (td_resources t) i"

definition find_selector :: "topology \<Rightarrow> u64 \<Rightarrow> traffic_selector option" where
  "find_selector t i = find_sorted ts_id (td_selectors t) i"

definition edge_index :: "topology \<Rightarrow> u64 \<Rightarrow> nat option" where
  "edge_index t k = find_sorted (\<lambda>i. fe_id (td_edges t ! i)) (td_edge_by_id t) k"

definition find_edge :: "topology \<Rightarrow> u64 \<Rightarrow> forwarding_edge option" where
  "find_edge t k = (case edge_index t k of None \<Rightarrow> None | Some i \<Rightarrow> Some (td_edges t ! i))"

definition out_edges :: "topology \<Rightarrow> u64 \<Rightarrow> nat list" where
  "out_edges t from =
     (if length (td_adjacency t) < 2 then []
      else let p = lower_bound (\<lambda>r. rr_id r < from) (td_resources t)
           in if p = length (td_resources t) \<or> rr_id (td_resources t ! p) \<noteq> from then []
              else if p + 1 \<ge> length (td_adjacency t) then []
              else let b = td_adjacency t ! p; e = td_adjacency t ! (p + 1)
                   in if e < b \<or> e > length (td_out_edge_list t) then []
                      else take (e - b) (drop b (td_out_edge_list t)))"

section \<open>The digest of a definition\<close>

definition resource_bytes :: "resource_record \<Rightarrow> u8 list" where
  "resource_bytes r = le64 (rr_id r) @ le64 (rr_domain r) @ [enum_raw values_resource_kind (rr_kind r)] @
     [enum_raw values_administrative_state (rr_admin r)] @ [if rr_containable r then 1 else 0] @
     le32 (rr_cost r) @ text_bytes (rr_label r) @ [0]"

definition edge_bytes :: "forwarding_edge \<Rightarrow> u8 list" where
  "edge_bytes e = le64 (fe_id e) @ le64 (fe_from e) @ le64 (fe_to e) @ le64 (fe_domain e) @
     [enum_raw values_link_state (fe_link e)] @ concat (map le64 (fe_selectors e)) @ [0xFF]"

definition selector_bytes :: "traffic_selector \<Rightarrow> u8 list" where
  "selector_bytes s = le64 (ts_id s) @ [enum_raw values_traffic_selector_kind (ts_kind s)] @
     text_bytes (ts_label s) @ [0]"

definition topology_digest :: "topology \<Rightarrow> digest" where
  "topology_digest t = sha256 (le64 (td_generation t) @ concat (map resource_bytes (td_resources t)) @
     concat (map edge_bytes (td_edges t)) @ concat (map selector_bytes (td_selectors t)))"

section \<open>The builder\<close>

record topology_builder =
  tb_limits :: limits
  tb_generation :: u64
  tb_resources :: "resource_record list"
  tb_edges :: "forwarding_edge list"
  tb_selectors :: "traffic_selector list"

definition new_builder :: "limits \<Rightarrow> topology_builder" where
  "new_builder l = \<lparr>tb_limits = l, tb_generation = 0, tb_resources = [], tb_edges = [], tb_selectors = []\<rparr>"

definition add_resource :: "resource_record \<Rightarrow> topology_builder \<Rightarrow> status \<times> topology_builder" where
  "add_resource r b =
     (if \<not> id_valid (rr_id r) then (failure Oc_Invalid txt_resource_id_must_be_non_zero, b)
      else if \<not> id_valid (rr_domain r) then (failure Oc_Invalid txt_resource_domain_must_be_non_zero, b)
      else if rr_containable r \<and> rr_cost r = 0
        then (failure Oc_Invalid txt_containable_resource_must_have_cost_1, b)
      else if length (tb_resources b) \<ge> unat (max_resources (tb_limits b))
        then (failure Oc_Exhausted txt_resource_limit_reached, b)
      else (status_ok, b\<lparr>tb_resources := tb_resources b @ [r\<lparr>rr_label := bounded_text (rr_label r) 128\<rparr>]\<rparr>))"

definition add_selector :: "traffic_selector \<Rightarrow> topology_builder \<Rightarrow> status \<times> topology_builder" where
  "add_selector s b =
     (if \<not> id_valid (ts_id s) then (failure Oc_Invalid txt_selector_id_must_be_non_zero, b)
      else if length (tb_selectors b) \<ge> unat (max_selectors (tb_limits b))
        then (failure Oc_Exhausted txt_selector_limit_reached, b)
      else (status_ok, b\<lparr>tb_selectors := tb_selectors b @ [s\<lparr>ts_label := bounded_text (ts_label s) 128\<rparr>]\<rparr>))"

definition add_edge :: "forwarding_edge \<Rightarrow> topology_builder \<Rightarrow> status \<times> topology_builder" where
  "add_edge e b =
     (if \<not> id_valid (fe_id e) then (failure Oc_Invalid txt_edge_id_must_be_non_zero, b)
      else if \<not> id_valid (fe_from e) \<or> \<not> id_valid (fe_to e)
        then (failure Oc_Invalid txt_edge_endpoints_must_be_non_zero, b)
      else if \<not> id_valid (fe_domain e) then (failure Oc_Invalid txt_edge_domain_must_be_non_zero, b)
      else if \<not> strictly_increasing (fe_selectors e)
        then (failure Oc_Invalid txt_edge_selectors_must_be_strictly_increasing_and, b)
      else if length (tb_edges b) \<ge> unat (max_edges (tb_limits b))
        then (failure Oc_Exhausted txt_edge_limit_reached, b)
      else (status_ok, b\<lparr>tb_edges := tb_edges b @ [e]\<rparr>))"

section \<open>Canonicalisation\<close>

text \<open>The validation loops: the first failure, with the previous element of the sorted vector.\<close>

fun check_resources :: "resource_record option \<Rightarrow> resource_record list \<Rightarrow> (outcome \<times> string) option" where
  "check_resources prev [] = None"
| "check_resources prev (r # rs) =
     (if \<not> id_valid (rr_id r) \<or> \<not> id_valid (rr_domain r)
        then Some (Oc_Invalid, txt_resource_has_an_invalid_identity)
      else if rr_containable r \<and> rr_cost r = 0
        then Some (Oc_Invalid, txt_containable_resource_must_have_cost_1)
      else if map_option rr_id prev = Some (rr_id r)
        then Some (Oc_AlreadyExists, txt_duplicate_resource_identity)
      else check_resources (Some r) rs)"

fun check_selectors :: "traffic_selector option \<Rightarrow> traffic_selector list \<Rightarrow> (outcome \<times> string) option" where
  "check_selectors prev [] = None"
| "check_selectors prev (s # ss) =
     (if \<not> id_valid (ts_id s) then Some (Oc_Invalid, txt_selector_has_an_invalid_identity)
      else if map_option ts_id prev = Some (ts_id s)
        then Some (Oc_AlreadyExists, txt_duplicate_selector_identity)
      else check_selectors (Some s) ss)"

fun check_edges :: "resource_record list \<Rightarrow> traffic_selector list \<Rightarrow> forwarding_edge option \<Rightarrow>
    forwarding_edge list \<Rightarrow> (outcome \<times> string) option" where
  "check_edges rs ss prev [] = None"
| "check_edges rs ss prev (e # es) =
     (if \<not> id_valid (fe_id e) \<or> \<not> id_valid (fe_from e) \<or> \<not> id_valid (fe_to e) \<or> \<not> id_valid (fe_domain e)
        then Some (Oc_Invalid, txt_edge_has_an_invalid_identity)
      else if map_option fe_id prev = Some (fe_id e)
        then Some (Oc_AlreadyExists, txt_duplicate_edge_identity)
      else if \<not> strictly_increasing (fe_selectors e)
        then Some (Oc_Invalid, txt_edge_selectors_must_be_strictly_increasing_and)
      else case (find_sorted rr_id rs (fe_from e), find_sorted rr_id rs (fe_to e)) of
          (Some source, Some target) \<Rightarrow>
            if rr_domain source \<noteq> fe_domain e \<or> rr_domain target \<noteq> fe_domain e
              then Some (Oc_Invalid, txt_edge_domain_must_match_both_endpoint_domains)
            else if list_ex (\<lambda>s. find_sorted ts_id ss s = None) (fe_selectors e)
              then Some (Oc_NotFound, txt_edge_references_an_undeclared_selector)
            else check_edges rs ss (Some e) es
        | _ \<Rightarrow> Some (Oc_Invalid, txt_edge_endpoint_is_not_a_resource))"

text \<open>The compressed adjacency: count, prefix sums, then fill through a moving cursor.\<close>

definition source_index :: "resource_record list \<Rightarrow> forwarding_edge \<Rightarrow> nat" where
  "source_index rs e = lower_bound (\<lambda>r. rr_id r < fe_from e) rs"

definition source_indices :: "resource_record list \<Rightarrow> forwarding_edge list \<Rightarrow> nat list" where
  "source_indices rs es = map (source_index rs) es"

definition adjacency_offsets :: "resource_record list \<Rightarrow> forwarding_edge list \<Rightarrow> nat list" where
  "adjacency_offsets rs es = csr_offsets (length rs) (source_indices rs es)"

definition adjacency_list :: "resource_record list \<Rightarrow> forwarding_edge list \<Rightarrow> nat list" where
  "adjacency_list rs es = fst (csr_fill (length rs) 0 (zip (source_indices rs es) [0..<length es]))"

definition canonicalize_topology :: "topology \<Rightarrow> limits \<Rightarrow> topology result" where
  "canonicalize_topology d l =
     (if \<not> limits_are_sane l then failure Oc_Unsupported txt_limit_set_is_not_sane
      else if \<not> id_valid (td_generation d) then failure Oc_Invalid txt_topology_generation_must_be_non_zero
      else if length (td_resources d) > unat (max_resources l)
        then failure Oc_Exhausted txt_resource_limit_exceeded
      else if length (td_edges d) > unat (max_edges l) then failure Oc_Exhausted txt_edge_limit_exceeded
      else if length (td_selectors d) > unat (max_selectors l)
        then failure Oc_Exhausted txt_selector_limit_exceeded
      else
        let rs = sort_key rr_id (td_resources d);
            ss = sort_key ts_id (td_selectors d);
            es = sort_key edge_key (td_edges d)
        in case check_resources None rs of Some (oc, detail) \<Rightarrow> failure oc detail
         | None \<Rightarrow> (case check_selectors None ss of Some (oc, detail) \<Rightarrow> failure oc detail
         | None \<Rightarrow> (case check_edges rs ss None es of Some (oc, detail) \<Rightarrow> failure oc detail
         | None \<Rightarrow> ok \<lparr>td_generation = td_generation d, td_resources = rs, td_edges = es,
                       td_selectors = ss,
                       td_edge_by_id = sort_key (\<lambda>i. fe_id (es ! i)) [0..<length es],
                       td_adjacency = adjacency_offsets rs es,
                       td_out_edge_list = adjacency_list rs es\<rparr>)))"

definition build :: "topology_builder \<Rightarrow> topology result" where
  "build b = canonicalize_topology (empty_topology\<lparr>td_generation := tb_generation b,
     td_resources := tb_resources b, td_edges := tb_edges b, td_selectors := tb_selectors b\<rparr>) (tb_limits b)"

section \<open>What a canonical definition promises\<close>

definition edge_ok :: "resource_record list \<Rightarrow> traffic_selector list \<Rightarrow> forwarding_edge \<Rightarrow> bool" where
  "edge_ok rs ss e \<longleftrightarrow> id_valid (fe_id e) \<and> id_valid (fe_from e) \<and> id_valid (fe_to e) \<and>
     id_valid (fe_domain e) \<and> sorted_wrt (<) (fe_selectors e) \<and>
     (\<exists>source target. find_sorted rr_id rs (fe_from e) = Some source \<and>
        find_sorted rr_id rs (fe_to e) = Some target \<and>
        rr_domain source = fe_domain e \<and> rr_domain target = fe_domain e) \<and>
     (\<forall>s \<in> set (fe_selectors e). find_sorted ts_id ss s \<noteq> None)"

definition topology_ok :: "topology \<Rightarrow> bool" where
  "topology_ok t \<longleftrightarrow> id_valid (td_generation t) \<and>
     sorted_wrt (<) (map rr_id (td_resources t)) \<and> sorted_wrt (<) (map ts_id (td_selectors t)) \<and>
     sorted_wrt (<) (map edge_key (td_edges t)) \<and>
     (\<forall>r \<in> set (td_resources t). id_valid (rr_id r) \<and> id_valid (rr_domain r) \<and>
        (rr_containable r \<longrightarrow> rr_cost r \<noteq> 0)) \<and>
     (\<forall>s \<in> set (td_selectors t). id_valid (ts_id s)) \<and>
     (\<forall>e \<in> set (td_edges t). edge_ok (td_resources t) (td_selectors t) e) \<and>
     td_edge_by_id t = sort_key (\<lambda>i. fe_id (td_edges t ! i)) [0..<length (td_edges t)] \<and>
     td_adjacency t = adjacency_offsets (td_resources t) (td_edges t) \<and>
     td_out_edge_list t = adjacency_list (td_resources t) (td_edges t)"

lemma edge_less_key: "edge_less a b \<longleftrightarrow> edge_key a < edge_key b"
  by (auto simp: edge_less_def edge_key_def less_prod_simp)

lemma check_resources_None:
  assumes "sorted (map rr_id rs)" "\<forall>p. prev = Some p \<longrightarrow> (\<forall>r \<in> set rs. rr_id p \<le> rr_id r)"
  shows "check_resources prev rs = None \<longleftrightarrow>
    (\<forall>r \<in> set rs. id_valid (rr_id r) \<and> id_valid (rr_domain r) \<and> (rr_containable r \<longrightarrow> rr_cost r \<noteq> 0)) \<and>
    sorted_wrt (<) (map rr_id rs) \<and> (\<forall>p. prev = Some p \<longrightarrow> (\<forall>r \<in> set rs. rr_id p < rr_id r))"
  using assms
proof (induction prev rs rule: check_resources.induct)
  case (2 prev r rs)
  have IH: "id_valid (rr_id r) \<and> id_valid (rr_domain r) \<and> \<not> (rr_containable r \<and> rr_cost r = 0) \<and>
      map_option rr_id prev \<noteq> Some (rr_id r) \<Longrightarrow>
    check_resources (Some r) rs = None \<longleftrightarrow>
    (\<forall>r \<in> set rs. id_valid (rr_id r) \<and> id_valid (rr_domain r) \<and> (rr_containable r \<longrightarrow> rr_cost r \<noteq> 0)) \<and>
    sorted_wrt (<) (map rr_id rs) \<and> (\<forall>x \<in> set rs. rr_id r < rr_id x)"
    using "2.IH" "2.prems"(1) by auto
  then show ?case using "2.prems" by (cases prev) (auto simp: le_less intro: less_le_trans)
qed simp

lemma check_selectors_None:
  assumes "sorted (map ts_id ss)" "\<forall>p. prev = Some p \<longrightarrow> (\<forall>s \<in> set ss. ts_id p \<le> ts_id s)"
  shows "check_selectors prev ss = None \<longleftrightarrow>
    (\<forall>s \<in> set ss. id_valid (ts_id s)) \<and>
    sorted_wrt (<) (map ts_id ss) \<and> (\<forall>p. prev = Some p \<longrightarrow> (\<forall>s \<in> set ss. ts_id p < ts_id s))"
  using assms
proof (induction prev ss rule: check_selectors.induct)
  case (2 prev s ss)
  have IH: "id_valid (ts_id s) \<and> map_option ts_id prev \<noteq> Some (ts_id s) \<Longrightarrow>
    check_selectors (Some s) ss = None \<longleftrightarrow>
    (\<forall>s \<in> set ss. id_valid (ts_id s)) \<and> sorted_wrt (<) (map ts_id ss) \<and> (\<forall>x \<in> set ss. ts_id s < ts_id x)"
    using "2.IH" "2.prems"(1) by auto
  then show ?case using "2.prems" by (cases prev) (auto simp: le_less intro: less_le_trans)
qed simp

text \<open>The edge loop compares an identity with its neighbour only.\<close>

lemma check_edges_None:
  "check_edges rs ss prev es = None \<longleftrightarrow>
    (\<forall>e \<in> set es. edge_ok rs ss e) \<and> \<not> adjacent_dup (map fe_id es) \<and>
    (\<forall>p e. prev = Some p \<and> es \<noteq> [] \<longrightarrow> fe_id p \<noteq> fe_id (hd es))"
proof (induction es arbitrary: prev)
  case (Cons e es)
  have dup: "adjacent_dup (fe_id e # map fe_id es) \<longleftrightarrow>
    (es \<noteq> [] \<and> fe_id e = fe_id (hd es)) \<or> adjacent_dup (map fe_id es)"
    by (cases es) auto
  show ?case
    by (cases prev) (auto simp: Cons.IH dup edge_ok_def list_ex_iff split: option.splits)
qed simp

lemma sorted_edges_strict:
  assumes "sorted (map edge_key es)" "\<not> adjacent_dup (map fe_id es)"
  shows "sorted_wrt (<) (map edge_key es)"
proof -
  have "adjacent_dup (map edge_key es) \<Longrightarrow> adjacent_dup (map fe_id es)" for es
  proof (induction es)
    case (Cons e es)
    then show ?case by (cases es) (auto simp: edge_key_def)
  qed simp
  then show ?thesis using assms sorted_adjacent_dup by blast
qed

lemma canonicalize_okD:
  assumes "canonicalize_topology d l = ok t"
  shows "topology_ok t" "td_generation t = td_generation d"
    "td_resources t = sort_key rr_id (td_resources d)" "td_selectors t = sort_key ts_id (td_selectors d)"
    "td_edges t = sort_key edge_key (td_edges d)" "\<not> adjacent_dup (map fe_id (td_edges t))"
    "length (td_resources t) \<le> unat (max_resources l)" "length (td_edges t) \<le> unat (max_edges l)"
    "length (td_selectors t) \<le> unat (max_selectors l)" "limits_are_sane l"
proof -
  let ?rs = "sort_key rr_id (td_resources d)" and ?ss = "sort_key ts_id (td_selectors d)"
    and ?es = "sort_key edge_key (td_edges d)"
  have c: "check_resources None ?rs = None" "check_selectors None ?ss = None"
      "check_edges ?rs ?ss None ?es = None"
    and t: "t = \<lparr>td_generation = td_generation d, td_resources = ?rs, td_edges = ?es,
                 td_selectors = ?ss, td_edge_by_id = sort_key (\<lambda>i. fe_id (?es ! i)) [0..<length ?es],
                 td_adjacency = adjacency_offsets ?rs ?es, td_out_edge_list = adjacency_list ?rs ?es\<rparr>"
    and g: "id_valid (td_generation d)"
    and b: "length (td_resources d) \<le> unat (max_resources l)" "length (td_edges d) \<le> unat (max_edges l)"
      "length (td_selectors d) \<le> unat (max_selectors l)" "limits_are_sane l"
    using assms by (auto simp: canonicalize_topology_def Let_def not_less split: if_splits option.splits)
  have e: "\<forall>e \<in> set ?es. edge_ok ?rs ?ss e" "\<not> adjacent_dup (map fe_id ?es)"
    using conjunct1[OF iffD1[OF check_edges_None c(3)]]
      conjunct1[OF conjunct2[OF iffD1[OF check_edges_None c(3)]]] by simp_all
  have r: "(\<forall>r \<in> set ?rs. id_valid (rr_id r) \<and> id_valid (rr_domain r) \<and>
      (rr_containable r \<longrightarrow> rr_cost r \<noteq> 0)) \<and> sorted_wrt (<) (map rr_id ?rs)"
    using c(1) check_resources_None[of ?rs None] by simp
  have s: "(\<forall>s \<in> set ?ss. id_valid (ts_id s)) \<and> sorted_wrt (<) (map ts_id ?ss)"
    using c(2) check_selectors_None[of ?ss None] by simp
  have k: "sorted_wrt (<) (map edge_key ?es)"
    by (rule sorted_edges_strict[OF _ e(2)]) simp
  show "topology_ok t" unfolding t topology_ok_def using g r s k e(1) by simp
  show "td_generation t = td_generation d" "td_resources t = ?rs" "td_selectors t = ?ss" "td_edges t = ?es"
    "\<not> adjacent_dup (map fe_id (td_edges t))" "limits_are_sane l"
    using e(2) b by (simp_all add: t)
  show "length (td_resources t) \<le> unat (max_resources l)" "length (td_edges t) \<le> unat (max_edges l)"
    "length (td_selectors t) \<le> unat (max_selectors l)"
    using b by (simp_all add: t)
qed


section \<open>Lookups are exact\<close>

lemma find_resource_iff:
  "topology_ok t \<Longrightarrow> find_resource t i = Some r \<longleftrightarrow> r \<in> set (td_resources t) \<and> rr_id r = i"
  by (simp add: find_resource_def topology_ok_def find_sorted_iff)

lemma find_selector_iff:
  "topology_ok t \<Longrightarrow> find_selector t i = Some s \<longleftrightarrow> s \<in> set (td_selectors t) \<and> ts_id s = i"
  by (simp add: find_selector_def topology_ok_def find_sorted_iff)

lemma find_selector_None:
  "topology_ok t \<Longrightarrow> find_selector t i = None \<longleftrightarrow> i \<notin> ts_id ` set (td_selectors t)"
  by (simp add: find_selector_def topology_ok_def find_sorted_None)

lemma edge_index_SomeD:
  assumes "topology_ok t" "edge_index t k = Some i"
  shows "i < length (td_edges t) \<and> fe_id (td_edges t ! i) = k"
  using assms find_sorted_SomeD[of "\<lambda>i. fe_id (td_edges t ! i)" "td_edge_by_id t" k i]
  by (simp add: edge_index_def topology_ok_def)

lemma find_edge_SomeD:
  assumes "topology_ok t" "find_edge t k = Some e"
  shows "e \<in> set (td_edges t) \<and> fe_id e = k"
  using assms edge_index_SomeD[OF assms(1)] by (auto simp: find_edge_def split: option.splits)

text \<open>With distinct edge identities the index finds every edge.\<close>

lemma edge_index_iff:
  assumes "topology_ok t" "distinct (map fe_id (td_edges t))"
  shows "edge_index t k = Some i \<longleftrightarrow> i < length (td_edges t) \<and> fe_id (td_edges t ! i) = k"
proof -
  let ?key = "\<lambda>i. fe_id (td_edges t ! i)"
  have m: "map ?key [0..<length (td_edges t)] = map fe_id (td_edges t)"
    by (rule nth_equalityI) simp_all
  have "mset (map ?key (td_edge_by_id t)) = mset (map fe_id (td_edges t))"
    using assms(1) by (simp add: topology_ok_def m[symmetric])
  then have "distinct (map ?key (td_edge_by_id t))"
    using assms(2) mset_eq_imp_distinct_iff by blast
  moreover have "sorted (map ?key (td_edge_by_id t))"
    using assms(1) by (simp add: topology_ok_def)
  ultimately have "sorted_wrt (<) (map ?key (td_edge_by_id t))" by (simp add: strict_sorted_iff)
  from find_sorted_iff[OF this] show ?thesis
    using assms(1) by (simp add: edge_index_def topology_ok_def)
qed

lemma find_edge_iff:
  assumes "topology_ok t" "distinct (map fe_id (td_edges t))"
  shows "find_edge t k = Some e \<longleftrightarrow> e \<in> set (td_edges t) \<and> fe_id e = k"
proof
  show "find_edge t k = Some e \<Longrightarrow> e \<in> set (td_edges t) \<and> fe_id e = k"
    by (rule find_edge_SomeD[OF assms(1)])
next
  assume "e \<in> set (td_edges t) \<and> fe_id e = k"
  then obtain i where "i < length (td_edges t)" "td_edges t ! i = e" "fe_id e = k"
    by (auto simp: in_set_conv_nth)
  then show "find_edge t k = Some e"
    using edge_index_iff[OF assms, of k i] by (simp add: find_edge_def)
qed

section \<open>The compressed adjacency\<close>

lemma source_index_resource:
  assumes "find_sorted rr_id rs (fe_from e) = Some r"
  shows "source_index rs e < length rs \<and> rr_id (rs ! source_index rs e) = fe_from e"
  using assms by (auto simp: find_sorted_def source_index_def Let_def nat_less_le split: if_splits)

lemma out_edges_cases:
  assumes "p = lower_bound (\<lambda>r. rr_id r < from) (td_resources t)"
    and "length (td_adjacency t) = length (td_resources t) + 1"
    and "p < length (td_resources t) \<Longrightarrow> td_adjacency t ! p \<le> td_adjacency t ! Suc p"
    and "p < length (td_resources t) \<Longrightarrow> td_adjacency t ! Suc p \<le> length (td_out_edge_list t)"
  shows "out_edges t from = (if p < length (td_resources t) \<and> rr_id (td_resources t ! p) = from
     then csr_segment (td_adjacency t) (td_out_edge_list t) p else [])"
proof -
  have "p \<le> length (td_resources t)" by (simp add: assms(1))
  then show ?thesis
    unfolding out_edges_def Let_def assms(1)[symmetric] csr_segment_def
    using assms(2-) by auto
qed

text \<open>The range \<open>out_edges\<close> returns is every edge leaving the resource, in canonical order.\<close>

lemma out_edges_exact:
  assumes "topology_ok t"
  shows "out_edges t from = filter (\<lambda>i. fe_from (td_edges t ! i) = from) [0..<length (td_edges t)]"
proof -
  let ?rs = "td_resources t" and ?es = "td_edges t" and ?n = "length (td_resources t)"
  let ?kvs = "zip (source_indices ?rs ?es) [0..<length ?es]"
  define p where "p = lower_bound (\<lambda>r. rr_id r < from) ?rs"
  have adj: "td_adjacency t = csr_offsets ?n (map fst ?kvs)" "td_out_edge_list t = fst (csr_fill ?n 0 ?kvs)"
    using assms by (simp_all add: topology_ok_def adjacency_offsets_def adjacency_list_def source_indices_def)
  have si: "source_index ?rs e < ?n \<and> rr_id (?rs ! source_index ?rs e) = fe_from e" if "e \<in> set ?es" for e
  proof -
    have "edge_ok ?rs (td_selectors t) e" using assms that by (simp add: topology_ok_def)
    then show ?thesis using source_index_resource unfolding edge_ok_def by blast
  qed
  then have bound: "\<forall>k \<in> set (map fst ?kvs). k < ?n" by (auto simp: source_indices_def)
  have len: "length (fst (csr_fill ?n 0 ?kvs)) = length ?es"
    using csr_fill_prefix[OF bound, of ?kvs "[]" 0] by (simp add: csr_fill_def source_indices_def)
  have keys: "map fst ?kvs = source_indices ?rs ?es" by (simp add: source_indices_def)
  have off: "q \<le> ?n \<Longrightarrow> td_adjacency t ! q = below_count q (source_indices ?rs ?es)"
      "length (td_adjacency t) = ?n + 1" for q
    using csr_offsets_nth[OF bound] unfolding adj(1) keys by simp_all
  have "below_count (Suc p) (source_indices ?rs ?es) \<le> length ?es"
    by (rule order_trans[OF length_filter_le]) (simp add: source_indices_def)
  with off len have le: "p < ?n \<Longrightarrow> td_adjacency t ! p \<le> td_adjacency t ! Suc p"
      "p < ?n \<Longrightarrow> td_adjacency t ! Suc p \<le> length (td_out_edge_list t)"
    by (simp_all add: below_count_mono adj(2))
  have oe: "out_edges t from = (if p < ?n \<and> rr_id (?rs ! p) = from
     then csr_segment (td_adjacency t) (td_out_edge_list t) p else [])"
    by (rule out_edges_cases[OF p_def off(2) le])
  show ?thesis
  proof (cases "p < ?n \<and> rr_id (?rs ! p) = from")
    case False
    have "fe_from e \<noteq> from" if "e \<in> set ?es" for e
      using si[OF that] False by (auto simp: source_index_def p_def)
    then show ?thesis unfolding oe if_not_P[OF False] by (simp add: filter_empty_conv)
  next
    case True
    have idx: "source_index ?rs e = p \<longleftrightarrow> fe_from e = from" if "e \<in> set ?es" for e
    proof
      assume "source_index ?rs e = p"
      then show "fe_from e = from" using conjunct2[OF si[OF that]] conjunct2[OF True] by argo
    qed (simp add: source_index_def p_def)
    have kvs: "?kvs = map (\<lambda>i. (source_index ?rs (?es ! i), i)) [0..<length ?es]"
      by (rule nth_equalityI) (simp_all add: source_indices_def)
    have "out_edges t from = map snd (filter (\<lambda>(k, v). k = p) ?kvs)"
      using True oe csr_segment_eq[OF bound, of p 0] by (simp add: adj)
    also have "\<dots> = filter (\<lambda>i. source_index ?rs (?es ! i) = p) [0..<length ?es]"
      unfolding kvs by (simp add: filter_map o_def)
    also have "\<dots> = filter (\<lambda>i. fe_from (?es ! i) = from) [0..<length ?es]"
      by (intro filter_cong) (simp_all add: idx)
    finally show ?thesis .
  qed
qed

section \<open>Insertion order does not matter\<close>

lemma sort_key_mset_cong:
  assumes "mset xs = mset ys" "inj_on key (set xs)"
  shows "sort_key key xs = sort_key key ys"
  by (rule sort_key_inj_key_eq[symmetric])
     (use assms in \<open>auto dest: mset_eq_setD\<close>)

lemma canonicalize_permute:
  assumes "canonicalize_topology d l = ok t"
    and "td_generation d' = td_generation d" "mset (td_resources d') = mset (td_resources d)"
    and "mset (td_edges d') = mset (td_edges d)" "mset (td_selectors d') = mset (td_selectors d)"
  shows "canonicalize_topology d' l = ok t"
proof -
  note okD = canonicalize_okD[OF assms(1)]
  have "distinct (map rr_id (td_resources t))" "distinct (map ts_id (td_selectors t))"
      "distinct (map edge_key (td_edges t))"
    using okD(1) by (simp_all add: topology_ok_def strict_sorted_iff)
  then have inj: "inj_on rr_id (set (td_resources d))" "inj_on ts_id (set (td_selectors d))"
      "inj_on edge_key (set (td_edges d))"
    unfolding okD(3-5) by (simp_all add: distinct_map)
  have sorts: "sort_key rr_id (td_resources d') = sort_key rr_id (td_resources d)"
       "sort_key ts_id (td_selectors d') = sort_key ts_id (td_selectors d)"
       "sort_key edge_key (td_edges d') = sort_key edge_key (td_edges d)"
    using sort_key_mset_cong[OF assms(3)[symmetric] inj(1)] sort_key_mset_cong[OF assms(5)[symmetric] inj(2)]
      sort_key_mset_cong[OF assms(4)[symmetric] inj(3)] by simp_all
  have lens: "length (td_resources d') = length (td_resources d)"
       "length (td_selectors d') = length (td_selectors d)" "length (td_edges d') = length (td_edges d)"
    using assms(3-5) by (metis size_mset)+
  have "canonicalize_topology d' l = canonicalize_topology d l"
    by (simp only: canonicalize_topology_def assms(2) sorts lens)
  with assms(1) show ?thesis by simp
qed

end
