(* ===== verification/Evidence.thy ===== *)
theory Evidence
  imports Topology
begin

text \<open>
  Forwarding evidence: include/loop_guard/evidence.hpp and src/evidence.cpp.

  \<^item> \<open>forwarding_observation\<close> is one producer's statement about one hop, with its lease.
  \<^item> \<open>resolve_hop\<close> is \<open>resolve_hop_from_observations\<close>: \<open>newest_sequences\<close> is its supersession
    map, \<open>classify_binding\<close> the if chain that binds one observation, \<open>scan_step\<close> one round of its
    loop over the candidates, \<open>hop_verdict\<close> what it concludes.
  \<^item> \<open>evidence_ledger\<close> is class EvidenceLedger. The node-based std::map is the list of its values
    in key order; the two hash maps of pointers into it are maps to the (immutable) observations
    pointed to, and \<open>ledger_ok\<close> says that they point to exactly the observations retained.

  The lemmas: what makes a hop proven open or closed, that the order of the candidates is
  irrelevant, and that every accepted submission keeps the ledger's invariant.
\<close>

section \<open>Texts\<close>

definition txt_exactly_bound_authoritative_evidence_asserts_both_directions :: string where
  "txt_exactly_bound_authoritative_evidence_asserts_both_directions =
     ''exactly bound authoritative evidence asserts both directions''"

definition txt_evidence_names_selectors_the_edge_does_not :: string where
  "txt_evidence_names_selectors_the_edge_does_not =
     ''evidence names selectors the edge does not admit''"

definition txt_exactly_bound_evidence_proves_the_hop_open :: string where
  "txt_exactly_bound_evidence_proves_the_hop_open =
     ''exactly bound evidence proves the hop open''"

definition txt_exactly_bound_evidence_proves_the_hop_closed :: string where
  "txt_exactly_bound_evidence_proves_the_hop_closed =
     ''exactly bound evidence proves the hop closed''"

definition txt_hop_was_open_under_an_earlier_binding :: string where
  "txt_hop_was_open_under_an_earlier_binding =
     ''hop was open under an earlier binding: ''"

definition txt_no_observation_was_ever_submitted_for_this :: string where
  "txt_no_observation_was_ever_submitted_for_this =
     ''no observation was ever submitted for this hop''"

definition txt_definition_itself_is_in_an_unknown_administrative :: string where
  "txt_definition_itself_is_in_an_unknown_administrative =
     ''definition itself is in an unknown administrative or link state''"

definition txt_edge_index_out_of_range :: string where
  "txt_edge_index_out_of_range =
     ''edge index out of range''"

definition txt_edge_and_endpoints_disagree_about_the_governed :: string where
  "txt_edge_and_endpoints_disagree_about_the_governed =
     ''edge and endpoints disagree about the governed domain''"

definition txt_definition_closes_the_hop_admin_disabled_or :: string where
  "txt_definition_closes_the_hop_admin_disabled_or =
     ''definition closes the hop: admin disabled or link down''"

definition txt_edge_endpoint_is_not_a_governed_resource :: string where
  "txt_edge_endpoint_is_not_a_governed_resource =
     ''edge endpoint is not a governed resource''"

definition txt_observation_identity_endpoints_or_sequence_is_invalid :: string where
  "txt_observation_identity_endpoints_or_sequence_is_invalid =
     ''observation identity, endpoints or sequence is invalid''"

definition txt_observation_must_bind_a_valid_generation_pair :: string where
  "txt_observation_must_bind_a_valid_generation_pair =
     ''observation must bind a valid generation pair''"

definition txt_observation_lease_must_bind_boot_epoch_and :: string where
  "txt_observation_lease_must_bind_boot_epoch_and =
     ''observation lease must bind boot, epoch and fabric epoch''"

definition txt_observation_lease_window_is_inverted :: string where
  "txt_observation_lease_window_is_inverted =
     ''observation lease window is inverted''"

definition txt_observation_carries_more_selectors_than_the_limit :: string where
  "txt_observation_carries_more_selectors_than_the_limit =
     ''observation carries more selectors than the limit''"

definition txt_observation_selectors_must_be_strictly_increasing_and :: string where
  "txt_observation_selectors_must_be_strictly_increasing_and =
     ''observation selectors must be strictly increasing and duplicate free''"

definition txt_a_present_observation_must_name_at_least :: string where
  "txt_a_present_observation_must_name_at_least =
     ''a Present observation must name at least one selector''"

definition txt_an_unknown_observation_cannot_name_selectors :: string where
  "txt_an_unknown_observation_cannot_name_selectors =
     ''an Unknown observation cannot name selectors''"

definition txt_observation_identity_is_already_present :: string where
  "txt_observation_identity_is_already_present =
     ''observation identity is already present''"

definition txt_producer_sequence_regressed_for_this_boot_and :: string where
  "txt_producer_sequence_regressed_for_this_boot_and =
     ''producer sequence regressed for this boot and epoch''"

definition txt_evidence_ledger_is_at_its_global_bound :: string where
  "txt_evidence_ledger_is_at_its_global_bound =
     ''evidence ledger is at its global bound''"

section \<open>Observations\<close>

record evidence_lease =
  ls_boot :: u64
  ls_epoch :: u64
  ls_fabric_epoch :: u64
  ls_valid_from :: u64
  ls_valid_until :: u64

definition is_live :: "evidence_lease \<Rightarrow> u64 \<Rightarrow> bool" where
  "is_live l now \<longleftrightarrow> now \<ge> ls_valid_from l \<and> now \<le> ls_valid_until l"

definition lease_to_string :: "evidence_lease \<Rightarrow> string" where
  "lease_to_string l = ''boot'' @ id_to_string (ls_boot l) @ ''/epoch'' @ id_to_string (ls_epoch l) @
     ''/fab'' @ id_to_string (ls_fabric_epoch l) @ ''/['' @ dec_digits (unat (ls_valid_from l)) @
     '','' @ dec_digits (unat (ls_valid_until l)) @ '']''"

record forwarding_observation =
  fo_id :: u64
  fo_edge :: u64
  fo_from :: u64
  fo_to :: u64
  fo_domain :: u64
  fo_klass :: evidence_class
  fo_selectors :: "u64 list"
  fo_topology_generation :: u64
  fo_forwarding_generation :: u64
  fo_producer :: u64
  fo_producer_kind :: producer_kind
  fo_sequence :: u64
  fo_origin :: evidence_origin
  fo_lease :: evidence_lease
  fo_payload_digest :: digest

text \<open>ObservationKey and its order, which is also operator< of observations.\<close>

definition observation_key :: "forwarding_observation \<Rightarrow> u64 \<times> u64 \<times> u64" where
  "observation_key o1 = (fo_producer o1, fo_sequence o1, fo_id o1)"

definition observation_less :: "forwarding_observation \<Rightarrow> forwarding_observation \<Rightarrow> bool" where
  "observation_less lhs rhs =
     (if fo_producer lhs \<noteq> fo_producer rhs then fo_producer lhs < fo_producer rhs
      else if fo_sequence lhs \<noteq> fo_sequence rhs then fo_sequence lhs < fo_sequence rhs
      else fo_id lhs < fo_id rhs)"

record hop_record =
  hr_edge_index :: nat
  hr_edge :: u64
  hr_from :: u64
  hr_to :: u64
  hr_domain :: u64
  hr_resolution :: hop_resolution
  hr_binding :: evidence_binding
  hr_effective :: "u64 list"
  hr_contributing :: "u64 list"
  hr_note :: explanation

definition observation_bytes :: "forwarding_observation \<Rightarrow> u8 list" where
  "observation_bytes ob = le64 (fo_id ob) @ le64 (fo_edge ob) @ le64 (fo_from ob) @ le64 (fo_to ob) @
     le64 (fo_domain ob) @ [enum_raw values_evidence_class (fo_klass ob)] @
     [enum_raw values_producer_kind (fo_producer_kind ob)] @ [enum_raw values_evidence_origin (fo_origin ob)] @
     le64 (fo_producer ob) @ le64 (fo_sequence ob) @ le64 (fo_topology_generation ob) @
     le64 (fo_forwarding_generation ob) @ le64 (ls_boot (fo_lease ob)) @ le64 (ls_epoch (fo_lease ob)) @
     le64 (ls_fabric_epoch (fo_lease ob)) @ le64 (ls_valid_from (fo_lease ob)) @
     le64 (ls_valid_until (fo_lease ob)) @ fo_payload_digest ob @ concat (map le64 (fo_selectors ob)) @ [0xFE]"

definition observations_digest :: "forwarding_observation list \<Rightarrow> digest" where
  "observations_digest obs = sha256 (concat (map observation_bytes (sort_key observation_key obs)))"

section \<open>Hop resolution\<close>

definition binding_priority :: "evidence_binding \<Rightarrow> nat" where
  "binding_priority b = (case b of Bind_Exact \<Rightarrow> 0 | Bind_EpochFenced \<Rightarrow> 1 | Bind_GenerationMismatch \<Rightarrow> 2
     | Bind_LeaseExpired \<Rightarrow> 3 | Bind_Superseded \<Rightarrow> 4 | Bind_NoEvidence \<Rightarrow> 5)"

text \<open>The supersession key: a producer within one boot and epoch.\<close>

definition producer_key :: "forwarding_observation \<Rightarrow> u64 \<times> u64 \<times> u64" where
  "producer_key ob = (fo_producer ob, ls_boot (fo_lease ob), ls_epoch (fo_lease ob))"

definition newest_sequences :: "forwarding_observation list \<Rightarrow> (u64 \<times> u64 \<times> u64) \<rightharpoonup> u64" where
  "newest_sequences candidates = foldl (\<lambda>newest ob. case newest (producer_key ob) of
       None \<Rightarrow> newest(producer_key ob \<mapsto> fo_sequence ob)
     | Some s \<Rightarrow> if s < fo_sequence ob then newest(producer_key ob \<mapsto> fo_sequence ob) else newest)
     Map.empty candidates"

definition classify_binding ::
    "(u64 \<times> u64 \<times> u64 \<rightharpoonup> u64) \<Rightarrow> fence_vector \<Rightarrow> u64 \<Rightarrow> forwarding_observation \<Rightarrow> evidence_binding" where
  "classify_binding newest current now ob =
     (if ls_boot (fo_lease ob) \<noteq> fv_boot current \<or> ls_epoch (fo_lease ob) \<noteq> fv_epoch current \<or>
         ls_fabric_epoch (fo_lease ob) \<noteq> fv_fabric_epoch current then Bind_EpochFenced
      else if fo_topology_generation ob \<noteq> fv_topology current \<or>
         fo_forwarding_generation ob \<noteq> fv_forwarding current then Bind_GenerationMismatch
      else if \<not> is_live (fo_lease ob) now then Bind_LeaseExpired
      else case newest (producer_key ob) of
          Some s \<Rightarrow> if s > fo_sequence ob then Bind_Superseded else Bind_Exact
        | None \<Rightarrow> Bind_Exact)"

record hop_scan =
  sc_exact_present :: bool
  sc_exact_absent :: bool
  sc_unproven_present :: bool
  sc_best_non_exact :: evidence_binding
  sc_exact_selectors :: "u64 list"
  sc_unproven_selectors :: "u64 list"

definition initial_scan :: hop_scan where
  "initial_scan = \<lparr>sc_exact_present = False, sc_exact_absent = False, sc_unproven_present = False,
     sc_best_non_exact = Bind_NoEvidence, sc_exact_selectors = [], sc_unproven_selectors = []\<rparr>"

definition scan_step :: "(forwarding_observation \<Rightarrow> evidence_binding) \<Rightarrow> hop_scan \<Rightarrow> forwarding_observation \<Rightarrow> hop_scan" where
  "scan_step bind s ob =
     (let b = bind ob
      in if b = Bind_Exact then
           (case fo_klass ob of
              Ev_Present \<Rightarrow> s\<lparr>sc_exact_present := True, sc_exact_selectors := sc_exact_selectors s @ fo_selectors ob\<rparr>
            | Ev_Absent \<Rightarrow> s\<lparr>sc_exact_absent := True\<rparr>
            | Ev_Unknown \<Rightarrow> s)
         else
           let s = (if binding_priority b < binding_priority (sc_best_non_exact s)
                    then s\<lparr>sc_best_non_exact := b\<rparr> else s)
           in if b \<noteq> Bind_Superseded \<and> fo_klass ob = Ev_Present
              then s\<lparr>sc_unproven_present := True, sc_unproven_selectors := sc_unproven_selectors s @ fo_selectors ob\<rparr>
              else s)"

definition scan_candidates :: "forwarding_observation list \<Rightarrow> fence_vector \<Rightarrow> u64 \<Rightarrow> hop_scan" where
  "scan_candidates candidates current now =
     foldl (scan_step (classify_binding (newest_sequences candidates) current now)) initial_scan candidates"

definition canonical_intersection :: "forwarding_edge \<Rightarrow> u64 list \<Rightarrow> u64 list" where
  "canonical_intersection edge selectors = set_intersection (sort_unique selectors) (fe_selectors edge)"

text \<open>What the scan concludes for a hop the definition leaves open.\<close>

definition hop_verdict :: "forwarding_edge \<Rightarrow> bool \<Rightarrow> bool \<Rightarrow> hop_scan \<Rightarrow> hop_record \<Rightarrow> hop_record" where
  "hop_verdict edge definition_unknown no_candidates s rec =
     (let subject = id_to_string (fe_id edge);
          exact = canonical_intersection edge (sc_exact_selectors s);
          unproven = canonical_intersection edge (sc_unproven_selectors s)
      in if sc_exact_present s \<and> sc_exact_absent s then
           rec\<lparr>hr_resolution := Hop_Conflicted, hr_binding := Bind_Exact,
               hr_note := ex_add R_HopConflictsWithItself subject
                 txt_exactly_bound_authoritative_evidence_asserts_both_directions (hr_note rec)\<rparr>
         else if sc_exact_present s then
           (if exact = [] then
              rec\<lparr>hr_resolution := Hop_Unproven, hr_binding := Bind_Exact,
                  hr_note := ex_add R_WitnessSelectorNotAdmitted subject
                    txt_evidence_names_selectors_the_edge_does_not (hr_note rec)\<rparr>
            else
              rec\<lparr>hr_effective := exact, hr_resolution := Hop_ProvenOpen, hr_binding := Bind_Exact,
                  hr_note := ex_add R_WitnessSuccessfullyValidated subject
                    txt_exactly_bound_evidence_proves_the_hop_open (hr_note rec)\<rparr>)
         else if sc_exact_absent s then
           rec\<lparr>hr_resolution := Hop_ProvenClosed, hr_binding := Bind_Exact,
               hr_note := ex_add R_CycleBrokenByAbsentEvidence subject
                 txt_exactly_bound_evidence_proves_the_hop_closed (hr_note rec)\<rparr>
         else if sc_unproven_present s \<and> unproven \<noteq> [] then
           rec\<lparr>hr_effective := unproven, hr_binding := sc_best_non_exact s, hr_resolution := Hop_UnprovenOpen,
               hr_note := ex_add R_CycleRequiresUnprovenHop subject
                 (txt_hop_was_open_under_an_earlier_binding @ name_evidence_binding (sc_best_non_exact s))
                 (hr_note rec)\<rparr>
         else
           let note = (if no_candidates then ex_add R_NoObservationForHop subject
                         txt_no_observation_was_ever_submitted_for_this (hr_note rec) else hr_note rec);
               note = (if definition_unknown \<and> no_candidates then ex_add R_WitnessResourceUnknown subject
                         txt_definition_itself_is_in_an_unknown_administrative note else note)
           in rec\<lparr>hr_resolution := Hop_Unproven,
                  hr_binding := (if no_candidates then Bind_NoEvidence else sc_best_non_exact s),
                  hr_note := note\<rparr>)"

definition blank_hop :: "nat \<Rightarrow> forwarding_edge \<Rightarrow> u32 \<Rightarrow> hop_record" where
  "blank_hop ei edge max_reasons =
     \<lparr>hr_edge_index = ei, hr_edge = fe_id edge, hr_from = fe_from edge, hr_to = fe_to edge,
      hr_domain = fe_domain edge, hr_resolution = Hop_Unproven, hr_binding = Bind_NoEvidence,
      hr_effective = [], hr_contributing = [], hr_note = new_explanation max_reasons\<rparr>"

definition definition_closes :: "resource_record \<Rightarrow> resource_record \<Rightarrow> forwarding_edge \<Rightarrow> bool" where
  "definition_closes source target edge \<longleftrightarrow>
     rr_admin source = Admin_Disabled \<or> rr_admin target = Admin_Disabled \<or> fe_link edge = Link_Down"

definition definition_is_unknown :: "resource_record \<Rightarrow> resource_record \<Rightarrow> forwarding_edge \<Rightarrow> bool" where
  "definition_is_unknown source target edge \<longleftrightarrow>
     rr_admin source = Admin_Unknown \<or> rr_admin target = Admin_Unknown \<or> fe_link edge = Link_Unknown"

definition resolve_hop :: "topology \<Rightarrow> nat \<Rightarrow> forwarding_observation list \<Rightarrow> fence_vector \<Rightarrow> u64 \<Rightarrow> limits \<Rightarrow>
    hop_record result" where
  "resolve_hop t ei candidates current now l =
     (if ei \<ge> length (td_edges t) then failure Oc_Invalid txt_edge_index_out_of_range
      else
        let edge = td_edges t ! ei;
            rec = blank_hop ei edge (max_explanation_reasons l);
            subject = id_to_string (fe_id edge)
        in case (find_resource t (fe_from edge), find_resource t (fe_to edge)) of
            (Some source, Some target) \<Rightarrow>
              if rr_domain source \<noteq> fe_domain edge \<or> rr_domain target \<noteq> fe_domain edge then
                ok (rec\<lparr>hr_resolution := Hop_Unsupported, hr_binding := Bind_NoEvidence,
                    hr_note := ex_add R_WitnessResourceUnknown subject
                      txt_edge_and_endpoints_disagree_about_the_governed (hr_note rec)\<rparr>)
              else
                let rec = rec\<lparr>hr_contributing := sort (map fo_id candidates)\<rparr>
                in if definition_closes source target edge then
                     ok (rec\<lparr>hr_resolution := Hop_ProvenClosed, hr_binding := Bind_NoEvidence,
                         hr_note := ex_add R_CycleBrokenByAbsentEvidence subject
                           txt_definition_closes_the_hop_admin_disabled_or (hr_note rec)\<rparr>)
                   else ok (hop_verdict edge (definition_is_unknown source target edge) (candidates = [])
                              (scan_candidates candidates current now) rec)
          | _ \<Rightarrow> ok (rec\<lparr>hr_resolution := Hop_Unsupported, hr_binding := Bind_NoEvidence,
                   hr_note := ex_add R_WitnessResourceUnknown subject
                     txt_edge_endpoint_is_not_a_governed_resource (hr_note rec)\<rparr>))"

section \<open>The ledger\<close>

record ledger_stats =
  st_accepted :: u64
  st_duplicate :: u64
  st_regressed :: u64
  st_rejected :: u64
  st_evicted :: u64

record evidence_ledger =
  el_limits :: limits
  el_observations :: "forwarding_observation list"
  el_by_id :: "u64 \<rightharpoonup> forwarding_observation"
  el_by_edge :: "u64 \<rightharpoonup> forwarding_observation list"
  el_high :: "(u64 \<times> u64 \<times> u64) \<rightharpoonup> u64"
  el_stats :: ledger_stats

definition new_ledger :: "limits \<Rightarrow> evidence_ledger" where
  "new_ledger l = \<lparr>el_limits = l, el_observations = [], el_by_id = Map.empty, el_by_edge = Map.empty,
     el_high = Map.empty,
     el_stats = \<lparr>st_accepted = 0, st_duplicate = 0, st_regressed = 0, st_rejected = 0, st_evicted = 0\<rparr>\<rparr>"

definition count_rejected :: "evidence_ledger \<Rightarrow> evidence_ledger" where
  "count_rejected g = g\<lparr>el_stats := (el_stats g)\<lparr>st_rejected := st_rejected (el_stats g) + 1\<rparr>\<rparr>"

text \<open>The structural checks of submit, in order.\<close>

definition check_observation :: "limits \<Rightarrow> forwarding_observation \<Rightarrow> (outcome \<times> string) option" where
  "check_observation l ob =
     (if \<not> id_valid (fo_id ob) \<or> \<not> id_valid (fo_edge ob) \<or> \<not> id_valid (fo_from ob) \<or> \<not> id_valid (fo_to ob) \<or>
         \<not> id_valid (fo_domain ob) \<or> \<not> id_valid (fo_producer ob) \<or> \<not> id_valid (fo_sequence ob)
        then Some (Oc_Invalid, txt_observation_identity_endpoints_or_sequence_is_invalid)
      else if \<not> id_valid (fo_topology_generation ob) \<or> \<not> id_valid (fo_forwarding_generation ob)
        then Some (Oc_Invalid, txt_observation_must_bind_a_valid_generation_pair)
      else if \<not> id_valid (ls_boot (fo_lease ob)) \<or> \<not> id_valid (ls_epoch (fo_lease ob)) \<or>
         \<not> id_valid (ls_fabric_epoch (fo_lease ob))
        then Some (Oc_Invalid, txt_observation_lease_must_bind_boot_epoch_and)
      else if ls_valid_until (fo_lease ob) < ls_valid_from (fo_lease ob)
        then Some (Oc_Invalid, txt_observation_lease_window_is_inverted)
      else if length (fo_selectors ob) > unat (max_selectors l)
        then Some (Oc_Exhausted, txt_observation_carries_more_selectors_than_the_limit)
      else if \<not> strictly_increasing (fo_selectors ob)
        then Some (Oc_Invalid, txt_observation_selectors_must_be_strictly_increasing_and)
      else if fo_klass ob = Ev_Present \<and> fo_selectors ob = []
        then Some (Oc_Invalid, txt_a_present_observation_must_name_at_least)
      else if fo_klass ob = Ev_Unknown \<and> fo_selectors ob \<noteq> []
        then Some (Oc_Invalid, txt_an_unknown_observation_cannot_name_selectors)
      else None)"

definition victim_index :: "forwarding_observation list \<Rightarrow> nat" where
  "victim_index bucket = foldl (\<lambda>victim i. if observation_less (bucket ! i) (bucket ! victim) then i else victim)
     0 [1..<length bucket]"

definition erase_at :: "nat \<Rightarrow> 'a list \<Rightarrow> 'a list" where
  "erase_at i xs = take i xs @ drop (Suc i) xs"

text \<open>One round of the eviction loop, on the bucket of \<open>edge\<close>.\<close>

definition evict_one :: "u64 \<Rightarrow> forwarding_observation list \<Rightarrow> evidence_ledger \<Rightarrow> evidence_ledger" where
  "evict_one edge bucket g =
     (let victim = victim_index bucket; doomed = bucket ! victim
      in g\<lparr>el_by_id := (el_by_id g)(fo_id doomed := None),
           el_observations := filter (\<lambda>ob. observation_key ob \<noteq> observation_key doomed) (el_observations g),
           el_by_edge := (el_by_edge g)(edge \<mapsto> erase_at victim bucket),
           el_stats := (el_stats g)\<lparr>st_evicted := st_evicted (el_stats g) + 1\<rparr>\<rparr>)"

text \<open>The loop; \<open>operator[]\<close> has created the bucket. With a bound of 0, which \<open>limits_are_sane\<close>
  excludes, the sources would index an empty vector; the model stops there.\<close>

function evict :: "u64 \<Rightarrow> forwarding_observation list \<Rightarrow> nat \<Rightarrow> evidence_ledger \<Rightarrow> evidence_ledger" where
  "evict edge bucket bound g =
     (if length bucket < bound \<or> bucket = [] then g
      else evict edge (erase_at (victim_index bucket) bucket) bound (evict_one edge bucket g))"
  by pat_completeness auto

definition bucket_of :: "evidence_ledger \<Rightarrow> u64 \<Rightarrow> forwarding_observation list" where
  "bucket_of g edge = (case el_by_edge g edge of None \<Rightarrow> [] | Some b \<Rightarrow> b)"

definition store_observation :: "forwarding_observation \<Rightarrow> evidence_ledger \<Rightarrow> evidence_ledger" where
  "store_observation ob g =
     (let obs = (if observation_key ob \<in> observation_key ` set (el_observations g) then el_observations g
                 else insert_sorted observation_key ob (el_observations g));
          stored = (case find_sorted observation_key obs (observation_key ob) of Some s \<Rightarrow> s | None \<Rightarrow> ob)
      in g\<lparr>el_observations := obs,
           el_by_id := (el_by_id g)(fo_id ob \<mapsto> stored),
           el_by_edge := (el_by_edge g)(fo_edge ob \<mapsto> sort_key observation_key (bucket_of g (fo_edge ob) @ [stored])),
           el_high := (el_high g)(producer_key ob \<mapsto> fo_sequence ob),
           el_stats := (el_stats g)\<lparr>st_accepted := st_accepted (el_stats g) + 1\<rparr>\<rparr>)"

definition submit :: "forwarding_observation \<Rightarrow> evidence_ledger \<Rightarrow> status \<times> evidence_ledger" where
  "submit ob g =
     (case check_observation (el_limits g) ob of Some (oc, detail) \<Rightarrow> (failure oc detail, count_rejected g)
      | None \<Rightarrow>
        if el_by_id g (fo_id ob) \<noteq> None then
          (failure Oc_AlreadyExists txt_observation_identity_is_already_present,
           g\<lparr>el_stats := (el_stats g)\<lparr>st_duplicate := st_duplicate (el_stats g) + 1\<rparr>\<rparr>)
        else if (case el_high g (producer_key ob) of None \<Rightarrow> False | Some h \<Rightarrow> h \<ge> fo_sequence ob) then
          (failure Oc_Stale txt_producer_sequence_regressed_for_this_boot_and,
           g\<lparr>el_stats := (el_stats g)\<lparr>st_regressed := st_regressed (el_stats g) + 1\<rparr>\<rparr>)
        else if length (el_observations g) \<ge> unat (max_observations (el_limits g)) then
          (failure Oc_Exhausted txt_evidence_ledger_is_at_its_global_bound, count_rejected g)
        else
          let bucket = bucket_of g (fo_edge ob);
              g = g\<lparr>el_by_edge := (el_by_edge g)(fo_edge ob \<mapsto> bucket)\<rparr>;
              g = evict (fo_edge ob) bucket (unat (max_observations_per_edge (el_limits g))) g
          in (status_ok, store_observation ob g))"

definition find_observation :: "evidence_ledger \<Rightarrow> u64 \<Rightarrow> forwarding_observation option" where
  "find_observation g i = el_by_id g i"

definition observation_count_for_edge :: "evidence_ledger \<Rightarrow> u64 \<Rightarrow> nat" where
  "observation_count_for_edge g edge = (case el_by_edge g edge of None \<Rightarrow> 0 | Some b \<Rightarrow> length b)"

definition resolve :: "evidence_ledger \<Rightarrow> topology \<Rightarrow> nat \<Rightarrow> fence_vector \<Rightarrow> u64 \<Rightarrow> hop_record result" where
  "resolve g t ei current now =
     (if ei \<ge> length (td_edges t) then failure Oc_Invalid txt_edge_index_out_of_range
      else resolve_hop t ei
             (case el_by_edge g (fe_id (td_edges t ! ei)) of None \<Rightarrow> [] | Some b \<Rightarrow> b)
             current now (el_limits g))"

fun resolve_from :: "evidence_ledger \<Rightarrow> topology \<Rightarrow> fence_vector \<Rightarrow> u64 \<Rightarrow> nat list \<Rightarrow> hop_record list \<Rightarrow>
    hop_record list result" where
  "resolve_from g t current now [] records = ok records"
| "resolve_from g t current now (i # is) records =
     (let resolved = resolve g t i current now
      in case r_value resolved of
          None \<Rightarrow> failure (r_outcome resolved) (r_detail resolved)
        | Some rec \<Rightarrow> resolve_from g t current now is (records @ [rec]))"

definition resolve_all :: "evidence_ledger \<Rightarrow> topology \<Rightarrow> fence_vector \<Rightarrow> u64 \<Rightarrow> hop_record list result" where
  "resolve_all g t current now = resolve_from g t current now [0..<length (td_edges t)] []"

definition clear_dynamic_state :: "evidence_ledger \<Rightarrow> evidence_ledger" where
  "clear_dynamic_state g = g\<lparr>el_observations := [], el_by_id := Map.empty, el_by_edge := Map.empty,
     el_high := Map.empty\<rparr>"

definition ledger_digest :: "evidence_ledger \<Rightarrow> digest" where
  "ledger_digest g = observations_digest (el_observations g)"

definition ledger_origin :: "evidence_ledger \<Rightarrow> evidence_origin" where
  "ledger_origin g =
     (if list_ex (\<lambda>ob. fo_origin ob = Origin_Real) (el_observations g) then Origin_Real
      else if list_ex (\<lambda>ob. fo_origin ob = Origin_Synthetic) (el_observations g) then Origin_Synthetic
      else if el_observations g = [] then Origin_Synthetic else Origin_Unsupported)"

definition non_exact_count :: "evidence_ledger \<Rightarrow> fence_vector \<Rightarrow> u64 \<Rightarrow> nat" where
  "non_exact_count g current now = length (filter (\<lambda>ob.
     ls_boot (fo_lease ob) \<noteq> fv_boot current \<or> ls_epoch (fo_lease ob) \<noteq> fv_epoch current \<or>
     ls_fabric_epoch (fo_lease ob) \<noteq> fv_fabric_epoch current \<or>
     fo_topology_generation ob \<noteq> fv_topology current \<or>
     fo_forwarding_generation ob \<noteq> fv_forwarding current \<or> \<not> is_live (fo_lease ob) now) (el_observations g))"

section \<open>Eviction terminates\<close>

lemma victim_index_less: "bucket \<noteq> [] \<Longrightarrow> victim_index bucket < length bucket"
proof -
  assume "bucket \<noteq> []"
  have "foldl (\<lambda>victim i. if observation_less (bucket ! i) (bucket ! victim) then i else victim) v is < length bucket"
    if "v < length bucket" "\<forall>i \<in> set is. i < length bucket" for v "is"
    using that by (induction "is" arbitrary: v) auto
  then show ?thesis using \<open>bucket \<noteq> []\<close> unfolding victim_index_def by simp
qed

lemma length_erase_at: "i < length xs \<Longrightarrow> length (erase_at i xs) = length xs - 1"
  by (simp add: erase_at_def)

termination evict
  by (relation "measure (\<lambda>(edge, bucket, bound, g). length bucket)")
     (auto simp: length_erase_at victim_index_less)

declare evict.simps [simp del]

section \<open>The scan\<close>

text \<open>An observation is exactly bound when its fence and generations are the current ones, its lease
  is live, and its producer has made no newer statement about the hop in the same boot and epoch.\<close>

definition exactly_bound ::
    "forwarding_observation set \<Rightarrow> fence_vector \<Rightarrow> u64 \<Rightarrow> forwarding_observation \<Rightarrow> bool" where
  "exactly_bound obs current now ob \<longleftrightarrow>
     ls_boot (fo_lease ob) = fv_boot current \<and> ls_epoch (fo_lease ob) = fv_epoch current \<and>
     ls_fabric_epoch (fo_lease ob) = fv_fabric_epoch current \<and>
     fo_topology_generation ob = fv_topology current \<and>
     fo_forwarding_generation ob = fv_forwarding current \<and> is_live (fo_lease ob) now \<and>
     (\<forall>ob' \<in> obs. producer_key ob' = producer_key ob \<longrightarrow> fo_sequence ob' \<le> fo_sequence ob)"

lemma observation_less_key: "observation_less a b \<longleftrightarrow> observation_key a < observation_key b"
  by (auto simp: observation_less_def observation_key_def less_prod_simp)

lemma newest_sequences_snoc:
  "newest_sequences (obs @ [ob]) = (case newest_sequences obs (producer_key ob) of
       None \<Rightarrow> (newest_sequences obs)(producer_key ob \<mapsto> fo_sequence ob)
     | Some s \<Rightarrow> if s < fo_sequence ob then (newest_sequences obs)(producer_key ob \<mapsto> fo_sequence ob)
                 else newest_sequences obs)"
  unfolding newest_sequences_def by simp

lemma newest_sequences_spec:
  "newest_sequences obs k = None \<longleftrightarrow> (\<forall>ob \<in> set obs. producer_key ob \<noteq> k)"
  "newest_sequences obs k = Some s \<longleftrightarrow> (\<exists>ob \<in> set obs. producer_key ob = k \<and> fo_sequence ob = s) \<and>
     (\<forall>ob \<in> set obs. producer_key ob = k \<longrightarrow> fo_sequence ob \<le> s)"
proof -
  have "(newest_sequences obs k = None \<longleftrightarrow> (\<forall>ob \<in> set obs. producer_key ob \<noteq> k)) \<and>
    (\<forall>s. newest_sequences obs k = Some s \<longrightarrow> (\<exists>ob \<in> set obs. producer_key ob = k \<and> fo_sequence ob = s) \<and>
     (\<forall>ob \<in> set obs. producer_key ob = k \<longrightarrow> fo_sequence ob \<le> s))"
  proof (induction obs rule: rev_induct)
    case Nil
    then show ?case by (simp add: newest_sequences_def)
  next
    case (snoc ob obs)
    show ?case
    proof (cases "k = producer_key ob")
      case False
      then have "newest_sequences (obs @ [ob]) k = newest_sequences obs k"
        by (auto simp: newest_sequences_snoc split: option.split)
      with False snoc show ?thesis by simp
    next
      case k: True
      show ?thesis
      proof (cases "newest_sequences obs k")
        case None
        with k have "newest_sequences (obs @ [ob]) k = Some (fo_sequence ob)"
          by (simp add: newest_sequences_snoc)
        with snoc None k show ?thesis by simp
      next
        case (Some s)
        with k have "newest_sequences (obs @ [ob]) k = Some (if s < fo_sequence ob then fo_sequence ob else s)"
          by (simp add: newest_sequences_snoc)
        with snoc Some k show ?thesis by fastforce
      qed
    qed
  qed
  then show "newest_sequences obs k = None \<longleftrightarrow> (\<forall>ob \<in> set obs. producer_key ob \<noteq> k)"
    "newest_sequences obs k = Some s \<longleftrightarrow> (\<exists>ob \<in> set obs. producer_key ob = k \<and> fo_sequence ob = s) \<and>
     (\<forall>ob \<in> set obs. producer_key ob = k \<longrightarrow> fo_sequence ob \<le> s)"
    by (blast, cases "newest_sequences obs k") (auto intro: antisym)
qed

lemma newest_sequences_cong: "set xs = set ys \<Longrightarrow> newest_sequences xs = newest_sequences ys"
proof
  fix k assume "set xs = set ys"
  then have "newest_sequences xs k = r \<longleftrightarrow> newest_sequences ys k = r" for r
    by (cases r) (simp_all only: newest_sequences_spec)
  then show "newest_sequences xs k = newest_sequences ys k" by blast
qed

lemma classify_exact_iff:
  assumes "ob \<in> set obs"
  shows "classify_binding (newest_sequences obs) current now ob = Bind_Exact \<longleftrightarrow>
    exactly_bound (set obs) current now ob"
proof (cases "newest_sequences obs (producer_key ob)")
  case None
  then show ?thesis using newest_sequences_spec(1)[of obs "producer_key ob"] assms by blast
next
  case (Some s)
  then obtain w where w: "w \<in> set obs" "producer_key w = producer_key ob" "fo_sequence w = s"
    and le: "\<forall>ob' \<in> set obs. producer_key ob' = producer_key ob \<longrightarrow> fo_sequence ob' \<le> s"
    using newest_sequences_spec(2)[of obs "producer_key ob" s] by blast
  have "s > fo_sequence ob \<longleftrightarrow>
      \<not> (\<forall>ob' \<in> set obs. producer_key ob' = producer_key ob \<longrightarrow> fo_sequence ob' \<le> fo_sequence ob)"
    using w le by (metis le_less_trans not_le)
  moreover have "classify_binding (newest_sequences obs) current now ob = Bind_Exact \<longleftrightarrow>
     ls_boot (fo_lease ob) = fv_boot current \<and> ls_epoch (fo_lease ob) = fv_epoch current \<and>
     ls_fabric_epoch (fo_lease ob) = fv_fabric_epoch current \<and>
     fo_topology_generation ob = fv_topology current \<and>
     fo_forwarding_generation ob = fv_forwarding current \<and> is_live (fo_lease ob) now \<and> \<not> s > fo_sequence ob"
    using Some by (auto simp: classify_binding_def)
  ultimately show ?thesis unfolding exactly_bound_def by argo
qed

lemma classify_superseded:
  "classify_binding newest current now ob = Bind_Superseded \<longleftrightarrow>
    ls_boot (fo_lease ob) = fv_boot current \<and> ls_epoch (fo_lease ob) = fv_epoch current \<and>
    ls_fabric_epoch (fo_lease ob) = fv_fabric_epoch current \<and>
    fo_topology_generation ob = fv_topology current \<and>
    fo_forwarding_generation ob = fv_forwarding current \<and> is_live (fo_lease ob) now \<and>
    (\<exists>s. newest (producer_key ob) = Some s \<and> fo_sequence ob < s)"
  by (auto simp: classify_binding_def split: option.splits)

lemma binding_priority_inject [simp]: "binding_priority a = binding_priority b \<longleftrightarrow> a = b"
  by (cases a; cases b) (simp_all add: binding_priority_def)

lemma scan_step_fields:
  "sc_exact_present (scan_step bind s ob) \<longleftrightarrow> sc_exact_present s \<or> bind ob = Bind_Exact \<and> fo_klass ob = Ev_Present"
  "sc_exact_absent (scan_step bind s ob) \<longleftrightarrow> sc_exact_absent s \<or> bind ob = Bind_Exact \<and> fo_klass ob = Ev_Absent"
  "sc_unproven_present (scan_step bind s ob) \<longleftrightarrow> sc_unproven_present s \<or>
     bind ob \<noteq> Bind_Exact \<and> bind ob \<noteq> Bind_Superseded \<and> fo_klass ob = Ev_Present"
  "binding_priority (sc_best_non_exact (scan_step bind s ob)) =
     (if bind ob = Bind_Exact then binding_priority (sc_best_non_exact s)
      else min (binding_priority (bind ob)) (binding_priority (sc_best_non_exact s)))"
  "sc_exact_selectors (scan_step bind s ob) = sc_exact_selectors s @
     (if bind ob = Bind_Exact \<and> fo_klass ob = Ev_Present then fo_selectors ob else [])"
  "sc_unproven_selectors (scan_step bind s ob) = sc_unproven_selectors s @
     (if bind ob \<noteq> Bind_Exact \<and> bind ob \<noteq> Bind_Superseded \<and> fo_klass ob = Ev_Present then fo_selectors ob else [])"
  by (cases "fo_klass ob"; simp add: scan_step_def Let_def)+

lemma scan_present:
  "sc_exact_present (foldl (scan_step bind) s obs) \<longleftrightarrow>
     sc_exact_present s \<or> (\<exists>ob \<in> set obs. bind ob = Bind_Exact \<and> fo_klass ob = Ev_Present)"
  "sc_exact_absent (foldl (scan_step bind) s obs) \<longleftrightarrow>
     sc_exact_absent s \<or> (\<exists>ob \<in> set obs. bind ob = Bind_Exact \<and> fo_klass ob = Ev_Absent)"
  "sc_unproven_present (foldl (scan_step bind) s obs) \<longleftrightarrow> sc_unproven_present s \<or>
     (\<exists>ob \<in> set obs. bind ob \<noteq> Bind_Exact \<and> bind ob \<noteq> Bind_Superseded \<and> fo_klass ob = Ev_Present)"
  by (induction obs arbitrary: s; auto simp: scan_step_fields)+

lemma scan_selectors:
  "set (sc_exact_selectors (foldl (scan_step bind) s obs)) = set (sc_exact_selectors s) \<union>
     (\<Union>ob \<in> {ob \<in> set obs. bind ob = Bind_Exact \<and> fo_klass ob = Ev_Present}. set (fo_selectors ob))"
  "set (sc_unproven_selectors (foldl (scan_step bind) s obs)) = set (sc_unproven_selectors s) \<union>
     (\<Union>ob \<in> {ob \<in> set obs. bind ob \<noteq> Bind_Exact \<and> bind ob \<noteq> Bind_Superseded \<and> fo_klass ob = Ev_Present}.
        set (fo_selectors ob))"
  by (induction obs arbitrary: s; auto simp: scan_step_fields split: if_splits)+

text \<open>The reported binding is the one of the smallest priority among the non-exact ones.\<close>

lemma scan_best:
  "(binding_priority (sc_best_non_exact (foldl (scan_step bind) s obs)) \<le> p) \<longleftrightarrow>
     binding_priority (sc_best_non_exact s) \<le> p \<or>
     (\<exists>ob \<in> set obs. bind ob \<noteq> Bind_Exact \<and> binding_priority (bind ob) \<le> p)"
  by (induction obs arbitrary: s) (auto simp: scan_step_fields min_le_iff_disj)

section \<open>Order independence\<close>

lemma scan_best_cong:
  assumes "set xs = set ys"
  shows "sc_best_non_exact (foldl (scan_step bind) s xs) = sc_best_non_exact (foldl (scan_step bind) s ys)"
proof -
  have "binding_priority (sc_best_non_exact (foldl (scan_step bind) s xs)) \<le> p \<longleftrightarrow>
    binding_priority (sc_best_non_exact (foldl (scan_step bind) s ys)) \<le> p" for p
    unfolding scan_best assms ..
  then show ?thesis by (metis antisym binding_priority_inject order_refl)
qed

lemma sort_unique_cong: "set xs = set ys \<Longrightarrow> sort_unique xs = sort_unique ys"
  by (rule strict_sorted_equal) simp_all

lemma hop_verdict_cong:
  assumes "sc_exact_present s = sc_exact_present s'" "sc_exact_absent s = sc_exact_absent s'"
    and "sc_unproven_present s = sc_unproven_present s'" "sc_best_non_exact s = sc_best_non_exact s'"
    and "set (sc_exact_selectors s) = set (sc_exact_selectors s')"
    and "set (sc_unproven_selectors s) = set (sc_unproven_selectors s')"
  shows "hop_verdict edge u e s rec = hop_verdict edge u e s' rec"
  using sort_unique_cong[OF assms(5)] sort_unique_cong[OF assms(6)]
  by (simp add: hop_verdict_def canonical_intersection_def assms(1-4) Let_def)

lemma scan_candidates_cong:
  assumes "set xs = set ys"
  shows "hop_verdict edge u e (scan_candidates xs current now) rec =
    hop_verdict edge u e (scan_candidates ys current now) rec"
  unfolding scan_candidates_def newest_sequences_cong[OF assms]
  by (rule hop_verdict_cong) (simp_all add: scan_present scan_selectors scan_best_cong[OF assms] assms)

lemma resolve_hop_permute:
  assumes "mset xs = mset ys"
  shows "resolve_hop t i xs current now l = resolve_hop t i ys current now l"
proof -
  have "set xs = set ys" using assms by (rule mset_eq_setD)
  moreover have "sort (map fo_id xs) = sort (map fo_id ys)"
    using assms by (metis mset_map properties_for_sort mset_sort sorted_sort)
  moreover have "xs = [] \<longleftrightarrow> ys = []" using assms by auto
  ultimately show ?thesis
    unfolding resolve_hop_def Let_def
    by (auto simp: scan_candidates_cong[of xs ys] split: option.splits)
qed

section \<open>When a hop is proven open\<close>

definition exact_statement :: "evidence_class \<Rightarrow> forwarding_observation list \<Rightarrow> fence_vector \<Rightarrow> u64 \<Rightarrow>
    forwarding_observation \<Rightarrow> bool" where
  "exact_statement klass obs current now ob \<longleftrightarrow>
     ob \<in> set obs \<and> exactly_bound (set obs) current now ob \<and> fo_klass ob = klass"

lemma scan_candidates_exact:
  "sc_exact_present (scan_candidates obs current now) \<longleftrightarrow> (\<exists>ob. exact_statement Ev_Present obs current now ob)"
  "sc_exact_absent (scan_candidates obs current now) \<longleftrightarrow> (\<exists>ob. exact_statement Ev_Absent obs current now ob)"
  "x \<in> set (sc_exact_selectors (scan_candidates obs current now)) \<longleftrightarrow>
     (\<exists>ob. exact_statement Ev_Present obs current now ob \<and> x \<in> set (fo_selectors ob))"
  unfolding scan_candidates_def
  by (auto simp: scan_present scan_selectors initial_scan_def exact_statement_def classify_exact_iff)

lemma canonical_intersection_set:
  assumes "sorted_wrt (<) (fe_selectors edge)"
  shows "set (canonical_intersection edge sels) = set sels \<inter> set (fe_selectors edge)"
    and "sorted_wrt (<) (canonical_intersection edge sels)"
  using assms by (auto simp: canonical_intersection_def set_intersection_filter sorted_wrt_filter)

lemma hop_verdict_open:
  "hr_resolution (hop_verdict edge u e s rec) = Hop_ProvenOpen \<longleftrightarrow>
     sc_exact_present s \<and> \<not> sc_exact_absent s \<and> canonical_intersection edge (sc_exact_selectors s) \<noteq> []"
  "hr_resolution (hop_verdict edge u e s rec) = Hop_ProvenOpen \<Longrightarrow>
     hr_effective (hop_verdict edge u e s rec) = canonical_intersection edge (sc_exact_selectors s)"
  "hr_resolution (hop_verdict edge u e s rec) = Hop_Conflicted \<longleftrightarrow> sc_exact_present s \<and> sc_exact_absent s"
  "hr_resolution (hop_verdict edge u e s rec) = Hop_ProvenClosed \<longleftrightarrow> \<not> sc_exact_present s \<and> sc_exact_absent s"
  unfolding hop_verdict_def Let_def by (auto split: if_splits)

text \<open>The result of \<open>resolve_hop\<close> on a canonical definition: the two unsupported exits are dead.\<close>

lemma topology_edge_endpoints:
  assumes "topology_ok t" "i < length (td_edges t)"
  obtains source target where "find_resource t (fe_from (td_edges t ! i)) = Some source"
    "find_resource t (fe_to (td_edges t ! i)) = Some target"
    "rr_domain source = fe_domain (td_edges t ! i)" "rr_domain target = fe_domain (td_edges t ! i)"
proof -
  have "edge_ok (td_resources t) (td_selectors t) (td_edges t ! i)"
    using assms by (simp add: topology_ok_def)
  then show thesis using that by (auto simp: edge_ok_def find_resource_def)
qed

lemma resolve_hop_ok:
  assumes "topology_ok t" "i < length (td_edges t)"
    and "find_resource t (fe_from (td_edges t ! i)) = Some source"
    and "find_resource t (fe_to (td_edges t ! i)) = Some target"
  shows "\<exists>rec. resolve_hop t i obs current now l =
    ok (if definition_closes source target (td_edges t ! i) then
          rec\<lparr>hr_resolution := Hop_ProvenClosed, hr_binding := Bind_NoEvidence,
              hr_note := ex_add R_CycleBrokenByAbsentEvidence (id_to_string (fe_id (td_edges t ! i)))
                txt_definition_closes_the_hop_admin_disabled_or (hr_note rec)\<rparr>
        else hop_verdict (td_edges t ! i) (definition_is_unknown source target (td_edges t ! i)) (obs = [])
          (scan_candidates obs current now) rec) \<and> hr_effective rec = [] \<and>
      hr_edge_index rec = i \<and> hr_edge rec = fe_id (td_edges t ! i) \<and>
      hr_from rec = fe_from (td_edges t ! i) \<and> hr_to rec = fe_to (td_edges t ! i)"
proof -
  have "edge_ok (td_resources t) (td_selectors t) (td_edges t ! i)"
    using assms(1,2) by (simp add: topology_ok_def)
  then have "rr_domain source = fe_domain (td_edges t ! i)" "rr_domain target = fe_domain (td_edges t ! i)"
    using assms(3,4) by (simp_all add: edge_ok_def find_resource_def)
  then show ?thesis
    unfolding resolve_hop_def Let_def assms(3,4)
    using assms(2)
    by (intro exI[of _ "(blank_hop i (td_edges t ! i) (max_explanation_reasons l))
          \<lparr>hr_contributing := sort (map fo_id obs)\<rparr>"]) (simp add: blank_hop_def)
qed

lemma resolve_hop_proven_open:
  assumes "topology_ok t" "i < length (td_edges t)"
    and "find_resource t (fe_from (td_edges t ! i)) = Some source"
    and "find_resource t (fe_to (td_edges t ! i)) = Some target"
    and "resolve_hop t i obs current now l = ok h"
  shows "hr_resolution h = Hop_ProvenOpen \<longleftrightarrow>
      \<not> definition_closes source target (td_edges t ! i) \<and>
      (\<nexists>ob. exact_statement Ev_Absent obs current now ob) \<and>
      (\<exists>ob. exact_statement Ev_Present obs current now ob \<and>
         set (fo_selectors ob) \<inter> set (fe_selectors (td_edges t ! i)) \<noteq> {})"
    and "hr_resolution h = Hop_ProvenOpen \<Longrightarrow> sorted_wrt (<) (hr_effective h) \<and> hr_effective h \<noteq> [] \<and>
      (\<forall>s. s \<in> set (hr_effective h) \<longleftrightarrow> s \<in> set (fe_selectors (td_edges t ! i)) \<and>
        (\<exists>ob. exact_statement Ev_Present obs current now ob \<and> s \<in> set (fo_selectors ob)))"
    and "hr_edge_index h = i \<and> hr_edge h = fe_id (td_edges t ! i) \<and>
      hr_from h = fe_from (td_edges t ! i) \<and> hr_to h = fe_to (td_edges t ! i)"
proof -
  let ?e = "td_edges t ! i" and ?s = "scan_candidates obs current now"
  have sorted: "sorted_wrt (<) (fe_selectors ?e)"
    using assms(1,2) by (simp add: topology_ok_def edge_ok_def)
  note ci = canonical_intersection_set[OF sorted, of "sc_exact_selectors ?s"]
  obtain rec where h: "h = (if definition_closes source target ?e then
          rec\<lparr>hr_resolution := Hop_ProvenClosed, hr_binding := Bind_NoEvidence,
              hr_note := ex_add R_CycleBrokenByAbsentEvidence (id_to_string (fe_id ?e))
                txt_definition_closes_the_hop_admin_disabled_or (hr_note rec)\<rparr>
        else hop_verdict ?e (definition_is_unknown source target ?e) (obs = []) ?s rec)"
    and rec: "hr_edge_index rec = i \<and> hr_edge rec = fe_id (td_edges t ! i) \<and>
      hr_from rec = fe_from (td_edges t ! i) \<and> hr_to rec = fe_to (td_edges t ! i)"
    using resolve_hop_ok[OF assms(1-4), of obs current now l] assms(5) by auto
  have nonempty: "canonical_intersection ?e (sc_exact_selectors ?s) \<noteq> [] \<longleftrightarrow>
      (\<exists>ob. exact_statement Ev_Present obs current now ob \<and> set (fo_selectors ob) \<inter> set (fe_selectors ?e) \<noteq> {})"
    unfolding set_empty[symmetric] ci(1) using scan_candidates_exact(3)[of _ obs current now] by blast
  show "hr_resolution h = Hop_ProvenOpen \<longleftrightarrow> \<not> definition_closes source target ?e \<and>
      (\<nexists>ob. exact_statement Ev_Absent obs current now ob) \<and>
      (\<exists>ob. exact_statement Ev_Present obs current now ob \<and> set (fo_selectors ob) \<inter> set (fe_selectors ?e) \<noteq> {})"
    using h hop_verdict_open(1) scan_candidates_exact(1,2) nonempty by auto
  show "sorted_wrt (<) (hr_effective h) \<and> hr_effective h \<noteq> [] \<and>
      (\<forall>s. s \<in> set (hr_effective h) \<longleftrightarrow> s \<in> set (fe_selectors ?e) \<and>
        (\<exists>ob. exact_statement Ev_Present obs current now ob \<and> s \<in> set (fo_selectors ob)))"
    if po: "hr_resolution h = Hop_ProvenOpen"
  proof -
    have v: "\<not> definition_closes source target ?e" using po h by auto
    with h have hv: "h = hop_verdict ?e (definition_is_unknown source target ?e) (obs = []) ?s rec" by simp
    have "hr_effective h = canonical_intersection ?e (sc_exact_selectors ?s)"
      using hop_verdict_open(2) po unfolding hv by blast
    moreover have "canonical_intersection ?e (sc_exact_selectors ?s) \<noteq> []"
      using hop_verdict_open(1) po unfolding hv by blast
    ultimately show ?thesis using ci scan_candidates_exact(3) by auto
  qed
  show "hr_edge_index h = i \<and> hr_edge h = fe_id (td_edges t ! i) \<and>
      hr_from h = fe_from (td_edges t ! i) \<and> hr_to h = fe_to (td_edges t ! i)"
    using rec unfolding h hop_verdict_def Let_def by simp
qed

section \<open>The ledger invariant\<close>

text \<open>\<open>ledger_core\<close>: both indices agree with the ordered map. \<open>ledger_ok\<close> adds the bounds, the
  structural checks and the high-water marks.\<close>

definition ledger_core :: "evidence_ledger \<Rightarrow> bool" where
  "ledger_core g \<longleftrightarrow> sorted_wrt (<) (map observation_key (el_observations g)) \<and>
     (\<forall>i ob. el_by_id g i = Some ob \<longleftrightarrow> ob \<in> set (el_observations g) \<and> fo_id ob = i) \<and>
     (\<forall>e. bucket_of g e = filter (\<lambda>ob. fo_edge ob = e) (el_observations g))"

definition ledger_ok :: "evidence_ledger \<Rightarrow> bool" where
  "ledger_ok g \<longleftrightarrow> ledger_core g \<and>
     (\<forall>ob \<in> set (el_observations g). check_observation (el_limits g) ob = None) \<and>
     (\<forall>ob \<in> set (el_observations g). \<exists>h. el_high g (producer_key ob) = Some h \<and> fo_sequence ob \<le> h) \<and>
     length (el_observations g) \<le> unat (max_observations (el_limits g)) \<and>
     (\<forall>e. length (bucket_of g e) \<le> unat (max_observations_per_edge (el_limits g)))"

lemma new_ledger_ok: "ledger_ok (new_ledger l)"
  by (simp add: ledger_ok_def ledger_core_def new_ledger_def bucket_of_def)

lemma clear_dynamic_state_ok: "ledger_ok (clear_dynamic_state g)"
  by (simp add: ledger_ok_def ledger_core_def clear_dynamic_state_def bucket_of_def)

lemma sorted_wrt_filter_map: "sorted_wrt R (map f xs) \<Longrightarrow> sorted_wrt R (map f (filter P xs))"
  by (simp add: sorted_wrt_map sorted_wrt_filter)

text \<open>In a bucket in key order the victim is the first observation.\<close>

lemma victim_index_sorted:
  assumes "sorted_wrt (<) (map observation_key bucket)"
  shows "victim_index bucket = 0"
proof -
  have "foldl (\<lambda>victim i. if observation_less (bucket ! i) (bucket ! victim) then i else victim) 0 is = 0"
    if "\<forall>i \<in> set is. 0 < i \<and> i < length bucket" for "is"
    using that
  proof (induction "is")
    case (Cons i "is")
    have "observation_key (bucket ! 0) < observation_key (bucket ! i)"
      using sorted_wrt_nth_less[OF assms, of 0 i] Cons.prems by (cases bucket) auto
    then have "\<not> observation_less (bucket ! i) (bucket ! 0)" by (simp add: observation_less_key)
    with Cons show ?case by simp
  qed simp
  then show ?thesis unfolding victim_index_def by simp
qed

lemma erase_at_0: "erase_at 0 (x # xs) = xs"
  by (simp add: erase_at_def)

lemma evict_one_core:
  assumes core: "ledger_core g" and bucket: "bucket_of g edge = x # rest"
  shows "ledger_core (evict_one edge (x # rest) g)" "bucket_of (evict_one edge (x # rest) g) edge = rest"
    "set (el_observations (evict_one edge (x # rest) g)) = set (el_observations g) - {x}"
    "length (el_observations (evict_one edge (x # rest) g)) < length (el_observations g)"
    "el_limits (evict_one edge (x # rest) g) = el_limits g" "el_high (evict_one edge (x # rest) g) = el_high g"
    "e \<noteq> edge \<Longrightarrow> bucket_of (evict_one edge (x # rest) g) e = bucket_of g e"
proof -
  let ?obs = "el_observations g" and ?g = "evict_one edge (x # rest) g"
  have sorted: "sorted_wrt (<) (map observation_key ?obs)" using core by (simp add: ledger_core_def)
  have b: "x # rest = filter (\<lambda>ob. fo_edge ob = edge) ?obs" using core bucket by (simp add: ledger_core_def)
  have sb: "sorted_wrt (<) (map observation_key (x # rest))"
    unfolding b by (rule sorted_wrt_filter_map[OF sorted])
  have x: "x \<in> set ?obs" "fo_edge x = edge" using arg_cong[OF b, of set] by auto
  have key: "observation_key ob = observation_key x \<longleftrightarrow> ob = x" if "ob \<in> set ?obs" for ob
    using sorted that x(1) by (auto simp: strict_sorted_iff distinct_map dest: inj_onD)
  have uniq: "ob = x" if "ob \<in> set ?obs" "fo_id ob = fo_id x" for ob
    using core that x(1) unfolding ledger_core_def by (metis option.inject)
  have g: "?g = g\<lparr>el_by_id := (el_by_id g)(fo_id x := None),
       el_observations := filter (\<lambda>ob. observation_key ob \<noteq> observation_key x) ?obs,
       el_by_edge := (el_by_edge g)(edge \<mapsto> rest),
       el_stats := (el_stats g)\<lparr>st_evicted := st_evicted (el_stats g) + 1\<rparr>\<rparr>"
    by (simp add: evict_one_def victim_index_sorted[OF sb] erase_at_0)
  have obs: "filter (\<lambda>ob. observation_key ob \<noteq> observation_key x) ?obs = filter (\<lambda>ob. ob \<noteq> x) ?obs"
    using key by (auto intro: filter_cong)
  then have obsg: "el_observations ?g = filter (\<lambda>ob. ob \<noteq> x) ?obs" by (simp add: g)
  show "set (el_observations ?g) = set ?obs - {x}" by (auto simp: obsg)
  show "length (el_observations ?g) < length ?obs"
    using x(1) by (simp add: g) (metis (mono_tags, lifting) length_filter_less)
  show "el_limits ?g = el_limits g" "el_high ?g = el_high g" by (simp_all add: g)
  show rest: "bucket_of ?g edge = rest" by (simp add: g bucket_of_def)
  show other: "bucket_of ?g e = bucket_of g e" if "e \<noteq> edge" for e
    using that by (simp add: g bucket_of_def)
  have "x \<notin> set rest" using sb by (auto simp: strict_sorted_iff)
  then have "filter (\<lambda>ob. ob \<noteq> x) (x # rest) = rest" by (auto simp: filter_id_conv)
  then have r: "rest = filter (\<lambda>ob. fo_edge ob = edge) (filter (\<lambda>ob. ob \<noteq> x) ?obs)"
    unfolding b by (simp add: conj_commute)
  have "bucket_of ?g e = filter (\<lambda>ob. fo_edge ob = e) (el_observations ?g)" for e
  proof (cases "e = edge")
    case True
    then show ?thesis unfolding True rest obsg using r by simp
  next
    case False
    then have "filter (\<lambda>ob. fo_edge ob = e) (filter (\<lambda>ob. ob \<noteq> x) ?obs) = filter (\<lambda>ob. fo_edge ob = e) ?obs"
      using x(2) by (auto intro: filter_cong)
    with other[OF False] core show ?thesis by (simp add: g obs ledger_core_def)
  qed
  moreover have "el_by_id ?g i = Some ob \<longleftrightarrow> ob \<in> set (el_observations ?g) \<and> fo_id ob = i" for i ob
    using core x(1) uniq by (auto simp: g obs ledger_core_def)
  moreover have "sorted_wrt (<) (map observation_key (el_observations ?g))"
    using sorted_wrt_filter_map[OF sorted] by (simp add: g)
  ultimately show "ledger_core ?g" by (simp add: ledger_core_def)
qed

lemma evict_spec:
  assumes "ledger_core g" "bucket_of g edge = bucket" "0 < bound"
  shows "ledger_core (evict edge bucket bound g) \<and> length (bucket_of (evict edge bucket bound g) edge) < bound \<and>
    set (el_observations (evict edge bucket bound g)) \<subseteq> set (el_observations g) \<and>
    length (el_observations (evict edge bucket bound g)) \<le> length (el_observations g) \<and>
    el_limits (evict edge bucket bound g) = el_limits g \<and> el_high (evict edge bucket bound g) = el_high g \<and>
    (\<forall>e. e \<noteq> edge \<longrightarrow> bucket_of (evict edge bucket bound g) e = bucket_of g e)"
  using assms
proof (induction bucket arbitrary: g)
  case Nil
  then show ?case by (simp add: evict.simps)
next
  case (Cons x rest)
  show ?case
  proof (cases "length (x # rest) < bound")
    case True
    then have "evict edge (x # rest) bound g = g" by (simp add: evict.simps)
    with True Cons.prems show ?thesis by simp
  next
    case False
    note one = evict_one_core[OF Cons.prems(1,2)]
    have "sorted_wrt (<) (map observation_key (x # rest))"
      using Cons.prems(1) unfolding Cons.prems(2)[symmetric] by (simp add: ledger_core_def sorted_wrt_filter_map)
    then have "erase_at (victim_index (x # rest)) (x # rest) = rest"
      by (simp only: victim_index_sorted erase_at_0)
    then have "evict edge (x # rest) bound g = evict edge rest bound (evict_one edge (x # rest) g)"
      using False by (subst evict.simps) simp
    with Cons.IH[OF one(1,2) Cons.prems(3)] one(3-7) show ?thesis by auto
  qed
qed

section \<open>Submission\<close>

text \<open>When a submission is accepted, and when it is refused.\<close>

definition admissible :: "forwarding_observation \<Rightarrow> evidence_ledger \<Rightarrow> bool" where
  "admissible ob g \<longleftrightarrow> check_observation (el_limits g) ob = None \<and>
     (\<forall>ob' \<in> set (el_observations g). fo_id ob' \<noteq> fo_id ob) \<and>
     (\<forall>h. el_high g (producer_key ob) = Some h \<longrightarrow> h < fo_sequence ob) \<and>
     length (el_observations g) < unat (max_observations (el_limits g))"

lemma by_id_None:
  assumes "ledger_core g"
  shows "el_by_id g i = None \<longleftrightarrow> (\<forall>ob \<in> set (el_observations g). fo_id ob \<noteq> i)"
proof (cases "el_by_id g i")
  case None
  then have "\<not> (ob \<in> set (el_observations g) \<and> fo_id ob = i)" for ob
    using assms by (metis ledger_core_def option.distinct(1))
  with None show ?thesis by auto
next
  case (Some ob)
  then have "ob \<in> set (el_observations g)" "fo_id ob = i" using assms by (auto simp: ledger_core_def)
  with Some show ?thesis by auto
qed

lemma store_core:
  assumes core: "ledger_core g" and new: "\<forall>ob' \<in> set (el_observations g). fo_id ob' \<noteq> fo_id ob"
  shows "ledger_core (store_observation ob g)"
    "set (el_observations (store_observation ob g)) = insert ob (set (el_observations g))"
    "length (el_observations (store_observation ob g)) = Suc (length (el_observations g))"
    "length (bucket_of (store_observation ob g) (fo_edge ob)) = Suc (length (bucket_of g (fo_edge ob)))"
    "e \<noteq> fo_edge ob \<Longrightarrow> bucket_of (store_observation ob g) e = bucket_of g e"
    "el_limits (store_observation ob g) = el_limits g"
    "el_high (store_observation ob g) = (el_high g)(producer_key ob \<mapsto> fo_sequence ob)"
proof -
  let ?g = "store_observation ob g" and ?obs = "insert_sorted observation_key ob (el_observations g)"
  have fresh: "observation_key ob \<notin> observation_key ` set (el_observations g)"
    using new by (auto simp: observation_key_def)
  have sorted: "sorted_wrt (<) (map observation_key (el_observations g))" using core by (simp add: ledger_core_def)
  have so: "sorted_wrt (<) (map observation_key ?obs)"
    by (rule strict_sorted_insert_sorted[OF sorted fresh])
  have "find_sorted observation_key ?obs (observation_key ob) = Some ob"
    by (simp add: find_sorted_iff[OF so])
  then have g: "?g = g\<lparr>el_observations := ?obs, el_by_id := (el_by_id g)(fo_id ob \<mapsto> ob),
     el_by_edge := (el_by_edge g)(fo_edge ob \<mapsto> sort_key observation_key (bucket_of g (fo_edge ob) @ [ob])),
     el_high := (el_high g)(producer_key ob \<mapsto> fo_sequence ob),
     el_stats := (el_stats g)\<lparr>st_accepted := st_accepted (el_stats g) + 1\<rparr>\<rparr>"
    using fresh by (simp add: store_observation_def)
  show "set (el_observations ?g) = insert ob (set (el_observations g))" by (simp add: g)
  show "length (el_observations ?g) = Suc (length (el_observations g))" by (simp add: g)
  show "el_limits ?g = el_limits g" "el_high ?g = (el_high g)(producer_key ob \<mapsto> fo_sequence ob)"
    by (simp_all add: g)
  show other: "e \<noteq> fo_edge ob \<Longrightarrow> bucket_of ?g e = bucket_of g e" for e by (simp add: g bucket_of_def)
  have b: "bucket_of ?g (fo_edge ob) = sort_key observation_key (bucket_of g (fo_edge ob) @ [ob])"
    by (simp add: g bucket_of_def)
  then show "length (bucket_of ?g (fo_edge ob)) = Suc (length (bucket_of g (fo_edge ob)))" by simp
  have old: "bucket_of g e = filter (\<lambda>ob. fo_edge ob = e) (el_observations g)" for e
    using core by (simp add: ledger_core_def)
  have "bucket_of ?g e = filter (\<lambda>ob. fo_edge ob = e) ?obs" for e
  proof (rule strict_sorted_key_unique[where key = observation_key])
    show "sorted_wrt (<) (map observation_key (filter (\<lambda>ob. fo_edge ob = e) ?obs))"
      by (rule sorted_wrt_filter_map[OF so])
    show "set (bucket_of ?g e) = set (filter (\<lambda>ob. fo_edge ob = e) ?obs)"
      using b other[of e] old by (cases "e = fo_edge ob") auto
    show "sorted_wrt (<) (map observation_key (bucket_of ?g e))"
    proof (cases "e = fo_edge ob")
      case True
      have "sorted_wrt (<) (map observation_key (bucket_of g e))"
        unfolding old by (rule sorted_wrt_filter_map[OF sorted])
      then have "distinct (map observation_key (bucket_of g e @ [ob]))"
        using fresh by (auto simp: strict_sorted_iff old)
      moreover have "mset (map observation_key (sort_key observation_key (bucket_of g e @ [ob]))) =
          mset (map observation_key (bucket_of g e @ [ob]))" by simp
      ultimately have "distinct (map observation_key (sort_key observation_key (bucket_of g e @ [ob])))"
        using mset_eq_imp_distinct_iff by blast
      with True b show ?thesis by (simp add: strict_sorted_iff)
    next
      case False
      then show ?thesis using other old sorted_wrt_filter_map[OF sorted] by simp
    qed
  qed
  moreover have "el_by_id ?g i = Some ob' \<longleftrightarrow> ob' \<in> set (el_observations ?g) \<and> fo_id ob' = i" for i ob'
    using core new by (auto simp: g ledger_core_def)
  ultimately show "ledger_core ?g" using so by (simp add: ledger_core_def g)
qed

lemma submit_refused:
  assumes "ledger_core g" "\<not> admissible ob g"
  shows "\<not> is_ok (fst (submit ob g))" "\<exists>stats. snd (submit ob g) = g\<lparr>el_stats := stats\<rparr>"
proof -
  have oc: "check_observation l ob \<noteq> Some (Oc_Ok, d)" for l d
    by (simp add: check_observation_def)
  have "\<not> is_ok (fst (submit ob g)) \<and> (\<exists>stats. snd (submit ob g) = g\<lparr>el_stats := stats\<rparr>)"
  proof (cases "check_observation (el_limits g) ob")
    case None
    with assms show ?thesis
      by (auto simp: submit_def admissible_def by_id_None count_rejected_def not_less not_le split: option.splits
          intro!: exI)
  next
    case (Some p)
    with oc show ?thesis by (cases p) (auto simp: submit_def count_rejected_def)
  qed
  then show "\<not> is_ok (fst (submit ob g))" "\<exists>stats. snd (submit ob g) = g\<lparr>el_stats := stats\<rparr>" by simp_all
qed

lemma submit_accepted:
  assumes "ledger_ok g" "admissible ob g" "0 < max_observations_per_edge (el_limits g)"
  shows "fst (submit ob g) = status_ok" "ledger_ok (snd (submit ob g))"
    "ob \<in> set (el_observations (snd (submit ob g)))"
    "set (el_observations (snd (submit ob g))) \<subseteq> insert ob (set (el_observations g))"
    "el_limits (snd (submit ob g)) = el_limits g"
proof -
  let ?edge = "fo_edge ob" and ?bound = "unat (max_observations_per_edge (el_limits g))"
  let ?g0 = "g\<lparr>el_by_edge := (el_by_edge g)(?edge \<mapsto> bucket_of g ?edge)\<rparr>"
  let ?g1 = "evict ?edge (bucket_of g ?edge) ?bound ?g0"
  have core: "ledger_core g" using assms(1) by (simp add: ledger_ok_def)
  have buckets: "bucket_of ?g0 e = bucket_of g e" for e by (simp add: bucket_of_def)
  have core0: "ledger_core ?g0" using core buckets by (simp add: ledger_core_def)
  have "0 < ?bound" using assms(3) by (simp add: word_less_nat_alt)
  then have ev: "ledger_core ?g1 \<and> length (bucket_of ?g1 ?edge) < ?bound \<and>
      set (el_observations ?g1) \<subseteq> set (el_observations g) \<and>
      length (el_observations ?g1) \<le> length (el_observations g) \<and>
      el_limits ?g1 = el_limits g \<and> el_high ?g1 = el_high g \<and>
      (\<forall>e. e \<noteq> ?edge \<longrightarrow> bucket_of ?g1 e = bucket_of g e)"
    using evict_spec[OF core0 buckets[of ?edge], of ?bound] by (simp add: buckets)
  have "el_by_id g (fo_id ob) = None"
    using by_id_None[OF core] assms(2) by (simp add: admissible_def)
  then have s: "submit ob g = (status_ok, store_observation ob ?g1)"
    using assms(2) by (auto simp: submit_def admissible_def not_le Let_def split: option.split)
  have new: "\<forall>ob' \<in> set (el_observations ?g1). fo_id ob' \<noteq> fo_id ob"
    using ev assms(2) by (auto simp: admissible_def)
  note st = store_core[OF _ new]
  show "fst (submit ob g) = status_ok" by (simp add: s)
  show "ob \<in> set (el_observations (snd (submit ob g)))"
    "set (el_observations (snd (submit ob g))) \<subseteq> insert ob (set (el_observations g))"
    "el_limits (snd (submit ob g)) = el_limits g"
    using st ev by (auto simp: s)
  have high: "\<exists>h. el_high (store_observation ob ?g1) (producer_key o1) = Some h \<and> fo_sequence o1 \<le> h"
    if o1: "o1 \<in> insert ob (set (el_observations g))" for o1
  proof (cases "producer_key o1 = producer_key ob \<and> o1 \<noteq> ob")
    case True
    then obtain h where "el_high g (producer_key ob) = Some h" "fo_sequence o1 \<le> h"
      using o1 assms(1) unfolding ledger_ok_def by (metis insertE)
    with assms(2) True ev st(7) show ?thesis by (auto simp: admissible_def)
  next
    case False
    with o1 assms(1) ev st(7) show ?thesis by (auto simp: ledger_ok_def)
  qed
  have "length (bucket_of (store_observation ob ?g1) e) \<le> ?bound" for e
    using st(4) st(5)[of e] ev assms(1) by (cases "e = ?edge") (auto simp: ledger_ok_def)
  moreover have sub: "o1 \<in> insert ob (set (el_observations g))"
    if "o1 \<in> set (el_observations (store_observation ob ?g1))" for o1
    using that st(2) ev by auto
  moreover have "check_observation (el_limits g) o1 = None" if "o1 \<in> insert ob (set (el_observations g))" for o1
    using that assms(1,2) by (auto simp: ledger_ok_def admissible_def)
  moreover have "length (el_observations (store_observation ob ?g1)) \<le> unat (max_observations (el_limits g))"
    using st(3) ev assms(2) by (simp add: admissible_def)
  moreover have "el_limits (store_observation ob ?g1) = el_limits g" using st(6) ev by simp
  ultimately show "ledger_ok (snd (submit ob g))"
    using st(1) ev high by (simp add: s ledger_ok_def)
qed

lemma ledger_ok_stats: "ledger_ok (g\<lparr>el_stats := stats\<rparr>) \<longleftrightarrow> ledger_ok g"
proof -
  have "bucket_of (g\<lparr>el_stats := stats\<rparr>) e = bucket_of g e" for e by (simp add: bucket_of_def)
  then show ?thesis by (simp add: ledger_ok_def ledger_core_def)
qed

lemma submit_ledger_ok:
  assumes "ledger_ok g" "0 < max_observations_per_edge (el_limits g)"
  shows "ledger_ok (snd (submit ob g))" "el_limits (snd (submit ob g)) = el_limits g"
proof -
  have "ledger_ok (snd (submit ob g)) \<and> el_limits (snd (submit ob g)) = el_limits g"
  proof (cases "admissible ob g")
    case True
    then show ?thesis using submit_accepted[OF assms(1) True assms(2)] by blast
  next
    case False
    moreover have "ledger_core g" using assms(1) by (simp add: ledger_ok_def)
    ultimately obtain stats where "snd (submit ob g) = g\<lparr>el_stats := stats\<rparr>"
      using submit_refused(2) by blast
    with assms(1) show ?thesis by (simp add: ledger_ok_stats)
  qed
  then show "ledger_ok (snd (submit ob g))" "el_limits (snd (submit ob g)) = el_limits g" by simp_all
qed

text \<open>On a ledger that satisfies its invariant a hop is resolved from all its observations, and only those.\<close>

lemma resolve_spec:
  assumes "ledger_ok g" "i < length (td_edges t)"
  shows "resolve g t i current now =
    resolve_hop t i (filter (\<lambda>ob. fo_edge ob = fe_id (td_edges t ! i)) (el_observations g)) current now (el_limits g)"
proof -
  have "bucket_of g e = filter (\<lambda>ob. fo_edge ob = e) (el_observations g)" for e
    using assms(1) by (simp add: ledger_ok_def ledger_core_def)
  then show ?thesis using assms(2) by (simp add: resolve_def bucket_of_def)
qed

lemma resolve_value: "i < length (td_edges t) \<Longrightarrow> \<exists>h. resolve g t i current now = ok h"
  by (auto simp: resolve_def resolve_hop_def Let_def split: option.split)

lemma resolve_from_ok:
  assumes "\<forall>i \<in> set is. i < length (td_edges t)"
  shows "resolve_from g t current now is acc =
    ok (acc @ map (\<lambda>i. the (r_value (resolve g t i current now))) is)"
  using assms
proof (induction "is" arbitrary: acc)
  case (Cons i "is")
  then obtain h where "resolve g t i current now = ok h" using resolve_value by fastforce
  with Cons show ?case by simp
qed simp

lemma resolve_all_ok:
  "resolve_all g t current now =
     ok (map (\<lambda>i. the (r_value (resolve g t i current now))) [0..<length (td_edges t)])"
  by (simp add: resolve_all_def resolve_from_ok)

section \<open>The ledger as a state machine\<close>

text \<open>A ledger starts empty, under limits the factory accepts, and moves by submissions and restarts.\<close>

inductive ledger_step :: "evidence_ledger \<Rightarrow> evidence_ledger \<Rightarrow> bool" where
  submit_step: "ledger_step g (snd (submit ob g))"
| clear_step: "ledger_step g (clear_dynamic_state g)"

inductive_cases ledger_stepE: "ledger_step g g'"

definition ledger_start :: "evidence_ledger \<Rightarrow> bool" where
  "ledger_start g \<longleftrightarrow> (\<exists>l. limits_are_sane l \<and> g = new_ledger l)"

interpretation ledger_machine: invariant_machine ledger_start ledger_step
  "\<lambda>g. ledger_ok g \<and> 0 < max_observations_per_edge (el_limits g)"
proof
  fix g assume "ledger_start g"
  then obtain l where l: "limits_are_sane l" "g = new_ledger l" by (auto simp: ledger_start_def)
  then have "0 < max_observations_per_edge l" by (simp add: limits_are_sane_def word_gt_0)
  then show "ledger_ok g \<and> 0 < max_observations_per_edge (el_limits g)"
    unfolding l(2) by (simp add: new_ledger_ok) (simp add: new_ledger_def)
next
  fix g g' assume "ledger_ok g \<and> 0 < max_observations_per_edge (el_limits g)" "ledger_step g g'"
  then show "ledger_ok g' \<and> 0 < max_observations_per_edge (el_limits g')"
    by (auto elim!: ledger_stepE simp: submit_ledger_ok clear_dynamic_state_ok)
       (simp add: clear_dynamic_state_def)
qed

end
