(* ===== verification/Witness.thy ===== *)
theory Witness
  imports Evidence
begin

text \<open>
  Canonical loop witnesses: include/loop_guard/witness.hpp and src/witness.cpp.

  \<^item> \<open>loop_witness\<close> is struct LoopWitness, \<open>witness_less\<close> and \<open>witness_same\<close> its operators,
    \<open>canonicalize_cycle_with_hops\<close> the rotation to the smallest resource.
  \<^item> \<open>validate_witness\<close> is WitnessValidator::validate: \<open>check_shape\<close> its checks before the hop loop,
    \<open>check_hop\<close> one round of the loop, \<open>check_hops\<close> the loop with the domains it collects.

  \<open>loop_at\<close> says what a loop is, without the validator: a cycle of enabled resources over up links,
  every hop of it proven open at the fence for every selector. \<open>validate_witness_iff\<close>: the validator
  accepts exactly the canonically written witnesses of such loops.
\<close>

section \<open>Texts\<close>

definition txt_cycle_is_empty :: string where
  "txt_cycle_is_empty =
     ''cycle is empty''"

definition txt_cycle_exceeds_the_configured_witness_length_bound :: string where
  "txt_cycle_exceeds_the_configured_witness_length_bound =
     ''cycle exceeds the configured witness length bound''"

definition txt_hop_sequence_length_disagrees_with_the_cycle :: string where
  "txt_hop_sequence_length_disagrees_with_the_cycle =
     ''hop sequence length disagrees with the cycle length''"

definition txt_a_witness_must_name_at_least_one :: string where
  "txt_a_witness_must_name_at_least_one =
     ''a witness must name at least one selector''"

definition txt_selector_set_contains_duplicates :: string where
  "txt_selector_set_contains_duplicates =
     ''selector set contains duplicates''"

definition txt_selector_set_is_not_in_canonical_order :: string where
  "txt_selector_set_is_not_in_canonical_order =
     ''selector set is not in canonical order''"

definition txt_cycle_revisits_a_resource_within_one_rotation :: string where
  "txt_cycle_revisits_a_resource_within_one_rotation =
     ''cycle revisits a resource within one rotation''"

definition txt_cycle_is_not_in_canonical_rotation :: string where
  "txt_cycle_is_not_in_canonical_rotation =
     ''cycle is not in canonical rotation''"

definition txt_hop_index_could_not_be_re_derived :: string where
  "txt_hop_index_could_not_be_re_derived =
     ''hop index could not be re-derived''"

definition txt_exactly_bound_evidence_contradicts_itself_on_this :: string where
  "txt_exactly_bound_evidence_contradicts_itself_on_this =
     ''exactly bound evidence contradicts itself on this hop''"

definition txt_hop_is_not_proven_open_by_exactly :: string where
  "txt_hop_is_not_proven_open_by_exactly =
     ''hop is not proven open by exactly bound evidence''"

definition txt_resolved_hop_endpoints_disagree_with_the_cycle :: string where
  "txt_resolved_hop_endpoints_disagree_with_the_cycle =
     ''resolved hop endpoints disagree with the cycle''"

definition txt_cycle_traverses_a_resource_that_is_not :: string where
  "txt_cycle_traverses_a_resource_that_is_not =
     ''cycle traverses a resource that is not administratively enabled''"

definition txt_hop_is_not_an_edge_of_the :: string where
  "txt_hop_is_not_an_edge_of_the =
     ''hop is not an edge of the definition''"

definition txt_hop_does_not_traverse_the_resource_pair :: string where
  "txt_hop_does_not_traverse_the_resource_pair =
     ''hop does not traverse the resource pair the cycle claims''"

definition txt_hop_link_is_not_up :: string where
  "txt_hop_link_is_not_up =
     ''hop link is not up''"

definition txt_cycle_names_a_resource_the_definition_does :: string where
  "txt_cycle_names_a_resource_the_definition_does =
     ''cycle names a resource the definition does not contain''"

definition txt_evidence_digest_does_not_match_the_observations :: string where
  "txt_evidence_digest_does_not_match_the_observations =
     ''evidence digest does not match the observations the witness claims''"

definition txt_cross_domain_classification_disagrees_with_the_definition :: string where
  "txt_cross_domain_classification_disagrees_with_the_definition =
     ''cross-domain classification disagrees with the definition''"

definition txt_every_hop_re_derived_as_proven_open :: string where
  "txt_every_hop_re_derived_as_proven_open =
     ''every hop re-derived as proven open at the current fence''"

section \<open>Witnesses\<close>

record loop_witness =
  lw_id :: u64
  lw_cycle :: "u64 list"
  lw_hops :: "u64 list"
  lw_selectors :: "u64 list"
  lw_fence :: fence_vector
  lw_origin :: evidence_origin
  lw_crosses :: bool
  lw_evidence_digest :: digest
  lw_note :: explanation

definition zero_digest :: digest where
  "zero_digest = replicate 32 0"

definition hop_count :: "loop_witness \<Rightarrow> nat" where
  "hop_count w = length (lw_cycle w)"

definition smallest_index :: "u64 list \<Rightarrow> nat" where
  "smallest_index cycle = foldl (\<lambda>best i. if cycle ! i < cycle ! best then i else best) 0 [1..<length cycle]"

definition canonicalize_cycle :: "u64 list \<Rightarrow> u64 list" where
  "canonicalize_cycle cycle =
     (if length cycle < 2 then cycle
      else let best = smallest_index cycle in if best = 0 then cycle else rotate best cycle)"

definition canonicalize_cycle_with_hops :: "u64 list \<times> u64 list \<Rightarrow> u64 list \<times> u64 list" where
  "canonicalize_cycle_with_hops p = (case p of (cycle, hops) \<Rightarrow>
     if length cycle < 2 \<or> length hops \<noteq> length cycle then (cycle, hops)
     else let best = smallest_index cycle
          in if best = 0 then (cycle, hops) else (rotate best cycle, rotate best hops))"

definition witness_less :: "loop_witness \<Rightarrow> loop_witness \<Rightarrow> bool" where
  "witness_less lhs rhs =
     (if length (lw_cycle lhs) \<noteq> length (lw_cycle rhs) then length (lw_cycle lhs) < length (lw_cycle rhs)
      else if lw_cycle lhs \<noteq> lw_cycle rhs then lw_cycle lhs < lw_cycle rhs
      else if lw_hops lhs \<noteq> lw_hops rhs then lw_hops lhs < lw_hops rhs
      else if lw_selectors lhs \<noteq> lw_selectors rhs then lw_selectors lhs < lw_selectors rhs
      else fence_less (lw_fence lhs) (lw_fence rhs))"

definition witness_same :: "loop_witness \<Rightarrow> loop_witness \<Rightarrow> bool" where
  "witness_same lhs rhs \<longleftrightarrow> lw_cycle lhs = lw_cycle rhs \<and> lw_hops lhs = lw_hops rhs \<and>
     lw_selectors lhs = lw_selectors rhs \<and> lw_fence lhs = lw_fence rhs \<and>
     lw_crosses lhs = lw_crosses rhs \<and> lw_evidence_digest lhs = lw_evidence_digest rhs"

definition witness_bytes :: "loop_witness \<Rightarrow> u8 list" where
  "witness_bytes w = le64 (lw_id w) @ concat (map le64 (lw_cycle w)) @ [0xFD] @
     concat (map le64 (lw_hops w)) @ [0xFD] @ concat (map le64 (lw_selectors w)) @ [0xFD] @
     le64 (fv_topology (lw_fence w)) @ le64 (fv_forwarding (lw_fence w)) @ le64 (fv_policy (lw_fence w)) @
     le64 (fv_fabric_epoch (lw_fence w)) @ le64 (fv_epoch (lw_fence w)) @ le64 (fv_boot (lw_fence w)) @
     [enum_raw values_evidence_origin (lw_origin w)] @ [if lw_crosses w then 1 else 0] @
     lw_evidence_digest w @ ex_digest (lw_note w)"

definition content_digest :: "loop_witness \<Rightarrow> digest" where
  "content_digest w = sha256 (witness_bytes w)"

fun join_ids :: "string \<Rightarrow> u64 list \<Rightarrow> string" where
  "join_ids sep [] = []"
| "join_ids sep [x] = id_to_string x"
| "join_ids sep (x # y # zs) = id_to_string x @ sep @ join_ids sep (y # zs)"

definition witness_to_text :: "loop_witness \<Rightarrow> string" where
  "witness_to_text w = ''witness '' @ id_to_string (lw_id w) @ '' hops='' @ dec_digits (length (lw_cycle w)) @
     '' cycle='' @ join_ids ''->'' (lw_cycle w) @
     (if lw_cycle w = [] then [] else ''->'' @ id_to_string (hd (lw_cycle w))) @
     '' selectors='' @ join_ids '','' (lw_selectors w) @ '' fence='' @ fence_to_string (lw_fence w) @
     (if lw_crosses w then '' cross-domain'' else '' single-domain'') @
     '' origin='' @ name_evidence_origin (lw_origin w)"

section \<open>The validator\<close>

record witness_validation =
  wv_valid :: bool
  wv_outcome :: loop_outcome
  wv_reasons :: "reason_code list"
  wv_explanation :: explanation

text \<open>A rejection: the outcome, the reason, its subject and its detail.\<close>

type_synonym rejection = "loop_outcome \<times> reason_code \<times> string \<times> string"

definition reject :: "limits \<Rightarrow> rejection \<Rightarrow> witness_validation" where
  "reject l r = (case r of (oc, code, subject, detail) \<Rightarrow>
     \<lparr>wv_valid = False, wv_outcome = oc, wv_reasons = [code],
      wv_explanation = ex_add code subject detail (new_explanation (max_explanation_reasons l))\<rparr>)"

definition check_shape :: "loop_witness \<Rightarrow> fence_vector \<Rightarrow> limits \<Rightarrow> rejection option" where
  "check_shape w current l =
     (if lw_cycle w = [] then
        Some (Loop_Invalid, R_WitnessRejectedByValidator, ''witness'', txt_cycle_is_empty)
      else if hop_count w > unat (max_witness_hops l) then
        Some (Loop_Invalid, R_WitnessRejectedByValidator, ''witness'',
          txt_cycle_exceeds_the_configured_witness_length_bound)
      else if length (lw_hops w) \<noteq> length (lw_cycle w) then
        Some (Loop_Invalid, R_WitnessRejectedByValidator, ''witness'',
          txt_hop_sequence_length_disagrees_with_the_cycle)
      else if lw_selectors w = [] then
        Some (Loop_Invalid, R_WitnessRejectedByValidator, ''witness'',
          txt_a_witness_must_name_at_least_one)
      else if \<not> distinct (lw_selectors w) then
        Some (Loop_Invalid, R_WitnessRejectedByValidator, ''witness'', txt_selector_set_contains_duplicates)
      else if \<not> sorted (lw_selectors w) then
        Some (Loop_Invalid, R_WitnessRejectedByValidator, ''witness'',
          txt_selector_set_is_not_in_canonical_order)
      else if \<not> distinct (lw_cycle w) then
        Some (Loop_Invalid, R_WitnessRejectedByValidator, ''witness'',
          txt_cycle_revisits_a_resource_within_one_rotation)
      else if canonicalize_cycle (lw_cycle w) \<noteq> lw_cycle w then
        Some (Loop_Invalid, R_WitnessRejectedByValidator, ''witness'',
          txt_cycle_is_not_in_canonical_rotation)
      else if lw_fence w \<noteq> current then
        Some (Loop_Stale, R_WitnessRequiresExactGenerations, ''witness'',
          ''witness fence '' @ fence_to_string (lw_fence w) @ '' is not the current fence '' @
          fence_to_string current)
      else None)"

text \<open>The selectors of the witness against one hop: admitted by the edge and proven open.\<close>

fun check_selectors_on_hop :: "forwarding_edge \<Rightarrow> hop_record \<Rightarrow> string \<Rightarrow> u64 list \<Rightarrow> rejection option" where
  "check_selectors_on_hop edge rec hop [] = None"
| "check_selectors_on_hop edge rec hop (s # ss) =
     (if \<not> binary_search (fe_selectors edge) s then
        Some (Loop_Invalid, R_WitnessSelectorNotAdmitted, hop,
          ''selector '' @ id_to_string s @ '' is not admitted by the edge'')
      else if \<not> binary_search (hr_effective rec) s then
        Some (Loop_Invalid, R_WitnessSelectorNotAdmitted, hop,
          ''selector '' @ id_to_string s @ '' is not proven open on the hop'')
      else check_selectors_on_hop edge rec hop ss)"

definition check_resolution :: "evidence_ledger \<Rightarrow> topology \<Rightarrow> fence_vector \<Rightarrow> u64 \<Rightarrow> u64 list \<Rightarrow>
    u64 \<Rightarrow> u64 \<Rightarrow> u64 \<Rightarrow> forwarding_edge \<Rightarrow> rejection option" where
  "check_resolution g t current now selectors from to hop edge =
     (case edge_index t hop of
        None \<Rightarrow> Some (Loop_Invalid, R_WitnessHopGenerationsDisagree, id_to_string hop,
          txt_hop_index_could_not_be_re_derived)
      | Some position \<Rightarrow>
         let resolved = resolve g t position current now
         in case r_value resolved of
            None \<Rightarrow> Some (Loop_Invalid, R_WitnessRejectedByValidator, id_to_string hop,
              ''hop resolution failed: '' @ r_detail resolved)
          | Some rec \<Rightarrow>
              if hr_resolution rec = Hop_Conflicted then
                Some (Loop_Conflict, R_HopConflictsWithItself, id_to_string hop,
                  txt_exactly_bound_evidence_contradicts_itself_on_this)
              else if hr_resolution rec \<noteq> Hop_ProvenOpen then
                Some (Loop_Invalid, R_WitnessRejectedByValidator, id_to_string hop,
                  txt_hop_is_not_proven_open_by_exactly)
              else if hr_from rec \<noteq> from \<or> hr_to rec \<noteq> to then
                Some (Loop_Invalid, R_WitnessHopGenerationsDisagree, id_to_string hop,
                  txt_resolved_hop_endpoints_disagree_with_the_cycle)
              else check_selectors_on_hop edge rec (id_to_string hop) selectors)"

text \<open>One hop: a rejection, or the domain of its source.\<close>

definition check_hop :: "loop_witness \<Rightarrow> topology \<Rightarrow> evidence_ledger \<Rightarrow> fence_vector \<Rightarrow> u64 \<Rightarrow> nat \<Rightarrow>
    rejection + u64" where
  "check_hop w t g current now i =
     (let from = lw_cycle w ! i; to = lw_cycle w ! ((i + 1) mod length (lw_cycle w)); hop = lw_hops w ! i
      in case (find_resource t from, find_resource t to) of
          (Some from_record, Some to_record) \<Rightarrow>
            if rr_admin from_record \<noteq> Admin_Enabled \<or> rr_admin to_record \<noteq> Admin_Enabled then
              Inl (Loop_Invalid, R_WitnessResourceAdministrativelyDown, id_to_string hop,
                txt_cycle_traverses_a_resource_that_is_not)
            else (case find_edge t hop of
                None \<Rightarrow> Inl (Loop_Invalid, R_WitnessHopGenerationsDisagree, id_to_string hop,
                  txt_hop_is_not_an_edge_of_the)
              | Some edge \<Rightarrow>
                  if fe_from edge \<noteq> from \<or> fe_to edge \<noteq> to then
                    Inl (Loop_Invalid, R_WitnessHopGenerationsDisagree, id_to_string hop,
                      txt_hop_does_not_traverse_the_resource_pair)
                  else if fe_link edge \<noteq> Link_Up then
                    Inl (Loop_Invalid, R_WitnessResourceAdministrativelyDown, id_to_string hop,
                      txt_hop_link_is_not_up)
                  else (case check_resolution g t current now (lw_selectors w) from to hop edge of
                      Some r \<Rightarrow> Inl r
                    | None \<Rightarrow> Inr (rr_domain from_record)))
        | _ \<Rightarrow> Inl (Loop_Invalid, R_WitnessResourceUnknown, id_to_string hop,
             txt_cycle_names_a_resource_the_definition_does))"

fun check_hops :: "loop_witness \<Rightarrow> topology \<Rightarrow> evidence_ledger \<Rightarrow> fence_vector \<Rightarrow> u64 \<Rightarrow> nat list \<Rightarrow>
    u64 set \<Rightarrow> rejection + u64 set" where
  "check_hops w t g current now [] domains = Inr domains"
| "check_hops w t g current now (i # is) domains =
     (case check_hop w t g current now i of
        Inl r \<Rightarrow> Inl r
      | Inr d \<Rightarrow> check_hops w t g current now is (insert d domains))"

text \<open>The observations of the hops of a witness, in ledger order, and their digest.\<close>

definition contributing_observations :: "loop_witness \<Rightarrow> evidence_ledger \<Rightarrow> forwarding_observation list" where
  "contributing_observations w g = filter (\<lambda>ob. fo_edge ob \<in> set (lw_hops w)) (el_observations g)"

definition validate_witness :: "loop_witness \<Rightarrow> topology \<Rightarrow> evidence_ledger \<Rightarrow> fence_vector \<Rightarrow> u64 \<Rightarrow> limits \<Rightarrow>
    witness_validation result" where
  "validate_witness w t g current now l =
     (case check_shape w current l of Some r \<Rightarrow> ok (reject l r)
      | None \<Rightarrow>
        (case check_hops w t g current now [0..<length (lw_cycle w)] {} of
           Inl r \<Rightarrow> ok (reject l r)
         | Inr domains \<Rightarrow>
             if observations_digest (contributing_observations w g) \<noteq> lw_evidence_digest w then
               ok (reject l (Loop_Invalid, R_WitnessRejectedByValidator, ''witness'',
                 txt_evidence_digest_does_not_match_the_observations))
             else if (card domains > 1) \<noteq> lw_crosses w then
               ok (reject l (Loop_Invalid, R_WitnessRejectedByValidator, ''witness'',
                 txt_cross_domain_classification_disagrees_with_the_definition))
             else ok \<lparr>wv_valid = True, wv_outcome = Loop_LoopConfirmed,
                 wv_reasons = [R_WitnessSuccessfullyValidated],
                 wv_explanation = ex_add R_WitnessSuccessfullyValidated ''witness''
                   txt_every_hop_re_derived_as_proven_open
                   (new_explanation (max_explanation_reasons l))\<rparr>))"

definition is_affirmative :: "witness_validation \<Rightarrow> bool" where
  "is_affirmative v \<longleftrightarrow> wv_valid v \<and> wv_outcome v = Loop_LoopConfirmed"

section \<open>What a loop is\<close>

text \<open>Hop \<open>i\<close> of a cycle is open for a selector: the edge joins two enabled resources by an up link, it
  admits the selector, and some exactly bound observation says that the selector traverses it while
  none says that it does not.\<close>

definition hop_open :: "topology \<Rightarrow> evidence_ledger \<Rightarrow> fence_vector \<Rightarrow> u64 \<Rightarrow> u64 \<Rightarrow> u64 \<Rightarrow> u64 \<Rightarrow> u64 \<Rightarrow> bool" where
  "hop_open t g current now hop from to s \<longleftrightarrow>
     (\<exists>edge source target. find_edge t hop = Some edge \<and> fe_from edge = from \<and> fe_to edge = to \<and>
        fe_link edge = Link_Up \<and> find_resource t from = Some source \<and> rr_admin source = Admin_Enabled \<and>
        find_resource t to = Some target \<and> rr_admin target = Admin_Enabled \<and> s \<in> set (fe_selectors edge) \<and>
        (\<exists>ob. exact_statement Ev_Present (filter (\<lambda>ob. fo_edge ob = hop) (el_observations g)) current now ob \<and>
           s \<in> set (fo_selectors ob)) \<and>
        (\<nexists>ob. exact_statement Ev_Absent (filter (\<lambda>ob. fo_edge ob = hop) (el_observations g)) current now ob))"

definition loop_at :: "topology \<Rightarrow> evidence_ledger \<Rightarrow> fence_vector \<Rightarrow> u64 \<Rightarrow> u64 list \<Rightarrow> u64 list \<Rightarrow> u64 list \<Rightarrow> bool" where
  "loop_at t g current now cycle hops selectors \<longleftrightarrow>
     cycle \<noteq> [] \<and> distinct cycle \<and> length hops = length cycle \<and> selectors \<noteq> [] \<and>
     (\<forall>i < length cycle. \<forall>s \<in> set selectors.
        hop_open t g current now (hops ! i) (cycle ! i) (cycle ! ((i + 1) mod length cycle)) s)"

section \<open>Canonical rotation\<close>

lemma smallest_index_fold:
  fixes xs :: "u64 list"
  assumes "b < length xs" "\<forall>i \<in> set is. i < length xs"
  defines "r \<equiv> foldl (\<lambda>best i. if xs ! i < xs ! best then i else best) b is"
  shows "r < length xs \<and> xs ! r \<le> xs ! b \<and> (\<forall>i \<in> set is. xs ! r \<le> xs ! i)"
  using assms(1,2) unfolding r_def
proof (induction "is" arbitrary: b)
  case (Cons i "is")
  show ?case
  proof (cases "xs ! i < xs ! b")
    case True
    then show ?thesis using Cons.IH[of i] Cons.prems
      by (auto intro: order_trans less_imp_le)
  next
    case False
    then show ?thesis using Cons.IH[of b] Cons.prems by (auto intro: order_trans)
  qed
qed simp

lemma smallest_index_spec:
  assumes "xs \<noteq> []"
  shows "smallest_index xs < length xs" "xs ! smallest_index xs = Min (set xs)"
proof -
  have b: "0 < length xs" "\<forall>i \<in> set [1..<length xs]. i < length xs" using assms by auto
  note r = smallest_index_fold[OF b, folded smallest_index_def]
  show less: "smallest_index xs < length xs" using r by simp
  have "xs ! smallest_index xs \<le> xs ! i" if "i < length xs" for i
    using r that by (cases i) auto
  then have "\<forall>x \<in> set xs. xs ! smallest_index xs \<le> x" by (auto simp: in_set_conv_nth)
  with less show "xs ! smallest_index xs = Min (set xs)"
    by (intro Min_eqI[symmetric]) auto
qed

lemma rotate_fixed:
  assumes "distinct xs" "k < length xs" "rotate k xs = xs"
  shows "k = 0"
proof -
  have "xs \<noteq> []" using assms(2) by auto
  have "rotate k xs ! 0 = xs ! ((0 + k) mod length xs)"
    using \<open>xs \<noteq> []\<close> by (simp add: nth_rotate)
  then have "xs ! 0 = xs ! k" using assms(2,3) by simp
  then show ?thesis using assms(1,2) \<open>xs \<noteq> []\<close> by (simp add: nth_eq_iff_index_eq)
qed

lemma canonicalize_cycle_fixed:
  assumes "distinct cycle" "cycle \<noteq> []"
  shows "canonicalize_cycle cycle = cycle \<longleftrightarrow> hd cycle = Min (set cycle)"
proof (cases "length cycle < 2")
  case True
  with assms(2) obtain c where "cycle = [c]" by (cases cycle) auto
  then show ?thesis by (simp add: canonicalize_cycle_def)
next
  case False
  note s = smallest_index_spec[OF assms(2)]
  have "canonicalize_cycle cycle = cycle \<longleftrightarrow> smallest_index cycle = 0"
    using False rotate_fixed[OF assms(1) s(1)] by (auto simp: canonicalize_cycle_def Let_def)
  also have "\<dots> \<longleftrightarrow> cycle ! 0 = Min (set cycle)"
    using s assms by (metis length_greater_0_conv nth_eq_iff_index_eq)
  finally show ?thesis using assms(2) by (simp add: hd_conv_nth)
qed

section \<open>The validator is exact\<close>

lemma check_selectors_on_hop_None:
  assumes "sorted_wrt (<) (fe_selectors edge)" "sorted_wrt (<) (hr_effective rec)"
  shows "check_selectors_on_hop edge rec hop ss = None \<longleftrightarrow>
    (\<forall>s \<in> set ss. s \<in> set (fe_selectors edge) \<and> s \<in> set (hr_effective rec))"
  using assms by (induction ss) (simp_all add: binary_search_iff strict_sorted_iff)

text \<open>On a canonical definition the resolution of a hop succeeds, and it names the hop's endpoints.\<close>

lemma check_resolution_None:
  assumes t: "topology_ok t" and g: "ledger_ok g" and e: "find_edge t hop = Some edge"
    and ends: "fe_from edge = from" "fe_to edge = to" and ss: "selectors \<noteq> []"
    and source: "find_resource t from = Some source" "rr_admin source = Admin_Enabled"
    and target: "find_resource t to = Some target" "rr_admin target = Admin_Enabled" and link: "fe_link edge = Link_Up"
  shows "check_resolution g t current now selectors from to hop edge = None \<longleftrightarrow>
    (\<forall>s \<in> set selectors. hop_open t g current now hop from to s)"
proof -
  obtain i where i: "edge_index t hop = Some i" "edge = td_edges t ! i"
    using e by (auto simp: find_edge_def split: option.splits)
  have il: "i < length (td_edges t)" "fe_id edge = hop" using edge_index_SomeD[OF t i(1)] i(2) by auto
  let ?obs = "filter (\<lambda>ob. fo_edge ob = hop) (el_observations g)"
  obtain h where h: "resolve g t i current now = ok h" using resolve_value[OF il(1)] by blast
  then have rh: "resolve_hop t i ?obs current now (el_limits g) = ok h"
    using resolve_spec[OF g il(1)] i(2) il(2) by simp
  note ph = resolve_hop_proven_open[OF t il(1) source(1)[folded ends, unfolded i(2)]
      target(1)[folded ends, unfolded i(2)] rh, folded i(2)]
  have nclosed: "\<not> definition_closes source target edge" using source target link by (simp add: definition_closes_def)
  have sorted: "sorted_wrt (<) (fe_selectors edge)"
    using t il(1) by (simp add: topology_ok_def edge_ok_def i(2))
  have hop: "hop_open t g current now hop from to s \<longleftrightarrow> s \<in> set (fe_selectors edge) \<and>
      (\<exists>ob. exact_statement Ev_Present ?obs current now ob \<and> s \<in> set (fo_selectors ob)) \<and>
      (\<nexists>ob. exact_statement Ev_Absent ?obs current now ob)" for s
    using e ends source target link by (auto simp: hop_open_def)
  show ?thesis
  proof (cases "hr_resolution h = Hop_ProvenOpen")
    case True
    have "check_resolution g t current now selectors from to hop edge = None \<longleftrightarrow>
      (\<forall>s \<in> set selectors. s \<in> set (fe_selectors edge) \<and> s \<in> set (hr_effective h))"
      using True ph(3) ends check_selectors_on_hop_None[OF sorted conjunct1[OF ph(2)[OF True]]]
      by (simp add: check_resolution_def i(1) h)
    also have "\<dots> \<longleftrightarrow> (\<forall>s \<in> set selectors. hop_open t g current now hop from to s)"
      using ph(1,2) True unfolding hop by blast
    finally show ?thesis .
  next
    case False
    then have "check_resolution g t current now selectors from to hop edge \<noteq> None"
      by (simp add: check_resolution_def i(1) h)
    moreover have "\<not> (\<forall>s \<in> set selectors. hop_open t g current now hop from to s)"
    proof -
      obtain s where s: "s \<in> set selectors" using ss by (meson list.set_sel(1))
      have "\<not> hop_open t g current now hop from to s"
        using False ph(1) nclosed unfolding hop by blast
      with s show ?thesis by blast
    qed
    ultimately show ?thesis by blast
  qed
qed

lemma hop_openD:
  assumes "hop_open t g current now hop from to s"
  obtains edge source target where "find_edge t hop = Some edge" "fe_from edge = from" "fe_to edge = to"
    "fe_link edge = Link_Up" "find_resource t from = Some source" "rr_admin source = Admin_Enabled"
    "find_resource t to = Some target" "rr_admin target = Admin_Enabled"
  using assms by (auto simp: hop_open_def)

lemma check_hop_iff:
  assumes t: "topology_ok t" and g: "ledger_ok g" and ss: "lw_selectors w \<noteq> []"
  shows "check_hop w t g current now i = Inr d \<longleftrightarrow>
    map_option rr_domain (find_resource t (lw_cycle w ! i)) = Some d \<and>
    (\<forall>s \<in> set (lw_selectors w). hop_open t g current now (lw_hops w ! i) (lw_cycle w ! i)
       (lw_cycle w ! ((i + 1) mod length (lw_cycle w))) s)" (is "?l \<longleftrightarrow> ?d \<and> (\<forall>s \<in> _. ?open s)")
proof
  assume ?l
  then obtain source target edge where r: "find_resource t (lw_cycle w ! i) = Some source"
      "find_resource t (lw_cycle w ! ((i + 1) mod length (lw_cycle w))) = Some target"
      "rr_admin source = Admin_Enabled" "rr_admin target = Admin_Enabled" "find_edge t (lw_hops w ! i) = Some edge"
      "fe_from edge = lw_cycle w ! i" "fe_to edge = lw_cycle w ! ((i + 1) mod length (lw_cycle w))"
      "fe_link edge = Link_Up" "rr_domain source = d"
      "check_resolution g t current now (lw_selectors w) (lw_cycle w ! i)
         (lw_cycle w ! ((i + 1) mod length (lw_cycle w))) (lw_hops w ! i) edge = None"
    unfolding check_hop_def Let_def by (auto split: option.splits if_splits)
  show "?d \<and> (\<forall>s \<in> set (lw_selectors w). ?open s)"
    using r check_resolution_None[OF t g r(5,6,7) ss r(1,3,2,4,8)] by simp
next
  assume a: "?d \<and> (\<forall>s \<in> set (lw_selectors w). ?open s)"
  obtain s where s: "s \<in> set (lw_selectors w)" using ss by (meson list.set_sel(1))
  with a have "?open s" by blast
  then obtain edge source target where r: "find_edge t (lw_hops w ! i) = Some edge"
      "fe_from edge = lw_cycle w ! i" "fe_to edge = lw_cycle w ! ((i + 1) mod length (lw_cycle w))"
      "fe_link edge = Link_Up" "find_resource t (lw_cycle w ! i) = Some source" "rr_admin source = Admin_Enabled"
      "find_resource t (lw_cycle w ! ((i + 1) mod length (lw_cycle w))) = Some target"
      "rr_admin target = Admin_Enabled"
    by (rule hop_openD)
  have "check_resolution g t current now (lw_selectors w) (lw_cycle w ! i)
         (lw_cycle w ! ((i + 1) mod length (lw_cycle w))) (lw_hops w ! i) edge = None"
    using check_resolution_None[OF t g r(1,2,3) ss r(5,6,7,8,4)] a by simp
  then show ?l unfolding check_hop_def Let_def using r a by simp
qed

lemma check_hops_iff:
  "check_hops w t g current now is D0 = Inr D \<longleftrightarrow>
     (\<forall>i \<in> set is. \<exists>d. check_hop w t g current now i = Inr d) \<and>
     D = D0 \<union> {d. \<exists>i \<in> set is. check_hop w t g current now i = Inr d}"
proof (induction "is" arbitrary: D0)
  case (Cons i "is")
  show ?case
  proof (cases "check_hop w t g current now i")
    case (Inr d)
    then show ?thesis using Cons[of "insert d D0"] by auto
  qed simp
qed auto

text \<open>The domains of the resources on a cycle.\<close>

definition cycle_domains :: "topology \<Rightarrow> u64 list \<Rightarrow> u64 set" where
  "cycle_domains t cycle = {d. \<exists>r \<in> set cycle. map_option rr_domain (find_resource t r) = Some d}"

definition canonical_witness :: "topology \<Rightarrow> evidence_ledger \<Rightarrow> fence_vector \<Rightarrow> limits \<Rightarrow> loop_witness \<Rightarrow> bool" where
  "canonical_witness t g current l w \<longleftrightarrow>
     length (lw_cycle w) \<le> unat (max_witness_hops l) \<and> sorted_wrt (<) (lw_selectors w) \<and>
     hd (lw_cycle w) = Min (set (lw_cycle w)) \<and> lw_fence w = current \<and>
     lw_evidence_digest w = observations_digest (contributing_observations w g) \<and>
     (lw_crosses w \<longleftrightarrow> card (cycle_domains t (lw_cycle w)) > 1)"

lemma check_shape_None:
  "check_shape w current l = None \<longleftrightarrow> lw_cycle w \<noteq> [] \<and> length (lw_cycle w) \<le> unat (max_witness_hops l) \<and>
     length (lw_hops w) = length (lw_cycle w) \<and> lw_selectors w \<noteq> [] \<and> sorted_wrt (<) (lw_selectors w) \<and>
     distinct (lw_cycle w) \<and> hd (lw_cycle w) = Min (set (lw_cycle w)) \<and> lw_fence w = current"
  by (cases "lw_cycle w \<noteq> [] \<and> distinct (lw_cycle w)")
     (auto simp: check_shape_def hop_count_def strict_sorted_iff canonicalize_cycle_fixed not_less)

lemma validate_witness_valid_iff:
  assumes t: "topology_ok t" and g: "ledger_ok g" and v: "validate_witness w t g current now l = ok v"
  shows "wv_valid v \<longleftrightarrow> loop_at t g current now (lw_cycle w) (lw_hops w) (lw_selectors w) \<and>
    canonical_witness t g current l w"
proof (cases "check_shape w current l")
  case (Some r)
  then have "\<not> wv_valid v" using v by (cases r) (auto simp: validate_witness_def reject_def)
  moreover have "\<not> (loop_at t g current now (lw_cycle w) (lw_hops w) (lw_selectors w) \<and>
      canonical_witness t g current l w)"
    using Some check_shape_None[of w current l] by (auto simp: loop_at_def canonical_witness_def)
  ultimately show ?thesis by blast
next
  case None
  note shape = None[unfolded check_shape_None]
  let ?n = "length (lw_cycle w)"
  have ss: "lw_selectors w \<noteq> []" using shape by blast
  note hop = check_hop_iff[OF t g ss]
  have opens: "(\<forall>i \<in> set [0..<?n]. \<exists>d. check_hop w t g current now i = Inr d) \<longleftrightarrow>
      loop_at t g current now (lw_cycle w) (lw_hops w) (lw_selectors w)"
  proof
    assume "\<forall>i \<in> set [0..<?n]. \<exists>d. check_hop w t g current now i = Inr d"
    then show "loop_at t g current now (lw_cycle w) (lw_hops w) (lw_selectors w)"
      using shape unfolding hop loop_at_def by auto
  next
    assume l: "loop_at t g current now (lw_cycle w) (lw_hops w) (lw_selectors w)"
    show "\<forall>i \<in> set [0..<?n]. \<exists>d. check_hop w t g current now i = Inr d"
    proof
      fix i assume "i \<in> set [0..<?n]"
      then have o: "\<forall>s \<in> set (lw_selectors w). hop_open t g current now (lw_hops w ! i) (lw_cycle w ! i)
         (lw_cycle w ! ((i + 1) mod ?n)) s" using l by (simp add: loop_at_def)
      obtain s where "s \<in> set (lw_selectors w)" using ss by (meson list.set_sel(1))
      then obtain source where "find_resource t (lw_cycle w ! i) = Some source"
        using o hop_openD by metis
      then show "\<exists>d. check_hop w t g current now i = Inr d" using o unfolding hop by simp
    qed
  qed
  have domains: "{d. \<exists>i \<in> set [0..<?n]. check_hop w t g current now i = Inr d} = cycle_domains t (lw_cycle w)"
    if l: "loop_at t g current now (lw_cycle w) (lw_hops w) (lw_selectors w)"
  proof -
    have "check_hop w t g current now i = Inr d \<longleftrightarrow>
        map_option rr_domain (find_resource t (lw_cycle w ! i)) = Some d" if "i < ?n" for i d
      using l that unfolding hop loop_at_def by simp
    then have "{d. \<exists>i \<in> set [0..<?n]. check_hop w t g current now i = Inr d} =
        {d. \<exists>i \<in> set [0..<?n]. map_option rr_domain (find_resource t (lw_cycle w ! i)) = Some d}"
      by (simp cong: conj_cong)
    also have "\<dots> = cycle_domains t (map (\<lambda>i. lw_cycle w ! i) [0..<?n])"
      by (simp add: cycle_domains_def)
    finally show ?thesis by (simp add: map_nth)
  qed
  show ?thesis
  proof (cases "check_hops w t g current now [0..<?n] {}")
    case (Inl r)
    then have "\<not> wv_valid v" using v None by (cases r) (auto simp: validate_witness_def reject_def)
    moreover have "\<not> loop_at t g current now (lw_cycle w) (lw_hops w) (lw_selectors w)"
      using Inl check_hops_iff[of w t g current now "[0..<?n]" "{}"] opens by force
    ultimately show ?thesis by blast
  next
    case (Inr D)
    then have loop: "loop_at t g current now (lw_cycle w) (lw_hops w) (lw_selectors w)"
      and D: "D = cycle_domains t (lw_cycle w)"
      using check_hops_iff[of w t g current now "[0..<?n]" "{}" D] opens domains by auto
    have "wv_valid v \<longleftrightarrow> observations_digest (contributing_observations w g) = lw_evidence_digest w \<and>
       (card D > 1) = lw_crosses w"
      using v None Inr by (auto simp: validate_witness_def reject_def split: if_splits)
    then show ?thesis using loop D shape by (auto simp: canonical_witness_def)
  qed
qed

lemma validate_witness_ok: "\<exists>v. validate_witness w t g current now l = ok v"
  by (auto simp: validate_witness_def split: option.split sum.split)

lemma validate_witness_outcome:
  assumes "validate_witness w t g current now l = ok v"
  shows "wv_valid v \<longleftrightarrow> wv_outcome v = Loop_LoopConfirmed"
proof -
  have shape: "fst r \<noteq> Loop_LoopConfirmed" if "check_shape w current l = Some r" for r
    using that by (auto simp: check_shape_def split: if_splits)
  have sel: "fst r \<noteq> Loop_LoopConfirmed" if "check_selectors_on_hop e rec hop ss = Some r" for e rec hop ss r
    using that by (induction ss) (auto split: if_splits)
  have res: "fst r \<noteq> Loop_LoopConfirmed"
    if "check_resolution g t current now ss u v hop e = Some r" for ss u v hop e r
    using that sel by (auto simp: check_resolution_def Let_def split: option.splits if_splits)
  have hop: "fst r \<noteq> Loop_LoopConfirmed" if "check_hop w t g current now i = Inl r" for i r
    using that res by (auto simp: check_hop_def Let_def split: option.splits if_splits)
  have hops: "fst r \<noteq> Loop_LoopConfirmed" if "check_hops w t g current now is D = Inl r" for "is" D r
    using that hop by (induction "is" arbitrary: D) (auto split: sum.splits)
  show ?thesis
    using assms shape hops
    by (auto simp: validate_witness_def reject_def split: option.splits sum.splits if_splits prod.splits)
qed

end
