(* ===== verification/Cycle_Probe.thy ===== *)
theory Cycle_Probe
  imports Core
begin

text \<open>
  The exact existence test of src/detect.cpp: class CycleProbe, Kahn's algorithm over a compressed
  adjacency. The probe holds the edges added since the last \<open>clear\<close>; its member indegree_ is
  written and never read, and its scratch vectors are local values here. The 32-bit in-degree
  counters are naturals: a definition has at most 2^20 edges (\<open>limits_are_sane\<close>).

  \<open>has_cycle_iff\<close>: the answer is exact in both directions, which is what lets the detector report
  the absence of a loop.
\<close>

section \<open>The probe\<close>

datatype hop_class = Class_Proven | Class_Unproven | Class_Conflicted

definition class_raw :: "hop_class \<Rightarrow> nat" where
  "class_raw c = (case c of Class_Proven \<Rightarrow> 0 | Class_Unproven \<Rightarrow> 1 | Class_Conflicted \<Rightarrow> 2)"

record probe_edge =
  pe_from :: nat
  pe_to :: nat
  pe_klass :: hop_class

record cycle_probe =
  cp_node_count :: nat
  cp_edges :: "probe_edge list"

definition new_probe :: "nat \<Rightarrow> cycle_probe" where
  "new_probe n = \<lparr>cp_node_count = n, cp_edges = []\<rparr>"

definition clear_probe :: "cycle_probe \<Rightarrow> cycle_probe" where
  "clear_probe p = p\<lparr>cp_edges := []\<rparr>"

definition add_probe_edge :: "nat \<Rightarrow> nat \<Rightarrow> hop_class \<Rightarrow> cycle_probe \<Rightarrow> cycle_probe" where
  "add_probe_edge from to klass p =
     p\<lparr>cp_edges := cp_edges p @ [\<lparr>pe_from = from, pe_to = to, pe_klass = klass\<rparr>]\<rparr>"

definition usable_edges :: "hop_class \<Rightarrow> probe_edge list \<Rightarrow> probe_edge list" where
  "usable_edges highest es = filter (\<lambda>e. class_raw (pe_klass e) \<le> class_raw highest) es"

definition indegrees :: "nat \<Rightarrow> probe_edge list \<Rightarrow> nat list" where
  "indegrees n es = foldl (\<lambda>d e. d[pe_to e := d ! pe_to e + 1]) (replicate n 0) es"

text \<open>The targets of a node just removed: each decrement that reaches 0 enqueues the target.\<close>

fun visit_targets :: "bool list \<Rightarrow> nat list \<Rightarrow> nat list \<Rightarrow> nat list \<Rightarrow> nat list \<times> nat list" where
  "visit_targets removed [] indegree queue = (indegree, queue)"
| "visit_targets removed (target # ts) indegree queue =
     (if removed ! target then visit_targets removed ts indegree queue
      else if indegree ! target > 0 then
        (if indegree[target := indegree ! target - 1] ! target = 0
         then visit_targets removed ts (indegree[target := indegree ! target - 1]) (queue @ [target])
         else visit_targets removed ts (indegree[target := indegree ! target - 1]) queue)
      else visit_targets removed ts indegree queue)"

text \<open>The queue below is the part of queue_ from head on.\<close>

function kahn_loop :: "nat list \<Rightarrow> nat list \<Rightarrow> nat list \<Rightarrow> bool list \<Rightarrow> nat list \<Rightarrow> nat \<Rightarrow> nat" where
  "kahn_loop offsets out_list [] removed indegree processed = processed"
| "kahn_loop offsets out_list (node # queue) removed indegree processed =
     (if removed ! node then kahn_loop offsets out_list queue removed indegree processed
      else kahn_loop offsets out_list
        (snd (visit_targets (removed[node := True]) (csr_segment offsets out_list node) indegree queue))
        (removed[node := True])
        (fst (visit_targets (removed[node := True]) (csr_segment offsets out_list node) indegree queue))
        (processed + 1))"
  by pat_completeness auto

definition has_cycle :: "hop_class \<Rightarrow> cycle_probe \<Rightarrow> bool" where
  "has_cycle highest p =
     (let n = cp_node_count p; us = usable_edges highest (cp_edges p)
      in if us = [] then False
         else
           let offsets = csr_offsets n (map pe_from us);
               out_list = fst (csr_fill n 0 (map (\<lambda>e. (pe_from e, pe_to e)) us));
               indegree = indegrees n us;
               queue = filter (\<lambda>i. indegree ! i = 0) [0..<n]
           in kahn_loop offsets out_list queue (replicate n False) indegree 0 \<noteq> n)"

section \<open>Termination\<close>

lemma sum_list_decrement:
  fixes xs :: "nat list"
  assumes "xs ! i > 0" "i < length xs"
  shows "Suc (sum_list (xs[i := xs ! i - 1])) = sum_list xs"
  using assms by (induction xs arbitrary: i) (auto simp: nth_Cons split: nat.splits)

lemma visit_targets_measure:
  "length (snd (visit_targets removed ts indegree queue)) + sum_list (fst (visit_targets removed ts indegree queue))
     \<le> length queue + sum_list indegree"
proof (induction removed ts indegree queue rule: visit_targets.induct)
  case (2 removed target ts indegree queue)
  show ?case
  proof (cases "removed ! target \<or> indegree ! target = 0")
    case True
    then show ?thesis using 2 by auto
  next
    case False
    let ?d = "indegree[target := indegree ! target - 1]"
    show ?thesis
    proof (cases "target < length indegree")
      case True
      have "Suc (sum_list ?d) = sum_list indegree" using sum_list_decrement True False by simp
      then show ?thesis using 2(2,3) False by (cases "?d ! target = 0") simp_all
    next
      case out: False
      then have "?d = indegree" by (simp add: list_update_beyond)
      then show ?thesis using 2(3) False by simp
    qed
  qed
qed simp

termination kahn_loop
proof (relation "measure (\<lambda>(offsets, out, queue, removed, indegree, processed). length queue + sum_list indegree)")
  fix offsets out_list queue removed indegree processed and node :: nat
  show "((offsets, out_list, snd (visit_targets (removed[node := True]) (csr_segment offsets out_list node) indegree queue),
      removed[node := True], fst (visit_targets (removed[node := True]) (csr_segment offsets out_list node) indegree queue),
      processed + 1), offsets, out_list, node # queue, removed, indegree, processed)
    \<in> measure (\<lambda>(offsets, out, queue, removed, indegree, processed). length queue + sum_list indegree)"
    using visit_targets_measure[of "removed[node := True]" "csr_segment offsets out_list node" indegree queue]
    by simp
qed auto

section \<open>Correctness\<close>

definition edge_rel :: "probe_edge list \<Rightarrow> (nat \<times> nat) set" where
  "edge_rel us = (\<lambda>e. (pe_from e, pe_to e)) ` set us"

definition edges_in_range :: "nat \<Rightarrow> probe_edge list \<Rightarrow> bool" where
  "edges_in_range n es \<longleftrightarrow> (\<forall>e \<in> set es. pe_from e < n \<and> pe_to e < n)"

text \<open>In a finite non-empty set where every element has a predecessor there is a cycle.\<close>

lemma predecessor_cycle:
  assumes "finite S" "S \<noteq> {}" "\<forall>v \<in> S. \<exists>u \<in> S. (u, v) \<in> E"
  shows "\<exists>v. (v, v) \<in> E\<^sup>+"
proof (rule ccontr)
  assume no: "\<nexists>v. (v, v) \<in> E\<^sup>+"
  let ?E = "E \<inter> S \<times> S"
  have "acyclic ?E"
    using no trancl_mono[of _ ?E E] by (auto simp: acyclic_def)
  moreover have "finite ?E" using assms(1) by (simp add: finite_Int)
  ultimately have "wf ?E" by (simp add: finite_acyclic_wf)
  then obtain z where "z \<in> S" "\<forall>y. (y, z) \<in> ?E \<longrightarrow> y \<notin> S"
    using wfE_min[of ?E _ S] assms(2) by (metis all_not_in_conv)
  with assms(3) show False by blast
qed

text \<open>A node whose predecessors all lie in a set closed under predecessors, and that is outside
  the set, is on no cycle.\<close>

lemma closed_no_cycle:
  assumes closed: "\<forall>u v. (u, v) \<in> E \<longrightarrow> v \<in> R \<longrightarrow> u \<in> R" and "x \<notin> R" and pred: "\<forall>u. (u, x) \<in> E \<longrightarrow> u \<in> R"
  shows "(x, x) \<notin> E\<^sup>+"
proof
  assume "(x, x) \<in> E\<^sup>+"
  then obtain u where u: "(x, u) \<in> E\<^sup>*" "(u, x) \<in> E" by (meson tranclD2)
  from u(2) pred have "u \<in> R" by blast
  with u(1) have "x \<in> R"
    by (induction rule: converse_rtrancl_induct) (use closed in blast)+
  with assms(2) show False by blast
qed

lemma visit_targets_spec:
  assumes "\<forall>t \<in> set ts. t < length indegree"
  shows "length (fst (visit_targets removed ts indegree queue)) = length indegree \<and>
    (\<forall>v < length indegree. fst (visit_targets removed ts indegree queue) ! v =
       (if removed ! v then indegree ! v else indegree ! v - count_list ts v)) \<and>
    set (snd (visit_targets removed ts indegree queue)) = set queue \<union>
       {v. v < length indegree \<and> \<not> removed ! v \<and> 0 < indegree ! v \<and> indegree ! v \<le> count_list ts v}"
  using assms
proof (induction removed ts indegree queue rule: visit_targets.induct)
  case (1 removed indegree queue)
  then show ?case by auto
next
  case (2 removed target ts indegree queue)
  let ?d = "indegree[target := indegree ! target - 1]"
  have t: "target < length indegree" using "2.prems" by simp
  consider "removed ! target" | "\<not> removed ! target" "indegree ! target = 0"
    | "\<not> removed ! target" "indegree ! target > 0" "?d ! target = 0"
    | "\<not> removed ! target" "indegree ! target > 0" "?d ! target \<noteq> 0" by blast
  then show ?case
  proof cases
    case 1
    with 2(1) "2.prems" show ?thesis by auto
  next
    case nz: 2
    with "2.IH"(4) "2.prems" show ?thesis by auto
  next
    case 3
    with "2.IH"(2) "2.prems" t show ?thesis by (auto simp: nth_list_update)
  next
    case 4
    with "2.IH"(3) "2.prems" t show ?thesis by (auto simp: nth_list_update)
  qed
qed

definition kahn_inv :: "nat \<Rightarrow> probe_edge list \<Rightarrow> nat list \<Rightarrow> bool list \<Rightarrow> nat list \<Rightarrow> nat \<Rightarrow> bool" where
  "kahn_inv n us queue removed indegree processed \<longleftrightarrow>
     length removed = n \<and> length indegree = n \<and> (\<forall>q \<in> set queue. q < n) \<and>
     (\<forall>v < n. \<not> removed ! v \<longrightarrow> indegree ! v = length (filter (\<lambda>e. pe_to e = v \<and> \<not> removed ! pe_from e) us)) \<and>
     (\<forall>v < n. \<not> removed ! v \<longrightarrow> indegree ! v = 0 \<longrightarrow> v \<in> set queue) \<and>
     (\<forall>q \<in> set queue. \<not> removed ! q \<longrightarrow> indegree ! q = 0) \<and>
     processed = card {v. v < n \<and> removed ! v} \<and>
     (\<forall>u v. (u, v) \<in> edge_rel us \<longrightarrow> removed ! v \<longrightarrow> removed ! u) \<and>
     (\<forall>v < n. removed ! v \<longrightarrow> (v, v) \<notin> (edge_rel us)\<^sup>+)"

lemma filter_split_length:
  "length (filter (\<lambda>e. P e \<and> Q e) xs) + length (filter (\<lambda>e. P e \<and> \<not> Q e) xs) = length (filter P xs)"
  by (induction xs) auto

lemma kahn_step:
  assumes inv: "kahn_inv n us (node # queue) removed indegree processed" and range: "edges_in_range n us"
    and new: "\<not> removed ! node" and ts: "ts = map pe_to (filter (\<lambda>e. pe_from e = node) us)"
  shows "kahn_inv n us (snd (visit_targets (removed[node := True]) ts indegree queue)) (removed[node := True])
    (fst (visit_targets (removed[node := True]) ts indegree queue)) (processed + 1)"
proof -
  let ?R = "removed[node := True]" and ?v = "visit_targets (removed[node := True]) ts indegree queue"
  have node: "node < n" "indegree ! node = 0" and len: "length removed = n" "length indegree = n"
    and queue: "\<forall>q \<in> set queue. q < n"
    and deg: "\<And>v. v < n \<Longrightarrow> \<not> removed ! v \<Longrightarrow>
      indegree ! v = length (filter (\<lambda>e. pe_to e = v \<and> \<not> removed ! pe_from e) us)"
    and q0: "\<And>v. v < n \<Longrightarrow> \<not> removed ! v \<Longrightarrow> indegree ! v = 0 \<Longrightarrow> v = node \<or> v \<in> set queue"
    and qd: "\<And>q. q \<in> set queue \<Longrightarrow> \<not> removed ! q \<Longrightarrow> indegree ! q = 0"
    and closed: "\<And>u v. (u, v) \<in> edge_rel us \<Longrightarrow> removed ! v \<Longrightarrow> removed ! u"
    and acyc: "\<And>v. v < n \<Longrightarrow> removed ! v \<Longrightarrow> (v, v) \<notin> (edge_rel us)\<^sup>+"
    and proc: "processed = card {v. v < n \<and> removed ! v}"
    using inv new unfolding kahn_inv_def by auto
  have Rn: "?R ! v \<longleftrightarrow> v = node \<or> removed ! v" if "v < n" for v
    using that len node by (simp add: nth_list_update)
  have "\<forall>t \<in> set ts. t < length indegree" using range by (auto simp: ts len edges_in_range_def)
  note vt = visit_targets_spec[OF this, of ?R queue, unfolded len]
  have cnt: "count_list ts v = length (filter (\<lambda>e. pe_to e = v \<and> pe_from e = node) us)" for v
    unfolding ts by (induction us) auto
  have split: "length (filter (\<lambda>e. pe_to e = v \<and> \<not> removed ! pe_from e) us) =
      count_list ts v + length (filter (\<lambda>e. pe_to e = v \<and> \<not> ?R ! pe_from e) us)" for v
  proof -
    have "filter (\<lambda>e. (pe_to e = v \<and> \<not> removed ! pe_from e) \<and> pe_from e = node) us =
        filter (\<lambda>e. pe_to e = v \<and> pe_from e = node) us"
      using new by (auto intro: filter_cong)
    moreover have "filter (\<lambda>e. (pe_to e = v \<and> \<not> removed ! pe_from e) \<and> pe_from e \<noteq> node) us =
        filter (\<lambda>e. pe_to e = v \<and> \<not> ?R ! pe_from e) us"
      using range Rn by (intro filter_cong) (auto simp: edges_in_range_def)
    ultimately show ?thesis
      using filter_split_length[of "\<lambda>e. pe_to e = v \<and> \<not> removed ! pe_from e" "\<lambda>e. pe_from e = node" us]
      by (simp add: cnt)
  qed
  have deg': "fst ?v ! v = length (filter (\<lambda>e. pe_to e = v \<and> \<not> ?R ! pe_from e) us)"
    if "v < n" "\<not> ?R ! v" for v
    using vt that deg[of v] split[of v] Rn[of v] by simp
  have bound: "q < n" if "q \<in> set (snd ?v)" for q using that vt queue by auto
  have zero: "v \<in> set (snd ?v)" if v: "v < n" "\<not> ?R ! v" "fst ?v ! v = 0" for v
  proof (cases "indegree ! v = 0")
    case True
    then show ?thesis using q0[of v] Rn[of v] v vt by auto
  next
    case False
    then have "indegree ! v \<le> count_list ts v" using vt v by auto
    with False v vt show ?thesis by auto
  qed
  have drained: "fst ?v ! q = 0" if q: "q \<in> set (snd ?v)" "\<not> ?R ! q" for q
    using vt q qd[of q] Rn[of q] bound[OF q(1)] by auto
  have "{v. v < n \<and> ?R ! v} = insert node {v. v < n \<and> removed ! v}" using Rn node by auto
  then have card: "processed + 1 = card {v. v < n \<and> ?R ! v}" using proc new by simp
  have pred: "removed ! u" if "(u, node) \<in> edge_rel us" for u
  proof -
    have "filter (\<lambda>e. pe_to e = node \<and> \<not> removed ! pe_from e) us = []"
      using deg[OF node(1) new] node(2) by simp
    with that show ?thesis by (auto simp: edge_rel_def filter_empty_conv)
  qed
  have closed': "?R ! u" if "(u, v) \<in> edge_rel us" "?R ! v" for u v
  proof -
    have "u < n" "v < n" using that(1) range by (auto simp: edge_rel_def edges_in_range_def)
    then show ?thesis using that Rn closed pred by auto
  qed
  have "(node, node) \<notin> (edge_rel us)\<^sup>+"
    by (rule closed_no_cycle[where R = "{v. removed ! v}"]) (use closed pred new in auto)
  then have acyc': "(v, v) \<notin> (edge_rel us)\<^sup>+" if "v < n" "?R ! v" for v
    using that acyc[of v] Rn[of v] by auto
  show ?thesis
    unfolding kahn_inv_def
  proof (intro conjI allI impI ballI)
    show "length ?R = n" "length (fst ?v) = n" using vt len by simp_all
  qed (fact bound deg' zero drained card closed' acyc')+
qed

lemma kahn_loop_correct:
  assumes "kahn_inv n us queue removed indegree processed" "edges_in_range n us"
    and "\<And>k. k < n \<Longrightarrow> csr_segment offsets out_list k = map pe_to (filter (\<lambda>e. pe_from e = k) us)"
  shows "kahn_loop offsets out_list queue removed indegree processed \<noteq> n \<longleftrightarrow> (\<exists>v. (v, v) \<in> (edge_rel us)\<^sup>+)"
  using assms
proof (induction offsets out_list queue removed indegree processed rule: kahn_loop.induct)
  case (1 offsets out_list removed indegree processed)
  let ?S = "{v. v < n \<and> \<not> removed ! v}" and ?R = "{v. v < n \<and> removed ! v}"
  have range: "u < n \<and> v < n" if "(u, v) \<in> edge_rel us" for u v
    using that "1.prems"(2) by (auto simp: edge_rel_def edges_in_range_def)
  have "?R \<union> ?S = {..<n}" by auto
  then have card: "card ?R + card ?S = n"
    by (metis (no_types, lifting) card_Un_disjoint card_lessThan disjoint_iff finite_Un finite_lessThan mem_Collect_eq)
  have proc: "processed = card ?R" using "1.prems"(1) by (simp add: kahn_inv_def)
  show ?case
  proof
    assume "kahn_loop offsets out_list [] removed indegree processed \<noteq> n"
    then have "card ?S > 0" using card proc by simp
    then have "?S \<noteq> {}" by (metis card.empty less_irrefl)
    moreover have "\<exists>u \<in> ?S. (u, v) \<in> edge_rel us" if v: "v \<in> ?S" for v
    proof -
      have "length (filter (\<lambda>e. pe_to e = v \<and> \<not> removed ! pe_from e) us) \<noteq> 0"
        using "1.prems"(1) v unfolding kahn_inv_def by (metis (no_types, lifting) empty_iff list.set(1) mem_Collect_eq)
      then obtain e where "e \<in> set us" "pe_to e = v" "\<not> removed ! pe_from e"
        by (auto simp: filter_empty_conv)
      then have "(pe_from e, v) \<in> edge_rel us" "\<not> removed ! pe_from e" by (auto simp: edge_rel_def)
      with range show ?thesis by blast
    qed
    ultimately show "\<exists>v. (v, v) \<in> (edge_rel us)\<^sup>+" by (intro predecessor_cycle[of ?S]) auto
  next
    assume "\<exists>v. (v, v) \<in> (edge_rel us)\<^sup>+"
    then obtain v where v: "(v, v) \<in> (edge_rel us)\<^sup>+" by blast
    then obtain u where "(v, u) \<in> edge_rel us" by (meson tranclD)
    then have "v < n" using range by blast
    with v "1.prems"(1) have "v \<in> ?S" unfolding kahn_inv_def by blast
    then have "0 < card ?S" by (auto simp: card_gt_0_iff)
    then show "kahn_loop offsets out_list [] removed indegree processed \<noteq> n" using card proc by simp
  qed
next
  case (2 offsets out_list node queue removed indegree processed)
  show ?case
  proof (cases "removed ! node")
    case True
    then have "kahn_inv n us queue removed indegree processed"
      using "2.prems"(1) unfolding kahn_inv_def by auto
    with 2(1)[OF True] "2.prems" True show ?thesis by simp
  next
    case False
    have "node < n" using "2.prems"(1) by (simp add: kahn_inv_def)
    from kahn_step[OF "2.prems"(1,2) False "2.prems"(3)[OF this]] 2(2)[OF False] "2.prems"(2,3) False
    show ?thesis by simp
  qed
qed

lemma indegrees_nth:
  "length (indegrees n us) = n \<and> (\<forall>v < n. indegrees n us ! v = length (filter (\<lambda>e. pe_to e = v) us))"
proof (induction us rule: rev_induct)
  case (snoc e us)
  then show ?case by (auto simp: indegrees_def nth_list_update)
qed (simp add: indegrees_def)

theorem has_cycle_iff:
  assumes "edges_in_range (cp_node_count p) (cp_edges p)"
  shows "has_cycle highest p \<longleftrightarrow> (\<exists>v. (v, v) \<in> (edge_rel (usable_edges highest (cp_edges p)))\<^sup>+)"
proof -
  let ?n = "cp_node_count p" and ?us = "usable_edges highest (cp_edges p)"
  let ?kvs = "map (\<lambda>e. (pe_from e, pe_to e)) ?us"
  have range: "edges_in_range ?n ?us" using assms by (simp add: edges_in_range_def usable_edges_def)
  show ?thesis
  proof (cases "?us = []")
    case True
    then show ?thesis by (simp add: has_cycle_def edge_rel_def)
  next
    case False
    have fsts: "map fst ?kvs = map pe_from ?us" by simp
    have bound: "\<forall>k \<in> set (map fst ?kvs). k < ?n" using range by (auto simp: edges_in_range_def)
    have seg: "csr_segment (csr_offsets ?n (map pe_from ?us)) (fst (csr_fill ?n 0 ?kvs)) k =
        map pe_to (filter (\<lambda>e. pe_from e = k) ?us)" if "k < ?n" for k
      using csr_segment_eq[OF bound that, of 0] unfolding fsts
      by (simp add: filter_map o_def)
    have inv: "kahn_inv ?n ?us (filter (\<lambda>i. indegrees ?n ?us ! i = 0) [0..<?n]) (replicate ?n False)
        (indegrees ?n ?us) 0"
      using indegrees_nth[of ?n ?us] range
      by (auto simp: kahn_inv_def edge_rel_def edges_in_range_def intro!: arg_cong[of _ _ length] filter_cong)
    show ?thesis
      using False kahn_loop_correct[OF inv range seg] by (simp add: has_cycle_def Let_def)
  qed
qed

end
