(* ===== verification/Detect.thy ===== *)
theory Detect
  imports Witness Cycle_Probe
begin

text \<open>
  Forwarding-loop detection: include/loop_guard/detect.hpp and src/detect.cpp, but for the probe,
  which is Cycle_Probe.

  LoopDetector::assess is one function of the sources and a chain of phases here: \<open>assess\<close> (the
  request), \<open>assess_resolved\<close> (candidates, scope, flags, bounds), \<open>hop_view_of\<close> (the selector masks),
  \<open>existence_loop\<close> (the exact proof per selector), \<open>dfs_loop\<close> and \<open>enumerate_from\<close> (the witnesses),
  \<open>accept_loop\<close> (their independent validation) and \<open>conclude\<close> (the outcome).

  The depth-first search keeps four parallel vectors (stack, path_nodes, path_edges, masks) and a
  flag vector on_path that the sources push and pop together; here each frame of one stack carries
  its node, its cursor, the edge it was entered by and its mask. The vectors are left inconsistent
  only where the sources leave both loops.

  The lemmas: an assessment without a loop proves, for every selector in scope, that the graph of
  hops that might carry it is acyclic; a confirmed one holds genuine loops only; a proven cycle is
  never reported as unknown or conflicted.
\<close>

section \<open>Texts\<close>

definition txt_selector_scope_must_be_strictly_increasing :: string where
  "txt_selector_scope_must_be_strictly_increasing =
     ''selector scope must be strictly increasing''"

definition txt_selector_scope_names_a_selector_the_definition :: string where
  "txt_selector_scope_names_a_selector_the_definition =
     ''selector scope names a selector the definition does not declare''"

definition txt_every_hop_carries_exactly_bound_forwarding_evidence :: string where
  "txt_every_hop_carries_exactly_bound_forwarding_evidence =
     ''every hop carries exactly bound forwarding evidence''"

definition txt_the_detector_produced_a_witness_the_independent :: string where
  "txt_the_detector_produced_a_witness_the_independent =
     ''the detector produced a witness the independent validator refused: ''"

definition txt_a_forwarding_loop_was_proved_and_independently :: string where
  "txt_a_forwarding_loop_was_proved_and_independently =
     ''a forwarding loop was proved and independently validated''"

definition txt_a_proven_cycle_exists_but_no_witness :: string where
  "txt_a_proven_cycle_exists_but_no_witness =
     ''a proven cycle exists but no witness could be produced within the enumeration budget; the question is not answered''"

definition txt_the_proof_budget_was_reached_before_cycle :: string where
  "txt_the_proof_budget_was_reached_before_cycle =
     ''the proof budget was reached before cycle absence could be proved''"

definition txt_a_cycle_exists_only_by_traversing_a :: string where
  "txt_a_cycle_exists_only_by_traversing_a =
     ''a cycle exists only by traversing a hop whose authoritative evidence contradicts itself''"

definition txt_a_cycle_exists_in_the_adjacency_graph :: string where
  "txt_a_cycle_exists_in_the_adjacency_graph =
     ''a cycle exists in the adjacency graph, but at least one hop on it is not proved open''"

definition txt_no_cycle_exists_in_the_proven_or :: string where
  "txt_no_cycle_exists_in_the_proven_or =
     ''no cycle exists in the proven or possibly-open forwarding graph for any candidate selector''"

definition txt_the_per_selector_existence_proof_reached_the :: string where
  "txt_the_per_selector_existence_proof_reached_the =
     ''the per-selector existence proof reached the step budget''"

definition txt_the_definition_contains_no_adjacency_to_traverse :: string where
  "txt_the_definition_contains_no_adjacency_to_traverse =
     ''the definition contains no adjacency to traverse''"

definition txt_selector_mask_working_set_would_exceed_the :: string where
  "txt_selector_mask_working_set_would_exceed_the =
     ''selector-mask working set would exceed the in-memory ceiling''"

definition txt_detection_requires_a_fully_populated_fence_vector :: string where
  "txt_detection_requires_a_fully_populated_fence_vector =
     ''detection requires a fully populated fence vector''"

definition txt_a_detection_request_needs_a_topology_and :: string where
  "txt_a_detection_request_needs_a_topology_and =
     ''a detection request needs a topology and an evidence ledger''"

section \<open>Records\<close>

record search_counters =
  sn_scc_runs :: u64
  sn_nodes_examined :: u64
  sn_edges_examined :: u64
  sn_steps_used :: u64
  sn_cycles_enumerated :: u64
  sn_selectors_considered :: u64
  sn_witnesses_retained :: u64
  sn_witnesses_dropped :: u64
  sn_witnesses_validated :: u64
  sn_witnesses_rejected :: u64
  sn_length_bound_reached :: bool
  sn_steps_exhausted :: bool
  sn_cycles_exhausted :: bool
  sn_selectors_exhausted :: bool
  sn_witnesses_truncated :: bool

definition zero_counters :: search_counters where
  "zero_counters = \<lparr>sn_scc_runs = 0, sn_nodes_examined = 0, sn_edges_examined = 0, sn_steps_used = 0,
     sn_cycles_enumerated = 0, sn_selectors_considered = 0, sn_witnesses_retained = 0,
     sn_witnesses_dropped = 0, sn_witnesses_validated = 0, sn_witnesses_rejected = 0,
     sn_length_bound_reached = False, sn_steps_exhausted = False, sn_cycles_exhausted = False,
     sn_selectors_exhausted = False, sn_witnesses_truncated = False\<rparr>"

definition any_exhausted :: "search_counters \<Rightarrow> bool" where
  "any_exhausted c \<longleftrightarrow> sn_steps_exhausted c \<or> sn_cycles_exhausted c \<or> sn_selectors_exhausted c \<or>
     sn_witnesses_truncated c"

record detection_request =
  dr_topology :: "topology option"
  dr_ledger :: "evidence_ledger option"
  dr_fence :: fence_vector
  dr_now :: u64
  dr_scope :: "u64 list"

record loop_assessment =
  la_id :: u64
  la_fence :: fence_vector
  la_outcome :: loop_outcome
  la_flags :: u32
  la_witnesses :: "loop_witness list"
  la_hops :: "hop_record list"
  la_counters :: search_counters
  la_explanation :: explanation
  la_origin :: evidence_origin

definition la_is_affirmative :: "loop_assessment \<Rightarrow> bool" where
  "la_is_affirmative a \<longleftrightarrow> la_outcome a = Loop_LoopConfirmed"

definition is_conclusive :: "loop_assessment \<Rightarrow> bool" where
  "is_conclusive a \<longleftrightarrow> la_outcome a = Loop_LoopConfirmed \<or> la_outcome a = Loop_NoLoop"

section \<open>Digests and texts\<close>

definition hop_bytes :: "hop_record \<Rightarrow> u8 list" where
  "hop_bytes h = le64 (hr_edge h) @ le64 (hr_from h) @ le64 (hr_to h) @ le64 (hr_domain h) @
     [enum_raw values_hop_resolution (hr_resolution h)] @ [enum_raw values_evidence_binding (hr_binding h)] @
     concat (map le64 (hr_effective h)) @ [0xFC] @ concat (map le64 (hr_contributing h)) @ [0xFC]"

definition hop_table_digest :: "hop_record list \<Rightarrow> digest" where
  "hop_table_digest hops = sha256 (concat (map hop_bytes hops))"

definition witness_set_digest :: "loop_witness list \<Rightarrow> digest" where
  "witness_set_digest ws = sha256 (concat (map content_digest ws))"

definition assessment_digest :: "loop_assessment \<Rightarrow> digest" where
  "assessment_digest a = sha256 (le64 (la_id a) @ fence_bytes (la_fence a) @
     [enum_raw values_loop_outcome (la_outcome a)] @ le64 (ucast (la_flags a)) @
     [enum_raw values_evidence_origin (la_origin a)] @ witness_set_digest (la_witnesses a) @
     hop_table_digest (la_hops a))"

definition implicated_resources :: "loop_assessment \<Rightarrow> u64 list" where
  "implicated_resources a = sort_unique (concat (map lw_cycle (la_witnesses a)))"

definition implicated_selectors :: "loop_assessment \<Rightarrow> u64 list" where
  "implicated_selectors a = sort_unique (concat (map lw_selectors (la_witnesses a)))"

definition assessment_to_text :: "loop_assessment \<Rightarrow> string" where
  "assessment_to_text a = ''assessment '' @ id_to_string (la_id a) @ '' outcome='' @
     name_loop_outcome (la_outcome a) @ '' flags='' @ assessment_flags_to_string (la_flags a) @
     '' fence='' @ fence_to_string (la_fence a) @ '' witnesses='' @ dec_digits (length (la_witnesses a)) @
     '' hops='' @ dec_digits (length (la_hops a)) @ '' origin='' @ name_evidence_origin (la_origin a) @ newline @
     concat (map (\<lambda>w. ''  '' @ witness_to_text w @ newline) (la_witnesses a)) @
     ''counters scc_runs='' @ dec_digits (unat (sn_scc_runs (la_counters a))) @
     '' steps='' @ dec_digits (unat (sn_steps_used (la_counters a))) @
     '' cycles='' @ dec_digits (unat (sn_cycles_enumerated (la_counters a))) @
     '' validated='' @ dec_digits (unat (sn_witnesses_validated (la_counters a))) @
     '' rejected='' @ dec_digits (unat (sn_witnesses_rejected (la_counters a))) @ newline @
     ex_to_text (la_explanation a)"

definition finalize :: "loop_assessment \<Rightarrow> loop_assessment" where
  "finalize a = a\<lparr>la_id := content_addressed_id (assessment_digest a)\<rparr>"

section \<open>Candidate selectors\<close>

definition hop_candidates :: "topology \<Rightarrow> hop_record \<Rightarrow> u64 list" where
  "hop_candidates t h =
     (let admitted = (case find_edge t (hr_edge h) of None \<Rightarrow> [] | Some e \<Rightarrow> fe_selectors e)
      in case hr_resolution h of
           Hop_ProvenOpen \<Rightarrow> hr_effective h
         | Hop_UnprovenOpen \<Rightarrow> hr_effective h
         | Hop_Conflicted \<Rightarrow> admitted
         | Hop_Unproven \<Rightarrow> admitted
         | Hop_ProvenClosed \<Rightarrow> []
         | Hop_Unsupported \<Rightarrow> [])"

definition candidate_selectors :: "topology \<Rightarrow> hop_record list \<Rightarrow> u64 list" where
  "candidate_selectors t hops = sort_unique (concat (map (hop_candidates t) hops))"

text \<open>The first thing wrong with a selector scope: the subject and the detail of the reason.\<close>

definition check_scope :: "topology \<Rightarrow> u64 list \<Rightarrow> (string \<times> string) option" where
  "check_scope t scope =
     (if scope = [] then None
      else if \<not> sorted scope \<or> adjacent_dup scope then
        Some (''selector_scope'', txt_selector_scope_must_be_strictly_increasing)
      else case filter (\<lambda>s. find_selector t s = None) scope of
          [] \<Rightarrow> None
        | s # _ \<Rightarrow> Some (id_to_string s, txt_selector_scope_names_a_selector_the_definition))"

definition restrict_candidates :: "u64 list \<Rightarrow> u64 list \<Rightarrow> u64 list" where
  "restrict_candidates scope candidates =
     (if scope = [] then candidates else filter (binary_search scope) candidates)"

definition evidence_flags :: "evidence_ledger \<Rightarrow> hop_record list \<Rightarrow> fence_vector \<Rightarrow> u64 \<Rightarrow> u32" where
  "evidence_flags g hops fence now =
     (if el_observations g = [] then k_assessment_no_evidence_at_all else 0) OR
     (if list_ex (\<lambda>h. hr_resolution h = Hop_Conflicted) hops then k_assessment_conflicts_present else 0) OR
     (if list_ex (\<lambda>h. hr_resolution h = Hop_Unproven) hops then k_assessment_unproven_hops_present else 0) OR
     (if non_exact_count g fence now \<noteq> 0 then k_assessment_stale_evidence_present else 0)"

section \<open>Selector masks\<close>

definition mask_empty :: "u64 list \<Rightarrow> bool" where
  "mask_empty bits \<longleftrightarrow> list_all (\<lambda>word. word = 0) bits"

definition mask_and :: "u64 list \<Rightarrow> u64 list \<Rightarrow> u64 list" where
  "mask_and lhs rhs = map2 (AND) lhs rhs"

definition mask_words :: "nat \<Rightarrow> nat" where
  "mask_words c = (c + 63) div 64"

definition selector_bit :: "nat \<Rightarrow> u64" where
  "selector_bit i = push_bit (i mod 64) 1"

definition mask_has :: "u64 list \<Rightarrow> nat \<Rightarrow> bool" where
  "mask_has bits i \<longleftrightarrow> bits ! (i div 64) AND selector_bit i \<noteq> 0"

definition mask_set :: "nat \<Rightarrow> u64 list \<Rightarrow> u64 list" where
  "mask_set i bits = bits[i div 64 := bits ! (i div 64) OR selector_bit i]"

text \<open>std::map from a value to its last position.\<close>

definition index_map :: "u64 list \<Rightarrow> u64 \<Rightarrow> nat option" where
  "index_map xs x = map_of (rev (zip xs [0..<length xs])) x"

definition build_mask :: "u64 list \<Rightarrow> u64 list \<Rightarrow> u64 list" where
  "build_mask candidates selectors = foldl (\<lambda>bits s. case index_map candidates s of
       None \<Rightarrow> bits | Some i \<Rightarrow> mask_set i bits) (replicate (mask_words (length candidates)) 0) selectors"

record hop_view =
  hv_from :: nat
  hv_to :: nat
  hv_klass :: hop_class
  hv_traversable :: bool
  hv_mask :: "u64 list"

definition hop_view_of :: "topology \<Rightarrow> u64 list \<Rightarrow> hop_record \<Rightarrow> forwarding_edge \<Rightarrow> hop_view" where
  "hop_view_of t candidates rec edge =
     (let blank = \<lparr>hv_from = 0, hv_to = 0, hv_klass = Class_Unproven, hv_traversable = False,
            hv_mask = replicate (mask_words (length candidates)) 0\<rparr>
      in case (index_map (map rr_id (td_resources t)) (fe_from edge),
               index_map (map rr_id (td_resources t)) (fe_to edge)) of
          (Some u, Some v) \<Rightarrow>
            let view = (\<lambda>klass selectors. let bits = build_mask candidates selectors
                  in \<lparr>hv_from = u, hv_to = v, hv_klass = klass, hv_traversable = \<not> mask_empty bits, hv_mask = bits\<rparr>)
            in (case hr_resolution rec of
                 Hop_ProvenOpen \<Rightarrow> view Class_Proven (hr_effective rec)
               | Hop_UnprovenOpen \<Rightarrow> view Class_Unproven (hr_effective rec)
               | Hop_Unproven \<Rightarrow> view Class_Unproven (fe_selectors edge)
               | Hop_Conflicted \<Rightarrow> view Class_Conflicted (fe_selectors edge)
               | Hop_ProvenClosed \<Rightarrow> blank\<lparr>hv_from := u, hv_to := v\<rparr>
               | Hop_Unsupported \<Rightarrow> blank\<lparr>hv_from := u, hv_to := v\<rparr>)
        | _ \<Rightarrow> blank)"

definition hop_views :: "topology \<Rightarrow> u64 list \<Rightarrow> hop_record list \<Rightarrow> hop_view list" where
  "hop_views t candidates hops = map2 (hop_view_of t candidates) hops (td_edges t)"

section \<open>Exact existence\<close>

record existence =
  xs_proven :: bool
  xs_unproven :: bool
  xs_conflict :: bool
  xs_exhausted :: bool
  xs_steps :: u64
  xs_runs :: u64

definition probe_selector :: "nat \<Rightarrow> hop_view list \<Rightarrow> nat \<Rightarrow> cycle_probe" where
  "probe_selector n views i = foldl (\<lambda>p v. if \<not> hv_traversable v \<or> \<not> mask_has (hv_mask v) i then p
       else add_probe_edge (hv_from v) (hv_to v) (hv_klass v) p) (clear_probe (new_probe n)) views"

fun existence_loop :: "limits \<Rightarrow> nat \<Rightarrow> hop_view list \<Rightarrow> nat list \<Rightarrow> existence \<Rightarrow> existence" where
  "existence_loop l n views [] st = st"
| "existence_loop l n views (i # is) st =
     (if xs_exhausted st then st
      else
        let st = st\<lparr>xs_steps := xs_steps st + word_of_nat (length views)\<rparr>; probe = probe_selector n views i
        in if xs_steps st > max_search_steps l then st\<lparr>xs_exhausted := True\<rparr>
           else if cp_edges probe = [] then existence_loop l n views is st
           else
             let st = st\<lparr>xs_runs := xs_runs st + 1\<rparr>
             in if has_cycle Class_Proven probe then existence_loop l n views is (st\<lparr>xs_proven := True\<rparr>)
                else if has_cycle Class_Unproven probe then existence_loop l n views is (st\<lparr>xs_unproven := True\<rparr>)
                else if has_cycle Class_Conflicted probe then existence_loop l n views is (st\<lparr>xs_conflict := True\<rparr>)
                else existence_loop l n views is st)"

definition start_existence :: existence where
  "start_existence = \<lparr>xs_proven = False, xs_unproven = False, xs_conflict = False, xs_exhausted = False,
     xs_steps = 0, xs_runs = 0\<rparr>"

section \<open>Witness enumeration\<close>

record dfs_context =
  dc_topology :: topology
  dc_limits :: limits
  dc_fence :: fence_vector
  dc_origin :: evidence_origin
  dc_candidates :: "u64 list"
  dc_views :: "hop_view list"
  dc_outs :: "nat list list"
  dc_max_depth :: nat

record dfs_frame =
  df_node :: nat
  df_cursor :: nat
  df_edge :: nat
  df_mask :: "u64 list"

record enumeration =
  en_witnesses :: "loop_witness list"
  en_cycles :: u64
  en_steps :: u64
  en_cycles_exhausted :: bool
  en_length_bound :: bool
  en_steps_exhausted :: bool

definition proven_out :: "nat \<Rightarrow> hop_view list \<Rightarrow> nat list list" where
  "proven_out n views = map (\<lambda>u. filter (\<lambda>i. hv_traversable (views ! i) \<and> hv_klass (views ! i) = Class_Proven \<and>
     hv_from (views ! i) = u) [0..<length views]) [0..<n]"

definition outs_of :: "dfs_context \<Rightarrow> nat \<Rightarrow> nat list" where
  "outs_of c u = (if u < length (dc_outs c) then dc_outs c ! u else [])"

definition initial_mask :: "nat \<Rightarrow> u64 list" where
  "initial_mask c =
     (let words = mask_words c; bits = replicate words (- 1)
      in if words \<noteq> 0 \<and> c mod 64 \<noteq> 0 then bits[words - 1 := push_bit (c mod 64) 1 - 1] else bits)"

text \<open>The witness of a closed path: its nodes and edges from the start on, and the common mask.\<close>

definition make_witness :: "dfs_context \<Rightarrow> nat list \<Rightarrow> nat list \<Rightarrow> u64 list \<Rightarrow> loop_witness" where
  "make_witness c nodes edges bits =
     (let t = dc_topology c;
          cycle = map (\<lambda>u. rr_id (td_resources t ! u)) nodes;
          domains = set (map (\<lambda>u. rr_domain (td_resources t ! u)) nodes);
          hops = map (\<lambda>i. fe_id (td_edges t ! i)) edges
      in case canonicalize_cycle_with_hops (cycle, hops) of (cycle, hops) \<Rightarrow>
        \<lparr>lw_id = 0, lw_cycle = cycle, lw_hops = hops,
         lw_selectors = map (\<lambda>i. dc_candidates c ! i) (filter (mask_has bits) [0..<length (dc_candidates c)]),
         lw_fence = dc_fence c, lw_origin = dc_origin c, lw_crosses = card domains > 1,
         lw_evidence_digest = zero_digest,
         lw_note = ex_add R_WitnessRequiresExactGenerations ''witness''
           txt_every_hop_carries_exactly_bound_forwarding_evidence
           (new_explanation (max_explanation_reasons (dc_limits c)))\<rparr>)"

text \<open>The edge under the cursor of a frame, where it leads, and the selectors that survive it.\<close>

definition cursor_edge :: "dfs_context \<Rightarrow> dfs_frame \<Rightarrow> nat" where
  "cursor_edge c f = outs_of c (df_node f) ! df_cursor f"

definition cursor_next :: "dfs_context \<Rightarrow> dfs_frame \<Rightarrow> nat" where
  "cursor_next c f = hv_to (dc_views c ! cursor_edge c f)"

definition cursor_mask :: "dfs_context \<Rightarrow> dfs_frame \<Rightarrow> u64 list" where
  "cursor_mask c f = mask_and (df_mask f) (hv_mask (dc_views c ! cursor_edge c f))"

definition advance :: "dfs_frame \<Rightarrow> dfs_frame" where
  "advance f = f\<lparr>df_cursor := df_cursor f + 1\<rparr>"

definition push_frame :: "dfs_context \<Rightarrow> dfs_frame \<Rightarrow> dfs_frame" where
  "push_frame c f = \<lparr>df_node = cursor_next c f, df_cursor = 0, df_edge = cursor_edge c f, df_mask = cursor_mask c f\<rparr>"

definition count_step :: "enumeration \<Rightarrow> enumeration" where
  "count_step en = en\<lparr>en_steps := en_steps en + 1\<rparr>"

text \<open>A closed path: count the cycle, and keep its witness unless a bound is reached.\<close>

definition record_cycle :: "dfs_context \<Rightarrow> dfs_frame list \<Rightarrow> enumeration \<Rightarrow> enumeration" where
  "record_cycle c stack en =
     (let en = en\<lparr>en_cycles := en_cycles en + 1\<rparr>; f = hd stack;
          w = make_witness c (rev (map df_node stack))
                (rev (map df_edge (butlast stack)) @ [cursor_edge c f]) (cursor_mask c f)
      in if en_cycles en > max_cycles_enumerated (dc_limits c) then en\<lparr>en_cycles_exhausted := True\<rparr>
         else let en = en\<lparr>en_witnesses := en_witnesses en @ [w]\<rparr>
              in if length (en_witnesses en) \<ge> unat (max_witnesses_per_assessment (dc_limits c))
                 then en\<lparr>en_cycles_exhausted := True\<rparr> else en)"

text \<open>The stack, top first; the root frame is the last one and was entered by no edge.\<close>

function dfs_loop :: "dfs_context \<Rightarrow> nat \<Rightarrow> dfs_frame list \<Rightarrow> enumeration \<Rightarrow> enumeration" where
  "dfs_loop c start [] en = en"
| "dfs_loop c start (f # fs) en =
     (if df_cursor f \<ge> length (outs_of c (df_node f)) then dfs_loop c start fs en
      else if en_steps (count_step en) > max_search_steps (dc_limits c) then
        (count_step en)\<lparr>en_steps_exhausted := True\<rparr>
      else if mask_empty (cursor_mask c f) then dfs_loop c start (advance f # fs) (count_step en)
      else if cursor_next c f = start then
        (if en_cycles_exhausted (record_cycle c (f # fs) (count_step en))
         then record_cycle c (f # fs) (count_step en)
         else dfs_loop c start (advance f # fs) (record_cycle c (f # fs) (count_step en)))
      else if cursor_next c f \<le> start \<or> cursor_next c f \<in> df_node ` set (f # fs) then
        dfs_loop c start (advance f # fs) (count_step en)
      else if length (f # fs) \<ge> dc_max_depth c then
        dfs_loop c start (advance f # fs) ((count_step en)\<lparr>en_length_bound := True\<rparr>)
      else dfs_loop c start (push_frame c f # advance f # fs) (count_step en))"
  by pat_completeness auto

text \<open>Termination: a frame at depth \<open>d\<close> weighs its remaining edges times a power that falls with \<open>d\<close>.\<close>

definition out_bound :: "dfs_context \<Rightarrow> nat" where
  "out_bound c = Max (insert 0 (set (map length (dc_outs c))))"

lemma outs_of_bound: "length (outs_of c u) \<le> out_bound c"
  by (auto simp: outs_of_def out_bound_def intro!: Max_ge)

primrec stack_weight :: "dfs_context \<Rightarrow> dfs_frame list \<Rightarrow> nat" where
  "stack_weight c [] = 0"
| "stack_weight c (f # fs) = (length (outs_of c (df_node f)) - df_cursor f + 1) *
     (out_bound c + 2) ^ (dc_max_depth c - length fs) + stack_weight c fs"

lemma weight_advance:
  assumes "df_cursor f < length (outs_of c (df_node f))"
  shows "stack_weight c (advance f # fs) + (out_bound c + 2) ^ (dc_max_depth c - length fs) = stack_weight c (f # fs)"
proof -
  have "length (outs_of c (df_node f)) - df_cursor f + 1 = Suc (length (outs_of c (df_node f)) - Suc (df_cursor f) + 1)"
    using assms by simp
  then show ?thesis by (simp add: advance_def)
qed

lemma weight_advance_less:
  assumes "df_cursor f < length (outs_of c (df_node f))"
  shows "stack_weight c (advance f # fs) < stack_weight c (f # fs)"
proof -
  have "0 < (out_bound c + 2) ^ (dc_max_depth c - length fs)" by simp
  then show ?thesis using weight_advance[OF assms, of fs] by linarith
qed

lemma weight_pop: "stack_weight c fs < stack_weight c (f # fs)"
proof -
  have "0 < (out_bound c + 2) ^ (dc_max_depth c - length fs)" by simp
  then show ?thesis by simp
qed

lemma weight_push:
  assumes "df_cursor f < length (outs_of c (df_node f))" "length (f # fs) < dc_max_depth c"
  shows "stack_weight c (push_frame c f # advance f # fs) < stack_weight c (f # fs)"
proof -
  let ?B = "out_bound c + 2" and ?e = "dc_max_depth c - length (f # fs)"
  have e: "dc_max_depth c - length fs = Suc ?e" using assms(2) by simp
  have "(length (outs_of c (cursor_next c f)) + 1) * ?B ^ ?e < ?B * ?B ^ ?e"
    using outs_of_bound[of c "cursor_next c f"] by (intro mult_strict_right_mono) simp_all
  moreover have "stack_weight c (push_frame c f # advance f # fs) =
      (length (outs_of c (cursor_next c f)) + 1) * ?B ^ ?e + stack_weight c (advance f # fs)"
    by (simp add: push_frame_def del: stack_weight.simps(2)) (simp add: push_frame_def)
  moreover have "stack_weight c (advance f # fs) + ?B * ?B ^ ?e = stack_weight c (f # fs)"
    using weight_advance[OF assms(1), of fs] unfolding e by simp
  ultimately show ?thesis by linarith
qed

termination dfs_loop
proof (relation "measure (\<lambda>(c, start, stack, en). stack_weight c stack)")
qed (simp_all only: wf_measure in_measure prod.case not_le weight_pop weight_advance_less weight_push)

declare dfs_loop.simps [simp del]

definition root_frame :: "dfs_context \<Rightarrow> nat \<Rightarrow> dfs_frame" where
  "root_frame c start = \<lparr>df_node = start, df_cursor = 0, df_edge = 0,
     df_mask = initial_mask (length (dc_candidates c))\<rparr>"

fun enumerate_from :: "dfs_context \<Rightarrow> nat list \<Rightarrow> enumeration \<Rightarrow> enumeration" where
  "enumerate_from c [] en = en"
| "enumerate_from c (start # starts) en =
     (if en_cycles_exhausted en \<or> en_steps_exhausted en then en
      else if outs_of c start = [] then enumerate_from c starts en
      else enumerate_from c starts (dfs_loop c start [root_frame c start] en))"

definition no_enumeration :: enumeration where
  "no_enumeration = \<lparr>en_witnesses = [], en_cycles = 0, en_steps = 0, en_cycles_exhausted = False,
     en_length_bound = False, en_steps_exhausted = False\<rparr>"

definition enumerate_cycles :: "dfs_context \<Rightarrow> enumeration" where
  "enumerate_cycles c = enumerate_from c [0..<length (td_resources (dc_topology c))] no_enumeration"

section \<open>Independent validation\<close>

type_synonym witness_key = "nat \<times> u64 list \<times> u64 list \<times> u64 list \<times> u64 \<times> u64 \<times> u64 \<times> u64 \<times> u64 \<times> u64"

definition witness_key :: "loop_witness \<Rightarrow> witness_key" where
  "witness_key w = (length (lw_cycle w), lw_cycle w, lw_hops w, lw_selectors w, fence_key (lw_fence w))"

fun unique_by :: "('a \<Rightarrow> 'a \<Rightarrow> bool) \<Rightarrow> 'a list \<Rightarrow> 'a list" where
  "unique_by same (x # y # zs) = (if same x y then unique_by same (x # zs) else x # unique_by same (y # zs))"
| "unique_by same xs = xs"

definition canonical_witnesses :: "loop_witness list \<Rightarrow> loop_witness list" where
  "canonical_witnesses ws = unique_by witness_same (sort_key witness_key ws)"

record acceptance =
  ac_accepted :: "loop_witness list"
  ac_cost :: u64
  ac_dropped :: u64
  ac_validated :: u64
  ac_rejected :: u64
  ac_explanation :: explanation

definition k_validation_budget :: u64 where
  "k_validation_budget = 4000000"

definition with_evidence_digest :: "evidence_ledger \<Rightarrow> loop_witness \<Rightarrow> loop_witness" where
  "with_evidence_digest g w = w\<lparr>lw_evidence_digest := observations_digest (contributing_observations w g)\<rparr>"

definition accept_one :: "topology \<Rightarrow> evidence_ledger \<Rightarrow> fence_vector \<Rightarrow> u64 \<Rightarrow> limits \<Rightarrow> acceptance \<Rightarrow>
    loop_witness \<Rightarrow> acceptance" where
  "accept_one t g fence now l ac w =
     (let cost = word_of_nat (hop_count w) * word_of_nat (length (td_edges t) + 1); w = with_evidence_digest g w
      in if ac_accepted ac \<noteq> [] \<and> ac_cost ac + cost > k_validation_budget then
           ac\<lparr>ac_dropped := ac_dropped ac + 1\<rparr>
         else if (case r_value (validate_witness w t g fence now l) of None \<Rightarrow> False | Some v \<Rightarrow> wv_valid v) then
           ac\<lparr>ac_cost := ac_cost ac + cost, ac_validated := ac_validated ac + 1, ac_accepted := ac_accepted ac @ [w]\<rparr>
         else
           ac\<lparr>ac_cost := ac_cost ac + cost, ac_rejected := ac_rejected ac + 1,
              ac_explanation := ex_add R_InternalInvariantViolated ''witness''
                (txt_the_detector_produced_a_witness_the_independent @ witness_to_text w)
                (ac_explanation ac)\<rparr>)"

definition accept_loop :: "topology \<Rightarrow> evidence_ledger \<Rightarrow> fence_vector \<Rightarrow> u64 \<Rightarrow> limits \<Rightarrow> loop_witness list \<Rightarrow>
    acceptance \<Rightarrow> acceptance" where
  "accept_loop t g fence now l ws ac = foldl (accept_one t g fence now l) ac ws"

section \<open>The outcome\<close>

definition conclude :: "existence \<Rightarrow> bool \<Rightarrow> bool \<Rightarrow> loop_assessment \<Rightarrow> loop_assessment" where
  "conclude st steps_exhausted more_possible a =
     (let verdict = (\<lambda>oc code subject detail. a\<lparr>la_outcome := oc,
            la_explanation := ex_add code subject detail (la_explanation a)\<rparr>);
          a = (if xs_proven st \<and> la_witnesses a \<noteq> [] then
                 verdict Loop_LoopConfirmed R_WitnessSuccessfullyValidated ''assessment''
                   txt_a_forwarding_loop_was_proved_and_independently
               else if xs_proven st then
                 (verdict Loop_Indeterminate R_SearchBudgetExhausted ''witnesses''
                   txt_a_proven_cycle_exists_but_no_witness)
                 \<lparr>la_flags := la_flags a OR k_assessment_search_limit_reached\<rparr>
               else if steps_exhausted then
                 verdict Loop_Indeterminate R_SearchBudgetExhausted ''existence''
                   txt_the_proof_budget_was_reached_before_cycle
               else if xs_conflict st then
                 verdict Loop_Conflict R_HopConflictsWithItself ''topology''
                   txt_a_cycle_exists_only_by_traversing_a
               else if xs_unproven st then
                 verdict Loop_Unknown R_CycleRequiresUnprovenHop ''topology''
                   txt_a_cycle_exists_in_the_adjacency_graph
               else
                 verdict Loop_NoLoop R_SearchCompletedExhaustively ''topology''
                   txt_no_cycle_exists_in_the_proven_or)
      in if la_witnesses a \<noteq> [] \<and> more_possible
         then a\<lparr>la_flags := la_flags a OR k_assessment_additional_cycles_possible\<rparr> else a)"

section \<open>The question\<close>

definition blank_assessment :: "fence_vector \<Rightarrow> limits \<Rightarrow> loop_assessment" where
  "blank_assessment fence l = \<lparr>la_id = 0, la_fence = fence, la_outcome = Loop_Invalid, la_flags = k_assessment_none,
     la_witnesses = [], la_hops = [], la_counters = zero_counters,
     la_explanation = new_explanation (max_explanation_reasons l), la_origin = Origin_Synthetic\<rparr>"

definition give_up :: "loop_outcome \<Rightarrow> reason_code \<Rightarrow> string \<Rightarrow> string \<Rightarrow> loop_assessment \<Rightarrow> loop_assessment" where
  "give_up oc code subject detail a = a\<lparr>la_outcome := oc,
     la_explanation := ex_add code subject detail (la_explanation a)\<rparr>"

definition witness_context :: "topology \<Rightarrow> limits \<Rightarrow> fence_vector \<Rightarrow> evidence_origin \<Rightarrow> u64 list \<Rightarrow> hop_view list \<Rightarrow>
    dfs_context" where
  "witness_context t l fence orig candidates views =
     \<lparr>dc_topology = t, dc_limits = l, dc_fence = fence, dc_origin = orig, dc_candidates = candidates,
      dc_views = views, dc_outs = proven_out (length (td_resources t)) views,
      dc_max_depth = min (unat (max_witness_hops l)) (length (td_resources t))\<rparr>"

text \<open>From the existence phase on: the proof per selector, the enumeration it calls for, the witnesses
  retained of it, and their validation.\<close>

definition existence_phase :: "limits \<Rightarrow> topology \<Rightarrow> u64 list \<Rightarrow> hop_record list \<Rightarrow> existence" where
  "existence_phase l t candidates hops = existence_loop l (length (td_resources t)) (hop_views t candidates hops)
     [0..<length candidates] start_existence"

definition enumeration_phase :: "limits \<Rightarrow> topology \<Rightarrow> u64 list \<Rightarrow> loop_assessment \<Rightarrow> existence \<Rightarrow> enumeration" where
  "enumeration_phase l t candidates a st =
     (if xs_proven st \<and> \<not> xs_exhausted st
      then enumerate_cycles (witness_context t l (la_fence a) (la_origin a) candidates (hop_views t candidates (la_hops a)))
      else no_enumeration)"

definition existence_explanation :: "existence \<Rightarrow> explanation \<Rightarrow> explanation" where
  "existence_explanation st e = (if xs_exhausted st then ex_add R_SearchBudgetExhausted ''existence''
     txt_the_per_selector_existence_proof_reached_the e else e)"

definition search_flags :: "existence \<Rightarrow> enumeration \<Rightarrow> bool \<Rightarrow> u32 \<Rightarrow> u32" where
  "search_flags st en truncated flags = flags OR
     (if xs_exhausted st then k_assessment_search_limit_reached else 0) OR
     (if en_cycles_exhausted en \<or> en_length_bound en then k_assessment_search_limit_reached else 0) OR
     (if truncated then k_assessment_search_limit_reached else 0)"

definition search_counters_of :: "existence \<Rightarrow> enumeration \<Rightarrow> acceptance \<Rightarrow> search_counters \<Rightarrow> search_counters" where
  "search_counters_of st en ac counters = counters\<lparr>sn_scc_runs := xs_runs st, sn_edges_examined := xs_steps st,
     sn_steps_used := xs_steps st + en_steps en, sn_steps_exhausted := xs_exhausted st,
     sn_cycles_enumerated := en_cycles en, sn_cycles_exhausted := en_cycles_exhausted en,
     sn_length_bound_reached := en_length_bound en, sn_witnesses_dropped := ac_dropped ac,
     sn_witnesses_validated := ac_validated ac, sn_witnesses_rejected := ac_rejected ac,
     sn_witnesses_retained := word_of_nat (length (ac_accepted ac))\<rparr>"

definition validation_phase :: "limits \<Rightarrow> topology \<Rightarrow> evidence_ledger \<Rightarrow> fence_vector \<Rightarrow> u64 \<Rightarrow> loop_witness list \<Rightarrow>
    explanation \<Rightarrow> acceptance" where
  "validation_phase l t g fence now ws e =
     accept_loop t g fence now l (take (unat (max_witnesses_per_assessment l)) ws)
       \<lparr>ac_accepted = [], ac_cost = 0, ac_dropped = 0, ac_validated = 0, ac_rejected = 0, ac_explanation = e\<rparr>"

definition assess_search :: "limits \<Rightarrow> topology \<Rightarrow> evidence_ledger \<Rightarrow> u64 \<Rightarrow> u64 list \<Rightarrow> loop_assessment \<Rightarrow>
    loop_assessment" where
  "assess_search l t g now candidates a =
     (let st = existence_phase l t candidates (la_hops a);
          en = enumeration_phase l t candidates a st;
          ws = canonical_witnesses (en_witnesses en);
          truncated = (length ws > unat (max_witnesses_per_assessment l));
          ac = validation_phase l t g (la_fence a) now ws (existence_explanation st (la_explanation a))
      in (conclude st (xs_exhausted st \<or> en_steps_exhausted en)
           (en_cycles_exhausted en \<or> truncated \<or> en_length_bound en)
           (a\<lparr>la_flags := search_flags st en truncated (la_flags a), la_witnesses := ac_accepted ac,
              la_counters := search_counters_of st en ac (la_counters a), la_explanation := ac_explanation ac\<rparr>))
         \<lparr>la_origin := ledger_origin g\<rparr>)"

text \<open>The checks between hop resolution and the search.\<close>

definition assess_bounded :: "limits \<Rightarrow> topology \<Rightarrow> evidence_ledger \<Rightarrow> u64 \<Rightarrow> u64 list \<Rightarrow> loop_assessment \<Rightarrow>
    loop_assessment" where
  "assess_bounded l t g now candidates a =
     (if td_edges t = [] \<or> td_resources t = [] then
        (give_up Loop_NoLoop R_SearchCompletedExhaustively ''topology''
          txt_the_definition_contains_no_adjacency_to_traverse a)
        \<lparr>la_flags := la_flags a OR k_assessment_no_evidence_at_all\<rparr>
      else if length candidates > unat (max_candidate_selectors l) then
        (give_up Loop_Indeterminate R_SearchBudgetExhausted ''selectors''
          (''candidate selector count '' @ dec_digits (length candidates) @
           '' exceeds the configured bound; absence of a loop cannot be proved'') a)
        \<lparr>la_flags := la_flags a OR k_assessment_search_limit_reached,
         la_counters := (la_counters a)\<lparr>sn_selectors_exhausted := True\<rparr>\<rparr>
      else
        let a = a\<lparr>la_counters := (la_counters a)\<lparr>sn_selectors_considered := word_of_nat (length candidates)\<rparr>\<rparr>;
            memory_estimate = word_of_nat (length (td_edges t)) * word_of_nat (mask_words (length candidates)) * (8 :: u64)
        in if memory_estimate > push_bit 20 256 then
             (give_up Loop_Indeterminate R_ResourceBudgetExhausted ''selector-mask''
               txt_selector_mask_working_set_would_exceed_the a)
             \<lparr>la_flags := la_flags a OR k_assessment_search_limit_reached\<rparr>
           else assess_search l t g now candidates a)"

definition assess_resolved :: "limits \<Rightarrow> topology \<Rightarrow> evidence_ledger \<Rightarrow> u64 \<Rightarrow> u64 list \<Rightarrow> loop_assessment \<Rightarrow>
    loop_assessment" where
  "assess_resolved l t g now scope a =
     (case check_scope t scope of
        Some (subject, detail) \<Rightarrow> give_up Loop_Invalid R_RequestRejectedStructural subject detail a
      | None \<Rightarrow> assess_bounded l t g now (restrict_candidates scope (candidate_selectors t (la_hops a)))
          (a\<lparr>la_flags := la_flags a OR evidence_flags g (la_hops a) (la_fence a) now\<rparr>))"

definition assess :: "limits \<Rightarrow> detection_request \<Rightarrow> loop_assessment result" where
  "assess l req =
     (case (dr_topology req, dr_ledger req) of
        (Some t, Some g) \<Rightarrow>
          if \<not> limits_are_sane l then failure Oc_Unsupported txt_limit_set_is_not_sane
          else
            let a = blank_assessment (dr_fence req) l
            in if fence_is_zero (dr_fence req) then
                 ok (finalize (give_up Loop_Invalid R_RequestRejectedStructural ''fence''
                   txt_detection_requires_a_fully_populated_fence_vector a))
               else if td_generation t \<noteq> fv_topology (dr_fence req) then
                 ok (finalize (give_up Loop_Stale R_ObservationGenerationMismatch ''topology''
                   (''definition generation '' @ id_to_string (td_generation t) @
                    '' is not the generation the request binds'') a))
               else
                 let resolved = resolve_all g t (dr_fence req) (dr_now req)
                 in (case r_value resolved of
                     None \<Rightarrow> failure (r_outcome resolved) (r_detail resolved)
                   | Some hops \<Rightarrow> ok (finalize (assess_resolved l t g (dr_now req) (dr_scope req) (a\<lparr>la_hops := hops\<rparr>))))
      | _ \<Rightarrow> failure Oc_Invalid txt_a_detection_request_needs_a_topology_and)"

definition revalidate :: "limits \<Rightarrow> loop_witness \<Rightarrow> topology \<Rightarrow> evidence_ledger \<Rightarrow> fence_vector \<Rightarrow> u64 \<Rightarrow>
    witness_validation result" where
  "revalidate l w t g current now = validate_witness w t g current now l"

section \<open>Masks\<close>

lemma mask_has_bit: "mask_has m i \<longleftrightarrow> bit (m ! (i div 64)) (i mod 64)"
  by (simp add: mask_has_def selector_bit_def bit_iff_and_push_bit_not_eq_0)

lemma length_mask_set [simp]: "length (mask_set i m) = length m"
  by (simp add: mask_set_def)

lemma mask_has_set:
  assumes "i div 64 < length m"
  shows "mask_has (mask_set i m) j \<longleftrightarrow> j = i \<or> mask_has m j"
proof (cases "j div 64 = i div 64")
  case True
  have "bit (selector_bit i) (j mod 64) \<longleftrightarrow> j mod 64 = i mod 64"
    by (simp add: selector_bit_def bit_simps)
  moreover have "j mod 64 = i mod 64 \<longleftrightarrow> j = i"
    using True by (metis div_mult_mod_eq)
  ultimately show ?thesis
    using True assms by (auto simp: mask_has_bit mask_set_def bit_or_iff)
next
  case False
  then show ?thesis by (auto simp: mask_has_bit mask_set_def)
qed

lemma mask_has_not_empty:
  assumes "mask_has m i" "i div 64 < length m"
  shows "\<not> mask_empty m"
proof
  assume "mask_empty m"
  then have "m ! (i div 64) = 0" using assms(2) by (simp add: mask_empty_def list_all_length)
  with assms(1) show False by (simp add: mask_has_bit)
qed

lemma index_map_iff:
  assumes "distinct xs"
  shows "index_map xs x = Some i \<longleftrightarrow> i < length xs \<and> xs ! i = x"
proof -
  have d: "distinct (map fst (rev (zip xs [0..<length xs])))" using assms by (simp flip: rev_map)
  have "index_map xs x = Some i \<longleftrightarrow> (x, i) \<in> set (zip xs [0..<length xs])"
    unfolding index_map_def using map_of_eq_Some_iff[OF d] by simp
  also have "\<dots> \<longleftrightarrow> i < length xs \<and> xs ! i = x" by (auto simp: set_zip)
  finally show ?thesis .
qed

lemma index_map_nth: "distinct xs \<Longrightarrow> i < length xs \<Longrightarrow> index_map xs (xs ! i) = Some i"
  by (simp add: index_map_iff)

lemma index_map_None: "index_map xs x = None \<longleftrightarrow> x \<notin> set xs"
proof -
  have "fst ` set (rev (zip xs [0..<length xs])) = set (map fst (zip xs [0..<length xs]))"
    by (simp only: set_rev set_map)
  also have "\<dots> = set xs" by (subst map_fst_zip) simp_all
  finally have "fst ` set (rev (zip xs [0..<length xs])) = set xs" .
  then show ?thesis unfolding index_map_def map_of_eq_None_iff by simp
qed

lemma mask_words_bound: "i < c \<Longrightarrow> i div 64 < mask_words c"
  unfolding mask_words_def by linarith

lemma build_mask_length [simp]: "length (build_mask cands ss) = mask_words (length cands)"
proof -
  have "length (foldl (\<lambda>m s. case index_map cands s of None \<Rightarrow> m | Some i \<Rightarrow> mask_set i m) m ss) = length m" for m
    by (induction ss arbitrary: m) (auto split: option.split)
  then show ?thesis by (simp add: build_mask_def)
qed

text \<open>The bit of a candidate is set exactly when the selector list names the candidate.\<close>

lemma build_mask_has:
  assumes "distinct cands" "c < length cands"
  shows "mask_has (build_mask cands ss) c \<longleftrightarrow> cands ! c \<in> set ss"
proof -
  let ?f = "\<lambda>m s. case index_map cands s of None \<Rightarrow> m | Some i \<Rightarrow> mask_set i m"
  have "mask_has (foldl ?f m ss) c \<longleftrightarrow> mask_has m c \<or> cands ! c \<in> set ss"
    if "length m = mask_words (length cands)" for m
    using that
  proof (induction ss arbitrary: m)
    case (Cons s ss)
    show ?case
    proof (cases "index_map cands s")
      case None
      then have "s \<notin> set cands" by (simp add: index_map_None)
      with None Cons assms(2) show ?thesis by auto
    next
      case (Some i)
      then have i: "i < length cands" "cands ! i = s" using index_map_iff[OF assms(1)] by auto
      then have "c = i \<longleftrightarrow> cands ! c = s" using nth_eq_iff_index_eq[OF assms(1,2) i(1)] i(2) by simp
      with Some Cons i mask_words_bound[OF i(1)] show ?thesis by (auto simp: mask_has_set)
    qed
  qed simp
  moreover have "\<not> mask_has (replicate (mask_words (length cands)) 0) c"
    using mask_words_bound[OF assms(2)] by (simp add: mask_has_bit)
  ultimately show ?thesis by (simp add: build_mask_def)
qed

section \<open>The graph behind a question\<close>

text \<open>Whether a hop might carry a selector, and the hops proven to.\<close>

definition may_carry :: "hop_record \<Rightarrow> forwarding_edge \<Rightarrow> u64 \<Rightarrow> bool" where
  "may_carry h e s \<longleftrightarrow> (case hr_resolution h of
       Hop_ProvenOpen \<Rightarrow> s \<in> set (hr_effective h) | Hop_UnprovenOpen \<Rightarrow> s \<in> set (hr_effective h)
     | Hop_Unproven \<Rightarrow> s \<in> set (fe_selectors e) | Hop_Conflicted \<Rightarrow> s \<in> set (fe_selectors e)
     | Hop_ProvenClosed \<Rightarrow> False | Hop_Unsupported \<Rightarrow> False)"

definition hop_class_of :: "hop_record \<Rightarrow> hop_class" where
  "hop_class_of h = (case hr_resolution h of Hop_ProvenOpen \<Rightarrow> Class_Proven | Hop_Conflicted \<Rightarrow> Class_Conflicted
     | _ \<Rightarrow> Class_Unproven)"

text \<open>The adjacency, on resource identities, of the hops up to a class that might carry a selector.\<close>

definition carry_rel :: "hop_class \<Rightarrow> topology \<Rightarrow> hop_record list \<Rightarrow> u64 \<Rightarrow> (u64 \<times> u64) set" where
  "carry_rel k t hops s = {(fe_from (td_edges t ! i), fe_to (td_edges t ! i)) | i.
     i < length (td_edges t) \<and> may_carry (hops ! i) (td_edges t ! i) s \<and> class_raw (hop_class_of (hops ! i)) \<le> class_raw k}"

lemma trancl_map:
  assumes "\<And>x y. (x, y) \<in> R \<Longrightarrow> (f x, f y) \<in> S" "(x, y) \<in> R\<^sup>+"
  shows "(f x, f y) \<in> S\<^sup>+"
  using assms(2) by (induction rule: trancl_induct) (auto dest: assms(1) intro: trancl_into_trancl)

definition node_of :: "topology \<Rightarrow> u64 \<Rightarrow> nat" where
  "node_of t r = the (index_map (map rr_id (td_resources t)) r)"

lemma distinct_resource_ids: "topology_ok t \<Longrightarrow> distinct (map rr_id (td_resources t))"
  by (simp add: topology_ok_def strict_sorted_iff)

lemma edge_nodes:
  assumes "topology_ok t" "e \<in> set (td_edges t)"
  shows "index_map (map rr_id (td_resources t)) (fe_from e) = Some (node_of t (fe_from e))"
    "index_map (map rr_id (td_resources t)) (fe_to e) = Some (node_of t (fe_to e))"
    "node_of t (fe_from e) < length (td_resources t)" "node_of t (fe_to e) < length (td_resources t)"
    "rr_id (td_resources t ! node_of t (fe_from e)) = fe_from e"
    "rr_id (td_resources t ! node_of t (fe_to e)) = fe_to e"
proof -
  obtain r r' where "find_sorted rr_id (td_resources t) (fe_from e) = Some r"
      "find_sorted rr_id (td_resources t) (fe_to e) = Some r'"
    using assms by (auto simp: topology_ok_def edge_ok_def)
  then have "fe_from e \<in> set (map rr_id (td_resources t))" "fe_to e \<in> set (map rr_id (td_resources t))"
    using find_sorted_SomeD[of rr_id "td_resources t" "fe_from e" r]
      find_sorted_SomeD[of rr_id "td_resources t" "fe_to e" r'] by (auto intro: rev_image_eqI)
  then have n: "index_map (map rr_id (td_resources t)) (fe_from e) \<noteq> None"
      "index_map (map rr_id (td_resources t)) (fe_to e) \<noteq> None"
    by (simp_all only: index_map_None not_not)
  then show i: "index_map (map rr_id (td_resources t)) (fe_from e) = Some (node_of t (fe_from e))"
    "index_map (map rr_id (td_resources t)) (fe_to e) = Some (node_of t (fe_to e))"
    by (auto simp: node_of_def)
  show "node_of t (fe_from e) < length (td_resources t)" "node_of t (fe_to e) < length (td_resources t)"
    "rr_id (td_resources t ! node_of t (fe_from e)) = fe_from e"
    "rr_id (td_resources t ! node_of t (fe_to e)) = fe_to e"
    using i[THEN index_map_iff[OF distinct_resource_ids[OF assms(1)], THEN iffD1]] by auto
qed

lemma hop_view_spec:
  assumes "topology_ok t" "e \<in> set (td_edges t)" "distinct cands" "c < length cands"
    and v_def: "v = hop_view_of t cands h e"
  shows "hv_traversable v \<and> mask_has (hv_mask v) c \<longleftrightarrow> may_carry h e (cands ! c)"
    "hv_from v = node_of t (fe_from e)" "hv_to v = node_of t (fe_to e)"
    "hv_traversable v \<Longrightarrow> hv_klass v = hop_class_of h"
proof -
  have ne: "mask_has (build_mask cands ss) c \<Longrightarrow> \<not> mask_empty (build_mask cands ss)" for ss
    using mask_has_not_empty[of "build_mask cands ss" c] mask_words_bound[OF assms(4)] by simp
  show "hv_traversable v \<and> mask_has (hv_mask v) c \<longleftrightarrow> may_carry h e (cands ! c)"
    unfolding v_def hop_view_of_def Let_def may_carry_def edge_nodes[OF assms(1,2)]
    using ne build_mask_has[OF assms(3,4)] by (cases "hr_resolution h") auto
  show "hv_from v = node_of t (fe_from e)" "hv_to v = node_of t (fe_to e)"
    "hv_traversable v \<Longrightarrow> hv_klass v = hop_class_of h"
    unfolding v_def hop_view_of_def Let_def hop_class_of_def edge_nodes[OF assms(1,2)]
    by (cases "hr_resolution h"; simp)+
qed

lemma probe_selector_edges:
  "cp_edges (probe_selector n views i) = map (\<lambda>v. \<lparr>pe_from = hv_from v, pe_to = hv_to v, pe_klass = hv_klass v\<rparr>)
     (filter (\<lambda>v. hv_traversable v \<and> mask_has (hv_mask v) i) views)"
  "cp_node_count (probe_selector n views i) = n"
proof -
  have "cp_edges (foldl (\<lambda>p v. if \<not> hv_traversable v \<or> \<not> mask_has (hv_mask v) i then p
       else add_probe_edge (hv_from v) (hv_to v) (hv_klass v) p) p views) = cp_edges p @
       map (\<lambda>v. \<lparr>pe_from = hv_from v, pe_to = hv_to v, pe_klass = hv_klass v\<rparr>)
         (filter (\<lambda>v. hv_traversable v \<and> mask_has (hv_mask v) i) views) \<and>
     cp_node_count (foldl (\<lambda>p v. if \<not> hv_traversable v \<or> \<not> mask_has (hv_mask v) i then p
       else add_probe_edge (hv_from v) (hv_to v) (hv_klass v) p) p views) = cp_node_count p" for p
    by (induction views arbitrary: p) (auto simp: add_probe_edge_def)
  then show "cp_edges (probe_selector n views i) = map (\<lambda>v. \<lparr>pe_from = hv_from v, pe_to = hv_to v, pe_klass = hv_klass v\<rparr>)
     (filter (\<lambda>v. hv_traversable v \<and> mask_has (hv_mask v) i) views)"
    "cp_node_count (probe_selector n views i) = n"
    by (simp_all add: probe_selector_def clear_probe_def new_probe_def)
qed

text \<open>The probe of a candidate, on node numbers, is the graph of the candidate, on identities.\<close>

lemma probe_rel:
  assumes t: "topology_ok t" and c: "distinct cands" "c < length cands" and len: "length hops = length (td_edges t)"
  shows "edge_rel (usable_edges k (cp_edges (probe_selector n (hop_views t cands hops) c))) =
    (\<lambda>(u, v). (node_of t u, node_of t v)) ` carry_rel k t hops (cands ! c)"
proof -
  let ?views = "hop_views t cands hops"
  have nth: "?views ! i = hop_view_of t cands (hops ! i) (td_edges t ! i)" if "i < length (td_edges t)" for i
    using that len by (simp add: hop_views_def)
  have lv: "length ?views = length (td_edges t)" using len by (simp add: hop_views_def)
  have ex: "(\<exists>v \<in> set ?views. P v) \<longleftrightarrow> (\<exists>i < length (td_edges t). P (?views ! i))" for P
    by (metis in_set_conv_nth lv)
  have spec: "hv_traversable (?views ! i) \<and> mask_has (hv_mask (?views ! i)) c \<longleftrightarrow>
        may_carry (hops ! i) (td_edges t ! i) (cands ! c)"
      "hv_from (?views ! i) = node_of t (fe_from (td_edges t ! i))"
      "hv_to (?views ! i) = node_of t (fe_to (td_edges t ! i))"
      "hv_traversable (?views ! i) \<Longrightarrow> hv_klass (?views ! i) = hop_class_of (hops ! i)"
    if "i < length (td_edges t)" for i
    using hop_view_spec[OF t nth_mem[OF that] c nth[OF that]] by blast+
  have "(a, b) \<in> edge_rel (usable_edges k (cp_edges (probe_selector n ?views c))) \<longleftrightarrow>
    (a, b) \<in> (\<lambda>(u, v). (node_of t u, node_of t v)) ` carry_rel k t hops (cands ! c)" for a b
  proof -
  have "(a, b) \<in> edge_rel (usable_edges k (cp_edges (probe_selector n ?views c))) \<longleftrightarrow>
    (\<exists>i < length (td_edges t). hv_traversable (?views ! i) \<and> mask_has (hv_mask (?views ! i)) c \<and>
       class_raw (hv_klass (?views ! i)) \<le> class_raw k \<and> a = hv_from (?views ! i) \<and> b = hv_to (?views ! i))"
    unfolding ex[of "\<lambda>v. hv_traversable v \<and> mask_has (hv_mask v) c \<and> class_raw (hv_klass v) \<le> class_raw k \<and>
        a = hv_from v \<and> b = hv_to v", symmetric]
    by (force simp: edge_rel_def usable_edges_def probe_selector_edges)
  also have "\<dots> \<longleftrightarrow> (\<exists>i < length (td_edges t). may_carry (hops ! i) (td_edges t ! i) (cands ! c) \<and>
       class_raw (hop_class_of (hops ! i)) \<le> class_raw k \<and> a = node_of t (fe_from (td_edges t ! i)) \<and>
       b = node_of t (fe_to (td_edges t ! i)))"
    using spec by metis
  also have "\<dots> \<longleftrightarrow> (a, b) \<in> (\<lambda>(u, v). (node_of t u, node_of t v)) ` carry_rel k t hops (cands ! c)"
    by (auto simp: carry_rel_def image_iff)
  finally show ?thesis .
  qed
  then show ?thesis by auto
qed

text \<open>A cycle of the graph of a candidate is found by its probe, and conversely.\<close>

lemma probe_cycle_iff:
  assumes t: "topology_ok t" and c: "distinct cands" "c < length cands" and len: "length hops = length (td_edges t)"
  shows "has_cycle k (probe_selector (length (td_resources t)) (hop_views t cands hops) c) \<longleftrightarrow>
    \<not> acyclic (carry_rel k t hops (cands ! c))"
proof -
  let ?p = "probe_selector (length (td_resources t)) (hop_views t cands hops) c"
  let ?R = "carry_rel k t hops (cands ! c)"
  let ?E = "edge_rel (usable_edges k (cp_edges ?p))"
  note rel = probe_rel[OF t c len]
  have range: "edges_in_range (cp_node_count ?p) (cp_edges ?p)"
    unfolding edges_in_range_def probe_selector_edges(2)
  proof
    fix e assume e: "e \<in> set (cp_edges ?p)"
    have "class_raw (pe_klass e) \<le> class_raw Class_Conflicted" by (cases "pe_klass e") (simp_all add: class_raw_def)
    with e have "(pe_from e, pe_to e) \<in> edge_rel (usable_edges Class_Conflicted (cp_edges ?p))"
      by (auto simp: edge_rel_def usable_edges_def)
    then obtain i where "i < length (td_edges t)" "pe_from e = node_of t (fe_from (td_edges t ! i))"
        "pe_to e = node_of t (fe_to (td_edges t ! i))"
      unfolding rel by (auto simp: carry_rel_def)
    then show "pe_from e < length (td_resources t) \<and> pe_to e < length (td_resources t)"
      using edge_nodes(3,4)[OF t, of "td_edges t ! i"] by simp
  qed
  have retract: "rr_id (td_resources t ! node_of t u) = u \<and> rr_id (td_resources t ! node_of t v) = v" if "(u, v) \<in> ?R" for u v
    using that edge_nodes(5,6)[OF t] by (auto simp: carry_rel_def)
  have "(\<exists>v. (v, v) \<in> ?E\<^sup>+) \<longleftrightarrow> (\<exists>r. (r, r) \<in> ?R\<^sup>+)"
  proof
    assume "\<exists>v. (v, v) \<in> ?E\<^sup>+"
    then obtain v where v: "(v, v) \<in> ?E\<^sup>+" by blast
    have "(rr_id (td_resources t ! a), rr_id (td_resources t ! b)) \<in> ?R" if "(a, b) \<in> ?E" for a b
      using that retract unfolding rel by auto
    from trancl_map[where f = "\<lambda>a. rr_id (td_resources t ! a)", OF this v] show "\<exists>r. (r, r) \<in> ?R\<^sup>+" by blast
  next
    assume "\<exists>r. (r, r) \<in> ?R\<^sup>+"
    then obtain r where r: "(r, r) \<in> ?R\<^sup>+" by blast
    have "(node_of t a, node_of t b) \<in> ?E" if "(a, b) \<in> ?R" for a b
      using that unfolding rel by auto
    from trancl_map[where f = "node_of t", OF this r] show "\<exists>v. (v, v) \<in> ?E\<^sup>+" by blast
  qed
  then show ?thesis unfolding has_cycle_iff[OF range] acyclic_def by blast
qed

section \<open>The existence phase\<close>

lemma has_cycle_no_edges: "cp_edges p = [] \<Longrightarrow> \<not> has_cycle k p"
  by (simp add: has_cycle_def usable_edges_def)

lemma existence_loop_spec:
  assumes "\<not> xs_exhausted (existence_loop l n views is st)" "\<not> xs_exhausted st"
  defines "P \<equiv> \<lambda>k i. has_cycle k (probe_selector n views i)"
  shows "xs_proven (existence_loop l n views is st) \<longleftrightarrow> xs_proven st \<or> (\<exists>i \<in> set is. P Class_Proven i)"
    "xs_unproven (existence_loop l n views is st) \<longleftrightarrow> xs_unproven st \<or>
       (\<exists>i \<in> set is. \<not> P Class_Proven i \<and> P Class_Unproven i)"
    "xs_conflict (existence_loop l n views is st) \<longleftrightarrow> xs_conflict st \<or>
       (\<exists>i \<in> set is. \<not> P Class_Proven i \<and> \<not> P Class_Unproven i \<and> P Class_Conflicted i)"
proof -
  have "(xs_proven (existence_loop l n views is st) \<longleftrightarrow> xs_proven st \<or> (\<exists>i \<in> set is. P Class_Proven i)) \<and>
    (xs_unproven (existence_loop l n views is st) \<longleftrightarrow> xs_unproven st \<or>
       (\<exists>i \<in> set is. \<not> P Class_Proven i \<and> P Class_Unproven i)) \<and>
    (xs_conflict (existence_loop l n views is st) \<longleftrightarrow> xs_conflict st \<or>
       (\<exists>i \<in> set is. \<not> P Class_Proven i \<and> \<not> P Class_Unproven i \<and> P Class_Conflicted i))"
    using assms(1,2)
  proof (induction "is" arbitrary: st)
    case (Cons i "is")
    let ?st = "st\<lparr>xs_steps := xs_steps st + word_of_nat (length views)\<rparr>" and ?p = "probe_selector n views i"
    let ?sr = "?st\<lparr>xs_runs := xs_runs ?st + 1\<rparr>"
    have steps: "\<not> xs_steps ?st > max_search_steps l"
      using Cons.prems by (auto simp: Let_def)
    consider "cp_edges ?p = []" | "cp_edges ?p \<noteq> []" "has_cycle Class_Proven ?p"
      | "cp_edges ?p \<noteq> []" "\<not> has_cycle Class_Proven ?p" "has_cycle Class_Unproven ?p"
      | "cp_edges ?p \<noteq> []" "\<not> has_cycle Class_Proven ?p" "\<not> has_cycle Class_Unproven ?p" "has_cycle Class_Conflicted ?p"
      | "cp_edges ?p \<noteq> []" "\<not> has_cycle Class_Proven ?p" "\<not> has_cycle Class_Unproven ?p" "\<not> has_cycle Class_Conflicted ?p"
      by blast
    then show ?case
    proof cases
      case 1
      then show ?thesis
        using Cons.IH[of ?st] Cons.prems steps has_cycle_no_edges[OF 1] by (simp add: Let_def P_def)
    next
      case 2
      then show ?thesis using Cons.IH[of "?sr\<lparr>xs_proven := True\<rparr>"] Cons.prems steps by (simp add: Let_def P_def)
    next
      case 3
      then show ?thesis using Cons.IH[of "?sr\<lparr>xs_unproven := True\<rparr>"] Cons.prems steps by (simp add: Let_def P_def)
    next
      case 4
      then show ?thesis using Cons.IH[of "?sr\<lparr>xs_conflict := True\<rparr>"] Cons.prems steps by (simp add: Let_def P_def)
    next
      case 5
      then show ?thesis using Cons.IH[of ?sr] Cons.prems steps by (simp add: Let_def P_def)
    qed
  qed simp
  then show "xs_proven (existence_loop l n views is st) \<longleftrightarrow> xs_proven st \<or> (\<exists>i \<in> set is. P Class_Proven i)"
    "xs_unproven (existence_loop l n views is st) \<longleftrightarrow> xs_unproven st \<or>
       (\<exists>i \<in> set is. \<not> P Class_Proven i \<and> P Class_Unproven i)"
    "xs_conflict (existence_loop l n views is st) \<longleftrightarrow> xs_conflict st \<or>
       (\<exists>i \<in> set is. \<not> P Class_Proven i \<and> \<not> P Class_Unproven i \<and> P Class_Conflicted i)"
    by blast+
qed

section \<open>Candidates\<close>

lemma in_scope_candidate:
  assumes t: "topology_ok t" "distinct (map fe_id (td_edges t))" and scope: "check_scope t scope = None"
    and i: "i < length (td_edges t)" "length hops = length (td_edges t)" "hr_edge (hops ! i) = fe_id (td_edges t ! i)"
    and s: "may_carry (hops ! i) (td_edges t ! i) s" "scope = [] \<or> s \<in> set scope"
  shows "s \<in> set (restrict_candidates scope (candidate_selectors t hops))"
proof -
  have "find_edge t (fe_id (td_edges t ! i)) = Some (td_edges t ! i)"
    using find_edge_iff[OF t] i(1) by simp
  then have "s \<in> set (hop_candidates t (hops ! i))"
    using s(1) i(3) by (cases "hr_resolution (hops ! i)") (simp_all add: hop_candidates_def may_carry_def)
  then have "s \<in> set (candidate_selectors t hops)"
    using i(1,2) by (auto simp: candidate_selectors_def intro!: bexI[of _ "hops ! i"])
  moreover have "scope \<noteq> [] \<Longrightarrow> sorted scope"
    using scope by (auto simp: check_scope_def split: if_splits)
  ultimately show ?thesis using s(2) by (auto simp: restrict_candidates_def binary_search_iff)
qed

lemma candidates_in_scope:
  assumes "check_scope t scope = None" "s \<in> set (restrict_candidates scope cands)"
  shows "scope = [] \<or> s \<in> set scope"
  using assms by (auto simp: restrict_candidates_def check_scope_def binary_search_iff split: if_splits)

lemma candidates_distinct: "distinct (restrict_candidates scope (candidate_selectors t hops))"
proof -
  have "distinct (candidate_selectors t hops)"
    unfolding candidate_selectors_def using sort_unique_strict strict_sorted_iff by blast
  then show ?thesis by (simp add: restrict_candidates_def)
qed

section \<open>The outcomes\<close>

lemma conclude_fields:
  "la_outcome (conclude st ex mp a) =
     (if xs_proven st then (if la_witnesses a \<noteq> [] then Loop_LoopConfirmed else Loop_Indeterminate)
      else if ex then Loop_Indeterminate else if xs_conflict st then Loop_Conflict
      else if xs_unproven st then Loop_Unknown else Loop_NoLoop)"
  "la_witnesses (conclude st ex mp a) = la_witnesses a" "la_hops (conclude st ex mp a) = la_hops a"
  "la_fence (conclude st ex mp a) = la_fence a"
  by (simp_all add: conclude_def Let_def)

text \<open>What the search reports, for each class of hops: which in-scope selectors have a cycle.\<close>

definition cycle_at :: "hop_class \<Rightarrow> topology \<Rightarrow> hop_record list \<Rightarrow> u64 list \<Rightarrow> bool" where
  "cycle_at k t hops ss \<longleftrightarrow> (\<exists>s \<in> set ss. \<not> acyclic (carry_rel k t hops s))"

lemma assess_search_form:
  obtains st en ac e where "st = existence_phase l t cands (la_hops a)" "en = enumeration_phase l t cands a st"
    "ac = validation_phase l t g (la_fence a) now (canonical_witnesses (en_witnesses en)) e"
    "la_outcome (assess_search l t g now cands a) =
       (if xs_proven st then (if ac_accepted ac \<noteq> [] then Loop_LoopConfirmed else Loop_Indeterminate)
        else if xs_exhausted st \<or> en_steps_exhausted en then Loop_Indeterminate
        else if xs_conflict st then Loop_Conflict else if xs_unproven st then Loop_Unknown else Loop_NoLoop)"
    "la_witnesses (assess_search l t g now cands a) = ac_accepted ac"
    "la_hops (assess_search l t g now cands a) = la_hops a" "la_fence (assess_search l t g now cands a) = la_fence a"
proof -
  define st where "st = existence_phase l t cands (la_hops a)"
  define en where "en = enumeration_phase l t cands a st"
  define ac where "ac = validation_phase l t g (la_fence a) now (canonical_witnesses (en_witnesses en))
     (existence_explanation st (la_explanation a))"
  have f: "assess_search l t g now cands a = (conclude st (xs_exhausted st \<or> en_steps_exhausted en)
     (en_cycles_exhausted en \<or> length (canonical_witnesses (en_witnesses en)) > unat (max_witnesses_per_assessment l) \<or>
        en_length_bound en)
     (a\<lparr>la_flags := search_flags st en (length (canonical_witnesses (en_witnesses en)) >
           unat (max_witnesses_per_assessment l)) (la_flags a), la_witnesses := ac_accepted ac,
        la_counters := search_counters_of st en ac (la_counters a), la_explanation := ac_explanation ac\<rparr>))
       \<lparr>la_origin := ledger_origin g\<rparr>"
    unfolding assess_search_def Let_def st_def[symmetric] en_def[symmetric] ac_def[symmetric] ..
  show thesis
    by (rule that[OF st_def en_def ac_def]) (simp_all add: f conclude_fields)
qed

lemma assess_search_fields:
  "la_hops (assess_search l t g now cands a) = la_hops a" "la_fence (assess_search l t g now cands a) = la_fence a"
  by (rule assess_search_form[of l t cands a g now], assumption)+

lemma carry_rel_mono: "class_raw j \<le> class_raw k \<Longrightarrow> carry_rel j t hops s \<subseteq> carry_rel k t hops s"
  by (auto simp: carry_rel_def)

lemma acyclic_mono: "carry_rel j t hops s \<subseteq> carry_rel k t hops s \<Longrightarrow> acyclic (carry_rel k t hops s) \<Longrightarrow>
    acyclic (carry_rel j t hops s)"
  by (rule acyclic_subset)

lemma cycle_at_index:
  "cycle_at k t hops cs \<longleftrightarrow> (\<exists>i \<in> set [0..<length cs]. \<not> acyclic (carry_rel k t hops (cs ! i)))"
  unfolding cycle_at_def by (force simp: set_conv_nth[of cs])

lemma assess_search_outcome:
  assumes t: "topology_ok t" and c: "distinct cands" and len: "length (la_hops a) = length (td_edges t)"
    and oc: "la_outcome (assess_search l t g now cands a) = oc" "oc \<in> {Loop_NoLoop, Loop_Unknown, Loop_Conflict}"
  shows "\<not> cycle_at Class_Proven t (la_hops a) cands"
    "oc = Loop_NoLoop \<Longrightarrow> \<not> cycle_at Class_Conflicted t (la_hops a) cands"
    "oc = Loop_Unknown \<Longrightarrow> cycle_at Class_Unproven t (la_hops a) cands"
    "oc = Loop_Conflict \<Longrightarrow> cycle_at Class_Conflicted t (la_hops a) cands"
    "oc = Loop_Conflict \<Longrightarrow> \<exists>s. acyclic (carry_rel Class_Unproven t (la_hops a) s) \<and>
       \<not> acyclic (carry_rel Class_Conflicted t (la_hops a) s)"
proof -
  let ?n = "length (td_resources t)" and ?views = "hop_views t cands (la_hops a)"
  let ?st = "existence_phase l t cands (la_hops a)"
  have st: "\<not> xs_exhausted ?st" "\<not> xs_proven ?st"
      "oc = Loop_NoLoop \<longleftrightarrow> \<not> xs_conflict ?st \<and> \<not> xs_unproven ?st" "oc = Loop_Conflict \<longleftrightarrow> xs_conflict ?st"
      "oc = Loop_Unknown \<longleftrightarrow> \<not> xs_conflict ?st \<and> xs_unproven ?st"
    using oc by (rule_tac assess_search_form[of l t cands a g now]; force split: if_splits)+
  have P: "has_cycle k (probe_selector ?n ?views i) \<longleftrightarrow> \<not> acyclic (carry_rel k t (la_hops a) (cands ! i))"
    if "i \<in> set [0..<length cands]" for i k
    using probe_cycle_iff[OF t c _ len] that by simp
  note spec = existence_loop_spec[OF st(1)[unfolded existence_phase_def], folded existence_phase_def]
  have none: "acyclic (carry_rel Class_Proven t (la_hops a) (cands ! i))" if "i \<in> set [0..<length cands]" for i
  proof -
    have "\<not> (\<exists>i \<in> set [0..<length cands]. has_cycle Class_Proven (probe_selector ?n ?views i))"
      using spec(1) st(2) by (simp add: start_existence_def)
    then show ?thesis using P[OF that] that by blast
  qed
  show "\<not> cycle_at Class_Proven t (la_hops a) cands"
    unfolding cycle_at_index using none by blast
  show "\<not> cycle_at Class_Conflicted t (la_hops a) cands" if "oc = Loop_NoLoop"
    unfolding cycle_at_index
    using spec(2,3) st(3) that P none by (auto simp: start_existence_def)
  show "cycle_at Class_Unproven t (la_hops a) cands" if "oc = Loop_Unknown"
    unfolding cycle_at_index
    using spec(2) st(5) that P by (auto simp: start_existence_def)
  show "cycle_at Class_Conflicted t (la_hops a) cands" if "oc = Loop_Conflict"
    unfolding cycle_at_index
    using spec(3) st(4) that P by (auto simp: start_existence_def)
  show "\<exists>s. acyclic (carry_rel Class_Unproven t (la_hops a) s) \<and>
      \<not> acyclic (carry_rel Class_Conflicted t (la_hops a) s)" if "oc = Loop_Conflict"
    using spec(3) st(4) that P by (auto simp: start_existence_def)
qed

section \<open>Accepted witnesses\<close>

lemma accept_one_cases:
  obtains "ac_accepted (accept_one t g fence now l ac w) = ac_accepted ac"
  | v where "validate_witness (with_evidence_digest g w) t g fence now l = ok v" "wv_valid v"
      "ac_accepted (accept_one t g fence now l ac w) = ac_accepted ac @ [with_evidence_digest g w]"
proof -
  obtain v where v: "validate_witness (with_evidence_digest g w) t g fence now l = ok v"
    using validate_witness_ok by blast
  have "ac_accepted (accept_one t g fence now l ac w) = ac_accepted ac \<or>
    wv_valid v \<and> ac_accepted (accept_one t g fence now l ac w) = ac_accepted ac @ [with_evidence_digest g w]"
    unfolding accept_one_def Let_def v by simp
  with v that show thesis by blast
qed

lemma accept_loop_sound:
  assumes t: "topology_ok t" and g: "ledger_ok g"
    and "\<forall>w \<in> set (ac_accepted ac). loop_at t g fence now (lw_cycle w) (lw_hops w) (lw_selectors w) \<and>
      canonical_witness t g fence l w"
  shows "\<forall>w \<in> set (ac_accepted (accept_loop t g fence now l ws ac)).
    loop_at t g fence now (lw_cycle w) (lw_hops w) (lw_selectors w) \<and> canonical_witness t g fence l w"
  using assms(3) unfolding accept_loop_def
proof (induction ws arbitrary: ac)
  case (Cons w ws)
  show ?case
  proof (rule accept_one_cases[of t g fence now l ac w])
    assume "ac_accepted (accept_one t g fence now l ac w) = ac_accepted ac"
    then show ?thesis using Cons.IH[of "accept_one t g fence now l ac w"] Cons.prems by simp
  next
    fix v
    assume v: "validate_witness (with_evidence_digest g w) t g fence now l = ok v" "wv_valid v"
      "ac_accepted (accept_one t g fence now l ac w) = ac_accepted ac @ [with_evidence_digest g w]"
    from validate_witness_valid_iff[OF t g v(1)] v(2)
    have "loop_at t g fence now (lw_cycle (with_evidence_digest g w)) (lw_hops (with_evidence_digest g w))
        (lw_selectors (with_evidence_digest g w)) \<and> canonical_witness t g fence l (with_evidence_digest g w)" by blast
    with Cons.prems have "\<forall>w \<in> set (ac_accepted (accept_one t g fence now l ac w)).
        loop_at t g fence now (lw_cycle w) (lw_hops w) (lw_selectors w) \<and> canonical_witness t g fence l w"
      unfolding v(3) by auto
    from Cons.IH[OF this] show ?thesis by (simp only: foldl_Cons)
  qed
qed simp

lemma assess_search_witnesses:
  assumes "topology_ok t" "ledger_ok g"
  shows "\<forall>w \<in> set (la_witnesses (assess_search l t g now cands a)).
    loop_at t g (la_fence a) now (lw_cycle w) (lw_hops w) (lw_selectors w) \<and> canonical_witness t g (la_fence a) l w"
proof (rule assess_search_form[of l t cands a g now])
  fix st en ac e
  assume ac: "ac = validation_phase l t g (la_fence a) now (canonical_witnesses (en_witnesses en)) e"
    and w: "la_witnesses (assess_search l t g now cands a) = ac_accepted ac"
  show ?thesis unfolding w ac validation_phase_def by (rule accept_loop_sound[OF assms]) simp
qed

lemma assess_search_confirmed:
  "la_outcome (assess_search l t g now cands a) = Loop_LoopConfirmed \<longleftrightarrow>
     la_witnesses (assess_search l t g now cands a) \<noteq> []"
proof (rule assess_search_form[of l t cands a g now])
  fix st en ac e
  assume en: "en = enumeration_phase l t cands a st"
    and ac: "ac = validation_phase l t g (la_fence a) now (canonical_witnesses (en_witnesses en)) e"
    and oc: "la_outcome (assess_search l t g now cands a) =
       (if xs_proven st then (if ac_accepted ac \<noteq> [] then Loop_LoopConfirmed else Loop_Indeterminate)
        else if xs_exhausted st \<or> en_steps_exhausted en then Loop_Indeterminate
        else if xs_conflict st then Loop_Conflict else if xs_unproven st then Loop_Unknown else Loop_NoLoop)"
    and w: "la_witnesses (assess_search l t g now cands a) = ac_accepted ac"
  have none: "canonical_witnesses (en_witnesses no_enumeration) = []"
    by (simp add: canonical_witnesses_def no_enumeration_def)
  have "ac_accepted ac = []" if "\<not> xs_proven st"
  proof -
    have "en = no_enumeration" using that unfolding en enumeration_phase_def by simp
    then have "ac = validation_phase l t g (la_fence a) now [] e" using ac none by simp
    then show ?thesis by (simp add: validation_phase_def accept_loop_def)
  qed
  then show ?thesis unfolding oc w by auto
qed

section \<open>The answer to a request\<close>

lemma finalize_fields [simp]:
  "la_outcome (finalize a) = la_outcome a" "la_witnesses (finalize a) = la_witnesses a"
  "la_hops (finalize a) = la_hops a" "la_fence (finalize a) = la_fence a" "la_flags (finalize a) = la_flags a"
  by (simp_all add: finalize_def)

lemma give_up_fields [simp]:
  "la_outcome (give_up oc code subject detail a) = oc" "la_hops (give_up oc code subject detail a) = la_hops a"
  "la_witnesses (give_up oc code subject detail a) = la_witnesses a" "la_fence (give_up oc code subject detail a) = la_fence a"
  by (simp_all add: give_up_def)

text \<open>Every hop of a definition, resolved.\<close>

definition resolved_hops :: "evidence_ledger \<Rightarrow> topology \<Rightarrow> fence_vector \<Rightarrow> u64 \<Rightarrow> hop_record list" where
  "resolved_hops g t fence now = map (\<lambda>i. the (r_value (resolve g t i fence now))) [0..<length (td_edges t)]"

lemma resolved_hops_nth:
  assumes "topology_ok t" "i < length (td_edges t)"
  shows "resolve g t i fence now = ok (resolved_hops g t fence now ! i)"
    "hr_edge (resolved_hops g t fence now ! i) = fe_id (td_edges t ! i)"
proof -
  obtain h where h: "resolve g t i fence now = ok h" using resolve_value[OF assms(2)] by blast
  then show "resolve g t i fence now = ok (resolved_hops g t fence now ! i)"
    using assms(2) by (simp add: resolved_hops_def)
  obtain source target where st: "find_resource t (fe_from (td_edges t ! i)) = Some source"
      "find_resource t (fe_to (td_edges t ! i)) = Some target"
    using topology_edge_endpoints[OF assms] by blast
  from h have "\<exists>obs. resolve_hop t i obs fence now (el_limits g) = ok h"
    using assms(2) by (auto simp: resolve_def)
  then show "hr_edge (resolved_hops g t fence now ! i) = fe_id (td_edges t ! i)"
    using resolve_hop_proven_open(3)[OF assms st] h assms(2) by (auto simp: resolved_hops_def)
qed

lemma length_resolved_hops [simp]: "length (resolved_hops g t fence now) = length (td_edges t)"
  by (simp add: resolved_hops_def)

definition question :: "topology \<Rightarrow> evidence_ledger \<Rightarrow> fence_vector \<Rightarrow> u64 \<Rightarrow> u64 list \<Rightarrow> detection_request" where
  "question t g fence now scope =
     \<lparr>dr_topology = Some t, dr_ledger = Some g, dr_fence = fence, dr_now = now, dr_scope = scope\<rparr>"

lemma assess_okD:
  assumes "assess l (question t g fence now scope) = ok a"
  shows "la_fence a = fence"
    and "la_outcome a \<notin> {Loop_Invalid, Loop_Stale} \<Longrightarrow> limits_are_sane l \<and> fv_topology fence = td_generation t \<and>
      la_hops a = resolved_hops g t fence now \<and> check_scope t scope = None"
    and "la_outcome a \<notin> {Loop_Invalid, Loop_Stale} \<Longrightarrow> td_edges t = [] \<or> td_resources t = [] \<Longrightarrow>
      la_outcome a = Loop_NoLoop \<and> la_witnesses a = []"
    and "la_outcome a \<notin> {Loop_Invalid, Loop_Stale, Loop_Indeterminate} \<Longrightarrow> td_edges t \<noteq> [] \<Longrightarrow>
      td_resources t \<noteq> [] \<Longrightarrow> \<exists>a'. la_hops a' = resolved_hops g t fence now \<and> la_fence a' = fence \<and>
        la_outcome a = la_outcome (assess_search l t g now (restrict_candidates scope (candidate_selectors t (la_hops a'))) a') \<and>
        la_witnesses a = la_witnesses (assess_search l t g now (restrict_candidates scope (candidate_selectors t (la_hops a'))) a')"
    and "la_witnesses a \<noteq> [] \<Longrightarrow> la_outcome a = Loop_LoopConfirmed"
proof -
  let ?b = "(blank_assessment fence l)\<lparr>la_hops := resolved_hops g t fence now\<rparr>"
  have b: "la_fence ?b = fence" "la_hops ?b = resolved_hops g t fence now" "la_witnesses ?b = []"
    by (simp_all add: blank_assessment_def)
  define r where "r = assess_resolved l t g now scope ?b"
  have all: "resolve_all g t fence now = ok (resolved_hops g t fence now)"
    by (simp add: resolve_all_ok resolved_hops_def)
  consider (early) oc code subject detail where "a = finalize (give_up oc code subject detail (blank_assessment fence l))"
      "oc \<in> {Loop_Invalid, Loop_Stale}"
    | (go) "limits_are_sane l" "fv_topology fence = td_generation t" "a = finalize r"
    using assms all by (auto simp: assess_def question_def Let_def r_def split: if_splits)
  note cases = this
  let ?cands = "restrict_candidates scope (candidate_selectors t (la_hops ?b))"
  let ?b' = "?b\<lparr>la_flags := la_flags ?b OR evidence_flags g (la_hops ?b) (la_fence ?b) now\<rparr>"
  have r: "r = (case check_scope t scope of Some (subject, detail) \<Rightarrow>
        give_up Loop_Invalid R_RequestRejectedStructural subject detail ?b
      | None \<Rightarrow> assess_bounded l t g now ?cands ?b')"
    by (simp add: r_def assess_resolved_def)
  have bounded: "la_fence (assess_bounded l t g now c x) = la_fence x \<and> la_hops (assess_bounded l t g now c x) = la_hops x \<and>
      ((td_edges t = [] \<or> td_resources t = []) \<longrightarrow> la_outcome (assess_bounded l t g now c x) = Loop_NoLoop \<and>
         la_witnesses (assess_bounded l t g now c x) = la_witnesses x) \<and>
      (td_edges t \<noteq> [] \<and> td_resources t \<noteq> [] \<longrightarrow>
         la_outcome (assess_bounded l t g now c x) = Loop_Indeterminate \<and>
           la_witnesses (assess_bounded l t g now c x) = la_witnesses x \<or>
         (\<exists>x'. la_hops x' = la_hops x \<and> la_fence x' = la_fence x \<and>
            assess_bounded l t g now c x = assess_search l t g now c x'))" for c x
    unfolding assess_bounded_def Let_def
    by (auto simp: assess_search_fields intro!: exI[of _ "x\<lparr>la_counters := (la_counters x)
       \<lparr>sn_selectors_considered := word_of_nat (length c)\<rparr>\<rparr>"])
  show "la_fence a = fence"
    using cases
  proof cases
    case early
    then show ?thesis by (simp add: blank_assessment_def)
  next
    case go
    then show ?thesis using r b bounded by (auto split: option.splits)
  qed
  show "limits_are_sane l \<and> fv_topology fence = td_generation t \<and>
      la_hops a = resolved_hops g t fence now \<and> check_scope t scope = None"
    if "la_outcome a \<notin> {Loop_Invalid, Loop_Stale}"
    using cases
  proof cases
    case early
    then show ?thesis using that by simp
  next
    case go
    then show ?thesis using that r b bounded by (auto split: option.splits)
  qed
  show "la_outcome a = Loop_NoLoop \<and> la_witnesses a = []"
    if "la_outcome a \<notin> {Loop_Invalid, Loop_Stale}" "td_edges t = [] \<or> td_resources t = []"
    using cases
  proof cases
    case early
    then show ?thesis using that by simp
  next
    case go
    then show ?thesis using that r b bounded by (auto split: option.splits)
  qed
  show "\<exists>a'. la_hops a' = resolved_hops g t fence now \<and> la_fence a' = fence \<and>
      la_outcome a = la_outcome (assess_search l t g now (restrict_candidates scope (candidate_selectors t (la_hops a'))) a') \<and>
      la_witnesses a = la_witnesses (assess_search l t g now (restrict_candidates scope (candidate_selectors t (la_hops a'))) a')"
    if "la_outcome a \<notin> {Loop_Invalid, Loop_Stale, Loop_Indeterminate}" "td_edges t \<noteq> []" "td_resources t \<noteq> []"
    using cases
  proof cases
    case early
    then show ?thesis using that by simp
  next
    case go
    have "r = assess_bounded l t g now ?cands ?b'" using that(1) go(3) r by (auto split: option.splits)
    with bounded[of ?cands ?b'] that go(3) b
    obtain x' where "la_hops x' = resolved_hops g t fence now" "la_fence x' = fence"
        "r = assess_search l t g now ?cands x'" by auto
    then show ?thesis using go(3) b by (intro exI[of _ x']) simp
  qed
  show "la_outcome a = Loop_LoopConfirmed" if "la_witnesses a \<noteq> []"
    using cases
  proof cases
    case early
    then show ?thesis using that by (simp add: blank_assessment_def)
  next
    case go
    show ?thesis
    proof (cases "check_scope t scope")
      case None
      then show ?thesis
        using bounded[of ?cands ?b'] go(3) r that b assess_search_confirmed by (auto simp: blank_assessment_def)
    next
      case (Some p)
      then show ?thesis using go(3) r that b by (cases p) simp
    qed
  qed
qed

text \<open>A selector that no hop might carry has an empty graph.\<close>

lemma carry_rel_outside:
  assumes t: "topology_ok t" "distinct (map fe_id (td_edges t))" and scope: "check_scope t scope = None"
    and hops: "length hops = length (td_edges t)" "\<forall>i < length (td_edges t). hr_edge (hops ! i) = fe_id (td_edges t ! i)"
    and s: "scope = [] \<or> s \<in> set scope" "s \<notin> set (restrict_candidates scope (candidate_selectors t hops))"
  shows "carry_rel k t hops s = {}"
proof -
  have "\<not> may_carry (hops ! i) (td_edges t ! i) s" if "i < length (td_edges t)" for i
    using in_scope_candidate[OF t scope that hops(1)] hops(2) s that by blast
  then show ?thesis by (auto simp: carry_rel_def)
qed

lemma assess_conclusive:
  assumes t: "topology_ok t" and a: "assess l (question t g fence now scope) = ok a"
    and oc: "la_outcome a \<in> {Loop_NoLoop, Loop_Unknown, Loop_Conflict}"
  defines "hops \<equiv> resolved_hops g t fence now"
  defines "cands \<equiv> restrict_candidates scope (candidate_selectors t hops)"
  shows "\<not> cycle_at Class_Proven t hops cands"
    "la_outcome a = Loop_NoLoop \<Longrightarrow> \<not> cycle_at Class_Conflicted t hops cands"
    "la_outcome a = Loop_Unknown \<Longrightarrow> cycle_at Class_Unproven t hops cands"
    "la_outcome a = Loop_Conflict \<Longrightarrow> cycle_at Class_Conflicted t hops cands"
    "check_scope t scope = None"
    "la_outcome a = Loop_Conflict \<Longrightarrow> \<exists>s. acyclic (carry_rel Class_Unproven t hops s) \<and>
       \<not> acyclic (carry_rel Class_Conflicted t hops s)"
proof -
  have ok: "la_outcome a \<notin> {Loop_Invalid, Loop_Stale}" using oc by auto
  show scope: "check_scope t scope = None" using assess_okD(2)[OF a ok] by blast
  have main: "\<not> cycle_at Class_Proven t hops cands \<and>
    (la_outcome a = Loop_NoLoop \<longrightarrow> \<not> cycle_at Class_Conflicted t hops cands) \<and>
    (la_outcome a = Loop_Unknown \<longrightarrow> cycle_at Class_Unproven t hops cands) \<and>
    (la_outcome a = Loop_Conflict \<longrightarrow> cycle_at Class_Conflicted t hops cands) \<and>
    (la_outcome a = Loop_Conflict \<longrightarrow> (\<exists>s. acyclic (carry_rel Class_Unproven t hops s) \<and>
       \<not> acyclic (carry_rel Class_Conflicted t hops s)))"
  proof (cases "td_edges t = [] \<or> td_resources t = []")
    case True
    have "td_edges t = []"
    proof (rule ccontr)
      assume ne: "td_edges t \<noteq> []"
      then obtain r where "r \<in> set (td_resources t)"
        using topology_edge_endpoints[OF t, of 0] find_resource_iff[OF t] by (metis length_greater_0_conv)
      with True ne show False by auto
    qed
    then have "carry_rel k t hops s = {}" for k s by (simp add: carry_rel_def)
    then have "\<not> cycle_at k t hops cands" for k by (simp add: cycle_at_def acyclic_def)
    with assess_okD(3)[OF a ok True] show ?thesis by simp
  next
    case False
    have "la_outcome a \<notin> {Loop_Invalid, Loop_Stale, Loop_Indeterminate}" using oc by auto
    from assess_okD(4)[OF a this] False obtain a' where a': "la_hops a' = hops"
        "la_outcome a = la_outcome (assess_search l t g now cands a')"
      unfolding cands_def hops_def by auto
    have d: "distinct cands" unfolding cands_def by (rule candidates_distinct)
    have len: "length (la_hops a') = length (td_edges t)" by (simp add: a'(1) hops_def)
    show ?thesis
      using assess_search_outcome[OF t d len a'(2)[symmetric] oc] unfolding a'(1) by blast
  qed
  then show "\<not> cycle_at Class_Proven t hops cands"
    "la_outcome a = Loop_NoLoop \<Longrightarrow> \<not> cycle_at Class_Conflicted t hops cands"
    "la_outcome a = Loop_Unknown \<Longrightarrow> cycle_at Class_Unproven t hops cands"
    "la_outcome a = Loop_Conflict \<Longrightarrow> cycle_at Class_Conflicted t hops cands"
    "la_outcome a = Loop_Conflict \<Longrightarrow> \<exists>s. acyclic (carry_rel Class_Unproven t hops s) \<and>
       \<not> acyclic (carry_rel Class_Conflicted t hops s)"
    by blast+
qed

lemma acyclic_in_scope:
  assumes t: "topology_ok t" "distinct (map fe_id (td_edges t))" and scope: "check_scope t scope = None"
    and none: "\<not> cycle_at k t (resolved_hops g t fence now)
      (restrict_candidates scope (candidate_selectors t (resolved_hops g t fence now)))"
    and s: "scope = [] \<or> s \<in> set scope"
  shows "acyclic (carry_rel k t (resolved_hops g t fence now) s)"
proof (cases "s \<in> set (restrict_candidates scope (candidate_selectors t (resolved_hops g t fence now)))")
  case True
  with none show ?thesis by (auto simp: cycle_at_def)
next
  case False
  have "carry_rel k t (resolved_hops g t fence now) s = {}"
    by (rule carry_rel_outside[OF t scope _ _ s False]) (simp_all add: resolved_hops_nth(2)[OF t(1)])
  then show ?thesis by (simp add: acyclic_def)
qed

lemma assess_witnesses_sound:
  assumes t: "topology_ok t" and g: "ledger_ok g" and a: "assess l (question t g fence now scope) = ok a"
  shows "\<forall>w \<in> set (la_witnesses a). loop_at t g fence now (lw_cycle w) (lw_hops w) (lw_selectors w) \<and>
    canonical_witness t g fence l w"
proof (cases "la_witnesses a = []")
  case False
  then have oc: "la_outcome a = Loop_LoopConfirmed" by (rule assess_okD(5)[OF a])
  then have ne: "td_edges t \<noteq> []" "td_resources t \<noteq> []" using assess_okD(3)[OF a] False by auto
  have "la_outcome a \<notin> {Loop_Invalid, Loop_Stale, Loop_Indeterminate}" using oc by simp
  from assess_okD(4)[OF a this ne] obtain a' where "la_fence a' = fence"
      "la_witnesses a = la_witnesses (assess_search l t g now (restrict_candidates scope (candidate_selectors t (la_hops a'))) a')"
    by blast
  then show ?thesis using assess_search_witnesses[OF t g, of l now _ a'] by simp
qed simp

lemma assess_confirmed_witnesses:
  assumes a: "assess l (question t g fence now scope) = ok a" and oc: "la_outcome a = Loop_LoopConfirmed"
  shows "la_witnesses a \<noteq> []"
proof -
  have ne: "td_edges t \<noteq> []" "td_resources t \<noteq> []" using assess_okD(3)[OF a] oc by auto
  have "la_outcome a \<notin> {Loop_Invalid, Loop_Stale, Loop_Indeterminate}" using oc by simp
  from assess_okD(4)[OF a this ne] oc show ?thesis using assess_search_confirmed by metis
qed

text \<open>A witness that passes the structural and the hop checks is accepted once its digest is filled in.\<close>

lemma check_hops_digest: "check_hops (with_evidence_digest g w) t g' current now is D = check_hops w t g' current now is D"
proof -
  have "check_hop (with_evidence_digest g w) t g' current now i = check_hop w t g' current now i" for i
    unfolding check_hop_def Let_def with_evidence_digest_def by (simp cong: if_cong option.case_cong)
  then show ?thesis by (induction "is" arbitrary: D) (simp_all split: sum.split)
qed

lemma validate_accepts:
  assumes "check_shape w current l = None" "check_hops w t g current now [0..<length (lw_cycle w)] {} = Inr D"
    and "(card D > 1) = lw_crosses w"
  shows "\<exists>v. validate_witness (with_evidence_digest g w) t g current now l = ok v \<and> wv_valid v"
proof -
  have shape: "check_shape (with_evidence_digest g w) current l = None"
    using assms(1) by (simp add: check_shape_None with_evidence_digest_def)
  have obs: "contributing_observations (with_evidence_digest g w) g = contributing_observations w g"
    by (simp add: contributing_observations_def with_evidence_digest_def)
  have "check_hops (with_evidence_digest g w) t g current now [0..<length (lw_cycle (with_evidence_digest g w))] {} = Inr D"
    using assms(2) unfolding check_hops_digest by (simp add: with_evidence_digest_def)
  then show ?thesis
    using shape assms(3) obs unfolding validate_witness_def by (simp add: with_evidence_digest_def)
qed

lemma accept_loop_grows:
  assumes "ac_accepted ac \<noteq> []"
  shows "ac_accepted (accept_loop t g fence now l ws ac) \<noteq> []"
  using assms unfolding accept_loop_def
proof (induction ws arbitrary: ac)
  case (Cons w ws)
  have "ac_accepted (accept_one t g fence now l ac w) \<noteq> []"
    using Cons.prems by (cases rule: accept_one_cases[of t g fence now l ac w]) auto
  then show ?case using Cons.IH by simp
qed simp

lemma assess_search_confirms:
  assumes "xs_proven (existence_phase l t cands (la_hops a))"
    and ws: "canonical_witnesses (en_witnesses (enumeration_phase l t cands a (existence_phase l t cands (la_hops a)))) = w # ws"
    and "0 < max_witnesses_per_assessment l" "check_shape w (la_fence a) l = None"
    and "check_hops w t g (la_fence a) now [0..<length (lw_cycle w)] {} = Inr D" "(card D > 1) = lw_crosses w"
  shows "la_outcome (assess_search l t g now cands a) = Loop_LoopConfirmed"
proof (rule assess_search_form[of l t cands a g now])
  fix st en ac e
  assume st: "st = existence_phase l t cands (la_hops a)" and en: "en = enumeration_phase l t cands a st"
    and ac: "ac = validation_phase l t g (la_fence a) now (canonical_witnesses (en_witnesses en)) e"
    and oc: "la_outcome (assess_search l t g now cands a) =
       (if xs_proven st then (if ac_accepted ac \<noteq> [] then Loop_LoopConfirmed else Loop_Indeterminate)
        else if xs_exhausted st \<or> en_steps_exhausted en then Loop_Indeterminate
        else if xs_conflict st then Loop_Conflict else if xs_unproven st then Loop_Unknown else Loop_NoLoop)"
  obtain v where v: "validate_witness (with_evidence_digest g w) t g (la_fence a) now l = ok v" "wv_valid v"
    using validate_accepts[OF assms(4-6)] by blast
  let ?blank = "\<lparr>ac_accepted = [], ac_cost = 0, ac_dropped = 0, ac_validated = 0, ac_rejected = 0, ac_explanation = e\<rparr>"
  have first: "ac_accepted (accept_one t g (la_fence a) now l ?blank w) \<noteq> []"
    using v by (simp add: accept_one_def Let_def)
  obtain n where n: "unat (max_witnesses_per_assessment l) = Suc n"
    using assms(3) by (metis not0_implies_Suc unat_gt_0 word_gt_0 less_irrefl)
  have "ac_accepted ac \<noteq> []"
    unfolding ac en st ws validation_phase_def n using accept_loop_grows[OF first]
    by (simp add: accept_loop_def)
  then show ?thesis using assms(1) by (simp add: oc st)
qed

lemma assess_value:
  assumes "limits_are_sane l" "\<not> fence_is_zero fence" "td_generation t = fv_topology fence"
  shows "assess l (question t g fence now scope) = ok (finalize (assess_resolved l t g now scope
    ((blank_assessment fence l)\<lparr>la_hops := resolved_hops g t fence now\<rparr>)))"
  using assms by (simp add: assess_def question_def Let_def resolve_all_ok resolved_hops_def)

section \<open>Loops are cycles of the proven adjacency\<close>

lemma hop_open_carries:
  assumes t: "topology_ok t" "distinct (map fe_id (td_edges t))" and g: "ledger_ok g"
    and h: "hop_open t g fence now hop from target s"
  shows "(from, target) \<in> carry_rel Class_Proven t (resolved_hops g t fence now) s"
proof -
  let ?obs = "filter (\<lambda>ob. fo_edge ob = hop) (el_observations g)"
  from h obtain edge src dst where e: "find_edge t hop = Some edge" "fe_from edge = from" "fe_to edge = target"
      "fe_link edge = Link_Up" "find_resource t from = Some src" "rr_admin src = Admin_Enabled"
      "find_resource t target = Some dst" "rr_admin dst = Admin_Enabled" "s \<in> set (fe_selectors edge)"
    and ev: "\<exists>ob. exact_statement Ev_Present ?obs fence now ob \<and> s \<in> set (fo_selectors ob)"
      "\<nexists>ob. exact_statement Ev_Absent ?obs fence now ob"
    unfolding hop_open_def by blast
  then obtain i where i: "i < length (td_edges t)" "td_edges t ! i = edge"
    using find_edge_iff[OF t] by (metis in_set_conv_nth)
  have id_hop: "fe_id edge = hop" using e(1) find_edge_iff[OF t] by blast
  let ?h = "resolved_hops g t fence now ! i"
  have res: "resolve_hop t i ?obs fence now (el_limits g) = ok ?h"
    using resolved_hops_nth(1)[OF t(1) i(1)] resolve_spec[OF g i(1)] i(2) id_hop by simp
  note po = resolve_hop_proven_open[OF t(1) i(1) _ _ res, unfolded i(2) e(2,3), OF e(5,7)]
  have open_h: "hr_resolution ?h = Hop_ProvenOpen"
    unfolding po(1) using e(4,6,8,9) ev by (auto simp: definition_closes_def)
  moreover have "s \<in> set (hr_effective ?h)" using po(2)[OF open_h] e(9) ev(1) by blast
  ultimately have "may_carry ?h edge s" "hop_class_of ?h = Class_Proven"
    by (simp_all add: may_carry_def hop_class_of_def)
  then show ?thesis using i e(2,3) by (auto simp: carry_rel_def)
qed

text \<open>A loop is a cycle of the proven adjacency, for each of its selectors.\<close>

lemma cyclic_steps_trancl:
  assumes "n \<noteq> 0" "\<And>i. i < n \<Longrightarrow> (f i, f (Suc i mod n)) \<in> R"
  shows "(f 0, f 0) \<in> R\<^sup>+"
proof -
  have "(f 0, f (Suc i mod n)) \<in> R\<^sup>+" if "i < n" for i
    using that
  proof (induction i)
    case 0
    then show ?case using assms(2)[of 0] by auto
  next
    case (Suc i)
    then have "(f 0, f (Suc i)) \<in> R\<^sup>+" by simp
    then show ?case using assms(2)[OF Suc.prems] by (rule trancl_into_trancl)
  qed
  from this[of "n - 1"] assms(1) show ?thesis by simp
qed

lemma loop_at_cyclic:
  assumes "topology_ok t" "distinct (map fe_id (td_edges t))" "ledger_ok g"
    and "loop_at t g fence now cycle hops selectors" "s \<in> set selectors"
  shows "\<not> acyclic (carry_rel Class_Proven t (resolved_hops g t fence now) s)"
proof -
  have "(cycle ! i, cycle ! (Suc i mod length cycle)) \<in> carry_rel Class_Proven t (resolved_hops g t fence now) s"
    if "i < length cycle" for i
    by (rule hop_open_carries[OF assms(1-3), of _ _ "hops ! i"]) (use assms(4,5) that in \<open>simp add: loop_at_def\<close>)
  then have "(cycle ! 0, cycle ! 0) \<in> (carry_rel Class_Proven t (resolved_hops g t fence now) s)\<^sup>+"
    using assms(4) by (intro cyclic_steps_trancl[of "length cycle"]) (auto simp: loop_at_def)
  then show ?thesis by (auto simp: acyclic_def)
qed

end
