(* ===== verification/Exclusion.thy ===== *)
theory Exclusion
  imports Detect
begin

text \<open>
  When the detector leaves a hop out of a traffic class, said in terms of the definition and the
  observations only, without the hop records: \<open>closed_for\<close> is what the definition or exactly bound
  evidence excludes, \<open>hidden_by_stale\<close> what is excluded by nothing but statements that are not
  current (the narrowing of src/evidence.cpp, lines 252-262). \<open>may_carry_iff\<close> shows that these two
  are all, so the graph searched is the graph of the hops that neither holds for.
\<close>

section \<open>What excludes a hop\<close>

definition statements_about :: "topology \<Rightarrow> evidence_ledger \<Rightarrow> nat \<Rightarrow> forwarding_observation list" where
  "statements_about t g i = filter (\<lambda>ob. fo_edge ob = fe_id (td_edges t ! i)) (el_observations g)"

definition disabled_by_definition :: "topology \<Rightarrow> nat \<Rightarrow> bool" where
  "disabled_by_definition t i \<longleftrightarrow> fe_link (td_edges t ! i) = Link_Down \<or>
     (\<exists>r. find_resource t (fe_from (td_edges t ! i)) = Some r \<and> rr_admin r = Admin_Disabled) \<or>
     (\<exists>r. find_resource t (fe_to (td_edges t ! i)) = Some r \<and> rr_admin r = Admin_Disabled)"

text \<open>The definition closes the hop, or exact evidence only denies it, or exact evidence only affirms it,
  for other classes it admits.\<close>

definition closed_for :: "topology \<Rightarrow> evidence_ledger \<Rightarrow> fence_vector \<Rightarrow> u64 \<Rightarrow> nat \<Rightarrow> u64 \<Rightarrow> bool" where
  "closed_for t g fence now i s \<longleftrightarrow> disabled_by_definition t i \<or>
     (\<exists>ob. exact_statement Ev_Absent (statements_about t g i) fence now ob) \<and>
       (\<nexists>ob. exact_statement Ev_Present (statements_about t g i) fence now ob) \<or>
     (\<nexists>ob. exact_statement Ev_Absent (statements_about t g i) fence now ob) \<and>
       (\<exists>ob. exact_statement Ev_Present (statements_about t g i) fence now ob \<and>
         set (fo_selectors ob) \<inter> set (fe_selectors (td_edges t ! i)) \<noteq> {}) \<and>
       (\<nexists>ob. exact_statement Ev_Present (statements_about t g i) fence now ob \<and> s \<in> set (fo_selectors ob))"

text \<open>A statement that a hop was open under another fence or generation, or under a lease that is not live.\<close>

definition stale_present :: "fence_vector \<Rightarrow> u64 \<Rightarrow> forwarding_observation \<Rightarrow> bool" where
  "stale_present fence now ob \<longleftrightarrow> fo_klass ob = Ev_Present \<and>
     \<not> (ls_boot (fo_lease ob) = fv_boot fence \<and> ls_epoch (fo_lease ob) = fv_epoch fence \<and>
        ls_fabric_epoch (fo_lease ob) = fv_fabric_epoch fence \<and> fo_topology_generation ob = fv_topology fence \<and>
        fo_forwarding_generation ob = fv_forwarding fence \<and> is_live (fo_lease ob) now)"

definition hidden_by_stale :: "topology \<Rightarrow> evidence_ledger \<Rightarrow> fence_vector \<Rightarrow> u64 \<Rightarrow> nat \<Rightarrow> u64 \<Rightarrow> bool" where
  "hidden_by_stale t g fence now i s \<longleftrightarrow>
     (\<nexists>ob. exact_statement Ev_Present (statements_about t g i) fence now ob) \<and>
     (\<nexists>ob. exact_statement Ev_Absent (statements_about t g i) fence now ob) \<and>
     (\<exists>ob \<in> set (statements_about t g i). stale_present fence now ob \<and>
        set (fo_selectors ob) \<inter> set (fe_selectors (td_edges t ! i)) \<noteq> {}) \<and>
     (\<forall>ob \<in> set (statements_about t g i). stale_present fence now ob \<longrightarrow> s \<notin> set (fo_selectors ob))"

text \<open>The adjacency of the hops that admit a class and satisfy a condition.\<close>

definition hop_rel :: "topology \<Rightarrow> (nat \<Rightarrow> bool) \<Rightarrow> u64 \<Rightarrow> (u64 \<times> u64) set" where
  "hop_rel t P s = {(fe_from (td_edges t ! i), fe_to (td_edges t ! i)) | i.
     i < length (td_edges t) \<and> s \<in> set (fe_selectors (td_edges t ! i)) \<and> P i}"

lemma hop_rel_mono: "(\<And>i. i < length (td_edges t) \<Longrightarrow> P i \<Longrightarrow> Q i) \<Longrightarrow> hop_rel t P s \<subseteq> hop_rel t Q s"
  by (auto simp: hop_rel_def)

lemma hop_rel_cong: "(\<And>i. i < length (td_edges t) \<Longrightarrow> P i \<longleftrightarrow> Q i) \<Longrightarrow> hop_rel t P s = hop_rel t Q s"
  by (rule equalityI; rule hop_rel_mono; simp)

lemma acyclic_subset: "acyclic R \<Longrightarrow> S \<subseteq> R \<Longrightarrow> acyclic S"
  by (auto simp: acyclic_def dest: trancl_mono)

section \<open>The search graph\<close>

lemma classify_stale:
  "classify_binding newest fence now ob \<noteq> Bind_Exact \<and> classify_binding newest fence now ob \<noteq> Bind_Superseded \<and>
     fo_klass ob = Ev_Present \<longleftrightarrow> stale_present fence now ob"
  by (auto simp: classify_binding_def stale_present_def split: option.split)

lemma scan_candidates_stale:
  "sc_unproven_present (scan_candidates obs fence now) \<longleftrightarrow> (\<exists>ob \<in> set obs. stale_present fence now ob)"
  "x \<in> set (sc_unproven_selectors (scan_candidates obs fence now)) \<longleftrightarrow>
     (\<exists>ob \<in> set obs. stale_present fence now ob \<and> x \<in> set (fo_selectors ob))"
  unfolding scan_candidates_def scan_present(3) scan_selectors(2) classify_stale
  by (auto simp: initial_scan_def)

lemma may_carry_cases:
  "may_carry (hop_verdict e u n s rec) e' x \<longleftrightarrow>
     (if sc_exact_present s \<and> sc_exact_absent s then x \<in> set (fe_selectors e')
      else if sc_exact_present s then
        (if canonical_intersection e (sc_exact_selectors s) = [] then x \<in> set (fe_selectors e')
         else x \<in> set (canonical_intersection e (sc_exact_selectors s)))
      else if sc_exact_absent s then False
      else if sc_unproven_present s \<and> canonical_intersection e (sc_unproven_selectors s) \<noteq> [] then
        x \<in> set (canonical_intersection e (sc_unproven_selectors s))
      else x \<in> set (fe_selectors e'))"
  by (simp add: hop_verdict_def may_carry_def Let_def)

lemma may_carry_iff:
  assumes t: "topology_ok t" and g: "ledger_ok g" and i: "i < length (td_edges t)"
  shows "may_carry (resolved_hops g t fence now ! i) (td_edges t ! i) s \<longleftrightarrow> s \<in> set (fe_selectors (td_edges t ! i)) \<and>
    \<not> closed_for t g fence now i s \<and> \<not> hidden_by_stale t g fence now i s"
proof -
  let ?e = "td_edges t ! i" and ?obs = "statements_about t g i" and ?h = "resolved_hops g t fence now ! i"
  let ?s = "scan_candidates ?obs fence now"
  obtain src dst where r: "find_resource t (fe_from ?e) = Some src" "find_resource t (fe_to ?e) = Some dst"
    using topology_edge_endpoints[OF t i] by blast
  have "resolve_hop t i ?obs fence now (el_limits g) = ok ?h"
    using resolved_hops_nth(1)[OF t i] resolve_spec[OF g i] by (simp add: statements_about_def)
  then obtain rec where h: "?h = (if definition_closes src dst ?e then
        rec\<lparr>hr_resolution := Hop_ProvenClosed, hr_binding := Bind_NoEvidence,
          hr_note := ex_add R_CycleBrokenByAbsentEvidence (id_to_string (fe_id ?e))
            txt_definition_closes_the_hop_admin_disabled_or (hr_note rec)\<rparr>
      else hop_verdict ?e (definition_is_unknown src dst ?e) (?obs = []) ?s rec)"
    using resolve_hop_ok[OF t i r, of ?obs fence now "el_limits g"] by auto
  have closes: "definition_closes src dst ?e \<longleftrightarrow> disabled_by_definition t i"
    by (auto simp: definition_closes_def disabled_by_definition_def r)
  have "sorted_wrt (<) (fe_selectors ?e)" using t i by (simp add: topology_ok_def edge_ok_def)
  note ci = canonical_intersection_set(1)[OF this]
  have empty: "canonical_intersection ?e ss = [] \<longleftrightarrow> set ss \<inter> set (fe_selectors ?e) = {}" for ss
    unfolding set_empty[symmetric] ci ..
  have exact: "set (sc_exact_selectors ?s) \<inter> set (fe_selectors ?e) = {} \<longleftrightarrow>
      (\<nexists>ob. exact_statement Ev_Present ?obs fence now ob \<and> set (fo_selectors ob) \<inter> set (fe_selectors ?e) \<noteq> {})"
    using scan_candidates_exact(3)[of _ ?obs fence now] by blast
  have stale: "set (sc_unproven_selectors ?s) \<inter> set (fe_selectors ?e) = {} \<longleftrightarrow>
      (\<nexists>ob. ob \<in> set ?obs \<and> stale_present fence now ob \<and> set (fo_selectors ob) \<inter> set (fe_selectors ?e) \<noteq> {})"
    using scan_candidates_stale(2)[of _ ?obs fence now] by blast
  show ?thesis
  proof (cases "definition_closes src dst ?e")
    case True
    then show ?thesis using closes by (simp add: h may_carry_def closed_for_def)
  next
    case False
    then have "\<not> disabled_by_definition t i" using closes by simp
    then show ?thesis
      unfolding h if_not_P[OF False] may_carry_cases ci empty exact stale closed_for_def hidden_by_stale_def Int_iff
        scan_candidates_exact scan_candidates_stale
      by auto
  qed
qed

lemma conflicted_top: "class_raw k \<le> class_raw Class_Conflicted"
  by (cases k) (simp_all add: class_raw_def)

lemma carry_rel_hop_rel:
  assumes "topology_ok t" "ledger_ok g"
  shows "carry_rel Class_Conflicted t (resolved_hops g t fence now) s =
    hop_rel t (\<lambda>i. \<not> closed_for t g fence now i s \<and> \<not> hidden_by_stale t g fence now i s) s"
  unfolding carry_rel_def hop_rel_def using may_carry_iff[OF assms] conflicted_top by blast

lemma carry_rel_open:
  assumes "topology_ok t" "ledger_ok g"
  shows "carry_rel k t (resolved_hops g t fence now) s \<subseteq>
    hop_rel t (\<lambda>i. \<not> closed_for t g fence now i s \<and> \<not> hidden_by_stale t g fence now i s) s"
  using carry_rel_mono[OF conflicted_top] carry_rel_hop_rel[OF assms] by blast

lemma not_hidden:
  assumes "\<forall>ob \<in> set (el_observations g). \<not> stale_present fence now ob"
  shows "\<not> hidden_by_stale t g fence now i s"
  using assms by (auto simp: hidden_by_stale_def statements_about_def)

lemma exact_not_stale:
  assumes "exact_statement Ev_Present obs fence now ob"
  shows "\<not> stale_present fence now ob"
  using assms by (auto simp: exact_statement_def exactly_bound_def stale_present_def)

text \<open>When nothing is bound to the current fence, only the definition closes a hop.\<close>

lemma exactly_bound_alone: "exactly_bound obs fence now ob \<Longrightarrow> exactly_bound {ob} fence now ob"
  by (simp add: exactly_bound_def)

lemma no_exact_statement:
  assumes "\<forall>ob \<in> set (el_observations g). \<not> exactly_bound {ob} fence now ob"
  shows "\<not> exact_statement k (statements_about t g i) fence now ob"
  using assms exactly_bound_alone by (auto simp: exact_statement_def statements_about_def)

lemma closed_when_stale:
  assumes "\<forall>ob \<in> set (el_observations g). \<not> exactly_bound {ob} fence now ob"
  shows "closed_for t g fence now i s \<longleftrightarrow> disabled_by_definition t i"
  using no_exact_statement[OF assms] by (simp add: closed_for_def)

section \<open>Conclusive answers\<close>

lemma conclusive_cyclic:
  assumes t: "topology_ok t" "distinct (map fe_id (td_edges t))" and g: "ledger_ok g"
    and a: "assess l (question t g fence now scope) = ok a"
    and oc: "la_outcome a \<in> {Loop_LoopConfirmed, Loop_NoLoop, Loop_Unknown, Loop_Conflict}" "la_outcome a \<noteq> Loop_NoLoop"
  shows "\<exists>k s. \<not> acyclic (carry_rel k t (resolved_hops g t fence now) s)"
proof (cases "la_outcome a = Loop_LoopConfirmed")
  case True
  then obtain w where "w \<in> set (la_witnesses a)"
    using assess_confirmed_witnesses[OF a] by (metis list.set_sel(1))
  then have loop: "loop_at t g fence now (lw_cycle w) (lw_hops w) (lw_selectors w)"
    using assess_witnesses_sound[OF t(1) g a] by blast
  then have "lw_selectors w \<noteq> []" by (simp add: loop_at_def)
  then obtain s where "s \<in> set (lw_selectors w)" by (metis list.set_sel(1))
  then show ?thesis using loop_at_cyclic[OF t g loop] by blast
next
  case False
  with oc have c: "la_outcome a \<in> {Loop_NoLoop, Loop_Unknown, Loop_Conflict}" by (cases "la_outcome a") auto
  show ?thesis using assess_conclusive(3,4)[OF t(1) a c] c oc(2) by (auto simp: cycle_at_def)
qed

lemma conflicted_hop_exact:
  assumes "topology_ok t" "ledger_ok g" "i < length (td_edges t)"
    and "hr_resolution (resolved_hops g t fence now ! i) = Hop_Conflicted"
  shows "\<exists>ob. exact_statement Ev_Present (statements_about t g i) fence now ob"
proof -
  let ?e = "td_edges t ! i" and ?obs = "statements_about t g i"
  obtain src dst where r: "find_resource t (fe_from ?e) = Some src" "find_resource t (fe_to ?e) = Some dst"
    using topology_edge_endpoints[OF assms(1,3)] by blast
  have "resolve_hop t i ?obs fence now (el_limits g) = ok (resolved_hops g t fence now ! i)"
    using resolved_hops_nth(1)[OF assms(1,3)] resolve_spec[OF assms(2,3)] by (simp add: statements_about_def)
  with resolve_hop_ok[OF assms(1,3) r, of ?obs fence now "el_limits g"] assms(4) show ?thesis
    by (auto simp: hop_verdict_open(3) scan_candidates_exact split: if_splits)
qed

lemma no_exact_classes:
  assumes "topology_ok t" "ledger_ok g" "\<forall>ob \<in> set (el_observations g). \<not> exactly_bound {ob} fence now ob"
  shows "carry_rel Class_Unproven t (resolved_hops g t fence now) s = carry_rel Class_Conflicted t (resolved_hops g t fence now) s"
proof -
  have "class_raw (hop_class_of (resolved_hops g t fence now ! i)) \<le> class_raw Class_Unproven" if "i < length (td_edges t)" for i
    using conflicted_hop_exact[OF assms(1,2) that, of fence now] no_exact_statement[OF assms(3)]
    by (cases "hr_resolution (resolved_hops g t fence now ! i)") (auto simp: hop_class_of_def class_raw_def)
  then show ?thesis using conflicted_top by (auto simp: carry_rel_def)
qed

text \<open>Without exact evidence a possible cycle in scope is answered UNKNOWN.\<close>

lemma unproven_answer:
  assumes t: "topology_ok t" "distinct (map fe_id (td_edges t))" and g: "ledger_ok g"
    and none: "\<forall>ob \<in> set (el_observations g). \<not> exactly_bound {ob} fence now ob"
    and a: "assess l (question t g fence now scope) = ok a"
    and oc: "la_outcome a \<in> {Loop_LoopConfirmed, Loop_NoLoop, Loop_Unknown, Loop_Conflict}"
    and s: "scope = [] \<or> s \<in> set scope"
    and cyc: "\<not> acyclic (hop_rel t (\<lambda>i. \<not> closed_for t g fence now i s \<and> \<not> hidden_by_stale t g fence now i s) s)"
  shows "la_outcome a = Loop_Unknown"
proof -
  have "la_outcome a \<noteq> Loop_LoopConfirmed"
  proof
    assume "la_outcome a = Loop_LoopConfirmed"
    then obtain w where "w \<in> set (la_witnesses a)"
      using assess_confirmed_witnesses[OF a] by (metis list.set_sel(1))
    then have loop: "loop_at t g fence now (lw_cycle w) (lw_hops w) (lw_selectors w)"
      using assess_witnesses_sound[OF t(1) g a] by blast
    then have "lw_selectors w \<noteq> []" "0 < length (lw_cycle w)" by (simp_all add: loop_at_def)
    then obtain x i where "x \<in> set (lw_selectors w)" "i < length (lw_cycle w)" by (metis list.set_sel(1))
    with loop have "\<exists>hop from target x. hop_open t g fence now hop from target x" unfolding loop_at_def by blast
    then obtain ob where "ob \<in> set (el_observations g)" "exactly_bound {ob} fence now ob"
      using exactly_bound_alone by (auto simp: hop_open_def exact_statement_def)
    with none show False by blast
  qed
  with oc have c: "la_outcome a \<in> {Loop_NoLoop, Loop_Unknown, Loop_Conflict}" by (cases "la_outcome a") auto
  note ac = assess_conclusive[OF t(1) a c]
  have "la_outcome a \<noteq> Loop_NoLoop"
    using acyclic_in_scope[OF t ac(5) ac(2) s] cyc carry_rel_hop_rel[OF t(1) g] by auto
  moreover have "la_outcome a \<noteq> Loop_Conflict"
    using ac(6) no_exact_classes[OF t(1) g none] by auto
  ultimately show ?thesis using c by blast
qed

end
