(* ===== verification/HittingSet.thy ===== *)
theory HittingSet
  imports Detect
begin

text \<open>
  The hitting-set solvers of src/containment.cpp: class HittingSetSearch (exact branch and bound
  under a node budget), \<open>solve_hitting_set\<close>, the reference solver that enumerates every subset, and
  the greedy recommendation.

  The search class keeps the current partial solution, its cost and the cover counters as members
  that a recursive call changes and changes back; here they are arguments of \<open>hs_search\<close>
  (\<open>uncover_cover\<close>: taking an option back restores the counters). What survives a call
  (incumbent, node count, exhaustion) is the record \<open>search_state\<close>. The recursion depth is bounded by
  the number of sets, since every level covers one more set, so \<open>hs_search\<close> carries that bound as its
  structural argument and \<open>hs_search_spec\<close> shows that it is never reached.

  The lemmas: the solver's answer is a hitting set of minimum cost, then size, then sequence whenever
  it says so, whatever it prunes; it reports infeasibility exactly when some set has no option; the
  reference solver has the same optimum.
\<close>

section \<open>Instances and solutions\<close>

record hitting_instance =
  hi_sets :: "u64 list list"
  hi_options :: "(u64 \<times> u32) list"
  hi_max_nodes :: u64

record hitting_solution =
  hs_outcome :: containment_outcome
  hs_targets :: "u64 list"
  hs_total_cost :: u64
  hs_nodes_expanded :: u64
  hs_proved_minimum :: bool
  hs_proved_infeasible :: bool
  hs_unhittable_index :: nat
  hs_has_unhittable :: bool

definition blank_solution :: hitting_solution where
  "blank_solution = \<lparr>hs_outcome = Con_Invalid, hs_targets = [], hs_total_cost = 0, hs_nodes_expanded = 0,
     hs_proved_minimum = False, hs_proved_infeasible = False, hs_unhittable_index = 0, hs_has_unhittable = False\<rparr>"

definition objective_better :: "u64 list \<Rightarrow> u64 \<Rightarrow> u64 list \<Rightarrow> u64 \<Rightarrow> bool \<Rightarrow> bool" where
  "objective_better candidate candidate_cost incumbent incumbent_cost have_incumbent \<longleftrightarrow>
     (if \<not> have_incumbent then True
      else if candidate_cost \<noteq> incumbent_cost then candidate_cost < incumbent_cost
      else if length candidate \<noteq> length incumbent then length candidate < length incumbent
      else candidate < incumbent)"

section \<open>The search\<close>

record search_problem =
  sp_options :: "(u64 \<times> u32) list"
  sp_set_options :: "nat list list"
  sp_option_sets :: "nat list list"
  sp_budget :: u64

definition option_index :: "hitting_instance \<Rightarrow> u64 \<Rightarrow> nat option" where
  "option_index inst = index_map (map fst (hi_options inst))"

definition link_option :: "hitting_instance \<Rightarrow> nat list list \<Rightarrow> nat \<times> u64 \<Rightarrow> nat list list" where
  "link_option inst option_sets sr = (case option_index inst (snd sr) of None \<Rightarrow> option_sets
     | Some opt \<Rightarrow> option_sets[opt := option_sets ! opt @ [fst sr]])"

text \<open>The constructor: both incidence tables. The code returns at the first set without options;
  the tables are complete by then.\<close>

definition search_problem_of :: "hitting_instance \<Rightarrow> u64 \<Rightarrow> search_problem" where
  "search_problem_of inst budget = \<lparr>sp_options = hi_options inst,
     sp_set_options = map (\<lambda>set. sort_unique (List.map_filter (option_index inst) set)) (hi_sets inst),
     sp_option_sets = foldl (link_option inst) (replicate (length (hi_options inst)) [])
       (concat (map (\<lambda>s. map (Pair s) (hi_sets inst ! s)) [0..<length (hi_sets inst)])),
     sp_budget = budget\<rparr>"

definition unhittable_set :: "search_problem \<Rightarrow> nat option" where
  "unhittable_set p = find (\<lambda>s. sp_set_options p ! s = []) [0..<length (sp_set_options p)]"

definition option_cost :: "search_problem \<Rightarrow> nat \<Rightarrow> u64" where
  "option_cost p opt = ucast (snd (sp_options p ! opt))"

definition cover_option :: "search_problem \<Rightarrow> nat \<Rightarrow> nat list \<Rightarrow> nat list" where
  "cover_option p opt cover = foldl (\<lambda>c s. c[s := Suc (c ! s)]) cover (sp_option_sets p ! opt)"

definition uncover_option :: "search_problem \<Rightarrow> nat \<Rightarrow> nat list \<Rightarrow> nat list" where
  "uncover_option p opt cover = foldl (\<lambda>c s. if c ! s > 0 then c[s := c ! s - 1] else c) cover (sp_option_sets p ! opt)"

definition choose_step :: "search_problem \<Rightarrow> nat list \<Rightarrow> (nat \<times> nat) option \<Rightarrow> nat \<Rightarrow> (nat \<times> nat) option" where
  "choose_step p cover found s =
     (if cover ! s \<noteq> 0 then found
      else let size = length (sp_set_options p ! s)
           in case found of None \<Rightarrow> Some (s, size)
              | Some (chosen, chosen_size) \<Rightarrow>
                  if size < chosen_size \<or> (size = chosen_size \<and> s < chosen) then Some (s, size) else found)"

definition choose_branch_set :: "search_problem \<Rightarrow> nat list \<Rightarrow> nat option" where
  "choose_branch_set p cover = map_option fst (foldl (choose_step p cover) None [0..<length cover])"

record search_state =
  ss_best :: "u64 list"
  ss_best_cost :: u64
  ss_have_best :: bool
  ss_nodes :: u64
  ss_exhausted :: bool

definition start_search :: search_state where
  "start_search = \<lparr>ss_best = [], ss_best_cost = 0, ss_have_best = False, ss_nodes = 0, ss_exhausted = False\<rparr>"

definition solution_ids :: "search_problem \<Rightarrow> nat list \<Rightarrow> u64 list" where
  "solution_ids p current = sort (map (\<lambda>opt. fst (sp_options p ! opt)) current)"

definition offer_solution :: "search_problem \<Rightarrow> nat list \<Rightarrow> u64 \<Rightarrow> search_state \<Rightarrow> search_state" where
  "offer_solution p current running st =
     (if objective_better (solution_ids p current) running (ss_best st) (ss_best_cost st) (ss_have_best st)
      then st\<lparr>ss_best := solution_ids p current, ss_best_cost := running, ss_have_best := True\<rparr> else st)"

text \<open>One round of the option loop; \<open>deeper\<close> is the recursive call. The loop ends once the budget is gone.\<close>

definition try_option :: "search_problem \<Rightarrow> u64 \<Rightarrow> (nat \<Rightarrow> search_state \<Rightarrow> search_state) \<Rightarrow> nat \<Rightarrow> search_state \<Rightarrow>
    search_state" where
  "try_option p running deeper opt st =
     (if ss_exhausted st then st
      else if ss_have_best st \<and> running + option_cost p opt > ss_best_cost st then st
      else deeper opt st)"

primrec hs_search :: "nat \<Rightarrow> search_problem \<Rightarrow> nat list \<Rightarrow> nat list \<Rightarrow> u64 \<Rightarrow> search_state \<Rightarrow> search_state" where
  "hs_search 0 p cover current running st = st"
| "hs_search (Suc depth) p cover current running st =
     (if ss_exhausted st then st
      else let st = st\<lparr>ss_nodes := ss_nodes st + 1\<rparr>
           in if ss_nodes st > sp_budget p then st\<lparr>ss_exhausted := True\<rparr>
              else case choose_branch_set p cover of
                None \<Rightarrow> offer_solution p current running st
              | Some b \<Rightarrow> fold (try_option p running
                  (\<lambda>opt. hs_search depth p (cover_option p opt cover) (current @ [opt]) (running + option_cost p opt)))
                  (sp_set_options p ! b) st)"

definition run_search :: "search_problem \<Rightarrow> search_state" where
  "run_search p = hs_search (Suc (length (sp_set_options p))) p (replicate (length (sp_set_options p)) 0) [] 0 start_search"

definition search_solution :: "search_state \<Rightarrow> hitting_solution" where
  "search_solution st =
     (let sol = blank_solution\<lparr>hs_nodes_expanded := ss_nodes st\<rparr>
      in if ss_have_best st then
           sol\<lparr>hs_targets := ss_best st, hs_total_cost := ss_best_cost st, hs_proved_minimum := \<not> ss_exhausted st,
               hs_outcome := if ss_exhausted st then Con_PlanFeasible else Con_PlanOptimal\<rparr>
         else if ss_exhausted st then sol\<lparr>hs_outcome := Con_SearchLimitReached\<rparr>
         else sol\<lparr>hs_outcome := Con_ProvenInfeasible, hs_proved_infeasible := True\<rparr>)"

definition solve_hitting_set :: "hitting_instance \<Rightarrow> hitting_solution" where
  "solve_hitting_set inst =
     (let p = search_problem_of inst
        (if hi_max_nodes inst = 0 then max_containment_search_nodes default_limits else hi_max_nodes inst)
      in case unhittable_set p of
           Some s \<Rightarrow> blank_solution\<lparr>hs_outcome := Con_ProvenInfeasible, hs_proved_infeasible := True,
             hs_has_unhittable := True, hs_unhittable_index := s\<rparr>
         | None \<Rightarrow> if hi_sets inst = [] then
                blank_solution\<lparr>hs_outcome := Con_PlanOptimal, hs_proved_minimum := True\<rparr>
              else search_solution (run_search p))"

section \<open>The reference solver\<close>

record reference_state =
  rf_best :: "u64 list"
  rf_best_cost :: u64
  rf_have_best :: bool
  rf_unhittable :: nat
  rf_any_unhittable :: bool

definition mask_options :: "hitting_instance \<Rightarrow> nat \<Rightarrow> (u64 \<times> u32) list" where
  "mask_options inst m = map (\<lambda>i. hi_options inst ! i) (filter (\<lambda>i. bit m i) [0..<length (hi_options inst)])"

text \<open>The first set the choice misses, which is where the loop over the sets stops.\<close>

definition missed_set :: "hitting_instance \<Rightarrow> u64 list \<Rightarrow> nat option" where
  "missed_set inst chosen =
     find (\<lambda>s. \<not> (\<exists>r \<in> set (hi_sets inst ! s). binary_search chosen r)) [0..<length (hi_sets inst)]"

definition reference_step :: "hitting_instance \<Rightarrow> reference_state \<Rightarrow> nat \<Rightarrow> reference_state" where
  "reference_step inst st m =
     (let chosen = sort (map fst (mask_options inst m)); cost = sum_list (map (\<lambda>opt. ucast (snd opt)) (mask_options inst m))
      in case missed_set inst chosen of
           Some s \<Rightarrow> if hi_sets inst ! s = [] then st\<lparr>rf_any_unhittable := True, rf_unhittable := s\<rparr> else st
         | None \<Rightarrow> if objective_better chosen cost (rf_best st) (rf_best_cost st) (rf_have_best st)
             then st\<lparr>rf_best := chosen, rf_best_cost := cost, rf_have_best := True\<rparr> else st)"

definition solve_hitting_set_reference :: "hitting_instance \<Rightarrow> hitting_solution" where
  "solve_hitting_set_reference inst =
     (if length (hi_options inst) > 24 then blank_solution\<lparr>hs_outcome := Con_Unsupported\<rparr>
      else let st = foldl (reference_step inst)
                 \<lparr>rf_best = [], rf_best_cost = 0, rf_have_best = False, rf_unhittable = 0, rf_any_unhittable = False\<rparr>
                 [0..<2 ^ length (hi_options inst)]
           in if rf_have_best st then
                blank_solution\<lparr>hs_targets := rf_best st, hs_total_cost := rf_best_cost st, hs_proved_minimum := True,
                  hs_outcome := Con_PlanOptimal\<rparr>
              else blank_solution\<lparr>hs_proved_infeasible := True, hs_outcome := Con_ProvenInfeasible,
                  hs_has_unhittable := rf_any_unhittable st, hs_unhittable_index := rf_unhittable st\<rparr>)"

section \<open>The greedy recommendation\<close>

definition newly_hit :: "hitting_instance \<Rightarrow> bool list \<Rightarrow> u64 \<Rightarrow> nat list" where
  "newly_hit inst covered r =
     filter (\<lambda>s. \<not> covered ! s \<and> binary_search (hi_sets inst ! s) r) [0..<length (hi_sets inst)]"

text \<open>The best option so far with its gain and its cost.\<close>

definition greedy_step :: "hitting_instance \<Rightarrow> bool list \<Rightarrow> (nat \<times> nat \<times> u32) option \<Rightarrow> nat \<Rightarrow>
    (nat \<times> nat \<times> u32) option" where
  "greedy_step inst covered found opt =
     (let (r, cost) = hi_options inst ! opt; gain = length (newly_hit inst covered r)
      in if gain = 0 then found
         else case found of None \<Rightarrow> Some (opt, gain, cost)
            | Some (best, best_gain, best_cost) \<Rightarrow>
                if gain > best_gain \<or> (gain = best_gain \<and> cost < best_cost) \<or>
                   (gain = best_gain \<and> cost = best_cost \<and> r < fst (hi_options inst ! best))
                then Some (opt, gain, cost) else found)"

definition greedy_pick :: "hitting_instance \<Rightarrow> bool list \<Rightarrow> (nat \<times> nat \<times> u32) option" where
  "greedy_pick inst covered = foldl (greedy_step inst covered) None [0..<length (hi_options inst)]"

definition greedy_cover :: "hitting_instance \<Rightarrow> u64 \<Rightarrow> bool list \<Rightarrow> bool list" where
  "greedy_cover inst r covered = foldl (\<lambda>c s. c[s := True]) covered (newly_hit inst covered r)"

text \<open>The loop runs while a set is uncovered; every round covers one more, so it is bounded by their number.\<close>

primrec greedy_loop :: "nat \<Rightarrow> hitting_instance \<Rightarrow> bool list \<Rightarrow> u64 list \<Rightarrow> u64 list" where
  "greedy_loop 0 inst covered chosen = chosen"
| "greedy_loop (Suc rounds) inst covered chosen =
     (if list_all id covered then chosen
      else case greedy_pick inst covered of None \<Rightarrow> chosen
         | Some (best, _, _) \<Rightarrow>
             greedy_loop rounds inst (greedy_cover inst (fst (hi_options inst ! best)) covered)
               (chosen @ [fst (hi_options inst ! best)]))"

definition greedy_recommendation :: "hitting_instance \<Rightarrow> u64 list" where
  "greedy_recommendation inst =
     sort (greedy_loop (Suc (length (hi_sets inst))) inst (replicate (length (hi_sets inst)) False) [])"

section \<open>Objective and incidence\<close>

text \<open>The total order the search minimises, on the cost as a number.\<close>

definition objective :: "u64 list \<Rightarrow> nat \<Rightarrow> nat \<times> nat \<times> u64 list" where
  "objective ids cost = (cost, length ids, ids)"

lemma objective_better_iff:
  "objective_better xs c ys d have \<longleftrightarrow> \<not> have \<or> objective xs (unat c) < objective ys (unat d)"
  by (auto simp: objective_better_def objective_def less_prod_simp word_less_nat_alt word_unat_eq_iff)

lemma objective_inject: "objective xs c = objective ys d \<longleftrightarrow> xs = ys \<and> c = d"
  by (auto simp: objective_def)

definition instance_ok :: "hitting_instance \<Rightarrow> bool" where
  "instance_ok inst \<longleftrightarrow> distinct (map fst (hi_options inst)) \<and> length (hi_options inst) \<le> 2 ^ 32"

lemma link_option_length: "length (foldl (link_option inst) os srs) = length os"
  by (induction srs arbitrary: os) (auto simp: link_option_def split: option.split)

lemma link_option_members:
  assumes "instance_ok inst" "opt < length os" "length os = length (hi_options inst)"
  shows "s \<in> set (foldl (link_option inst) os srs ! opt) \<longleftrightarrow>
    s \<in> set (os ! opt) \<or> (\<exists>r. (s, r) \<in> set srs \<and> option_index inst r = Some opt)"
  using assms(2,3)
proof (induction srs arbitrary: os)
  case (Cons sr srs)
  obtain s' r where sr: "sr = (s', r)" by (cases sr)
  show ?case
  proof (cases "option_index inst r")
    case None
    then show ?thesis using Cons by (auto simp: sr link_option_def)
  next
    case (Some k)
    then have "k < length os"
      using assms(1) Cons.prems(2) by (auto simp: option_index_def instance_ok_def index_map_iff)
    with Some show ?thesis using Cons by (auto simp: sr link_option_def nth_list_update)
  qed
qed simp

text \<open>A problem is well formed when both incidence tables agree.\<close>

definition problem_ok :: "search_problem \<Rightarrow> bool" where
  "problem_ok p \<longleftrightarrow> distinct (map fst (sp_options p)) \<and> length (sp_options p) \<le> 2 ^ 32 \<and>
     length (sp_option_sets p) = length (sp_options p) \<and>
     (\<forall>s < length (sp_set_options p). \<forall>opt \<in> set (sp_set_options p ! s). opt < length (sp_options p)) \<and>
     (\<forall>opt < length (sp_options p). \<forall>s. s \<in> set (sp_option_sets p ! opt) \<longleftrightarrow>
        s < length (sp_set_options p) \<and> opt \<in> set (sp_set_options p ! s))"

lemma search_problem_fields:
  "sp_options (search_problem_of inst b) = hi_options inst"
  "length (sp_set_options (search_problem_of inst b)) = length (hi_sets inst)"
  "s < length (hi_sets inst) \<Longrightarrow> opt \<in> set (sp_set_options (search_problem_of inst b) ! s) \<longleftrightarrow>
     (\<exists>r \<in> set (hi_sets inst ! s). option_index inst r = Some opt)"
  by (auto simp: search_problem_of_def List.map_filter_def) force

lemma search_problem_ok:
  assumes "instance_ok inst"
  shows "problem_ok (search_problem_of inst b)"
proof -
  let ?p = "search_problem_of inst b"
  let ?srs = "concat (map (\<lambda>s. map (Pair s) (hi_sets inst ! s)) [0..<length (hi_sets inst)])"
  have tables: "sp_option_sets ?p = foldl (link_option inst) (replicate (length (hi_options inst)) []) ?srs"
    by (simp add: search_problem_of_def)
  have idx: "option_index inst r = Some opt \<Longrightarrow> opt < length (hi_options inst)" for r opt
    using assms by (auto simp: option_index_def instance_ok_def index_map_iff)
  have "s \<in> set (sp_option_sets ?p ! opt) \<longleftrightarrow> s < length (sp_set_options ?p) \<and> opt \<in> set (sp_set_options ?p ! s)"
    if "opt < length (hi_options inst)" for opt s
  proof -
    have "(s, r) \<in> set ?srs \<longleftrightarrow> s < length (hi_sets inst) \<and> r \<in> set (hi_sets inst ! s)" for r by auto
    then have "s \<in> set (sp_option_sets ?p ! opt) \<longleftrightarrow>
        s < length (hi_sets inst) \<and> (\<exists>r \<in> set (hi_sets inst ! s). option_index inst r = Some opt)"
      unfolding tables using that link_option_members[OF assms, of opt "replicate (length (hi_options inst)) []" s ?srs]
      by auto
    then show ?thesis by (auto simp: search_problem_fields)
  qed
  moreover have "length (sp_option_sets ?p) = length (hi_options inst)"
    unfolding tables link_option_length by simp
  ultimately show ?thesis
    using assms idx unfolding problem_ok_def instance_ok_def by (auto simp: search_problem_fields)
qed

section \<open>Choices and covers\<close>

text \<open>A choice of options, the sets it hits, its cost and its resources.\<close>

definition option_ids :: "search_problem \<Rightarrow> nat set \<Rightarrow> u64 list" where
  "option_ids p H = sorted_list_of_set ((\<lambda>opt. fst (sp_options p ! opt)) ` H)"

definition choice_cost :: "search_problem \<Rightarrow> nat set \<Rightarrow> nat" where
  "choice_cost p H = (\<Sum>opt \<in> H. unat (snd (sp_options p ! opt)))"

definition hits_all :: "search_problem \<Rightarrow> nat set \<Rightarrow> bool" where
  "hits_all p H \<longleftrightarrow> H \<subseteq> {..<length (sp_options p)} \<and>
     (\<forall>s < length (sp_set_options p). set (sp_set_options p ! s) \<inter> H \<noteq> {})"

definition choice_key :: "search_problem \<Rightarrow> nat set \<Rightarrow> nat \<times> nat \<times> u64 list" where
  "choice_key p H = objective (option_ids p H) (choice_cost p H)"

lemma options_inj:
  assumes "problem_ok p"
  shows "inj_on (\<lambda>opt. fst (sp_options p ! opt)) {..<length (sp_options p)}"
  using assms by (auto simp: problem_ok_def inj_on_def distinct_conv_nth)

lemma option_ids_length:
  assumes "problem_ok p" "H \<subseteq> {..<length (sp_options p)}"
  shows "length (option_ids p H) = card H"
  using card_image[OF inj_on_subset[OF options_inj[OF assms(1)] assms(2)]] by (simp add: option_ids_def)

lemma choice_cost_bound:
  assumes "problem_ok p" "H \<subseteq> {..<length (sp_options p)}"
  shows "choice_cost p H < 2 ^ 64"
proof (cases "H = {}")
  case False
  have f: "finite H" using assms(2) finite_subset by blast
  have "unat (snd (sp_options p ! opt)) \<le> 2 ^ 32 - 1" for opt
    using unsigned_less[of "snd (sp_options p ! opt)", where ?'a = nat] by simp
  then have "choice_cost p H \<le> card H * (2 ^ 32 - 1)"
    unfolding choice_cost_def using sum_bounded_above[of H "\<lambda>opt. unat (snd (sp_options p ! opt))"] by simp
  also have "card H \<le> 2 ^ 32"
    using card_mono[OF _ assms(2)] assms(1) by (simp add: problem_ok_def)
  then have "card H * (2 ^ 32 - 1) \<le> 2 ^ 32 * (2 ^ 32 - 1)" by (rule mult_le_mono1)
  finally show ?thesis by simp
qed (simp add: choice_cost_def)

lemma choice_key_mono:
  assumes "problem_ok p" "H \<subseteq> {..<length (sp_options p)}" "G \<subseteq> H"
  shows "choice_key p G \<le> choice_key p H"
proof (cases "G = H")
  case False
  have f: "finite H" using assms(2) finite_subset by blast
  then have "choice_cost p G \<le> choice_cost p H" unfolding choice_cost_def using assms(3) by (rule sum_mono2) simp
  moreover have "card G < card H" using psubset_card_mono[OF f] assms(3) False by blast
  then have "length (option_ids p G) < length (option_ids p H)"
    using option_ids_length[OF assms(1)] assms(2,3) by simp
  ultimately show ?thesis by (auto simp: choice_key_def objective_def less_eq_prod_simp)
qed simp

lemma solution_ids_eq:
  assumes "problem_ok p" "distinct cs" "set cs \<subseteq> {..<length (sp_options p)}"
  shows "solution_ids p cs = option_ids p (set cs)"
proof -
  have "distinct (map (\<lambda>opt. fst (sp_options p ! opt)) cs)"
    using assms(2) inj_on_subset[OF options_inj[OF assms(1)] assms(3)] by (simp add: distinct_map)
  then have "sort (map (\<lambda>opt. fst (sp_options p ! opt)) cs) = sorted_list_of_set (set (map (\<lambda>opt. fst (sp_options p ! opt)) cs))"
    by (simp only: sorted_list_of_set_sort_remdups distinct_remdups_id)
  then show ?thesis by (simp add: solution_ids_def option_ids_def)
qed

text \<open>The counters of a partial solution: a set is counted exactly when some taken option hits it.\<close>

definition covers :: "search_problem \<Rightarrow> nat list \<Rightarrow> nat list \<Rightarrow> bool" where
  "covers p current cover \<longleftrightarrow> length cover = length (sp_set_options p) \<and>
     (\<forall>s < length cover. cover ! s \<noteq> 0 \<longleftrightarrow> set (sp_set_options p ! s) \<inter> set current \<noteq> {})"

lemma bump_nth:
  "length (foldl (\<lambda>c s. c[s := Suc (c ! s)]) cover ss) = length cover"
  "s < length cover \<Longrightarrow> foldl (\<lambda>c s. c[s := Suc (c ! s)]) cover ss ! s = cover ! s + count_list ss s"
  by (induction ss arbitrary: cover) (auto simp: nth_list_update)

lemma unbump_bump:
  assumes "\<forall>s \<in> set ss. s < length cover"
  shows "foldl (\<lambda>c s. if c ! s > 0 then c[s := c ! s - 1] else c) (foldl (\<lambda>c s. c[s := Suc (c ! s)]) cover ss) ss = cover"
proof -
  let ?d = "\<lambda>c s. if c ! s > 0 then c[s := c ! s - 1] else c :: nat list"
  have l: "length (foldl ?d c ss) = length c" for c ss by (induction ss arbitrary: c) auto
  have n: "foldl ?d c ss ! s = c ! s - count_list ss s" if "s < length c" for c s ss
    using that by (induction ss arbitrary: c) (auto simp: nth_list_update)
  show ?thesis by (rule nth_equalityI) (simp_all only: l n bump_nth add_diff_cancel_right')
qed

text \<open>Taking an option back restores the counters, which is why the search can pass them down.\<close>

lemma uncover_cover:
  assumes "problem_ok p" "opt < length (sp_options p)" "length cover = length (sp_set_options p)"
  shows "uncover_option p opt (cover_option p opt cover) = cover"
  unfolding uncover_option_def cover_option_def
  using assms by (intro unbump_bump) (auto simp: problem_ok_def)

lemma covers_start: "covers p [] (replicate (length (sp_set_options p)) 0)"
  by (simp add: covers_def)

lemma covers_option:
  assumes "problem_ok p" "covers p current cover" "opt < length (sp_options p)"
  shows "covers p (current @ [opt]) (cover_option p opt cover)"
proof -
  have "cover_option p opt cover ! s \<noteq> 0 \<longleftrightarrow> cover ! s \<noteq> 0 \<or> opt \<in> set (sp_set_options p ! s)"
    if "s < length cover" for s
    using that assms by (auto simp: cover_option_def bump_nth problem_ok_def covers_def count_list_0_iff)
  then show ?thesis using assms(2) unfolding covers_def by (auto simp: cover_option_def bump_nth)
qed

lemma choose_fold:
  "foldl (choose_step p cover) found ss = Some (b, k) \<Longrightarrow> found = Some (b, k) \<or> (b \<in> set ss \<and> cover ! b = 0)"
  "foldl (choose_step p cover) found ss = None \<Longrightarrow> found = None \<and> (\<forall>s \<in> set ss. cover ! s \<noteq> 0)"
proof (induction ss arbitrary: found)
  case (Cons s ss)
  have step: "choose_step p cover f s = f \<and> (f = None \<longrightarrow> cover ! s \<noteq> 0) \<or>
      cover ! s = 0 \<and> (\<exists>k. choose_step p cover f s = Some (s, k))" for f
    by (auto simp: choose_step_def Let_def split: option.splits if_splits)
  {
    case 1
    then have "foldl (choose_step p cover) (choose_step p cover found s) ss = Some (b, k)" by simp
    from Cons.IH(1)[OF this] step[of found] show ?case by auto
  next
    case 2
    then have "foldl (choose_step p cover) (choose_step p cover found s) ss = None" by simp
    from Cons.IH(2)[OF this] step[of found] show ?case by auto
  }
qed simp_all

lemma choose_branch_set_cases:
  assumes "covers p current cover"
  obtains (branch) b where "choose_branch_set p cover = Some b" "b < length (sp_set_options p)"
      "set (sp_set_options p ! b) \<inter> set current = {}"
  | (leaf) "choose_branch_set p cover = None" "\<forall>s < length (sp_set_options p). set (sp_set_options p ! s) \<inter> set current \<noteq> {}"
proof (cases "foldl (choose_step p cover) None [0..<length cover]")
  case None
  then show thesis using choose_fold(2)[OF None] leaf assms by (auto simp: choose_branch_set_def covers_def)
next
  case (Some bk)
  then obtain b k where b: "foldl (choose_step p cover) None [0..<length cover] = Some (b, k)" by (cases bk) auto
  then have "b < length cover" "cover ! b = 0" using choose_fold(1)[OF b] by simp_all
  then show thesis using branch[of b] b assms by (auto simp: choose_branch_set_def covers_def)
qed

section \<open>The search is exact\<close>

definition best_key :: "search_state \<Rightarrow> nat \<times> nat \<times> u64 list" where
  "best_key st = objective (ss_best st) (unat (ss_best_cost st))"

text \<open>The incumbent is a hitting set with its true cost.\<close>

definition sound_state :: "search_problem \<Rightarrow> search_state \<Rightarrow> bool" where
  "sound_state p st \<longleftrightarrow> (ss_have_best st \<longrightarrow>
     (\<exists>H. hits_all p H \<and> ss_best st = option_ids p H \<and> unat (ss_best_cost st) = choice_cost p H))"

definition beats :: "search_problem \<Rightarrow> search_state \<Rightarrow> nat set \<Rightarrow> bool" where
  "beats p st H \<longleftrightarrow> ss_have_best st \<and> best_key st \<le> choice_key p H"

definition improves :: "search_state \<Rightarrow> search_state \<Rightarrow> bool" where
  "improves st st' \<longleftrightarrow> (ss_have_best st \<longrightarrow> ss_have_best st' \<and> best_key st' \<le> best_key st)"

text \<open>What a search promises about the hitting sets that extend its partial solution by some option of a list.\<close>

definition search_post :: "search_problem \<Rightarrow> (nat set \<Rightarrow> bool) \<Rightarrow> search_state \<Rightarrow> search_state \<Rightarrow> bool" where
  "search_post p covered st st' \<longleftrightarrow> sound_state p st' \<and> improves st st' \<and>
     (\<not> ss_exhausted st' \<longrightarrow> (\<forall>H. hits_all p H \<and> covered H \<longrightarrow> beats p st' H))"

lemma improves_trans: "improves a b \<Longrightarrow> improves b c \<Longrightarrow> improves a c"
  by (auto simp: improves_def)

lemma improves_beats: "improves st st' \<Longrightarrow> beats p st H \<Longrightarrow> beats p st' H"
  by (auto simp: improves_def beats_def)

lemma fold_try_exhausted: "ss_exhausted st \<Longrightarrow> fold (try_option p running deeper) opts st = st"
  by (induction opts) (simp_all add: try_option_def)

lemma fold_try_post:
  assumes "sound_state p st"
    and "\<And>opt st. opt \<in> set opts \<Longrightarrow> sound_state p st \<Longrightarrow>
      search_post p (\<lambda>H. covered H \<and> opt \<in> H) st (try_option p running deeper opt st)"
  shows "search_post p (\<lambda>H. covered H \<and> set opts \<inter> H \<noteq> {}) st (fold (try_option p running deeper) opts st)"
  using assms
proof (induction opts arbitrary: st)
  case Nil
  then show ?case by (simp add: search_post_def improves_def)
next
  case (Cons opt opts)
  let ?st = "try_option p running deeper opt st" and ?last = "fold (try_option p running deeper) (opt # opts) st"
  have one: "search_post p (\<lambda>H. covered H \<and> opt \<in> H) st ?st" using Cons.prems by simp
  then have rest: "search_post p (\<lambda>H. covered H \<and> set opts \<inter> H \<noteq> {}) ?st ?last"
    using Cons.IH[of ?st] Cons.prems(2) by (simp add: search_post_def)
  have exh: "\<not> ss_exhausted ?last \<Longrightarrow> \<not> ss_exhausted ?st" using fold_try_exhausted[of ?st p running deeper opts] by auto
  have imp: "improves ?st ?last" using rest by (simp add: search_post_def)
  have "beats p ?last H" if "\<not> ss_exhausted ?last" "hits_all p H" "covered H" "set (opt # opts) \<inter> H \<noteq> {}" for H
  proof (cases "opt \<in> H")
    case True
    then have "beats p ?st H" using one that exh by (simp add: search_post_def)
    then show ?thesis using imp improves_beats by blast
  next
    case False
    then show ?thesis using rest that by (auto simp: search_post_def)
  qed
  then show ?case using one rest improves_trans unfolding search_post_def by blast
qed

lemma unat_ucast_u32_u64 [simp]: "unat (ucast (x :: u32) :: u64) = unat x"
  using unsigned_less[of x, where ?'a = nat] by (simp add: unsigned_ucast_eq take_bit_nat_eq_self)

lemma unat_option_cost [simp]: "unat (option_cost p opt) = unat (snd (sp_options p ! opt))"
  by (simp add: option_cost_def)

text \<open>A partial solution as the search holds it.\<close>

definition partial_ok :: "search_problem \<Rightarrow> nat list \<Rightarrow> nat list \<Rightarrow> u64 \<Rightarrow> bool" where
  "partial_ok p cover current running \<longleftrightarrow> covers p current cover \<and> distinct current \<and>
     set current \<subseteq> {..<length (sp_options p)} \<and> unat running = choice_cost p (set current)"

lemma partial_extend:
  assumes "problem_ok p" "partial_ok p cover current running" "opt < length (sp_options p)" "opt \<notin> set current"
  shows "unat (running + option_cost p opt) = choice_cost p (insert opt (set current))"
    "partial_ok p (cover_option p opt cover) (current @ [opt]) (running + option_cost p opt)"
proof -
  have "choice_cost p (insert opt (set current)) < 2 ^ 64"
    using choice_cost_bound[OF assms(1)] assms(2,3) by (auto simp: partial_ok_def)
  moreover have "choice_cost p (insert opt (set current)) = unat running + unat (option_cost p opt)"
    using assms(2,4) by (simp add: choice_cost_def partial_ok_def)
  ultimately show cost: "unat (running + option_cost p opt) = choice_cost p (insert opt (set current))"
    using unat_add_lem[of running "option_cost p opt"] by simp
  then show "partial_ok p (cover_option p opt cover) (current @ [opt]) (running + option_cost p opt)"
    using assms covers_option[OF assms(1)] by (simp add: partial_ok_def)
qed

lemma offer_post:
  assumes "problem_ok p" "partial_ok p cover current running" "hits_all p (set current)" "sound_state p st"
  shows "search_post p (\<lambda>H. set current \<subseteq> H) st (offer_solution p current running st)"
proof -
  have ids: "solution_ids p current = option_ids p (set current)"
    using solution_ids_eq[OF assms(1)] assms(2) by (simp add: partial_ok_def)
  have key: "objective (solution_ids p current) (unat running) = choice_key p (set current)"
    using assms(2) by (simp add: ids choice_key_def partial_ok_def)
  have mono: "choice_key p (set current) \<le> choice_key p H" if "hits_all p H" "set current \<subseteq> H" for H
    using choice_key_mono[OF assms(1)] that by (simp add: hits_all_def)
  show ?thesis
  proof (cases "objective_better (solution_ids p current) running (ss_best st) (ss_best_cost st) (ss_have_best st)")
    case True
    then have "ss_have_best st \<longrightarrow> choice_key p (set current) \<le> best_key st"
      unfolding objective_better_iff key best_key_def by auto
    moreover have "unat running = choice_cost p (set current)" using assms(2) by (simp add: partial_ok_def)
    ultimately show ?thesis using True assms(3) mono key ids
      by (auto simp: search_post_def offer_solution_def sound_state_def improves_def beats_def best_key_def)
  next
    case False
    then have "ss_have_best st" "best_key st \<le> choice_key p (set current)"
      unfolding objective_better_iff key best_key_def by auto
    with False assms(4) mono show ?thesis
      by (fastforce simp: search_post_def offer_solution_def improves_def beats_def)
  qed
qed

text \<open>The sets a partial solution leaves open bound the depth of the recursion.\<close>

definition open_sets :: "search_problem \<Rightarrow> nat list \<Rightarrow> nat set" where
  "open_sets p current = {s. s < length (sp_set_options p) \<and> set (sp_set_options p ! s) \<inter> set current = {}}"

lemma open_sets_extend:
  assumes "b \<in> open_sets p current" "opt \<in> set (sp_set_options p ! b)"
  shows "card (open_sets p (current @ [opt])) < card (open_sets p current)"
  by (rule psubset_card_mono) (use assms in \<open>auto simp: open_sets_def\<close>)

lemma search_post_weaken:
  "search_post p covered st st' \<Longrightarrow> (\<And>H. hits_all p H \<Longrightarrow> covered' H \<Longrightarrow> covered H) \<Longrightarrow> search_post p covered' st st'"
  by (auto simp: search_post_def)

lemma search_post_nodes: "search_post p covered (st\<lparr>ss_nodes := n\<rparr>) st' \<Longrightarrow> search_post p covered st st'"
  by (simp add: search_post_def improves_def best_key_def)

theorem hs_search_spec:
  assumes "problem_ok p" "partial_ok p cover current running" "sound_state p st"
    and "card (open_sets p current) < depth"
  shows "search_post p (\<lambda>H. set current \<subseteq> H) st (hs_search depth p cover current running st)"
  using assms(2-4)
proof (induction depth arbitrary: cover current running st)
  case (Suc depth)
  note partial = Suc.prems(1)
  let ?st = "st\<lparr>ss_nodes := ss_nodes st + 1\<rparr>"
  have sound: "sound_state p ?st" using Suc.prems(2) by (simp add: sound_state_def)
  consider (exhausted) "ss_exhausted st" | (budget) "\<not> ss_exhausted st" "ss_nodes ?st > sp_budget p"
    | (within) "\<not> ss_exhausted st" "\<not> ss_nodes ?st > sp_budget p" by blast
  then show ?case
  proof cases
    case exhausted
    then show ?thesis using Suc.prems(2) by (simp add: search_post_def improves_def)
  next
    case budget
    then show ?thesis using Suc.prems(2)
      by (simp add: search_post_def improves_def sound_state_def best_key_def)
  next
    case within
    have "covers p current cover" using partial by (simp add: partial_ok_def)
    then show ?thesis
    proof (cases rule: choose_branch_set_cases)
      case leaf
      then have "hits_all p (set current)" using partial by (simp add: hits_all_def partial_ok_def)
      then show ?thesis using within leaf offer_post[OF assms(1) partial _ sound] search_post_nodes by simp
    next
      case (branch b)
      have bopen: "b \<in> open_sets p current" using branch by (simp add: open_sets_def)
      let ?deeper = "\<lambda>opt. hs_search depth p (cover_option p opt cover) (current @ [opt]) (running + option_cost p opt)"
      have "search_post p (\<lambda>H. set current \<subseteq> H \<and> opt \<in> H) s (try_option p running ?deeper opt s)"
        if opt: "opt \<in> set (sp_set_options p ! b)" and s: "sound_state p s" for opt s
      proof -
        have "opt < length (sp_options p)" "opt \<notin> set current"
          using opt branch assms(1) by (auto simp: problem_ok_def)
        note ext = partial_extend[OF assms(1) partial this]
        have "card (open_sets p (current @ [opt])) < depth"
          using open_sets_extend[OF bopen opt] Suc.prems(3) by simp
        then have deep: "search_post p (\<lambda>H. set current \<subseteq> H \<and> opt \<in> H) s (?deeper opt s)"
          by (rule search_post_weaken[OF Suc.IH[OF ext(2) s]]) simp
        have pruned: "beats p s H" if "ss_have_best s" "running + option_cost p opt > ss_best_cost s"
          "hits_all p H" "set current \<subseteq> H \<and> opt \<in> H" for H
        proof -
          have f: "finite H" using that(3) finite_subset by (auto simp: hits_all_def)
          have "unat (ss_best_cost s) < choice_cost p (insert opt (set current))"
            using that(2) ext(1) by (simp add: word_less_nat_alt)
          also have "\<dots> \<le> choice_cost p H"
            unfolding choice_cost_def using f that(4) by (intro sum_mono2) auto
          finally show ?thesis using that(1) by (simp add: beats_def best_key_def choice_key_def objective_def less_eq_prod_simp)
        qed
        show ?thesis using deep s pruned by (auto simp: try_option_def search_post_def improves_def)
      qed
      from fold_try_post[OF sound this] have "search_post p (\<lambda>H. set current \<subseteq> H \<and> set (sp_set_options p ! b) \<inter> H \<noteq> {}) ?st
          (fold (try_option p running ?deeper) (sp_set_options p ! b) ?st)" .
      then have "search_post p (\<lambda>H. set current \<subseteq> H) ?st (fold (try_option p running ?deeper) (sp_set_options p ! b) ?st)"
        by (rule search_post_weaken) (use branch in \<open>auto simp: hits_all_def\<close>)
      then show ?thesis using within branch search_post_nodes by simp
    qed
  qed
qed simp

lemma run_search_post:
  assumes "problem_ok p"
  shows "search_post p (\<lambda>H. True) start_search (run_search p)"
proof -
  have "card (open_sets p []) \<le> length (sp_set_options p)"
    using card_mono[of "{..<length (sp_set_options p)}" "open_sets p []"] by (auto simp: open_sets_def)
  then have "search_post p (\<lambda>H. set [] \<subseteq> H) start_search (run_search p)" unfolding run_search_def
    by (intro hs_search_spec[OF assms])
       (simp_all add: partial_ok_def covers_start choice_cost_def sound_state_def start_search_def)
  then show ?thesis by simp
qed

section \<open>What the solver answers\<close>

text \<open>A hitting set of an instance, as the resources it names, in canonical order.\<close>

definition is_hitting_set :: "hitting_instance \<Rightarrow> u64 list \<Rightarrow> bool" where
  "is_hitting_set inst R \<longleftrightarrow> sorted_wrt (<) R \<and> set R \<subseteq> fst ` set (hi_options inst) \<and>
     (\<forall>S \<in> set (hi_sets inst). set S \<inter> set R \<noteq> {})"

definition resources_cost :: "hitting_instance \<Rightarrow> u64 list \<Rightarrow> nat" where
  "resources_cost inst R = (\<Sum>r \<leftarrow> R. unat (the (map_of (hi_options inst) r)))"

definition resources_key :: "hitting_instance \<Rightarrow> u64 list \<Rightarrow> nat \<times> nat \<times> u64 list" where
  "resources_key inst R = objective R (resources_cost inst R)"

definition choice_of :: "hitting_instance \<Rightarrow> u64 list \<Rightarrow> nat set" where
  "choice_of inst R = {opt. opt < length (hi_options inst) \<and> fst (hi_options inst ! opt) \<in> set R}"

lemma option_index_eq:
  assumes "instance_ok inst"
  shows "option_index inst r = Some opt \<longleftrightarrow> opt < length (hi_options inst) \<and> fst (hi_options inst ! opt) = r"
  using assms by (auto simp: option_index_def instance_ok_def index_map_iff)

lemma set_options_iff:
  assumes "instance_ok inst" "s < length (hi_sets inst)"
  shows "opt \<in> set (sp_set_options (search_problem_of inst b) ! s) \<longleftrightarrow>
    opt < length (hi_options inst) \<and> fst (hi_options inst ! opt) \<in> set (hi_sets inst ! s)"
  unfolding search_problem_fields(3)[OF assms(2)] option_index_eq[OF assms(1)] by auto

lemma choice_resources:
  fixes b :: u64
  assumes "instance_ok inst" "H \<subseteq> {..<length (hi_options inst)}"
  defines "p \<equiv> search_problem_of inst b"
  shows "sorted_wrt (<) (option_ids p H)" "set (option_ids p H) = (\<lambda>opt. fst (hi_options inst ! opt)) ` H"
    "choice_cost p H = resources_cost inst (option_ids p H)"
    "hits_all p H \<longleftrightarrow> is_hitting_set inst (option_ids p H)"
proof -
  have pok: "problem_ok p" unfolding p_def by (rule search_problem_ok[OF assms(1)])
  have opts: "sp_options p = hi_options inst" by (simp add: p_def search_problem_fields)
  have f: "finite H" using assms(2) finite_subset by blast
  show sorted: "sorted_wrt (<) (option_ids p H)" by (simp add: option_ids_def)
  show ids: "set (option_ids p H) = (\<lambda>opt. fst (hi_options inst ! opt)) ` H"
    using f by (simp add: option_ids_def opts)
  have inj: "inj_on (\<lambda>opt. fst (hi_options inst ! opt)) H"
    using inj_on_subset[OF options_inj[OF pok]] assms(2) by (simp add: opts)
  have cost: "the (map_of (hi_options inst) (fst (hi_options inst ! opt))) = snd (hi_options inst ! opt)"
    if "opt < length (hi_options inst)" for opt
  proof -
    have "(fst (hi_options inst ! opt), snd (hi_options inst ! opt)) \<in> set (hi_options inst)" using that by simp
    then have "map_of (hi_options inst) (fst (hi_options inst ! opt)) = Some (snd (hi_options inst ! opt))"
      using assms(1) by (intro map_of_is_SomeI) (simp_all add: instance_ok_def)
    then show ?thesis by simp
  qed
  have "resources_cost inst (option_ids p H) = (\<Sum>r \<in> set (option_ids p H). unat (the (map_of (hi_options inst) r)))"
    unfolding resources_cost_def using sorted by (intro sum_list_distinct_conv_sum_set) (simp add: strict_sorted_iff)
  also have "\<dots> = (\<Sum>opt \<in> H. unat (snd (hi_options inst ! opt)))"
    unfolding ids using assms(2) cost by (subst sum.reindex[OF inj]) (auto intro!: sum.cong)
  finally show "choice_cost p H = resources_cost inst (option_ids p H)" by (simp add: choice_cost_def opts)
  have "set (sp_set_options p ! s) \<inter> H \<noteq> {} \<longleftrightarrow> set (hi_sets inst ! s) \<inter> set (option_ids p H) \<noteq> {}"
    if "s < length (hi_sets inst)" for s
    unfolding ids unfolding p_def using assms(2) set_options_iff[OF assms(1) that, of _ b] by auto
  then show "hits_all p H \<longleftrightarrow> is_hitting_set inst (option_ids p H)"
    using assms(2) sorted ids
    by (auto simp: hits_all_def is_hitting_set_def opts p_def search_problem_fields all_set_conv_all_nth)
qed

lemma choice_of_ids:
  assumes "instance_ok inst" "sorted_wrt (<) R" "set R \<subseteq> fst ` set (hi_options inst)"
  shows "option_ids (search_problem_of inst b) (choice_of inst R) = R"
proof -
  have sub: "choice_of inst R \<subseteq> {..<length (hi_options inst)}" by (auto simp: choice_of_def)
  note c = choice_resources[OF assms(1) sub, of b]
  have "set (option_ids (search_problem_of inst b) (choice_of inst R)) = set R"
    unfolding c(2) using assms(3) by (fastforce simp: choice_of_def in_set_conv_nth image_iff)
  then show ?thesis using c(1) assms(2) by (intro strict_sorted_equal) simp_all
qed

text \<open>A choice that beats every covering choice names the least hitting set.\<close>

lemma choice_key_resources:
  assumes "instance_ok inst" "H \<subseteq> {..<length (hi_options inst)}"
  shows "choice_key (search_problem_of inst b) H = resources_key inst (option_ids (search_problem_of inst b) H)"
  using choice_resources(3)[OF assms] by (simp add: choice_key_def resources_key_def)

lemma hitting_set_choice:
  assumes "instance_ok inst" "is_hitting_set inst R"
  shows "hits_all (search_problem_of inst b) (choice_of inst R)"
    "choice_key (search_problem_of inst b) (choice_of inst R) = resources_key inst R"
proof -
  have sub: "choice_of inst R \<subseteq> {..<length (hi_options inst)}" by (auto simp: choice_of_def)
  have ids: "option_ids (search_problem_of inst b) (choice_of inst R) = R"
    using choice_of_ids[OF assms(1)] assms(2) by (simp add: is_hitting_set_def)
  show "hits_all (search_problem_of inst b) (choice_of inst R)"
    using choice_resources(4)[OF assms(1) sub] assms(2) ids by simp
  show "choice_key (search_problem_of inst b) (choice_of inst R) = resources_key inst R"
    using choice_key_resources[OF assms(1) sub] ids by simp
qed

lemma unhittable_set_iff:
  assumes "instance_ok inst"
  shows "unhittable_set (search_problem_of inst b) = None \<longleftrightarrow>
      (\<forall>S \<in> set (hi_sets inst). set S \<inter> fst ` set (hi_options inst) \<noteq> {})"
    "unhittable_set (search_problem_of inst b) = Some s \<Longrightarrow> s < length (hi_sets inst) \<and>
      set (hi_sets inst ! s) \<inter> fst ` set (hi_options inst) = {}"
proof -
  let ?p = "search_problem_of inst b"
  have empty: "sp_set_options ?p ! s = [] \<longleftrightarrow> set (hi_sets inst ! s) \<inter> fst ` set (hi_options inst) = {}"
    if "s < length (hi_sets inst)" for s
  proof -
    have "sp_set_options ?p ! s = [] \<longleftrightarrow> (\<nexists>opt. opt \<in> set (sp_set_options ?p ! s))" by (simp flip: set_empty)
    also have "\<dots> \<longleftrightarrow> (\<nexists>z. z \<in> set (hi_options inst) \<and> fst z \<in> set (hi_sets inst ! s))"
      unfolding set_options_iff[OF assms that] by (metis in_set_conv_nth)
    also have "\<dots> \<longleftrightarrow> set (hi_sets inst ! s) \<inter> fst ` set (hi_options inst) = {}" by blast
    finally show ?thesis .
  qed
  show "unhittable_set ?p = None \<longleftrightarrow> (\<forall>S \<in> set (hi_sets inst). set S \<inter> fst ` set (hi_options inst) \<noteq> {})"
    using empty by (auto simp: unhittable_set_def find_None_iff search_problem_fields all_set_conv_all_nth)
  show "s < length (hi_sets inst) \<and> set (hi_sets inst ! s) \<inter> fst ` set (hi_options inst) = {}"
    if "unhittable_set ?p = Some s"
  proof -
    have "s < length (hi_sets inst)" "sp_set_options ?p ! s = []"
      using that unfolding unhittable_set_def find_Some_iff by (auto simp: search_problem_fields)
    then show ?thesis using empty by simp
  qed
qed

lemma unhittable_no_hitting_set:
  assumes "S \<in> set (hi_sets inst)" "set S \<inter> fst ` set (hi_options inst) = {}"
  shows "\<not> is_hitting_set inst R"
  using assms unfolding is_hitting_set_def by blast

text \<open>Every option together hits every set that can be hit, so the search finds something.\<close>

lemma run_search_result:
  fixes b :: u64
  assumes "instance_ok inst" "\<forall>S \<in> set (hi_sets inst). set S \<inter> fst ` set (hi_options inst) \<noteq> {}"
  defines "st \<equiv> run_search (search_problem_of inst b)"
  shows "ss_have_best st \<or> ss_exhausted st"
    "ss_have_best st \<Longrightarrow> is_hitting_set inst (ss_best st) \<and> unat (ss_best_cost st) = resources_cost inst (ss_best st)"
    "\<not> ss_exhausted st \<Longrightarrow> is_hitting_set inst R \<Longrightarrow> resources_key inst (ss_best st) \<le> resources_key inst R"
proof -
  let ?p = "search_problem_of inst b" and ?R = "sorted_list_of_set (fst ` set (hi_options inst))"
  have post: "search_post ?p (\<lambda>H. True) start_search st"
    unfolding st_def by (rule run_search_post[OF search_problem_ok[OF assms(1)]])
  have beat: "beats ?p st (choice_of inst R)" if "\<not> ss_exhausted st" "is_hitting_set inst R" for R
    using post that hitting_set_choice(1)[OF assms(1) that(2)] by (simp add: search_post_def)
  have "is_hitting_set inst ?R" using assms(2) by (auto simp: is_hitting_set_def)
  with beat show "ss_have_best st \<or> ss_exhausted st" by (auto simp: beats_def)
  show best: "is_hitting_set inst (ss_best st) \<and> unat (ss_best_cost st) = resources_cost inst (ss_best st)"
    if found: "ss_have_best st"
  proof -
    obtain H where H: "hits_all ?p H" "ss_best st = option_ids ?p H" "unat (ss_best_cost st) = choice_cost ?p H"
      using post found by (auto simp: search_post_def sound_state_def)
    then have "H \<subseteq> {..<length (hi_options inst)}" by (simp add: hits_all_def search_problem_fields)
    note c = choice_resources[OF assms(1) this, of b]
    show ?thesis using H c by simp
  qed
  show "resources_key inst (ss_best st) \<le> resources_key inst R" if "\<not> ss_exhausted st" "is_hitting_set inst R"
    using beat[OF that] best hitting_set_choice(2)[OF assms(1) that(2)]
    by (simp add: beats_def best_key_def resources_key_def)
qed

lemma solve_hitting_set_spec:
  assumes "instance_ok inst"
  defines "sol \<equiv> solve_hitting_set inst"
  shows "hs_outcome sol \<in> {Con_PlanOptimal, Con_PlanFeasible} \<Longrightarrow>
      is_hitting_set inst (hs_targets sol) \<and> unat (hs_total_cost sol) = resources_cost inst (hs_targets sol)"
    "hs_outcome sol = Con_PlanOptimal \<Longrightarrow> is_hitting_set inst R \<Longrightarrow>
      resources_key inst (hs_targets sol) \<le> resources_key inst R"
    "hs_outcome sol = Con_ProvenInfeasible \<longleftrightarrow> (\<nexists>R. is_hitting_set inst R)"
    "hs_outcome sol \<in> {Con_PlanOptimal, Con_PlanFeasible, Con_ProvenInfeasible, Con_SearchLimitReached}"
    "hs_proved_minimum sol \<longleftrightarrow> hs_outcome sol = Con_PlanOptimal"
    "hs_proved_infeasible sol \<longleftrightarrow> hs_outcome sol = Con_ProvenInfeasible"
    "hs_outcome sol = Con_ProvenInfeasible \<Longrightarrow> hs_has_unhittable sol \<and> hs_unhittable_index sol < length (hi_sets inst) \<and>
       set (hi_sets inst ! hs_unhittable_index sol) \<inter> fst ` set (hi_options inst) = {}"
    "hs_outcome sol \<in> {Con_ProvenInfeasible, Con_SearchLimitReached} \<Longrightarrow> hs_targets sol = []"
proof -
  let ?b = "if hi_max_nodes inst = 0 then max_containment_search_nodes default_limits else hi_max_nodes inst"
  let ?p = "search_problem_of inst ?b" and ?R = "sorted_list_of_set (fst ` set (hi_options inst))"
  have "(hs_outcome sol \<in> {Con_PlanOptimal, Con_PlanFeasible} \<longrightarrow>
      is_hitting_set inst (hs_targets sol) \<and> unat (hs_total_cost sol) = resources_cost inst (hs_targets sol)) \<and>
    (hs_outcome sol = Con_PlanOptimal \<longrightarrow> (\<forall>R. is_hitting_set inst R \<longrightarrow>
      resources_key inst (hs_targets sol) \<le> resources_key inst R)) \<and>
    (hs_outcome sol = Con_ProvenInfeasible \<longleftrightarrow> (\<nexists>R. is_hitting_set inst R)) \<and>
    hs_outcome sol \<in> {Con_PlanOptimal, Con_PlanFeasible, Con_ProvenInfeasible, Con_SearchLimitReached} \<and>
    (hs_proved_minimum sol \<longleftrightarrow> hs_outcome sol = Con_PlanOptimal) \<and>
    (hs_proved_infeasible sol \<longleftrightarrow> hs_outcome sol = Con_ProvenInfeasible) \<and>
    (hs_outcome sol = Con_ProvenInfeasible \<longrightarrow> hs_has_unhittable sol \<and> hs_unhittable_index sol < length (hi_sets inst) \<and>
       set (hi_sets inst ! hs_unhittable_index sol) \<inter> fst ` set (hi_options inst) = {}) \<and>
    (hs_outcome sol \<in> {Con_ProvenInfeasible, Con_SearchLimitReached} \<longrightarrow> hs_targets sol = [])" (is ?all)
  proof (cases "unhittable_set ?p")
    case (Some s)
    note bad = unhittable_set_iff(2)[OF assms(1) Some]
    have "\<not> is_hitting_set inst R" for R
      by (rule unhittable_no_hitting_set[of "hi_sets inst ! s"]) (use bad in simp_all)
    with bad Some show ?thesis by (simp add: sol_def solve_hitting_set_def Let_def blank_solution_def)
  next
    case None
    note good = None[unfolded unhittable_set_iff(1)[OF assms(1)]]
    then have R: "is_hitting_set inst ?R" by (auto simp: is_hitting_set_def)
    show ?thesis
    proof (cases "hi_sets inst = []")
      case True
      then have "sol = blank_solution\<lparr>hs_outcome := Con_PlanOptimal, hs_proved_minimum := True\<rparr>"
        using None by (simp add: sol_def solve_hitting_set_def Let_def)
      moreover have "is_hitting_set inst []" using True by (simp add: is_hitting_set_def)
      moreover have "resources_key inst [] \<le> resources_key inst R" for R
        by (cases R) (auto simp: resources_key_def objective_def resources_cost_def less_eq_prod_simp)
      ultimately show ?thesis by (auto simp: blank_solution_def resources_cost_def)
    next
      case False
      have sol: "sol = search_solution (run_search ?p)"
        using None False by (simp add: sol_def solve_hitting_set_def Let_def)
      note run = run_search_result[OF assms(1) good, of ?b]
      show ?thesis unfolding sol using run R
        by (auto simp: search_solution_def Let_def blank_solution_def)
    qed
  qed
  then show "hs_outcome sol \<in> {Con_PlanOptimal, Con_PlanFeasible} \<Longrightarrow>
      is_hitting_set inst (hs_targets sol) \<and> unat (hs_total_cost sol) = resources_cost inst (hs_targets sol)"
    "hs_outcome sol = Con_PlanOptimal \<Longrightarrow> is_hitting_set inst R \<Longrightarrow>
      resources_key inst (hs_targets sol) \<le> resources_key inst R"
    "hs_outcome sol = Con_ProvenInfeasible \<longleftrightarrow> (\<nexists>R. is_hitting_set inst R)"
    "hs_outcome sol \<in> {Con_PlanOptimal, Con_PlanFeasible, Con_ProvenInfeasible, Con_SearchLimitReached}"
    "hs_proved_minimum sol \<longleftrightarrow> hs_outcome sol = Con_PlanOptimal"
    "hs_proved_infeasible sol \<longleftrightarrow> hs_outcome sol = Con_ProvenInfeasible"
    "hs_outcome sol = Con_ProvenInfeasible \<Longrightarrow> hs_has_unhittable sol \<and> hs_unhittable_index sol < length (hi_sets inst) \<and>
       set (hi_sets inst ! hs_unhittable_index sol) \<inter> fst ` set (hi_options inst) = {}"
    "hs_outcome sol \<in> {Con_ProvenInfeasible, Con_SearchLimitReached} \<Longrightarrow> hs_targets sol = []"
    by blast+
qed

section \<open>The reference solver has the same answer\<close>

definition mask_choice :: "hitting_instance \<Rightarrow> nat \<Rightarrow> nat set" where
  "mask_choice inst m = {opt. opt < length (hi_options inst) \<and> bit m opt}"

lemma mask_exists:
  "\<exists>m < 2 ^ n. \<forall>i < n. bit (m :: nat) i \<longleftrightarrow> i \<in> H"
proof (induction n)
  case (Suc n)
  then obtain m :: nat where m: "m < 2 ^ n" "\<forall>i < n. bit m i \<longleftrightarrow> i \<in> H" by blast
  have high: "i < n" if "bit m i" for i
    using m(1) that by (metis bit_take_bit_iff take_bit_nat_eq_self)
  let ?m = "if n \<in> H then set_bit n m else m"
  have bits: "bit ?m i \<longleftrightarrow> bit m i \<or> (i = n \<and> n \<in> H)" for i by (auto simp: bit_set_bit_iff)
  have "?m = take_bit (Suc n) ?m"
    by (rule bit_eqI) (use bits high in \<open>auto simp: bit_take_bit_iff dest: less_SucI\<close>)
  then have "?m < 2 ^ Suc n" by (metis take_bit_nat_less_exp)
  moreover have "\<forall>i < Suc n. bit ?m i \<longleftrightarrow> i \<in> H" using m(2) bits high by (auto simp: less_Suc_eq)
  ultimately show ?case by blast
qed simp

lemma sum_list_ucast:
  "(sum_list (map (\<lambda>z. ucast (snd z)) xs) :: u64) = word_of_nat (\<Sum>z \<leftarrow> xs. unat (snd z :: u32))"
  by (induction xs) simp_all

lemma mask_options_spec:
  fixes b :: u64
  assumes "instance_ok inst"
  defines "p \<equiv> search_problem_of inst b"
  shows "sort (map fst (mask_options inst m)) = option_ids p (mask_choice inst m)"
    "unat (sum_list (map (\<lambda>z. ucast (snd z)) (mask_options inst m)) :: u64) = choice_cost p (mask_choice inst m)"
proof -
  let ?is = "filter (bit m) [0..<length (hi_options inst)]"
  have pok: "problem_ok p" unfolding p_def by (rule search_problem_ok[OF assms(1)])
  have opts: "sp_options p = hi_options inst" by (simp add: p_def search_problem_fields)
  have set_is: "set ?is = mask_choice inst m" by (auto simp: mask_choice_def)
  have sub: "mask_choice inst m \<subseteq> {..<length (sp_options p)}" by (auto simp: mask_choice_def opts)
  show "sort (map fst (mask_options inst m)) = option_ids p (mask_choice inst m)"
    using solution_ids_eq[OF pok, of ?is, unfolded set_is] sub
    by (simp add: solution_ids_def mask_options_def opts comp_def)
  have "(\<Sum>z \<leftarrow> mask_options inst m. unat (snd z)) = choice_cost p (mask_choice inst m)"
    unfolding choice_cost_def set_is[symmetric]
    by (simp add: mask_options_def comp_def opts sum_list_distinct_conv_sum_set)
  then show "unat (sum_list (map (\<lambda>z. ucast (snd z)) (mask_options inst m)) :: u64) = choice_cost p (mask_choice inst m)"
    unfolding sum_list_ucast using choice_cost_bound[OF pok sub] by (simp add: unat_of_nat take_bit_nat_eq_self)
qed

lemma missed_set_None:
  assumes "sorted chosen"
  shows "missed_set inst chosen = None \<longleftrightarrow> (\<forall>S \<in> set (hi_sets inst). set S \<inter> set chosen \<noteq> {})"
proof -
  have hit: "(\<exists>r \<in> set S. binary_search chosen r) \<longleftrightarrow> set S \<inter> set chosen \<noteq> {}" for S using assms by auto
  have "missed_set inst chosen = None \<longleftrightarrow> (\<forall>s < length (hi_sets inst). set (hi_sets inst ! s) \<inter> set chosen \<noteq> {})"
    unfolding missed_set_def find_None_iff hit by auto
  then show ?thesis by (simp add: all_set_conv_all_nth)
qed

text \<open>After any masks, the incumbent is the least hitting set among them.\<close>

definition reference_post :: "hitting_instance \<Rightarrow> nat set \<Rightarrow> reference_state \<Rightarrow> bool" where
  "reference_post inst ms st \<longleftrightarrow>
     (rf_have_best st \<longrightarrow> is_hitting_set inst (rf_best st) \<and> unat (rf_best_cost st) = resources_cost inst (rf_best st)) \<and>
     (\<forall>m \<in> ms. is_hitting_set inst (option_ids (search_problem_of inst 0) (mask_choice inst m)) \<longrightarrow>
        rf_have_best st \<and>
        resources_key inst (rf_best st) \<le> resources_key inst (option_ids (search_problem_of inst 0) (mask_choice inst m)))"

lemma reference_step_post:
  assumes "instance_ok inst" "reference_post inst ms st"
  shows "reference_post inst (insert m ms) (reference_step inst st m)"
proof -
  let ?ids = "option_ids (search_problem_of inst 0) (mask_choice inst m)"
  let ?cost = "sum_list (map (\<lambda>z. ucast (snd z)) (mask_options inst m)) :: u64"
  have sub: "mask_choice inst m \<subseteq> {..<length (hi_options inst)}" by (auto simp: mask_choice_def)
  note c = choice_resources[OF assms(1) sub, of 0]
  note spec = mask_options_spec[OF assms(1), of m 0]
  have cost: "unat ?cost = resources_cost inst ?ids" using spec(2) c(3) by simp
  have hit: "is_hitting_set inst ?ids \<longleftrightarrow> missed_set inst ?ids = None"
    using c(1,2) sub missed_set_None[of ?ids inst] by (auto simp: is_hitting_set_def strict_sorted_iff)
  have better: "objective_better ?ids ?cost (rf_best st) (rf_best_cost st) (rf_have_best st) \<longleftrightarrow>
      \<not> rf_have_best st \<or> resources_key inst ?ids < resources_key inst (rf_best st)"
    using assms(2) unfolding objective_better_iff cost by (auto simp: reference_post_def resources_key_def)
  show ?thesis
  proof (cases "missed_set inst ?ids")
    case None
    then show ?thesis using assms(2) hit better cost
      by (auto simp: reference_step_def Let_def spec(1) reference_post_def not_less)
  next
    case (Some s)
    then show ?thesis using assms(2) hit
      by (auto simp: reference_step_def Let_def spec(1) reference_post_def)
  qed
qed

lemma reference_fold_post:
  assumes "instance_ok inst" "reference_post inst ms st"
  shows "reference_post inst (ms \<union> set xs) (foldl (reference_step inst) st xs)"
  using assms(2)
proof (induction xs arbitrary: ms st)
  case (Cons m xs)
  from Cons.IH[OF reference_step_post[OF assms(1) Cons.prems, of m]] show ?case by simp
qed simp

lemma solve_reference_spec:
  assumes "instance_ok inst" "length (hi_options inst) \<le> 24"
  defines "sol \<equiv> solve_hitting_set_reference inst"
  shows "(\<exists>R. is_hitting_set inst R) \<Longrightarrow> hs_outcome sol = Con_PlanOptimal \<and> hs_proved_minimum sol \<and>
      \<not> hs_proved_infeasible sol \<and> is_hitting_set inst (hs_targets sol) \<and>
      unat (hs_total_cost sol) = resources_cost inst (hs_targets sol)"
    "is_hitting_set inst R \<Longrightarrow> resources_key inst (hs_targets sol) \<le> resources_key inst R"
    "\<nexists>R. is_hitting_set inst R \<Longrightarrow> hs_outcome sol = Con_ProvenInfeasible \<and> hs_proved_infeasible sol \<and>
      \<not> hs_proved_minimum sol \<and> hs_targets sol = [] \<and> hs_total_cost sol = 0"
proof -
  let ?start = "\<lparr>rf_best = [], rf_best_cost = 0, rf_have_best = False, rf_unhittable = 0, rf_any_unhittable = False\<rparr>"
  define st where "st = foldl (reference_step inst) ?start [0..<2 ^ length (hi_options inst)]"
  have "reference_post inst {} ?start" by (simp add: reference_post_def)
  from reference_fold_post[OF assms(1) this, of "[0..<2 ^ length (hi_options inst)]"]
  have post: "reference_post inst {..<2 ^ length (hi_options inst)} st"
    by (simp add: st_def atLeast0LessThan)
  have sol: "sol = (if rf_have_best st then
        blank_solution\<lparr>hs_targets := rf_best st, hs_total_cost := rf_best_cost st, hs_proved_minimum := True,
          hs_outcome := Con_PlanOptimal\<rparr>
      else blank_solution\<lparr>hs_proved_infeasible := True, hs_outcome := Con_ProvenInfeasible,
          hs_has_unhittable := rf_any_unhittable st, hs_unhittable_index := rf_unhittable st\<rparr>)"
    using assms(2) by (simp add: sol_def solve_hitting_set_reference_def Let_def st_def)
  have best: "rf_have_best st \<and> resources_key inst (rf_best st) \<le> resources_key inst R" if R: "is_hitting_set inst R" for R
  proof -
    obtain m :: nat where m: "m < 2 ^ length (hi_options inst)" "\<forall>i < length (hi_options inst). bit m i \<longleftrightarrow> i \<in> choice_of inst R"
      using mask_exists[of "length (hi_options inst)" "choice_of inst R"] by metis
    then have "mask_choice inst m = choice_of inst R" by (auto simp: mask_choice_def choice_of_def)
    then have "option_ids (search_problem_of inst 0) (mask_choice inst m) = R"
      using choice_of_ids[OF assms(1)] R by (simp add: is_hitting_set_def)
    with post m(1) R show ?thesis by (auto simp: reference_post_def)
  qed
  have sound: "is_hitting_set inst (rf_best st) \<and> unat (rf_best_cost st) = resources_cost inst (rf_best st)"
    if "rf_have_best st" using post that by (simp add: reference_post_def)
  show "hs_outcome sol = Con_PlanOptimal \<and> hs_proved_minimum sol \<and> \<not> hs_proved_infeasible sol \<and>
      is_hitting_set inst (hs_targets sol) \<and> unat (hs_total_cost sol) = resources_cost inst (hs_targets sol)"
    if "\<exists>R. is_hitting_set inst R" using best sound that by (auto simp: sol blank_solution_def)
  show "resources_key inst (hs_targets sol) \<le> resources_key inst R" if "is_hitting_set inst R"
    using best[OF that] by (simp add: sol)
  show "hs_outcome sol = Con_ProvenInfeasible \<and> hs_proved_infeasible sol \<and> \<not> hs_proved_minimum sol \<and>
      hs_targets sol = [] \<and> hs_total_cost sol = 0" if "\<nexists>R. is_hitting_set inst R"
    using sound that by (auto simp: sol blank_solution_def)
qed

lemma least_hitting_set_unique:
  assumes "is_hitting_set inst R" "is_hitting_set inst R'"
    and "\<And>Q. is_hitting_set inst Q \<Longrightarrow> resources_key inst R \<le> resources_key inst Q"
    and "\<And>Q. is_hitting_set inst Q \<Longrightarrow> resources_key inst R' \<le> resources_key inst Q"
  shows "R = R'"
  using assms(3)[OF assms(2)] assms(4)[OF assms(1)] by (simp add: resources_key_def objective_inject)

text \<open>Unless the branch and bound runs out of nodes, it answers what the enumeration of all subsets answers.\<close>

lemma solve_agrees_with_reference:
  assumes "instance_ok inst" "length (hi_options inst) \<le> 24"
    and "hs_outcome (solve_hitting_set inst) \<notin> {Con_PlanFeasible, Con_SearchLimitReached}"
  shows "hs_outcome (solve_hitting_set inst) = hs_outcome (solve_hitting_set_reference inst) \<and>
    hs_targets (solve_hitting_set inst) = hs_targets (solve_hitting_set_reference inst) \<and>
    hs_total_cost (solve_hitting_set inst) = hs_total_cost (solve_hitting_set_reference inst) \<and>
    hs_proved_minimum (solve_hitting_set inst) = hs_proved_minimum (solve_hitting_set_reference inst) \<and>
    hs_proved_infeasible (solve_hitting_set inst) = hs_proved_infeasible (solve_hitting_set_reference inst)"
proof (cases "\<exists>R. is_hitting_set inst R")
  case True
  note sol = solve_hitting_set_spec[OF assms(1)] and ref = solve_reference_spec[OF assms(1,2)]
  have opt: "hs_outcome (solve_hitting_set inst) = Con_PlanOptimal" using sol(3,4) True assms(3) by auto
  have "hs_targets (solve_hitting_set inst) = hs_targets (solve_hitting_set_reference inst)"
  proof (rule least_hitting_set_unique)
    show "is_hitting_set inst (hs_targets (solve_hitting_set inst))" using sol(1) opt by blast
    show "is_hitting_set inst (hs_targets (solve_hitting_set_reference inst))" using ref(1)[OF True] by blast
  qed (rule sol(2)[OF opt], assumption, rule ref(2))
  with opt sol(1,5,6) ref(1)[OF True] show ?thesis by (auto simp: word_unat_eq_iff)
next
  case False
  note sol = solve_hitting_set_spec[OF assms(1)] and ref = solve_reference_spec(3)[OF assms(1,2) False]
  have inf: "hs_outcome (solve_hitting_set inst) = Con_ProvenInfeasible" using sol(3) False by blast
  then have "hs_total_cost (solve_hitting_set inst) = 0"
    by (auto simp: solve_hitting_set_def search_solution_def blank_solution_def Let_def split: option.splits if_splits)
  with inf sol(5,6,8) ref show ?thesis by simp
qed

end
