(* ===== verification/Greedy.thy ===== *)
theory Greedy
  imports HittingSet
begin

text \<open>
  The greedy recommendation of src/containment.cpp covers every set that has an option, and the number
  of sets bounds its rounds: \<open>greedy_loop_spec\<close> and \<open>greedy_covers\<close>.
\<close>

lemma greedy_fold:
  "case foldl (greedy_step inst covered) None opts of
     None \<Rightarrow> \<forall>opt \<in> set opts. newly_hit inst covered (fst (hi_options inst ! opt)) = []
   | Some (best, _, _) \<Rightarrow> best \<in> set opts \<and> newly_hit inst covered (fst (hi_options inst ! best)) \<noteq> []"
proof (induction opts rule: rev_induct)
  case (snoc opt opts)
  have step: "greedy_step inst covered found opt = found \<or>
      newly_hit inst covered (fst (hi_options inst ! opt)) \<noteq> [] \<and> (\<exists>g c. greedy_step inst covered found opt = Some (opt, g, c))" for found
    by (auto simp: greedy_step_def Let_def split: prod.split option.split)
  have none: "newly_hit inst covered (fst (hi_options inst ! opt)) = []" if "greedy_step inst covered None opt = None"
    using that by (auto simp: greedy_step_def Let_def split: prod.splits if_splits)
  show ?case
  proof (cases "foldl (greedy_step inst covered) None opts")
    case None
    then show ?thesis using snoc.IH step[of None] none by (auto split: option.split)
  next
    case (Some found)
    then show ?thesis using snoc.IH step[of "Some found"] by (auto split: option.split)
  qed
qed simp

lemma greedy_pick_spec:
  "greedy_pick inst covered = None \<Longrightarrow> opt < length (hi_options inst) \<Longrightarrow> newly_hit inst covered (fst (hi_options inst ! opt)) = []"
  "greedy_pick inst covered = Some (best, g, c) \<Longrightarrow>
     best < length (hi_options inst) \<and> newly_hit inst covered (fst (hi_options inst ! best)) \<noteq> []"
  using greedy_fold[where inst = inst and covered = covered and opts = "[0..<length (hi_options inst)]"] by (auto simp: greedy_pick_def)

lemma greedy_cover_spec:
  assumes "length covered = length (hi_sets inst)"
  shows "length (greedy_cover inst r covered) = length (hi_sets inst)"
    "s < length (hi_sets inst) \<Longrightarrow>
       greedy_cover inst r covered ! s \<longleftrightarrow> covered ! s \<or> binary_search (hi_sets inst ! s) r"
proof -
  have fold: "length (foldl (\<lambda>c s. c[s := True]) c xs) = length c \<and>
      (s < length c \<longrightarrow> foldl (\<lambda>c s. c[s := True]) c xs ! s = (c ! s \<or> s \<in> set xs))" for c xs s
  proof (induction xs arbitrary: c)
    case (Cons x xs)
    show ?case using Cons.IH[of "c[x := True]"] by (cases "s = x") (auto simp: nth_list_update)
  qed simp
  show "length (greedy_cover inst r covered) = length (hi_sets inst)"
    using fold[where c = covered] assms by (simp add: greedy_cover_def)
  show "s < length (hi_sets inst) \<Longrightarrow>
      greedy_cover inst r covered ! s \<longleftrightarrow> covered ! s \<or> binary_search (hi_sets inst ! s) r"
    using fold[where c = covered and s = s and xs = "newly_hit inst covered r"] assms by (auto simp: greedy_cover_def newly_hit_def)
qed

definition uncovered :: "hitting_instance \<Rightarrow> bool list \<Rightarrow> nat set" where
  "uncovered inst covered = {s. s < length (hi_sets inst) \<and> \<not> covered ! s}"

lemma uncovered_shrinks:
  assumes "length covered = length (hi_sets inst)" "newly_hit inst covered r \<noteq> []"
  shows "card (uncovered inst (greedy_cover inst r covered)) < card (uncovered inst covered)"
proof (rule psubset_card_mono)
  obtain s where "s \<in> set (newly_hit inst covered r)" using assms(2) by (cases "newly_hit inst covered r") auto
  then have "s \<in> uncovered inst covered" "s \<notin> uncovered inst (greedy_cover inst r covered)"
    by (simp_all add: uncovered_def newly_hit_def greedy_cover_spec(2)[OF assms(1)])
  moreover have "uncovered inst (greedy_cover inst r covered) \<subseteq> uncovered inst covered"
    using greedy_cover_spec(2)[OF assms(1), of _ r] unfolding uncovered_def by blast
  ultimately show "uncovered inst (greedy_cover inst r covered) \<subset> uncovered inst covered" by blast
qed (simp add: uncovered_def)

text \<open>With as many rounds as there are uncovered sets the loop has ended, whatever the rounds left.\<close>

lemma greedy_loop_spec:
  assumes "length covered = length (hi_sets inst)" "card (uncovered inst covered) \<le> rounds"
  shows "set chosen \<subseteq> set (greedy_loop rounds inst covered chosen) \<and>
    set (greedy_loop rounds inst covered chosen) \<subseteq> set chosen \<union> fst ` set (hi_options inst) \<and>
    (\<forall>s \<in> uncovered inst covered. (\<exists>r \<in> set (greedy_loop rounds inst covered chosen). binary_search (hi_sets inst ! s) r) \<or>
       (\<forall>opt < length (hi_options inst). \<not> binary_search (hi_sets inst ! s) (fst (hi_options inst ! opt)))) \<and>
    greedy_loop (rounds + extra) inst covered chosen = greedy_loop rounds inst covered chosen"
  using assms
proof (induction rounds arbitrary: covered chosen)
  case 0
  then have none: "uncovered inst covered = {}" by (simp add: uncovered_def)
  then have "list_all id covered" using 0(1) by (auto simp: uncovered_def list_all_length)
  then show ?case using none by (cases "extra") auto
next
  case (Suc rounds)
  show ?case
  proof (cases "list_all id covered")
    case True
    then have "uncovered inst covered = {}" using Suc.prems(1) by (auto simp: uncovered_def list_all_length)
    with True show ?thesis by simp
  next
    case False
    show ?thesis
    proof (cases "greedy_pick inst covered")
      case None
      have "\<not> binary_search (hi_sets inst ! s) (fst (hi_options inst ! opt))"
        if "s \<in> uncovered inst covered" "opt < length (hi_options inst)" for s opt
        using greedy_pick_spec(1)[OF None that(2)] that(1) by (auto simp: newly_hit_def uncovered_def filter_empty_conv)
      then show ?thesis using None False by simp
    next
      case (Some pick)
      obtain best g c where pick: "pick = (best, g, c)" by (cases pick)
      let ?r = "fst (hi_options inst ! best)"
      let ?covered = "greedy_cover inst ?r covered"
      have best: "best < length (hi_options inst)" "newly_hit inst covered ?r \<noteq> []"
        using greedy_pick_spec(2)[OF Some[unfolded pick]] by simp_all
      have "card (uncovered inst ?covered) \<le> rounds" using uncovered_shrinks[OF Suc.prems(1) best(2)] Suc.prems(2) by simp
      note IH = Suc.IH[OF greedy_cover_spec(1)[OF Suc.prems(1)] this, of "chosen @ [?r]"]
      have loop: "greedy_loop (Suc k) inst covered chosen = greedy_loop k inst ?covered (chosen @ [?r])" for k
        using Some False by (simp add: pick)
      let ?R = "set (greedy_loop rounds inst ?covered (chosen @ [?r]))"
      have r: "?r \<in> fst ` set (hi_options inst)" "?r \<in> ?R" using best(1) IH by auto
      have "(\<exists>r \<in> ?R. binary_search (hi_sets inst ! s) r) \<or>
          (\<forall>opt < length (hi_options inst). \<not> binary_search (hi_sets inst ! s) (fst (hi_options inst ! opt)))"
        if s: "s \<in> uncovered inst covered" for s
      proof (cases "binary_search (hi_sets inst ! s) ?r")
        case True
        then show ?thesis using r(2) by blast
      next
        case False
        then have "s \<in> uncovered inst ?covered" using s by (simp add: uncovered_def greedy_cover_spec(2)[OF Suc.prems(1)])
        then show ?thesis using IH by blast
      qed
      then show ?thesis unfolding add_Suc loop using IH r(1) by auto
    qed
  qed
qed

lemma greedy_covers:
  assumes "\<forall>S \<in> set (hi_sets inst). sorted S" "S \<in> set (hi_sets inst)" "set S \<inter> fst ` set (hi_options inst) \<noteq> {}"
  shows "set S \<inter> set (greedy_recommendation inst) \<noteq> {}"
proof -
  let ?n = "length (hi_sets inst)" and ?none = "replicate (length (hi_sets inst)) False"
  obtain s where s: "s < ?n" "hi_sets inst ! s = S" using assms(2) by (auto simp: in_set_conv_nth)
  obtain opt where opt: "opt < length (hi_options inst)" "fst (hi_options inst ! opt) \<in> set S"
  proof -
    obtain x where "x \<in> set (hi_options inst)" "fst x \<in> set S" using assms(3) by blast
    then show thesis using that by (metis in_set_conv_nth)
  qed
  have un: "uncovered inst ?none = {..<?n}" by (auto simp: uncovered_def)
  have "s \<in> uncovered inst ?none" "card (uncovered inst ?none) \<le> Suc ?n" using s(1) by (simp_all add: un)
  with greedy_loop_spec[of ?none inst "Suc ?n" "[]"]
  have "(\<exists>r \<in> set (greedy_loop (Suc ?n) inst ?none []). binary_search S r) \<or>
      \<not> binary_search S (fst (hi_options inst ! opt))"
    using s(2) opt(1) by fastforce
  then show ?thesis using assms(1,2) opt(2) by (auto simp: greedy_recommendation_def)
qed

end
