(* ===== verification/Containment.thy ===== *)
theory Containment
  imports HittingSet
begin

text \<open>
  Containment planning: include/loop_guard/containment.hpp and src/containment.cpp, but for the
  solvers, which are HittingSet.

  \<^item> \<open>containment_policy\<close>, \<open>containment_target\<close>, \<open>containment_certificate\<close>, \<open>containment_plan\<close>,
    \<open>containment_intent\<close> and \<open>plan_validation\<close> are the structs of the header.
  \<^item> \<open>plan_containment\<close> is ContainmentPlanner::plan: \<open>check_policy\<close> its refusals, \<open>containment_instance\<close>
    the hitting-set instance, \<open>adopt_solution\<close> the switch over the solver's outcome, \<open>attach_greedy\<close>
    the advisory recommendation, \<open>publish_plan\<close> the validation before publishing.
  \<^item> \<open>validate_plan\<close> is PlanValidator::validate and \<open>apply_containment_shadow\<close> the shadow definition.

  The lemmas: an accepted affirmative plan names eligible resources only and hits every confirmed
  witness; a published optimal plan is a minimum-cost such set; a published infeasibility is true; an
  authorised plan is optimal and within the policy budgets.
\<close>

section \<open>Texts\<close>

definition txt_the_plan_binds_a_different_fence_than :: string where
  "txt_the_plan_binds_a_different_fence_than =
     ''the plan binds a different fence than the assessment it claims to contain''"

definition txt_the_plan_references_a_different_assessment :: string where
  "txt_the_plan_references_a_different_assessment =
     ''the plan references a different assessment''"

definition txt_the_plan_was_computed_under_a_different :: string where
  "txt_the_plan_was_computed_under_a_different =
     ''the plan was computed under a different policy generation''"

definition txt_an_infeasibility_claim_without_a_certificate_is :: string where
  "txt_an_infeasibility_claim_without_a_certificate_is =
     ''an infeasibility claim without a certificate is not a proof''"

definition txt_an_infeasible_plan_must_not_carry_targets :: string where
  "txt_an_infeasible_plan_must_not_carry_targets =
     ''an infeasible plan must not carry targets''"

definition txt_the_certificate_references_a_witness_the_assessment :: string where
  "txt_the_certificate_references_a_witness_the_assessment =
     ''the certificate references a witness the assessment does not contain''"

definition txt_the_certificate_names_a_witness_that_does :: string where
  "txt_the_certificate_names_a_witness_that_does =
     ''the certificate names a witness that does contain an eligible resource''"

definition txt_the_certificate_was_re_derived_and_holds :: string where
  "txt_the_certificate_was_re_derived_and_holds =
     ''the certificate was re-derived and holds''"

definition txt_target_is_not_a_resource_of_the :: string where
  "txt_target_is_not_a_resource_of_the =
     ''target is not a resource of the definition''"

definition txt_target_is_not_eligible_under_the_policy :: string where
  "txt_target_is_not_eligible_under_the_policy =
     ''target is not eligible under the policy in force''"

definition txt_target_cost_disagrees_with_the_definition :: string where
  "txt_target_cost_disagrees_with_the_definition =
     ''target cost disagrees with the definition''"

definition txt_an_affirmative_plan_must_carry_at_least :: string where
  "txt_an_affirmative_plan_must_carry_at_least =
     ''an affirmative plan must carry at least one target''"

definition txt_targets_are_not_in_canonical_order :: string where
  "txt_targets_are_not_in_canonical_order =
     ''targets are not in canonical order''"

definition txt_duplicate_target_resource :: string where
  "txt_duplicate_target_resource =
     ''duplicate target resource''"

definition txt_the_plan_touches_resources_that_are_not :: string where
  "txt_the_plan_touches_resources_that_are_not =
     ''the plan touches resources that are not implicated by any confirmed witness''"

definition txt_the_reported_total_cost_disagrees_with_the :: string where
  "txt_the_reported_total_cost_disagrees_with_the =
     ''the reported total cost disagrees with the target costs''"

definition txt_the_plan_does_not_break_every_confirmed :: string where
  "txt_the_plan_does_not_break_every_confirmed =
     ''the plan does not break every confirmed witness''"

definition txt_every_target_lies_on_a_confirmed_witness :: string where
  "txt_every_target_lies_on_a_confirmed_witness =
     ''every target lies on a confirmed witness and every witness is broken''"

definition txt_a_notrequired_plan_must_not_carry_targets :: string where
  "txt_a_notrequired_plan_must_not_carry_targets =
     ''a NotRequired plan must not carry targets''"

definition txt_no_confirmed_loop_so_nothing_is_proposed :: string where
  "txt_no_confirmed_loop_so_nothing_is_proposed =
     ''no confirmed loop, so nothing is proposed or authorized''"

definition txt_no_authoritative_target_set_is_claimed :: string where
  "txt_no_authoritative_target_set_is_claimed =
     ''no authoritative target set is claimed''"

definition txt_containment_policy_generation_must_be_non_zero :: string where
  "txt_containment_policy_generation_must_be_non_zero =
     ''containment policy generation must be non-zero''"

definition txt_eligible_policy_kinds_must_be_sorted_and :: string where
  "txt_eligible_policy_kinds_must_be_sorted_and =
     ''eligible policy kinds must be sorted and duplicate free''"

definition txt_eligible_policy_domains_must_be_sorted_and :: string where
  "txt_eligible_policy_domains_must_be_sorted_and =
     ''eligible policy domains must be sorted and duplicate free''"

definition txt_policy_target_budget_exceeds_the_configured_ceiling :: string where
  "txt_policy_target_budget_exceeds_the_configured_ceiling =
     ''policy target budget exceeds the configured ceiling''"

definition txt_target_costs_do_not_add_up_to :: string where
  "txt_target_costs_do_not_add_up_to =
     ''target costs do not add up to the reported total''"

definition txt_the_search_completed_exhaustively_and_proved_the :: string where
  "txt_the_search_completed_exhaustively_and_proved_the =
     ''the search completed exhaustively and proved the target set minimal''"

definition txt_a_feasible_target_set_was_found_but :: string where
  "txt_a_feasible_target_set_was_found_but =
     ''a feasible target set was found, but its optimality is not proved''"

definition txt_the_proved_minimum_exceeds_the_policy_budget :: string where
  "txt_the_proved_minimum_exceeds_the_policy_budget =
     ''the proved minimum exceeds the policy budget; the plan is reported but is not authorized''"

definition txt_the_witness_contains_no_resource_the_policy :: string where
  "txt_the_witness_contains_no_resource_the_policy =
     ''the witness contains no resource the policy declares eligible, so no admissible target set can break it''"

definition txt_the_exhaustive_search_proved_that_no_combination :: string where
  "txt_the_exhaustive_search_proved_that_no_combination =
     ''the exhaustive search proved that no combination of eligible resources breaks every confirmed witness''"

definition txt_containment_is_impossible_within_the_policy_s :: string where
  "txt_containment_is_impossible_within_the_policy_s =
     ''containment is impossible within the policy's eligibility rules''"

definition txt_no_resource_on_this_witness_is_eligible :: string where
  "txt_no_resource_on_this_witness_is_eligible =
     ''no resource on this witness is eligible for containment''"

definition txt_the_containment_search_reached_its_node_budget :: string where
  "txt_the_containment_search_reached_its_node_budget =
     ''the containment search reached its node budget without proving either optimality or infeasibility''"

definition txt_the_containment_search_reported_an_unusable_outcome :: string where
  "txt_the_containment_search_reported_an_unusable_outcome =
     ''the containment search reported an unusable outcome''"

definition txt_a_deterministic_greedy_recommendation_is_attached_for :: string where
  "txt_a_deterministic_greedy_recommendation_is_attached_for =
     ''a deterministic greedy recommendation is attached for operators; it carries no authority''"

definition txt_the_planner_produced_a_plan_its_own :: string where
  "txt_the_planner_produced_a_plan_its_own =
     ''the planner produced a plan its own independent validator refused''"

definition txt_an_affirmative_assessment_without_a_witness_cannot :: string where
  "txt_an_affirmative_assessment_without_a_witness_cannot =
     ''an affirmative assessment without a witness cannot be contained''"

section \<open>Records\<close>

record containment_policy =
  po_generation :: u64
  po_max_targets :: u32
  po_max_total_cost :: u64
  po_kinds :: "resource_kind list"
  po_domains :: "u64 list"
  po_cross_domain :: bool
  po_max_search_nodes :: u64

definition kind_eligible :: "containment_policy \<Rightarrow> resource_kind \<Rightarrow> bool" where
  "kind_eligible policy k \<longleftrightarrow> binary_search (po_kinds policy) k"

definition domain_eligible :: "containment_policy \<Rightarrow> u64 \<Rightarrow> bool" where
  "domain_eligible policy d \<longleftrightarrow> (if po_domains policy = [] then True else binary_search (po_domains policy) d)"

definition policy_digest :: "containment_policy \<Rightarrow> digest" where
  "policy_digest policy = sha256 (le64 (po_generation policy) @ le64 (ucast (po_max_targets policy)) @
     le64 (po_max_total_cost policy) @ [if po_cross_domain policy then 1 else 0] @ le64 (po_max_search_nodes policy) @
     map (enum_raw values_resource_kind) (po_kinds policy) @ [0xFB] @ concat (map le64 (po_domains policy)) @ [0xFB])"

fun join_with :: "string \<Rightarrow> string list \<Rightarrow> string" where
  "join_with sep [] = ''''"
| "join_with sep [x] = x"
| "join_with sep (x # xs) = x @ sep @ join_with sep xs"

definition policy_to_text :: "containment_policy \<Rightarrow> string" where
  "policy_to_text policy = ''policy generation='' @ id_to_string (po_generation policy) @
     '' max_targets='' @ dec_digits (unat (po_max_targets policy)) @
     '' max_total_cost='' @ dec_digits (unat (po_max_total_cost policy)) @
     '' allow_cross_domain='' @ (if po_cross_domain policy then ''true'' else ''false'') @ '' kinds='' @
     (if po_kinds policy = [] then ''none'' else join_with '','' (map name_resource_kind (po_kinds policy))) @
     '' domains='' @ (if po_domains policy = [] then ''all'' else join_with '','' (map id_to_string (po_domains policy)))"

record containment_target =
  ct_resource :: u64
  ct_domain :: u64
  ct_cost :: u32
  ct_reason :: target_reason
  ct_witnesses :: "u64 list"
  ct_selectors :: "u64 list"
  ct_hops :: "u64 list"

record containment_certificate =
  cc_code :: reason_code
  cc_witness :: u64
  cc_cycle :: "u64 list"
  cc_detail :: string

record plan_counters =
  pc_nodes_expanded :: u64
  pc_candidates_evaluated :: u64
  pc_pruned_by_bound :: u64
  pc_best_updates :: u64
  pc_budget_exhausted :: bool

record containment_plan =
  pl_id :: u64
  pl_assessment :: u64
  pl_assessment_digest :: digest
  pl_fence :: fence_vector
  pl_policy_generation :: u64
  pl_outcome :: containment_outcome
  pl_flags :: u32
  pl_targets :: "containment_target list"
  pl_greedy :: "containment_target list"
  pl_total_cost :: u64
  pl_witness_count :: u32
  pl_witnesses_covered :: u32
  pl_uncovered :: "u64 list"
  pl_certificate :: "containment_certificate option"
  pl_affected_hops :: "u64 list"
  pl_within_budget :: bool
  pl_counters :: plan_counters
  pl_explanation :: explanation
  pl_origin :: evidence_origin

definition authorizes_action :: "containment_plan \<Rightarrow> bool" where
  "authorizes_action p \<longleftrightarrow> pl_outcome p = Con_PlanOptimal \<and> pl_within_budget p \<and> pl_targets p \<noteq> []"

definition target_bytes :: "containment_target \<Rightarrow> u8 list" where
  "target_bytes c = le64 (ct_resource c) @ le64 (ct_domain c) @ le64 (ucast (ct_cost c)) @
     [enum_raw values_target_reason (ct_reason c)] @ concat (map le64 (ct_witnesses c)) @ [0xFA] @
     concat (map le64 (ct_selectors c)) @ [0xFA] @ concat (map le64 (ct_hops c)) @ [0xFA]"

definition plan_digest :: "containment_plan \<Rightarrow> digest" where
  "plan_digest p = sha256 (le64 (pl_id p) @ le64 (pl_assessment p) @ pl_assessment_digest p @ fence_bytes (pl_fence p) @
     le64 (pl_policy_generation p) @ [enum_raw values_containment_outcome (pl_outcome p)] @
     le64 (ucast (pl_flags p)) @ [if pl_within_budget p then 1 else 0] @
     concat (map target_bytes (pl_targets p)) @ [0xF9] @ le64 (pl_total_cost p) @
     le64 (ucast (pl_witness_count p)) @ le64 (ucast (pl_witnesses_covered p)) @
     [enum_raw values_evidence_origin (pl_origin p)])"

definition target_resources :: "containment_plan \<Rightarrow> u64 list" where
  "target_resources p = sort (map ct_resource (pl_targets p))"

definition target_to_text :: "containment_target \<Rightarrow> string" where
  "target_to_text c = ''  target '' @ id_to_string (ct_resource c) @ '' cost='' @ dec_digits (unat (ct_cost c)) @
     '' reason='' @ name_target_reason (ct_reason c) @ '' breaks='' @
     join_with '','' (map id_to_string (ct_witnesses c)) @ newline"

definition plan_to_text :: "containment_plan \<Rightarrow> string" where
  "plan_to_text p = ''plan '' @ id_to_string (pl_id p) @ '' assessment='' @ id_to_string (pl_assessment p) @
     '' outcome='' @ name_containment_outcome (pl_outcome p) @ '' flags='' @ plan_flags_to_string (pl_flags p) @
     '' targets='' @ dec_digits (length (pl_targets p)) @ '' cost='' @ dec_digits (unat (pl_total_cost p)) @
     '' witnesses='' @ dec_digits (unat (pl_witnesses_covered p)) @ ''/'' @ dec_digits (unat (pl_witness_count p)) @
     '' within_budget='' @ (if pl_within_budget p then ''true'' else ''false'') @ newline @
     concat (map target_to_text (pl_targets p)) @
     concat (map (\<lambda>c. ''  recommendation '' @ id_to_string (ct_resource c) @ '' cost='' @ dec_digits (unat (ct_cost c)) @
       '' (advisory, carries no authority)'' @ newline) (pl_greedy p)) @
     (case pl_certificate p of None \<Rightarrow> ''''
      | Some c \<Rightarrow> ''  certificate '' @ name_reason_code (cc_code c) @ '' witness='' @ id_to_string (cc_witness c) @
          '' cycle='' @ concat (map (\<lambda>r. id_to_string r @ '' '') (cc_cycle c)) @ cc_detail c @ newline) @
     ex_to_text (pl_explanation p)"

record containment_intent =
  ci_id :: u64
  ci_plan :: u64
  ci_finding :: u64
  ci_assessment :: u64
  ci_fence :: fence_vector
  ci_issued_by :: process_identity
  ci_targets :: "u64 list"
  ci_selectors :: "u64 list"
  ci_issued_at :: u64
  ci_expires_at :: u64
  ci_plan_digest :: digest

definition intent_is_expired :: "containment_intent \<Rightarrow> u64 \<Rightarrow> bool" where
  "intent_is_expired i now \<longleftrightarrow> now > ci_expires_at i"

definition identity_bytes :: "process_identity \<Rightarrow> u8 list" where
  "identity_bytes i = le64 (pi_producer i) @ le64 (pi_boot i) @ le64 (pi_incarnation i) @ le64 (pi_epoch i)"

definition intent_digest :: "containment_intent \<Rightarrow> digest" where
  "intent_digest i = sha256 (le64 (ci_id i) @ le64 (ci_plan i) @ le64 (ci_finding i) @ le64 (ci_assessment i) @
     fence_bytes (ci_fence i) @ identity_bytes (ci_issued_by i) @ concat (map le64 (ci_targets i)) @ [0xF8] @
     concat (map le64 (ci_selectors i)) @ le64 (ci_issued_at i) @ le64 (ci_expires_at i) @ ci_plan_digest i)"

record plan_validation =
  pv_valid :: bool
  pv_outcome :: containment_outcome
  pv_unrelated :: "u64 list"
  pv_not_broken :: "u64 list"
  pv_explanation :: explanation

definition pv_is_affirmative :: "plan_validation \<Rightarrow> bool" where
  "pv_is_affirmative v \<longleftrightarrow> pv_valid v \<and> (pv_outcome v = Con_PlanOptimal \<or> pv_outcome v = Con_PlanFeasible)"

section \<open>Plan validation\<close>

type_synonym plan_rejection = "reason_code \<times> string \<times> string"

definition reject_plan :: "plan_rejection \<Rightarrow> plan_validation \<Rightarrow> plan_validation" where
  "reject_plan r v = v\<lparr>pv_valid := False, pv_explanation := ex_add (fst r) (fst (snd r)) (snd (snd r)) (pv_explanation v)\<rparr>"

definition accept_plan :: "plan_rejection \<Rightarrow> plan_validation \<Rightarrow> plan_validation" where
  "accept_plan r v = v\<lparr>pv_valid := True, pv_explanation := ex_add (fst r) (fst (snd r)) (snd (snd r)) (pv_explanation v)\<rparr>"

definition check_plan_binding :: "containment_plan \<Rightarrow> loop_assessment \<Rightarrow> containment_policy \<Rightarrow> plan_rejection option" where
  "check_plan_binding p a policy =
     (if pl_fence p \<noteq> la_fence a then
        Some (R_ContainmentPlanInvalid, ''plan'', txt_the_plan_binds_a_different_fence_than)
      else if pl_assessment p \<noteq> la_id a then
        Some (R_ContainmentPlanInvalid, ''plan'', txt_the_plan_references_a_different_assessment)
      else if pl_policy_generation p \<noteq> po_generation policy then
        Some (R_ContainmentPlanInvalid, ''plan'', txt_the_plan_was_computed_under_a_different)
      else None)"

text \<open>What the validator asks of a target: a containable resource of an eligible kind and domain. Its
  cost is compared, not required to be positive.\<close>

definition may_contain :: "containment_policy \<Rightarrow> resource_record \<Rightarrow> bool" where
  "may_contain policy record \<longleftrightarrow> rr_containable record \<and> kind_eligible policy (rr_kind record) \<and>
     domain_eligible policy (rr_domain record)"

definition validate_infeasible :: "containment_plan \<Rightarrow> loop_assessment \<Rightarrow> topology \<Rightarrow> containment_policy \<Rightarrow>
    plan_validation \<Rightarrow> plan_validation" where
  "validate_infeasible p a t policy v =
     (case pl_certificate p of
        None \<Rightarrow> reject_plan (R_ContainmentPlanInvalid, ''certificate'',
          txt_an_infeasibility_claim_without_a_certificate_is) v
      | Some c \<Rightarrow>
          if pl_targets p \<noteq> [] then
            reject_plan (R_ContainmentPlanInvalid, ''plan'', txt_an_infeasible_plan_must_not_carry_targets) v
          else case find (\<lambda>w. lw_id w = cc_witness c) (la_witnesses a) of
            None \<Rightarrow> reject_plan (R_ContainmentPlanInvalid, ''certificate'',
              txt_the_certificate_references_a_witness_the_assessment) v
          | Some w \<Rightarrow>
              if list_ex (\<lambda>r. case find_resource t r of None \<Rightarrow> False | Some record \<Rightarrow> may_contain policy record)
                   (lw_cycle w)
              then reject_plan (R_ContainmentPlanInvalid, ''certificate'',
                txt_the_certificate_names_a_witness_that_does) v
              else accept_plan (R_ContainmentCertificateNonContainableCycle, ''plan'',
                txt_the_certificate_was_re_derived_and_holds) v)"

text \<open>The loop over the targets: it stops at the first refusal, else it yields the total cost; in either
  case with the resources seen so far that lie on no confirmed witness.\<close>

fun check_targets :: "loop_assessment \<Rightarrow> topology \<Rightarrow> containment_policy \<Rightarrow> u64 \<Rightarrow> u64 list \<Rightarrow> containment_target list \<Rightarrow>
    (plan_rejection \<times> u64 list) + (u64 \<times> u64 list)" where
  "check_targets a t policy cost unrelated [] = Inr (cost, unrelated)"
| "check_targets a t policy cost unrelated (c # cs) =
     (case find_resource t (ct_resource c) of
        None \<Rightarrow> Inl ((R_ContainmentPlanInvalid, id_to_string (ct_resource c),
          txt_target_is_not_a_resource_of_the), unrelated)
      | Some record \<Rightarrow>
          if \<not> may_contain policy record then
            Inl ((R_ContainmentPolicyRefusedTargets, id_to_string (ct_resource c),
              txt_target_is_not_eligible_under_the_policy), unrelated)
          else if ct_cost c \<noteq> rr_cost record then
            Inl ((R_ContainmentPlanInvalid, id_to_string (ct_resource c),
              txt_target_cost_disagrees_with_the_definition), unrelated)
          else check_targets a t policy (cost + ucast (rr_cost record))
            (if list_ex (\<lambda>w. binary_search (lw_cycle w) (ct_resource c)) (la_witnesses a) then unrelated
             else unrelated @ [ct_resource c]) cs)"

definition unbroken_witnesses :: "u64 list \<Rightarrow> loop_assessment \<Rightarrow> u64 list" where
  "unbroken_witnesses chosen a =
     map lw_id (filter (\<lambda>w. \<not> list_ex (binary_search chosen) (lw_cycle w)) (la_witnesses a))"

definition validate_affirmative :: "containment_plan \<Rightarrow> loop_assessment \<Rightarrow> topology \<Rightarrow> containment_policy \<Rightarrow>
    plan_validation \<Rightarrow> plan_validation" where
  "validate_affirmative p a t policy v =
     (if pl_targets p = [] then
        reject_plan (R_ContainmentPlanInvalid, ''targets'', txt_an_affirmative_plan_must_carry_at_least) v
      else if \<not> sorted (map ct_resource (pl_targets p)) then
        reject_plan (R_ContainmentPlanInvalid, ''targets'', txt_targets_are_not_in_canonical_order) v
      else if adjacent_dup (map ct_resource (pl_targets p)) then
        reject_plan (R_ContainmentPlanInvalid, ''targets'', txt_duplicate_target_resource) v
      else case check_targets a t policy 0 [] (pl_targets p) of
        Inl (r, unrelated) \<Rightarrow> reject_plan r (v\<lparr>pv_unrelated := unrelated\<rparr>)
      | Inr (cost, unrelated) \<Rightarrow>
          let v = v\<lparr>pv_unrelated := unrelated\<rparr>
          in if unrelated \<noteq> [] then
               reject_plan (R_ContainmentPlanInvalid, ''targets'',
                 txt_the_plan_touches_resources_that_are_not) v
             else if cost \<noteq> pl_total_cost p then
               reject_plan (R_ContainmentPlanInvalid, ''cost'',
                 txt_the_reported_total_cost_disagrees_with_the) v
             else
               let v = v\<lparr>pv_not_broken := unbroken_witnesses (target_resources p) a\<rparr>
               in if pv_not_broken v \<noteq> [] then
                    reject_plan (R_ContainmentPlanInvalid, ''coverage'',
                      txt_the_plan_does_not_break_every_confirmed) v
                  else accept_plan (R_ContainmentUnrelatedForwardingUntouched, ''plan'',
                    txt_every_target_lies_on_a_confirmed_witness) v)"

definition blank_validation :: "containment_plan \<Rightarrow> limits \<Rightarrow> plan_validation" where
  "blank_validation p l = \<lparr>pv_valid = False, pv_outcome = pl_outcome p, pv_unrelated = [], pv_not_broken = [],
     pv_explanation = new_explanation (max_explanation_reasons l)\<rparr>"

definition validate_plan :: "containment_plan \<Rightarrow> loop_assessment \<Rightarrow> topology \<Rightarrow> containment_policy \<Rightarrow> limits \<Rightarrow>
    plan_validation result" where
  "validate_plan p a t policy l = ok
     (let v = blank_validation p l
      in case check_plan_binding p a policy of Some r \<Rightarrow> reject_plan r v
       | None \<Rightarrow>
           (case pl_outcome p of
              Con_NotRequired \<Rightarrow>
                if pl_targets p \<noteq> [] then
                  reject_plan (R_ContainmentPlanInvalid, ''plan'', txt_a_notrequired_plan_must_not_carry_targets) v
                else accept_plan (R_ContainmentNotRequired, ''plan'',
                  txt_no_confirmed_loop_so_nothing_is_proposed) v
            | Con_ProvenInfeasible \<Rightarrow> validate_infeasible p a t policy v
            | Con_SearchLimitReached \<Rightarrow> (accept_plan (R_ContainmentTargetsFeasibleOnly, ''plan'',
                txt_no_authoritative_target_set_is_claimed) v)\<lparr>pv_valid := pl_targets p = []\<rparr>
            | Con_Unsupported \<Rightarrow> (accept_plan (R_ContainmentTargetsFeasibleOnly, ''plan'',
                txt_no_authoritative_target_set_is_claimed) v)\<lparr>pv_valid := pl_targets p = []\<rparr>
            | Con_Invalid \<Rightarrow> (accept_plan (R_ContainmentTargetsFeasibleOnly, ''plan'',
                txt_no_authoritative_target_set_is_claimed) v)\<lparr>pv_valid := pl_targets p = []\<rparr>
            | _ \<Rightarrow> validate_affirmative p a t policy v))"

section \<open>The planner\<close>

definition check_policy :: "limits \<Rightarrow> containment_policy \<Rightarrow> loop_assessment \<Rightarrow> (outcome \<times> string) option" where
  "check_policy l policy a =
     (if \<not> limits_are_sane l then Some (Oc_Unsupported, txt_limit_set_is_not_sane)
      else if \<not> id_valid (po_generation policy) then
        Some (Oc_Invalid, txt_containment_policy_generation_must_be_non_zero)
      else if po_generation policy \<noteq> fv_policy (la_fence a) then
        Some (Oc_Stale, ''containment policy generation '' @ id_to_string (po_generation policy) @
          '' is not the generation the assessment binds'')
      else if \<not> sorted (po_kinds policy) \<or> adjacent_dup (po_kinds policy) then
        Some (Oc_Invalid, txt_eligible_policy_kinds_must_be_sorted_and)
      else if \<not> sorted (po_domains policy) \<or> adjacent_dup (po_domains policy) then
        Some (Oc_Invalid, txt_eligible_policy_domains_must_be_sorted_and)
      else if po_max_targets policy > max_plan_targets l then
        Some (Oc_Exhausted, txt_policy_target_budget_exceeds_the_configured_ceiling)
      else None)"

definition zero_plan_counters :: plan_counters where
  "zero_plan_counters = \<lparr>pc_nodes_expanded = 0, pc_candidates_evaluated = 0, pc_pruned_by_bound = 0,
     pc_best_updates = 0, pc_budget_exhausted = False\<rparr>"

definition blank_plan :: "limits \<Rightarrow> containment_policy \<Rightarrow> loop_assessment \<Rightarrow> containment_plan" where
  "blank_plan l policy a = \<lparr>pl_id = 0, pl_assessment = la_id a, pl_assessment_digest = assessment_digest a,
     pl_fence = la_fence a, pl_policy_generation = po_generation policy, pl_outcome = Con_Invalid,
     pl_flags = k_plan_none, pl_targets = [], pl_greedy = [], pl_total_cost = 0, pl_witness_count = 0,
     pl_witnesses_covered = 0, pl_uncovered = [], pl_certificate = None, pl_affected_hops = [],
     pl_within_budget = False, pl_counters = zero_plan_counters,
     pl_explanation = new_explanation (max_explanation_reasons l), pl_origin = la_origin a\<rparr>"

definition finalize_plan :: "containment_plan \<Rightarrow> containment_plan" where
  "finalize_plan p = p\<lparr>pl_id := content_addressed_id (plan_digest p)\<rparr>"

definition note_plan :: "reason_code \<Rightarrow> string \<Rightarrow> string \<Rightarrow> containment_plan \<Rightarrow> containment_plan" where
  "note_plan code subject detail p = p\<lparr>pl_explanation := ex_add code subject detail (pl_explanation p)\<rparr>"

definition eligible :: "topology \<Rightarrow> containment_policy \<Rightarrow> u64 \<Rightarrow> resource_record option" where
  "eligible t policy r = (case find_resource t r of None \<Rightarrow> None
     | Some record \<Rightarrow> if \<not> rr_containable record then None
         else if \<not> kind_eligible policy (rr_kind record) then None
         else if \<not> domain_eligible policy (rr_domain record) then None
         else if rr_cost record = 0 then None else Some record)"

text \<open>The eligible resources of a witness, none when it crosses domains and the policy refuses that.\<close>

definition witness_options :: "topology \<Rightarrow> containment_policy \<Rightarrow> loop_witness \<Rightarrow> u64 list" where
  "witness_options t policy w =
     (if po_cross_domain policy \<or> \<not> lw_crosses w
      then sort_unique (filter (\<lambda>r. eligible t policy r \<noteq> None) (lw_cycle w)) else [])"

text \<open>The map option_cost is read in the order of its keys; every entry is the cost of its resource.\<close>

definition containment_options :: "topology \<Rightarrow> containment_policy \<Rightarrow> loop_witness list \<Rightarrow> (u64 \<times> u32) list" where
  "containment_options t policy ws =
     map (\<lambda>r. (r, rr_cost (the (eligible t policy r)))) (sort_unique (concat (map (witness_options t policy) ws)))"

definition containment_instance :: "limits \<Rightarrow> topology \<Rightarrow> containment_policy \<Rightarrow> loop_witness list \<Rightarrow> hitting_instance" where
  "containment_instance l t policy ws = \<lparr>hi_sets = map (witness_options t policy) ws,
     hi_options = containment_options t policy ws,
     hi_max_nodes = if po_max_search_nodes policy = 0 then max_containment_search_nodes l else po_max_search_nodes policy\<rparr>"

definition unhittable_witness :: "hitting_instance \<Rightarrow> nat option" where
  "unhittable_witness inst = find (\<lambda>i. hi_sets inst ! i = []) [0..<length (hi_sets inst)]"

text \<open>The hops of a witness that enter or leave a resource.\<close>

definition hops_at :: "loop_witness \<Rightarrow> u64 \<Rightarrow> u64 list" where
  "hops_at w r = map (\<lambda>i. lw_hops w ! i) (filter (\<lambda>i. lw_cycle w ! i = r \<or>
     lw_cycle w ! ((i + 1) mod length (lw_cycle w)) = r) [0..<length (lw_cycle w)])"

definition build_target :: "loop_witness list \<Rightarrow> target_reason \<Rightarrow> u64 \<Rightarrow> resource_record \<Rightarrow> containment_target" where
  "build_target ws reason r record =
     (let broken = filter (\<lambda>w. binary_search (lw_cycle w) r) ws
      in \<lparr>ct_resource = r, ct_domain = rr_domain record, ct_cost = rr_cost record,
          ct_reason = if length broken = 1 \<and> reason \<noteq> Target_GreedyRecommendation then Target_SoleBreakOfWitness else reason,
          ct_witnesses = sort (map lw_id broken), ct_selectors = sort_unique (concat (map lw_selectors broken)),
          ct_hops = sort_unique (concat (map (\<lambda>w. hops_at w r) broken))\<rparr>)"

definition build_targets :: "topology \<Rightarrow> loop_witness list \<Rightarrow> u64 list \<Rightarrow> target_reason \<Rightarrow> containment_target list" where
  "build_targets t ws resources reason = sort_key ct_resource
     (List.map_filter (\<lambda>r. map_option (build_target ws reason r) (find_resource t r)) resources)"

definition targets_cost :: "containment_target list \<Rightarrow> u64" where
  "targets_cost cs = sum_list (map (\<lambda>c. ucast (ct_cost c)) cs)"

text \<open>The affirmative outcomes of the solver; Inl is the early exit on inconsistent costs.\<close>

definition adopt_targets :: "topology \<Rightarrow> containment_policy \<Rightarrow> loop_assessment \<Rightarrow> hitting_solution \<Rightarrow> containment_plan \<Rightarrow>
    containment_plan + containment_plan" where
  "adopt_targets t policy a sol p =
     (let targets = build_targets t (la_witnesses a) (hs_targets sol)
            (if hs_proved_minimum sol then Target_MinimumCostHittingSet else Target_FeasibleHittingSet);
          p = p\<lparr>pl_outcome := hs_outcome sol, pl_targets := targets, pl_total_cost := hs_total_cost sol\<rparr>
      in if targets_cost targets \<noteq> pl_total_cost p then
           Inl (note_plan R_InternalInvariantViolated ''plan'' txt_target_costs_do_not_add_up_to
             (p\<lparr>pl_outcome := Con_Invalid, pl_targets := []\<rparr>))
         else
           let p = (if hs_proved_minimum sol then
                 note_plan R_ContainmentTargetsProvedMinimum ''plan''
                   txt_the_search_completed_exhaustively_and_proved_the
                   (p\<lparr>pl_flags := pl_flags p OR k_plan_proved_minimum\<rparr>)
               else note_plan R_ContainmentTargetsFeasibleOnly ''plan''
                   txt_a_feasible_target_set_was_found_but
                   (p\<lparr>pl_flags := pl_flags p OR k_plan_search_limit_reached\<rparr>));
               within = (length targets \<le> unat (po_max_targets policy) \<and>
                 pl_total_cost p \<le> po_max_total_cost policy);
               p = p\<lparr>pl_within_budget := within\<rparr>
           in Inr (if within then p
                else note_plan R_ContainmentCostBudgetExceeded ''plan''
                  txt_the_proved_minimum_exceeds_the_policy_budget
                  (p\<lparr>pl_flags := pl_flags p OR k_plan_cost_budget_exceeded\<rparr>)))"

definition adopt_infeasible :: "loop_assessment \<Rightarrow> hitting_instance \<Rightarrow> hitting_solution \<Rightarrow> containment_plan \<Rightarrow> containment_plan" where
  "adopt_infeasible a inst sol p =
     (let ws = la_witnesses a;
          p = p\<lparr>pl_outcome := Con_ProvenInfeasible, pl_flags := pl_flags p OR k_plan_certificate_attached\<rparr>;
          w = (if hs_has_unhittable sol then ws ! hs_unhittable_index sol else hd ws);
          detail = (if hs_has_unhittable sol then
              txt_the_witness_contains_no_resource_the_policy
            else txt_the_exhaustive_search_proved_that_no_combination);
          p = (if hs_has_unhittable sol then
              note_plan R_ContainmentCertificateNonContainableCycle ''plan'' detail p else p);
          p = p\<lparr>pl_certificate := Some \<lparr>cc_code = R_ContainmentProvedInfeasible, cc_witness = lw_id w,
            cc_cycle = lw_cycle w, cc_detail = detail\<rparr>\<rparr>;
          p = note_plan R_ContainmentProvedInfeasible ''plan''
            txt_containment_is_impossible_within_the_policy_s p
      in case unhittable_witness inst of None \<Rightarrow> p
       | Some i \<Rightarrow> note_plan R_ContainmentPolicyRefusedTargets (id_to_string (lw_id (ws ! i)))
           txt_no_resource_on_this_witness_is_eligible p)"

definition adopt_solution :: "topology \<Rightarrow> containment_policy \<Rightarrow> loop_assessment \<Rightarrow> hitting_instance \<Rightarrow> hitting_solution \<Rightarrow>
    containment_plan \<Rightarrow> containment_plan + containment_plan" where
  "adopt_solution t policy a inst sol p =
     (case hs_outcome sol of
        Con_PlanOptimal \<Rightarrow> adopt_targets t policy a sol p
      | Con_PlanFeasible \<Rightarrow> adopt_targets t policy a sol p
      | Con_ProvenInfeasible \<Rightarrow> Inr (adopt_infeasible a inst sol p)
      | Con_SearchLimitReached \<Rightarrow> Inr (note_plan R_ContainmentTargetsFeasibleOnly ''plan''
          txt_the_containment_search_reached_its_node_budget
          (p\<lparr>pl_outcome := Con_SearchLimitReached, pl_flags := pl_flags p OR k_plan_search_limit_reached\<rparr>))
      | _ \<Rightarrow> Inr (note_plan R_ContainmentPlanInvalid ''plan'' txt_the_containment_search_reported_an_unusable_outcome
          (p\<lparr>pl_outcome := Con_Unsupported\<rparr>)))"

definition attach_greedy :: "topology \<Rightarrow> loop_assessment \<Rightarrow> hitting_instance \<Rightarrow> containment_plan \<Rightarrow> containment_plan" where
  "attach_greedy t a inst p =
     (if pl_outcome p = Con_SearchLimitReached \<or> pl_flags p AND k_plan_search_limit_reached \<noteq> 0 then
        let advisory = greedy_recommendation inst
        in if advisory = [] then p
           else note_plan R_ContainmentGreedyRecommendationOnly ''plan''
             txt_a_deterministic_greedy_recommendation_is_attached_for
             (p\<lparr>pl_greedy := build_targets t (la_witnesses a) advisory Target_GreedyRecommendation,
                pl_flags := pl_flags p OR k_plan_greedy_recommendation_present\<rparr>)
      else p)"

definition witness_is_broken :: "containment_target list \<Rightarrow> loop_witness \<Rightarrow> bool" where
  "witness_is_broken cs w \<longleftrightarrow> list_ex (\<lambda>c. lw_id w \<in> set (ct_witnesses c)) cs"

definition publish_plan :: "topology \<Rightarrow> containment_policy \<Rightarrow> loop_assessment \<Rightarrow> limits \<Rightarrow> containment_plan \<Rightarrow> containment_plan" where
  "publish_plan t policy a l p =
     (let validation = validate_plan p a t policy l
      in if \<not> has_value validation \<or> \<not> pv_valid (the (r_value validation)) then
           note_plan R_ContainmentPlanInvalid ''plan''
             txt_the_planner_produced_a_plan_its_own
             (p\<lparr>pl_outcome := Con_Invalid, pl_targets := [], pl_within_budget := False\<rparr>)
         else
           p\<lparr>pl_flags := pl_flags p OR k_plan_unrelated_forwarding_untouched,
             pl_affected_hops := sort_unique (concat (map ct_hops (pl_targets p))),
             pl_witnesses_covered := word_of_nat (length (filter (witness_is_broken (pl_targets p)) (la_witnesses a))),
             pl_uncovered := pl_uncovered p @
               map lw_id (filter (\<lambda>w. \<not> witness_is_broken (pl_targets p) w) (la_witnesses a))\<rparr>)"

definition plan_confirmed :: "limits \<Rightarrow> loop_assessment \<Rightarrow> topology \<Rightarrow> containment_policy \<Rightarrow> containment_plan \<Rightarrow> containment_plan" where
  "plan_confirmed l a t policy p =
     (let inst = containment_instance l t policy (la_witnesses a);
          sol = solve_hitting_set inst;
          p = p\<lparr>pl_witness_count := word_of_nat (length (la_witnesses a)),
              pl_counters := (pl_counters p)\<lparr>pc_nodes_expanded := hs_nodes_expanded sol\<rparr>\<rparr>
      in case adopt_solution t policy a inst sol p of Inl p \<Rightarrow> p
       | Inr p \<Rightarrow> publish_plan t policy a l (attach_greedy t a inst p))"

definition plan_containment :: "limits \<Rightarrow> loop_assessment \<Rightarrow> topology \<Rightarrow> containment_policy \<Rightarrow> containment_plan result" where
  "plan_containment l a t policy =
     (case check_policy l policy a of Some (oc, detail) \<Rightarrow> failure oc detail
      | None \<Rightarrow> ok (finalize_plan
          (let p = blank_plan l policy a
           in if la_outcome a \<noteq> Loop_LoopConfirmed then
                note_plan R_ContainmentNotRequired ''assessment''
                  (''no confirmed forwarding loop: outcome is '' @ name_loop_outcome (la_outcome a))
                  (p\<lparr>pl_outcome := Con_NotRequired\<rparr>)
              else if la_witnesses a = [] then
                note_plan R_ContainmentPlanInvalid ''assessment''
                  txt_an_affirmative_assessment_without_a_witness_cannot (p\<lparr>pl_outcome := Con_Invalid\<rparr>)
              else plan_confirmed l a t policy p)))"

section \<open>The plan validator is exact\<close>

text \<open>What the validator accepts: targets in strict order, each an eligible resource of the definition at its
  cost that its bisection finds on the cycle of a confirmed witness, costs that add up, and a target
  on every confirmed witness.\<close>

definition target_ok :: "loop_assessment \<Rightarrow> topology \<Rightarrow> containment_policy \<Rightarrow> containment_target \<Rightarrow> bool" where
  "target_ok a t policy c \<longleftrightarrow> (\<exists>record. find_resource t (ct_resource c) = Some record \<and> may_contain policy record \<and>
     ct_cost c = rr_cost record)"

definition on_witness :: "loop_assessment \<Rightarrow> u64 \<Rightarrow> bool" where
  "on_witness a r \<longleftrightarrow> (\<exists>w \<in> set (la_witnesses a). binary_search (lw_cycle w) r)"

definition affirmative_ok :: "containment_plan \<Rightarrow> loop_assessment \<Rightarrow> topology \<Rightarrow> containment_policy \<Rightarrow> bool" where
  "affirmative_ok p a t policy \<longleftrightarrow> pl_targets p \<noteq> [] \<and> sorted_wrt (<) (map ct_resource (pl_targets p)) \<and>
     (\<forall>c \<in> set (pl_targets p). target_ok a t policy c \<and> on_witness a (ct_resource c)) \<and>
     targets_cost (pl_targets p) = pl_total_cost p \<and>
     (\<forall>w \<in> set (la_witnesses a). set (lw_cycle w) \<inter> ct_resource ` set (pl_targets p) \<noteq> {})"

lemma check_targets_Inr:
  "check_targets a t policy cost unrelated cs = Inr (cost', unrelated') \<longleftrightarrow>
     (\<forall>c \<in> set cs. target_ok a t policy c) \<and> cost' = cost + targets_cost cs \<and>
     unrelated' = unrelated @ map ct_resource (filter (\<lambda>c. \<not> on_witness a (ct_resource c)) cs)"
proof (induction cs arbitrary: cost unrelated)
  case Nil
  then show ?case by (auto simp: targets_cost_def)
next
  case (Cons c cs)
  show ?case
  proof (cases "find_resource t (ct_resource c)")
    case None
    then show ?thesis by (simp add: target_ok_def)
  next
    case (Some rc)
    then have "target_ok a t policy c \<longleftrightarrow> may_contain policy rc \<and> ct_cost c = rr_cost rc"
      by (simp add: target_ok_def)
    then show ?thesis using Some Cons.IH
      by (auto simp: targets_cost_def list_ex_iff on_witness_def add.assoc)
  qed
qed

lemma check_targets_Inl:
  "(\<exists>r. check_targets a t policy cost unrelated cs = Inl r) \<longleftrightarrow> \<not> (\<forall>c \<in> set cs. target_ok a t policy c)"
proof (cases "check_targets a t policy cost unrelated cs")
  case (Inr x)
  then show ?thesis using check_targets_Inr[of a t policy cost unrelated cs "fst x" "snd x"] by simp
next
  case (Inl r)
  then have "\<not> check_targets a t policy cost unrelated cs = Inr (cost + targets_cost cs,
      unrelated @ map ct_resource (filter (\<lambda>c. \<not> on_witness a (ct_resource c)) cs))" by simp
  then show ?thesis unfolding check_targets_Inr using Inl by blast
qed

lemma accept_reject_valid [simp]:
  "\<not> pv_valid (reject_plan r v)" "pv_valid (accept_plan r v)"
  by (simp_all add: reject_plan_def accept_plan_def)

lemma unbroken_witnesses_Nil:
  "unbroken_witnesses (target_resources p) a = [] \<longleftrightarrow>
     (\<forall>w \<in> set (la_witnesses a). set (lw_cycle w) \<inter> ct_resource ` set (pl_targets p) \<noteq> {})"
  unfolding unbroken_witnesses_def target_resources_def list_ex_iff by (simp add: filter_empty_conv) blast

lemma validate_affirmative_iff:
  "pv_valid (validate_affirmative p a t policy v) \<longleftrightarrow> affirmative_ok p a t policy"
proof (cases "check_targets a t policy 0 [] (pl_targets p)")
  case (Inl r)
  then have "\<not> (\<forall>c \<in> set (pl_targets p). target_ok a t policy c)" using check_targets_Inl by blast
  then have "\<not> affirmative_ok p a t policy" unfolding affirmative_ok_def by blast
  then show ?thesis using Inl by (cases r) (simp add: validate_affirmative_def)
next
  case (Inr x)
  obtain cost unrelated where x: "x = (cost, unrelated)" by (cases x)
  note ct = Inr[unfolded x check_targets_Inr]
  have strict: "sorted (map ct_resource (pl_targets p)) \<and> \<not> adjacent_dup (map ct_resource (pl_targets p)) \<longleftrightarrow>
      sorted_wrt (<) (map ct_resource (pl_targets p))"
    using sorted_adjacent_dup strict_sorted_imp_sorted by blast
  have unrelated: "unrelated = [] \<longleftrightarrow> (\<forall>c \<in> set (pl_targets p). on_witness a (ct_resource c))"
    using ct by (auto simp: filter_empty_conv)
  have "pv_valid (validate_affirmative p a t policy v) \<longleftrightarrow> pl_targets p \<noteq> [] \<and>
      (sorted (map ct_resource (pl_targets p)) \<and> \<not> adjacent_dup (map ct_resource (pl_targets p))) \<and> unrelated = [] \<and>
      cost = pl_total_cost p \<and> unbroken_witnesses (target_resources p) a = []"
    using Inr by (simp add: x validate_affirmative_def Let_def)
  then show ?thesis unfolding strict unrelated unbroken_witnesses_Nil affirmative_ok_def using ct by auto
qed

text \<open>What a plan should be, without reference to the search: its targets are eligible resources on the
  cycles of confirmed witnesses. Bisection finds nothing that is not there, and finds everything on
  an ascending cycle; the rotated cycle of a witness need not ascend.\<close>

definition affirmative_spec :: "containment_plan \<Rightarrow> loop_assessment \<Rightarrow> topology \<Rightarrow> containment_policy \<Rightarrow> bool" where
  "affirmative_spec p a t policy \<longleftrightarrow> pl_targets p \<noteq> [] \<and> sorted_wrt (<) (map ct_resource (pl_targets p)) \<and>
     (\<forall>c \<in> set (pl_targets p). target_ok a t policy c) \<and>
     ct_resource ` set (pl_targets p) \<subseteq> (\<Union>w \<in> set (la_witnesses a). set (lw_cycle w)) \<and>
     pl_total_cost p = targets_cost (pl_targets p) \<and>
     (\<forall>w \<in> set (la_witnesses a). set (lw_cycle w) \<inter> ct_resource ` set (pl_targets p) \<noteq> {})"

definition plan_correct :: "containment_plan \<Rightarrow> loop_assessment \<Rightarrow> topology \<Rightarrow> containment_policy \<Rightarrow> bool" where
  "plan_correct p a t policy \<longleftrightarrow> pl_fence p = la_fence a \<and> pl_assessment p = la_id a \<and>
     pl_policy_generation p = po_generation policy \<and> affirmative_spec p a t policy"

lemma lower_bound_from_stop:
  assumes "first + len \<le> length xs" "first + len < length xs \<Longrightarrow> \<not> below (xs ! (first + len))"
    and "lower_bound_from below xs first len < length xs"
  shows "\<not> below (xs ! lower_bound_from below xs first len)"
  using assms
proof (induction below xs first len rule: lower_bound_from.induct)
  case (1 below xs first len)
  consider "len = 0" | "len \<noteq> 0" "below (xs ! (first + len div 2))" | "len \<noteq> 0" "\<not> below (xs ! (first + len div 2))" by blast
  then show ?case
  proof cases
    case 1
    then show ?thesis using "1.prems" by (simp add: lower_bound_from.simps)
  next
    case 2
    have "Suc (first + len div 2) + (len - len div 2 - 1) = first + len" using 2 by simp
    then show ?thesis
      using "1.IH"(1)[OF 2] "1.prems" 2 lower_bound_from.simps[of below xs first len] by simp
  next
    case 3
    then show ?thesis
      using "1.IH"(2)[OF 3] "1.prems" lower_bound_from.simps[of below xs first len] by simp
  qed
qed

lemma binary_search_finds: "binary_search xs v \<Longrightarrow> v \<in> set xs"
proof -
  let ?p = "lower_bound (\<lambda>x. x < v) xs"
  assume "binary_search xs v"
  then have p: "?p < length xs" "\<not> v < xs ! ?p" by (auto simp: binary_search_def Let_def)
  have "\<not> xs ! ?p < v"
    using lower_bound_from_stop[of 0 "length xs" xs "\<lambda>x. x < v"] p(1) by (simp add: lower_bound_def)
  with p have "xs ! ?p = v" by auto
  then show "v \<in> set xs" using p(1) by (metis nth_mem)
qed

lemma affirmative_ok_spec: "affirmative_ok p a t policy \<Longrightarrow> affirmative_spec p a t policy"
  unfolding affirmative_ok_def affirmative_spec_def on_witness_def using binary_search_finds by fastforce

lemma affirmative_spec_ok:
  assumes "affirmative_spec p a t policy"
    and "\<forall>c \<in> set (pl_targets p). \<exists>w \<in> set (la_witnesses a). sorted (lw_cycle w) \<and> ct_resource c \<in> set (lw_cycle w)"
  shows "affirmative_ok p a t policy"
proof -
  have "on_witness a (ct_resource c)" if "c \<in> set (pl_targets p)" for c
    using assms(2) that unfolding on_witness_def by (metis binary_search_iff)
  then show ?thesis using assms(1) by (simp add: affirmative_ok_def affirmative_spec_def)
qed

text \<open>Validity, and what it depends on.\<close>

definition plan_valid :: "containment_plan \<Rightarrow> loop_assessment \<Rightarrow> topology \<Rightarrow> containment_policy \<Rightarrow> limits \<Rightarrow> bool" where
  "plan_valid p a t policy l \<longleftrightarrow> pv_valid (the (r_value (validate_plan p a t policy l)))"

lemma plan_valid_affirmative:
  assumes "pl_outcome p \<in> {Con_PlanOptimal, Con_PlanFeasible}"
  shows "plan_valid p a t policy l \<longleftrightarrow> check_plan_binding p a policy = None \<and> affirmative_ok p a t policy"
  using assms by (auto simp: plan_valid_def validate_plan_def Let_def validate_affirmative_iff split: option.split)

lemma eligible_may_contain: "eligible t policy r = Some record \<Longrightarrow> find_resource t r = Some record \<and> may_contain policy record"
  by (auto simp: eligible_def may_contain_def split: option.splits if_splits)

lemma plan_valid_infeasible:
  assumes "pl_outcome p = Con_ProvenInfeasible" "plan_valid p a t policy l"
  obtains w where "w \<in> set (la_witnesses a)" "\<forall>r \<in> set (lw_cycle w). eligible t policy r = None"
proof -
  from assms obtain c w where c: "pl_certificate p = Some c" "find (\<lambda>w. lw_id w = cc_witness c) (la_witnesses a) = Some w"
    and none: "\<not> list_ex (\<lambda>r. case find_resource t r of None \<Rightarrow> False | Some record \<Rightarrow> may_contain policy record) (lw_cycle w)"
    by (auto simp: plan_valid_def validate_plan_def Let_def validate_infeasible_def split: option.splits if_splits)
  have "w \<in> set (la_witnesses a)" using c(2) by (auto simp: find_Some_iff)
  moreover have "eligible t policy r = None" if "r \<in> set (lw_cycle w)" for r
    using none that eligible_may_contain[of t policy r] by (cases "eligible t policy r") (auto simp: list_ex_iff)
  ultimately show thesis using that by blast
qed

section \<open>The instance\<close>

lemma witness_options_set:
  "set (witness_options t policy w) =
     (if po_cross_domain policy \<or> \<not> lw_crosses w then {r \<in> set (lw_cycle w). eligible t policy r \<noteq> None} else {})"
  by (simp add: witness_options_def)

lemma containment_options_ids:
  "fst ` set (containment_options t policy ws) = (\<Union>w \<in> set ws. set (witness_options t policy w))"
  by (auto simp: containment_options_def image_image)

lemma containment_instance_ok:
  assumes "topology_ok t" "length (td_resources t) \<le> 2 ^ 32"
  shows "instance_ok (containment_instance l t policy ws)"
proof -
  let ?ids = "sort_unique (concat (map (witness_options t policy) ws))"
  have d: "distinct ?ids" using sort_unique_strict strict_sorted_iff by blast
  have "set ?ids \<subseteq> rr_id ` set (td_resources t)"
  proof
    fix r assume "r \<in> set ?ids"
    then obtain rc where "eligible t policy r = Some rc"
      by (auto simp: witness_options_set split: if_splits)
    then have "rc \<in> set (td_resources t)" "rr_id rc = r"
      using eligible_may_contain[of t policy r rc] find_resource_iff[OF assms(1)] by simp_all
    then show "r \<in> rr_id ` set (td_resources t)" by blast
  qed
  then have "length ?ids \<le> length (td_resources t)"
    using d by (metis card_length card_mono distinct_card finite_imageI finite_set le_trans length_map set_map)
  with d assms(2) show ?thesis
    by (simp add: instance_ok_def containment_instance_def containment_options_def comp_def)
qed

lemma containment_cost:
  assumes "r \<in> fst ` set (containment_options t policy ws)"
  shows "map_of (containment_options t policy ws) r = Some (rr_cost (the (eligible t policy r)))"
proof -
  have "map_of (map (\<lambda>r. (r, f r)) xs) r = Some (f r)" if "r \<in> set xs" for f :: "u64 \<Rightarrow> u32" and xs
    using that by (induction xs) auto
  then show ?thesis using assms unfolding containment_options_def by (auto simp: image_image)
qed

lemma resources_cost_containment:
  assumes "sorted_wrt (<) R" "set R \<subseteq> fst ` set (containment_options t policy ws)"
  shows "resources_cost (containment_instance l t policy ws) R = (\<Sum>r \<in> set R. unat (rr_cost (the (eligible t policy r))))"
proof -
  have "resources_cost (containment_instance l t policy ws) R = (\<Sum>r \<leftarrow> R. unat (rr_cost (the (eligible t policy r))))"
    unfolding resources_cost_def using assms(2)
    by (intro arg_cong[of _ _ sum_list] map_cong) (simp_all add: containment_instance_def containment_cost subset_iff)
  then show ?thesis using assms(1) by (simp add: sum_list_distinct_conv_sum_set strict_sorted_iff)
qed

section \<open>What the planner publishes\<close>

lemma note_plan_fields [simp]:
  "pl_outcome (note_plan code subject detail p) = pl_outcome p"
  "pl_targets (note_plan code subject detail p) = pl_targets p"
  "pl_total_cost (note_plan code subject detail p) = pl_total_cost p"
  "pl_within_budget (note_plan code subject detail p) = pl_within_budget p"
  "pl_certificate (note_plan code subject detail p) = pl_certificate p"
  "pl_fence (note_plan code subject detail p) = pl_fence p"
  "pl_assessment (note_plan code subject detail p) = pl_assessment p"
  "pl_policy_generation (note_plan code subject detail p) = pl_policy_generation p"
  "pl_flags (note_plan code subject detail p) = pl_flags p"
  by (simp_all add: note_plan_def)

lemma attach_greedy_fields [simp]:
  "pl_outcome (attach_greedy t a inst p) = pl_outcome p" "pl_targets (attach_greedy t a inst p) = pl_targets p"
  "pl_total_cost (attach_greedy t a inst p) = pl_total_cost p"
  "pl_within_budget (attach_greedy t a inst p) = pl_within_budget p"
  by (simp_all add: attach_greedy_def Let_def)

lemma publish_plan_cases:
  obtains (refused) "pl_outcome (publish_plan t policy a l p) = Con_Invalid" "pl_targets (publish_plan t policy a l p) = []"
      "\<not> pl_within_budget (publish_plan t policy a l p)"
  | (published) "plan_valid p a t policy l" "pl_outcome (publish_plan t policy a l p) = pl_outcome p"
      "pl_targets (publish_plan t policy a l p) = pl_targets p"
      "pl_total_cost (publish_plan t policy a l p) = pl_total_cost p"
      "pl_within_budget (publish_plan t policy a l p) = pl_within_budget p"
proof (cases "plan_valid p a t policy l")
  case True
  then show thesis by (intro published) (simp_all add: publish_plan_def Let_def plan_valid_def validate_plan_def)
next
  case False
  then show thesis by (intro refused) (simp_all add: publish_plan_def Let_def plan_valid_def validate_plan_def)
qed

lemma adopt_solution_Inl:
  assumes "adopt_solution t policy a inst sol p = Inl q" "\<not> pl_within_budget p"
  shows "pl_outcome q = Con_Invalid \<and> pl_targets q = [] \<and> \<not> pl_within_budget q"
  using assms
  by (auto simp: adopt_solution_def adopt_targets_def Let_def split: containment_outcome.splits if_splits)

lemma adopt_targets_Inr:
  assumes "adopt_targets t policy a sol p = Inr q"
  shows "pl_outcome q = hs_outcome sol" "pl_total_cost q = hs_total_cost sol"
    "pl_targets q = build_targets t (la_witnesses a) (hs_targets sol)
       (if hs_proved_minimum sol then Target_MinimumCostHittingSet else Target_FeasibleHittingSet)"
    "pl_within_budget q \<Longrightarrow> length (pl_targets q) \<le> unat (po_max_targets policy) \<and>
       pl_total_cost q \<le> po_max_total_cost policy"
  using assms by (auto simp: adopt_targets_def Let_def split: if_splits)

lemma adopt_solution_Inr:
  assumes "adopt_solution t policy a inst sol p = Inr q"
    and "hs_outcome sol \<in> {Con_PlanOptimal, Con_PlanFeasible, Con_ProvenInfeasible, Con_SearchLimitReached}"
    and "\<not> pl_within_budget p"
  shows "pl_outcome q = hs_outcome sol"
    "hs_outcome sol \<in> {Con_PlanOptimal, Con_PlanFeasible} \<Longrightarrow> adopt_targets t policy a sol p = Inr q"
    "pl_within_budget q \<Longrightarrow> hs_outcome sol \<in> {Con_PlanOptimal, Con_PlanFeasible}"
proof -
  have inf: "pl_outcome (adopt_infeasible a inst sol p) = Con_ProvenInfeasible"
    "pl_within_budget (adopt_infeasible a inst sol p) = pl_within_budget p"
    by (simp_all add: adopt_infeasible_def Let_def split: option.split)
  show "pl_outcome q = hs_outcome sol"
    "hs_outcome sol \<in> {Con_PlanOptimal, Con_PlanFeasible} \<Longrightarrow> adopt_targets t policy a sol p = Inr q"
    "pl_within_budget q \<Longrightarrow> hs_outcome sol \<in> {Con_PlanOptimal, Con_PlanFeasible}"
    using assms inf adopt_targets_Inr(1)[of t policy a sol p q] by (auto simp: adopt_solution_def)
qed

text \<open>An affirmative plan of a confirmed assessment is the solver's answer, validated.\<close>

lemma plan_confirmed_affirmative:
  fixes p0 :: containment_plan
  assumes "instance_ok (containment_instance l t policy (la_witnesses a))" "\<not> pl_within_budget p0"
  defines "sol \<equiv> solve_hitting_set (containment_instance l t policy (la_witnesses a))"
    and "p \<equiv> plan_confirmed l a t policy p0"
  shows "pl_outcome p \<in> {Con_PlanOptimal, Con_PlanFeasible} \<Longrightarrow>
      affirmative_ok p a t policy \<and> hs_outcome sol = pl_outcome p \<and> pl_total_cost p = hs_total_cost sol"
    "pl_outcome p = Con_ProvenInfeasible \<Longrightarrow> \<exists>w \<in> set (la_witnesses a). \<forall>r \<in> set (lw_cycle w). eligible t policy r = None"
    "pl_within_budget p \<Longrightarrow> pl_outcome p \<in> {Con_PlanOptimal, Con_PlanFeasible} \<and>
      length (pl_targets p) \<le> unat (po_max_targets policy) \<and> pl_total_cost p \<le> po_max_total_cost policy"
proof -
  let ?inst = "containment_instance l t policy (la_witnesses a)"
  define p1 where "p1 = p0\<lparr>pl_witness_count := word_of_nat (length (la_witnesses a)),
      pl_counters := (pl_counters p0)\<lparr>pc_nodes_expanded := hs_nodes_expanded sol\<rparr>\<rparr>"
  have p: "p = (case adopt_solution t policy a ?inst sol p1 of Inl q \<Rightarrow> q
      | Inr q \<Rightarrow> publish_plan t policy a l (attach_greedy t a ?inst q))"
    by (simp add: p_def plan_confirmed_def Let_def sol_def p1_def)
  have within1: "\<not> pl_within_budget p1" using assms(2) by (simp add: p1_def)
  note oc = solve_hitting_set_spec(4)[OF assms(1), folded sol_def]
  have "(pl_outcome p \<in> {Con_PlanOptimal, Con_PlanFeasible} \<longrightarrow>
      affirmative_ok p a t policy \<and> hs_outcome sol = pl_outcome p \<and> pl_total_cost p = hs_total_cost sol) \<and>
    (pl_outcome p = Con_ProvenInfeasible \<longrightarrow> (\<exists>w \<in> set (la_witnesses a). \<forall>r \<in> set (lw_cycle w). eligible t policy r = None)) \<and>
    (pl_within_budget p \<longrightarrow> pl_outcome p \<in> {Con_PlanOptimal, Con_PlanFeasible} \<and>
      length (pl_targets p) \<le> unat (po_max_targets policy) \<and> pl_total_cost p \<le> po_max_total_cost policy)"
  proof (cases "adopt_solution t policy a ?inst sol p1")
    case (Inl q)
    then show ?thesis using adopt_solution_Inl[OF Inl within1] by (simp add: p)
  next
    case (Inr q)
    note adopted = adopt_solution_Inr[OF Inr oc within1]
    let ?q = "attach_greedy t a ?inst q"
    have pq: "p = publish_plan t policy a l ?q" by (simp add: p Inr)
    show ?thesis
    proof (cases rule: publish_plan_cases[of t policy a l ?q])
      case refused
      then show ?thesis by (simp add: pq)
    next
      case published
      have aff: "affirmative_ok p a t policy" if "pl_outcome p \<in> {Con_PlanOptimal, Con_PlanFeasible}"
      proof -
        have "affirmative_ok ?q a t policy"
          using plan_valid_affirmative[of ?q a t policy l] published that unfolding pq by simp
        then show ?thesis using published unfolding pq affirmative_ok_def by simp
      qed
      have "hs_outcome sol = pl_outcome p" using published adopted(1) unfolding pq by simp
      moreover have "pl_total_cost p = hs_total_cost sol" if "pl_outcome p \<in> {Con_PlanOptimal, Con_PlanFeasible}"
        using adopt_targets_Inr(2)[OF adopted(2)] that published adopted(1) unfolding pq by simp
      moreover have "\<exists>w \<in> set (la_witnesses a). \<forall>r \<in> set (lw_cycle w). eligible t policy r = None"
        if "pl_outcome p = Con_ProvenInfeasible"
        using plan_valid_infeasible[of ?q a t policy l] published that unfolding pq by (metis)
      moreover have "pl_outcome p \<in> {Con_PlanOptimal, Con_PlanFeasible} \<and>
          length (pl_targets p) \<le> unat (po_max_targets policy) \<and> pl_total_cost p \<le> po_max_total_cost policy"
        if "pl_within_budget p"
      proof -
        have w: "pl_within_budget q" using that published unfolding pq by simp
        from adopt_targets_Inr(4)[OF adopted(2)[OF adopted(3)[OF w]] w] adopted(1) adopted(3)[OF w]
        show ?thesis using published unfolding pq by simp
      qed
      ultimately show ?thesis using aff by blast
    qed
  qed
  then show "pl_outcome p \<in> {Con_PlanOptimal, Con_PlanFeasible} \<Longrightarrow>
      affirmative_ok p a t policy \<and> hs_outcome sol = pl_outcome p \<and> pl_total_cost p = hs_total_cost sol"
    "pl_outcome p = Con_ProvenInfeasible \<Longrightarrow> \<exists>w \<in> set (la_witnesses a). \<forall>r \<in> set (lw_cycle w). eligible t policy r = None"
    "pl_within_budget p \<Longrightarrow> pl_outcome p \<in> {Con_PlanOptimal, Con_PlanFeasible} \<and>
      length (pl_targets p) \<le> unat (po_max_targets policy) \<and> pl_total_cost p \<le> po_max_total_cost policy"
    by blast+
qed

lemma finalize_plan_fields [simp]:
  "pl_outcome (finalize_plan p) = pl_outcome p" "pl_targets (finalize_plan p) = pl_targets p"
  "pl_total_cost (finalize_plan p) = pl_total_cost p" "pl_within_budget (finalize_plan p) = pl_within_budget p"
  "affirmative_ok (finalize_plan p) a t policy = affirmative_ok p a t policy"
  by (simp_all add: finalize_plan_def affirmative_ok_def)

lemma blank_plan_within [simp]: "\<not> pl_within_budget (blank_plan l policy a)"
  by (simp add: blank_plan_def)

lemma plan_containment_form:
  assumes "plan_containment l a t policy = ok p"
    and "pl_outcome p \<in> {Con_PlanOptimal, Con_PlanFeasible, Con_ProvenInfeasible} \<or> pl_within_budget p"
  shows "la_outcome a = Loop_LoopConfirmed \<and> p = finalize_plan (plan_confirmed l a t policy (blank_plan l policy a))"
  using assms by (auto simp: plan_containment_def Let_def split: option.splits if_splits prod.splits)

lemma plan_affirmative:
  assumes t: "topology_ok t" "length (td_resources t) \<le> 2 ^ 32"
    and p: "plan_containment l a t policy = ok p" "pl_outcome p \<in> {Con_PlanOptimal, Con_PlanFeasible}"
  shows "la_outcome a = Loop_LoopConfirmed \<and> affirmative_ok p a t policy"
  using plan_containment_form[OF p(1)] p(2) plan_confirmed_affirmative(1)[OF containment_instance_ok[OF t] blank_plan_within]
  by auto

lemma plan_infeasible:
  assumes t: "topology_ok t" "length (td_resources t) \<le> 2 ^ 32"
    and p: "plan_containment l a t policy = ok p" "pl_outcome p = Con_ProvenInfeasible"
  shows "\<exists>w \<in> set (la_witnesses a). \<forall>r \<in> set (lw_cycle w). eligible t policy r = None"
  using plan_containment_form[OF p(1)] p(2) plan_confirmed_affirmative(2)[OF containment_instance_ok[OF t] blank_plan_within]
  by auto

lemma plan_within_budget:
  assumes t: "topology_ok t" "length (td_resources t) \<le> 2 ^ 32"
    and p: "plan_containment l a t policy = ok p" "pl_within_budget p"
  shows "length (pl_targets p) \<le> unat (po_max_targets policy) \<and> pl_total_cost p \<le> po_max_total_cost policy"
  using plan_containment_form[OF p(1)] p(2) plan_confirmed_affirmative(3)[OF containment_instance_ok[OF t] blank_plan_within]
  by auto

text \<open>No admissible set of resources that breaks every witness is cheaper than a published optimum.\<close>

lemma plan_optimal_minimal:
  assumes t: "topology_ok t" "length (td_resources t) \<le> 2 ^ 32"
    and p: "plan_containment l a t policy = ok p" "pl_outcome p = Con_PlanOptimal"
    and R: "\<forall>r \<in> R. eligible t policy r \<noteq> None" "\<forall>w \<in> set (la_witnesses a). set (lw_cycle w) \<inter> R \<noteq> {}"
  shows "unat (pl_total_cost p) \<le> (\<Sum>r \<in> R. unat (rr_cost (the (eligible t policy r))))"
proof -
  let ?inst = "containment_instance l t policy (la_witnesses a)"
  let ?ids = "fst ` set (containment_options t policy (la_witnesses a))"
  let ?R = "sorted_list_of_set (R \<inter> ?ids)" and ?sol = "solve_hitting_set ?inst"
  note iok = containment_instance_ok[OF t, of l policy "la_witnesses a"]
  have form: "p = finalize_plan (plan_confirmed l a t policy (blank_plan l policy a))"
    using plan_containment_form[OF p(1)] p(2) by simp
  have sol: "hs_outcome ?sol = Con_PlanOptimal" "pl_total_cost p = hs_total_cost ?sol"
    using plan_confirmed_affirmative(1)[OF iok blank_plan_within[of l policy a]] p(2) unfolding form by simp_all
  note spec = solve_hitting_set_spec(1,2)[OF iok]
  have hits: "is_hitting_set ?inst (hs_targets ?sol)" using spec(1) sol(1) by blast
  have "witness_options t policy w \<noteq> []" if "w \<in> set (la_witnesses a)" for w
    using hits that by (auto simp: is_hitting_set_def containment_instance_def)
  then have admissible: "po_cross_domain policy \<or> \<not> lw_crosses w" if "w \<in> set (la_witnesses a)" for w
    using that by (fastforce simp: witness_options_def)
  have "set (witness_options t policy w) \<inter> (R \<inter> ?ids) \<noteq> {}" if w: "w \<in> set (la_witnesses a)" for w
  proof -
    obtain r where r: "r \<in> set (lw_cycle w)" "r \<in> R" using R(2) w by blast
    then have "r \<in> set (witness_options t policy w)" using R(1) admissible[OF w] by (auto simp: witness_options_set)
    then show ?thesis using r w by (auto simp: containment_options_ids)
  qed
  then have "is_hitting_set ?inst ?R"
    by (auto simp: is_hitting_set_def containment_instance_def)
  then have "resources_key ?inst (hs_targets ?sol) \<le> resources_key ?inst ?R" using spec(2) sol(1) by blast
  then have "resources_cost ?inst (hs_targets ?sol) \<le> resources_cost ?inst ?R"
    by (auto simp: resources_key_def objective_def less_eq_prod_simp)
  moreover have "unat (pl_total_cost p) = resources_cost ?inst (hs_targets ?sol)" using spec(1) sol by simp
  moreover have "resources_cost ?inst ?R = (\<Sum>r \<in> R \<inter> ?ids. unat (rr_cost (the (eligible t policy r))))"
    using resources_cost_containment[of ?R t policy "la_witnesses a" l] by simp
  moreover have "finite R"
  proof (rule finite_subset)
    show "R \<subseteq> rr_id ` set (td_resources t)"
    proof
      fix r assume "r \<in> R"
      then obtain rc where "eligible t policy r = Some rc" using R(1) by blast
      then show "r \<in> rr_id ` set (td_resources t)"
        using eligible_may_contain[of t policy r rc] find_resource_iff[OF t(1)] by auto
    qed
  qed simp
  then have "(\<Sum>r \<in> R \<inter> ?ids. unat (rr_cost (the (eligible t policy r)))) \<le> (\<Sum>r \<in> R. unat (rr_cost (the (eligible t policy r))))"
    by (rule sum_mono2) simp_all
  ultimately show ?thesis by simp
qed

end
