(* ===== verification/Shadow.thy ===== *)
theory Shadow
  imports Containment
begin

text \<open>
  The shadow definition (apply_containment_shadow of src/containment.cpp): a copy of the definition in
  which the affected hops of every target no longer admit its selectors, rebuilt through the builder.

  \<open>shadow_targets\<close>, \<open>shadow_hops\<close> and \<open>remove_selector\<close> are the three nested loops, \<open>add_all\<close> the
  insertion loops. The lemmas: a shadow is well-formed, differs from the definition in the selectors of
  the affected edges only (\<open>shadow_spec\<close>), opens no hop (\<open>shadow_hop_open\<close>) and closes every hop of a
  target on the witnesses the target was built from.
\<close>

section \<open>Texts\<close>

definition txt_affected_hop_is_not_an_edge_of :: string where
  "txt_affected_hop_is_not_an_edge_of =
     ''affected hop is not an edge of the definition''"

definition txt_a_target_without_selectors_would_disable_unrelated :: string where
  "txt_a_target_without_selectors_would_disable_unrelated =
     ''a target without selectors would disable unrelated forwarding''"

section \<open>Shadow application\<close>

definition remove_selector :: "forwarding_edge \<Rightarrow> u64 \<Rightarrow> forwarding_edge" where
  "remove_selector edge s =
     (if \<not> binary_search (fe_selectors edge) s then edge
      else edge\<lparr>fe_selectors := erase_at (lower_bound (\<lambda>x. x < s) (fe_selectors edge)) (fe_selectors edge)\<rparr>)"

fun shadow_hops :: "u64 list \<Rightarrow> u64 list \<Rightarrow> u64 list \<Rightarrow> forwarding_edge list \<Rightarrow> forwarding_edge list result" where
  "shadow_hops ids selectors [] edges = ok edges"
| "shadow_hops ids selectors (hop # hops) edges =
     (case index_map ids hop of
        None \<Rightarrow> failure Oc_NotFound txt_affected_hop_is_not_an_edge_of
      | Some i \<Rightarrow> shadow_hops ids selectors hops (edges[i := foldl remove_selector (edges ! i) selectors]))"

fun shadow_targets :: "u64 list \<Rightarrow> containment_target list \<Rightarrow> forwarding_edge list \<Rightarrow> forwarding_edge list result" where
  "shadow_targets ids [] edges = ok edges"
| "shadow_targets ids (c # cs) edges =
     (if ct_selectors c = [] then
        failure Oc_Invalid txt_a_target_without_selectors_would_disable_unrelated
      else let r = shadow_hops ids (ct_selectors c) (ct_hops c) edges
           in case r_value r of None \<Rightarrow> failure (r_outcome r) (r_detail r)
            | Some edges \<Rightarrow> shadow_targets ids cs edges)"

fun add_all :: "('x \<Rightarrow> topology_builder \<Rightarrow> status \<times> topology_builder) \<Rightarrow> 'x list \<Rightarrow> topology_builder \<Rightarrow>
    status \<times> topology_builder" where
  "add_all add [] b = (status_ok, b)"
| "add_all add (x # xs) b = (case add x b of (s, b) \<Rightarrow> if \<not> is_ok s then (s, b) else add_all add xs b)"

definition apply_containment_shadow :: "topology \<Rightarrow> containment_plan \<Rightarrow> limits \<Rightarrow> topology result" where
  "apply_containment_shadow t p l =
     (let shadowed = shadow_targets (map fe_id (td_edges t)) (pl_targets p) (td_edges t)
      in case r_value shadowed of None \<Rightarrow> failure (r_outcome shadowed) (r_detail shadowed)
       | Some edges \<Rightarrow>
           (case add_all add_selector (td_selectors t) ((new_builder l)\<lparr>tb_generation := td_generation t\<rparr>) of
              (s, b) \<Rightarrow> if \<not> is_ok s then failure (r_outcome s) (r_detail s) else
           (case add_all add_resource (td_resources t) b of
              (s, b) \<Rightarrow> if \<not> is_ok s then failure (r_outcome s) (r_detail s) else
           (case add_all add_edge edges b of
              (s, b) \<Rightarrow> if \<not> is_ok s then failure (r_outcome s) (r_detail s) else build b))))"

section \<open>The shadow definition\<close>

lemma remove_selector_spec:
  assumes "sorted_wrt (<) (fe_selectors e)"
  shows "remove_selector e s = e\<lparr>fe_selectors := filter (\<lambda>x. x \<noteq> s) (fe_selectors e)\<rparr>"
proof -
  define xs where "xs = fe_selectors e"
  define p where "p = lower_bound (\<lambda>x. x < s) xs"
  have srt: "sorted xs" and str: "sorted_wrt (<) xs" using assms by (simp_all add: xs_def strict_sorted_iff)
  have parts: "take p xs @ drop p xs = xs" by simp
  have below: "\<forall>x \<in> set (take p xs). x < s" and above: "\<forall>x \<in> set (drop p xs). s \<le> x"
    using take_drop_lower_bound[of "\<lambda>x. x" xs s, unfolded map_ident, OF srt] unfolding p_def by blast+
  have low: "filter (\<lambda>x. x \<noteq> s) (take p xs) = take p xs" using below by (intro filter_True) auto
  have split: "filter (\<lambda>x. x \<noteq> s) xs = take p xs @ filter (\<lambda>x. x \<noteq> s) (drop p xs)"
    by (metis filter_append low parts)
  show ?thesis
  proof (cases "s \<in> set xs")
    case False
    then have "filter (\<lambda>x. x \<noteq> s) xs = xs" by (intro filter_True) auto
    with False srt show ?thesis by (simp add: remove_selector_def flip: xs_def)
  next
    case True
    have "s \<in> set (take p xs) \<union> set (drop p xs)" using True unfolding set_append[symmetric] parts .
    then have s: "s \<in> set (drop p xs)" using below by auto
    then obtain y ys where ys: "drop p xs = y # ys" by (cases "drop p xs") auto
    have "sorted_wrt (<) (drop p xs)" using str by (rule sorted_wrt_drop)
    then have later: "\<forall>x \<in> set ys. y < x" by (simp add: ys)
    have y: "y = s" using s later above by (auto simp: ys)
    have "filter (\<lambda>x. x \<noteq> s) ys = ys" using later y by (intro filter_True) auto
    then have "filter (\<lambda>x. x \<noteq> s) (drop p xs) = ys" by (simp add: ys y)
    moreover have "ys = drop (Suc p) xs" by (metis drop_Suc list.sel(3) tl_drop ys)
    ultimately have "filter (\<lambda>x. x \<noteq> s) xs = erase_at p xs" by (simp add: split erase_at_def)
    with True srt show ?thesis by (simp add: remove_selector_def p_def flip: xs_def)
  qed
qed

definition shadow_edge :: "containment_target list \<Rightarrow> forwarding_edge \<Rightarrow> forwarding_edge" where
  "shadow_edge cs e = e\<lparr>fe_selectors := filter (\<lambda>s. \<not> (\<exists>c \<in> set cs. fe_id e \<in> set (ct_hops c) \<and> s \<in> set (ct_selectors c)))
     (fe_selectors e)\<rparr>"

lemma remove_selectors_spec:
  assumes "sorted_wrt (<) (fe_selectors e)"
  shows "foldl remove_selector e ss = e\<lparr>fe_selectors := filter (\<lambda>x. x \<notin> set ss) (fe_selectors e)\<rparr>"
  using assms
proof (induction ss arbitrary: e)
  case (Cons s ss)
  have "foldl remove_selector (e\<lparr>fe_selectors := filter (\<lambda>x. x \<noteq> s) (fe_selectors e)\<rparr>) ss =
      e\<lparr>fe_selectors := filter (\<lambda>x. x \<notin> set ss) (filter (\<lambda>x. x \<noteq> s) (fe_selectors e))\<rparr>"
    using Cons.IH[of "e\<lparr>fe_selectors := filter (\<lambda>x. x \<noteq> s) (fe_selectors e)\<rparr>"] Cons.prems by (simp add: sorted_wrt_filter)
  then show ?case using Cons.prems by (simp add: remove_selector_spec conj_commute)
qed simp

text \<open>The edges as the loops see them: strictly sorted selectors, identities in step with the index.\<close>

definition edges_indexed :: "u64 list \<Rightarrow> forwarding_edge list \<Rightarrow> bool" where
  "edges_indexed ids edges \<longleftrightarrow> map fe_id edges = ids \<and> distinct ids \<and> (\<forall>e \<in> set edges. sorted_wrt (<) (fe_selectors e))"

definition cut_hops :: "u64 list \<Rightarrow> u64 list \<Rightarrow> forwarding_edge \<Rightarrow> forwarding_edge" where
  "cut_hops selectors hops e = e\<lparr>fe_selectors := filter (\<lambda>s. \<not> (fe_id e \<in> set hops \<and> s \<in> set selectors)) (fe_selectors e)\<rparr>"

lemma edges_indexed_map:
  assumes "edges_indexed ids edges" "\<And>e. fe_id (f e) = fe_id e"
    and "\<And>e. sorted_wrt (<) (fe_selectors e) \<Longrightarrow> sorted_wrt (<) (fe_selectors (f e))"
  shows "edges_indexed ids (map f edges)"
  using assms by (auto simp: edges_indexed_def comp_def)

lemma index_map_at:
  assumes "edges_indexed ids edges" "index_map ids hop = Some i"
  shows "i < length edges \<and> fe_id (edges ! i) = hop \<and> (\<forall>j < length edges. fe_id (edges ! j) = hop \<longrightarrow> j = i)"
proof -
  have ids: "ids = map fe_id edges" "distinct ids" using assms(1) by (simp_all add: edges_indexed_def)
  have i: "i < length edges" "fe_id (edges ! i) = hop" using assms(2) ids by (auto simp: index_map_iff)
  have "j = i" if "j < length edges" "fe_id (edges ! j) = hop" for j
    using nth_eq_iff_index_eq[OF ids(2), of j i] i that by (simp add: ids(1))
  with i show ?thesis by blast
qed

lemma cut_hops_Cons: "cut_hops ss hops (cut_hops ss [hop] e) = cut_hops ss (hop # hops) e"
  by (simp add: cut_hops_def) (rule arg_cong[of _ _ "\<lambda>s. e\<lparr>fe_selectors := s\<rparr>"], auto intro: filter_cong)

lemma shadow_edge_Cons: "shadow_edge cs (cut_hops (ct_selectors c) (ct_hops c) e) = shadow_edge (c # cs) e"
  by (auto simp: shadow_edge_def cut_hops_def intro!: filter_cong)

lemma shadow_hops_spec:
  assumes "edges_indexed ids edges" "shadow_hops ids selectors hops edges = ok edges'"
  shows "edges' = map (cut_hops selectors hops) edges"
  using assms
proof (induction hops arbitrary: edges)
  case Nil
  then show ?case by (simp add: cut_hops_def map_idI)
next
  case (Cons hop hops)
  then obtain i where i: "index_map ids hop = Some i"
    and rest: "shadow_hops ids selectors hops (edges[i := foldl remove_selector (edges ! i) selectors]) = ok edges'"
    by (auto split: option.splits)
  have idx: "i < length edges" "fe_id (edges ! i) = hop" "\<And>j. j < length edges \<Longrightarrow> fe_id (edges ! j) = hop \<Longrightarrow> j = i"
    using i index_map_at[OF Cons.prems(1)] by blast+
  have "edges[i := foldl remove_selector (edges ! i) selectors] = map (cut_hops selectors [hop]) edges"
  proof (rule nth_equalityI)
    fix j assume "j < length (edges[i := foldl remove_selector (edges ! i) selectors])"
    then have j: "j < length edges" by simp
    show "edges[i := foldl remove_selector (edges ! i) selectors] ! j = map (cut_hops selectors [hop]) edges ! j"
    proof (cases "j = i")
      case True
      have "sorted_wrt (<) (fe_selectors (edges ! i))" using Cons.prems(1) idx(1) by (simp add: edges_indexed_def)
      with True idx(1,2) show ?thesis by (simp add: remove_selectors_spec cut_hops_def)
    next
      case False
      then have "fe_id (edges ! j) \<noteq> hop" using idx(3) j by blast
      with False j show ?thesis by (simp add: cut_hops_def)
    qed
  qed simp
  moreover have "edges_indexed ids (map (cut_hops selectors [hop]) edges)"
    using Cons.prems(1) by (rule edges_indexed_map) (simp_all add: cut_hops_def sorted_wrt_filter)
  ultimately have "edges' = map (cut_hops selectors hops) (map (cut_hops selectors [hop]) edges)"
    using Cons.IH rest by (simp del: map_map)
  then show ?case by (simp add: comp_def cut_hops_Cons)
qed

lemma shadow_hops_value: "r_value (shadow_hops ids selectors hops edges) = Some edges' \<Longrightarrow>
    shadow_hops ids selectors hops edges = ok edges'"
  by (induction hops arbitrary: edges) (auto split: option.splits)

lemma shadow_targets_value: "r_value (shadow_targets ids cs edges) = Some edges' \<Longrightarrow>
    shadow_targets ids cs edges = ok edges'"
  by (induction cs arbitrary: edges) (auto simp: Let_def failure_def ok_def split: option.splits if_splits)

lemma shadow_targets_spec:
  assumes "edges_indexed ids edges" "shadow_targets ids cs edges = ok edges'"
  shows "edges' = map (shadow_edge cs) edges"
  using assms
proof (induction cs arbitrary: edges)
  case Nil
  then show ?case by (simp add: shadow_edge_def map_idI)
next
  case (Cons c cs)
  then obtain edges1 where one: "shadow_hops ids (ct_selectors c) (ct_hops c) edges = ok edges1"
    and rest: "shadow_targets ids cs edges1 = ok edges'"
    by (auto simp: Let_def failure_def ok_def shadow_hops_value split: if_splits option.splits)
  have "edges1 = map (cut_hops (ct_selectors c) (ct_hops c)) edges" by (rule shadow_hops_spec[OF Cons.prems(1) one])
  moreover have "edges_indexed ids (map (cut_hops (ct_selectors c) (ct_hops c)) edges)"
    using Cons.prems(1) by (rule edges_indexed_map) (simp_all add: cut_hops_def sorted_wrt_filter)
  ultimately have "edges' = map (shadow_edge cs) (map (cut_hops (ct_selectors c) (ct_hops c)) edges)"
    using Cons.IH rest by (simp del: map_map)
  then show ?case by (simp add: comp_def shadow_edge_Cons)
qed

section \<open>The rebuild\<close>

lemma add_all_fold:
  assumes "\<And>x b s b'. add x b = (s, b') \<Longrightarrow> is_ok s \<Longrightarrow> b' = f x b"
    and "add_all add xs b = (s, b')" "is_ok s"
  shows "b' = fold f xs b"
  using assms(2,3)
proof (induction xs arbitrary: b)
  case (Cons x xs)
  then show ?case using assms(1) by (auto split: prod.splits if_splits)
qed simp

text \<open>A rebuilt record keeps everything but a label that was longer than its bound.\<close>

definition rebuilt_resource :: "resource_record \<Rightarrow> resource_record" where
  "rebuilt_resource r = r\<lparr>rr_label := bounded_text (rr_label r) 128\<rparr>"

definition rebuilt_selector :: "traffic_selector \<Rightarrow> traffic_selector" where
  "rebuilt_selector s = s\<lparr>ts_label := bounded_text (ts_label s) 128\<rparr>"

lemma rebuilt_fields [simp]:
  "rr_id (rebuilt_resource r) = rr_id r" "rr_domain (rebuilt_resource r) = rr_domain r"
  "rr_kind (rebuilt_resource r) = rr_kind r" "rr_admin (rebuilt_resource r) = rr_admin r"
  "rr_containable (rebuilt_resource r) = rr_containable r" "rr_cost (rebuilt_resource r) = rr_cost r"
  "ts_id (rebuilt_selector s) = ts_id s" "ts_kind (rebuilt_selector s) = ts_kind s"
  by (simp_all add: rebuilt_resource_def rebuilt_selector_def)

lemma add_all_resources:
  assumes "add_all add_resource rs b = (s, b')" "is_ok s"
  shows "b' = b\<lparr>tb_resources := tb_resources b @ map rebuilt_resource rs\<rparr>"
proof -
  have "b' = fold (\<lambda>r b. b\<lparr>tb_resources := tb_resources b @ [rebuilt_resource r]\<rparr>) rs b"
    by (rule add_all_fold[OF _ assms]) (auto simp: add_resource_def rebuilt_resource_def split: if_splits)
  also have "\<dots> = b\<lparr>tb_resources := tb_resources b @ map rebuilt_resource rs\<rparr>"
    by (induction rs arbitrary: b) simp_all
  finally show ?thesis .
qed

lemma add_all_selectors:
  assumes "add_all add_selector ss b = (s, b')" "is_ok s"
  shows "b' = b\<lparr>tb_selectors := tb_selectors b @ map rebuilt_selector ss\<rparr>"
proof -
  have "b' = fold (\<lambda>r b. b\<lparr>tb_selectors := tb_selectors b @ [rebuilt_selector r]\<rparr>) ss b"
    by (rule add_all_fold[OF _ assms]) (auto simp: add_selector_def rebuilt_selector_def split: if_splits)
  also have "\<dots> = b\<lparr>tb_selectors := tb_selectors b @ map rebuilt_selector ss\<rparr>"
    by (induction ss arbitrary: b) simp_all
  finally show ?thesis .
qed

lemma add_all_edges:
  assumes "add_all add_edge es b = (s, b')" "is_ok s"
  shows "b' = b\<lparr>tb_edges := tb_edges b @ es\<rparr>"
proof -
  have "b' = fold (\<lambda>e b. b\<lparr>tb_edges := tb_edges b @ [e]\<rparr>) es b"
    by (rule add_all_fold[OF _ assms]) (auto simp: add_edge_def split: if_splits)
  also have "\<dots> = b\<lparr>tb_edges := tb_edges b @ es\<rparr>"
    by (induction es arbitrary: b) simp_all
  finally show ?thesis .
qed

lemma shadow_edge_fields [simp]:
  "fe_id (shadow_edge cs e) = fe_id e" "fe_from (shadow_edge cs e) = fe_from e" "fe_to (shadow_edge cs e) = fe_to e"
  "fe_domain (shadow_edge cs e) = fe_domain e" "fe_link (shadow_edge cs e) = fe_link e"
  "edge_key (shadow_edge cs e) = edge_key e"
  by (simp_all add: shadow_edge_def edge_key_def)

lemma topology_ok_indexed:
  assumes "topology_ok t" "distinct (map fe_id (td_edges t))"
  shows "edges_indexed (map fe_id (td_edges t)) (td_edges t)"
  using assms by (simp add: edges_indexed_def topology_ok_def edge_ok_def)

lemma sort_key_sorted: "sorted (map f xs) \<Longrightarrow> sort_key f xs = xs"
  by (simp add: sort_key_id_if_sorted)

text \<open>The shadow of a definition differs in the selectors of the affected edges only.\<close>

lemma shadow_spec:
  assumes t: "topology_ok t" "distinct (map fe_id (td_edges t))"
    and s: "apply_containment_shadow t p l = ok t'"
  shows "topology_ok t'" "td_generation t' = td_generation t"
    "td_resources t' = map rebuilt_resource (td_resources t)"
    "td_selectors t' = map rebuilt_selector (td_selectors t)"
    "td_edges t' = map (shadow_edge (pl_targets p)) (td_edges t)"
proof -
  let ?ids = "map fe_id (td_edges t)"
  obtain edges s1 b1 s2 b2 s3 b3 where
    steps: "r_value (shadow_targets ?ids (pl_targets p) (td_edges t)) = Some edges"
      "add_all add_selector (td_selectors t) ((new_builder l)\<lparr>tb_generation := td_generation t\<rparr>) = (s1, b1)" "is_ok s1"
      "add_all add_resource (td_resources t) b1 = (s2, b2)" "is_ok s2"
      "add_all add_edge edges b2 = (s3, b3)" "is_ok s3" and built: "build b3 = ok t'"
    using s by (auto simp: apply_containment_shadow_def Let_def failure_def ok_def split: option.splits prod.splits if_splits)
  have "edges = map (shadow_edge (pl_targets p)) (td_edges t)"
    using shadow_targets_spec[OF topology_ok_indexed[OF t]] shadow_targets_value[OF steps(1)] by blast
  then have b3: "b3 = \<lparr>tb_limits = l, tb_generation = td_generation t,
      tb_resources = map rebuilt_resource (td_resources t),
      tb_edges = map (shadow_edge (pl_targets p)) (td_edges t), tb_selectors = map rebuilt_selector (td_selectors t)\<rparr>"
    using add_all_selectors[OF steps(2,3)] add_all_resources[OF steps(4,5)] add_all_edges[OF steps(6,7)]
    by (simp add: new_builder_def)
  have srt: "sorted (map rr_id (td_resources t))" "sorted (map ts_id (td_selectors t))" "sorted (map edge_key (td_edges t))"
    using t(1) by (simp_all add: topology_ok_def strict_sorted_iff)
  note okD = canonicalize_okD(1-5)[OF built[unfolded build_def b3]]
  show "topology_ok t'" by (rule okD(1))
  show "td_generation t' = td_generation t" "td_resources t' = map rebuilt_resource (td_resources t)"
    "td_selectors t' = map rebuilt_selector (td_selectors t)"
    "td_edges t' = map (shadow_edge (pl_targets p)) (td_edges t)"
    using okD(2-5) srt by (simp_all add: sort_key_sorted comp_def)
qed

text \<open>So no hop is opened, and a hop that a target names is closed for the selectors of the target.\<close>

lemma option_eqI_map:
  assumes "\<And>y. a = Some y \<longleftrightarrow> (\<exists>x. b = Some x \<and> y = f x)"
  shows "a = map_option f b"
  using assms by (cases b) (force intro: option.exhaust[of a], simp)

lemma shadow_edge_selector:
  "x \<in> set (fe_selectors (shadow_edge cs e)) \<longleftrightarrow> x \<in> set (fe_selectors e) \<and>
     \<not> (\<exists>c \<in> set cs. fe_id e \<in> set (ct_hops c) \<and> x \<in> set (ct_selectors c))"
  by (auto simp: shadow_edge_def)

lemma shadow_find_edge:
  assumes t: "topology_ok t" "distinct (map fe_id (td_edges t))"
    and s: "apply_containment_shadow t p l = ok t'"
  shows "find_edge t' k = map_option (shadow_edge (pl_targets p)) (find_edge t k)"
proof -
  note sh = shadow_spec[OF t s]
  have d: "distinct (map fe_id (td_edges t'))" using t(2) by (simp add: sh(5) comp_def)
  have iff: "find_edge t' k = Some e' \<longleftrightarrow> (\<exists>e. find_edge t k = Some e \<and> e' = shadow_edge (pl_targets p) e)" for e'
    unfolding find_edge_iff[OF sh(1) d] find_edge_iff[OF t] by (auto simp: sh(5))
  show ?thesis by (rule option_eqI_map[OF iff])
qed

lemma shadow_find_resource:
  assumes t: "topology_ok t" "distinct (map fe_id (td_edges t))"
    and s: "apply_containment_shadow t p l = ok t'"
  shows "find_resource t' k = map_option rebuilt_resource (find_resource t k)"
proof -
  have iff: "find_resource t' k = Some r' \<longleftrightarrow> (\<exists>r. find_resource t k = Some r \<and> r' = rebuilt_resource r)" for r'
    unfolding find_resource_iff[OF shadow_spec(1)[OF t s]] find_resource_iff[OF t(1)]
    by (auto simp: shadow_spec(3)[OF t s])
  show ?thesis by (rule option_eqI_map[OF iff])
qed

definition hop_carries :: "topology \<Rightarrow> u64 \<Rightarrow> u64 \<Rightarrow> u64 \<Rightarrow> u64 \<Rightarrow> bool" where
  "hop_carries t hop u v x \<longleftrightarrow> (case find_edge t hop of None \<Rightarrow> False | Some e \<Rightarrow>
     fe_from e = u \<and> fe_to e = v \<and> fe_link e = Link_Up \<and> x \<in> set (fe_selectors e) \<and>
     map_option rr_admin (find_resource t u) = Some Admin_Enabled \<and> map_option rr_admin (find_resource t v) = Some Admin_Enabled)"

lemma hop_open_carries_iff:
  "hop_open t g fence now hop u v x \<longleftrightarrow> hop_carries t hop u v x \<and>
     (\<exists>ob. exact_statement Ev_Present (filter (\<lambda>ob. fo_edge ob = hop) (el_observations g)) fence now ob \<and> x \<in> set (fo_selectors ob)) \<and>
     (\<nexists>ob. exact_statement Ev_Absent (filter (\<lambda>ob. fo_edge ob = hop) (el_observations g)) fence now ob)"
  unfolding hop_open_def hop_carries_def
  by (cases "find_edge t hop"; cases "find_resource t u"; cases "find_resource t v") auto

lemma shadow_hop_open:
  assumes t: "topology_ok t" "distinct (map fe_id (td_edges t))"
    and s: "apply_containment_shadow t p l = ok t'"
  shows "hop_open t' g fence now hop u v x \<longleftrightarrow> hop_open t g fence now hop u v x \<and>
    \<not> (\<exists>c \<in> set (pl_targets p). hop \<in> set (ct_hops c) \<and> x \<in> set (ct_selectors c))"
proof -
  have "fe_id e = hop" if "find_edge t hop = Some e" for e
    using find_edge_SomeD[OF t(1) that] by simp
  then have "hop_carries t' hop u v x \<longleftrightarrow> hop_carries t hop u v x \<and>
      \<not> (\<exists>c \<in> set (pl_targets p). hop \<in> set (ct_hops c) \<and> x \<in> set (ct_selectors c))"
    by (cases "find_edge t hop")
      (auto simp: hop_carries_def shadow_find_edge[OF t s] shadow_find_resource[OF t s] shadow_edge_selector option.map_comp comp_def)
  then show ?thesis unfolding hop_open_carries_iff by blast
qed

text \<open>A target closes both hops of its resource in every witness it was built from.\<close>

lemma build_targets_member:
  assumes "c \<in> set (build_targets t ws resources reason)"
  obtains r rc where "c = build_target ws reason r rc" "find_resource t r = Some rc" "r \<in> set resources"
  using assms by (auto simp: build_targets_def List.map_filter_def split: option.splits)

lemma build_target_covers:
  assumes "w \<in> set ws" "binary_search (lw_cycle w) r" "i < length (lw_cycle w)" "lw_cycle w ! i = r"
  shows "lw_hops w ! i \<in> set (ct_hops (build_target ws reason r record))"
    "set (lw_selectors w) \<subseteq> set (ct_selectors (build_target ws reason r record))"
  using assms by (auto simp: build_target_def Let_def hops_at_def)

text \<open>A bisection that answers yes is right on any vector, sorted or not.\<close>

lemma lower_bound_from_stops:
  assumes "lower_bound_from below xs first len < first + len"
  shows "\<not> below (xs ! lower_bound_from below xs first len)"
  using assms
proof (induction below xs first len rule: lower_bound_from.induct)
  case (1 below xs first len)
  consider "len = 0" | "len \<noteq> 0" "below (xs ! (first + len div 2))" | "len \<noteq> 0" "\<not> below (xs ! (first + len div 2))"
    by blast
  then show ?case
  proof cases
    case 1
    then show ?thesis using "1.prems" by (simp add: lower_bound_from.simps)
  next
    case 2
    have "Suc (first + len div 2) + (len - len div 2 - 1) = first + len" using 2 by simp
    then show ?thesis using "1.IH"(1)[OF 2] "1.prems" 2 lower_bound_from.simps[of below xs first len] by simp
  next
    case 3
    then have step: "lower_bound_from below xs first len = lower_bound_from below xs first (len div 2)"
      by (simp add: lower_bound_from.simps[of below xs first len])
    show ?thesis
    proof (cases "lower_bound_from below xs first (len div 2) < first + len div 2")
      case True
      then show ?thesis using "1.IH"(2)[OF 3] step by simp
    next
      case False
      then have "lower_bound_from below xs first (len div 2) = first + len div 2"
        using lower_bound_from_bounds[of below xs first "len div 2"] by simp
      then show ?thesis using 3(2) step by simp
    qed
  qed
qed

lemma binary_search_member:
  assumes "binary_search xs v"
  shows "v \<in> set xs"
proof -
  let ?p = "lower_bound (\<lambda>x. x < v) xs"
  have p: "?p < length xs" "\<not> v < xs ! ?p" using assms by (simp_all add: binary_search_def Let_def)
  then have "\<not> xs ! ?p < v"
    using lower_bound_from_stops[of "\<lambda>x. x < v" xs 0 "length xs"] by (simp add: lower_bound_def)
  then show ?thesis using p by (metis linorder_neqE nth_mem)
qed

lemma build_target_resource: "ct_resource (build_target ws reason r rc) = r"
  by (simp add: build_target_def Let_def)

lemma shadow_breaks:
  assumes t: "topology_ok t" "distinct (map fe_id (td_edges t))" "apply_containment_shadow t p l = ok t'"
    and targets: "pl_targets p = build_targets t ws resources reason"
    and w: "w \<in> set ws" and c: "c \<in> set (pl_targets p)" "binary_search (lw_cycle w) (ct_resource c)"
    and s: "set selectors \<inter> set (lw_selectors w) \<noteq> {}"
  shows "\<not> loop_at t' g fence now (lw_cycle w) (lw_hops w) selectors"
proof
  assume loop: "loop_at t' g fence now (lw_cycle w) (lw_hops w) selectors"
  obtain r rc where c_form: "c = build_target ws reason r rc" using c(1) build_targets_member unfolding targets by metis
  have found: "binary_search (lw_cycle w) r" using c(2) by (simp add: c_form build_target_resource)
  then obtain i where i: "i < length (lw_cycle w)" "lw_cycle w ! i = r"
    using binary_search_member by (metis in_set_conv_nth)
  obtain x where x: "x \<in> set selectors" "x \<in> set (lw_selectors w)" using s by blast
  have "hop_open t' g fence now (lw_hops w ! i) (lw_cycle w ! i) (lw_cycle w ! ((i + 1) mod length (lw_cycle w))) x"
    using loop i(1) x(1) by (simp add: loop_at_def)
  moreover have "lw_hops w ! i \<in> set (ct_hops c) \<and> x \<in> set (ct_selectors c)"
    using build_target_covers[OF w found i] x(2) unfolding c_form by blast
  ultimately show False using shadow_hop_open[OF t] c(1) by blast
qed

end
