(* ===== verification/Example_Fabric.thy ===== *)
theory Example_Fabric
  imports Detect
begin

text \<open>
  A small fabric on which the properties are instantiated: resources 1, 2 and 3, an edge from 1 to 2
  and one back, traffic classes 10 and 20, limits small enough to evaluate, and three ledgers:
  \<open>ring_ledger\<close> with exactly bound evidence that class 10 circulates, \<open>stale_ledger\<close> with evidence
  of an earlier forwarding generation only, and the empty ledger.
\<close>

definition demo_resource :: "u64 \<Rightarrow> resource_record" where
  "demo_resource i = \<lparr>rr_id = i, rr_domain = 1, rr_kind = Kind_Switch, rr_admin = Admin_Enabled,
     rr_containable = True, rr_cost = 1, rr_label = ''''\<rparr>"

definition demo_edge :: "u64 \<Rightarrow> u64 \<Rightarrow> u64 \<Rightarrow> u64 list \<Rightarrow> forwarding_edge" where
  "demo_edge i u v ss =
     \<lparr>fe_id = i, fe_from = u, fe_to = v, fe_domain = 1, fe_link = Link_Up, fe_selectors = ss\<rparr>"

definition demo_selector :: "u64 \<Rightarrow> traffic_selector" where
  "demo_selector i = \<lparr>ts_id = i, ts_kind = Sel_FlowClass, ts_label = ''''\<rparr>"

definition demo_definition :: "u64 list \<Rightarrow> forwarding_edge list \<Rightarrow> topology" where
  "demo_definition rs es = empty_topology\<lparr>td_generation := 1, td_resources := map demo_resource rs,
     td_edges := es, td_selectors := map demo_selector [10, 20]\<rparr>"

definition small_limits :: limits where
  "small_limits = default_limits\<lparr>max_resources := 16, max_edges := 16, max_selectors := 16,
     max_observations := 16, max_witnesses_per_assessment := 16, max_candidate_selectors := 16,
     max_explanation_reasons := 16\<rparr>"

lemma small_limits_sane: "limits_are_sane small_limits"
  by code_simp

definition ring_definition :: topology where
  "ring_definition = demo_definition [2, 1, 3] [demo_edge 2 2 1 [10, 20], demo_edge 1 1 2 [10, 20]]"

definition ring :: topology where
  "ring = \<lparr>td_generation = 1, td_resources = map demo_resource [1, 2, 3],
     td_edges = [demo_edge 1 1 2 [10, 20], demo_edge 2 2 1 [10, 20]], td_selectors = map demo_selector [10, 20],
     td_edge_by_id = [0, 1], td_adjacency = [0, 1, 2, 2], td_out_edge_list = [0, 1]\<rparr>"

lemma ring_canonical: "canonicalize_topology ring_definition small_limits = ok ring"
  by code_simp

lemma ring_ok: "topology_ok ring"
  using canonicalize_okD(1)[OF ring_canonical] .

lemma ring_edge_ids: "distinct (map fe_id (td_edges ring))"
  by code_simp

definition demo_fence :: fence_vector where
  "demo_fence = \<lparr>fv_topology = 1, fv_forwarding = 1, fv_policy = 1, fv_fabric_epoch = 1, fv_epoch = 1, fv_boot = 1\<rparr>"

definition demo_observation ::
    "u64 \<Rightarrow> u64 \<Rightarrow> u64 \<Rightarrow> u64 \<Rightarrow> evidence_class \<Rightarrow> u64 list \<Rightarrow> u64 \<Rightarrow> forwarding_observation" where
  "demo_observation i e u v k ss fwd = \<lparr>fo_id = i, fo_edge = e, fo_from = u, fo_to = v, fo_domain = 1, fo_klass = k,
     fo_selectors = ss, fo_topology_generation = 1, fo_forwarding_generation = fwd, fo_producer = 1,
     fo_producer_kind = Producer_SyntheticFixture, fo_sequence = i, fo_origin = Origin_Synthetic,
     fo_lease = \<lparr>ls_boot = 1, ls_epoch = 1, ls_fabric_epoch = 1, ls_valid_from = 0, ls_valid_until = 100\<rparr>,
     fo_payload_digest = zero_digest\<rparr>"

definition submit_all :: "forwarding_observation list \<Rightarrow> evidence_ledger" where
  "submit_all obs = foldl (\<lambda>g ob. snd (submit ob g)) (new_ledger small_limits) obs"

lemma submit_all_steps: "ledger_step\<^sup>*\<^sup>* (new_ledger small_limits) (submit_all obs)"
proof -
  have "ledger_step\<^sup>*\<^sup>* g (foldl (\<lambda>g ob. snd (submit ob g)) g obs)" for g
    by (induction obs arbitrary: g) (auto intro: converse_rtranclp_into_rtranclp submit_step)
  then show ?thesis by (simp add: submit_all_def)
qed

lemma submit_all_ok: "ledger_ok (submit_all obs)"
proof -
  have "ledger_start (new_ledger small_limits)" using small_limits_sane by (auto simp: ledger_start_def)
  then show ?thesis
    using ledger_machine.steps_inv[OF submit_all_steps] ledger_machine.inv_initial by blast
qed

definition ring_ledger :: evidence_ledger where
  "ring_ledger = submit_all [demo_observation 1 1 1 2 Ev_Present [10] 1, demo_observation 2 2 2 1 Ev_Present [10, 20] 1]"

definition stale_ledger :: evidence_ledger where
  "stale_ledger = submit_all [demo_observation 1 1 1 2 Ev_Present [10] 2, demo_observation 2 2 2 1 Ev_Present [20] 2]"

lemma ring_ledger_ok: "ledger_ok ring_ledger" "ledger_ok stale_ledger"
  unfolding ring_ledger_def stale_ledger_def by (rule submit_all_ok)+

definition ring_witness :: loop_witness where
  "ring_witness = \<lparr>lw_id = 0, lw_cycle = [1, 2], lw_hops = [1, 2], lw_selectors = [10], lw_fence = demo_fence,
     lw_origin = Origin_Synthetic, lw_crosses = False, lw_evidence_digest = zero_digest,
     lw_note = new_explanation 16\<rparr>"

lemma ring_witness_hops:
  "check_hops ring_witness ring ring_ledger demo_fence 5 [0..<length (lw_cycle ring_witness)] {} = Inr {1}"
  by code_simp

lemma ring_witness_shape: "check_shape ring_witness demo_fence small_limits = None"
  by code_simp

lemma ring_witness_valid:
  "\<exists>v. validate_witness (with_evidence_digest ring_ledger ring_witness) ring ring_ledger demo_fence 5 small_limits = ok v
     \<and> wv_valid v"
  by (rule validate_accepts[OF ring_witness_shape ring_witness_hops]) (simp add: ring_witness_def)

text \<open>What the detector answers on the ring, up to the digest that names the assessment.\<close>

definition ring_search :: "evidence_ledger \<Rightarrow> loop_assessment" where
  "ring_search g = assess_resolved small_limits ring g 5 []
     ((blank_assessment demo_fence small_limits)\<lparr>la_hops := resolved_hops g ring demo_fence 5\<rparr>)"

lemma ring_assessment:
  "assess small_limits (question ring g demo_fence 5 []) = ok (finalize (ring_search g))"
  unfolding ring_search_def
  by (rule assess_value[OF small_limits_sane]) (code_simp, code_simp)

text \<open>On the ring ledger the answer is LOOP_CONFIRMED: the search finds a candidate that passes every check.\<close>

definition ring_hop :: "nat \<Rightarrow> u64 \<Rightarrow> u64 \<Rightarrow> u64 \<Rightarrow> u64 list \<Rightarrow> u64 list \<Rightarrow> hop_record" where
  "ring_hop i e u v sels obs = \<lparr>hr_edge_index = i, hr_edge = e, hr_from = u, hr_to = v, hr_domain = 1,
     hr_resolution = Hop_ProvenOpen, hr_binding = Bind_Exact, hr_effective = sels, hr_contributing = obs,
     hr_note = \<lparr>ex_reasons = [\<lparr>er_code = R_WitnessSuccessfullyValidated, er_subject = id_to_string e,
       er_detail = txt_exactly_bound_evidence_proves_the_hop_open\<rparr>], ex_max = 16, ex_dropped = 0\<rparr>\<rparr>"

definition ring_hops :: "hop_record list" where
  "ring_hops = [ring_hop 0 1 1 2 [10] [1], ring_hop 1 2 2 1 [10, 20] [2]]"

lemma ring_hops: "resolved_hops ring_ledger ring demo_fence 5 = ring_hops"
  by code_simp

definition ring_input :: loop_assessment where
  "ring_input = (let a = blank_assessment demo_fence small_limits
     in a\<lparr>la_hops := ring_hops, la_flags := la_flags a OR evidence_flags ring_ledger ring_hops demo_fence 5,
          la_counters := (la_counters a)\<lparr>sn_selectors_considered := 2\<rparr>\<rparr>)"

lemma ring_input_fields [simp]:
  "la_hops ring_input = ring_hops" "la_fence ring_input = demo_fence" "la_origin ring_input = Origin_Synthetic"
  by (simp_all add: ring_input_def Let_def blank_assessment_def)

definition ring_found :: "loop_witness list" where
  "ring_found = [ring_witness\<lparr>lw_note := ex_add R_WitnessRequiresExactGenerations ''witness''
     txt_every_hop_carries_exactly_bound_forwarding_evidence (lw_note ring_witness)\<rparr>]"

lemma ring_enumeration: "canonical_witnesses (en_witnesses (enumeration_phase small_limits ring [10, 20] ring_input
     (existence_phase small_limits ring [10, 20] ring_hops))) = ring_found"
  unfolding enumeration_phase_def ring_input_fields by code_simp

lemma ring_search_form: "ring_search ring_ledger = assess_search small_limits ring ring_ledger 5 [10, 20] ring_input"
proof -
  have "check_scope ring [] = None" "restrict_candidates [] (candidate_selectors ring ring_hops) = [10, 20]"
    "td_edges ring \<noteq> []" "td_resources ring \<noteq> []" "length (td_edges ring) = 2" "mask_words (Suc (Suc 0)) = 1"
    "unat (max_candidate_selectors small_limits) = 16"
    by code_simp+
  then show ?thesis
    by (simp add: ring_search_def assess_resolved_def assess_bounded_def Let_def ring_input_def ring_hops
        blank_assessment_def)
qed

lemma ring_confirmed: "la_outcome (ring_search ring_ledger) = Loop_LoopConfirmed"
  unfolding ring_search_form
proof (rule assess_search_confirms)
  show "xs_proven (existence_phase small_limits ring [10, 20] (la_hops ring_input))"
    unfolding ring_input_fields by code_simp
  show "canonical_witnesses (en_witnesses (enumeration_phase small_limits ring [10, 20] ring_input
     (existence_phase small_limits ring [10, 20] (la_hops ring_input)))) = hd ring_found # []"
    using ring_enumeration by (simp add: ring_found_def)
  show "0 < max_witnesses_per_assessment small_limits" by code_simp
  show "check_shape (hd ring_found) (la_fence ring_input) small_limits = None"
    unfolding ring_input_fields by code_simp
  show "check_hops (hd ring_found) ring ring_ledger (la_fence ring_input) 5 [0..<length (lw_cycle (hd ring_found))] {} =
    Inr {1}" unfolding ring_input_fields by code_simp
  show "(1 < card {1 :: u64}) = lw_crosses (hd ring_found)" by (simp add: ring_found_def ring_witness_def)
qed

end
