(* ===== verification/Example_Plan.thy ===== *)
theory Example_Plan
  imports Shadow Example_Fabric
begin

text \<open>
  Plans on small fabrics: the ring of \<open>Example_Fabric\<close>, whose plan is optimal; a triangle whose cycle
  1, 3, 2 is canonical but not ascending; and a fabric with two rings of which one has no containable
  resource. The digest of the assessment is left as a variable, so that the plans evaluate.
\<close>

definition demo_policy :: containment_policy where
  "demo_policy = \<lparr>po_generation = 1, po_max_targets = 4, po_max_total_cost = 100, po_kinds = [Kind_Switch],
     po_domains = [], po_cross_domain = False, po_max_search_nodes = 1000\<rparr>"

definition demo_witness :: "u64 list \<Rightarrow> u64 list \<Rightarrow> loop_witness" where
  "demo_witness cycle hops = ring_witness\<lparr>lw_cycle := cycle, lw_hops := hops\<rparr>"

definition demo_confirmed :: "loop_witness list \<Rightarrow> loop_assessment" where
  "demo_confirmed ws = (blank_assessment demo_fence small_limits)\<lparr>la_outcome := Loop_LoopConfirmed, la_witnesses := ws\<rparr>"

definition demo_plan :: "topology \<Rightarrow> loop_witness list \<Rightarrow> containment_plan" where
  "demo_plan t ws = plan_confirmed small_limits (demo_confirmed ws) t demo_policy
     (blank_plan small_limits demo_policy (demo_confirmed ws))"

lemma demo_plan_containment:
  assumes "ws \<noteq> []"
  shows "plan_containment small_limits (demo_confirmed ws) t demo_policy = ok (finalize_plan (demo_plan t ws))"
proof -
  have "check_policy small_limits demo_policy (demo_confirmed ws) = None"
  proof -
    have "limits_are_sane small_limits" "id_valid (po_generation demo_policy)" "po_generation demo_policy = fv_policy demo_fence"
      "sorted (po_kinds demo_policy)" "\<not> adjacent_dup (po_kinds demo_policy)" "po_domains demo_policy = []"
      "\<not> po_max_targets demo_policy > max_plan_targets small_limits"
      by code_simp+
    then show ?thesis by (simp add: check_policy_def demo_confirmed_def blank_assessment_def)
  qed
  with assms show ?thesis
    by (simp add: plan_containment_def demo_plan_def demo_confirmed_def blank_assessment_def)
qed

text \<open>The evaluation, whatever the digest of the assessment is.\<close>

definition digest_free :: "digest \<Rightarrow> containment_plan" where
  "digest_free d = \<lparr>pl_id = 0, pl_assessment = 0, pl_assessment_digest = d,
     pl_fence = demo_fence, pl_policy_generation = 1, pl_outcome = Con_Invalid,
     pl_flags = k_plan_none, pl_targets = [], pl_greedy = [], pl_total_cost = 0, pl_witness_count = 0,
     pl_witnesses_covered = 0, pl_uncovered = [], pl_certificate = None, pl_affected_hops = [],
     pl_within_budget = False, pl_counters = zero_plan_counters,
     pl_explanation = new_explanation 16, pl_origin = Origin_Synthetic\<rparr>"

lemma demo_plan_free:
  "\<exists>d. demo_plan t ws = plan_confirmed small_limits (demo_confirmed ws) t demo_policy (digest_free d)"
proof -
  have "max_explanation_reasons small_limits = 16" by code_simp
  then have "blank_plan small_limits demo_policy (demo_confirmed ws) = digest_free (assessment_digest (demo_confirmed ws))"
    by (simp add: blank_plan_def digest_free_def demo_confirmed_def blank_assessment_def demo_policy_def)
  then show ?thesis unfolding demo_plan_def by metis
qed

definition plan_summary :: "containment_plan \<Rightarrow> containment_outcome \<times> u64 \<times> bool \<times> containment_target list" where
  "plan_summary p = (pl_outcome p, pl_total_cost p, pl_within_budget p, pl_targets p)"

definition ring_target :: containment_target where
  "ring_target = \<lparr>ct_resource = 1, ct_domain = 1, ct_cost = 1, ct_reason = Target_SoleBreakOfWitness,
     ct_witnesses = [0], ct_selectors = [10], ct_hops = [1, 2]\<rparr>"

lemma ring_plan: "plan_summary (demo_plan ring [ring_witness]) = (Con_PlanOptimal, 1, True, [ring_target])"
proof -
  have "plan_summary (plan_confirmed small_limits (demo_confirmed [ring_witness]) ring demo_policy (digest_free d)) =
    (Con_PlanOptimal, 1, True, [ring_target])" for d
    by code_simp
  then show ?thesis using demo_plan_free by metis
qed

lemma ring_plan_fields:
  "pl_outcome (finalize_plan (demo_plan ring [ring_witness])) = Con_PlanOptimal"
  "pl_total_cost (finalize_plan (demo_plan ring [ring_witness])) = 1"
  "pl_within_budget (finalize_plan (demo_plan ring [ring_witness]))"
  "pl_targets (finalize_plan (demo_plan ring [ring_witness])) = [ring_target]"
  using ring_plan by (simp_all add: plan_summary_def)

lemma ring_size: "length (td_resources ring) \<le> 2 ^ 32"
  by (simp add: ring_def)

lemmas ring_planned = demo_plan_containment[of "[ring_witness]" ring, OF list.simps(3)]

text \<open>The triangle 1, 3, 2 of which only resource 2 may be contained.\<close>

definition fixed_resource :: "u64 \<Rightarrow> resource_record" where
  "fixed_resource i = (demo_resource i)\<lparr>rr_containable := False, rr_cost := 0\<rparr>"

definition triangle_definition :: topology where
  "triangle_definition = (demo_definition [] [demo_edge 1 1 3 [10], demo_edge 2 3 2 [10], demo_edge 3 2 1 [10]])
     \<lparr>td_resources := [fixed_resource 1, demo_resource 2, fixed_resource 3]\<rparr>"

definition triangle :: topology where
  "triangle = \<lparr>td_generation = 1, td_resources = [fixed_resource 1, demo_resource 2, fixed_resource 3],
     td_edges = [demo_edge 1 1 3 [10], demo_edge 3 2 1 [10], demo_edge 2 3 2 [10]],
     td_selectors = map demo_selector [10, 20], td_edge_by_id = [0, 2, 1], td_adjacency = [0, 1, 2, 3],
     td_out_edge_list = [0, 1, 2]\<rparr>"

lemma triangle_canonical: "canonicalize_topology triangle_definition small_limits = ok triangle"
  by code_simp

lemma triangle_ok: "topology_ok triangle"
  using canonicalize_okD(1)[OF triangle_canonical] .

definition triangle_ledger :: evidence_ledger where
  "triangle_ledger = submit_all [demo_observation 1 1 1 3 Ev_Present [10] 1,
     demo_observation 2 2 3 2 Ev_Present [10] 1, demo_observation 3 3 2 1 Ev_Present [10] 1]"

lemma triangle_ledger_ok: "ledger_ok triangle_ledger"
  unfolding triangle_ledger_def by (rule submit_all_ok)

definition triangle_witness :: loop_witness where
  "triangle_witness = demo_witness [1, 3, 2] [1, 2, 3]"

lemma triangle_loop: "loop_at triangle triangle_ledger demo_fence 5 (lw_cycle triangle_witness) (lw_hops triangle_witness)
    (lw_selectors triangle_witness) \<and> canonical_witness triangle triangle_ledger demo_fence small_limits
      (with_evidence_digest triangle_ledger triangle_witness)"
proof -
  have "check_shape triangle_witness demo_fence small_limits = None"
    "check_hops triangle_witness triangle triangle_ledger demo_fence 5 [0..<length (lw_cycle triangle_witness)] {} = Inr {1}"
    by code_simp+
  moreover have "(1 < card {1 :: u64}) = lw_crosses triangle_witness"
    by (simp add: triangle_witness_def demo_witness_def ring_witness_def)
  ultimately obtain v where "validate_witness (with_evidence_digest triangle_ledger triangle_witness) triangle triangle_ledger
      demo_fence 5 small_limits = ok v" "wv_valid v"
    using validate_accepts by blast
  then show ?thesis
    using validate_witness_valid_iff[OF triangle_ok triangle_ledger_ok] by (fastforce simp: with_evidence_digest_def)
qed

lemma triangle_plan: "plan_summary (demo_plan triangle [triangle_witness]) = (Con_Invalid, 1, False, [])"
proof -
  have "plan_summary (plan_confirmed small_limits (demo_confirmed [triangle_witness]) triangle demo_policy (digest_free d)) =
    (Con_Invalid, 1, False, [])" for d
    by code_simp
  then show ?thesis using demo_plan_free by metis
qed

text \<open>Two rings, 1 and 2 containable, 3 and 4 not.\<close>

definition rings_definition :: topology where
  "rings_definition = (demo_definition [] [demo_edge 1 1 2 [10], demo_edge 2 2 1 [10], demo_edge 3 3 4 [10], demo_edge 4 4 3 [10]])
     \<lparr>td_resources := [demo_resource 1, demo_resource 2, fixed_resource 3, fixed_resource 4]\<rparr>"

definition rings :: topology where
  "rings = \<lparr>td_generation = 1, td_resources = [demo_resource 1, demo_resource 2, fixed_resource 3, fixed_resource 4],
     td_edges = [demo_edge 1 1 2 [10], demo_edge 2 2 1 [10], demo_edge 3 3 4 [10], demo_edge 4 4 3 [10]],
     td_selectors = map demo_selector [10, 20], td_edge_by_id = [0, 1, 2, 3], td_adjacency = [0, 1, 2, 3, 4],
     td_out_edge_list = [0, 1, 2, 3]\<rparr>"

lemma rings_canonical: "canonicalize_topology rings_definition small_limits = ok rings"
  by code_simp

lemma rings_ok: "topology_ok rings"
  using canonicalize_okD(1)[OF rings_canonical] .

definition rings_witnesses :: "u64 \<Rightarrow> loop_witness list" where
  "rings_witnesses i = [demo_witness [1, 2] [1, 2], (demo_witness [3, 4] [3, 4])\<lparr>lw_id := i\<rparr>]"

lemma rings_plan:
  "plan_summary (demo_plan rings (rings_witnesses 0)) = (Con_Invalid, 0, False, [])"
  "plan_summary (demo_plan rings (rings_witnesses 1)) = (Con_ProvenInfeasible, 0, False, [])"
proof -
  have "plan_summary (plan_confirmed small_limits (demo_confirmed (rings_witnesses 0)) rings demo_policy (digest_free d)) =
    (Con_Invalid, 0, False, [])" for d
    by code_simp
  then show "plan_summary (demo_plan rings (rings_witnesses 0)) = (Con_Invalid, 0, False, [])"
    using demo_plan_free by metis
  have "plan_summary (plan_confirmed small_limits (demo_confirmed (rings_witnesses 1)) rings demo_policy (digest_free d)) =
    (Con_ProvenInfeasible, 0, False, [])" for d
    by code_simp
  then show "plan_summary (demo_plan rings (rings_witnesses 1)) = (Con_ProvenInfeasible, 0, False, [])"
    using demo_plan_free by metis
qed

text \<open>The shadow of the ring under its plan.\<close>

definition shadowed_ring :: topology where
  "shadowed_ring = ring\<lparr>td_edges := [demo_edge 1 1 2 [20], demo_edge 2 2 1 [20]]\<rparr>"

lemma ring_shadow:
  "apply_containment_shadow ring (finalize_plan (demo_plan ring [ring_witness])) small_limits = ok shadowed_ring"
proof -
  have "pl_targets (finalize_plan (demo_plan ring [ring_witness])) = [ring_target]"
    using ring_plan by (simp add: plan_summary_def)
  then have "apply_containment_shadow ring (finalize_plan (demo_plan ring [ring_witness])) small_limits =
      apply_containment_shadow ring ((digest_free [])\<lparr>pl_targets := [ring_target]\<rparr>) small_limits"
    by (simp add: apply_containment_shadow_def)
  also have "\<dots> = ok shadowed_ring" by code_simp
  finally show ?thesis .
qed

end
