(* ===== verification/Codec.thy ===== *)
theory Codec
  imports Core
begin

text \<open>
  The byte codec of src/wire.cpp: class ByteWriter, class ByteReader and the combinators the decoders
  are written with.

  A writer is the bytes it appends and whether a text was longer than its ceiling (\<open>overflowed_\<close>).
  A reader is a function from the bytes that remain to a value with the bytes left, or to the reason
  and detail of the first violation: a failed reader yields nothing more, which is what the sticky
  flag \<open>ok_\<close> makes of every later call. The short-circuit chains of the decoders are \<open>read_then\<close>.

  The locale \<open>codec\<close> is the contract of a writer with its reader: reading what was written gives the
  value back and leaves the rest untouched. From it follow that encodings are prefix free and that
  counted lists of codecs are codecs.
\<close>

section \<open>Writers\<close>

type_synonym writes = "u8 list \<times> bool"

definition le16 :: "u16 \<Rightarrow> u8 list" where
  "le16 v = [ucast (v AND 0xFF), ucast (drop_bit 8 v AND 0xFF)]"

definition put_u8 :: "u8 \<Rightarrow> writes" where "put_u8 v = ([v], False)"

definition put_u16 :: "u16 \<Rightarrow> writes" where "put_u16 v = (le16 v, False)"

definition put_u32 :: "u32 \<Rightarrow> writes" where "put_u32 v = (le32 v, False)"

definition put_u64 :: "u64 \<Rightarrow> writes" where "put_u64 v = (le64 v, False)"

definition put_bool :: "bool \<Rightarrow> writes" where "put_bool v = put_u8 (if v then 1 else 0)"

definition put_raw :: "u8 list \<Rightarrow> writes" where "put_raw bytes = (bytes, False)"

definition put_text :: "nat \<Rightarrow> string \<Rightarrow> writes" where
  "put_text max_bytes text =
     (let kept = take max_bytes text in (le32 (word_of_nat (length kept)) @ text_bytes kept, length text > max_bytes))"

definition put_enum :: "'e list \<Rightarrow> 'e \<Rightarrow> writes" where
  "put_enum vals e = put_u8 (enum_raw vals e)"

definition put_all :: "writes list \<Rightarrow> writes" where
  "put_all ws = (concat (map fst ws), list_ex snd ws)"

definition put_counted :: "('a \<Rightarrow> writes) \<Rightarrow> 'a list \<Rightarrow> writes" where
  "put_counted put xs = put_all (put_u32 (word_of_nat (length xs)) # map put xs)"

text \<open>The last lines of an encoder: nothing when the writer overflowed, or the bytes regardless.\<close>

definition take_checked :: "writes \<Rightarrow> u8 list" where
  "take_checked w = (if snd w then [] else fst w)"

definition take_data :: "writes \<Rightarrow> u8 list" where
  "take_data w = fst w"

section \<open>Readers\<close>

type_synonym ('e, 'a) parser = "u8 list \<Rightarrow> 'e + 'a \<times> u8 list"

type_synonym read_error = "reason_code \<times> string"

type_synonym 'a reader = "(read_error, 'a) parser"

type_synonym decode_error = "outcome \<times> string"

type_synonym 'a decoder = "(decode_error, 'a) parser"

definition read_value :: "'a \<Rightarrow> ('e, 'a) parser" where
  "read_value x bytes = Inr (x, bytes)"

definition read_then :: "('e, 'a) parser \<Rightarrow> ('a \<Rightarrow> ('e, 'b) parser) \<Rightarrow> ('e, 'b) parser" where
  "read_then p f bytes = (case p bytes of Inl e \<Rightarrow> Inl e | Inr (x, rest) \<Rightarrow> f x rest)"

definition read_check :: "bool \<Rightarrow> 'e \<Rightarrow> ('e, unit) parser" where
  "read_check okay e bytes = (if okay then Inr ((), bytes) else Inl e)"

definition read_end :: "'e \<Rightarrow> ('e, unit) parser" where
  "read_end e bytes = (if bytes = [] then Inr ((), []) else Inl e)"

text \<open>What a decoder answers when a reader failed: a fixed text, or what the reader recorded.\<close>

definition or_fail :: "outcome \<Rightarrow> string \<Rightarrow> 'a reader \<Rightarrow> 'a decoder" where
  "or_fail oc detail p bytes = (case p bytes of Inl e \<Rightarrow> Inl (oc, detail) | Inr x \<Rightarrow> Inr x)"

definition or_report :: "'a reader \<Rightarrow> 'a decoder" where
  "or_report p bytes = (case p bytes of Inl (code, detail) \<Rightarrow> Inl (outcome_of code, detail) | Inr x \<Rightarrow> Inr x)"

definition lift_result :: "'a result \<Rightarrow> 'a decoder" where
  "lift_result res bytes = (case r_value res of None \<Rightarrow> Inl (r_outcome res, r_detail res) | Some x \<Rightarrow> Inr (x, bytes))"

definition run_decoder :: "'a decoder \<Rightarrow> u8 list \<Rightarrow> 'a result" where
  "run_decoder p bytes = (case p bytes of Inl (oc, detail) \<Rightarrow> failure oc detail | Inr (x, rest) \<Rightarrow> ok x)"

definition txt_byte_stream_ended_early :: string where
  "txt_byte_stream_ended_early = ''byte stream ended early''"

definition txt_declared_byte_run_exceeds :: string where
  "txt_declared_byte_run_exceeds = ''declared byte run exceeds the payload''"

definition txt_declared_text_length_exceeds :: string where
  "txt_declared_text_length_exceeds = ''declared text length exceeds the ceiling''"

definition txt_declared_element_count_exceeds :: string where
  "txt_declared_element_count_exceeds = ''declared element count exceeds the ceiling''"

definition read_fixed :: "nat \<Rightarrow> string \<Rightarrow> u8 list reader" where
  "read_fixed n detail bytes =
     (if n > length bytes then Inl (R_WireFrameTruncated, detail) else Inr (take n bytes, drop n bytes))"

definition le_value :: "u8 list \<Rightarrow> 'w::len word" where
  "le_value bytes = foldl (\<lambda>v i. v OR push_bit (i * 8) (ucast (bytes ! i))) 0 [0..<length bytes]"

definition read_u8 :: "u8 reader" where
  "read_u8 = read_then (read_fixed 1 txt_byte_stream_ended_early) (\<lambda>b. read_value (hd b))"

definition read_u16 :: "u16 reader" where
  "read_u16 = read_then (read_fixed 2 txt_byte_stream_ended_early) (\<lambda>b. read_value (le_value b))"

definition read_u32 :: "u32 reader" where
  "read_u32 = read_then (read_fixed 4 txt_byte_stream_ended_early) (\<lambda>b. read_value (le_value b))"

definition read_u64 :: "u64 reader" where
  "read_u64 = read_then (read_fixed 8 txt_byte_stream_ended_early) (\<lambda>b. read_value (le_value b))"

definition read_bool :: "bool reader" where
  "read_bool = read_then read_u8 (\<lambda>raw. read_then
     (read_check (raw \<le> 1) (R_WireFrameBadEnum, ''boolean field is not 0 or 1'')) (\<lambda>_. read_value (raw = 1)))"

definition read_raw :: "nat \<Rightarrow> u8 list reader" where
  "read_raw n = read_fixed n txt_declared_byte_run_exceeds"

definition read_digest :: "digest reader" where
  "read_digest = read_fixed 32 ''digest is truncated''"

definition read_text :: "nat \<Rightarrow> string reader" where
  "read_text max_bytes = read_then read_u32 (\<lambda>n. read_then
     (read_check (unat n \<le> max_bytes) (R_LimitsExceeded, txt_declared_text_length_exceeds))
     (\<lambda>_. read_then (read_fixed (unat n) ''text is truncated'') (\<lambda>b. read_value (map (\<lambda>c. char_of (unat c)) b))))"

definition read_count :: "u32 \<Rightarrow> u32 reader" where
  "read_count max_count = read_then read_u32 (\<lambda>n. read_then
     (read_check (n \<le> max_count) (R_LimitsExceeded, txt_declared_element_count_exceeds)) (\<lambda>_. read_value n))"

definition read_enum :: "'e list \<Rightarrow> 'e reader" where
  "read_enum vals = read_then read_u8 (\<lambda>raw bytes. case enum_from_u32 vals (ucast raw) of
     None \<Rightarrow> Inl (R_WireFrameBadEnum, ''enum value is out of domain'') | Some e \<Rightarrow> Inr (e, bytes))"

text \<open>The counted loops.\<close>

primrec read_times :: "nat \<Rightarrow> ('e, 'a) parser \<Rightarrow> ('e, 'a list) parser" where
  "read_times 0 p = read_value []"
| "read_times (Suc n) p = read_then p (\<lambda>x. read_then (read_times n p) (\<lambda>xs. read_value (x # xs)))"

definition read_counted :: "u32 \<Rightarrow> 'a reader \<Rightarrow> 'a list reader" where
  "read_counted max_count get = read_then (read_count max_count) (\<lambda>n. read_times (unat n) get)"

primrec read_fold :: "nat \<Rightarrow> ('s \<Rightarrow> ('e, 's) parser) \<Rightarrow> 's \<Rightarrow> ('e, 's) parser" where
  "read_fold 0 p s = read_value s"
| "read_fold (Suc n) p s = read_then (p s) (read_fold n p)"

section \<open>Words and bytes\<close>

lemma byte_index:
  fixes k :: nat
  assumes "n * 8 \<le> k" "k - n * 8 < 8"
  shows "k div 8 = n \<and> k mod 8 = k - n * 8"
proof
  show "k div 8 = n" using assms by (intro div_nat_eqI) auto
  then show "k mod 8 = k - n * 8" by (metis minus_div_mult_eq_mod)
qed

lemma bit_le_fold:
  fixes acc :: "'w::len word" and bytes :: "u8 list"
  assumes "n \<le> length bytes"
  shows "bit (foldl (\<lambda>v i. v OR push_bit (i * 8) (ucast (bytes ! i))) acc [0..<n]) k \<longleftrightarrow>
    bit acc k \<or> k < LENGTH('w) \<and> k div 8 < n \<and> bit (bytes ! (k div 8)) (k mod 8)"
  using assms
proof (induction n)
  case (Suc n)
  have "bit (bytes ! n) (k - n * 8) \<longleftrightarrow> k div 8 = n \<and> bit (bytes ! n) (k mod 8)" if "n * 8 \<le> k"
  proof (cases "k - n * 8 < 8")
    case True
    then have "k div 8 = n \<and> k mod 8 = k - n * 8" using that by (intro byte_index)
    then show ?thesis by simp
  next
    case False
    then have "\<not> bit (bytes ! n) (k - n * 8)" using bit_imp_le_length[of "bytes ! n" "k - n * 8"] by auto
    moreover have "k div 8 \<noteq> n" using False that by auto
    ultimately show ?thesis by simp
  qed
  moreover have "k div 8 \<noteq> n" if "\<not> n * 8 \<le> k" using that by (auto simp: not_le)
  ultimately show ?case
    using Suc by (auto simp: bit_or_iff bit_push_bit_iff bit_ucast_iff less_Suc_eq dest: bit_imp_le_length)
qed simp

lemma bit_le_value:
  "bit (le_value bytes :: 'w::len word) k \<longleftrightarrow> k < LENGTH('w) \<and> k div 8 < length bytes \<and> bit (bytes ! (k div 8)) (k mod 8)"
  unfolding le_value_def by (simp add: bit_le_fold)

lemma bit_FF: "bit (0xFF :: 'w::len word) k \<longleftrightarrow> k < 8 \<and> k < LENGTH('w)"
proof -
  have "(0xFF :: 'w word) = mask 8" by (simp add: mask_eq_exp_minus_1)
  then show ?thesis unfolding \<open>0xFF = mask 8\<close> by (auto simp: bit_mask_iff)
qed

lemma bit_le_byte:
  fixes v :: "'w::len word"
  shows "bit (ucast (drop_bit (i * 8) v AND 0xFF) :: u8) j \<longleftrightarrow> j < 8 \<and> bit v (i * 8 + j)"
  unfolding bit_ucast_iff bit_and_iff bit_drop_bit_eq bit_FF by (auto dest: bit_imp_le_length)

lemma le64_value [simp]: "le_value (le64 v) = v"
proof (rule bit_word_eqI)
  fix k assume "k < LENGTH(64)"
  then have "k div 8 < 8" "k div 8 * 8 + k mod 8 = k" by auto
  then show "bit (le_value (le64 v) :: u64) k \<longleftrightarrow> bit v k"
    using \<open>k < LENGTH(64)\<close> by (simp add: bit_le_value le64_def bit_le_byte)
qed

lemma le32_value [simp]: "le_value (le32 v) = v"
proof (rule bit_word_eqI)
  fix k assume "k < LENGTH(32)"
  then have "k div 8 < 4" "k div 8 * 8 + k mod 8 = k" by auto
  then show "bit (le_value (le32 v) :: u32) k \<longleftrightarrow> bit v k"
    using \<open>k < LENGTH(32)\<close> by (simp add: bit_le_value le32_def bit_le_byte)
qed

lemma le16_value [simp]: "le_value (le16 v) = v"
proof (rule bit_word_eqI)
  fix k assume k: "k < LENGTH(16)"
  then have eq: "k div 8 * 8 + k mod 8 = k" "k div 8 < 2" by auto
  have "le16 v = map (\<lambda>i. ucast (drop_bit (i * 8) v AND 0xFF)) [0..<2]" by (simp add: le16_def upt_rec)
  then show "bit (le_value (le16 v) :: u16) k \<longleftrightarrow> bit v k"
    using eq k by (simp add: bit_le_value bit_le_byte)
qed

lemma length_le [simp]: "length (le16 v) = 2" "length (le32 w) = 4" "length (le64 x) = 8"
  by (simp_all add: le16_def le32_def le64_def)

lemma le_value_bytes:
  assumes "length bytes = n" "n * 8 \<le> LENGTH('w::len)"
  shows "map (\<lambda>i. ucast (drop_bit (i * 8) (le_value bytes :: 'w word) AND 0xFF)) [0..<n] = bytes"
proof (rule nth_equalityI)
  fix i assume "i < length (map (\<lambda>i. ucast (drop_bit (i * 8) (le_value bytes :: 'w word) AND 0xFF) :: u8) [0..<n])"
  then have i: "i < n" by simp
  show "map (\<lambda>i. ucast (drop_bit (i * 8) (le_value bytes :: 'w word) AND 0xFF)) [0..<n] ! i = bytes ! i"
  proof (rule bit_word_eqI)
    fix k assume "k < LENGTH(8)"
    then have k: "k < 8" by simp
    then have "i * 8 + k < LENGTH('w)" "(i * 8 + k) div 8 = i" "(i * 8 + k) mod 8 = k" using i assms(2) by auto
    then show "bit (map (\<lambda>i. ucast (drop_bit (i * 8) (le_value bytes :: 'w word) AND 0xFF)) [0..<n] ! i :: u8) k \<longleftrightarrow>
        bit (bytes ! i) k"
      using i k assms(1) by (simp add: bit_le_byte bit_le_value)
  qed
qed (simp add: assms(1))

lemma le_of_value:
  "length b = 8 \<Longrightarrow> le64 (le_value b) = b" "length b = 4 \<Longrightarrow> le32 (le_value b) = b"
  using le_value_bytes[of b 8, where 'w = 64] le_value_bytes[of b 4, where 'w = 32]
  by (simp_all add: le64_def le32_def)

lemma le16_map: "le16 v = map (\<lambda>i. ucast (drop_bit (i * 8) v AND 0xFF)) [0..<2]"
  by (simp add: le16_def upt_rec)

lemma le16_of_value: "length b = 2 \<Longrightarrow> le16 (le_value b) = b"
  using le_value_bytes[of b 2, where 'w = 16] by (simp add: le16_map)

section \<open>The contract\<close>

lemma read_then_Inr: "p bytes = Inr (x, rest) \<Longrightarrow> read_then p f bytes = f x rest"
  by (simp add: read_then_def)

lemma read_then_False: "p bytes = Inr (False, rest) \<Longrightarrow> read_then p f bytes = f False rest"
  by (rule read_then_Inr)

lemma or_report_Inr: "p bytes = Inr x \<Longrightarrow> or_report p bytes = Inr x"
  and or_fail_Inr: "p bytes = Inr x \<Longrightarrow> or_fail oc detail p bytes = Inr x"
  by (simp_all add: or_report_def or_fail_def)

lemma read_check_True: "okay \<Longrightarrow> read_check okay e bytes = Inr ((), bytes)"
  by (simp add: read_check_def)

lemma lift_result_ok [simp]: "lift_result (ok x) bytes = Inr (x, bytes)"
  by (simp add: lift_result_def)

lemmas read_run = read_then_Inr or_report_Inr or_fail_Inr read_check_True read_value_def read_end_def run_decoder_def

locale codec =
  fixes put :: "'a \<Rightarrow> writes" and get :: "('e, 'a) parser" and valid :: "'a \<Rightarrow> bool"
  assumes get_put: "valid x \<Longrightarrow> get (fst (put x) @ rest) = Inr (x, rest)"
    and fits: "valid x \<Longrightarrow> \<not> snd (put x)"
begin

lemma prefix_free:
  assumes "valid x" "valid y" "fst (put x) @ rest = fst (put y) @ rest'"
  shows "x = y \<and> rest = rest'"
proof -
  have "Inr (x, rest) = get (fst (put y) @ rest')" unfolding assms(3)[symmetric] get_put[OF assms(1)] ..
  then show ?thesis unfolding get_put[OF assms(2)] by simp
qed

lemma get_times:
  assumes "\<forall>x \<in> set xs. valid x"
  shows "read_times (length xs) get (concat (map (\<lambda>x. fst (put x)) xs) @ rest) = Inr (xs, rest)"
  using assms
proof (induction xs)
  case Nil
  then show ?case by (simp add: read_value_def)
next
  case (Cons x xs)
  have "get (fst (put x) @ (concat (map (\<lambda>x. fst (put x)) xs) @ rest)) = Inr (x, concat (map (\<lambda>x. fst (put x)) xs) @ rest)"
    using Cons.prems by (intro get_put) simp
  with Cons show ?case by (simp add: read_value_def read_then_def)
qed

lemma fits_counted: "\<forall>x \<in> set xs. valid x \<Longrightarrow> \<not> snd (put_counted put xs)"
  by (auto simp: put_counted_def put_all_def put_u32_def list_ex_iff fits)

end

lemmas put_simps = put_u8_def put_u16_def put_u32_def put_u64_def put_raw_def put_all_def put_bool_def

lemma read_fixed_append [simp]: "length b = n \<Longrightarrow> read_fixed n detail (b @ rest) = Inr (b, rest)"
  by (simp add: read_fixed_def)

lemma read_u8_put [simp]: "read_u8 (v # rest) = Inr (v, rest)"
  by (simp add: read_u8_def read_then_def read_fixed_def read_value_def)

lemma read_u16_put [simp]: "read_u16 (le16 v @ rest) = Inr (v, rest)"
  by (simp add: read_u16_def read_then_def read_value_def)

lemma read_u32_put [simp]: "read_u32 (le32 v @ rest) = Inr (v, rest)"
  by (simp add: read_u32_def read_then_def read_value_def)

lemma read_u64_put [simp]: "read_u64 (le64 v @ rest) = Inr (v, rest)"
  by (simp add: read_u64_def read_then_def read_value_def)

lemma read_bool_put [simp]: "read_bool ((if v then 1 else 0) # rest) = Inr (v, rest)"
  by (simp add: read_bool_def read_then_def read_check_def read_value_def)

lemma read_bool_bits [simp]: "read_bool (1 # rest) = Inr (True, rest)" "read_bool (0 # rest) = Inr (False, rest)"
  using read_bool_put[of True rest] read_bool_put[of False rest] by simp_all

lemma read_raw_put [simp]: "length b = n \<Longrightarrow> read_raw n (b @ rest) = Inr (b, rest)"
  by (simp add: read_raw_def)

lemma read_digest_put [simp]: "length d = 32 \<Longrightarrow> read_digest (d @ rest) = Inr (d, rest)"
  by (simp add: read_digest_def)

lemma char_of_text_bytes [simp]: "map (\<lambda>c. char_of (unat c)) (text_bytes text) = text"
proof -
  have "char_of (unat (of_char c :: u8)) = c" for c
  proof -
    have "unat (word_of_nat (of_char c) :: u8) = of_char c"
      by (simp only: unat_of_nat) (simp add: take_bit_eq_mod)
    then have "unat (of_char c :: u8) = of_char c" by (simp only: of_nat_of_char)
    then show ?thesis by simp
  qed
  then show ?thesis by (simp add: text_bytes_def comp_def map_idI)
qed

lemma read_text_put [simp]:
  assumes "length text \<le> n" "n < 2 ^ 32"
  shows "read_text n (le32 (word_of_nat (length text)) @ text_bytes text @ rest) = Inr (text, rest)"
proof -
  have len: "unat (word_of_nat (length text) :: u32) = length text"
    using assms by (simp add: unat_of_nat)
  have "length (text_bytes text) = length text" by (simp add: text_bytes_def)
  then show ?thesis
    using assms by (simp add: read_text_def read_then_def read_check_def read_value_def len)
qed

lemma fst_put_text [simp]: "length text \<le> n \<Longrightarrow> fst (put_text n text) = le32 (word_of_nat (length text)) @ text_bytes text"
  and snd_put_text [simp]: "snd (put_text n text) \<longleftrightarrow> n < length text"
  by (simp_all add: put_text_def Let_def)

lemma put_nil [simp]: "fst (put_all []) = []" "\<not> snd (put_all [])"
  by (simp_all add: put_all_def)

lemma length_sha256 [simp]: "length (sha256 m) = 32"
proof -
  have "sha256 m = sha_reference m"
    unfolding sha256_def by (intro sha_finish_reference sha_represents_update[OF sha_represents_init, of m, simplified])
  then show ?thesis by (simp add: k_digest_bytes_def)
qed

context enum_range begin

lemma read_enum_put: "read_enum vals (enum_raw vals e # rest) = Inr (e, rest)"
  by (simp add: read_enum_def read_then_def from_raw)

end

lemmas read_enums_put [simp] =
  outcome.read_enum_put loop_outcome.read_enum_put evidence_class.read_enum_put evidence_binding.read_enum_put
  hop_resolution.read_enum_put resource_kind.read_enum_put administrative_state.read_enum_put
  link_state.read_enum_put traffic_selector_kind.read_enum_put containment_outcome.read_enum_put
  target_reason.read_enum_put authority_kind.read_enum_put grant_state.read_enum_put
  finding_state.read_enum_put fence_cause.read_enum_put evidence_origin.read_enum_put
  producer_kind.read_enum_put reason_code.read_enum_put severity.read_enum_put

text \<open>The same facts at the end of the bytes.\<close>

lemmas read_put_end [simp] =
  read_u16_put[where rest = "[]", simplified] read_u32_put[where rest = "[]", simplified]
  read_u64_put[where rest = "[]", simplified] read_raw_put[where rest = "[]", simplified]
  read_digest_put[where rest = "[]", simplified] read_text_put[where rest = "[]", simplified]

section \<open>The instances of the contract\<close>

locale reader_codec = codec put get valid
  for put :: "'a \<Rightarrow> writes" and get :: "'a reader" and valid :: "'a \<Rightarrow> bool"
begin

lemma get_counted:
  assumes "length xs \<le> unat m" "\<forall>x \<in> set xs. valid x"
  shows "read_counted m get (fst (put_counted put xs) @ rest) = Inr (xs, rest)"
proof -
  have "unat m < 2 ^ LENGTH(32)" by (rule unsigned_less)
  then have "length xs < 2 ^ 32" using assms(1) by simp
  then have len: "unat (word_of_nat (length xs) :: u32) = length xs" by (simp add: unat_of_nat)
  then have "\<not> m < word_of_nat (length xs)" using assms(1) by (simp add: word_less_nat_alt)
  then show ?thesis
    using get_times[OF assms(2), of rest]
    by (simp add: read_counted_def put_counted_def read_count_def read_then_def read_check_def read_value_def
        put_simps len comp_def)
qed

text \<open>A counted loop that feeds every item to a step: \<open>st i\<close> is the state after \<open>i\<close> items.\<close>

lemma fold_get:
  assumes "\<forall>x \<in> set xs. valid x"
    and "\<And>i bytes. i < length xs \<Longrightarrow> f (st i) (xs ! i) bytes = Inr (st (Suc i), bytes)"
  shows "read_fold (length xs) (\<lambda>s. read_then (or_report get) (f s)) (st 0)
    (concat (map (\<lambda>x. fst (put x)) xs) @ rest) = Inr (st (length xs), rest)"
  using assms
proof (induction xs arbitrary: st)
  case (Cons x xs)
  have "get (fst (put x) @ concat (map (\<lambda>x. fst (put x)) xs) @ rest) =
      Inr (x, concat (map (\<lambda>x. fst (put x)) xs) @ rest)"
    using Cons.prems(1) by (intro get_put) simp
  moreover have "read_fold (length xs) (\<lambda>s. read_then (or_report get) (f s)) (st (Suc 0))
      (concat (map (\<lambda>x. fst (put x)) xs) @ rest) = Inr (st (Suc (length xs)), rest)"
    using Cons.IH[of "\<lambda>i. st (Suc i)"] Cons.prems(1) Cons.prems(2)[of "Suc i" for i] by simp
  ultimately show ?case
    using Cons.prems(2)[of 0] by (simp add: read_then_Inr or_report_Inr)
qed (simp add: read_value_def)

lemma get_counted_end:
  "length xs \<le> unat m \<Longrightarrow> \<forall>x \<in> set xs. valid x \<Longrightarrow> read_counted m get (fst (put_counted put xs)) = Inr (xs, [])"
  using get_counted[of xs m "[]"] by simp

end

interpretation u8_codec: reader_codec put_u8 read_u8 "\<lambda>_. True"
  by unfold_locales (simp_all add: put_simps)

interpretation u16_codec: reader_codec put_u16 read_u16 "\<lambda>_. True"
  by unfold_locales (simp_all add: put_simps)

interpretation u32_codec: reader_codec put_u32 read_u32 "\<lambda>_. True"
  by unfold_locales (simp_all add: put_simps)

interpretation u64_codec: reader_codec put_u64 read_u64 "\<lambda>_. True"
  by unfold_locales (simp_all add: put_simps)

interpretation bool_codec: reader_codec put_bool read_bool "\<lambda>_. True"
  by unfold_locales (simp_all add: put_simps)

interpretation digest_codec: reader_codec put_raw read_digest "\<lambda>d. length d = 32"
  by unfold_locales (simp_all add: put_simps)

interpretation text_codec: reader_codec "put_text n" "read_text n" "\<lambda>t. length t \<le> n \<and> n < 2 ^ 32" for n
  by unfold_locales simp_all

context enum_range begin

lemma enum_codec: "reader_codec (put_enum vals) (read_enum vals) (\<lambda>_. True)"
  by unfold_locales (simp_all add: put_enum_def put_simps read_enum_put)

end

interpretation kind_codec: reader_codec "put_enum values_resource_kind" "read_enum values_resource_kind" "\<lambda>_. True"
  by (rule resource_kind.enum_codec)

lemmas counted_simps [simp] =
  u64_codec.get_counted u64_codec.get_counted_end u64_codec.fits_counted
  kind_codec.get_counted kind_codec.get_counted_end kind_codec.fits_counted
  text_codec.get_counted text_codec.get_counted_end text_codec.fits_counted

section \<open>Whole payloads\<close>

text \<open>The contract of an encoder with its decoder: what was encoded is decoded, so encoding is injective.\<close>

locale payload_codec =
  fixes encode :: "'a \<Rightarrow> u8 list" and decode :: "u8 list \<Rightarrow> 'a result" and valid :: "'a \<Rightarrow> bool"
  assumes decode_encode: "valid x \<Longrightarrow> decode (encode x) = ok x"
begin

lemma encode_inject:
  assumes "valid x" "valid y"
  shows "encode x = encode y \<longleftrightarrow> x = y"
  using decode_encode[OF assms(1)] decode_encode[OF assms(2)] by (metis result_simps(10))

end

end
