(* ===== verification/Wire.thy ===== *)
theory Wire
  imports Codec Evidence Containment
begin

text \<open>
  The domain payloads of src/wire.cpp: the fence vector, the process identity, and the topology,
  policy and observation documents, each an encoder with the decoder that checks it.

  The lemmas: every document is the codec of its value (locale \<open>payload_codec\<close>); a topology that was
  built is read back as the very same definition, indexes included; the all-zero fence is refused; a
  label longer than 128 bytes empties the document.
\<close>

section \<open>Fences and identities\<close>

definition write_process_identity :: "process_identity \<Rightarrow> writes" where
  "write_process_identity p = put_all
     [put_u64 (pi_producer p), put_u64 (pi_boot p), put_u64 (pi_incarnation p), put_u64 (pi_epoch p)]"

definition read_process_identity :: "process_identity reader" where
  "read_process_identity =
     read_then read_u64 (\<lambda>producer. read_then read_u64 (\<lambda>boot. read_then read_u64 (\<lambda>incarnation.
     read_then read_u64 (\<lambda>epoch. read_value
       \<lparr>pi_boot = boot, pi_incarnation = incarnation, pi_epoch = epoch, pi_producer = producer\<rparr>))))"

definition write_fence :: "fence_vector \<Rightarrow> writes" where
  "write_fence f = put_all
     [put_u64 (fv_topology f), put_u64 (fv_forwarding f), put_u64 (fv_policy f),
      put_u64 (fv_fabric_epoch f), put_u64 (fv_epoch f), put_u64 (fv_boot f)]"

definition encode_fence :: "fence_vector \<Rightarrow> u8 list" where
  "encode_fence f = take_data (write_fence f)"

definition read_fence_fields :: "fence_vector reader" where
  "read_fence_fields =
     read_then read_u64 (\<lambda>topology. read_then read_u64 (\<lambda>forwarding. read_then read_u64 (\<lambda>policy.
     read_then read_u64 (\<lambda>fabric_epoch. read_then read_u64 (\<lambda>epoch. read_then read_u64 (\<lambda>boot. read_value
       \<lparr>fv_topology = topology, fv_forwarding = forwarding, fv_policy = policy,
        fv_fabric_epoch = fabric_epoch, fv_epoch = epoch, fv_boot = boot\<rparr>))))))"

definition decode_fence :: "fence_vector decoder" where
  "decode_fence = read_then (or_fail Oc_Invalid ''fence vector is truncated'' read_fence_fields)
     (\<lambda>f. read_then (read_check (\<not> fence_is_zero f) (Oc_Invalid, ''fence vector is all zero'')) (\<lambda>_. read_value f))"

section \<open>Topology\<close>

definition txt_topology_schema_is_truncated :: string where
  "txt_topology_schema_is_truncated = ''topology schema is truncated''"

definition txt_topology_schema_is_not_supported :: string where
  "txt_topology_schema_is_not_supported = ''topology schema is not supported''"

definition txt_topology_generation_is_invalid :: string where
  "txt_topology_generation_is_invalid = ''topology generation is invalid''"

definition txt_topology_payload_has_trailing_bytes :: string where
  "txt_topology_payload_has_trailing_bytes = ''topology payload has trailing bytes''"

definition write_selector :: "traffic_selector \<Rightarrow> writes" where
  "write_selector s = put_all
     [put_u64 (ts_id s), put_enum values_traffic_selector_kind (ts_kind s), put_text 128 (ts_label s)]"

definition write_resource :: "resource_record \<Rightarrow> writes" where
  "write_resource r = put_all
     [put_u64 (rr_id r), put_u64 (rr_domain r), put_enum values_resource_kind (rr_kind r),
      put_enum values_administrative_state (rr_admin r), put_bool (rr_containable r), put_u32 (rr_cost r),
      put_text 128 (rr_label r)]"

definition write_edge :: "forwarding_edge \<Rightarrow> writes" where
  "write_edge e = put_all
     [put_u64 (fe_id e), put_u64 (fe_from e), put_u64 (fe_to e), put_u64 (fe_domain e),
      put_enum values_link_state (fe_link e), put_counted put_u64 (fe_selectors e)]"

definition encode_topology :: "topology \<Rightarrow> u8 list" where
  "encode_topology t = take_checked (put_all
     [put_u16 1, put_u64 (td_generation t), put_counted write_selector (td_selectors t),
      put_counted write_resource (td_resources t), put_counted write_edge (td_edges t)])"

definition read_selector :: "traffic_selector reader" where
  "read_selector =
     read_then read_u64 (\<lambda>k. read_then (read_enum values_traffic_selector_kind) (\<lambda>kind.
     read_then (read_text 128) (\<lambda>label. read_value \<lparr>ts_id = k, ts_kind = kind, ts_label = label\<rparr>)))"

definition read_resource :: "resource_record reader" where
  "read_resource =
     read_then read_u64 (\<lambda>k. read_then read_u64 (\<lambda>domain.
     read_then (read_enum values_resource_kind) (\<lambda>kind. read_then (read_enum values_administrative_state) (\<lambda>admin.
     read_then read_bool (\<lambda>containable. read_then read_u32 (\<lambda>cost. read_then (read_text 128) (\<lambda>label. read_value
       \<lparr>rr_id = k, rr_domain = domain, rr_kind = kind, rr_admin = admin, rr_containable = containable,
        rr_cost = cost, rr_label = label\<rparr>)))))))"

definition read_edge :: "limits \<Rightarrow> forwarding_edge reader" where
  "read_edge l =
     read_then read_u64 (\<lambda>k. read_then read_u64 (\<lambda>source. read_then read_u64 (\<lambda>target.
     read_then read_u64 (\<lambda>domain. read_then (read_enum values_link_state) (\<lambda>link.
     read_then (read_counted (max_selectors l) read_u64) (\<lambda>selectors. read_value
       \<lparr>fe_id = k, fe_from = source, fe_to = target, fe_domain = domain, fe_link = link,
        fe_selectors = selectors\<rparr>))))))"

text \<open>The status of a builder operation ends the decoding when it is a failure.\<close>

definition builder_step :: "status \<times> topology_builder \<Rightarrow> topology_builder decoder" where
  "builder_step res bytes =
     (case res of (st, b) \<Rightarrow> if is_ok st then Inr (b, bytes) else Inl (r_outcome st, r_detail st))"

definition parse_topology :: "limits \<Rightarrow> topology_builder decoder" where
  "parse_topology l =
     read_then (or_fail Oc_Invalid txt_topology_schema_is_truncated read_u16) (\<lambda>schema.
     read_then (read_check (schema = 1) (Oc_Unsupported, txt_topology_schema_is_not_supported)) (\<lambda>_.
     read_then (or_fail Oc_Invalid txt_topology_generation_is_invalid read_u64) (\<lambda>generation.
     read_then (read_check (generation \<noteq> 0) (Oc_Invalid, txt_topology_generation_is_invalid)) (\<lambda>_.
     read_then (or_report (read_count (max_selectors l))) (\<lambda>n.
     read_then (read_fold (unat n) (\<lambda>b. read_then (or_report read_selector) (\<lambda>s. builder_step (add_selector s b)))
       (new_builder l\<lparr>tb_generation := generation\<rparr>)) (\<lambda>b.
     read_then (or_report (read_count (max_resources l))) (\<lambda>n.
     read_then (read_fold (unat n) (\<lambda>b. read_then (or_report read_resource) (\<lambda>r. builder_step (add_resource r b))) b) (\<lambda>b.
     read_then (or_report (read_count (max_edges l))) (\<lambda>n.
     read_then (read_fold (unat n) (\<lambda>b. read_then (or_report (read_edge l)) (\<lambda>e. builder_step (add_edge e b))) b) (\<lambda>b.
     read_then (read_end (Oc_Invalid, txt_topology_payload_has_trailing_bytes)) (\<lambda>_. read_value b)))))))))))"

definition decode_topology :: "limits \<Rightarrow> u8 list \<Rightarrow> topology result" where
  "decode_topology l bytes =
     (case parse_topology l bytes of Inl (oc, detail) \<Rightarrow> failure oc detail | Inr (b, rest) \<Rightarrow> build b)"

section \<open>Policy\<close>

definition write_policy :: "containment_policy \<Rightarrow> writes" where
  "write_policy p = put_all
     [put_u16 1, put_u64 (po_generation p), put_u32 (po_max_targets p), put_u64 (po_max_total_cost p),
      put_bool (po_cross_domain p), put_u64 (po_max_search_nodes p),
      put_counted (put_enum values_resource_kind) (po_kinds p), put_counted put_u64 (po_domains p)]"

definition encode_policy :: "containment_policy \<Rightarrow> u8 list" where
  "encode_policy p = take_checked (write_policy p)"

definition read_policy_fields :: "limits \<Rightarrow> containment_policy reader" where
  "read_policy_fields l =
     read_then read_u64 (\<lambda>generation. read_then read_u32 (\<lambda>targets. read_then read_u64 (\<lambda>cost.
     read_then read_bool (\<lambda>cross_domain. read_then read_u64 (\<lambda>nodes.
     read_then (read_counted (max_selectors l) (read_enum values_resource_kind)) (\<lambda>kinds.
     read_then (read_counted (max_selectors l) read_u64) (\<lambda>domains. read_value
       \<lparr>po_generation = generation, po_max_targets = targets, po_max_total_cost = cost, po_kinds = kinds,
        po_domains = domains, po_cross_domain = cross_domain, po_max_search_nodes = nodes\<rparr>)))))))"

definition decode_policy :: "limits \<Rightarrow> u8 list \<Rightarrow> containment_policy result" where
  "decode_policy l = run_decoder (
     read_then (or_fail Oc_Invalid ''policy schema is truncated'' read_u16) (\<lambda>schema.
     read_then (read_check (schema = 1) (Oc_Unsupported, ''policy schema is not supported'')) (\<lambda>_.
     read_then (or_report (read_policy_fields l)) (\<lambda>p.
     read_then (read_end (Oc_Invalid, ''policy payload has trailing bytes'')) (\<lambda>_.
     read_then (read_check (sorted (po_kinds p)) (Oc_Invalid, ''policy kinds are not sorted'')) (\<lambda>_.
     read_then (read_check (sorted (po_domains p)) (Oc_Invalid, ''policy domains are not sorted'')) (\<lambda>_.
     read_value p)))))))"

section \<open>Observations\<close>

definition write_observation :: "forwarding_observation \<Rightarrow> writes" where
  "write_observation ob = put_all
     [put_u16 1, put_u64 (fo_id ob), put_u64 (fo_edge ob), put_u64 (fo_from ob), put_u64 (fo_to ob),
      put_u64 (fo_domain ob), put_enum values_evidence_class (fo_klass ob), put_counted put_u64 (fo_selectors ob),
      put_u64 (fo_topology_generation ob), put_u64 (fo_forwarding_generation ob), put_u64 (fo_producer ob),
      put_enum values_producer_kind (fo_producer_kind ob), put_u64 (fo_sequence ob),
      put_enum values_evidence_origin (fo_origin ob), put_u64 (ls_boot (fo_lease ob)),
      put_u64 (ls_epoch (fo_lease ob)), put_u64 (ls_fabric_epoch (fo_lease ob)),
      put_u64 (ls_valid_from (fo_lease ob)), put_u64 (ls_valid_until (fo_lease ob)),
      put_raw (fo_payload_digest ob)]"

definition encode_observation :: "forwarding_observation \<Rightarrow> u8 list" where
  "encode_observation ob = take_checked (write_observation ob)"

definition read_lease :: "evidence_lease reader" where
  "read_lease =
     read_then read_u64 (\<lambda>boot. read_then read_u64 (\<lambda>epoch. read_then read_u64 (\<lambda>fabric_epoch.
     read_then read_u64 (\<lambda>valid_from. read_then read_u64 (\<lambda>valid_until. read_value
       \<lparr>ls_boot = boot, ls_epoch = epoch, ls_fabric_epoch = fabric_epoch, ls_valid_from = valid_from,
        ls_valid_until = valid_until\<rparr>)))))"

definition read_observation_fields :: "limits \<Rightarrow> forwarding_observation reader" where
  "read_observation_fields l =
     read_then read_u64 (\<lambda>k. read_then read_u64 (\<lambda>edge. read_then read_u64 (\<lambda>source. read_then read_u64 (\<lambda>target.
     read_then read_u64 (\<lambda>domain. read_then (read_enum values_evidence_class) (\<lambda>klass.
     read_then (read_counted (max_selectors l) read_u64) (\<lambda>selectors.
     read_then read_u64 (\<lambda>topology_generation. read_then read_u64 (\<lambda>forwarding_generation.
     read_then read_u64 (\<lambda>producer. read_then (read_enum values_producer_kind) (\<lambda>producer_kind.
     read_then read_u64 (\<lambda>sequence. read_then (read_enum values_evidence_origin) (\<lambda>origin.
     read_then read_lease (\<lambda>lease. read_then read_digest (\<lambda>payload_digest. read_value
       \<lparr>fo_id = k, fo_edge = edge, fo_from = source, fo_to = target, fo_domain = domain, fo_klass = klass,
        fo_selectors = selectors, fo_topology_generation = topology_generation,
        fo_forwarding_generation = forwarding_generation, fo_producer = producer,
        fo_producer_kind = producer_kind, fo_sequence = sequence, fo_origin = origin, fo_lease = lease,
        fo_payload_digest = payload_digest\<rparr>)))))))))))))))"

definition decode_observation :: "limits \<Rightarrow> u8 list \<Rightarrow> forwarding_observation result" where
  "decode_observation l = run_decoder (
     read_then (or_fail Oc_Invalid ''observation is truncated'' read_u16) (\<lambda>schema.
     read_then (read_check (schema = 1) (Oc_Unsupported, ''observation schema is not supported'')) (\<lambda>_.
     read_then (or_report (read_observation_fields l)) (\<lambda>ob.
     read_then (read_end (Oc_Invalid, ''observation payload has trailing bytes'')) (\<lambda>_.
     read_value ob)))))"

section \<open>Round trips\<close>

interpretation identity_codec: reader_codec write_process_identity read_process_identity "\<lambda>_. True"
  by unfold_locales (simp_all add: write_process_identity_def read_process_identity_def put_simps read_run)

interpretation fence_fields: reader_codec write_fence read_fence_fields "\<lambda>_. True"
  by unfold_locales (simp_all add: write_fence_def read_fence_fields_def put_simps read_run)

interpretation fence_codec: codec write_fence decode_fence "\<lambda>f. \<not> fence_is_zero f"
  by unfold_locales (simp_all add: fence_fields.fits decode_fence_def fence_fields.get_put read_run)

lemma decode_fence_put [simp]: "\<not> fence_is_zero f \<Longrightarrow> decode_fence (encode_fence f @ rest) = Inr (f, rest)"
  by (simp add: encode_fence_def take_data_def fence_codec.get_put)

interpretation selector_codec: reader_codec write_selector read_selector "\<lambda>s. length (ts_label s) \<le> 128"
  by unfold_locales (simp_all add: write_selector_def read_selector_def put_simps put_enum_def read_run)

interpretation resource_codec: reader_codec write_resource read_resource "\<lambda>r. length (rr_label r) \<le> 128"
  by unfold_locales (simp_all add: write_resource_def read_resource_def put_simps put_enum_def read_run)

interpretation edge_codec: reader_codec write_edge "read_edge l"
  "\<lambda>e. length (fe_selectors e) \<le> unat (max_selectors l)" for l
  by unfold_locales (simp_all add: write_edge_def read_edge_def put_simps put_enum_def read_run)

interpretation lease_codec: reader_codec "\<lambda>x. put_all [put_u64 (ls_boot x), put_u64 (ls_epoch x),
   put_u64 (ls_fabric_epoch x), put_u64 (ls_valid_from x), put_u64 (ls_valid_until x)]" read_lease "\<lambda>_. True"
  by unfold_locales (simp_all add: read_lease_def put_simps read_run)

definition policy_valid :: "limits \<Rightarrow> containment_policy \<Rightarrow> bool" where
  "policy_valid l p \<longleftrightarrow> sorted (po_kinds p) \<and> sorted (po_domains p) \<and>
     length (po_kinds p) \<le> unat (max_selectors l) \<and> length (po_domains p) \<le> unat (max_selectors l)"

interpretation policy_payload: payload_codec encode_policy "decode_policy l" "policy_valid l" for l
  by unfold_locales (simp add: policy_valid_def encode_policy_def take_checked_def write_policy_def
      decode_policy_def read_policy_fields_def put_simps read_run)

definition observation_valid :: "limits \<Rightarrow> forwarding_observation \<Rightarrow> bool" where
  "observation_valid l ob \<longleftrightarrow> length (fo_selectors ob) \<le> unat (max_selectors l) \<and> length (fo_payload_digest ob) = 32"

interpretation observation_payload: payload_codec encode_observation "decode_observation l" "observation_valid l" for l
  by unfold_locales (simp add: observation_valid_def encode_observation_def take_checked_def write_observation_def
      decode_observation_def read_observation_fields_def read_lease_def put_simps put_enum_def read_run)

text \<open>A topology that was built is decoded to itself: the lists are in canonical order and the indexes are
  functions of them.\<close>

definition labels_fit :: "topology \<Rightarrow> bool" where
  "labels_fit t \<longleftrightarrow> list_all (\<lambda>s. length (ts_label s) \<le> 128) (td_selectors t) \<and>
     list_all (\<lambda>r. length (rr_label r) \<le> 128) (td_resources t)"

lemma builder_step_ok: "is_ok st \<Longrightarrow> builder_step (st, b) bytes = Inr (b, bytes)"
  by (simp add: builder_step_def)

lemma bounded_text_short [simp]: "length t \<le> n \<Longrightarrow> bounded_text t n = t"
  by (simp add: bounded_text_def)

lemma read_count_put [simp]:
  assumes "n \<le> unat m"
  shows "read_count m (le32 (word_of_nat n) @ rest) = Inr (word_of_nat n, rest)"
    and "unat (word_of_nat n :: u32) = n"
proof -
  have "unat m < 2 ^ LENGTH(32)" by (rule unsigned_less)
  then show len: "unat (word_of_nat n :: u32) = n" using assms by (simp add: unat_of_nat)
  then have "word_of_nat n \<le> m" using assms by (simp add: word_le_nat_alt)
  then show "read_count m (le32 (word_of_nat n) @ rest) = Inr (word_of_nat n, rest)"
    by (simp add: read_count_def read_run)
qed

lemma fst_put_counted: "fst (put_counted put xs) = le32 (word_of_nat (length xs)) @ concat (map (\<lambda>x. fst (put x)) xs)"
  by (simp add: put_counted_def put_simps comp_def)

lemma read_selectors:
  assumes "\<forall>s \<in> set ss. length (ts_label s) \<le> 128 \<and> id_valid (ts_id s)" "length ss \<le> unat (max_selectors l)"
    "tb_limits b = l" "tb_selectors b = []"
  shows "read_fold (length ss) (\<lambda>b. read_then (or_report read_selector) (\<lambda>s. builder_step (add_selector s b))) b
    (concat (map (\<lambda>s. fst (write_selector s)) ss) @ rest) = Inr (b\<lparr>tb_selectors := ss\<rparr>, rest)"
proof -
  have "read_fold (length ss) (\<lambda>b. read_then (or_report read_selector) (\<lambda>s. builder_step (add_selector s b)))
      (b\<lparr>tb_selectors := take 0 ss\<rparr>) (concat (map (\<lambda>s. fst (write_selector s)) ss) @ rest) =
    Inr (b\<lparr>tb_selectors := take (length ss) ss\<rparr>, rest)"
  proof (rule selector_codec.fold_get)
    fix i bytes assume i: "i < length ss"
    then have "ss ! i \<in> set ss" by simp
    then have "length (ts_label (ss ! i)) \<le> 128" "id_valid (ts_id (ss ! i))" using assms(1) by auto
    then show "builder_step (add_selector (ss ! i) (b\<lparr>tb_selectors := take i ss\<rparr>)) bytes =
        Inr (b\<lparr>tb_selectors := take (Suc i) ss\<rparr>, bytes)"
      using i assms(2,3) by (simp add: add_selector_def builder_step_ok take_Suc_conv_app_nth)
  qed (use assms(1) in simp)
  moreover have "b\<lparr>tb_selectors := take 0 ss\<rparr> = b" using assms(4) by (cases b) simp
  ultimately show ?thesis by simp
qed

lemma read_resources:
  assumes "\<forall>r \<in> set rs. length (rr_label r) \<le> 128 \<and> id_valid (rr_id r) \<and> id_valid (rr_domain r) \<and>
      \<not> (rr_containable r \<and> rr_cost r = 0)" "length rs \<le> unat (max_resources l)"
    "tb_limits b = l" "tb_resources b = []"
  shows "read_fold (length rs) (\<lambda>b. read_then (or_report read_resource) (\<lambda>r. builder_step (add_resource r b))) b
    (concat (map (\<lambda>r. fst (write_resource r)) rs) @ rest) = Inr (b\<lparr>tb_resources := rs\<rparr>, rest)"
proof -
  have "read_fold (length rs) (\<lambda>b. read_then (or_report read_resource) (\<lambda>r. builder_step (add_resource r b)))
      (b\<lparr>tb_resources := take 0 rs\<rparr>) (concat (map (\<lambda>r. fst (write_resource r)) rs) @ rest) =
    Inr (b\<lparr>tb_resources := take (length rs) rs\<rparr>, rest)"
  proof (rule resource_codec.fold_get)
    fix i bytes assume i: "i < length rs"
    then have "rs ! i \<in> set rs" by simp
    then have "length (rr_label (rs ! i)) \<le> 128" "id_valid (rr_id (rs ! i))" "id_valid (rr_domain (rs ! i))"
      "\<not> (rr_containable (rs ! i) \<and> rr_cost (rs ! i) = 0)" using assms(1) by auto
    then show "builder_step (add_resource (rs ! i) (b\<lparr>tb_resources := take i rs\<rparr>)) bytes =
        Inr (b\<lparr>tb_resources := take (Suc i) rs\<rparr>, bytes)"
      using i assms(2,3) by (auto simp: add_resource_def builder_step_ok take_Suc_conv_app_nth)
  qed (use assms(1) in simp)
  moreover have "b\<lparr>tb_resources := take 0 rs\<rparr> = b" using assms(4) by (cases b) simp
  ultimately show ?thesis by simp
qed

lemma read_edges:
  assumes "\<forall>e \<in> set es. edge_ok rs ss e \<and> length (fe_selectors e) \<le> unat (max_selectors l)"
    "length es \<le> unat (max_edges l)" "tb_limits b = l" "tb_edges b = []"
  shows "read_fold (length es) (\<lambda>b. read_then (or_report (read_edge l)) (\<lambda>e. builder_step (add_edge e b))) b
    (concat (map (\<lambda>e. fst (write_edge e)) es) @ rest) = Inr (b\<lparr>tb_edges := es\<rparr>, rest)"
proof -
  have "read_fold (length es) (\<lambda>b. read_then (or_report (read_edge l)) (\<lambda>e. builder_step (add_edge e b)))
      (b\<lparr>tb_edges := take 0 es\<rparr>) (concat (map (\<lambda>e. fst (write_edge e)) es) @ rest) =
    Inr (b\<lparr>tb_edges := take (length es) es\<rparr>, rest)"
  proof (rule edge_codec.fold_get)
    fix i bytes assume i: "i < length es"
    then have "es ! i \<in> set es" by simp
    then have "edge_ok rs ss (es ! i)" using assms(1) by auto
    then show "builder_step (add_edge (es ! i) (b\<lparr>tb_edges := take i es\<rparr>)) bytes =
        Inr (b\<lparr>tb_edges := take (Suc i) es\<rparr>, bytes)"
      using i assms(2,3) by (simp add: edge_ok_def add_edge_def builder_step_ok take_Suc_conv_app_nth)
  qed (use assms(1) in simp)
  moreover have "b\<lparr>tb_edges := take 0 es\<rparr> = b" using assms(4) by (cases b) simp
  ultimately show ?thesis by simp
qed

text \<open>The selectors of an edge are declared and different, so there are at most as many as the
  definition declares.\<close>

lemma edge_selectors_bound:
  assumes "topology_ok t" "e \<in> set (td_edges t)"
  shows "length (fe_selectors e) \<le> length (td_selectors t)"
proof -
  have e: "edge_ok (td_resources t) (td_selectors t) e" using assms by (simp add: topology_ok_def)
  have "set (fe_selectors e) \<subseteq> ts_id ` set (td_selectors t)"
  proof
    fix k assume "k \<in> set (fe_selectors e)"
    then obtain s where "find_sorted ts_id (td_selectors t) k = Some s" using e by (auto simp: edge_ok_def)
    then show "k \<in> ts_id ` set (td_selectors t)" using find_sorted_SomeD by fastforce
  qed
  then have "card (set (fe_selectors e)) \<le> card (set (td_selectors t))"
    by (meson card_image_le card_mono finite_imageI finite_set le_trans)
  moreover have "distinct (fe_selectors e)" using e by (simp add: edge_ok_def strict_sorted_iff)
  ultimately show ?thesis by (metis card_length distinct_card le_trans)
qed

lemma decode_encode_topology:
  assumes built: "canonicalize_topology d l = ok t" and fit: "labels_fit t"
  shows "decode_topology l (encode_topology t) = ok t"
proof -
  note okD = canonicalize_okD[OF built]
  note tok = okD(1)[unfolded topology_ok_def]
  let ?b = "\<lparr>tb_limits = l, tb_generation = td_generation t, tb_resources = td_resources t,
     tb_edges = td_edges t, tb_selectors = td_selectors t\<rparr>"
  have fits: "\<not> snd (put_counted write_selector (td_selectors t))" "\<not> snd (put_counted write_resource (td_resources t))"
      "\<not> snd (put_counted write_edge (td_edges t))"
    using fit edge_selectors_bound[OF okD(1)] okD(9)
    by (auto simp: labels_fit_def list_all_iff intro!: selector_codec.fits_counted resource_codec.fits_counted
        edge_codec.fits_counted[where l = l] intro: le_trans)
  have sel: "\<forall>s \<in> set (td_selectors t). length (ts_label s) \<le> 128 \<and> id_valid (ts_id s)"
    and res: "\<forall>r \<in> set (td_resources t). length (rr_label r) \<le> 128 \<and> id_valid (rr_id r) \<and> id_valid (rr_domain r) \<and>
      \<not> (rr_containable r \<and> rr_cost r = 0)"
    and edg: "\<forall>e \<in> set (td_edges t). edge_ok (td_resources t) (td_selectors t) e \<and>
      length (fe_selectors e) \<le> unat (max_selectors l)"
    using fit tok edge_selectors_bound[OF okD(1)] okD(9) by (auto simp: labels_fit_def list_all_iff intro: le_trans)
  have "encode_topology t = le16 1 @ le64 (td_generation t) @ fst (put_counted write_selector (td_selectors t)) @
      fst (put_counted write_resource (td_resources t)) @ fst (put_counted write_edge (td_edges t))"
    using fits by (simp add: encode_topology_def take_checked_def put_simps)
  moreover have "td_generation t \<noteq> 0" using tok by (simp add: id_valid_def)
  ultimately have "parse_topology l (encode_topology t) = Inr (?b, [])"
    using okD(7-9) read_edges[OF edg, where rest = "[]"]
    by (simp add: parse_topology_def fst_put_counted read_run read_selectors[OF sel] read_resources[OF res]
        new_builder_def)
  moreover have "build ?b = ok t"
    unfolding build_def
    by (simp, rule canonicalize_permute[OF built]) (simp_all add: okD(2-5))
  ultimately show ?thesis by (simp add: decode_topology_def)
qed

lemma encode_topology_overflow: "encode_topology t = [] \<longleftrightarrow> \<not> labels_fit t"
proof -
  have c: "snd (put_counted put xs) \<longleftrightarrow> list_ex (\<lambda>x. snd (put x)) xs" for put :: "'a \<Rightarrow> writes" and xs
    by (simp add: put_counted_def put_simps list_ex_iff)
  have e: "\<not> snd (write_edge x)" for x by (simp add: write_edge_def put_simps put_enum_def)
  show ?thesis
    by (simp add: encode_topology_def take_checked_def put_simps e c)
       (auto simp: le16_def labels_fit_def list_all_iff list_ex_iff write_selector_def write_resource_def put_simps
          put_enum_def not_le)
qed

end
