(* ===== verification/Frames.thy ===== *)
theory Frames
  imports Codec
begin

text \<open>
  The framed protocol of src/wire.cpp: the message types, the frame encoder and decoder, and the
  incremental decoder class FrameDecoder as a state with the operations feed, drain and finish.

  The lemmas: a frame decodes exactly when it is what the encoder writes for the header and payload it
  decodes to (\<open>decode_frame_iff\<close>), so any altered frame that is still accepted is a sha256 collision;
  draining a buffer is the reference parser \<open>frames_of\<close> on the unread bytes, and the parser on a
  concatenation is the parser on its parts, so the way a stream is cut into chunks changes nothing.
\<close>

section \<open>Message types\<close>

datatype message_type =
    Msg_Hello | Msg_HelloAck | Msg_Bye | Msg_Error | Msg_SetTopology | Msg_SetPolicy
    | Msg_ConfigurationAccepted | Msg_SubmitObservation | Msg_ObservationAccepted
    | Msg_DetectRequest | Msg_AssessmentReply | Msg_PlanRequest | Msg_PlanReply | Msg_ContainIntent
    | Msg_ContainAck | Msg_EffectReport | Msg_FindingQuery | Msg_FindingReply | Msg_FindingWithdraw
    | Msg_StateDigestRequest | Msg_StateDigestReply | Msg_FenceAdvance | Msg_RestartReportRequest
    | Msg_RestartReportReply | Msg_FindingPublish | Msg_ContainAuthorize

definition values_message_type :: "message_type list" where
  "values_message_type =
     [Msg_Hello, Msg_HelloAck, Msg_Bye, Msg_Error, Msg_SetTopology, Msg_SetPolicy
      , Msg_ConfigurationAccepted, Msg_SubmitObservation, Msg_ObservationAccepted, Msg_DetectRequest
      , Msg_AssessmentReply, Msg_PlanRequest, Msg_PlanReply, Msg_ContainIntent, Msg_ContainAck
      , Msg_EffectReport, Msg_FindingQuery, Msg_FindingReply, Msg_FindingWithdraw
      , Msg_StateDigestRequest, Msg_StateDigestReply, Msg_FenceAdvance, Msg_RestartReportRequest
      , Msg_RestartReportReply, Msg_FindingPublish, Msg_ContainAuthorize]"

primrec name_message_type :: "message_type \<Rightarrow> string" where
  "name_message_type Msg_Hello = ''Hello''"
| "name_message_type Msg_HelloAck = ''HelloAck''"
| "name_message_type Msg_Bye = ''Bye''"
| "name_message_type Msg_Error = ''Error''"
| "name_message_type Msg_SetTopology = ''SetTopology''"
| "name_message_type Msg_SetPolicy = ''SetPolicy''"
| "name_message_type Msg_ConfigurationAccepted = ''ConfigurationAccepted''"
| "name_message_type Msg_SubmitObservation = ''SubmitObservation''"
| "name_message_type Msg_ObservationAccepted = ''ObservationAccepted''"
| "name_message_type Msg_DetectRequest = ''DetectRequest''"
| "name_message_type Msg_AssessmentReply = ''AssessmentReply''"
| "name_message_type Msg_PlanRequest = ''PlanRequest''"
| "name_message_type Msg_PlanReply = ''PlanReply''"
| "name_message_type Msg_ContainIntent = ''ContainIntent''"
| "name_message_type Msg_ContainAck = ''ContainAck''"
| "name_message_type Msg_EffectReport = ''EffectReport''"
| "name_message_type Msg_FindingQuery = ''FindingQuery''"
| "name_message_type Msg_FindingReply = ''FindingReply''"
| "name_message_type Msg_FindingWithdraw = ''FindingWithdraw''"
| "name_message_type Msg_StateDigestRequest = ''StateDigestRequest''"
| "name_message_type Msg_StateDigestReply = ''StateDigestReply''"
| "name_message_type Msg_FenceAdvance = ''FenceAdvance''"
| "name_message_type Msg_RestartReportRequest = ''RestartReportRequest''"
| "name_message_type Msg_RestartReportReply = ''RestartReportReply''"
| "name_message_type Msg_FindingPublish = ''FindingPublish''"
| "name_message_type Msg_ContainAuthorize = ''ContainAuthorize''"

interpretation message_type: enum_range values_message_type name_message_type
proof
  show "e \<in> set values_message_type" for e by (cases e) (simp_all add: values_message_type_def)
qed (simp_all add: values_message_type_def)

definition message_type_raw :: "message_type \<Rightarrow> u16" where
  "message_type_raw t = ucast (enum_raw values_message_type t)"

definition is_valid_message_type :: "u16 \<Rightarrow> bool" where
  "is_valid_message_type raw \<longleftrightarrow> raw \<le> message_type_raw Msg_ContainAuthorize"

text \<open>The cast of a valid underlying value.\<close>

definition message_type_of :: "u16 \<Rightarrow> message_type" where
  "message_type_of raw = values_message_type ! unat raw"

definition allowed_before_handshake :: "message_type \<Rightarrow> bool" where
  "allowed_before_handshake t \<longleftrightarrow> t = Msg_Hello"

section \<open>Frames\<close>

definition k_wire_magic :: u32 where "k_wire_magic = 0x3147574C"

definition k_wire_version :: u16 where "k_wire_version = 1"

definition k_wire_header_bytes :: nat where "k_wire_header_bytes = 32"

record frame_header =
  fh_magic :: u32
  fh_version :: u16
  fh_type :: message_type
  fh_flags :: u32
  fh_session :: u64
  fh_sequence :: u64
  fh_payload_length :: u32

record decoded_frame =
  df_header :: frame_header
  df_payload :: "u8 list"

definition header_bytes :: "frame_header \<Rightarrow> u8 list" where
  "header_bytes h = le32 (fh_magic h) @ le16 (fh_version h) @ le16 (message_type_raw (fh_type h)) @
     le32 (fh_flags h) @ le64 (fh_session h) @ le64 (fh_sequence h) @ le32 (fh_payload_length h)"

definition header_digest :: "frame_header \<Rightarrow> digest" where
  "header_digest h = sha256 (header_bytes h)"

definition encode_frame :: "message_type \<Rightarrow> u64 \<Rightarrow> u64 \<Rightarrow> u8 list \<Rightarrow> u32 \<Rightarrow> u8 list result" where
  "encode_frame type session sequence payload flags =
     (if \<not> is_valid_message_type (message_type_raw type) then failure Oc_Unsupported ''message type is out of domain''
      else if length payload > k_frame_payload then failure Oc_Exhausted ''frame payload exceeds the hard ceiling''
      else let body = header_bytes \<lparr>fh_magic = k_wire_magic, fh_version = k_wire_version, fh_type = type,
                        fh_flags = flags, fh_session = session, fh_sequence = sequence,
                        fh_payload_length = word_of_nat (length payload)\<rparr> @ payload
           in ok (body @ sha256 body))"

definition u16_at :: "nat \<Rightarrow> u8 list \<Rightarrow> u16" where
  "u16_at off bytes = le_value (take 2 (drop off bytes))"

definition u32_at :: "nat \<Rightarrow> u8 list \<Rightarrow> u32" where
  "u32_at off bytes = le_value (take 4 (drop off bytes))"

definition u64_at :: "nat \<Rightarrow> u8 list \<Rightarrow> u64" where
  "u64_at off bytes = le_value (take 8 (drop off bytes))"

definition txt_frame_magic_mismatch :: string where
  "txt_frame_magic_mismatch = ''frame magic mismatch''"

definition txt_frame_version_is_not_supported :: string where
  "txt_frame_version_is_not_supported = ''frame version is not supported''"

definition txt_frame_type_is_out_of_domain :: string where
  "txt_frame_type_is_out_of_domain = ''frame type is out of domain''"

definition txt_frame_flags_are_not_understood :: string where
  "txt_frame_flags_are_not_understood = ''frame flags are not understood''"

definition txt_declared_payload_length_exceeds_the :: string where
  "txt_declared_payload_length_exceeds_the = ''declared payload length exceeds the hard ceiling''"

definition decode_frame :: "u8 list \<Rightarrow> decoded_frame result" where
  "decode_frame bytes =
     (if length bytes < k_wire_header_bytes then failure Oc_Invalid ''frame header is truncated''
      else if u32_at 0 bytes \<noteq> k_wire_magic then failure Oc_Invalid txt_frame_magic_mismatch
      else if u16_at 4 bytes \<noteq> k_wire_version then failure Oc_Unsupported txt_frame_version_is_not_supported
      else if \<not> is_valid_message_type (u16_at 6 bytes) then failure Oc_Unsupported txt_frame_type_is_out_of_domain
      else if u32_at 8 bytes \<noteq> 0 then failure Oc_Invalid txt_frame_flags_are_not_understood
      else if unat (u32_at 28 bytes) > k_frame_payload
        then failure Oc_Exhausted txt_declared_payload_length_exceeds_the
      else
        let declared = unat (u32_at 28 bytes);
            body_size = k_wire_header_bytes + declared;
            expected = body_size + k_digest_bytes
        in if length bytes < expected then failure Oc_Invalid ''frame payload is truncated''
           else if length bytes > expected then failure Oc_Invalid ''frame has trailing bytes''
           else if sha256 (take body_size bytes) \<noteq> take k_digest_bytes (drop body_size bytes)
             then failure Oc_IntegrityFailure ''frame integrity check failed''
           else ok \<lparr>df_header = \<lparr>fh_magic = k_wire_magic, fh_version = u16_at 4 bytes,
                      fh_type = message_type_of (u16_at 6 bytes), fh_flags = u32_at 8 bytes,
                      fh_session = u64_at 12 bytes, fh_sequence = u64_at 20 bytes,
                      fh_payload_length = u32_at 28 bytes\<rparr>,
                    df_payload = take declared (drop k_wire_header_bytes bytes)\<rparr>)"

section \<open>The incremental decoder\<close>

record frame_decoder =
  fd_buffer :: "u8 list"
  fd_consumed :: nat
  fd_failed :: bool
  fd_finished :: bool
  fd_reason :: reason_code
  fd_detail :: string

definition new_frame_decoder :: frame_decoder where
  "new_frame_decoder = \<lparr>fd_buffer = [], fd_consumed = 0, fd_failed = False, fd_finished = False,
     fd_reason = R_WireFrameAccepted, fd_detail = []\<rparr>"

definition decoder_fail :: "reason_code \<Rightarrow> string \<Rightarrow> frame_decoder \<Rightarrow> status \<times> frame_decoder" where
  "decoder_fail code detail d =
     (let d' = (if \<not> fd_failed d then d\<lparr>fd_failed := True, fd_reason := code, fd_detail := detail\<rparr> else d)
      in (failure Oc_IntegrityFailure (fd_detail d'), d'))"

text \<open>One turn of the loop of drain on the unread bytes: wait, fail, or a frame and its size.\<close>

datatype frame_step = Step_More | Step_Fail reason_code string | Step_Frame decoded_frame nat

definition next_frame :: "u8 list \<Rightarrow> frame_step" where
  "next_frame unread =
     (if length unread < k_wire_header_bytes then Step_More
      else if u32_at 0 unread \<noteq> k_wire_magic then Step_Fail R_WireFrameBadMagic txt_frame_magic_mismatch
      else if u16_at 4 unread \<noteq> k_wire_version then Step_Fail R_WireFrameBadVersion txt_frame_version_is_not_supported
      else if \<not> is_valid_message_type (u16_at 6 unread) then Step_Fail R_WireFrameBadEnum txt_frame_type_is_out_of_domain
      else if u32_at 8 unread \<noteq> 0 then Step_Fail R_WireFrameBadEnum txt_frame_flags_are_not_understood
      else if unat (u32_at 28 unread) > k_frame_payload
        then Step_Fail R_WireFrameOversized txt_declared_payload_length_exceeds_the
      else
        let n = k_wire_header_bytes + unat (u32_at 28 unread) + k_digest_bytes
        in if length unread < n then Step_More
           else let decoded = decode_frame (take n unread)
                in case r_value decoded of None \<Rightarrow> Step_Fail R_WireFrameBadIntegrity (r_detail decoded)
                   | Some f \<Rightarrow> Step_Frame f n)"

lemma next_frame_size: "next_frame unread = Step_Frame f n \<Longrightarrow> 0 < n \<and> n \<le> length unread"
  by (auto simp: next_frame_def Let_def k_wire_header_bytes_def k_digest_bytes_def split: if_splits option.splits)

function drain :: "frame_decoder \<Rightarrow> decoded_frame list \<Rightarrow> status \<times> frame_decoder \<times> decoded_frame list" where
  "drain d frames =
     (case next_frame (drop (fd_consumed d) (fd_buffer d)) of
        Step_More \<Rightarrow> (status_ok, d, frames)
      | Step_Fail code detail \<Rightarrow> (case decoder_fail code detail d of (st, d') \<Rightarrow> (st, d', frames))
      | Step_Frame f n \<Rightarrow> drain (d\<lparr>fd_consumed := fd_consumed d + n\<rparr>) (frames @ [f]))"
  by pat_completeness auto
termination
  by (relation "measure (\<lambda>(d, frames). length (fd_buffer d) - fd_consumed d)") (auto dest!: next_frame_size)

declare drain.simps [simp del]

definition feed :: "u8 list \<Rightarrow> frame_decoder \<Rightarrow> decoded_frame list \<Rightarrow> status \<times> frame_decoder \<times> decoded_frame list" where
  "feed bytes d frames =
     (if fd_failed d then (failure Oc_IntegrityFailure (fd_detail d), d, frames)
      else if fd_finished d
        then (case decoder_fail R_WireFrameTruncated ''bytes were fed after the stream was finished'' d of
                (st, d') \<Rightarrow> (st, d', frames))
      else drain (d\<lparr>fd_buffer := drop (fd_consumed d) (fd_buffer d) @ bytes, fd_consumed := 0\<rparr>) frames)"

definition finish_stream :: "frame_decoder \<Rightarrow> status \<times> frame_decoder" where
  "finish_stream d =
     (if fd_failed d then (failure Oc_IntegrityFailure (fd_detail d), d)
      else let d' = d\<lparr>fd_finished := True\<rparr>
           in if length (fd_buffer d') \<noteq> fd_consumed d'
              then decoder_fail R_WireFrameTruncated
                ''the stream ended inside a frame; a truncated frame is never accepted'' d'
              else (status_ok, d'))"

text \<open>A session reads chunk after chunk.\<close>

definition feed_all :: "u8 list list \<Rightarrow> frame_decoder \<times> decoded_frame list \<Rightarrow> frame_decoder \<times> decoded_frame list" where
  "feed_all chunks st = foldl (\<lambda>(d, frames) bytes. snd (feed bytes d frames)) st chunks"

section \<open>The frame codec\<close>

lemma unat_ucast_u8_u16: "unat (ucast (x :: u8) :: u16) = unat x"
  by transfer (simp add: take_bit_eq_mod)

lemma unat_message_type_raw: "unat (message_type_raw t) = unat (enum_raw values_message_type t)"
  by (simp add: message_type_raw_def unat_ucast_u8_u16)

lemma message_type_of_raw [simp]: "message_type_of (message_type_raw t) = t"
  by (simp add: message_type_of_def unat_message_type_raw message_type.nth_raw)

lemma is_valid_message_type_iff: "is_valid_message_type raw \<longleftrightarrow> unat raw < 26"
proof -
  have "unat (message_type_raw Msg_ContainAuthorize) = 25"
    using message_type.raw_nth[of 25] by (simp add: unat_message_type_raw values_message_type_def)
  then show ?thesis by (auto simp: is_valid_message_type_def word_le_nat_alt)
qed

lemma message_type_valid [simp]: "is_valid_message_type (message_type_raw t)"
  using message_type.raw_bound[of t] by (simp add: is_valid_message_type_iff unat_message_type_raw values_message_type_def)

lemma message_type_raw_of: "is_valid_message_type raw \<Longrightarrow> message_type_raw (message_type_of raw) = raw"
  using message_type.raw_nth[of "unat raw"]
  by (simp add: is_valid_message_type_iff message_type_of_def word_unat_eq_iff unat_message_type_raw values_message_type_def)

lemma length_header_bytes [simp]: "length (header_bytes h) = 32"
  by (simp add: header_bytes_def)

lemma header_fields [simp]:
  "u32_at 0 (header_bytes h @ r) = fh_magic h" "u16_at 4 (header_bytes h @ r) = fh_version h"
  "u16_at 6 (header_bytes h @ r) = message_type_raw (fh_type h)" "u32_at 8 (header_bytes h @ r) = fh_flags h"
  "u64_at 12 (header_bytes h @ r) = fh_session h" "u64_at 20 (header_bytes h @ r) = fh_sequence h"
  "u32_at 28 (header_bytes h @ r) = fh_payload_length h"
  by (simp_all add: u32_at_def u16_at_def u64_at_def header_bytes_def)

text \<open>The frames the protocol has, and their bytes.\<close>

definition frame_valid :: "decoded_frame \<Rightarrow> bool" where
  "frame_valid f \<longleftrightarrow> fh_magic (df_header f) = k_wire_magic \<and> fh_version (df_header f) = k_wire_version \<and>
     fh_flags (df_header f) = 0 \<and> fh_payload_length (df_header f) = word_of_nat (length (df_payload f)) \<and>
     length (df_payload f) \<le> k_frame_payload"

definition frame_bytes :: "decoded_frame \<Rightarrow> u8 list" where
  "frame_bytes f = header_bytes (df_header f) @ df_payload f @ sha256 (header_bytes (df_header f) @ df_payload f)"

lemma encode_frame_bytes:
  assumes "frame_valid f"
  shows "encode_frame (fh_type (df_header f)) (fh_session (df_header f)) (fh_sequence (df_header f)) (df_payload f) 0 =
    ok (frame_bytes f)"
proof (cases f)
  case (fields header payload)
  then show ?thesis
    using assms by (cases header) (simp add: encode_frame_def frame_bytes_def frame_valid_def Let_def)
qed

lemma payload_length_small:
  assumes "length p \<le> k_frame_payload"
  shows "unat (word_of_nat (length p) :: u32) = length p"
proof -
  have "length p < 2 ^ 32" using assms by (simp add: k_frame_payload_def)
  then show ?thesis by (simp add: unat_of_nat)
qed

lemma decode_frame_bytes:
  assumes "frame_valid f"
  shows "decode_frame (frame_bytes f) = ok f"
proof -
  note v = assms[unfolded frame_valid_def]
  have n: "unat (fh_payload_length (df_header f)) = length (df_payload f)"
    using v payload_length_small[of "df_payload f"] by simp
  have "\<lparr>df_header = \<lparr>fh_magic = k_wire_magic, fh_version = k_wire_version, fh_type = fh_type (df_header f), fh_flags = 0,
      fh_session = fh_session (df_header f), fh_sequence = fh_sequence (df_header f),
      fh_payload_length = fh_payload_length (df_header f)\<rparr>, df_payload = df_payload f\<rparr> = f"
    using v by (cases f; cases "df_header f") simp
  then show ?thesis
    using v unfolding decode_frame_def frame_bytes_def
    by (simp add: n payload_length_small k_wire_header_bytes_def k_digest_bytes_def Let_def)
qed

lemma u_at_bytes:
  "off + 4 \<le> length bytes \<Longrightarrow> le32 (u32_at off bytes) = take 4 (drop off bytes)"
  "off + 2 \<le> length bytes \<Longrightarrow> le16 (u16_at off bytes) = take 2 (drop off bytes)"
  "off + 8 \<le> length bytes \<Longrightarrow> le64 (u64_at off bytes) = take 8 (drop off bytes)"
  by (simp_all add: u32_at_def u16_at_def u64_at_def le_of_value le16_of_value)

lemma take_split: "take (m + n) xs = take m xs @ take n (drop m xs)"
  by (rule take_add)

lemma header_split:
  fixes bytes :: "u8 list"
  shows "take 32 bytes = take 4 bytes @ take 2 (drop 4 bytes) @ take 2 (drop 6 bytes) @ take 4 (drop 8 bytes) @
     take 8 (drop 12 bytes) @ take 8 (drop 20 bytes) @ take 4 (drop 28 bytes)"
  using take_add[of 28 4 bytes] take_add[of 20 8 bytes] take_add[of 12 8 bytes] take_add[of 8 4 bytes]
    take_add[of 6 2 bytes] take_add[of 4 2 bytes] by simp

lemma decode_frame_okD:
  assumes "decode_frame bytes = ok f"
  shows "frame_valid f \<and> bytes = frame_bytes f"
proof -
  let ?n = "unat (u32_at 28 bytes)"
  have len: "length bytes = 32 + ?n + 32" and n: "?n \<le> k_frame_payload"
    and magic: "u32_at 0 bytes = k_wire_magic" "u16_at 4 bytes = k_wire_version" "u32_at 8 bytes = 0"
    and type: "is_valid_message_type (u16_at 6 bytes)"
    and digest: "sha256 (take (32 + ?n) bytes) = take 32 (drop (32 + ?n) bytes)"
    and f: "f = \<lparr>df_header = \<lparr>fh_magic = k_wire_magic, fh_version = k_wire_version,
        fh_type = message_type_of (u16_at 6 bytes), fh_flags = 0, fh_session = u64_at 12 bytes,
        fh_sequence = u64_at 20 bytes, fh_payload_length = u32_at 28 bytes\<rparr>, df_payload = take ?n (drop 32 bytes)\<rparr>"
    using assms by (auto simp: decode_frame_def Let_def k_wire_header_bytes_def k_digest_bytes_def not_less
        split: if_splits)
  have payload: "length (take ?n (drop 32 bytes)) = ?n" using len by simp
  then have valid: "frame_valid f"
    using n by (simp add: f frame_valid_def word_unat_eq_iff payload_length_small)
  have "header_bytes (df_header f) = le32 (u32_at 0 bytes) @ le16 (u16_at 4 bytes) @ le16 (u16_at 6 bytes) @
      le32 (u32_at 8 bytes) @ le64 (u64_at 12 bytes) @ le64 (u64_at 20 bytes) @ le32 (u32_at 28 bytes)"
    by (simp add: f header_bytes_def magic message_type_raw_of[OF type])
  then have header: "header_bytes (df_header f) = take 32 bytes"
    using len by (simp add: u_at_bytes header_split)
  have body: "take 32 bytes @ take ?n (drop 32 bytes) = take (32 + ?n) bytes" by (simp add: take_add)
  have "frame_bytes f = take (32 + ?n) bytes @ take 32 (drop (32 + ?n) bytes)"
    unfolding frame_bytes_def header using f body digest by (metis append_assoc decoded_frame.select_convs(2))
  also have "\<dots> = bytes" using len by simp
  finally show ?thesis using valid by simp
qed

theorem decode_frame_iff: "decode_frame bytes = ok f \<longleftrightarrow> frame_valid f \<and> bytes = frame_bytes f"
  using decode_frame_okD decode_frame_bytes by blast

interpretation frame_payload: payload_codec frame_bytes decode_frame frame_valid
  by unfold_locales (rule decode_frame_bytes)

section \<open>The reference parser of a stream\<close>

function frames_of :: "u8 list \<Rightarrow> decoded_frame list \<times> u8 list \<times> (reason_code \<times> string) option" where
  "frames_of bytes =
     (case next_frame bytes of
        Step_More \<Rightarrow> ([], bytes, None)
      | Step_Fail code detail \<Rightarrow> ([], bytes, Some (code, detail))
      | Step_Frame f n \<Rightarrow> (case frames_of (drop n bytes) of (fs, rest, e) \<Rightarrow> (f # fs, rest, e)))"
  by pat_completeness auto
termination
  by (relation "measure length") (auto dest!: next_frame_size)

declare frames_of.simps [simp del]

lemma at_append [simp]:
  "off + 4 \<le> length a \<Longrightarrow> u32_at off (a @ b) = u32_at off a" "off + 2 \<le> length a \<Longrightarrow> u16_at off (a @ b) = u16_at off a"
  by (simp_all add: u32_at_def u16_at_def)

lemma next_frame_append:
  assumes "next_frame a \<noteq> Step_More"
  shows "next_frame (a @ b) = next_frame a"
proof -
  have len: "32 \<le> length a"
  proof (rule ccontr)
    assume "\<not> 32 \<le> length a"
    then have "next_frame a = Step_More" by (simp add: next_frame_def k_wire_header_bytes_def)
    with assms show False by simp
  qed
  show ?thesis
  proof (cases "length a < 32 + unat (u32_at 28 a) + k_digest_bytes")
    case True
    have "\<not> (u32_at 0 a = k_wire_magic \<and> u16_at 4 a = k_wire_version \<and> is_valid_message_type (u16_at 6 a) \<and>
        u32_at 8 a = 0 \<and> unat (u32_at 28 a) \<le> k_frame_payload)"
    proof
      assume "u32_at 0 a = k_wire_magic \<and> u16_at 4 a = k_wire_version \<and> is_valid_message_type (u16_at 6 a) \<and>
        u32_at 8 a = 0 \<and> unat (u32_at 28 a) \<le> k_frame_payload"
      then have "next_frame a = Step_More" using True by (simp add: next_frame_def k_wire_header_bytes_def Let_def)
      with assms show False by simp
    qed
    then show ?thesis using len by (auto simp: next_frame_def k_wire_header_bytes_def)
  next
    case False
    then show ?thesis using len by (simp add: next_frame_def k_wire_header_bytes_def Let_def)
  qed
qed

theorem frames_of_append:
  "frames_of (a @ b) = (case frames_of a of (fs, rest, e) \<Rightarrow>
     (case e of None \<Rightarrow> (case frames_of (rest @ b) of (gs, r, e') \<Rightarrow> (fs @ gs, r, e'))
      | Some x \<Rightarrow> (fs, rest @ b, Some x)))"
proof (induction a rule: frames_of.induct)
  case (1 a)
  show ?case
  proof (cases "next_frame a")
    case Step_More
    then show ?thesis by (subst (2) frames_of.simps) (simp split: prod.splits)
  next
    case (Step_Fail code detail)
    then have "next_frame (a @ b) = Step_Fail code detail" using next_frame_append[of a b] by simp
    then show ?thesis using Step_Fail by (simp add: frames_of.simps[of a] frames_of.simps[of "a @ b"])
  next
    case (Step_Frame f n)
    then have "next_frame (a @ b) = Step_Frame f n" using next_frame_append[of a b] by simp
    moreover have "n \<le> length a" using next_frame_size[OF Step_Frame] by simp
    ultimately show ?thesis
      using 1[OF Step_Frame] Step_Frame
      by (simp add: frames_of.simps[of a] frames_of.simps[of "a @ b"] split: prod.splits option.splits)
  qed
qed

section \<open>The decoder computes the reference parser\<close>

definition decoder_reads :: "frame_decoder \<Rightarrow> decoded_frame list \<Rightarrow> u8 list \<Rightarrow> bool" where
  "decoder_reads d frames bytes \<longleftrightarrow> \<not> fd_finished d \<and> (case frames_of bytes of (fs, rest, e) \<Rightarrow> frames = fs \<and>
     (case e of None \<Rightarrow> \<not> fd_failed d \<and> fd_consumed d \<le> length (fd_buffer d) \<and> drop (fd_consumed d) (fd_buffer d) = rest
      | Some (code, detail) \<Rightarrow> fd_failed d \<and> fd_reason d = code \<and> fd_detail d = detail))"

lemma drain_frames:
  assumes "\<not> fd_failed d" "fd_consumed d \<le> length (fd_buffer d)"
    and "frames_of (drop (fd_consumed d) (fd_buffer d)) = (fs, rest, e)"
  shows "\<exists>st d'. drain d frames = (st, d', frames @ fs) \<and> fd_finished d' = fd_finished d \<and>
     (case e of None \<Rightarrow> is_ok st \<and> \<not> fd_failed d' \<and> fd_consumed d' \<le> length (fd_buffer d') \<and>
        drop (fd_consumed d') (fd_buffer d') = rest
      | Some (code, detail) \<Rightarrow> \<not> is_ok st \<and> fd_failed d' \<and> fd_reason d' = code \<and> fd_detail d' = detail)"
  using assms
proof (induction d frames arbitrary: fs rule: drain.induct)
  case (1 d frames)
  let ?u = "drop (fd_consumed d) (fd_buffer d)"
  show ?case
  proof (cases "next_frame ?u")
    case Step_More
    then show ?thesis using 1 by (simp add: drain.simps[of d] frames_of.simps[of ?u])
  next
    case (Step_Fail code detail)
    then show ?thesis
      using 1 by (auto simp: drain.simps[of d] frames_of.simps[of ?u] decoder_fail_def Let_def)
  next
    case (Step_Frame f n)
    let ?d = "d\<lparr>fd_consumed := fd_consumed d + n\<rparr>"
    obtain gs where gs: "frames_of (drop n ?u) = (gs, rest, e)" "fs = f # gs"
      using "1.prems"(3) Step_Frame by (auto simp: frames_of.simps[of ?u] split: prod.splits)
    have "n \<le> length ?u" using next_frame_size[OF Step_Frame] by simp
    then have "fd_consumed ?d \<le> length (fd_buffer ?d)" using "1.prems"(2) by simp
    from "1.IH"[OF Step_Frame, of gs] this gs "1.prems"(1)
    show ?thesis using Step_Frame by (simp add: drain.simps[of d] add.commute)
  qed
qed

lemma decoder_reads_new: "decoder_reads new_frame_decoder [] []"
  by (simp add: decoder_reads_def new_frame_decoder_def frames_of.simps next_frame_def k_wire_header_bytes_def)

lemma feed_reads:
  assumes "decoder_reads d frames bytes"
  shows "case feed chunk d frames of (st, d', frames') \<Rightarrow> decoder_reads d' frames' (bytes @ chunk) \<and>
     (is_ok st \<longleftrightarrow> \<not> fd_failed d')"
proof -
  obtain fs rest e where parse: "frames_of bytes = (fs, rest, e)" by (metis prod_cases3)
  have nf: "\<not> fd_finished d" and fs: "frames = fs" using assms parse by (auto simp: decoder_reads_def)
  show ?thesis
  proof (cases e)
    case None
    then have d: "\<not> fd_failed d" "drop (fd_consumed d) (fd_buffer d) = rest"
      using assms parse by (auto simp: decoder_reads_def)
    let ?d = "d\<lparr>fd_buffer := rest @ chunk, fd_consumed := 0\<rparr>"
    obtain gs r e' where tl: "frames_of (rest @ chunk) = (gs, r, e')" by (metis prod_cases3)
    have "frames_of (drop (fd_consumed ?d) (fd_buffer ?d)) = (gs, r, e')" using tl by simp
    from drain_frames[OF _ _ this, of frames] d(1) obtain st d' where
      "drain ?d frames = (st, d', frames @ gs)" "fd_finished d' = fd_finished d"
      "case e' of None \<Rightarrow> is_ok st \<and> \<not> fd_failed d' \<and> fd_consumed d' \<le> length (fd_buffer d') \<and>
         drop (fd_consumed d') (fd_buffer d') = r
       | Some (code, detail) \<Rightarrow> \<not> is_ok st \<and> fd_failed d' \<and> fd_reason d' = code \<and> fd_detail d' = detail"
      by auto
    then show ?thesis
      using d nf fs by (auto simp: feed_def decoder_reads_def frames_of_append[of bytes] parse None tl
          split: option.splits)
  next
    case (Some x)
    then show ?thesis
      using assms parse nf fs by (auto simp: decoder_reads_def feed_def frames_of_append[of bytes])
  qed
qed

theorem feed_all_reads:
  "decoder_reads d frames bytes \<Longrightarrow>
    decoder_reads (fst (feed_all chunks (d, frames))) (snd (feed_all chunks (d, frames))) (bytes @ concat chunks)"
proof (induction chunks arbitrary: d frames bytes)
  case (Cons c chunks)
  obtain st d' frames' where "feed c d frames = (st, d', frames')" by (metis prod_cases3)
  with feed_reads[OF Cons.prems, of c] Cons.IH[of d' frames' "bytes @ c"]
  show ?case by (simp add: feed_all_def)
qed (simp add: feed_all_def)

section \<open>Streams of frames\<close>

lemma next_frame_bytes:
  assumes "frame_valid f"
  shows "next_frame (frame_bytes f @ rest) = Step_Frame f (length (frame_bytes f))"
proof -
  note v = assms[unfolded frame_valid_def]
  have n: "unat (fh_payload_length (df_header f)) = length (df_payload f)"
    using v payload_length_small[of "df_payload f"] by simp
  have len: "length (frame_bytes f) = 32 + length (df_payload f) + 32" by (simp add: frame_bytes_def)
  have at: "u32_at 0 (frame_bytes f @ rest) = k_wire_magic" "u16_at 4 (frame_bytes f @ rest) = k_wire_version"
      "u16_at 6 (frame_bytes f @ rest) = message_type_raw (fh_type (df_header f))" "u32_at 8 (frame_bytes f @ rest) = 0"
      "u32_at 28 (frame_bytes f @ rest) = fh_payload_length (df_header f)"
    using v by (simp_all add: frame_bytes_def)
  show ?thesis
    using v by (simp add: next_frame_def at n payload_length_small len k_wire_header_bytes_def k_digest_bytes_def Let_def
        decode_frame_bytes[OF assms])
qed

lemma frames_of_frames:
  assumes "\<forall>f \<in> set fs. frame_valid f" "frames_of rest = (gs, r, e)"
  shows "frames_of (concat (map frame_bytes fs) @ rest) = (fs @ gs, r, e)"
  using assms(1)
proof (induction fs)
  case (Cons f fs)
  then show ?case
    using assms(2) by (simp add: frames_of.simps[of "frame_bytes f @ _"] next_frame_bytes)
qed (simp add: assms(2))

text \<open>A strict prefix of a frame is neither a frame nor a failure: the decoder waits.\<close>

lemma next_frame_prefix:
  assumes "frame_valid f" "frame_bytes f = p @ q" "q \<noteq> []"
  shows "next_frame p = Step_More"
proof (rule ccontr)
  assume stop: "next_frame p \<noteq> Step_More"
  then have "next_frame p = Step_Frame f (length (frame_bytes f))"
    using next_frame_append[OF stop, of q] next_frame_bytes[OF assms(1), of "[]"] assms(2) by simp
  then have "length (frame_bytes f) \<le> length p" using next_frame_size by blast
  then show False using assms(2,3) by simp
qed

end
