(* ===== verification/Authority.thy ===== *)
theory Authority
  imports Core
begin

text \<open>
  Containment authority: include/loop_guard/authority.hpp and src/authority.cpp. A grant authorises a
  bounded target set under one fence; an application records what was acknowledged and what was
  independently observed; a lineage record is one line of the durable authority history.

  The lemmas: a request is authorised exactly when every bound of the grant holds
  (\<open>authorize_ok_iff\<close>), so authority only narrows (\<open>authorize_subset\<close>), and an authorised request
  finds the grant active; an application is fully verified exactly when every target has an observed
  effect, whatever was acknowledged (\<open>fully_verified_sorted_iff\<close>).
\<close>

section \<open>Grants\<close>

record containment_grant =
  cg_id :: u64
  cg_policy_generation :: u64
  cg_fence :: fence_vector
  cg_scope :: "u64 list"
  cg_max_targets :: u32
  cg_max_total_cost :: u64
  cg_issued_at :: u64
  cg_expires_at :: u64
  cg_issued_by :: u64
  cg_state :: grant_state

definition grant_digest :: "containment_grant \<Rightarrow> digest" where
  "grant_digest g = sha256 (le64 (cg_id g) @ le64 (cg_policy_generation g) @ fence_bytes (cg_fence g) @
     concat (map le64 (cg_scope g)) @ [0xF7] @ le64 (ucast (cg_max_targets g)) @ le64 (cg_max_total_cost g) @
     le64 (cg_issued_at g) @ le64 (cg_expires_at g) @ le64 (cg_issued_by g) @
     [enum_raw values_grant_state (cg_state g)])"

definition grant_fence_cause :: "containment_grant \<Rightarrow> fence_vector \<Rightarrow> fence_cause" where
  "grant_fence_cause g current = fence_cause (cg_fence g) current"

definition grant_is_active :: "containment_grant \<Rightarrow> fence_vector \<Rightarrow> u64 \<Rightarrow> bool" where
  "grant_is_active g current now =
     (if cg_state g \<noteq> Grant_Active then False
      else if cg_fence g \<noteq> current then False
      else now \<le> cg_expires_at g)"

definition txt_grant_is_not_active :: string where
  "txt_grant_is_not_active = ''grant is not active: ''"

definition txt_grant_is_fenced_by :: string where
  "txt_grant_is_fenced_by = ''grant is fenced by ''"

definition txt_grant_has_expired :: string where
  "txt_grant_has_expired = ''grant has expired''"

definition txt_a_grant_cannot_authorize_an_empty :: string where
  "txt_a_grant_cannot_authorize_an_empty = ''a grant cannot authorize an empty target set''"

definition txt_target_count_exceeds :: string where
  "txt_target_count_exceeds = ''target count exceeds the grant'' @ [CHR 0x27] @ ''s budget''"

definition txt_target_cost_exceeds :: string where
  "txt_target_cost_exceeds = ''target cost exceeds the grant'' @ [CHR 0x27] @ ''s budget''"

definition txt_is_outside_the_grants_scope :: string where
  "txt_is_outside_the_grants_scope = '' is outside the grant'' @ [CHR 0x27] @ ''s scope''"

definition authorize :: "containment_grant \<Rightarrow> u64 list \<Rightarrow> u64 \<Rightarrow> fence_vector \<Rightarrow> u64 \<Rightarrow> status" where
  "authorize g targets total_cost current now =
     (if cg_state g \<noteq> Grant_Active
        then failure Oc_Refused (txt_grant_is_not_active @ name_grant_state (cg_state g))
      else if fence_cause (cg_fence g) current \<noteq> Cause_None
        then failure Oc_Fenced (txt_grant_is_fenced_by @ name_fence_cause (fence_cause (cg_fence g) current))
      else if now > cg_expires_at g then failure Oc_Stale txt_grant_has_expired
      else if targets = [] then failure Oc_Refused txt_a_grant_cannot_authorize_an_empty
      else if length targets > unat (cg_max_targets g) then failure Oc_Refused txt_target_count_exceeds
      else if total_cost > cg_max_total_cost g then failure Oc_Refused txt_target_cost_exceeds
      else case find (\<lambda>target. \<not> binary_search (cg_scope g) target) targets of
             Some target \<Rightarrow> failure Oc_Refused (''target '' @ id_to_string target @ txt_is_outside_the_grants_scope)
           | None \<Rightarrow> status_ok)"

section \<open>Applications\<close>

record containment_acknowledgement =
  ca_intent :: u64
  ca_session :: u64
  ca_applier :: process_identity
  ca_sequence :: u64
  ca_acknowledged_at :: u64
  ca_intent_digest :: digest

record verified_effect =
  ve_target :: u64
  ve_observation :: u64
  ve_fence :: fence_vector
  ve_verified_at :: u64
  ve_origin :: evidence_origin

record containment_application =
  ap_intent :: u64
  ap_plan :: u64
  ap_finding :: u64
  ap_fence :: fence_vector
  ap_applier :: process_identity
  ap_targets :: "u64 list"
  ap_acknowledgements :: "containment_acknowledgement list"
  ap_effects :: "verified_effect list"
  ap_explanation :: explanation

definition has_acknowledgement :: "containment_application \<Rightarrow> bool" where
  "has_acknowledgement a \<longleftrightarrow> ap_acknowledgements a \<noteq> []"

definition verified_targets :: "containment_application \<Rightarrow> u64 list" where
  "verified_targets a = sort_unique (map ve_target (filter (\<lambda>e. \<not> (ap_targets a \<noteq> [] \<and>
     \<not> binary_search (ap_targets a) (ve_target e))) (ap_effects a)))"

definition unverified_targets :: "containment_application \<Rightarrow> u64 list" where
  "unverified_targets a = filter (\<lambda>t. \<not> binary_search (verified_targets a) t) (ap_targets a)"

definition fully_verified :: "containment_application \<Rightarrow> bool" where
  "fully_verified a = (if ap_targets a = [] then False else unverified_targets a = [])"

definition hash_identity :: "process_identity \<Rightarrow> u8 list" where
  "hash_identity p = le64 (pi_producer p) @ le64 (pi_boot p) @ le64 (pi_incarnation p) @ le64 (pi_epoch p)"

definition application_digest :: "containment_application \<Rightarrow> digest" where
  "application_digest a = sha256 (le64 (ap_intent a) @ le64 (ap_plan a) @ le64 (ap_finding a) @
     fence_bytes (ap_fence a) @ hash_identity (ap_applier a) @
     concat (map (\<lambda>k. le64 (ca_intent k) @ le64 (ca_session k) @ hash_identity (ca_applier k) @
       le64 (ca_sequence k) @ le64 (ca_acknowledged_at k) @ ca_intent_digest k) (ap_acknowledgements a)) @ [0xF6] @
     concat (map (\<lambda>e. le64 (ve_target e) @ le64 (ve_observation e) @ fence_bytes (ve_fence e) @
       le64 (ve_verified_at e) @ [enum_raw values_evidence_origin (ve_origin e)]) (ap_effects a)) @ [0xF6])"

section \<open>Lineage\<close>

record lineage_record =
  lr_id :: u64
  lr_sequence :: u64
  lr_recorded_at :: u64
  lr_kind :: authority_kind
  lr_finding :: u64
  lr_plan :: u64
  lr_intent :: u64
  lr_fence :: fence_vector
  lr_subject_digest :: digest
  lr_reason :: reason_code
  lr_severity :: severity

definition lineage_digest :: "lineage_record \<Rightarrow> digest" where
  "lineage_digest r = sha256 (le64 (lr_id r) @ le64 (lr_sequence r) @ le64 (lr_recorded_at r) @
     [enum_raw values_authority_kind (lr_kind r)] @ le64 (lr_finding r) @ le64 (lr_plan r) @ le64 (lr_intent r) @
     fence_bytes (lr_fence r) @ lr_subject_digest r @ [enum_raw values_reason_code (lr_reason r)] @
     [enum_raw values_severity (lr_severity r)])"

definition lineage_to_text :: "lineage_record \<Rightarrow> string" where
  "lineage_to_text r = ''lineage #'' @ id_to_string (lr_sequence r) @ '' '' @ name_authority_kind (lr_kind r) @
     '' finding='' @ id_to_string (lr_finding r) @ '' plan='' @ id_to_string (lr_plan r) @
     '' intent='' @ id_to_string (lr_intent r) @ '' fence='' @ fence_to_string (lr_fence r) @
     '' reason='' @ name_reason_code (lr_reason r) @ '' severity='' @ name_severity (lr_severity r)"

section \<open>What a grant allows\<close>

text \<open>A target is in scope when the search of the scope finds it; a scope is kept sorted.\<close>

lemma authorize_ok_iff:
  "authorize g targets cost current now = status_ok \<longleftrightarrow>
     grant_is_active g current now \<and> targets \<noteq> [] \<and> length targets \<le> unat (cg_max_targets g) \<and>
     cost \<le> cg_max_total_cost g \<and> (\<forall>t \<in> set targets. binary_search (cg_scope g) t)"
  by (auto simp: authorize_def grant_is_active_def not_less find_None_iff find_Some_iff split: option.splits)

lemma authorize_scope:
  assumes "sorted (cg_scope g)" "authorize g targets cost current now = status_ok"
  shows "set targets \<subseteq> set (cg_scope g)"
  using assms by (auto simp: authorize_ok_iff)

lemma authorize_subset:
  assumes "authorize g targets cost current now = status_ok"
    and "targets' \<noteq> []" "set targets' \<subseteq> set targets" "length targets' \<le> length targets" "cost' \<le> cost"
  shows "authorize g targets' cost' current now = status_ok"
  using assms unfolding authorize_ok_iff by (auto intro: order_trans)

lemma authorize_is_ok: "is_ok (authorize g targets cost current now) \<longleftrightarrow> authorize g targets cost current now = status_ok"
  by (auto simp: authorize_def split: option.splits)

section \<open>What an application proves\<close>

lemma set_verified_targets:
  "sorted (ap_targets a) \<Longrightarrow> set (verified_targets a) =
     {ve_target e | e. e \<in> set (ap_effects a) \<and> (ap_targets a = [] \<or> ve_target e \<in> set (ap_targets a))}"
  by (auto simp: verified_targets_def)

lemma set_unverified_targets:
  assumes "sorted (ap_targets a)"
  shows "set (unverified_targets a) = {t \<in> set (ap_targets a). \<forall>e \<in> set (ap_effects a). ve_target e \<noteq> t}"
proof -
  have "sorted (verified_targets a)"
    using sort_unique_strict by (auto simp: verified_targets_def strict_sorted_iff)
  then have "set (unverified_targets a) = {t \<in> set (ap_targets a). t \<notin> set (verified_targets a)}"
    by (simp add: unverified_targets_def)
  then show ?thesis using set_verified_targets[OF assms] by auto
qed

lemma fully_verified_sorted_iff:
  assumes "sorted (ap_targets a)"
  shows "fully_verified a \<longleftrightarrow> ap_targets a \<noteq> [] \<and> (\<forall>t \<in> set (ap_targets a). \<exists>e \<in> set (ap_effects a). ve_target e = t)"
proof -
  have "unverified_targets a = [] \<longleftrightarrow> set (unverified_targets a) = {}" by simp
  then show ?thesis unfolding fully_verified_def set_unverified_targets[OF assms] by auto
qed

lemma acknowledgements_irrelevant [simp]: "fully_verified (a\<lparr>ap_acknowledgements := ks\<rparr>) = fully_verified a"
  by (simp add: fully_verified_def unverified_targets_def verified_targets_def)

end
