(* ===== verification/Finding.thy ===== *)
theory Finding
  imports Evidence
begin

text \<open>
  Findings: include/loop_guard/finding.hpp and src/finding.cpp. A finding is a proven assessment made
  durable; the registry keeps a bounded number of them in the order of their identities.

  The lemmas: every operation keeps the registry in strict identity order and within its bound
  (\<open>registry_ok\<close>, an invariant of the machine of registry operations); a live finding is never evicted
  (\<open>register_keeps_live\<close>) and registration fails only when every retained finding is live; after
  fencing, every live finding is bound to the current fence.
\<close>

section \<open>Texts\<close>

definition txt_finding_identity_must_be_nonzero :: string where
  "txt_finding_identity_must_be_nonzero = ''finding identity must be non-zero''"

definition txt_finding_must_bind_a_complete :: string where
  "txt_finding_must_bind_a_complete = ''finding must bind a complete fence vector''"

definition txt_finding_identity_is_already_present :: string where
  "txt_finding_identity_is_already_present = ''finding identity is already present''"

definition txt_finding_registry_is_full_of :: string where
  "txt_finding_registry_is_full_of = ''finding registry is full of live findings; refusing to evict authority''"

definition txt_a_terminal_finding_cannot_be :: string where
  "txt_a_terminal_finding_cannot_be = ''a terminal finding cannot be moved to ''"

definition txt_finding_is_not_registered :: string where
  "txt_finding_is_not_registered = ''finding is not registered''"

definition txt_fenced_by :: string where
  "txt_fenced_by = ''fenced by ''"

definition txt_the_process_that_produced_this :: string where
  "txt_the_process_that_produced_this = ''the process that produced this finding no longer exists''"

definition txt_finding_was_produced_under_a :: string where
  "txt_finding_was_produced_under_a = ''finding was produced under a different boot or coordinator epoch''"

section \<open>Findings\<close>

record finding =
  fi_id :: u64
  fi_generation :: u64
  fi_assessment :: u64
  fi_assessment_digest :: digest
  fi_fence :: fence_vector
  fi_state :: finding_state
  fi_cause :: fence_cause
  fi_outcome :: loop_outcome
  fi_flags :: u32
  fi_witnesses :: "u64 list"
  fi_resources :: "u64 list"
  fi_selectors :: "u64 list"
  fi_plan :: u64
  fi_intent :: u64
  fi_created_at :: u64
  fi_updated_at :: u64
  fi_origin :: evidence_origin
  fi_explanation :: explanation

definition state_is_terminal :: "finding_state \<Rightarrow> bool" where
  "state_is_terminal s \<longleftrightarrow> s \<in> set [Fs_Withdrawn, Fs_Stale, Fs_Fenced, Fs_Rejected]"

definition is_terminal :: "finding \<Rightarrow> bool" where
  "is_terminal f \<longleftrightarrow> state_is_terminal (fi_state f)"

definition is_current :: "finding \<Rightarrow> fence_vector \<Rightarrow> bool" where
  "is_current f current \<longleftrightarrow> fi_fence f = current \<and> fi_state f \<noteq> Fs_Fenced \<and> fi_state f \<noteq> Fs_Stale"

definition permits_action :: "finding \<Rightarrow> bool" where
  "permits_action f \<longleftrightarrow> fi_state f = Fs_ContainmentAuthorized \<or> fi_state f = Fs_ContainmentRequested"

definition finding_digest :: "finding \<Rightarrow> digest" where
  "finding_digest f = sha256 (le64 (fi_id f) @ le64 (fi_generation f) @ le64 (fi_assessment f) @
     fi_assessment_digest f @ fence_bytes (fi_fence f) @ [enum_raw values_finding_state (fi_state f)] @
     [enum_raw values_fence_cause (fi_cause f)] @ [enum_raw values_loop_outcome (fi_outcome f)] @
     le64 (ucast (fi_flags f)) @ concat (map le64 (fi_witnesses f)) @ [0xF5] @ concat (map le64 (fi_resources f)) @
     [0xF5] @ concat (map le64 (fi_selectors f)) @ [0xF5] @ le64 (fi_plan f) @ le64 (fi_intent f) @
     le64 (fi_created_at f) @ le64 (fi_updated_at f) @ [enum_raw values_evidence_origin (fi_origin f)])"

definition finding_to_text :: "finding \<Rightarrow> string" where
  "finding_to_text f = ''finding '' @ id_to_string (fi_id f) @ '' state='' @ name_finding_state (fi_state f) @
     '' cause='' @ name_fence_cause (fi_cause f) @ '' outcome='' @ name_loop_outcome (fi_outcome f) @
     '' flags='' @ assessment_flags_to_string (fi_flags f) @ '' witnesses='' @ dec_digits (length (fi_witnesses f)) @
     '' resources='' @ dec_digits (length (fi_resources f)) @ '' selectors='' @ dec_digits (length (fi_selectors f)) @
     '' fence='' @ fence_to_string (fi_fence f)"

section \<open>The registry\<close>

record finding_registry =
  fr_limits :: limits
  fr_findings :: "finding list"

definition new_registry :: "limits \<Rightarrow> finding_registry" where
  "new_registry l = \<lparr>fr_limits = l, fr_findings = []\<rparr>"

text \<open>The scan for the oldest terminal finding; the length of the vector stands for none.\<close>

definition eviction_victim :: "finding list \<Rightarrow> nat" where
  "eviction_victim fs = foldl (\<lambda>victim i.
     if \<not> is_terminal (fs ! i) then victim
     else if victim = length fs \<or> fi_updated_at (fs ! i) < fi_updated_at (fs ! victim) \<or>
             (fi_updated_at (fs ! i) = fi_updated_at (fs ! victim) \<and> fi_id (fs ! i) < fi_id (fs ! victim))
          then i
     else victim) (length fs) [0..<length fs]"

definition make_room :: "finding_registry \<Rightarrow> finding list" where
  "make_room r =
     (let fs = fr_findings r
      in if length fs \<ge> unat (max_retained_findings (fr_limits r)) then erase_at (eviction_victim fs) fs else fs)"

definition register_finding :: "finding \<Rightarrow> finding_registry \<Rightarrow> u64 result \<times> finding_registry" where
  "register_finding f r =
     (let fs = fr_findings r in
      if \<not> id_valid (fi_id f) then (failure Oc_Invalid txt_finding_identity_must_be_nonzero, r)
      else if \<not> (\<not> fence_is_zero (fi_fence f) \<and> id_valid (fv_boot (fi_fence f)))
        then (failure Oc_Invalid txt_finding_must_bind_a_complete, r)
      else if list_ex (\<lambda>existing. fi_id existing = fi_id f) fs
        then (failure Oc_AlreadyExists txt_finding_identity_is_already_present, r)
      else if length fs \<ge> unat (max_retained_findings (fr_limits r)) \<and> eviction_victim fs = length fs
        then (failure Oc_Exhausted txt_finding_registry_is_full_of, r)
      else (ok (fi_id f), r\<lparr>fr_findings := insert_sorted fi_id f (make_room r)\<rparr>))"

text \<open>The loops that change the first finding with an identity and return.\<close>

primrec update_first :: "('a \<Rightarrow> bool) \<Rightarrow> ('a \<Rightarrow> 'a) \<Rightarrow> 'a list \<Rightarrow> 'a list" where
  "update_first P g [] = []"
| "update_first P g (x # xs) = (if P x then g x # xs else x # update_first P g xs)"

definition find_finding :: "finding_registry \<Rightarrow> u64 \<Rightarrow> finding option" where
  "find_finding r k = find (\<lambda>f. fi_id f = k) (fr_findings r)"

definition modify_finding :: "u64 \<Rightarrow> (finding \<Rightarrow> finding) \<Rightarrow> finding_registry \<Rightarrow> finding_registry" where
  "modify_finding k g r = r\<lparr>fr_findings := update_first (\<lambda>f. fi_id f = k) g (fr_findings r)\<rparr>"

definition update_state :: "u64 \<Rightarrow> finding_state \<Rightarrow> fence_cause \<Rightarrow> u64 \<Rightarrow> reason_code \<Rightarrow> string \<Rightarrow>
    finding_registry \<Rightarrow> status \<times> finding_registry" where
  "update_state k state cause now code detail r =
     (case find_finding r k of
        None \<Rightarrow> (failure Oc_NotFound txt_finding_is_not_registered, r)
      | Some f \<Rightarrow>
          if is_terminal f \<and> state \<noteq> Fs_Withdrawn
            then (failure Oc_Refused (txt_a_terminal_finding_cannot_be @ name_finding_state state), r)
          else (status_ok, modify_finding k (\<lambda>f. f\<lparr>fi_state := state,
                  fi_cause := (if cause \<noteq> Cause_None then cause else fi_cause f), fi_updated_at := now,
                  fi_explanation := ex_add code (id_to_string k) detail (fi_explanation f)\<rparr>) r))"

definition attach_plan :: "u64 \<Rightarrow> u64 \<Rightarrow> u64 \<Rightarrow> finding_registry \<Rightarrow> status \<times> finding_registry" where
  "attach_plan k plan now r =
     (if find_finding r k = None then (failure Oc_NotFound txt_finding_is_not_registered, r)
      else (status_ok, modify_finding k (\<lambda>f. f\<lparr>fi_plan := plan, fi_updated_at := now\<rparr>) r))"

definition attach_intent :: "u64 \<Rightarrow> u64 \<Rightarrow> u64 \<Rightarrow> finding_registry \<Rightarrow> status \<times> finding_registry" where
  "attach_intent k intent now r =
     (if find_finding r k = None then (failure Oc_NotFound txt_finding_is_not_registered, r)
      else (status_ok, modify_finding k (\<lambda>f. f\<lparr>fi_intent := intent, fi_updated_at := now\<rparr>) r))"

definition count_findings :: "finding_registry \<Rightarrow> finding_state \<Rightarrow> nat" where
  "count_findings r state = length (filter (\<lambda>f. fi_state f = state) (fr_findings r))"

definition live_count :: "finding_registry \<Rightarrow> nat" where
  "live_count r = length (filter (\<lambda>f. \<not> is_terminal f) (fr_findings r))"

text \<open>The three fencing loops: change every finding the guard lets through and collect its identity.\<close>

definition fence_where :: "(finding \<Rightarrow> bool) \<Rightarrow> (finding \<Rightarrow> finding) \<Rightarrow> finding_registry \<Rightarrow> u64 list \<times> finding_registry" where
  "fence_where P g r = (sort (map fi_id (filter P (fr_findings r))),
     r\<lparr>fr_findings := map (\<lambda>f. if P f then g f else f) (fr_findings r)\<rparr>)"

definition fence_stale :: "fence_vector \<Rightarrow> u64 \<Rightarrow> finding_registry \<Rightarrow> u64 list \<times> finding_registry" where
  "fence_stale current now = fence_where
     (\<lambda>f. \<not> is_terminal f \<and> fence_cause (fi_fence f) current \<noteq> Cause_None)
     (\<lambda>f. f\<lparr>fi_state := Fs_Stale, fi_cause := fence_cause (fi_fence f) current, fi_updated_at := now,
        fi_explanation := ex_add R_FindingFencedByGenerationChange (id_to_string (fi_id f))
          (txt_fenced_by @ name_fence_cause (fence_cause (fi_fence f) current)) (fi_explanation f)\<rparr>)"

definition fence_restart :: "u64 \<Rightarrow> finding_registry \<Rightarrow> u64 list \<times> finding_registry" where
  "fence_restart now = fence_where (\<lambda>f. \<not> is_terminal f)
     (\<lambda>f. f\<lparr>fi_state := Fs_Fenced, fi_cause := Cause_BootAdvanced, fi_updated_at := now,
        fi_explanation := ex_add R_FindingFencedByRestart (id_to_string (fi_id f))
          txt_the_process_that_produced_this (fi_explanation f)\<rparr>)"

definition fence_boot :: "fence_vector \<Rightarrow> u64 \<Rightarrow> finding_registry \<Rightarrow> u64 list \<times> finding_registry" where
  "fence_boot current now = fence_where
     (\<lambda>f. \<not> (fv_boot (fi_fence f) = fv_boot current \<and> fv_epoch (fi_fence f) = fv_epoch current))
     (\<lambda>f. f\<lparr>fi_state := Fs_Fenced, fi_cause := Cause_BootAdvanced, fi_updated_at := now,
        fi_explanation := ex_add R_FindingFencedByRestart (id_to_string (fi_id f))
          txt_finding_was_produced_under_a (fi_explanation f)\<rparr>)"

definition clear_findings :: "finding_registry \<Rightarrow> finding_registry" where
  "clear_findings r = r\<lparr>fr_findings := []\<rparr>"

definition registry_digest :: "finding_registry \<Rightarrow> digest" where
  "registry_digest r = sha256 (concat (map finding_digest (fr_findings r)))"

record finding_summary =
  fs_id :: u64
  fs_generation :: u64
  fs_state :: finding_state
  fs_cause :: fence_cause
  fs_outcome :: loop_outcome
  fs_flags :: u32
  fs_witness_count :: nat
  fs_resource_count :: nat
  fs_containment :: containment_outcome
  fs_target_count :: nat
  fs_digest :: digest

definition summarize :: "finding \<Rightarrow> finding_summary" where
  "summarize f = \<lparr>fs_id = fi_id f, fs_generation = fi_generation f, fs_state = fi_state f, fs_cause = fi_cause f,
     fs_outcome = fi_outcome f, fs_flags = fi_flags f, fs_witness_count = length (fi_witnesses f),
     fs_resource_count = length (fi_resources f), fs_containment = Con_NotRequired, fs_target_count = 0,
     fs_digest = finding_digest f\<rparr>"

definition summary_to_string :: "finding_summary \<Rightarrow> string" where
  "summary_to_string s = ''finding '' @ id_to_string (fs_id s) @ '' state='' @ name_finding_state (fs_state s) @
     '' outcome='' @ name_loop_outcome (fs_outcome s) @ '' witnesses='' @ dec_digits (fs_witness_count s) @
     '' resources='' @ dec_digits (fs_resource_count s) @
     '' containment='' @ name_containment_outcome (fs_containment s) @ '' targets='' @ dec_digits (fs_target_count s)"

section \<open>The eviction victim\<close>

abbreviation age_key :: "finding \<Rightarrow> u64 \<times> u64" where
  "age_key f \<equiv> (fi_updated_at f, fi_id f)"

lemma eviction_victim_prefix:
  fixes fs :: "finding list"
  defines "step \<equiv> \<lambda>victim i. if \<not> is_terminal (fs ! i) then victim
     else if victim = length fs \<or> fi_updated_at (fs ! i) < fi_updated_at (fs ! victim) \<or>
             (fi_updated_at (fs ! i) = fi_updated_at (fs ! victim) \<and> fi_id (fs ! i) < fi_id (fs ! victim))
          then i else victim"
  assumes "n \<le> length fs"
  shows "(foldl step (length fs) [0..<n] = length fs \<longrightarrow> (\<forall>i < n. \<not> is_terminal (fs ! i))) \<and>
    (foldl step (length fs) [0..<n] \<noteq> length fs \<longrightarrow> foldl step (length fs) [0..<n] < n \<and>
       is_terminal (fs ! foldl step (length fs) [0..<n]) \<and>
       (\<forall>i < n. is_terminal (fs ! i) \<longrightarrow> age_key (fs ! foldl step (length fs) [0..<n]) \<le> age_key (fs ! i)))"
  using assms(2)
proof (induction n)
  case (Suc n)
  then show ?case by (auto simp: step_def less_Suc_eq less_eq_prod_simp)
qed simp

lemma eviction_victim_props:
  shows eviction_victim_none: "eviction_victim fs = length fs \<Longrightarrow> f \<in> set fs \<Longrightarrow> \<not> is_terminal f"
    and eviction_victim_less: "eviction_victim fs \<noteq> length fs \<Longrightarrow> eviction_victim fs < length fs"
    and eviction_victim_terminal: "eviction_victim fs \<noteq> length fs \<Longrightarrow> is_terminal (fs ! eviction_victim fs)"
    and eviction_victim_oldest: "eviction_victim fs \<noteq> length fs \<Longrightarrow> f \<in> set fs \<Longrightarrow> is_terminal f \<Longrightarrow>
      age_key (fs ! eviction_victim fs) \<le> age_key f"
  using eviction_victim_prefix[of "length fs" fs] unfolding eviction_victim_def[symmetric]
  by (fastforce simp: in_set_conv_nth)+

lemma erase_at_split:
  assumes "i < length xs"
  obtains us vs where "xs = us @ xs ! i # vs" "erase_at i xs = us @ vs"
  using id_take_nth_drop[OF assms] by (simp add: erase_at_def that)

lemma set_erase_at:
  assumes "distinct (map k xs)" "i < length xs"
  shows "set (erase_at i xs) = set xs - {xs ! i}"
proof -
  obtain us vs where split: "xs = us @ xs ! i # vs" "erase_at i xs = us @ vs" by (rule erase_at_split[OF assms(2)])
  then have "xs ! i \<notin> set us" "xs ! i \<notin> set vs"
    using assms(1) by (metis Un_iff distinct.simps(2) distinct_append distinct_map in_set_conv_decomp list.set_intros(1)
        not_distinct_conv_prefix set_append disjoint_iff)+
  moreover have "set xs = set us \<union> {xs ! i} \<union> set vs" by (subst split(1)) auto
  ultimately show ?thesis unfolding split(2) by auto
qed

lemma sorted_erase_at:
  assumes "sorted_wrt R (map k xs)" "i < length xs"
  shows "sorted_wrt R (map k (erase_at i xs))"
proof -
  obtain us vs where split: "xs = us @ xs ! i # vs" "erase_at i xs = us @ vs" by (rule erase_at_split[OF assms(2)])
  have "sorted_wrt R (map k (us @ xs ! i # vs))" using assms(1) split(1) by simp
  then show ?thesis unfolding split(2) by (simp add: sorted_wrt_append)
qed

section \<open>The invariant of the registry\<close>

definition registry_ok :: "finding_registry \<Rightarrow> bool" where
  "registry_ok r \<longleftrightarrow> sorted_wrt (<) (map fi_id (fr_findings r)) \<and>
     length (fr_findings r) \<le> unat (max_retained_findings (fr_limits r)) \<and>
     (\<forall>f \<in> set (fr_findings r). id_valid (fi_id f))"

lemma new_registry_ok: "registry_ok (new_registry l)"
  by (simp add: registry_ok_def new_registry_def)

lemma registry_distinct: "registry_ok r \<Longrightarrow> distinct (map fi_id (fr_findings r))"
  by (simp add: registry_ok_def strict_sorted_iff)

text \<open>What a successful registration did: it evicted nothing, or one terminal finding.\<close>

definition room_for :: "finding_registry \<Rightarrow> bool" where
  "room_for r \<longleftrightarrow> length (fr_findings r) < unat (max_retained_findings (fr_limits r)) \<or>
     eviction_victim (fr_findings r) \<noteq> length (fr_findings r)"

lemma register_okD:
  assumes "register_finding f r = (res, r')" "has_value res"
  shows "r' = r\<lparr>fr_findings := insert_sorted fi_id f (make_room r)\<rparr> \<and> res = ok (fi_id f) \<and>
    id_valid (fi_id f) \<and> \<not> fence_is_zero (fi_fence f) \<and> id_valid (fv_boot (fi_fence f)) \<and>
    fi_id f \<notin> fi_id ` set (fr_findings r) \<and> room_for r"
  using assms by (auto simp: register_finding_def Let_def list_ex_iff room_for_def split: if_splits)

lemma register_failD: "register_finding f r = (res, r') \<Longrightarrow> \<not> has_value res \<Longrightarrow> r' = r"
  by (auto simp: register_finding_def Let_def split: if_splits)

lemma make_room_props:
  assumes "registry_ok r" "room_for r"
  shows "sorted_wrt (<) (map fi_id (make_room r))" "set (make_room r) \<subseteq> set (fr_findings r)"
    "Suc (length (make_room r)) \<le> unat (max_retained_findings (fr_limits r))"
    "f \<in> set (fr_findings r) \<Longrightarrow> \<not> is_terminal f \<Longrightarrow> f \<in> set (make_room r)"
  using assms eviction_victim_less[of "fr_findings r"] eviction_victim_terminal[of "fr_findings r"]
    set_erase_at[OF registry_distinct[OF assms(1)], of "eviction_victim (fr_findings r)"]
  by (auto simp: registry_ok_def room_for_def make_room_def Let_def sorted_erase_at length_erase_at not_le)

lemma register_finding_ok:
  assumes "registry_ok r"
  shows "registry_ok (snd (register_finding f r))"
proof -
  obtain res r' where reg: "register_finding f r = (res, r')" by fastforce
  show ?thesis
  proof (cases "has_value res")
    case True
    note D = register_okD[OF reg True]
    have room: "room_for r" using D by simp
    note m = make_room_props[OF assms room]
    have "fi_id f \<notin> fi_id ` set (make_room r)" using D m(2) by auto
    then show ?thesis
      using strict_sorted_insert_sorted[OF m(1)] m(2,3) D assms reg by (auto simp: registry_ok_def)
  next
    case False
    then show ?thesis using register_failD[OF reg] reg assms by simp
  qed
qed

lemma map_update_first: "(\<And>x. k (g x) = k x) \<Longrightarrow> map k (update_first P g xs) = map k xs"
  by (induction xs) auto

lemma length_update_first [simp]: "length (update_first P g xs) = length xs"
  by (induction xs) auto

lemma registry_ok_map:
  assumes "registry_ok r" "map fi_id fs = map fi_id (fr_findings r)"
  shows "registry_ok (r\<lparr>fr_findings := fs\<rparr>)"
proof -
  have "length fs = length (fr_findings r)" "fi_id ` set fs = fi_id ` set (fr_findings r)"
    using assms(2) by (metis length_map) (metis assms(2) image_set)
  then show ?thesis using assms unfolding registry_ok_def by (auto simp: image_iff) (metis image_eqI imageE)
qed

lemma modify_finding_ok: "registry_ok r \<Longrightarrow> (\<And>f. fi_id (g f) = fi_id f) \<Longrightarrow> registry_ok (modify_finding k g r)"
  unfolding modify_finding_def by (intro registry_ok_map map_update_first)

lemma fence_where_ok:
  assumes "registry_ok r" "\<And>f. fi_id (g f) = fi_id f"
  shows "registry_ok (snd (fence_where P g r))"
  using registry_ok_map[OF assms(1), of "map (\<lambda>f. if P f then g f else f) (fr_findings r)"] assms(2)
  by (simp add: fence_where_def)

section \<open>The registry as a state machine\<close>

inductive registry_step :: "finding_registry \<Rightarrow> finding_registry \<Rightarrow> bool" where
  register_step: "registry_step r (snd (register_finding f r))"
| update_step: "registry_step r (snd (update_state k state cause now code detail r))"
| plan_step: "registry_step r (snd (attach_plan k plan now r))"
| intent_step: "registry_step r (snd (attach_intent k intent now r))"
| stale_step: "registry_step r (snd (fence_stale current now r))"
| restart_step: "registry_step r (snd (fence_restart now r))"
| boot_step: "registry_step r (snd (fence_boot current now r))"
| clear_step: "registry_step r (clear_findings r)"

inductive_cases registry_stepE: "registry_step r r'"

definition registry_start :: "finding_registry \<Rightarrow> bool" where
  "registry_start r \<longleftrightarrow> (\<exists>l. r = new_registry l)"

lemma fence_ops_ok:
  assumes "registry_ok r"
  shows "registry_ok (snd (fence_stale current now r))" "registry_ok (snd (fence_restart now r))"
    "registry_ok (snd (fence_boot current now r))"
  unfolding fence_stale_def fence_restart_def fence_boot_def
  by (rule fence_where_ok[OF assms], simp)+

lemma modify_ops_ok:
  assumes "registry_ok r"
  shows "registry_ok (snd (update_state k state cause now code detail r))"
    "registry_ok (snd (attach_plan k plan now r))" "registry_ok (snd (attach_intent k intent now r))"
  using assms by (auto simp: update_state_def attach_plan_def attach_intent_def split: option.splits
      intro!: modify_finding_ok)

lemma clear_findings_ok: "registry_ok r \<Longrightarrow> registry_ok (clear_findings r)"
  by (simp add: clear_findings_def registry_ok_def)

interpretation registry_machine: invariant_machine registry_start registry_step registry_ok
proof
  show "registry_ok r" if "registry_start r" for r using that new_registry_ok by (auto simp: registry_start_def)
  show "registry_ok r'" if "registry_ok r" "registry_step r r'" for r r'
    using that(2) register_finding_ok[OF that(1)] fence_ops_ok[OF that(1)] modify_ops_ok[OF that(1)]
      clear_findings_ok[OF that(1)] by cases (simp_all only:)
qed

section \<open>Terminal findings stay terminal\<close>

lemma find_finding_iff:
  assumes "registry_ok r"
  shows "find_finding r k = Some f \<longleftrightarrow> f \<in> set (fr_findings r) \<and> fi_id f = k"
proof
  show "find_finding r k = Some f \<Longrightarrow> f \<in> set (fr_findings r) \<and> fi_id f = k"
    by (auto simp: find_finding_def find_Some_iff)
next
  assume f: "f \<in> set (fr_findings r) \<and> fi_id f = k"
  then obtain g where g: "find_finding r k = Some g"
    by (cases "find_finding r k") (auto simp: find_finding_def find_None_iff)
  then have "g \<in> set (fr_findings r)" "fi_id g = k" by (auto simp: find_finding_def find_Some_iff)
  then have "g = f" using f registry_distinct[OF assms] by (auto simp: distinct_map inj_on_def)
  with g show "find_finding r k = Some f" by simp
qed

lemma set_update_first:
  assumes "distinct (map k xs)"
  shows "set (update_first (\<lambda>x. k x = v) g xs) = (\<lambda>x. if k x = v then g x else x) ` set xs"
  using assms
proof (induction xs)
  case (Cons x xs)
  show ?case
  proof (cases "k x = v")
    case True
    have "k x \<notin> k ` set xs" using Cons.prems by simp
    then have "\<forall>y \<in> set xs. k y \<noteq> v" using True by (metis imageI)
    then have "(\<lambda>x. if k x = v then g x else x) ` set xs = set xs" by (simp cong: image_cong)
    then show ?thesis using True by simp
  next
    case False
    then show ?thesis using Cons by simp
  qed
qed simp

lemma set_modify_finding:
  "registry_ok r \<Longrightarrow> set (fr_findings (modify_finding k g r)) = (\<lambda>f. if fi_id f = k then g f else f) ` set (fr_findings r)"
  by (simp add: modify_finding_def set_update_first registry_distinct)

lemma register_members:
  assumes "registry_ok r" "register_finding f r = (res, r')" "has_value res"
  shows "set (fr_findings r') = insert f (set (make_room r))"
  using register_okD[OF assms(2,3)] by simp

text \<open>In one step a finding keeps its identity; when it was terminal it still is.\<close>

lemma step_keeps_terminal:
  assumes ok: "registry_ok r" and step: "registry_step r r'"
    and f: "f \<in> set (fr_findings r)" "is_terminal f" and f': "f' \<in> set (fr_findings r')" "fi_id f' = fi_id f"
  shows "is_terminal f'"
  using step
proof cases
  case (register_step g)
  obtain res r1 where reg: "register_finding g r = (res, r1)" by fastforce
  show ?thesis
  proof (cases "has_value res")
    case True
    then have "fi_id g \<notin> fi_id ` set (fr_findings r)" "set (fr_findings r') \<subseteq> insert g (set (fr_findings r))"
      using register_okD[OF reg True] register_members[OF ok reg True] make_room_props(2)[OF ok] register_step reg
      by auto
    then have "f' \<in> set (fr_findings r)" using f f' by (metis image_eqI insertE subsetD)
    then show ?thesis using f f' registry_distinct[OF ok] by (metis distinct_map inj_on_def)
  next
    case False
    then show ?thesis using register_failD[OF reg] reg register_step f f' registry_distinct[OF ok]
      by (metis distinct_map inj_on_def snd_conv)
  qed
next
  case (update_step k state cause now code detail)
  then show ?thesis
    using f f' ok registry_distinct[OF ok]
    by (auto simp: update_state_def find_finding_iff set_modify_finding is_terminal_def state_is_terminal_def
        distinct_map inj_on_def split: option.splits if_splits)
next
  case (plan_step k plan now)
  then show ?thesis
    using f f' ok registry_distinct[OF ok]
    by (auto simp: attach_plan_def set_modify_finding is_terminal_def distinct_map inj_on_def split: if_splits)
next
  case (intent_step k intent now)
  then show ?thesis
    using f f' ok registry_distinct[OF ok]
    by (auto simp: attach_intent_def set_modify_finding is_terminal_def distinct_map inj_on_def split: if_splits)
next
  case (stale_step current now)
  then show ?thesis
    using f f' registry_distinct[OF ok]
    by (auto simp: fence_stale_def fence_where_def is_terminal_def state_is_terminal_def distinct_map inj_on_def
        split: if_splits)
next
  case (restart_step now)
  then show ?thesis
    using f f' registry_distinct[OF ok]
    by (auto simp: fence_restart_def fence_where_def is_terminal_def state_is_terminal_def distinct_map inj_on_def
        split: if_splits)
next
  case (boot_step current now)
  then show ?thesis
    using f f' registry_distinct[OF ok]
    by (auto simp: fence_boot_def fence_where_def is_terminal_def state_is_terminal_def distinct_map inj_on_def
        split: if_splits)
next
  case clear_step
  then show ?thesis using f' by (simp add: clear_findings_def)
qed

section \<open>Retention and fencing\<close>

lemma register_keeps_live:
  assumes "registry_ok r" "g \<in> set (fr_findings r)" "\<not> is_terminal g"
  shows "g \<in> set (fr_findings (snd (register_finding f r)))"
proof -
  obtain res r' where reg: "register_finding f r = (res, r')" by fastforce
  show ?thesis
  proof (cases "has_value res")
    case True
    then show ?thesis
      using register_members[OF assms(1) reg True] make_room_props(4)[OF assms(1) _ assms(2,3)]
        register_okD[OF reg True] reg by simp
  qed (use register_failD[OF reg] reg assms in simp)
qed

text \<open>A well-formed, new finding is refused only by a registry full of live findings.\<close>

lemma register_refused_full:
  assumes ok: "registry_ok r" and f: "id_valid (fi_id f)" "\<not> fence_is_zero (fi_fence f)" "id_valid (fv_boot (fi_fence f))"
    and new: "fi_id f \<notin> fi_id ` set (fr_findings r)"
  shows "has_value (fst (register_finding f r)) \<longleftrightarrow>
    length (fr_findings r) < unat (max_retained_findings (fr_limits r)) \<or> (\<exists>g \<in> set (fr_findings r). is_terminal g)"
proof -
  have "\<not> list_ex (\<lambda>g. fi_id g = fi_id f) (fr_findings r)" unfolding list_ex_iff using new by (metis imageI)
  then have "has_value (fst (register_finding f r)) \<longleftrightarrow> room_for r"
    using f by (auto simp: register_finding_def Let_def room_for_def)
  also have "\<dots> \<longleftrightarrow> length (fr_findings r) < unat (max_retained_findings (fr_limits r)) \<or>
      (\<exists>g \<in> set (fr_findings r). is_terminal g)"
    using eviction_victim_none[of "fr_findings r"] eviction_victim_less[of "fr_findings r"]
      eviction_victim_terminal[of "fr_findings r"]
    unfolding room_for_def by (metis nth_mem)
  finally show ?thesis .
qed

lemma fence_stale_current:
  assumes "f \<in> set (fr_findings (snd (fence_stale current now r)))" "\<not> is_terminal f"
  shows "fi_fence f = current" "f \<in> set (fr_findings r)"
  using assms by (auto simp: fence_stale_def fence_where_def is_terminal_def state_is_terminal_def split: if_splits)

lemma fence_restart_terminal: "f \<in> set (fr_findings (snd (fence_restart now r))) \<Longrightarrow> is_terminal f"
  by (auto simp: fence_restart_def fence_where_def is_terminal_def state_is_terminal_def split: if_splits)

lemma fence_stale_fences:
  "registry_ok r \<Longrightarrow> fst (fence_stale current now r) =
     map fi_id (filter (\<lambda>f. \<not> is_terminal f \<and> fi_fence f \<noteq> current) (fr_findings r))"
proof -
  assume "registry_ok r"
  then have "sorted (map fi_id (filter P (fr_findings r)))" for P
    by (simp add: registry_ok_def strict_sorted_iff sorted_filter)
  then show ?thesis by (simp add: fence_stale_def fence_where_def sorted_sort_id)
qed

end
