(* ===== verification/Messages.thy ===== *)
theory Messages
  imports Wire Frames Finding Detect
begin

text \<open>
  The message payloads of src/wire.cpp: every message the protocol carries, its encoder and the decoder
  that validates it. Each pair is an instance of \<open>payload_codec\<close> on the messages whose fence is not all
  zero, whose texts and lists are within the ceilings and whose counts fit their fields.
\<close>

definition txt_boolean_field_is_not_0 :: string where
  "txt_boolean_field_is_not_0 = ''boolean field is not 0 or 1''"

lemma unat_u32_bound [simp]: "unat (x :: u32) < 4294967296"
proof -
  have "unat x < 2 ^ LENGTH(32)" by (rule unsigned_less)
  then show ?thesis by simp
qed

section \<open>Handshake\<close>

record hello_message =
  hm_version :: u16
  hm_session :: u64
  hm_identity :: process_identity
  hm_kind :: producer_kind
  hm_origin :: evidence_origin
  hm_nonce :: u64
  hm_lease_ticks :: u64

definition encode_hello :: "hello_message \<Rightarrow> u8 list" where
  "encode_hello m = take_data (put_all
     [put_u16 (hm_version m), put_u64 (hm_session m), write_process_identity (hm_identity m),
      put_enum values_producer_kind (hm_kind m), put_enum values_evidence_origin (hm_origin m),
      put_u64 (hm_nonce m), put_u64 (hm_lease_ticks m)])"

definition read_hello :: "hello_message reader" where
  "read_hello =
     read_then read_u16 (\<lambda>version. read_then read_u64 (\<lambda>session. read_then read_process_identity (\<lambda>identity.
     read_then (read_enum values_producer_kind) (\<lambda>kind. read_then (read_enum values_evidence_origin) (\<lambda>origin.
     read_then read_u64 (\<lambda>nonce. read_then read_u64 (\<lambda>ticks. read_value
       \<lparr>hm_version = version, hm_session = session, hm_identity = identity, hm_kind = kind, hm_origin = origin,
        hm_nonce = nonce, hm_lease_ticks = ticks\<rparr>)))))))"

definition decode_hello :: "u8 list \<Rightarrow> hello_message result" where
  "decode_hello = run_decoder (read_then (or_report read_hello) (\<lambda>m.
     read_then (read_end (Oc_Invalid, ''hello payload has trailing bytes'')) (\<lambda>_. read_value m)))"

record hello_ack_message =
  ha_version :: u16
  ha_session :: u64
  ha_coordinator :: process_identity
  ha_fence :: fence_vector
  ha_accepted_at :: u64
  ha_lease_expires_at :: u64
  ha_outcome :: outcome
  ha_reason :: reason_code
  ha_detail :: string

definition encode_hello_ack :: "hello_ack_message \<Rightarrow> u8 list" where
  "encode_hello_ack m = take_data (put_all
     [put_u16 (ha_version m), put_u64 (ha_session m), write_process_identity (ha_coordinator m),
      put_raw (encode_fence (ha_fence m)), put_u64 (ha_accepted_at m), put_u64 (ha_lease_expires_at m),
      put_enum values_outcome (ha_outcome m), put_enum values_reason_code (ha_reason m), put_text 256 (ha_detail m)])"

definition decode_hello_ack :: "u8 list \<Rightarrow> hello_ack_message result" where
  "decode_hello_ack = run_decoder (
     read_then (or_report read_u16) (\<lambda>version. read_then (or_report read_u64) (\<lambda>session.
     read_then (or_report read_process_identity) (\<lambda>coordinator. read_then decode_fence (\<lambda>fence.
     read_then (or_report read_u64) (\<lambda>accepted_at. read_then (or_report read_u64) (\<lambda>expires_at.
     read_then (or_report (read_enum values_outcome)) (\<lambda>oc. read_then (or_report (read_enum values_reason_code)) (\<lambda>reason.
     read_then (or_report (read_text 256)) (\<lambda>detail.
     read_then (read_end (Oc_Invalid, ''hello ack payload has trailing bytes'')) (\<lambda>_. read_value
       \<lparr>ha_version = version, ha_session = session, ha_coordinator = coordinator, ha_fence = fence,
        ha_accepted_at = accepted_at, ha_lease_expires_at = expires_at, ha_outcome = oc, ha_reason = reason,
        ha_detail = detail\<rparr>)))))))))))"

definition hello_ack_valid :: "hello_ack_message \<Rightarrow> bool" where
  "hello_ack_valid m \<longleftrightarrow> \<not> fence_is_zero (ha_fence m) \<and> length (ha_detail m) \<le> 256"

record error_message =
  em_outcome :: outcome
  em_reason :: reason_code
  em_offending :: message_type
  em_detail :: string

definition encode_error :: "error_message \<Rightarrow> u8 list" where
  "encode_error m = take_data (put_all
     [put_enum values_outcome (em_outcome m), put_enum values_reason_code (em_reason m),
      put_u16 (message_type_raw (em_offending m)), put_text 512 (em_detail m)])"

definition decode_error :: "u8 list \<Rightarrow> error_message result" where
  "decode_error = run_decoder (
     read_then (or_report (read_enum values_outcome)) (\<lambda>oc. read_then (or_report (read_enum values_reason_code)) (\<lambda>reason.
     read_then (or_report read_u16) (\<lambda>raw.
     read_then (read_check (is_valid_message_type raw) (Oc_Invalid, ''offending frame type is out of domain'')) (\<lambda>_.
     read_then (or_report (read_text 512)) (\<lambda>detail.
     read_then (read_end (Oc_Invalid, ''error payload has trailing bytes'')) (\<lambda>_. read_value
       \<lparr>em_outcome = oc, em_reason = reason, em_offending = message_type_of raw, em_detail = detail\<rparr>)))))))"

section \<open>Detection\<close>

record detect_request_message =
  dm_fence :: fence_vector
  dm_now :: u64
  dm_scope :: "u64 list"

definition encode_detect_request :: "detect_request_message \<Rightarrow> u8 list" where
  "encode_detect_request m = take_data (put_all
     [put_raw (encode_fence (dm_fence m)), put_u64 (dm_now m), put_counted put_u64 (dm_scope m)])"

definition decode_detect_request :: "limits \<Rightarrow> u8 list \<Rightarrow> detect_request_message result" where
  "decode_detect_request l = run_decoder (
     read_then decode_fence (\<lambda>fence. read_then (or_report read_u64) (\<lambda>now.
     read_then (or_report (read_counted (max_selectors l) read_u64)) (\<lambda>scope.
     read_then (read_check (sorted scope) (Oc_Invalid, ''selector scope is not in canonical order'')) (\<lambda>_.
     read_then (read_end (Oc_Invalid, ''detect request payload has trailing bytes'')) (\<lambda>_. read_value
       \<lparr>dm_fence = fence, dm_now = now, dm_scope = scope\<rparr>))))))"

definition detect_request_valid :: "limits \<Rightarrow> detect_request_message \<Rightarrow> bool" where
  "detect_request_valid l m \<longleftrightarrow> \<not> fence_is_zero (dm_fence m) \<and> sorted (dm_scope m) \<and>
     length (dm_scope m) \<le> unat (max_selectors l)"

record assessment_reply_message =
  am_assessment :: u64
  am_fence :: fence_vector
  am_outcome :: loop_outcome
  am_flags :: u32
  am_witness_count :: nat
  am_hop_count :: nat
  am_counters :: search_counters
  am_digest :: digest
  am_origin :: evidence_origin
  am_witnesses :: "string list"
  am_explanation :: string

definition write_counters :: "search_counters \<Rightarrow> writes" where
  "write_counters c = put_all
     [put_u64 (sn_scc_runs c), put_u64 (sn_nodes_examined c), put_u64 (sn_edges_examined c),
      put_u64 (sn_steps_used c), put_u64 (sn_cycles_enumerated c), put_u64 (sn_selectors_considered c),
      put_u64 (sn_witnesses_retained c), put_u64 (sn_witnesses_dropped c), put_u64 (sn_witnesses_validated c),
      put_u64 (sn_witnesses_rejected c), put_bool (sn_steps_exhausted c), put_bool (sn_cycles_exhausted c),
      put_bool (sn_selectors_exhausted c), put_bool (sn_witnesses_truncated c), put_bool (sn_length_bound_reached c)]"

definition encode_assessment_reply :: "limits \<Rightarrow> assessment_reply_message \<Rightarrow> u8 list" where
  "encode_assessment_reply l m = take_data (put_all
     [put_u64 (am_assessment m), put_raw (encode_fence (am_fence m)), put_enum values_loop_outcome (am_outcome m),
      put_u64 (ucast (am_flags m)), put_u32 (word_of_nat (am_witness_count m)), put_u32 (word_of_nat (am_hop_count m)),
      write_counters (am_counters m), put_raw (am_digest m), put_enum values_evidence_origin (am_origin m),
      put_counted (put_text (unat (max_text_line l))) (am_witnesses m), put_text 4096 (am_explanation m)])"

definition read_flag :: "bool decoder" where
  "read_flag = read_then (or_report read_u8) (\<lambda>raw.
     read_then (read_check (raw \<le> 1) (Oc_Invalid, txt_boolean_field_is_not_0)) (\<lambda>_. read_value (raw = 1)))"

definition read_counters :: "search_counters decoder" where
  "read_counters =
     read_then (or_report read_u64) (\<lambda>scc. read_then (or_report read_u64) (\<lambda>nodes.
     read_then (or_report read_u64) (\<lambda>edges. read_then (or_report read_u64) (\<lambda>steps.
     read_then (or_report read_u64) (\<lambda>cycles. read_then (or_report read_u64) (\<lambda>selectors.
     read_then (or_report read_u64) (\<lambda>retained. read_then (or_report read_u64) (\<lambda>dropped.
     read_then (or_report read_u64) (\<lambda>validated. read_then (or_report read_u64) (\<lambda>rejected.
     read_then read_flag (\<lambda>steps_exhausted. read_then read_flag (\<lambda>cycles_exhausted.
     read_then read_flag (\<lambda>selectors_exhausted. read_then read_flag (\<lambda>truncated.
     read_then read_flag (\<lambda>bound_reached. read_value
       \<lparr>sn_scc_runs = scc, sn_nodes_examined = nodes, sn_edges_examined = edges, sn_steps_used = steps,
        sn_cycles_enumerated = cycles, sn_selectors_considered = selectors, sn_witnesses_retained = retained,
        sn_witnesses_dropped = dropped, sn_witnesses_validated = validated, sn_witnesses_rejected = rejected,
        sn_length_bound_reached = bound_reached, sn_steps_exhausted = steps_exhausted,
        sn_cycles_exhausted = cycles_exhausted, sn_selectors_exhausted = selectors_exhausted,
        sn_witnesses_truncated = truncated\<rparr>)))))))))))))))"

definition decode_assessment_reply :: "limits \<Rightarrow> u8 list \<Rightarrow> assessment_reply_message result" where
  "decode_assessment_reply l = run_decoder (
     read_then (or_report read_u64) (\<lambda>assessment. read_then decode_fence (\<lambda>fence.
     read_then (or_report (read_enum values_loop_outcome)) (\<lambda>oc. read_then (or_report read_u64) (\<lambda>flags.
     read_then (or_report read_u32) (\<lambda>witnesses. read_then (or_report read_u32) (\<lambda>hops.
     read_then (read_check (flags \<le> 0xFFFFFFFF) (Oc_Invalid, ''assessment flags are out of range'')) (\<lambda>_.
     read_then read_counters (\<lambda>counters. read_then (or_report read_digest) (\<lambda>digest.
     read_then (or_report (read_enum values_evidence_origin)) (\<lambda>origin.
     read_then (or_report (read_counted (max_witnesses_per_assessment l) (read_text (unat (max_text_line l))))) (\<lambda>texts.
     read_then (or_report (read_text 4096)) (\<lambda>explanation.
     read_then (read_end (Oc_Invalid, ''assessment reply has trailing bytes'')) (\<lambda>_. read_value
       \<lparr>am_assessment = assessment, am_fence = fence, am_outcome = oc, am_flags = ucast flags,
        am_witness_count = unat witnesses, am_hop_count = unat hops, am_counters = counters, am_digest = digest,
        am_origin = origin, am_witnesses = texts, am_explanation = explanation\<rparr>))))))))))))))"

definition assessment_reply_valid :: "limits \<Rightarrow> assessment_reply_message \<Rightarrow> bool" where
  "assessment_reply_valid l m \<longleftrightarrow> \<not> fence_is_zero (am_fence m) \<and> am_witness_count m < 2 ^ 32 \<and>
     am_hop_count m < 2 ^ 32 \<and> length (am_digest m) = 32 \<and>
     length (am_witnesses m) \<le> unat (max_witnesses_per_assessment l) \<and>
     (\<forall>t \<in> set (am_witnesses m). length t \<le> unat (max_text_line l)) \<and> length (am_explanation m) \<le> 4096"

section \<open>Planning\<close>

record plan_reply_message =
  pm_plan :: u64
  pm_assessment :: u64
  pm_fence :: fence_vector
  pm_outcome :: containment_outcome
  pm_flags :: u32
  pm_targets :: "u64 list"
  pm_total_cost :: u64
  pm_witness_count :: u32
  pm_witnesses_covered :: u32
  pm_plan_digest :: digest
  pm_explanation :: string

definition encode_plan_reply :: "limits \<Rightarrow> plan_reply_message \<Rightarrow> u8 list" where
  "encode_plan_reply l m = take_data (put_all
     [put_u64 (pm_plan m), put_u64 (pm_assessment m), put_raw (encode_fence (pm_fence m)),
      put_enum values_containment_outcome (pm_outcome m), put_u64 (ucast (pm_flags m)),
      put_counted put_u64 (pm_targets m), put_u64 (pm_total_cost m), put_u32 (pm_witness_count m),
      put_u32 (pm_witnesses_covered m), put_raw (pm_plan_digest m),
      put_text (unat (max_text_line l * 8)) (pm_explanation m)])"

definition decode_plan_reply :: "limits \<Rightarrow> u8 list \<Rightarrow> plan_reply_message result" where
  "decode_plan_reply l = run_decoder (
     read_then (or_report read_u64) (\<lambda>plan. read_then (or_report read_u64) (\<lambda>assessment.
     read_then decode_fence (\<lambda>fence. read_then (or_report (read_enum values_containment_outcome)) (\<lambda>oc.
     read_then (or_report read_u64) (\<lambda>flags.
     read_then (read_check (flags \<le> 0xFFFFFFFF) (Oc_Invalid, ''plan flags are out of range'')) (\<lambda>_.
     read_then (or_report (read_counted (max_plan_targets l) read_u64)) (\<lambda>targets.
     read_then (or_report read_u64) (\<lambda>cost. read_then (or_report read_u32) (\<lambda>witnesses.
     read_then (or_report read_u32) (\<lambda>covered. read_then (or_report read_digest) (\<lambda>digest.
     read_then (or_report (read_text (unat (max_text_line l * 8)))) (\<lambda>explanation.
     read_then (read_end (Oc_Invalid, ''plan reply has trailing bytes'')) (\<lambda>_. read_value
       \<lparr>pm_plan = plan, pm_assessment = assessment, pm_fence = fence, pm_outcome = oc, pm_flags = ucast flags,
        pm_targets = targets, pm_total_cost = cost, pm_witness_count = witnesses, pm_witnesses_covered = covered,
        pm_plan_digest = digest, pm_explanation = explanation\<rparr>))))))))))))))"

definition plan_reply_valid :: "limits \<Rightarrow> plan_reply_message \<Rightarrow> bool" where
  "plan_reply_valid l m \<longleftrightarrow> \<not> fence_is_zero (pm_fence m) \<and> length (pm_targets m) \<le> unat (max_plan_targets l) \<and>
     length (pm_plan_digest m) = 32 \<and> length (pm_explanation m) \<le> unat (max_text_line l * 8)"

section \<open>Containment\<close>

record contain_intent_message =
  cm_intent :: u64
  cm_plan :: u64
  cm_finding :: u64
  cm_fence :: fence_vector
  cm_issued_by :: process_identity
  cm_targets :: "u64 list"
  cm_selectors :: "u64 list"
  cm_issued_at :: u64
  cm_expires_at :: u64
  cm_plan_digest :: digest

definition encode_contain_intent :: "contain_intent_message \<Rightarrow> u8 list" where
  "encode_contain_intent m = take_data (put_all
     [put_u64 (cm_intent m), put_u64 (cm_plan m), put_u64 (cm_finding m), put_raw (encode_fence (cm_fence m)),
      write_process_identity (cm_issued_by m), put_counted put_u64 (cm_targets m),
      put_counted put_u64 (cm_selectors m), put_u64 (cm_issued_at m), put_u64 (cm_expires_at m),
      put_raw (cm_plan_digest m)])"

definition decode_contain_intent :: "limits \<Rightarrow> u8 list \<Rightarrow> contain_intent_message result" where
  "decode_contain_intent l = run_decoder (
     read_then (or_report read_u64) (\<lambda>intent. read_then (or_report read_u64) (\<lambda>plan.
     read_then (or_report read_u64) (\<lambda>finding. read_then decode_fence (\<lambda>fence.
     read_then (or_report read_process_identity) (\<lambda>issued_by.
     read_then (or_report (read_counted (max_plan_targets l) read_u64)) (\<lambda>targets.
     read_then (or_report (read_counted (max_selectors l) read_u64)) (\<lambda>selectors.
     read_then (or_report read_u64) (\<lambda>issued_at. read_then (or_report read_u64) (\<lambda>expires_at.
     read_then (or_report read_digest) (\<lambda>digest.
     read_then (read_check (\<not> expires_at < issued_at) (Oc_Invalid, ''intent lease window is inverted'')) (\<lambda>_.
     read_then (read_end (Oc_Invalid, ''intent has trailing bytes'')) (\<lambda>_. read_value
       \<lparr>cm_intent = intent, cm_plan = plan, cm_finding = finding, cm_fence = fence, cm_issued_by = issued_by,
        cm_targets = targets, cm_selectors = selectors, cm_issued_at = issued_at, cm_expires_at = expires_at,
        cm_plan_digest = digest\<rparr>)))))))))))))"

definition contain_intent_valid :: "limits \<Rightarrow> contain_intent_message \<Rightarrow> bool" where
  "contain_intent_valid l m \<longleftrightarrow> \<not> fence_is_zero (cm_fence m) \<and> length (cm_targets m) \<le> unat (max_plan_targets l) \<and>
     length (cm_selectors m) \<le> unat (max_selectors l) \<and> cm_issued_at m \<le> cm_expires_at m \<and>
     length (cm_plan_digest m) = 32"

record contain_ack_message =
  km_intent :: u64
  km_session :: u64
  km_applier :: process_identity
  km_sequence :: u64
  km_acknowledged_at :: u64
  km_intent_digest :: digest
  km_outcome :: outcome
  km_reason :: reason_code
  km_detail :: string

definition encode_contain_ack :: "limits \<Rightarrow> contain_ack_message \<Rightarrow> u8 list" where
  "encode_contain_ack l m = take_data (put_all
     [put_u64 (km_intent m), put_u64 (km_session m), write_process_identity (km_applier m),
      put_u64 (km_sequence m), put_u64 (km_acknowledged_at m), put_raw (km_intent_digest m),
      put_enum values_outcome (km_outcome m), put_enum values_reason_code (km_reason m),
      put_text (unat (max_text_line l)) (km_detail m)])"

definition read_contain_ack :: "limits \<Rightarrow> contain_ack_message reader" where
  "read_contain_ack l =
     read_then read_u64 (\<lambda>intent. read_then read_u64 (\<lambda>session. read_then read_process_identity (\<lambda>applier.
     read_then read_u64 (\<lambda>sequence. read_then read_u64 (\<lambda>acknowledged_at. read_then read_digest (\<lambda>digest.
     read_then (read_enum values_outcome) (\<lambda>oc. read_then (read_enum values_reason_code) (\<lambda>reason.
     read_then (read_text (unat (max_text_line l))) (\<lambda>detail. read_value
       \<lparr>km_intent = intent, km_session = session, km_applier = applier, km_sequence = sequence,
        km_acknowledged_at = acknowledged_at, km_intent_digest = digest, km_outcome = oc, km_reason = reason,
        km_detail = detail\<rparr>)))))))))"

definition decode_contain_ack :: "limits \<Rightarrow> u8 list \<Rightarrow> contain_ack_message result" where
  "decode_contain_ack l = run_decoder (read_then (or_report (read_contain_ack l)) (\<lambda>m.
     read_then (read_end (Oc_Invalid, ''acknowledgement has trailing bytes'')) (\<lambda>_. read_value m)))"

definition contain_ack_valid :: "limits \<Rightarrow> contain_ack_message \<Rightarrow> bool" where
  "contain_ack_valid l m \<longleftrightarrow> length (km_intent_digest m) = 32 \<and> length (km_detail m) \<le> unat (max_text_line l)"

record effect_report_message =
  vm_intent :: u64
  vm_target :: u64
  vm_observation :: u64
  vm_fence :: fence_vector
  vm_verified_at :: u64
  vm_origin :: evidence_origin
  vm_observation_payload :: forwarding_observation
  vm_has_observation :: bool

definition default_observation :: forwarding_observation where
  "default_observation = \<lparr>fo_id = 0, fo_edge = 0, fo_from = 0, fo_to = 0, fo_domain = 0, fo_klass = Ev_Unknown,
     fo_selectors = [], fo_topology_generation = 0, fo_forwarding_generation = 0, fo_producer = 0,
     fo_producer_kind = Producer_SyntheticFixture, fo_sequence = 0, fo_origin = Origin_Synthetic,
     fo_lease = \<lparr>ls_boot = 0, ls_epoch = 0, ls_fabric_epoch = 0, ls_valid_from = 0, ls_valid_until = 0\<rparr>,
     fo_payload_digest = zero_digest\<rparr>"

definition encode_effect_report :: "effect_report_message \<Rightarrow> u8 list" where
  "encode_effect_report m = take_data (put_all (
     [put_u64 (vm_intent m), put_u64 (vm_target m), put_u64 (vm_observation m), put_raw (encode_fence (vm_fence m)),
      put_u64 (vm_verified_at m), put_enum values_evidence_origin (vm_origin m), put_bool (vm_has_observation m)] @
     (if vm_has_observation m
      then [put_u32 (word_of_nat (length (encode_observation (vm_observation_payload m)))),
            put_raw (encode_observation (vm_observation_payload m))]
      else [])))"

definition read_embedded_observation :: "limits \<Rightarrow> forwarding_observation decoder" where
  "read_embedded_observation l =
     read_then (or_fail Oc_Invalid ''embedded observation length is out of range'' read_u32) (\<lambda>n.
     read_then (read_check (unat n \<le> k_frame_payload) (Oc_Invalid, ''embedded observation length is out of range'')) (\<lambda>_.
     read_then (or_report (read_raw (unat n))) (\<lambda>blob. lift_result (decode_observation l blob))))"

definition decode_effect_report :: "limits \<Rightarrow> u8 list \<Rightarrow> effect_report_message result" where
  "decode_effect_report l = run_decoder (
     read_then (or_report read_u64) (\<lambda>intent. read_then (or_report read_u64) (\<lambda>target.
     read_then (or_report read_u64) (\<lambda>observation. read_then decode_fence (\<lambda>fence.
     read_then (or_report read_u64) (\<lambda>verified_at. read_then (or_report (read_enum values_evidence_origin)) (\<lambda>origin.
     read_then (or_report read_bool) (\<lambda>has_observation.
     read_then (if has_observation then read_embedded_observation l else read_value default_observation) (\<lambda>payload.
     read_then (read_end (Oc_Invalid, ''effect report has trailing bytes'')) (\<lambda>_. read_value
       \<lparr>vm_intent = intent, vm_target = target, vm_observation = observation, vm_fence = fence,
        vm_verified_at = verified_at, vm_origin = origin, vm_observation_payload = payload,
        vm_has_observation = has_observation\<rparr>))))))))))"

definition effect_report_valid :: "limits \<Rightarrow> effect_report_message \<Rightarrow> bool" where
  "effect_report_valid l m \<longleftrightarrow> \<not> fence_is_zero (vm_fence m) \<and>
     (if vm_has_observation m
      then observation_valid l (vm_observation_payload m) \<and>
        length (encode_observation (vm_observation_payload m)) \<le> k_frame_payload
      else vm_observation_payload m = default_observation)"

section \<open>Findings and state\<close>

record finding_reply_message =
  fm_findings :: "finding_summary list"
  fm_state_digest :: digest

definition write_summary :: "finding_summary \<Rightarrow> writes" where
  "write_summary s = put_all
     [put_u64 (fs_id s), put_u64 (fs_generation s), put_enum values_finding_state (fs_state s),
      put_enum values_fence_cause (fs_cause s), put_enum values_loop_outcome (fs_outcome s),
      put_u64 (ucast (fs_flags s)), put_u32 (word_of_nat (fs_witness_count s)),
      put_u32 (word_of_nat (fs_resource_count s)), put_enum values_containment_outcome (fs_containment s),
      put_u32 (word_of_nat (fs_target_count s)), put_raw (fs_digest s)]"

definition read_summary :: "finding_summary reader" where
  "read_summary =
     read_then read_u64 (\<lambda>k. read_then read_u64 (\<lambda>generation. read_then (read_enum values_finding_state) (\<lambda>state.
     read_then (read_enum values_fence_cause) (\<lambda>cause. read_then (read_enum values_loop_outcome) (\<lambda>oc.
     read_then read_u64 (\<lambda>flags. read_then read_u32 (\<lambda>witnesses. read_then read_u32 (\<lambda>resources.
     read_then (read_enum values_containment_outcome) (\<lambda>containment. read_then read_u32 (\<lambda>targets.
     read_then (read_check (flags \<le> 0xFFFFFFFF) (R_WireFrameBadEnum, ''assessment flags are out of range'')) (\<lambda>_.
     read_then read_digest (\<lambda>digest. read_value
       \<lparr>fs_id = k, fs_generation = generation, fs_state = state, fs_cause = cause, fs_outcome = oc,
        fs_flags = ucast flags, fs_witness_count = unat witnesses, fs_resource_count = unat resources,
        fs_containment = containment, fs_target_count = unat targets, fs_digest = digest\<rparr>))))))))))))"

definition encode_finding_reply :: "finding_reply_message \<Rightarrow> u8 list" where
  "encode_finding_reply m = take_data (put_all
     [put_counted write_summary (fm_findings m), put_raw (fm_state_digest m)])"

definition decode_finding_reply :: "limits \<Rightarrow> u8 list \<Rightarrow> finding_reply_message result" where
  "decode_finding_reply l = run_decoder (
     read_then (or_report (read_counted (max_retained_findings l) read_summary)) (\<lambda>findings.
     read_then (or_report read_digest) (\<lambda>digest.
     read_then (read_end (Oc_Invalid, ''finding reply has trailing bytes'')) (\<lambda>_. read_value
       \<lparr>fm_findings = findings, fm_state_digest = digest\<rparr>))))"

definition summary_valid :: "finding_summary \<Rightarrow> bool" where
  "summary_valid s \<longleftrightarrow> fs_witness_count s < 2 ^ 32 \<and> fs_resource_count s < 2 ^ 32 \<and> fs_target_count s < 2 ^ 32 \<and>
     length (fs_digest s) = 32"

definition finding_reply_valid :: "limits \<Rightarrow> finding_reply_message \<Rightarrow> bool" where
  "finding_reply_valid l m \<longleftrightarrow> length (fm_findings m) \<le> unat (max_retained_findings l) \<and>
     (\<forall>s \<in> set (fm_findings m). summary_valid s) \<and> length (fm_state_digest m) = 32"

record state_digest_reply_message =
  sm_store_digest :: digest
  sm_fence_digest :: digest
  sm_fence :: fence_vector
  sm_finding_count :: u64
  sm_lineage_count :: u64
  sm_observation_count :: u64
  sm_retained_attempts :: u64

definition encode_state_digest_reply :: "state_digest_reply_message \<Rightarrow> u8 list" where
  "encode_state_digest_reply m = take_data (put_all
     [put_raw (sm_store_digest m), put_raw (sm_fence_digest m), put_raw (encode_fence (sm_fence m)),
      put_u64 (sm_finding_count m), put_u64 (sm_lineage_count m), put_u64 (sm_observation_count m),
      put_u64 (sm_retained_attempts m)])"

definition decode_state_digest_reply :: "u8 list \<Rightarrow> state_digest_reply_message result" where
  "decode_state_digest_reply = run_decoder (
     read_then (or_report read_digest) (\<lambda>store. read_then (or_report read_digest) (\<lambda>fenced.
     read_then decode_fence (\<lambda>fence. read_then (or_report read_u64) (\<lambda>findings.
     read_then (or_report read_u64) (\<lambda>lineage. read_then (or_report read_u64) (\<lambda>observations.
     read_then (or_report read_u64) (\<lambda>attempts.
     read_then (read_end (Oc_Invalid, ''state digest reply has trailing bytes'')) (\<lambda>_. read_value
       \<lparr>sm_store_digest = store, sm_fence_digest = fenced, sm_fence = fence, sm_finding_count = findings,
        sm_lineage_count = lineage, sm_observation_count = observations, sm_retained_attempts = attempts\<rparr>)))))))))"

definition state_digest_reply_valid :: "state_digest_reply_message \<Rightarrow> bool" where
  "state_digest_reply_valid m \<longleftrightarrow> length (sm_store_digest m) = 32 \<and> length (sm_fence_digest m) = 32 \<and>
     \<not> fence_is_zero (sm_fence m)"

record restart_report_message =
  rm_boot :: u64
  rm_incarnation :: u64
  rm_epoch :: u64
  rm_torn_tail_recovered :: bool
  rm_fenced_findings :: u32
  rm_dropped_findings :: u32
  rm_retained_findings :: u32
  rm_lineage_records :: u32
  rm_store_digest :: digest

definition encode_restart_report :: "restart_report_message \<Rightarrow> u8 list" where
  "encode_restart_report m = take_data (put_all
     [put_u64 (rm_boot m), put_u64 (rm_incarnation m), put_u64 (rm_epoch m), put_bool (rm_torn_tail_recovered m),
      put_u32 (rm_fenced_findings m), put_u32 (rm_dropped_findings m), put_u32 (rm_retained_findings m),
      put_u32 (rm_lineage_records m), put_raw (rm_store_digest m)])"

definition read_restart_report :: "restart_report_message reader" where
  "read_restart_report =
     read_then read_u64 (\<lambda>boot. read_then read_u64 (\<lambda>incarnation. read_then read_u64 (\<lambda>epoch.
     read_then read_bool (\<lambda>torn. read_then read_u32 (\<lambda>fenced. read_then read_u32 (\<lambda>dropped.
     read_then read_u32 (\<lambda>retained. read_then read_u32 (\<lambda>lineage. read_then read_digest (\<lambda>digest. read_value
       \<lparr>rm_boot = boot, rm_incarnation = incarnation, rm_epoch = epoch, rm_torn_tail_recovered = torn,
        rm_fenced_findings = fenced, rm_dropped_findings = dropped, rm_retained_findings = retained,
        rm_lineage_records = lineage, rm_store_digest = digest\<rparr>)))))))))"

definition decode_restart_report :: "u8 list \<Rightarrow> restart_report_message result" where
  "decode_restart_report = run_decoder (read_then (or_report read_restart_report) (\<lambda>m.
     read_then (read_end (Oc_Invalid, ''restart report has trailing bytes'')) (\<lambda>_. read_value m)))"

section \<open>Every message is the codec of its value\<close>

lemma put_fence [simp]: "fst (put_raw (encode_fence f)) = encode_fence f" "\<not> snd (put_raw (encode_fence f))"
  by (simp_all add: put_raw_def)

lemma identity_simps [simp]:
  "read_process_identity (fst (write_process_identity p) @ rest) = Inr (p, rest)"
  by (rule identity_codec.get_put) simp

lemma flags_in_range [simp]: "ucast (x :: u32) \<le> (0xFFFFFFFF :: u64)" "ucast (ucast x :: u64) = x"
proof -
  have "unat (ucast x :: u64) = unat x" by transfer (simp add: take_bit_eq_mod)
  moreover have "unat x \<le> 0xFFFFFFFF" using unat_u32_bound[of x] by linarith
  ultimately show "ucast x \<le> (0xFFFFFFFF :: u64)" by (simp add: word_le_nat_alt)
  show "ucast (ucast x :: u64) = x" by transfer simp
qed

lemmas message_simps = take_data_def put_simps put_enum_def read_run

interpretation hello_payload: payload_codec encode_hello decode_hello "\<lambda>_. True"
  by unfold_locales (simp add: encode_hello_def decode_hello_def read_hello_def message_simps)

interpretation hello_ack_payload: payload_codec encode_hello_ack decode_hello_ack hello_ack_valid
  by unfold_locales (simp add: encode_hello_ack_def decode_hello_ack_def hello_ack_valid_def message_simps)

interpretation error_payload: payload_codec encode_error decode_error "\<lambda>m. length (em_detail m) \<le> 512"
  by unfold_locales (simp add: encode_error_def decode_error_def message_simps)

interpretation detect_request_payload:
  payload_codec encode_detect_request "decode_detect_request l" "detect_request_valid l" for l
  by unfold_locales (simp add: encode_detect_request_def decode_detect_request_def detect_request_valid_def
      message_simps)

lemma read_flag_put [simp]: "read_flag ((if b then 1 else 0) # rest) = Inr (b, rest)"
  by (simp add: read_flag_def read_run)

lemma read_counters_put [simp]: "read_counters (fst (write_counters c) @ rest) = Inr (c, rest)"
  by (simp add: read_counters_def write_counters_def message_simps)

interpretation assessment_reply_payload:
  payload_codec "encode_assessment_reply l" "decode_assessment_reply l" "assessment_reply_valid l" for l
  by unfold_locales (simp add: encode_assessment_reply_def decode_assessment_reply_def assessment_reply_valid_def
      message_simps unat_of_nat)

interpretation plan_reply_payload:
  payload_codec "encode_plan_reply l" "decode_plan_reply l" "plan_reply_valid l" for l
  by unfold_locales (simp add: encode_plan_reply_def decode_plan_reply_def plan_reply_valid_def message_simps)

interpretation contain_intent_payload:
  payload_codec encode_contain_intent "decode_contain_intent l" "contain_intent_valid l" for l
  by unfold_locales (simp add: encode_contain_intent_def decode_contain_intent_def contain_intent_valid_def
      message_simps not_less)

interpretation contain_ack_payload:
  payload_codec "encode_contain_ack l" "decode_contain_ack l" "contain_ack_valid l" for l
  by unfold_locales (simp add: encode_contain_ack_def decode_contain_ack_def read_contain_ack_def
      contain_ack_valid_def message_simps)

interpretation effect_report_payload:
  payload_codec encode_effect_report "decode_effect_report l" "effect_report_valid l" for l
proof
  fix m assume v: "effect_report_valid l m"
  then have fence: "\<not> fence_is_zero (vm_fence m)" by (simp add: effect_report_valid_def)
  show "decode_effect_report l (encode_effect_report m) = ok m"
  proof (cases "vm_has_observation m")
    case True
    let ?blob = "encode_observation (vm_observation_payload m)"
    have ob: "decode_observation l ?blob = ok (vm_observation_payload m)" and len: "length ?blob \<le> k_frame_payload"
      using v True by (auto simp: effect_report_valid_def intro: observation_payload.decode_encode)
    then have "read_embedded_observation l (le32 (word_of_nat (length ?blob)) @ ?blob) =
        Inr (vm_observation_payload m, [])"
      using payload_length_small[OF len] by (simp add: read_embedded_observation_def read_run)
    then show ?thesis
      using fence True by (simp add: encode_effect_report_def decode_effect_report_def message_simps)
  next
    case False
    then have "vm_observation_payload m = default_observation" using v by (simp add: effect_report_valid_def)
    then show ?thesis
      using fence False by (simp add: encode_effect_report_def decode_effect_report_def message_simps)
  qed
qed

interpretation summary_codec: reader_codec write_summary read_summary summary_valid
  by unfold_locales (simp_all add: write_summary_def read_summary_def summary_valid_def message_simps unat_of_nat)

interpretation finding_reply_payload:
  payload_codec encode_finding_reply "decode_finding_reply l" "finding_reply_valid l" for l
  by unfold_locales (simp add: encode_finding_reply_def decode_finding_reply_def finding_reply_valid_def
      message_simps summary_codec.get_counted)

interpretation state_digest_reply_payload:
  payload_codec encode_state_digest_reply decode_state_digest_reply state_digest_reply_valid
  by unfold_locales (simp add: encode_state_digest_reply_def decode_state_digest_reply_def
      state_digest_reply_valid_def message_simps)

interpretation restart_report_payload:
  payload_codec encode_restart_report decode_restart_report "\<lambda>m. length (rm_store_digest m) = 32"
  by unfold_locales (simp add: encode_restart_report_def decode_restart_report_def read_restart_report_def
      message_simps)

end
