(* ===== verification/Durable.thy ===== *)
theory Durable
  imports Messages Authority
begin

text \<open>
  The durable document of src/persistence.cpp: record framing, the codecs of every entity that survives
  a restart, the whole-document codec and the record payload codec.

  The lemmas: a record frame decodes to its record and the offset after it (\<open>decode_record_frame\<close>); a
  strict prefix of a record frame is a torn tail, never a record and never corruption
  (\<open>decode_record_prefix\<close>); every entity codec is an instance of \<open>payload_codec\<close>.
\<close>

section \<open>Record types\<close>

datatype record_type =
    Rt_Snapshot | Rt_TopologyDefinition | Rt_ContainmentPolicyRecord | Rt_LineageAppend | Rt_FindingUpsert
  | Rt_FindingWithdraw | Rt_BootAdvance | Rt_FenceAdvance | Rt_Note

definition values_record_type :: "record_type list" where
  "values_record_type =
     [Rt_Snapshot, Rt_TopologyDefinition, Rt_ContainmentPolicyRecord, Rt_LineageAppend, Rt_FindingUpsert,
      Rt_FindingWithdraw, Rt_BootAdvance, Rt_FenceAdvance, Rt_Note]"

primrec name_record_type :: "record_type \<Rightarrow> string" where
  "name_record_type Rt_Snapshot = ''Snapshot''"
| "name_record_type Rt_TopologyDefinition = ''TopologyDefinition''"
| "name_record_type Rt_ContainmentPolicyRecord = ''ContainmentPolicy''"
| "name_record_type Rt_LineageAppend = ''LineageAppend''"
| "name_record_type Rt_FindingUpsert = ''FindingUpsert''"
| "name_record_type Rt_FindingWithdraw = ''FindingWithdraw''"
| "name_record_type Rt_BootAdvance = ''BootAdvance''"
| "name_record_type Rt_FenceAdvance = ''FenceAdvance''"
| "name_record_type Rt_Note = ''Note''"

interpretation record_type: enum_range values_record_type name_record_type
proof
  show "e \<in> set values_record_type" for e by (cases e) (simp_all add: values_record_type_def)
qed (simp_all add: values_record_type_def)

definition record_type_raw :: "record_type \<Rightarrow> u16" where
  "record_type_raw t = ucast (enum_raw values_record_type t)"

definition is_valid_record_type :: "u16 \<Rightarrow> bool" where
  "is_valid_record_type raw \<longleftrightarrow> raw \<le> record_type_raw Rt_Note"

definition record_type_of :: "u16 \<Rightarrow> record_type" where
  "record_type_of raw = values_record_type ! unat raw"

section \<open>Record frames\<close>

definition k_durable_magic :: u32 where "k_durable_magic = 0x3147524C"

definition k_record_version :: u16 where "k_record_version = 1"

definition k_record_header_bytes :: nat where "k_record_header_bytes = 88"

definition k_record_payload :: nat where "k_record_payload = 4 * 2 ^ 20"

definition k_snapshot_payload :: nat where "k_snapshot_payload = 32 * 2 ^ 20"

record decoded_record =
  dr_type :: record_type
  dr_version :: u16
  dr_flags :: u32
  dr_sequence :: u64
  dr_payload :: "u8 list"

text \<open>The header up to its own digest.\<close>

definition record_head :: "record_type \<Rightarrow> u64 \<Rightarrow> u32 \<Rightarrow> u8 list \<Rightarrow> u8 list" where
  "record_head type sequence generation payload =
     le32 k_durable_magic @ le16 k_record_version @ le16 (record_type_raw type) @ le32 generation @ le64 sequence @
     le32 (word_of_nat (length payload)) @ sha256 payload @ replicate 24 0"

definition frame_record :: "record_type \<Rightarrow> u64 \<Rightarrow> u32 \<Rightarrow> u8 list \<Rightarrow> u8 list" where
  "frame_record type sequence generation payload =
     record_head type sequence generation payload @ take 8 (sha256 (record_head type sequence generation payload)) @ payload"

datatype record_decode =
    Rec_End
  | Rec_Torn reason_code string nat
  | Rec_Corrupt reason_code string
  | Rec_Ok decoded_record nat

definition txt_trailing_bytes_are_a_prefix :: string where
  "txt_trailing_bytes_are_a_prefix = ''trailing bytes are a prefix of a record header''"

definition txt_trailing_bytes_do_not_begin :: string where
  "txt_trailing_bytes_do_not_begin = ''trailing bytes do not begin a record''"

definition txt_record_sequence_zero_is_not :: string where
  "txt_record_sequence_zero_is_not = ''record sequence zero is not a valid sequence''"

definition txt_record_payload_is_shorter_than :: string where
  "txt_record_payload_is_shorter_than = ''record payload is shorter than its declared length''"

definition decode_record_at :: "u8 list \<Rightarrow> nat \<Rightarrow> record_decode" where
  "decode_record_at bytes offset =
     (if offset = length bytes then Rec_End
      else
        let header = drop offset bytes;
            remaining = length bytes - offset
        in if remaining < k_record_header_bytes
           then (if (if remaining \<ge> 4 then u32_at 0 header = k_durable_magic
                     else hd header = ucast (k_durable_magic AND 0xFF))
                 then Rec_Torn R_PersistenceTornTailRecovered txt_trailing_bytes_are_a_prefix (length bytes)
                 else Rec_Corrupt R_PersistenceTrailingGarbage txt_trailing_bytes_do_not_begin)
           else if u32_at 0 header \<noteq> k_durable_magic
             then Rec_Corrupt R_PersistenceIntegrityFailure ''record magic mismatch''
           else if u16_at 4 header \<noteq> k_record_version
             then Rec_Corrupt R_PersistenceFormatUnsupported
               (''record version '' @ dec_digits (unat (u16_at 4 header)) @ '' is not supported'')
           else if \<not> is_valid_record_type (u16_at 6 header)
             then Rec_Corrupt R_PersistenceRecordRejected ''record type is out of domain''
           else if u64_at 12 header = 0
             then Rec_Corrupt R_PersistenceSequenceRegression txt_record_sequence_zero_is_not
           else if unat (u32_at 20 header) > k_record_payload
             then Rec_Corrupt R_PersistenceIntegrityFailure txt_declared_payload_length_exceeds_the
           else if \<exists>b \<in> set (take 24 (drop 56 header)). b \<noteq> 0
             then Rec_Corrupt R_PersistenceRecordRejected ''record reserved bytes are not zero''
           else if take 8 (drop 80 header) \<noteq> take 8 (sha256 (take 80 header))
             then Rec_Corrupt R_PersistenceIntegrityFailure ''record header digest mismatch''
           else
             let declared = unat (u32_at 20 header);
                 payload = take declared (drop k_record_header_bytes header)
             in if remaining < k_record_header_bytes + declared
                then Rec_Torn R_PersistenceTornTailRecovered txt_record_payload_is_shorter_than (length bytes)
                else if sha256 payload \<noteq> take 32 (drop 24 header)
                  then Rec_Corrupt R_PersistenceIntegrityFailure ''record payload digest mismatch''
                else Rec_Ok \<lparr>dr_type = record_type_of (u16_at 6 header), dr_version = u16_at 4 header,
                       dr_flags = u32_at 8 header, dr_sequence = u64_at 12 header, dr_payload = payload\<rparr>
                     (offset + k_record_header_bytes + declared))"

section \<open>Entities\<close>

record boot_record =
  br_id :: u64
  br_boot :: u64
  br_incarnation :: u64
  br_epoch :: u64
  br_producer :: u64
  br_started_at :: u64
  br_closed_at :: u64
  br_clean_shutdown :: bool

definition default_boot_record :: boot_record where
  "default_boot_record = \<lparr>br_id = 0, br_boot = 0, br_incarnation = 0, br_epoch = 0, br_producer = 0,
     br_started_at = 0, br_closed_at = 0, br_clean_shutdown = False\<rparr>"

definition boot_record_digest :: "boot_record \<Rightarrow> digest" where
  "boot_record_digest r = sha256 (concat (map le64 [br_id r, br_boot r, br_incarnation r, br_epoch r,
     br_producer r, br_started_at r, br_closed_at r]) @ [if br_clean_shutdown r then 1 else 0])"

definition encode_boot_record :: "boot_record \<Rightarrow> u8 list" where
  "encode_boot_record r = take_data (put_all
     [put_u64 (br_id r), put_u64 (br_boot r), put_u64 (br_incarnation r), put_u64 (br_epoch r),
      put_u64 (br_producer r), put_u64 (br_started_at r), put_u64 (br_closed_at r), put_bool (br_clean_shutdown r)])"

definition read_boot_record :: "boot_record reader" where
  "read_boot_record =
     read_then read_u64 (\<lambda>k. read_then read_u64 (\<lambda>boot. read_then read_u64 (\<lambda>incarnation. read_then read_u64 (\<lambda>epoch.
     read_then read_u64 (\<lambda>producer. read_then read_u64 (\<lambda>started_at. read_then read_u64 (\<lambda>closed_at.
     read_then read_bool (\<lambda>clean. read_value
       \<lparr>br_id = k, br_boot = boot, br_incarnation = incarnation, br_epoch = epoch, br_producer = producer,
        br_started_at = started_at, br_closed_at = closed_at, br_clean_shutdown = clean\<rparr>))))))))"

definition decode_boot_record :: "u8 list \<Rightarrow> boot_record result" where
  "decode_boot_record = run_decoder (read_then (or_fail Oc_Invalid ''boot record is truncated'' read_boot_record) (\<lambda>r.
     read_then (read_end (Oc_Invalid, ''boot record has trailing bytes'')) (\<lambda>_. read_value r)))"

definition encode_shutdown_marker :: "u64 \<Rightarrow> bool \<Rightarrow> u64 \<Rightarrow> u8 list" where
  "encode_shutdown_marker boot clean at_tick = take_data (put_all [put_u64 boot, put_bool clean, put_u64 at_tick])"

definition read_shutdown_marker :: "boot_record reader" where
  "read_shutdown_marker =
     read_then read_u64 (\<lambda>boot. read_then read_bool (\<lambda>clean. read_then read_u64 (\<lambda>closed_at. read_value
       (default_boot_record\<lparr>br_boot := boot, br_clean_shutdown := clean, br_closed_at := closed_at\<rparr>))))"

definition decode_shutdown_marker :: "u8 list \<Rightarrow> boot_record result" where
  "decode_shutdown_marker = run_decoder (
     read_then (or_fail Oc_Invalid ''shutdown marker is truncated'' read_shutdown_marker) (\<lambda>r.
     read_then (read_end (Oc_Invalid, ''shutdown marker has trailing bytes'')) (\<lambda>_. read_value r)))"

definition zero_fence :: fence_vector where
  "zero_fence = \<lparr>fv_topology = 0, fv_forwarding = 0, fv_policy = 0, fv_fabric_epoch = 0, fv_epoch = 0, fv_boot = 0\<rparr>"

definition default_finding :: finding where
  "default_finding = \<lparr>fi_id = 0, fi_generation = 0, fi_assessment = 0, fi_assessment_digest = zero_digest,
     fi_fence = zero_fence, fi_state = Fs_Proposed, fi_cause = Cause_None, fi_outcome = Loop_Invalid, fi_flags = 0,
     fi_witnesses = [], fi_resources = [], fi_selectors = [], fi_plan = 0, fi_intent = 0, fi_created_at = 0,
     fi_updated_at = 0, fi_origin = Origin_Synthetic, fi_explanation = default_explanation\<rparr>"

definition default_lineage :: lineage_record where
  "default_lineage = \<lparr>lr_id = 0, lr_sequence = 0, lr_recorded_at = 0, lr_kind = Auth_Observation, lr_finding = 0,
     lr_plan = 0, lr_intent = 0, lr_fence = zero_fence, lr_subject_digest = zero_digest,
     lr_reason = R_RequestAccepted, lr_severity = Sev_Info\<rparr>"

definition write_reason :: "explanation_reason \<Rightarrow> writes" where
  "write_reason r = put_all
     [put_enum values_reason_code (er_code r), put_text k_string_bytes (er_subject r), put_text k_string_bytes (er_detail r)]"

definition write_finding :: "finding \<Rightarrow> writes" where
  "write_finding f = put_all
     [put_u64 (fi_id f), put_u64 (fi_generation f), put_u64 (fi_assessment f), put_raw (fi_assessment_digest f),
      put_raw (encode_fence (fi_fence f)), put_enum values_finding_state (fi_state f),
      put_enum values_fence_cause (fi_cause f), put_enum values_loop_outcome (fi_outcome f), put_u64 (ucast (fi_flags f)),
      put_counted put_u64 (fi_witnesses f), put_counted put_u64 (fi_resources f), put_counted put_u64 (fi_selectors f),
      put_u64 (fi_plan f), put_u64 (fi_intent f), put_u64 (fi_created_at f), put_u64 (fi_updated_at f),
      put_enum values_evidence_origin (fi_origin f), put_counted write_reason (ex_reasons (fi_explanation f))]"

definition encode_finding :: "finding \<Rightarrow> u8 list" where
  "encode_finding f = take_checked (write_finding f)"

text \<open>An enumerator read by hand: one text for a missing byte, another for a value out of domain.\<close>

definition read_named_enum :: "'e list \<Rightarrow> string \<Rightarrow> string \<Rightarrow> 'e decoder" where
  "read_named_enum vals truncated domain = read_then (or_fail Oc_Invalid truncated read_u8) (\<lambda>raw bytes.
     case enum_from_u32 vals (ucast raw) of None \<Rightarrow> Inl (Oc_Invalid, domain) | Some e \<Rightarrow> Inr (e, bytes))"

definition read_id_list :: "u32 \<Rightarrow> string \<Rightarrow> u64 list decoder" where
  "read_id_list max_count truncated = read_then (or_report (read_count max_count)) (\<lambda>n.
     read_times (unat n) (or_fail Oc_Invalid truncated read_u64))"

definition read_reason_texts :: "(u8 \<times> string \<times> string) reader" where
  "read_reason_texts = read_then read_u8 (\<lambda>raw. read_then (read_text k_string_bytes) (\<lambda>subject.
     read_then (read_text k_string_bytes) (\<lambda>detail. read_value (raw, subject, detail))))"

definition txt_finding_explanation_is_truncated :: string where
  "txt_finding_explanation_is_truncated = ''finding explanation is truncated''"

definition add_reason :: "explanation \<Rightarrow> u8 \<times> string \<times> string \<Rightarrow> explanation decoder" where
  "add_reason e r bytes = (case r of (raw, subject, detail) \<Rightarrow>
     (case enum_from_u32 values_reason_code (ucast raw) of
        None \<Rightarrow> Inl (Oc_Invalid, ''reason code is out of domain'')
      | Some code \<Rightarrow> Inr (ex_add code subject detail e, bytes)))"

definition read_explanation :: "limits \<Rightarrow> explanation decoder" where
  "read_explanation l = read_then (or_report (read_count (max_explanation_reasons l))) (\<lambda>n.
     read_fold (unat n) (\<lambda>e. read_then (or_fail Oc_Invalid txt_finding_explanation_is_truncated read_reason_texts) (add_reason e))
       (new_explanation (max_explanation_reasons l)))"

definition txt_finding_flags_are_truncated_or :: string where
  "txt_finding_flags_are_truncated_or = ''finding flags are truncated or out of range''"

definition decode_finding :: "limits \<Rightarrow> u8 list \<Rightarrow> finding result" where
  "decode_finding l = run_decoder (
     read_then (or_fail Oc_Invalid ''finding header is truncated'' (read_then read_u64 (\<lambda>k. read_then read_u64 (\<lambda>generation.
       read_then read_u64 (\<lambda>assessment. read_then read_digest (\<lambda>digest. read_value (k, generation, assessment, digest)))))))
     (\<lambda>(k, generation, assessment, digest).
     read_then decode_fence (\<lambda>fence.
     read_then (read_named_enum values_finding_state ''finding state is truncated'' ''finding state is out of domain'') (\<lambda>state.
     read_then (read_named_enum values_fence_cause ''finding fence cause is truncated''
       ''finding fence cause is out of domain'') (\<lambda>cause.
     read_then (read_named_enum values_loop_outcome ''finding outcome is truncated'' ''finding outcome is out of domain'') (\<lambda>oc.
     read_then (or_fail Oc_Invalid txt_finding_flags_are_truncated_or read_u64) (\<lambda>flags.
     read_then (read_check (flags \<le> 0xFFFFFFFF) (Oc_Invalid, txt_finding_flags_are_truncated_or)) (\<lambda>_.
     read_then (read_id_list (max_witnesses_per_assessment l) ''witness list is truncated'') (\<lambda>witnesses.
     read_then (read_id_list (max_resources l) ''resource list is truncated'') (\<lambda>resources.
     read_then (read_id_list (max_selectors l) ''selector list is truncated'') (\<lambda>selectors.
     read_then (or_fail Oc_Invalid ''finding tail is truncated'' (read_then read_u64 (\<lambda>plan. read_then read_u64 (\<lambda>intent.
       read_then read_u64 (\<lambda>created_at. read_then read_u64 (\<lambda>updated_at. read_value (plan, intent, created_at, updated_at)))))))
     (\<lambda>(plan, intent, created_at, updated_at).
     read_then (read_named_enum values_evidence_origin ''finding origin is truncated'' ''finding origin is out of domain'') (\<lambda>origin.
     read_then (read_explanation l) (\<lambda>explanation.
     read_then (read_end (Oc_Invalid, ''finding record has trailing bytes'')) (\<lambda>_. read_value
       \<lparr>fi_id = k, fi_generation = generation, fi_assessment = assessment, fi_assessment_digest = digest,
        fi_fence = fence, fi_state = state, fi_cause = cause, fi_outcome = oc, fi_flags = ucast flags,
        fi_witnesses = witnesses, fi_resources = resources, fi_selectors = selectors, fi_plan = plan,
        fi_intent = intent, fi_created_at = created_at, fi_updated_at = updated_at, fi_origin = origin,
        fi_explanation = explanation\<rparr>)))))))))))))))"

definition write_lineage :: "lineage_record \<Rightarrow> writes" where
  "write_lineage r = put_all
     [put_u64 (lr_id r), put_u64 (lr_sequence r), put_u64 (lr_recorded_at r), put_enum values_authority_kind (lr_kind r),
      put_u64 (lr_finding r), put_u64 (lr_plan r), put_u64 (lr_intent r), put_raw (encode_fence (lr_fence r)),
      put_raw (lr_subject_digest r), put_enum values_reason_code (lr_reason r), put_enum values_severity (lr_severity r)]"

definition encode_lineage :: "lineage_record \<Rightarrow> u8 list" where
  "encode_lineage r = take_checked (write_lineage r)"

definition read_raw_enum :: "'e list \<Rightarrow> u8 \<Rightarrow> string \<Rightarrow> 'e decoder" where
  "read_raw_enum vals raw domain bytes =
     (case enum_from_u32 vals (ucast raw) of None \<Rightarrow> Inl (Oc_Invalid, domain) | Some e \<Rightarrow> Inr (e, bytes))"

definition decode_lineage :: "u8 list \<Rightarrow> lineage_record result" where
  "decode_lineage = run_decoder (
     read_then (or_fail Oc_Invalid ''lineage header is truncated'' (read_then read_u64 (\<lambda>k. read_then read_u64 (\<lambda>sequence.
       read_then read_u64 (\<lambda>recorded_at. read_then read_u8 (\<lambda>raw. read_value (k, sequence, recorded_at, raw)))))))
     (\<lambda>(k, sequence, recorded_at, raw).
     read_then (read_raw_enum values_authority_kind raw ''authority kind is out of domain'') (\<lambda>kind.
     read_then (or_fail Oc_Invalid ''lineage references are truncated'' (read_then read_u64 (\<lambda>finding.
       read_then read_u64 (\<lambda>plan. read_then read_u64 (\<lambda>intent. read_value (finding, plan, intent))))))
     (\<lambda>(finding, plan, intent).
     read_then decode_fence (\<lambda>fence.
     read_then (or_fail Oc_Invalid ''lineage digests are truncated'' (read_then read_digest (\<lambda>digest.
       read_then read_u8 (\<lambda>raw. read_value (digest, raw))))) (\<lambda>(digest, raw).
     read_then (read_raw_enum values_reason_code raw ''reason code is out of domain'') (\<lambda>reason.
     read_then (read_named_enum values_severity ''lineage severity is truncated'' ''severity is out of domain'') (\<lambda>severity.
     read_then (read_end (Oc_Invalid, ''lineage record has trailing bytes'')) (\<lambda>_. read_value
       \<lparr>lr_id = k, lr_sequence = sequence, lr_recorded_at = recorded_at, lr_kind = kind, lr_finding = finding,
        lr_plan = plan, lr_intent = intent, lr_fence = fence, lr_subject_digest = digest, lr_reason = reason,
        lr_severity = severity\<rparr>)))))))))"

definition encode_finding_withdrawal :: "u64 \<Rightarrow> fence_cause \<Rightarrow> u64 \<Rightarrow> reason_code \<Rightarrow> string \<Rightarrow> u8 list" where
  "encode_finding_withdrawal k cause now reason detail = take_data (put_all
     [put_u64 k, put_enum values_fence_cause cause, put_u64 now, put_enum values_reason_code reason,
      put_text k_string_bytes detail])"

definition decode_finding_withdrawal :: "u8 list \<Rightarrow> finding result" where
  "decode_finding_withdrawal = run_decoder (
     read_then (or_fail Oc_Invalid ''withdrawal identity is truncated'' read_u64) (\<lambda>k.
     read_then (read_named_enum values_fence_cause ''withdrawal cause is truncated'' ''withdrawal cause is out of domain'') (\<lambda>cause.
     read_then (or_fail Oc_Invalid ''withdrawal tick is truncated'' read_u64) (\<lambda>now.
     read_then (read_named_enum values_reason_code ''withdrawal reason is truncated''
       ''withdrawal reason is out of domain'') (\<lambda>reason.
     read_then (or_fail Oc_Invalid ''withdrawal detail is truncated'' (read_text k_string_bytes)) (\<lambda>detail.
     read_then (read_end (Oc_Invalid, ''withdrawal has trailing bytes'')) (\<lambda>_. read_value
       (default_finding\<lparr>fi_id := k, fi_cause := cause, fi_updated_at := now, fi_state := Fs_Withdrawn,
          fi_explanation := ex_add reason (id_to_string k) detail
            (new_explanation (max_explanation_reasons default_limits))\<rparr>))))))))"

section \<open>The document\<close>

record store_state =
  ss_record_version :: u16
  ss_snapshot_schema :: u16
  ss_store_generation :: u32
  ss_topology_generation :: u64
  ss_topology :: "topology option"
  ss_policy :: "containment_policy option"
  ss_boot_ledger :: "boot_record list"
  ss_lineage :: "lineage_record list"
  ss_findings :: "finding list"
  ss_fence :: fence_vector
  ss_lineage_sequence :: u64
  ss_finding_sequence :: u64
  ss_assessment_sequence :: u64

definition default_store_state :: store_state where
  "default_store_state = \<lparr>ss_record_version = 1, ss_snapshot_schema = 1, ss_store_generation = 1,
     ss_topology_generation = 0, ss_topology = None, ss_policy = None, ss_boot_ledger = [], ss_lineage = [],
     ss_findings = [], ss_fence = zero_fence, ss_lineage_sequence = 0, ss_finding_sequence = 0,
     ss_assessment_sequence = 0\<rparr>"

definition write_blob :: "u8 list \<Rightarrow> writes" where
  "write_blob blob = put_all [put_u32 (word_of_nat (length blob)), put_raw blob]"

definition write_optional :: "('a \<Rightarrow> u8 list) \<Rightarrow> 'a option \<Rightarrow> writes" where
  "write_optional encode x = put_all (put_bool (x \<noteq> None) #
     (case x of None \<Rightarrow> [] | Some v \<Rightarrow> [write_blob (encode v)]))"

definition write_store_state :: "store_state \<Rightarrow> writes" where
  "write_store_state s = put_all
     [put_u16 (ss_snapshot_schema s), put_u16 (ss_record_version s), put_u32 (ss_store_generation s),
      put_u64 (ss_topology_generation s), write_optional encode_topology (ss_topology s),
      write_optional encode_policy (ss_policy s),
      put_counted (\<lambda>r. write_blob (encode_boot_record r)) (ss_boot_ledger s),
      put_counted (\<lambda>r. write_blob (encode_lineage r)) (ss_lineage s),
      put_counted (\<lambda>f. write_blob (encode_finding f)) (ss_findings s),
      write_blob (encode_fence (ss_fence s)), put_u64 (ss_lineage_sequence s), put_u64 (ss_finding_sequence s),
      put_u64 (ss_assessment_sequence s)]"

definition encode_store_state :: "store_state \<Rightarrow> u8 list" where
  "encode_store_state s = take_checked (write_store_state s)"

definition store_state_digest :: "store_state \<Rightarrow> digest" where
  "store_state_digest s = sha256 (encode_store_state s)"

definition read_blob :: "nat \<Rightarrow> string \<Rightarrow> string \<Rightarrow> u8 list decoder" where
  "read_blob max_bytes out_of_range truncated =
     read_then (or_fail Oc_Invalid out_of_range read_u32) (\<lambda>n.
     read_then (read_check (unat n \<le> max_bytes) (Oc_Invalid, out_of_range)) (\<lambda>_.
     or_fail Oc_Invalid truncated (read_raw (unat n))))"

definition read_optional :: "string \<Rightarrow> string \<Rightarrow> string \<Rightarrow> (u8 list \<Rightarrow> 'a result) \<Rightarrow> 'a option decoder" where
  "read_optional presence out_of_range truncated decode =
     read_then (or_fail Oc_Invalid presence read_bool) (\<lambda>present.
     if present then read_then (read_blob k_snapshot_payload out_of_range truncated) (\<lambda>blob.
       read_then (lift_result (decode blob)) (\<lambda>x. read_value (Some x)))
     else read_value None)"

definition read_entities :: "u32 \<Rightarrow> string \<Rightarrow> string \<Rightarrow> (u8 list \<Rightarrow> 'a result) \<Rightarrow> 'a list decoder" where
  "read_entities max_count out_of_range truncated decode = read_then (or_report (read_count max_count)) (\<lambda>n.
     read_times (unat n) (read_then (read_blob k_record_payload out_of_range truncated) (\<lambda>blob. lift_result (decode blob))))"

definition read_fence_blob :: "fence_vector decoder" where
  "read_fence_blob =
     read_then (or_fail Oc_Invalid ''fence blob length is out of range'' read_u32) (\<lambda>n.
     read_then (read_check (n \<noteq> 0 \<and> unat n \<le> k_string_bytes) (Oc_Invalid, ''fence blob length is out of range'')) (\<lambda>_.
     read_then (or_fail Oc_Invalid ''fence blob is truncated'' (read_raw (unat n))) (\<lambda>blob.
     lift_result (run_decoder decode_fence blob))))"

definition topology_matches :: "u64 \<Rightarrow> topology option \<Rightarrow> bool" where
  "topology_matches generation t = (case t of None \<Rightarrow> True | Some d \<Rightarrow> td_generation d = generation)"

definition txt_snapshot_topology_generation_disagrees :: string where
  "txt_snapshot_topology_generation_disagrees = ''snapshot topology generation disagrees with the header''"

definition parse_store_state :: "limits \<Rightarrow> store_state decoder" where
  "parse_store_state l =
     read_then (or_fail Oc_Invalid ''snapshot schema is truncated'' read_u16) (\<lambda>schema.
     read_then (read_check (schema = 1)
       (Oc_Unsupported, ''snapshot schema '' @ dec_digits (unat schema) @ '' is not supported'')) (\<lambda>_.
     read_then (or_fail Oc_Invalid ''snapshot record version is truncated'' read_u16) (\<lambda>version.
     read_then (read_check (version = k_record_version) (Oc_Unsupported, ''snapshot record version is not supported'')) (\<lambda>_.
     read_then (or_fail Oc_Invalid ''store generation must be non-zero'' read_u32) (\<lambda>generation.
     read_then (read_check (generation \<noteq> 0) (Oc_Invalid, ''store generation must be non-zero'')) (\<lambda>_.
     read_then (or_fail Oc_Invalid ''topology generation is truncated'' read_u64) (\<lambda>topology_generation.
     read_then (read_optional ''topology presence flag is truncated'' ''topology blob length is out of range''
       ''topology blob is truncated'' (decode_topology l)) (\<lambda>t.
     read_then (read_check (topology_matches topology_generation t)
       (Oc_Invalid, txt_snapshot_topology_generation_disagrees)) (\<lambda>_.
     read_then (read_optional ''policy presence flag is truncated'' ''policy blob length is out of range''
       ''policy blob is truncated'' (decode_policy l)) (\<lambda>policy.
     read_then (read_entities (max_boot_records l) ''boot record length is out of range'' ''boot record is truncated''
       decode_boot_record) (\<lambda>ledger.
     read_then (read_entities (max_retained_lineage l) ''lineage record length is out of range''
       ''lineage record is truncated'' decode_lineage) (\<lambda>lineage.
     read_then (read_entities (max_retained_findings l) ''finding record length is out of range''
       ''finding record is truncated'' (decode_finding l)) (\<lambda>findings.
     read_then read_fence_blob (\<lambda>fence.
     read_then (or_fail Oc_Invalid ''lineage sequence is truncated'' read_u64) (\<lambda>lineage_sequence.
     read_then (or_fail Oc_Invalid ''finding sequence is truncated'' read_u64) (\<lambda>finding_sequence.
     read_then (or_fail Oc_Invalid ''assessment sequence is truncated'' read_u64) (\<lambda>assessment_sequence.
     read_then (read_end (Oc_Invalid, ''snapshot has trailing bytes'')) (\<lambda>_. read_value
       \<lparr>ss_record_version = version, ss_snapshot_schema = schema, ss_store_generation = generation,
        ss_topology_generation = topology_generation, ss_topology = t, ss_policy = policy, ss_boot_ledger = ledger,
        ss_lineage = lineage, ss_findings = findings, ss_fence = fence, ss_lineage_sequence = lineage_sequence,
        ss_finding_sequence = finding_sequence, ss_assessment_sequence = assessment_sequence\<rparr>))))))))))))))))))"

definition decode_store_state :: "limits \<Rightarrow> u8 list \<Rightarrow> store_state result" where
  "decode_store_state l = run_decoder (parse_store_state l)"

section \<open>Record payloads\<close>

definition encode_record_payload ::
  "record_type \<Rightarrow> store_state \<Rightarrow> finding \<Rightarrow> lineage_record \<Rightarrow> boot_record \<Rightarrow> u8 list" where
  "encode_record_payload type delta f lineage boot = (case type of
       Rt_Snapshot \<Rightarrow> encode_store_state delta
     | Rt_TopologyDefinition \<Rightarrow> (case ss_topology delta of None \<Rightarrow> [] | Some t \<Rightarrow> encode_topology t)
     | Rt_ContainmentPolicyRecord \<Rightarrow> (case ss_policy delta of None \<Rightarrow> [] | Some p \<Rightarrow> encode_policy p)
     | Rt_LineageAppend \<Rightarrow> encode_lineage lineage
     | Rt_FindingUpsert \<Rightarrow> encode_finding f
     | Rt_FindingWithdraw \<Rightarrow>
         (case ex_reasons (fi_explanation f) of
            [] \<Rightarrow> encode_finding_withdrawal (fi_id f) (fi_cause f) (fi_updated_at f) R_FindingWithdrawn []
          | r # _ \<Rightarrow> encode_finding_withdrawal (fi_id f) (fi_cause f) (fi_updated_at f) (er_code r) (er_detail r))
     | Rt_BootAdvance \<Rightarrow> encode_boot_record boot
     | Rt_FenceAdvance \<Rightarrow> encode_fence (ss_fence delta)
     | Rt_Note \<Rightarrow> encode_shutdown_marker (br_boot boot) (br_clean_shutdown boot) (br_closed_at boot))"

definition map_result :: "('a \<Rightarrow> 'b) \<Rightarrow> 'a result \<Rightarrow> 'b result" where
  "map_result g r = (case r_value r of None \<Rightarrow> failure (r_outcome r) (r_detail r) | Some x \<Rightarrow> ok (g x))"

definition decode_fence_payload :: "u8 list \<Rightarrow> fence_vector result" where
  "decode_fence_payload payload = (case decode_fence payload of
       Inr (f, []) \<Rightarrow> ok f
     | _ \<Rightarrow> failure Oc_Invalid ''fence payload is malformed'')"

definition decode_record_payload :: "limits \<Rightarrow> record_type \<Rightarrow> u8 list \<Rightarrow> store_state result" where
  "decode_record_payload l type payload = (case type of
       Rt_Snapshot \<Rightarrow> decode_store_state l payload
     | Rt_TopologyDefinition \<Rightarrow> map_result
         (\<lambda>t. default_store_state\<lparr>ss_topology := Some t, ss_topology_generation := td_generation t\<rparr>)
         (decode_topology l payload)
     | Rt_ContainmentPolicyRecord \<Rightarrow> map_result (\<lambda>p. default_store_state\<lparr>ss_policy := Some p\<rparr>) (decode_policy l payload)
     | Rt_LineageAppend \<Rightarrow> map_result
         (\<lambda>r. default_store_state\<lparr>ss_lineage := [r], ss_lineage_sequence := lr_sequence r\<rparr>) (decode_lineage payload)
     | Rt_FindingUpsert \<Rightarrow> map_result (\<lambda>f. default_store_state\<lparr>ss_findings := [f]\<rparr>) (decode_finding l payload)
     | Rt_FindingWithdraw \<Rightarrow> map_result (\<lambda>f. default_store_state\<lparr>ss_findings := [f]\<rparr>) (decode_finding_withdrawal payload)
     | Rt_BootAdvance \<Rightarrow> map_result (\<lambda>r. default_store_state\<lparr>ss_boot_ledger := [r]\<rparr>) (decode_boot_record payload)
     | Rt_FenceAdvance \<Rightarrow> map_result (\<lambda>f. default_store_state\<lparr>ss_fence := f\<rparr>) (decode_fence_payload payload)
     | Rt_Note \<Rightarrow> map_result (\<lambda>r. default_store_state\<lparr>ss_boot_ledger := [r]\<rparr>) (decode_shutdown_marker payload))"

section \<open>Framing round trip\<close>

lemma unat_record_type_raw: "unat (record_type_raw t) = unat (enum_raw values_record_type t)"
  by (simp add: record_type_raw_def unat_ucast_u8_u16)

lemma record_type_of_raw [simp]: "record_type_of (record_type_raw t) = t"
  by (simp add: record_type_of_def unat_record_type_raw record_type.nth_raw)

lemma is_valid_record_type_iff: "is_valid_record_type raw \<longleftrightarrow> unat raw < 9"
proof -
  have "unat (record_type_raw Rt_Note) = 8"
    using record_type.raw_nth[of 8] by (simp add: unat_record_type_raw values_record_type_def)
  then show ?thesis by (auto simp: is_valid_record_type_def word_le_nat_alt)
qed

lemma record_type_valid [simp]: "is_valid_record_type (record_type_raw t)"
  using record_type.raw_bound[of t] by (simp add: is_valid_record_type_iff unat_record_type_raw values_record_type_def)

lemma length_record_head [simp]: "length (record_head t s g p) = 80"
  by (simp add: record_head_def)

lemma length_frame_record [simp]: "length (frame_record t s g p) = 88 + length p"
  by (simp add: frame_record_def)

lemma record_fields [simp]:
  "u32_at 0 (record_head t s g p @ r) = k_durable_magic" "u16_at 4 (record_head t s g p @ r) = k_record_version"
  "u16_at 6 (record_head t s g p @ r) = record_type_raw t" "u32_at 8 (record_head t s g p @ r) = g"
  "u64_at 12 (record_head t s g p @ r) = s" "u32_at 20 (record_head t s g p @ r) = word_of_nat (length p)"
  "take 32 (drop 24 (record_head t s g p @ r)) = sha256 p" "take 24 (drop 56 (record_head t s g p @ r)) = replicate 24 0"
  by (simp_all add: u32_at_def u16_at_def u64_at_def record_head_def)

lemma record_payload_small:
  assumes "length p \<le> k_record_payload \<or> length p \<le> k_snapshot_payload"
  shows "unat (word_of_nat (length p) :: u32) = length p"
proof -
  have "length p < 2 ^ 32" using assms by (auto simp: k_record_payload_def k_snapshot_payload_def)
  then show ?thesis by (simp add: unat_of_nat)
qed

lemma record_tail_fields [simp]:
  "drop 56 (record_head t s g p) = replicate 24 0" "take 32 (drop 24 (record_head t s g p)) = sha256 p"
  by (simp_all add: record_head_def)

theorem decode_record_frame:
  assumes "s \<noteq> 0" "length p \<le> k_record_payload"
  shows "decode_record_at (good @ frame_record t s g p @ rest) (length good) =
    Rec_Ok \<lparr>dr_type = t, dr_version = k_record_version, dr_flags = g, dr_sequence = s, dr_payload = p\<rparr>
      (length good + 88 + length p)"
  using assms record_payload_small[of p]
  by (simp add: decode_record_at_def frame_record_def k_record_header_bytes_def Let_def)

text \<open>A write cut short anywhere inside a record leaves a torn tail.\<close>

lemma prefix_magic:
  assumes "frame_record t s g p = q @ r" "q \<noteq> []"
  shows "if length q \<ge> 4 then u32_at 0 q = k_durable_magic else hd q = ucast (k_durable_magic AND 0xFF)"
proof (cases "length q \<ge> 4")
  case True
  have "u32_at 0 (frame_record t s g p) = k_durable_magic" by (simp add: frame_record_def)
  then show ?thesis using True assms(1) by simp
next
  case False
  have "hd (frame_record t s g p) = ucast (k_durable_magic AND 0xFF)"
    by (simp add: frame_record_def record_head_def le32_def upt_rec)
  then show ?thesis using False assms by simp
qed

theorem decode_record_prefix:
  assumes "s \<noteq> 0" "length p \<le> k_record_payload" "frame_record t s g p = q @ r" "q \<noteq> []" "r \<noteq> []"
  shows "\<exists>detail. decode_record_at (good @ q) (length good) =
    Rec_Torn R_PersistenceTornTailRecovered detail (length (good @ q))"
proof (cases "length q < 88")
  case True
  then show ?thesis
    using prefix_magic[OF assms(3,4)] assms(4) by (simp add: decode_record_at_def k_record_header_bytes_def)
next
  case False
  let ?h = "record_head t s g p" and ?n = "length q - 88"
  have short: "?n < length p" using False assms(3,5) by (metis add_diff_inverse_nat add_less_cancel_left
        length_append length_frame_record length_greater_0_conv less_add_same_cancel1)
  have "q = take (length q) (frame_record t s g p)" using assms(3) by simp
  then have q: "q = ?h @ take 8 (sha256 ?h) @ take ?n p"
    using False by (simp add: frame_record_def)
  have len: "length (take ?n p) = ?n" using short by simp
  show ?thesis
    using assms(1,2) record_payload_small[of p] short
    by (subst (1 2) q) (simp add: decode_record_at_def k_record_header_bytes_def Let_def)
qed

text \<open>The reader's ceiling on a payload is below the writer's ceiling on a snapshot.\<close>

theorem decode_large_snapshot:
  assumes "k_record_payload < length p" "length p \<le> k_snapshot_payload" "s \<noteq> 0"
  shows "decode_record_at (frame_record t s g p @ rest) 0 =
    Rec_Corrupt R_PersistenceIntegrityFailure txt_declared_payload_length_exceeds_the"
  using assms record_payload_small[of p]
  by (simp add: decode_record_at_def frame_record_def k_record_header_bytes_def Let_def)

section \<open>Entity round trips\<close>

interpretation boot_payload: payload_codec encode_boot_record decode_boot_record "\<lambda>_. True"
  by unfold_locales (simp add: encode_boot_record_def decode_boot_record_def read_boot_record_def message_simps)

lemma decode_encode_shutdown_marker:
  "decode_shutdown_marker (encode_shutdown_marker boot clean now) =
     ok (default_boot_record\<lparr>br_boot := boot, br_clean_shutdown := clean, br_closed_at := now\<rparr>)"
  by (simp add: encode_shutdown_marker_def decode_shutdown_marker_def read_shutdown_marker_def message_simps)

context enum_range begin

lemma read_named_enum_put: "read_named_enum vals t d (enum_raw vals e # rest) = Inr (e, rest)"
  by (simp add: read_named_enum_def read_run from_raw)

lemma read_raw_enum_put: "read_raw_enum vals (enum_raw vals e) d bytes = Inr (e, bytes)"
  by (simp add: read_raw_enum_def from_raw)

end

lemmas named_enums_put [simp] =
  finding_state.read_named_enum_put fence_cause.read_named_enum_put loop_outcome.read_named_enum_put
  evidence_origin.read_named_enum_put severity.read_named_enum_put reason_code.read_named_enum_put
  authority_kind.read_raw_enum_put reason_code.read_raw_enum_put

definition lineage_valid :: "lineage_record \<Rightarrow> bool" where
  "lineage_valid r \<longleftrightarrow> \<not> fence_is_zero (lr_fence r) \<and> length (lr_subject_digest r) = 32"

interpretation lineage_payload: payload_codec encode_lineage decode_lineage lineage_valid
  by unfold_locales (simp add: encode_lineage_def write_lineage_def take_checked_def decode_lineage_def
      lineage_valid_def message_simps)

lemma decode_encode_withdrawal:
  assumes "length detail \<le> k_string_bytes"
  shows "decode_finding_withdrawal (encode_finding_withdrawal k cause now reason detail) =
    ok (default_finding\<lparr>fi_id := k, fi_cause := cause, fi_updated_at := now, fi_state := Fs_Withdrawn,
          fi_explanation := ex_add reason (id_to_string k) detail
            (new_explanation (max_explanation_reasons default_limits))\<rparr>)"
proof -
  have "k_string_bytes < 2 ^ 32" by (simp add: k_string_bytes_def)
  then show ?thesis
    using assms by (simp add: encode_finding_withdrawal_def decode_finding_withdrawal_def message_simps)
qed

section \<open>Findings\<close>

interpretation id_decoder: codec put_u64 "or_fail oc t read_u64" "\<lambda>_. True" for oc t
  by unfold_locales (simp_all add: put_simps or_fail_Inr)

lemma read_id_list_put [simp]:
  "length xs \<le> unat m \<Longrightarrow> read_id_list m t (fst (put_counted put_u64 xs) @ rest) = Inr (xs, rest)"
  using id_decoder.get_times[of xs Oc_Invalid t rest]
  by (simp add: read_id_list_def fst_put_counted read_run)

text \<open>What a document keeps of an explanation: its reasons, under the reader's bound, none dropped.\<close>

definition explanation_durable :: "limits \<Rightarrow> explanation \<Rightarrow> bool" where
  "explanation_durable l e \<longleftrightarrow> ex_max e = max_explanation_reasons l \<and> ex_dropped e = 0 \<and>
     sorted (map reason_key (ex_reasons e)) \<and> length (ex_reasons e) \<le> unat (ex_max e) \<and>
     (\<forall>r \<in> set (ex_reasons e). length (er_subject r) \<le> 128 \<and> length (er_detail r) \<le> 192)"

definition reason_texts :: "explanation_reason \<Rightarrow> reason_code \<times> string \<times> string" where
  "reason_texts r = (er_code r, er_subject r, er_detail r)"

lemma ex_add_all_rebuild:
  assumes "explanation_durable l e"
  shows "ex_add_all (map reason_texts (ex_reasons e)) (new_explanation (max_explanation_reasons l)) = e"
proof -
  let ?e = "ex_add_all (map reason_texts (ex_reasons e)) (new_explanation (max_explanation_reasons l))"
  have same: "map bounded_reason (map reason_texts (ex_reasons e)) = ex_reasons e"
    using assms by (auto simp: explanation_durable_def bounded_reason_def reason_texts_def intro!: map_idI)
  then have bag: "image_mset bounded_reason (mset (map reason_texts (ex_reasons e))) = mset (ex_reasons e)"
    by (metis mset_map)
  have rs: "mset (ex_reasons ?e) = mset (ex_reasons e)" "ex_max ?e = max_explanation_reasons l" "ex_dropped ?e = 0"
    using ex_add_all_mset[of "new_explanation (max_explanation_reasons l)" "map reason_texts (ex_reasons e)"]
      bag assms by (auto simp: new_explanation_def explanation_durable_def)
  have "sorted (map reason_key (ex_reasons ?e))"
    using explanation_ok_add_all[OF explanation_ok_new] by (simp add: explanation_ok_def)
  then have "ex_reasons ?e = ex_reasons e"
    using assms rs(1) by (intro sorted_key_mset_unique) (simp_all add: explanation_durable_def)
  then show ?thesis using assms rs by (cases e) (simp add: explanation_durable_def)
qed

lemma read_fold_steps:
  assumes "\<And>i bytes. i < length xs \<Longrightarrow> step (st i) (enc (xs ! i) @ bytes) = Inr (st (Suc i), bytes)"
  shows "read_fold (length xs) step (st 0) (concat (map enc xs) @ rest) = Inr (st (length xs), rest)"
  using assms
proof (induction xs arbitrary: st)
  case (Cons x xs)
  have "read_fold (length xs) step (st (Suc 0)) (concat (map enc xs) @ rest) = Inr (st (Suc (length xs)), rest)"
    using Cons.IH[of "\<lambda>i. st (Suc i)"] Cons.prems[of "Suc i" for i] by simp
  then show ?case using Cons.prems[of 0] by (simp add: read_then_Inr)
qed (simp add: read_value_def)

lemma string_bytes_bound [simp]: "k_string_bytes < 4294967296"
  by (simp add: k_string_bytes_def)

lemma read_explanation_put [simp]:
  assumes "explanation_durable l e"
  shows "read_explanation l (fst (put_counted write_reason (ex_reasons e)) @ rest) = Inr (e, rest)"
proof -
  let ?rs = "ex_reasons e" and ?new = "new_explanation (max_explanation_reasons l)"
  let ?st = "\<lambda>i. ex_add_all (map reason_texts (take i ?rs)) ?new"
  let ?step = "\<lambda>e. read_then (or_fail Oc_Invalid txt_finding_explanation_is_truncated read_reason_texts) (add_reason e)"
  have "read_fold (length ?rs) ?step (?st 0) (concat (map (\<lambda>r. fst (write_reason r)) ?rs) @ rest) = Inr (?st (length ?rs), rest)"
  proof (rule read_fold_steps)
    fix i bytes assume i: "i < length ?rs"
    let ?r = "?rs ! i"
    have "length (er_subject ?r) \<le> 128 \<and> length (er_detail ?r) \<le> 192"
      using assms i nth_mem[OF i] unfolding explanation_durable_def by blast
    then have "length (er_subject ?r) \<le> k_string_bytes" "length (er_detail ?r) \<le> k_string_bytes"
      by (simp_all add: k_string_bytes_def)
    then have "read_reason_texts (fst (write_reason ?r) @ bytes) =
        Inr ((enum_raw values_reason_code (er_code ?r), er_subject ?r, er_detail ?r), bytes)"
      by (simp add: read_reason_texts_def write_reason_def message_simps)
    then show "?step (?st i) (fst (write_reason ?r) @ bytes) = Inr (?st (Suc i), bytes)"
      using i by (simp add: read_run add_reason_def reason_code.from_raw take_Suc_conv_app_nth ex_add_all_def
          reason_texts_def)
  qed
  moreover have "length ?rs \<le> unat (max_explanation_reasons l)" using assms by (auto simp: explanation_durable_def)
  ultimately show ?thesis
    using ex_add_all_rebuild[OF assms]
    by (simp add: read_explanation_def fst_put_counted read_run read_count_put ex_add_all_def)
qed

lemma reasons_fit: "explanation_durable l e \<Longrightarrow> \<not> snd (put_counted write_reason (ex_reasons e))"
  by (auto simp: put_counted_def put_simps list_ex_iff write_reason_def put_enum_def explanation_durable_def
      k_string_bytes_def not_less dest!: bspec)

definition finding_valid :: "limits \<Rightarrow> finding \<Rightarrow> bool" where
  "finding_valid l f \<longleftrightarrow> \<not> fence_is_zero (fi_fence f) \<and> length (fi_assessment_digest f) = 32 \<and>
     length (fi_witnesses f) \<le> unat (max_witnesses_per_assessment l) \<and>
     length (fi_resources f) \<le> unat (max_resources l) \<and> length (fi_selectors f) \<le> unat (max_selectors l) \<and>
     explanation_durable l (fi_explanation f)"

lemma read_explanation_put_end [simp]:
  "explanation_durable l e \<Longrightarrow> read_explanation l (fst (put_counted write_reason (ex_reasons e))) = Inr (e, [])"
  using read_explanation_put[of l e "[]"] by simp

interpretation finding_payload: payload_codec encode_finding "decode_finding l" "finding_valid l" for l
proof
  fix f assume v: "finding_valid l f"
  then have "\<not> snd (put_counted write_reason (ex_reasons (fi_explanation f)))"
    by (intro reasons_fit[of l]) (simp add: finding_valid_def)
  then show "decode_finding l (encode_finding f) = ok f"
    using v by (simp add: encode_finding_def write_finding_def take_checked_def decode_finding_def finding_valid_def
        message_simps)
qed

section \<open>The document round trip\<close>

definition topology_durable :: "limits \<Rightarrow> topology \<Rightarrow> bool" where
  "topology_durable l t \<longleftrightarrow> canonicalize_topology t l = ok t \<and> labels_fit t \<and>
     length (encode_topology t) \<le> k_snapshot_payload"

definition store_valid :: "limits \<Rightarrow> store_state \<Rightarrow> bool" where
  "store_valid l s \<longleftrightarrow> ss_record_version s = k_record_version \<and> ss_snapshot_schema s = 1 \<and> ss_store_generation s \<noteq> 0 \<and>
     topology_matches (ss_topology_generation s) (ss_topology s) \<and>
     (\<forall>t. ss_topology s = Some t \<longrightarrow> topology_durable l t) \<and>
     (\<forall>p. ss_policy s = Some p \<longrightarrow> policy_valid l p \<and> length (encode_policy p) \<le> k_snapshot_payload) \<and>
     length (ss_boot_ledger s) \<le> unat (max_boot_records l) \<and>
     length (ss_lineage s) \<le> unat (max_retained_lineage l) \<and> (\<forall>r \<in> set (ss_lineage s). lineage_valid r) \<and>
     length (ss_findings s) \<le> unat (max_retained_findings l) \<and>
     (\<forall>f \<in> set (ss_findings s). finding_valid l f \<and> length (encode_finding f) \<le> k_record_payload) \<and>
     \<not> fence_is_zero (ss_fence s)"

lemma read_blob_put:
  assumes "length blob \<le> m" "m = k_record_payload \<or> m = k_snapshot_payload"
  shows "read_blob m r t (fst (write_blob blob) @ rest) = Inr (blob, rest)"
proof -
  have "unat (word_of_nat (length blob) :: u32) = length blob" using assms by (intro record_payload_small) auto
  then show ?thesis using assms(1) by (simp add: read_blob_def write_blob_def message_simps)
qed

lemma write_blob_fits [simp]: "\<not> snd (write_blob blob)"
  by (simp add: write_blob_def put_simps)

text \<open>A payload codec in a blob is a codec, and a counted list of blobs is read back.\<close>

sublocale payload_codec \<subseteq> blobs: codec "\<lambda>x. write_blob (encode x)"
  "read_then (read_blob k_record_payload r t) (\<lambda>blob. lift_result (decode blob))"
  "\<lambda>x. valid x \<and> length (encode x) \<le> k_record_payload" for r t
  by unfold_locales (simp_all add: read_run read_blob_put decode_encode)

context payload_codec begin

lemma read_entities_put:
  assumes "length xs \<le> unat m" "\<forall>x \<in> set xs. valid x \<and> length (encode x) \<le> k_record_payload"
  shows "read_entities m r t decode (fst (put_counted (\<lambda>x. write_blob (encode x)) xs) @ rest) = Inr (xs, rest)"
  using blobs.get_times[OF assms(2), of r t rest] read_count_put[OF assms(1)]
  by (simp add: read_entities_def fst_put_counted read_run)

lemma read_optional_put:
  assumes "\<forall>x. ox = Some x \<longrightarrow> valid x \<and> length (encode x) \<le> k_snapshot_payload"
  shows "read_optional p r t decode (fst (write_optional encode ox) @ rest) = Inr (ox, rest)"
  using assms
  by (cases ox) (simp_all add: read_optional_def write_optional_def message_simps read_then_False read_blob_put
      decode_encode)

end

interpretation topology_payload: payload_codec encode_topology "decode_topology l" "topology_durable l" for l
  by unfold_locales (auto simp: topology_durable_def intro: decode_encode_topology)

lemma length_encode_fence [simp]: "length (encode_fence f) = 48"
  by (simp add: encode_fence_def write_fence_def message_simps)

lemma read_fence_blob_put:
  assumes "\<not> fence_is_zero f"
  shows "read_fence_blob (fst (write_blob (encode_fence f)) @ rest) = Inr (f, rest)"
proof -
  have "(48 :: u32) \<noteq> 0" "unat (48 :: u32) = 48" by simp_all
  then show ?thesis
    using assms decode_fence_put[of f "[]"]
    by (simp add: read_fence_blob_def write_blob_def message_simps k_string_bytes_def)
qed

lemma length_encode_boot_record [simp]: "length (encode_boot_record r) = 57"
  by (simp add: encode_boot_record_def message_simps)

lemma length_encode_lineage: "lineage_valid r \<Longrightarrow> length (encode_lineage r) = 131"
  by (simp add: encode_lineage_def write_lineage_def take_checked_def message_simps lineage_valid_def)

lemma optional_fits [simp]: "\<not> snd (write_optional encode x)"
  by (cases x) (simp_all add: write_optional_def put_simps)

lemma blobs_fit [simp]: "\<not> snd (put_counted (\<lambda>x. write_blob (encode x)) xs)"
  by (simp add: put_counted_def put_simps list_ex_iff)

theorem decode_encode_store_state:
  assumes "store_valid l s"
  shows "decode_store_state l (encode_store_state s) = ok s"
proof -
  note v = assms[unfolded store_valid_def]
  have t: "\<forall>t. ss_topology s = Some t \<longrightarrow> topology_durable l t \<and> length (encode_topology t) \<le> k_snapshot_payload"
    using v by (simp add: topology_durable_def)
  have p: "\<forall>p. ss_policy s = Some p \<longrightarrow> policy_valid l p \<and> length (encode_policy p) \<le> k_snapshot_payload"
    using v by blast
  have ledger: "\<forall>r \<in> set (ss_boot_ledger s). True \<and> length (encode_boot_record r) \<le> k_record_payload"
    by (simp add: k_record_payload_def)
  have lineage: "\<forall>r \<in> set (ss_lineage s). lineage_valid r \<and> length (encode_lineage r) \<le> k_record_payload"
    using v by (simp add: length_encode_lineage k_record_payload_def)
  have findings: "\<forall>f \<in> set (ss_findings s). finding_valid l f \<and> length (encode_finding f) \<le> k_record_payload"
    using v by blast
  have "parse_store_state l (encode_store_state s) = Inr (s, [])"
    using v by (simp add: encode_store_state_def write_store_state_def take_checked_def parse_store_state_def message_simps
        topology_payload.read_optional_put[OF t] policy_payload.read_optional_put[OF p]
        boot_payload.read_entities_put[OF _ ledger] lineage_payload.read_entities_put[OF _ lineage]
        finding_payload.read_entities_put[OF _ findings] read_fence_blob_put)
  then show ?thesis by (simp add: decode_store_state_def run_decoder_def)
qed

interpretation store_payload: payload_codec encode_store_state "decode_store_state l" "store_valid l" for l
  by unfold_locales (rule decode_encode_store_state)

end
