(* ===== verification/Journal.thy ===== *)
theory Journal
  imports Durable
begin

text \<open>
  The durable store of src/persistence.cpp: opening and replaying a document, minting a fresh boot, and
  the journaled mutations of class DurableStore.

  The file is part of the model (\<open>ds_file\<close>): what the calls of the standard library do to it is an
  argument of every operation (\<open>append_io\<close>, \<open>replace_io\<close>), so a short write, a failed flush or a failed
  replace is a case like any other. A write cut short leaves the bytes that reached the file.

  The lemmas: scanning a document that was written record by record gives back its records, also when
  a last record is torn; replaying them gives the live state, up to the boot and the epoch of the
  committed fence, which every opening mints anew.
\<close>

section \<open>Texts\<close>

definition txt_durable_store_refused :: string where
  "txt_durable_store_refused = ''durable store refused: ''"

definition txt_durable_store_must_begin_with :: string where
  "txt_durable_store_must_begin_with = ''durable store must begin with a snapshot record''"

definition txt_store_generation_zero_is_not :: string where
  "txt_store_generation_zero_is_not = ''store generation zero is not a valid generation''"

definition txt_a_second_snapshot_record_is :: string where
  "txt_a_second_snapshot_record_is = ''a second snapshot record is not allowed in one document''"

definition txt_record_belongs_to_a_superseded :: string where
  "txt_record_belongs_to_a_superseded =
     ''record belongs to a superseded store generation and is refused rather than replayed''"

definition txt_durable_journal_exceeds_its_record :: string where
  "txt_durable_journal_exceeds_its_record = ''durable journal exceeds its record bound''"

definition txt_lineage_sequence_regressed_in_the :: string where
  "txt_lineage_sequence_regressed_in_the = ''lineage sequence regressed in the durable journal''"

definition txt_withdrawal_references_a_finding_the :: string where
  "txt_withdrawal_references_a_finding_the = ''withdrawal references a finding the document does not contain''"

definition txt_a_shutdown_marker_must_reference :: string where
  "txt_a_shutdown_marker_must_reference = ''a shutdown marker must reference a boot the ledger already knows''"

definition txt_the_durable_store_is_not :: string where
  "txt_the_durable_store_is_not = ''the durable store is not open''"

definition txt_topology_generation_did_not_advance :: string where
  "txt_topology_generation_did_not_advance =
     ''topology generation did not advance past the committed generation''"

definition txt_finding_identity_and_generation_must :: string where
  "txt_finding_identity_and_generation_must = ''finding identity and generation must be non-zero''"

definition txt_withdrawn_by_the_owning_runtime :: string where
  "txt_withdrawn_by_the_owning_runtime = ''withdrawn by the owning runtime''"

definition txt_observations_leases_grants_and_inflight :: string where
  "txt_observations_leases_grants_and_inflight =
     ''observations, leases, grants and in-flight intents are never restored from durable state''"

definition txt_every_prerestart_dynamic_fact_is :: string where
  "txt_every_prerestart_dynamic_fact_is =
     '' has no clean shutdown record; every pre-restart dynamic fact is treated as stale''"

section \<open>Scanning a document\<close>

record journal_scan =
  sc_offset :: nat
  sc_expected :: u64
  sc_generation :: u32
  sc_records :: "decoded_record list"
  sc_torn :: "string option"

definition scan_start :: journal_scan where
  "scan_start = \<lparr>sc_offset = 0, sc_expected = 1, sc_generation = 0, sc_records = [], sc_torn = None\<rparr>"

definition check_record :: "journal_scan \<Rightarrow> decoded_record \<Rightarrow> decode_error option" where
  "check_record sc r =
     (if sc_records sc = []
      then (if dr_type r \<noteq> Rt_Snapshot then Some (Oc_IntegrityFailure, txt_durable_store_must_begin_with)
            else if dr_sequence r \<noteq> 1 then Some (Oc_IntegrityFailure, ''snapshot must be record sequence 1'')
            else if dr_flags r = 0 then Some (Oc_IntegrityFailure, txt_store_generation_zero_is_not)
            else None)
      else (if dr_type r = Rt_Snapshot then Some (Oc_IntegrityFailure, txt_a_second_snapshot_record_is)
            else if dr_flags r \<noteq> sc_generation sc then Some (Oc_Stale, txt_record_belongs_to_a_superseded)
            else if dr_sequence r \<noteq> sc_expected sc
              then Some (Oc_IntegrityFailure, ''record sequence '' @ dec_digits (unat (dr_sequence r)) @
                '' is not the expected '' @ dec_digits (unat (sc_expected sc)))
            else None))"

definition take_record :: "decoded_record \<Rightarrow> nat \<Rightarrow> journal_scan \<Rightarrow> journal_scan" where
  "take_record r next_offset sc = sc\<lparr>sc_offset := next_offset, sc_expected := sc_expected sc + 1,
     sc_generation := (if sc_records sc = [] then dr_flags r else sc_generation sc),
     sc_records := sc_records sc @ [r]\<rparr>"

lemma decode_record_next: "decode_record_at bytes offset = Rec_Ok r next \<Longrightarrow> offset < next"
  by (auto simp: decode_record_at_def Let_def k_record_header_bytes_def split: if_splits)

function scan_from :: "limits \<Rightarrow> u8 list \<Rightarrow> journal_scan \<Rightarrow> decode_error + journal_scan" where
  "scan_from l bytes sc =
     (if \<not> sc_offset sc < length bytes then Inr sc
      else case decode_record_at bytes (sc_offset sc) of
        Rec_End \<Rightarrow> Inr sc
      | Rec_Torn code detail _ \<Rightarrow> Inr (sc\<lparr>sc_torn := Some detail\<rparr>)
      | Rec_Corrupt code detail \<Rightarrow> Inl (Oc_IntegrityFailure, txt_durable_store_refused @ detail)
      | Rec_Ok r next_offset \<Rightarrow>
          (case check_record sc r of
             Some e \<Rightarrow> Inl e
           | None \<Rightarrow>
               if length (sc_records (take_record r next_offset sc)) > unat (max_journal_records l)
               then Inl (Oc_Exhausted, txt_durable_journal_exceeds_its_record)
               else scan_from l bytes (take_record r next_offset sc)))"
  by pat_completeness auto
termination
  by (relation "measure (\<lambda>(l, bytes, sc). length bytes - sc_offset sc)")
     (auto simp: take_record_def dest: decode_record_next)

declare scan_from.simps [simp del]

definition scan_document :: "limits \<Rightarrow> u8 list \<Rightarrow> decode_error + journal_scan" where
  "scan_document l bytes = scan_from l bytes scan_start"

section \<open>Replaying the records\<close>

definition replay_lineage :: "limits \<Rightarrow> lineage_record \<Rightarrow> store_state \<Rightarrow> decode_error + store_state" where
  "replay_lineage l r s =
     (if id_valid (ss_lineage_sequence s) \<and> lr_sequence r \<le> ss_lineage_sequence s
      then Inl (Oc_IntegrityFailure, txt_lineage_sequence_regressed_in_the)
      else let kept = ss_lineage s @ [r]
           in Inr (s\<lparr>ss_lineage := drop (length kept - unat (max_retained_lineage l)) kept,
                ss_lineage_sequence := lr_sequence r\<rparr>))"

definition upsert :: "finding \<Rightarrow> finding list \<Rightarrow> finding list" where
  "upsert f fs = (if list_ex (\<lambda>g. fi_id g = fi_id f) fs then update_first (\<lambda>g. fi_id g = fi_id f) (\<lambda>_. f) fs
     else fs @ [f])"

definition replay_upsert :: "finding \<Rightarrow> store_state \<Rightarrow> decode_error + store_state" where
  "replay_upsert f s = Inr (s\<lparr>ss_findings := upsert f (ss_findings s),
     ss_finding_sequence := (if id_valid (fi_generation f) then fi_generation f else ss_finding_sequence s)\<rparr>)"

definition withdraw_with :: "finding \<Rightarrow> finding \<Rightarrow> finding" where
  "withdraw_with incoming f = f\<lparr>fi_state := Fs_Withdrawn, fi_cause := fi_cause incoming,
     fi_updated_at := fi_updated_at incoming,
     fi_explanation := foldl (\<lambda>e r. ex_add (er_code r) (er_subject r) (er_detail r) e) (fi_explanation f)
       (ex_reasons (fi_explanation incoming))\<rparr>"

definition replay_withdraw :: "finding \<Rightarrow> store_state \<Rightarrow> decode_error + store_state" where
  "replay_withdraw incoming s =
     (if list_ex (\<lambda>f. fi_id f = fi_id incoming) (ss_findings s)
      then Inr (s\<lparr>ss_findings := update_first (\<lambda>f. fi_id f = fi_id incoming) (withdraw_with incoming) (ss_findings s)\<rparr>)
      else Inl (Oc_Invalid, txt_withdrawal_references_a_finding_the))"

definition replay_boot :: "bool \<Rightarrow> boot_record \<Rightarrow> store_state \<Rightarrow> decode_error + store_state" where
  "replay_boot is_note r s =
     (if list_ex (\<lambda>b. br_boot b = br_boot r) (ss_boot_ledger s)
      then Inr (s\<lparr>ss_boot_ledger := update_first (\<lambda>b. br_boot b = br_boot r)
             (\<lambda>b. b\<lparr>br_closed_at := br_closed_at r, br_clean_shutdown := br_clean_shutdown r\<rparr>) (ss_boot_ledger s)\<rparr>)
      else if is_note then Inl (Oc_Invalid, txt_a_shutdown_marker_must_reference)
      else Inr (s\<lparr>ss_boot_ledger := ss_boot_ledger s @ [r]\<rparr>))"

definition apply_delta :: "limits \<Rightarrow> record_type \<Rightarrow> store_state \<Rightarrow> store_state \<Rightarrow> decode_error + store_state" where
  "apply_delta l type delta s = (case type of
       Rt_Snapshot \<Rightarrow> Inr delta
     | Rt_TopologyDefinition \<Rightarrow>
         Inr (s\<lparr>ss_topology := ss_topology delta, ss_topology_generation := ss_topology_generation delta\<rparr>)
     | Rt_ContainmentPolicyRecord \<Rightarrow> Inr (s\<lparr>ss_policy := ss_policy delta\<rparr>)
     | Rt_LineageAppend \<Rightarrow> (case ss_lineage delta of [] \<Rightarrow> Inl (Oc_Invalid, ''lineage record carries no payload'')
         | r # _ \<Rightarrow> replay_lineage l r s)
     | Rt_FindingUpsert \<Rightarrow> (case ss_findings delta of [] \<Rightarrow> Inl (Oc_Invalid, ''finding record carries no payload'')
         | f # _ \<Rightarrow> replay_upsert f s)
     | Rt_FindingWithdraw \<Rightarrow> (case ss_findings delta of [] \<Rightarrow> Inl (Oc_Invalid, ''withdrawal record carries no payload'')
         | f # _ \<Rightarrow> replay_withdraw f s)
     | Rt_FenceAdvance \<Rightarrow> Inr (s\<lparr>ss_fence := ss_fence delta\<rparr>)
     | _ \<Rightarrow> (case ss_boot_ledger delta of [] \<Rightarrow> Inl (Oc_Invalid, ''boot record carries no payload'')
         | r # _ \<Rightarrow> replay_boot (type = Rt_Note) r s))"

definition replay_record :: "limits \<Rightarrow> record_type \<Rightarrow> u8 list \<Rightarrow> store_state \<Rightarrow> decode_error + store_state" where
  "replay_record l type payload s =
     (let decoded = decode_record_payload l type payload
      in case r_value decoded of None \<Rightarrow> Inl (r_outcome decoded, r_detail decoded)
         | Some delta \<Rightarrow> apply_delta l type delta s)"

primrec replay_records :: "limits \<Rightarrow> decoded_record list \<Rightarrow> store_state \<Rightarrow> decode_error + store_state" where
  "replay_records l [] s = Inr s"
| "replay_records l (r # rs) s =
     (case replay_record l (dr_type r) (dr_payload r) s of Inl e \<Rightarrow> Inl e | Inr s' \<Rightarrow> replay_records l rs s')"

section \<open>The store\<close>

record recovery_report =
  rp_outcome :: outcome
  rp_records_read :: u64
  rp_records_applied :: u64
  rp_bytes_read :: u64
  rp_torn_tail_recovered :: bool
  rp_torn_tail_bytes :: u64
  rp_trailing_garbage :: bool
  rp_snapshot_compacted :: bool
  rp_explanation :: explanation

definition yes_no :: "bool \<Rightarrow> string" where
  "yes_no b = (if b then ''yes'' else ''no'')"

definition recovery_to_text :: "recovery_report \<Rightarrow> string" where
  "recovery_to_text r = ''recovery outcome='' @ name_outcome (rp_outcome r) @ '' records='' @
     dec_digits (unat (rp_records_read r)) @ '' applied='' @ dec_digits (unat (rp_records_applied r)) @ '' bytes='' @
     dec_digits (unat (rp_bytes_read r)) @ '' torn_tail='' @ yes_no (rp_torn_tail_recovered r) @ '' torn_bytes='' @
     dec_digits (unat (rp_torn_tail_bytes r)) @ '' trailing_garbage='' @ yes_no (rp_trailing_garbage r) @
     '' compacted='' @ yes_no (rp_snapshot_compacted r) @ newline @ ex_to_text (rp_explanation r)"

record durable_store =
  ds_open :: bool
  ds_path :: string
  ds_limits :: limits
  ds_state :: store_state
  ds_recovery :: recovery_report
  ds_identity :: process_identity
  ds_journal_bytes :: u64
  ds_journal_records :: u64
  ds_next_sequence :: u64
  ds_file :: "u8 list"

text \<open>What the file system did: an append that is durable, one cut short after some bytes, one whose bytes
  arrived but whose flush failed; a replace that is installed, one that failed (with the append handle
  reopened or not), one after which the store could not be reopened.\<close>

datatype append_io = Append_Done | Append_Short nat | Append_Unsynced string

datatype replace_io = Replace_Done | Replace_Failed bool string | Replace_Unopened string

definition rewrite_snapshot :: "u32 \<Rightarrow> replace_io \<Rightarrow> durable_store \<Rightarrow> status \<times> durable_store" where
  "rewrite_snapshot generation io d =
     (let d = d\<lparr>ds_state := (ds_state d)\<lparr>ss_store_generation := generation\<rparr>\<rparr>;
          snapshot = encode_store_state (ds_state d);
          frame = frame_record Rt_Snapshot 1 generation snapshot
      in if snapshot = [] then (failure Oc_Exhausted ''snapshot encoding exceeded its bounds'', d)
         else if length snapshot > k_snapshot_payload
           then (failure Oc_Exhausted ''snapshot exceeds the hard ceiling'', d)
         else (case io of
             Replace_Failed reopened detail \<Rightarrow> (failure Oc_IoFailure detail, d\<lparr>ds_open := reopened\<rparr>)
           | Replace_Unopened detail \<Rightarrow> (failure Oc_IoFailure detail, d\<lparr>ds_open := False, ds_file := frame\<rparr>)
           | Replace_Done \<Rightarrow> (status_ok, d\<lparr>ds_open := True, ds_file := frame,
               ds_journal_bytes := of_nat (length frame), ds_journal_records := 1\<rparr>)))"

definition compact :: "replace_io \<Rightarrow> durable_store \<Rightarrow> status \<times> durable_store" where
  "compact io d =
     (if \<not> ds_open d then (failure Oc_Invalid txt_the_durable_store_is_not, d)
      else if ss_store_generation (ds_state d) = - 1
        then (failure Oc_Exhausted ''store generation space is exhausted'', d)
      else (case rewrite_snapshot (ss_store_generation (ds_state d) + 1) io d of (st, d') \<Rightarrow>
        if \<not> is_ok st then (st, d')
        else (status_ok, d'\<lparr>ds_next_sequence := 2, ds_recovery := (ds_recovery d')\<lparr>rp_snapshot_compacted := True,
          rp_explanation := ex_add R_PersistenceSnapshotCommitted (ds_path d')
            (''snapshot rewritten transactionally at store generation '' @
             dec_digits (unat (ss_store_generation (ds_state d')))) (rp_explanation (ds_recovery d'))\<rparr>\<rparr>)))"

definition over_bounds :: "durable_store \<Rightarrow> bool" where
  "over_bounds d \<longleftrightarrow> ds_journal_bytes d > max_journal_bytes (ds_limits d) \<or>
     ds_journal_records d > ucast (max_journal_records (ds_limits d))"

record store_io =
  io_replace :: replace_io
  io_append :: append_io

definition write_record :: "append_io \<Rightarrow> record_type \<Rightarrow> u8 list \<Rightarrow> durable_store \<Rightarrow> status \<times> durable_store" where
  "write_record io type payload d =
     (let frame = frame_record type (ds_next_sequence d) (ss_store_generation (ds_state d)) payload
      in case io of
           Append_Short n \<Rightarrow> (failure Oc_IoFailure ''journal append failed'', d\<lparr>ds_file := ds_file d @ take n frame\<rparr>)
         | Append_Unsynced detail \<Rightarrow> (failure Oc_IoFailure detail, d\<lparr>ds_file := ds_file d @ frame\<rparr>)
         | Append_Done \<Rightarrow> (status_ok, d\<lparr>ds_file := ds_file d @ frame, ds_next_sequence := ds_next_sequence d + 1,
             ds_journal_bytes := ds_journal_bytes d + of_nat (length frame),
             ds_journal_records := ds_journal_records d + 1\<rparr>))"

definition append_payload :: "store_io \<Rightarrow> record_type \<Rightarrow> u8 list \<Rightarrow> durable_store \<Rightarrow> status \<times> durable_store" where
  "append_payload io type payload d =
     (if \<not> ds_open d then (failure Oc_Invalid txt_the_durable_store_is_not, d)
      else if length payload > k_record_payload
        then (failure Oc_Exhausted ''record payload exceeds the hard ceiling'', d)
      else if over_bounds d
        then (case compact (io_replace io) d of (st, d') \<Rightarrow>
          if \<not> is_ok st then (st, d') else write_record (io_append io) type payload d')
      else write_record (io_append io) type payload d)"

section \<open>Mutations\<close>

text \<open>Each mutation encodes its payload, appends the record and only then changes the state.\<close>

definition commit :: "store_io \<Rightarrow> record_type \<Rightarrow> u8 list \<Rightarrow> string \<Rightarrow> (store_state \<Rightarrow> store_state) \<Rightarrow> durable_store \<Rightarrow>
    status \<times> durable_store" where
  "commit io type payload unencodable change d =
     (if payload = [] then (failure Oc_Exhausted unencodable, d)
      else (case append_payload io type payload d of (st, d') \<Rightarrow>
        if \<not> is_ok st then (st, d') else (status_ok, d'\<lparr>ds_state := change (ds_state d')\<rparr>)))"

definition store_set_topology :: "store_io \<Rightarrow> topology \<Rightarrow> durable_store \<Rightarrow> status \<times> durable_store" where
  "store_set_topology io t d =
     (let canonical = canonicalize_topology t (ds_limits d)
      in case r_value canonical of
           None \<Rightarrow> (failure (r_outcome canonical) (r_detail canonical), d)
         | Some def \<Rightarrow>
             if id_valid (ss_topology_generation (ds_state d)) \<and> td_generation def \<le> ss_topology_generation (ds_state d)
             then (failure Oc_Stale txt_topology_generation_did_not_advance, d)
             else commit io Rt_TopologyDefinition (encode_record_payload Rt_TopologyDefinition
                 (default_store_state\<lparr>ss_topology := Some def, ss_topology_generation := td_generation def\<rparr>)
                 default_finding default_lineage default_boot_record)
               ''topology payload could not be encoded''
               (\<lambda>s. s\<lparr>ss_topology := Some def, ss_topology_generation := td_generation def\<rparr>) d)"

definition store_set_policy :: "store_io \<Rightarrow> containment_policy \<Rightarrow> durable_store \<Rightarrow> status \<times> durable_store" where
  "store_set_policy io p d =
     (if \<not> id_valid (po_generation p) then (failure Oc_Invalid ''policy generation must be non-zero'', d)
      else if (case ss_policy (ds_state d) of None \<Rightarrow> False | Some q \<Rightarrow> po_generation p < po_generation q)
        then (failure Oc_Stale ''policy generation regressed'', d)
      else commit io Rt_ContainmentPolicyRecord (encode_record_payload Rt_ContainmentPolicyRecord
          (default_store_state\<lparr>ss_policy := Some p\<rparr>) default_finding default_lineage default_boot_record)
        ''policy payload could not be encoded'' (\<lambda>s. s\<lparr>ss_policy := Some p\<rparr>) d)"

definition store_advance_fence :: "store_io \<Rightarrow> fence_vector \<Rightarrow> durable_store \<Rightarrow> status \<times> durable_store" where
  "store_advance_fence io f d =
     commit io Rt_FenceAdvance (encode_record_payload Rt_FenceAdvance (default_store_state\<lparr>ss_fence := f\<rparr>)
         default_finding default_lineage default_boot_record)
       ''fence payload could not be encoded'' (\<lambda>s. s\<lparr>ss_fence := f\<rparr>) d"

definition trim_front :: "u32 \<Rightarrow> 'a list \<Rightarrow> 'a list" where
  "trim_front max_count xs = drop (length xs - unat max_count) xs"

definition store_append_lineage :: "store_io \<Rightarrow> lineage_record \<Rightarrow> durable_store \<Rightarrow> status \<times> durable_store" where
  "store_append_lineage io r d =
     (if \<not> id_valid (lr_sequence r) then (failure Oc_Invalid ''lineage sequence must be non-zero'', d)
      else if id_valid (ss_lineage_sequence (ds_state d)) \<and> lr_sequence r \<le> ss_lineage_sequence (ds_state d)
        then (failure Oc_Stale ''lineage sequence regressed'', d)
      else commit io Rt_LineageAppend (encode_record_payload Rt_LineageAppend default_store_state default_finding r
          default_boot_record)
        ''lineage payload could not be encoded''
        (\<lambda>s. s\<lparr>ss_lineage := trim_front (max_retained_lineage (ds_limits d)) (ss_lineage s @ [r]),
               ss_lineage_sequence := lr_sequence r\<rparr>) d)"

definition store_upsert_finding :: "store_io \<Rightarrow> finding \<Rightarrow> durable_store \<Rightarrow> status \<times> durable_store" where
  "store_upsert_finding io f d =
     (if \<not> id_valid (fi_id f) \<or> \<not> id_valid (fi_generation f)
        then (failure Oc_Invalid txt_finding_identity_and_generation_must, d)
      else commit io Rt_FindingUpsert (encode_record_payload Rt_FindingUpsert default_store_state f default_lineage
          default_boot_record)
        ''finding payload could not be encoded''
        (\<lambda>s. s\<lparr>ss_findings := trim_front (max_retained_findings (ds_limits d)) (upsert f (ss_findings s)),
               ss_finding_sequence := fi_generation f\<rparr>) d)"

definition withdrawal_of :: "limits \<Rightarrow> u64 \<Rightarrow> fence_cause \<Rightarrow> u64 \<Rightarrow> reason_code \<Rightarrow> finding" where
  "withdrawal_of l k cause now reason = default_finding\<lparr>fi_id := k, fi_cause := cause, fi_updated_at := now,
     fi_explanation := ex_add reason (id_to_string k) txt_withdrawn_by_the_owning_runtime
       (new_explanation (max_explanation_reasons l))\<rparr>"

definition store_withdraw_finding :: "store_io \<Rightarrow> u64 \<Rightarrow> fence_cause \<Rightarrow> u64 \<Rightarrow> reason_code \<Rightarrow> durable_store \<Rightarrow>
    status \<times> durable_store" where
  "store_withdraw_finding io k cause now reason d =
     (let payload = encode_record_payload Rt_FindingWithdraw default_store_state
            (withdrawal_of (ds_limits d) k cause now reason) default_lineage default_boot_record
      in if payload = [] then (failure Oc_Exhausted ''withdrawal payload could not be encoded'', d)
         else (case append_payload io Rt_FindingWithdraw payload d of (st, d') \<Rightarrow>
           if \<not> is_ok st then (st, d')
           else if list_ex (\<lambda>f. fi_id f = k) (ss_findings (ds_state d'))
             then (status_ok, d'\<lparr>ds_state := (ds_state d')\<lparr>ss_findings := update_first (\<lambda>f. fi_id f = k)
               (\<lambda>f. f\<lparr>fi_state := Fs_Withdrawn, fi_cause := cause, fi_updated_at := now,
                  fi_explanation := ex_add reason (id_to_string k) txt_withdrawn_by_the_owning_runtime (fi_explanation f)\<rparr>)
               (ss_findings (ds_state d'))\<rparr>\<rparr>)
           else (failure Oc_NotFound ''finding is not durable'', d')))"

text \<open>Closing: a clean shutdown marker is appended, then the handle is flushed and released.\<close>

definition store_close :: "store_io \<Rightarrow> status \<Rightarrow> bool \<Rightarrow> u64 \<Rightarrow> durable_store \<Rightarrow> status \<times> durable_store" where
  "store_close io flushed clean now d =
     (if \<not> ds_open d then (status_ok, d)
      else let (st, d') =
          (if clean \<and> id_valid (pi_boot (ds_identity d))
           then (case append_payload io Rt_Note (encode_shutdown_marker (pi_boot (ds_identity d)) True now) d of (st, d') \<Rightarrow>
             if is_ok st
             then (st, d'\<lparr>ds_state := (ds_state d')\<lparr>ss_boot_ledger := update_first (\<lambda>b. br_boot b = pi_boot (ds_identity d))
               (\<lambda>b. b\<lparr>br_clean_shutdown := True, br_closed_at := now\<rparr>) (ss_boot_ledger (ds_state d'))\<rparr>\<rparr>)
             else (st, d'))
           else (status_ok, d))
        in (if is_ok st then flushed else st, d'\<lparr>ds_open := False\<rparr>))"

section \<open>Opening\<close>

definition mint_limits :: "store_state \<Rightarrow> u64 \<times> u64 \<times> u64" where
  "mint_limits s = foldl (\<lambda>(b, i, e) r. (max b (br_boot r), max i (br_incarnation r), max e (br_epoch r)))
     (0, 0, if id_valid (fv_epoch (ss_fence s)) then fv_epoch (ss_fence s) else 0) (ss_boot_ledger s)"

definition mint_boot :: "u64 \<Rightarrow> u64 \<Rightarrow> store_state \<Rightarrow> boot_record option" where
  "mint_boot producer now s = (case mint_limits s of (b, i, e) \<Rightarrow>
     if b = - 1 \<or> i = - 1 \<or> e = - 1 then None
     else Some \<lparr>br_id = b + 1, br_boot = b + 1, br_incarnation = i + 1, br_epoch = e + 1, br_producer = producer,
       br_started_at = now, br_closed_at = 0, br_clean_shutdown = False\<rparr>)"

definition first_fence :: "boot_record \<Rightarrow> fence_vector" where
  "first_fence b = \<lparr>fv_topology = 1, fv_forwarding = 1, fv_policy = 1, fv_fabric_epoch = 1, fv_epoch = br_epoch b,
     fv_boot = br_boot b\<rparr>"

definition note_previous_boot :: "string \<Rightarrow> boot_record list \<Rightarrow> explanation \<Rightarrow> explanation" where
  "note_previous_boot path ledger e =
     (if length ledger > 1 \<and> \<not> br_clean_shutdown (ledger ! (length ledger - 2))
      then ex_add R_FindingFencedByRestart path (''the previous boot '' @
        id_to_string (br_boot (ledger ! (length ledger - 2))) @ txt_every_prerestart_dynamic_fact_is) e
      else e)"

definition finish_open :: "string \<Rightarrow> boot_record \<Rightarrow> durable_store \<Rightarrow> durable_store" where
  "finish_open path b d = d\<lparr>ds_identity := \<lparr>pi_boot = br_boot b, pi_incarnation = br_incarnation b, pi_epoch = br_epoch b,
       pi_producer = br_producer b\<rparr>,
     ds_recovery := (ds_recovery d)\<lparr>rp_outcome := Oc_Ok, rp_explanation :=
       ex_add R_DynamicStateNotRestored path txt_observations_leases_grants_and_inflight
       (ex_add R_RestartFreshIncarnation path (''minted boot '' @ id_to_string (br_boot b) @ '', incarnation '' @
          id_to_string (br_incarnation b) @ '', epoch '' @ id_to_string (br_epoch b))
       (note_previous_boot path (ss_boot_ledger (ds_state d)) (rp_explanation (ds_recovery d))))\<rparr>\<rparr>"

text \<open>What the file system answers while a store is opened: whether the path could be inspected, the
  bytes it read or why not, whether the append handle could be opened and the torn tail cut, and the
  outcome of the record or snapshot that follows.\<close>

record open_io =
  oi_inspected :: "string option"
  oi_content :: "u8 list result option"
  oi_handle :: "status"
  oi_write :: store_io
  oi_now :: u64

definition blank_store :: "limits \<Rightarrow> string \<Rightarrow> journal_scan \<Rightarrow> u8 list \<Rightarrow> store_state \<Rightarrow> durable_store" where
  "blank_store l path sc bytes s = \<lparr>ds_open = True, ds_path = path, ds_limits = l, ds_state = s,
     ds_recovery = \<lparr>rp_outcome = Oc_Invalid, rp_records_read = of_nat (length (sc_records sc)),
       rp_records_applied = of_nat (length (sc_records sc)), rp_bytes_read = of_nat (sc_offset sc),
       rp_torn_tail_recovered = sc_torn sc \<noteq> None,
       rp_torn_tail_bytes = (if sc_torn sc = None then 0 else of_nat (length bytes - sc_offset sc)),
       rp_trailing_garbage = False, rp_snapshot_compacted = False,
       rp_explanation = (case sc_torn sc of None \<Rightarrow> new_explanation (max_explanation_reasons l)
         | Some detail \<Rightarrow> ex_add R_PersistenceTornTailRecovered path detail (new_explanation (max_explanation_reasons l)))\<rparr>,
     ds_identity = \<lparr>pi_boot = 0, pi_incarnation = 0, pi_epoch = 0, pi_producer = 0\<rparr>,
     ds_journal_bytes = of_nat (sc_offset sc), ds_journal_records = of_nat (length (sc_records sc)),
     ds_next_sequence = sc_expected sc, ds_file = take (sc_offset sc) bytes\<rparr>"

definition open_fresh :: "open_io \<Rightarrow> string \<Rightarrow> boot_record \<Rightarrow> durable_store \<Rightarrow> durable_store result" where
  "open_fresh io path b d =
     (case rewrite_snapshot 1 (io_replace (oi_write io))
         (d\<lparr>ds_open := False, ds_state := default_store_state\<lparr>ss_fence := first_fence b, ss_boot_ledger := [b]\<rparr>\<rparr>) of
        (st, d') \<Rightarrow> if \<not> is_ok st then failure (r_outcome st) (r_detail st)
                   else ok (finish_open path b (d'\<lparr>ds_next_sequence := 2\<rparr>)))"

definition open_existing :: "open_io \<Rightarrow> string \<Rightarrow> boot_record \<Rightarrow> durable_store \<Rightarrow> durable_store result" where
  "open_existing io path b d =
     (case append_payload (oi_write io) Rt_BootAdvance (encode_boot_record b) d of
        (st, d') \<Rightarrow> if \<not> is_ok st then failure (r_outcome st) (r_detail st)
          else ok (finish_open path b (d'\<lparr>ds_state := (ds_state d')\<lparr>ss_boot_ledger := ss_boot_ledger (ds_state d') @ [b],
            ss_fence := (ss_fence (ds_state d'))\<lparr>fv_boot := br_boot b, fv_epoch := br_epoch b\<rparr>\<rparr>\<rparr>)))"

definition open_document :: "open_io \<Rightarrow> limits \<Rightarrow> string \<Rightarrow> u64 \<Rightarrow> u8 list \<Rightarrow> durable_store result" where
  "open_document io l path producer bytes =
     (case scan_document l bytes of
        Inl (oc, detail) \<Rightarrow> failure oc detail
      | Inr sc \<Rightarrow>
         (case replay_records l (sc_records sc) (default_store_state\<lparr>ss_store_generation :=
              (if sc_generation sc = 0 then 1 else sc_generation sc)\<rparr>) of
            Inl (oc, detail) \<Rightarrow> failure oc detail
          | Inr s \<Rightarrow>
              if \<not> is_ok (oi_handle io) then failure (r_outcome (oi_handle io)) (r_detail (oi_handle io))
              else let fresh = (sc_records sc = []);
                       d = blank_store l path sc bytes (if fresh then default_store_state else s)
                   in case mint_boot producer (oi_now io) (ds_state d) of
                        None \<Rightarrow> failure Oc_Exhausted ''boot/incarnation/epoch space is exhausted''
                      | Some b \<Rightarrow> if fresh then open_fresh io path b d else open_existing io path b d))"

definition open_or_create :: "open_io \<Rightarrow> string \<Rightarrow> limits \<Rightarrow> u64 \<Rightarrow> durable_store result" where
  "open_or_create io path l producer =
     (if \<not> limits_are_sane l then failure Oc_Unsupported txt_limit_set_is_not_sane
      else if path = [] then failure Oc_Invalid ''store path must not be empty''
      else if \<not> id_valid producer then failure Oc_Invalid ''producer identity must be non-zero''
      else case oi_inspected io of
          Some detail \<Rightarrow> failure Oc_IoFailure (''cannot inspect the store path: '' @ detail)
        | None \<Rightarrow> (case oi_content io of
              None \<Rightarrow> open_document io l path producer []
            | Some content \<Rightarrow> (case r_value content of
                  None \<Rightarrow> failure (r_outcome content) (r_detail content)
                | Some bytes \<Rightarrow> open_document io l path producer bytes)))"

end
