(* ===== verification/Journal_Replay.thy ===== *)
theory Journal_Replay
  imports Journal
begin

text \<open>
  What a reader recovers from the document a store wrote. \<open>journal_bytes\<close> is a document as a list of
  entries; scanning it gives back the records (\<open>scan_journal\<close>), also when the last append was cut short.
  \<open>journal_ok\<close> relates the open store to its document: the entries replay to the state in memory, up to
  the boot and the epoch of the fence, which an open mints. Every mutation that succeeds keeps it
  (\<open>journal_machine\<close>), so a restart recovers what was acknowledged (\<open>reopen_recovers\<close>).
\<close>

section \<open>Documents as lists of entries\<close>

type_synonym entry = "record_type \<times> u8 list"

primrec journal_bytes :: "u32 \<Rightarrow> u64 \<Rightarrow> entry list \<Rightarrow> u8 list" where
  "journal_bytes g s [] = []"
| "journal_bytes g s (e # es) = frame_record (fst e) s g (snd e) @ journal_bytes g (s + 1) es"

primrec journal_records :: "u32 \<Rightarrow> u64 \<Rightarrow> entry list \<Rightarrow> decoded_record list" where
  "journal_records g s [] = []"
| "journal_records g s (e # es) =
     \<lparr>dr_type = fst e, dr_version = k_record_version, dr_flags = g, dr_sequence = s, dr_payload = snd e\<rparr> #
     journal_records g (s + 1) es"

lemma unat_ucast_u32: "unat (ucast (x :: u32) :: u64) = unat x"
  by transfer (simp add: take_bit_eq_mod)

lemma length_journal_records [simp]: "length (journal_records g s es) = length es"
  by (induction es arbitrary: s) simp_all

lemma journal_bytes_append [simp]:
  "journal_bytes g s (es @ fs) = journal_bytes g s es @ journal_bytes g (s + of_nat (length es)) fs"
  by (induction es arbitrary: s) (simp_all add: add.assoc add.commute)

lemma journal_records_append [simp]:
  "journal_records g s (es @ fs) = journal_records g s es @ journal_records g (s + of_nat (length es)) fs"
  by (induction es arbitrary: s) (simp_all add: add.assoc add.commute)

definition entries_ok :: "entry list \<Rightarrow> bool" where
  "entries_ok es \<longleftrightarrow> (\<forall>e \<in> set es. fst e \<noteq> Rt_Snapshot \<and> length (snd e) \<le> k_record_payload)"

definition torn_tail :: "u8 list \<Rightarrow> bool" where
  "torn_tail q \<longleftrightarrow> q = [] \<or> (\<exists>t s g p r. s \<noteq> 0 \<and> length p \<le> k_record_payload \<and> frame_record t s g p = q @ r \<and> r \<noteq> [])"

definition scanned :: "nat \<Rightarrow> u32 \<Rightarrow> u64 \<Rightarrow> decoded_record list \<Rightarrow> journal_scan" where
  "scanned offset g expected rs = \<lparr>sc_offset = offset, sc_expected = expected, sc_generation = g, sc_records = rs, sc_torn = None\<rparr>"

lemma scanned_simps [simp]:
  "sc_offset (scanned offset g s rs) = offset" "sc_expected (scanned offset g s rs) = s"
  "sc_generation (scanned offset g s rs) = g" "sc_records (scanned offset g s rs) = rs" "sc_torn (scanned offset g s rs) = None"
  by (simp_all add: scanned_def)

lemma scan_entries:
  assumes "entries_ok es" "rs \<noteq> []" "length rs + length es \<le> unat (max_journal_records l)"
    "unat s + length es \<le> 2 ^ 64" "s \<noteq> 0 \<or> es = []"
  shows "scan_from l (good @ journal_bytes g s es @ tail) (scanned (length good) g s rs) =
    scan_from l (good @ journal_bytes g s es @ tail)
      (scanned (length good + length (journal_bytes g s es)) g (s + of_nat (length es)) (rs @ journal_records g s es))"
  using assms
proof (induction es arbitrary: good s rs)
  case (Cons e es)
  let ?r = "\<lparr>dr_type = fst e, dr_version = k_record_version, dr_flags = g, dr_sequence = s, dr_payload = snd e\<rparr>"
  let ?good = "good @ frame_record (fst e) s g (snd e)"
  let ?bytes = "good @ frame_record (fst e) s g (snd e) @ journal_bytes g (s + 1) es @ tail"
  have same: "?bytes = ?good @ journal_bytes g (s + 1) es @ tail" by simp
  have rec: "decode_record_at ?bytes (length good) = Rec_Ok ?r (length ?good)"
    using decode_record_frame[of s "snd e" good "fst e" g "journal_bytes g (s + 1) es @ tail"] Cons.prems
    by (simp add: entries_ok_def add.assoc)
  have s: "s + 1 \<noteq> 0 \<or> es = []" "unat (s + 1) + length es \<le> 2 ^ 64"
  proof -
    show "s + 1 \<noteq> 0 \<or> es = []"
    proof (cases es)
      case (Cons e' es')
      then have "unat s + 1 < 2 ^ 64" using Cons.prems(4) by simp
      then have "unat (s + 1) = unat s + 1" by (subst unat_add_lem[THEN iffD1]) simp_all
      then show ?thesis by (metis Suc_eq_plus1 nat.distinct(1) unat_0)
    qed simp
    have "unat (s + 1) = (unat s + 1) mod 2 ^ 64" by (simp add: unat_word_ariths)
    then have "unat (s + 1) \<le> unat s + 1" by simp
    then show "unat (s + 1) + length es \<le> 2 ^ 64" using Cons.prems(4) by simp
  qed
  have "scan_from l ?bytes (scanned (length good) g s rs) = scan_from l ?bytes (scanned (length ?good) g (s + 1) (rs @ [?r]))"
    using Cons.prems
    by (subst scan_from.simps) (simp add: rec check_record_def entries_ok_def take_record_def scanned_def)
  also have "\<dots> = scan_from l ?bytes (scanned (length ?good + length (journal_bytes g (s + 1) es)) g
      (s + 1 + of_nat (length es)) ((rs @ [?r]) @ journal_records g (s + 1) es))"
    unfolding same by (rule Cons.IH) (use Cons.prems s in \<open>simp_all add: entries_ok_def\<close>)
  also have "length ?good + length (journal_bytes g (s + 1) es) = length good + length (journal_bytes g s (e # es))" by simp
  also have "s + 1 + of_nat (length es) = s + of_nat (length (e # es))" by (simp add: add.assoc)
  finally show ?case by simp
qed simp

lemma scan_tail:
  assumes "torn_tail q"
  shows "\<exists>torn. (torn = None \<longleftrightarrow> q = []) \<and>
    scan_from l (good @ q) (scanned (length good) g s rs) = Inr ((scanned (length good) g s rs)\<lparr>sc_torn := torn\<rparr>)"
proof (cases "q = []")
  case True
  then show ?thesis by (subst scan_from.simps) (simp add: scanned_def)
next
  case False
  then obtain t s' g' p r where "s' \<noteq> 0" "length p \<le> k_record_payload" "frame_record t s' g' p = q @ r" "r \<noteq> []"
    using assms by (auto simp: torn_tail_def)
  from decode_record_prefix[OF this(1-3) False this(4), of good] obtain detail where
    "decode_record_at (good @ q) (length good) = Rec_Torn R_PersistenceTornTailRecovered detail (length (good @ q))" by blast
  then show ?thesis using False by (subst scan_from.simps) (simp add: scanned_def)
qed

text \<open>A document: a snapshot record, then entries of the same store generation.\<close>

lemma scan_prefix:
  assumes "g \<noteq> 0" "length p \<le> k_record_payload" "entries_ok es" "length es < unat (max_journal_records l)"
  shows "scan_document l (journal_bytes g 1 ((Rt_Snapshot, p) # es) @ q) =
    scan_from l (journal_bytes g 1 ((Rt_Snapshot, p) # es) @ q)
      (scanned (length (journal_bytes g 1 ((Rt_Snapshot, p) # es))) g (2 + of_nat (length es))
        (journal_records g 1 ((Rt_Snapshot, p) # es)))"
proof -
  let ?doc = "journal_bytes g 1 ((Rt_Snapshot, p) # es)" and ?good = "frame_record Rt_Snapshot 1 g p"
  let ?r = "\<lparr>dr_type = Rt_Snapshot, dr_version = k_record_version, dr_flags = g, dr_sequence = 1, dr_payload = p\<rparr>"
  have doc: "?doc @ q = ?good @ journal_bytes g 2 es @ q" by simp
  have rec: "decode_record_at (?good @ journal_bytes g 2 es @ q) 0 = Rec_Ok ?r (length ?good)"
    using decode_record_frame[of 1 p "[]" Rt_Snapshot g "journal_bytes g 2 es @ q"] assms(2) by simp
  have "unat (max_journal_records l) < 2 ^ 32" using unsigned_less[of "max_journal_records l", where ?'a = nat] by simp
  with assms(4) have "length es < 2 ^ 32" by (rule less_trans)
  then have few: "length es \<le> 18446744073709551614" by simp
  have "scan_document l (?doc @ q) = scan_from l (?doc @ q) (scanned (length ?good) g 2 [?r])"
    unfolding doc using assms(1,4)
    by (subst scan_document_def, subst scan_from.simps)
       (simp add: rec check_record_def take_record_def scanned_def scan_start_def)
  also have "\<dots> = scan_from l (?doc @ q) (scanned (length ?good + length (journal_bytes g 2 es)) g (2 + of_nat (length es))
      ([?r] @ journal_records g 2 es))"
    unfolding doc by (rule scan_entries) (use assms few in simp_all)
  also have "length ?good + length (journal_bytes g 2 es) = length ?doc" by simp
  also have "[?r] @ journal_records g 2 es = journal_records g 1 ((Rt_Snapshot, p) # es)" by simp
  finally show ?thesis .
qed

theorem scan_journal:
  assumes "g \<noteq> 0" "length p \<le> k_record_payload" "entries_ok es" "length es < unat (max_journal_records l)" "torn_tail q"
  shows "\<exists>torn. (torn = None \<longleftrightarrow> q = []) \<and>
    scan_document l (journal_bytes g 1 ((Rt_Snapshot, p) # es) @ q) =
      Inr ((scanned (length (journal_bytes g 1 ((Rt_Snapshot, p) # es))) g (2 + of_nat (length es))
        (journal_records g 1 ((Rt_Snapshot, p) # es)))\<lparr>sc_torn := torn\<rparr>)"
  unfolding scan_prefix[OF assms(1-4)] by (rule scan_tail[OF assms(5)])

text \<open>Counts of records fit in 64 bits.\<close>

lemma document_counts:
  assumes "length (es :: entry list) < unat (m :: u32)"
  shows document_next_nonzero: "(2 + of_nat (length es) :: u64) \<noteq> 0"
    and document_room: "(1 + of_nat (length es) :: u64) < ucast m \<longleftrightarrow> Suc (length es) < unat m"
proof -
  have "unat m < 2 ^ 32" using unsigned_less[of m, where ?'a = nat] by simp
  with assms have few: "length es < 2 ^ 32" by (rule less_trans)
  then have "unat (2 + of_nat (length es) :: u64) = 2 + length es" using unat_of_nat[of "2 + length es", where ?'a = 64] by simp
  then show "(2 + of_nat (length es) :: u64) \<noteq> 0" by (metis add_is_0 unat_0 zero_neq_numeral)
  have "unat (1 + of_nat (length es) :: u64) = Suc (length es)" using few unat_of_nat[of "Suc (length es)", where ?'a = 64] by simp
  then show "(1 + of_nat (length es) :: u64) < ucast m \<longleftrightarrow> Suc (length es) < unat m"
    by (simp add: word_less_nat_alt unat_ucast_u32)
qed

text \<open>A record of another generation or out of sequence makes the whole document unreadable.\<close>

lemma scan_bad_record:
  assumes "g \<noteq> 0" "length p \<le> k_record_payload" "entries_ok es" "length es < unat (max_journal_records l)"
    and bad: "t \<noteq> Rt_Snapshot" "s' \<noteq> 0" "length p' \<le> k_record_payload" "g' \<noteq> g \<or> s' \<noteq> 2 + of_nat (length es)"
  shows "\<exists>detail. scan_document l (journal_bytes g 1 ((Rt_Snapshot, p) # es) @ frame_record t s' g' p' @ rest) =
    Inl (if g' \<noteq> g then Oc_Stale else Oc_IntegrityFailure, detail)"
proof -
  let ?doc = "journal_bytes g 1 ((Rt_Snapshot, p) # es)"
  let ?r = "\<lparr>dr_type = t, dr_version = k_record_version, dr_flags = g', dr_sequence = s', dr_payload = p'\<rparr>"
  have rec: "decode_record_at (?doc @ frame_record t s' g' p' @ rest) (length ?doc) = Rec_Ok ?r (length ?doc + 88 + length p')"
    by (rule decode_record_frame[OF bad(2,3)])
  have "\<exists>detail. check_record (scanned (length ?doc) g (2 + of_nat (length es)) (journal_records g 1 ((Rt_Snapshot, p) # es))) ?r =
      Some (if g' \<noteq> g then Oc_Stale else Oc_IntegrityFailure, detail)"
    using bad by (auto simp: check_record_def)
  then have "\<exists>detail. scan_from l (?doc @ frame_record t s' g' p' @ rest)
      (scanned (length ?doc) g (2 + of_nat (length es)) (journal_records g 1 ((Rt_Snapshot, p) # es))) =
      Inl (if g' \<noteq> g then Oc_Stale else Oc_IntegrityFailure, detail)"
    using rec by (subst scan_from.simps) auto
  then show ?thesis using scan_prefix[OF assms(1-4), of "frame_record t s' g' p' @ rest"] by simp
qed

text \<open>A document of one record more than the reader's bound is refused.\<close>

lemma scan_too_many:
  assumes "g \<noteq> 0" "length p \<le> k_record_payload" "entries_ok es" "Suc (length es) = unat (max_journal_records l)"
    and "t \<noteq> Rt_Snapshot" "length p' \<le> k_record_payload"
  shows "scan_document l (journal_bytes g 1 ((Rt_Snapshot, p) # es) @ frame_record t (2 + of_nat (length es)) g p' @ rest) =
    Inl (Oc_Exhausted, txt_durable_journal_exceeds_its_record)"
proof -
  let ?doc = "journal_bytes g 1 ((Rt_Snapshot, p) # es)" and ?s = "2 + of_nat (length es) :: u64"
  let ?r = "\<lparr>dr_type = t, dr_version = k_record_version, dr_flags = g, dr_sequence = ?s, dr_payload = p'\<rparr>"
  have few: "length es < unat (max_journal_records l)" using assms(4) by simp
  have "?s \<noteq> 0" by (rule document_next_nonzero[OF few])
  then have rec: "decode_record_at (?doc @ frame_record t ?s g p' @ rest) (length ?doc) = Rec_Ok ?r (length ?doc + 88 + length p')"
    by (rule decode_record_frame[OF _ assms(6)])
  have "scan_from l (?doc @ frame_record t ?s g p' @ rest)
      (scanned (length ?doc) g ?s (journal_records g 1 ((Rt_Snapshot, p) # es))) =
      Inl (Oc_Exhausted, txt_durable_journal_exceeds_its_record)"
    using rec assms(4,5) by (subst scan_from.simps) (simp add: check_record_def take_record_def)
  then show ?thesis using scan_prefix[OF assms(1-3) few, of "frame_record t ?s g p' @ rest"] by simp
qed

section \<open>Replaying entries\<close>

primrec replay_entries :: "limits \<Rightarrow> entry list \<Rightarrow> store_state \<Rightarrow> decode_error + store_state" where
  "replay_entries l [] s = Inr s"
| "replay_entries l (e # es) s =
     (case replay_record l (fst e) (snd e) s of Inl err \<Rightarrow> Inl err | Inr s' \<Rightarrow> replay_entries l es s')"

lemma replay_journal_records: "replay_records l (journal_records g s es) st = replay_entries l es st"
  by (induction es arbitrary: s st) (auto split: sum.splits)

lemma replay_entries_append:
  "replay_entries l es s = Inr s' \<Longrightarrow> replay_entries l (es @ fs) s = replay_entries l fs s'"
  by (induction es arbitrary: s) (auto split: sum.splits)

lemma map_result_ok [simp]: "map_result g (ok x) = ok (g x)"
  by (simp add: map_result_def)

lemma id_to_string_short: "length (id_to_string k) \<le> 20"
proof -
  have "unat k < 2 ^ 64" using unsigned_less[of k, where ?'a = nat] by simp
  then have "unat k < 10 ^ 20" by simp
  then show ?thesis unfolding id_to_string_def by (rule length_dec_digits) simp
qed

lemma ok_fields [simp]: "r_value (ok x) = Some x"
  by (simp add: ok_def)

lemma replay_topology:
  assumes "canonicalize_topology t l = ok def" "encode_topology def \<noteq> []"
  shows "replay_record l Rt_TopologyDefinition (encode_topology def) s =
    Inr (s\<lparr>ss_topology := Some def, ss_topology_generation := td_generation def\<rparr>)"
  using decode_encode_topology[OF assms(1)] encode_topology_overflow[of def] assms(2)
  by (simp add: replay_record_def decode_record_payload_def apply_delta_def)

lemma replay_policy:
  "policy_valid l p \<Longrightarrow> replay_record l Rt_ContainmentPolicyRecord (encode_policy p) s = Inr (s\<lparr>ss_policy := Some p\<rparr>)"
  by (simp add: replay_record_def decode_record_payload_def apply_delta_def policy_payload.decode_encode)

lemma decode_fence_payload_encode: "\<not> fence_is_zero f \<Longrightarrow> decode_fence_payload (encode_fence f) = ok f"
  using decode_fence_put[of f "[]"] by (simp add: decode_fence_payload_def)

lemma replay_fence:
  "\<not> fence_is_zero f \<Longrightarrow> replay_record l Rt_FenceAdvance (encode_fence f) s = Inr (s\<lparr>ss_fence := f\<rparr>)"
  by (simp add: replay_record_def decode_record_payload_def apply_delta_def decode_fence_payload_encode)

lemma replay_lineage_append:
  assumes "lineage_valid r" "\<not> (id_valid (ss_lineage_sequence s) \<and> lr_sequence r \<le> ss_lineage_sequence s)"
  shows "replay_record l Rt_LineageAppend (encode_lineage r) s =
    Inr (s\<lparr>ss_lineage := trim_front (max_retained_lineage l) (ss_lineage s @ [r]), ss_lineage_sequence := lr_sequence r\<rparr>)"
  using assms by (auto simp: replay_record_def decode_record_payload_def apply_delta_def lineage_payload.decode_encode
      replay_lineage_def trim_front_def)

lemma replay_finding:
  assumes "finding_valid l f" "id_valid (fi_generation f)" "length (upsert f (ss_findings s)) \<le> unat (max_retained_findings l)"
  shows "replay_record l Rt_FindingUpsert (encode_finding f) s =
    Inr (s\<lparr>ss_findings := trim_front (max_retained_findings l) (upsert f (ss_findings s)), ss_finding_sequence := fi_generation f\<rparr>)"
  using assms by (simp add: replay_record_def decode_record_payload_def apply_delta_def finding_payload.decode_encode
      replay_upsert_def trim_front_def)

lemma ex_reasons_new_add:
  assumes "m \<noteq> 0"
  shows "ex_reasons (ex_add code subject detail (new_explanation m)) = [bounded_reason (code, subject, detail)]"
  using assms by (simp add: ex_add_def new_explanation_def bounded_reason_def insert_sorted_def unat_eq_0)

lemma withdrawn_text_short: "length txt_withdrawn_by_the_owning_runtime \<le> 192"
  by code_simp

lemma default_reasons: "max_explanation_reasons default_limits \<noteq> 0"
  by (simp add: default_limits_def)

lemma encode_withdrawal_of:
  assumes "max_explanation_reasons l \<noteq> 0"
  shows "encode_record_payload Rt_FindingWithdraw delta (withdrawal_of l k cause now reason) r b =
    encode_finding_withdrawal k cause now reason txt_withdrawn_by_the_owning_runtime"
  using withdrawn_text_short
  by (simp add: encode_record_payload_def withdrawal_of_def ex_reasons_new_add[OF assms] bounded_reason_def)

lemma replay_withdrawal:
  assumes "list_ex (\<lambda>f. fi_id f = k) (ss_findings s)"
  shows "replay_record l Rt_FindingWithdraw (encode_finding_withdrawal k cause now reason txt_withdrawn_by_the_owning_runtime) s =
    Inr (s\<lparr>ss_findings := update_first (\<lambda>f. fi_id f = k)
      (\<lambda>f. f\<lparr>fi_state := Fs_Withdrawn, fi_cause := cause, fi_updated_at := now,
         fi_explanation := ex_add reason (id_to_string k) txt_withdrawn_by_the_owning_runtime (fi_explanation f)\<rparr>)
      (ss_findings s)\<rparr>)"
proof -
  let ?t = txt_withdrawn_by_the_owning_runtime
  have t: "length ?t \<le> k_string_bytes" "length ?t \<le> 192" "length (id_to_string k) \<le> 128"
    using withdrawn_text_short id_to_string_short[of k] by (simp_all add: k_string_bytes_def)
  let ?w = "default_finding\<lparr>fi_id := k, fi_cause := cause, fi_updated_at := now, fi_state := Fs_Withdrawn,
      fi_explanation := ex_add reason (id_to_string k) ?t (new_explanation (max_explanation_reasons default_limits))\<rparr>"
  have "withdraw_with ?w = (\<lambda>f. f\<lparr>fi_state := Fs_Withdrawn, fi_cause := cause, fi_updated_at := now,
      fi_explanation := ex_add reason (id_to_string k) ?t (fi_explanation f)\<rparr>)"
    using t by (intro ext) (simp add: withdraw_with_def ex_reasons_new_add[OF default_reasons] bounded_reason_def)
  then show ?thesis
    using assms decode_encode_withdrawal[OF t(1), of k cause now reason]
    by (simp add: replay_record_def decode_record_payload_def apply_delta_def replay_withdraw_def)
qed

lemma replay_boot_advance:
  assumes "br_boot b \<notin> br_boot ` set (ss_boot_ledger s)"
  shows "replay_record l Rt_BootAdvance (encode_boot_record b) s = Inr (s\<lparr>ss_boot_ledger := ss_boot_ledger s @ [b]\<rparr>)"
proof -
  have "\<not> list_ex (\<lambda>r. br_boot r = br_boot b) (ss_boot_ledger s)" using assms unfolding list_ex_iff by (metis imageI)
  then show ?thesis
    by (simp add: replay_record_def decode_record_payload_def apply_delta_def boot_payload.decode_encode replay_boot_def)
qed

lemma replay_shutdown:
  assumes "boot \<in> br_boot ` set (ss_boot_ledger s)"
  shows "replay_record l Rt_Note (encode_shutdown_marker boot True now) s =
    Inr (s\<lparr>ss_boot_ledger := update_first (\<lambda>b. br_boot b = boot) (\<lambda>b. b\<lparr>br_clean_shutdown := True, br_closed_at := now\<rparr>)
      (ss_boot_ledger s)\<rparr>)"
proof -
  have "list_ex (\<lambda>r. br_boot r = boot) (ss_boot_ledger s)" using assms by (auto simp: list_ex_iff)
  then have "replay_record l Rt_Note (encode_shutdown_marker boot True now) s =
    Inr (s\<lparr>ss_boot_ledger := update_first (\<lambda>b. br_boot b = boot) (\<lambda>b. b\<lparr>br_closed_at := now, br_clean_shutdown := True\<rparr>)
      (ss_boot_ledger s)\<rparr>)"
    by (simp add: replay_record_def decode_record_payload_def apply_delta_def decode_encode_shutdown_marker replay_boot_def)
  also have "(\<lambda>b. b\<lparr>br_closed_at := now, br_clean_shutdown := True\<rparr>) = (\<lambda>b. b\<lparr>br_clean_shutdown := True, br_closed_at := now\<rparr>)"
    by (intro ext) simp
  finally show ?thesis .
qed

section \<open>The open store and its document\<close>

text \<open>An open mints the boot and the epoch of the fence in memory only. The fence a reader replays agrees
  with the live one but for these two; the live epoch is then that of a boot in the ledger.\<close>

definition same_document :: "store_state \<Rightarrow> store_state \<Rightarrow> bool" where
  "same_document s live \<longleftrightarrow> (\<exists>b e. s = live\<lparr>ss_fence := (ss_fence live)\<lparr>fv_boot := b, fv_epoch := e\<rparr>\<rparr> \<and>
     (e = fv_epoch (ss_fence live) \<or>
      e \<le> fv_epoch (ss_fence live) \<and> fv_epoch (ss_fence live) \<in> br_epoch ` set (ss_boot_ledger live)))"

lemma same_document_refl [simp]: "same_document s s"
  unfolding same_document_def by (rule exI[of _ "fv_boot (ss_fence s)"], rule exI[of _ "fv_epoch (ss_fence s)"]) simp

definition document_ok :: "durable_store \<Rightarrow> bool" where
  "document_ok d \<longleftrightarrow> limits_are_sane (ds_limits d) \<and> ss_store_generation (ds_state d) \<noteq> 0 \<and>
     (\<exists>p es s0 s. ds_file d = journal_bytes (ss_store_generation (ds_state d)) 1 ((Rt_Snapshot, p) # es) \<and>
       length p \<le> k_record_payload \<and> entries_ok es \<and> length es < unat (max_journal_records (ds_limits d)) \<and>
       ds_next_sequence d = 2 + of_nat (length es) \<and> ds_journal_records d = 1 + of_nat (length es) \<and>
       ds_journal_bytes d = of_nat (length (ds_file d)) \<and>
       decode_store_state (ds_limits d) p = ok s0 \<and> replay_entries (ds_limits d) es s0 = Inr s \<and> same_document s (ds_state d))"

definition knows_boot :: "durable_store \<Rightarrow> bool" where
  "knows_boot d \<longleftrightarrow> pi_boot (ds_identity d) \<in> br_boot ` set (ss_boot_ledger (ds_state d))"

text \<open>When the next append compacts, the snapshot must fit the reader's ceiling; otherwise the document must
  have room for one more record.\<close>

definition compactable :: "limits \<Rightarrow> store_state \<Rightarrow> bool" where
  "compactable l s \<longleftrightarrow> store_valid l s \<and> fv_topology (ss_fence s) \<noteq> 0 \<and> length (encode_store_state s) \<le> k_record_payload"

definition roomy :: "durable_store \<Rightarrow> bool" where
  "roomy d \<longleftrightarrow> (if over_bounds d then compactable (ds_limits d) (ds_state d) \<and> 1 < max_journal_records (ds_limits d)
     else ds_journal_records d < ucast (max_journal_records (ds_limits d)))"

lemma length_encode_store:
  "length (encode_store_state (s\<lparr>ss_store_generation := g\<rparr>)) = length (encode_store_state s)"
  "length (encode_store_state (s\<lparr>ss_fence := f\<rparr>)) = length (encode_store_state s)"
  by (simp_all add: encode_store_state_def write_store_state_def take_checked_def put_simps write_blob_def)

lemma store_valid_update:
  "store_valid l s \<Longrightarrow> g \<noteq> 0 \<Longrightarrow> store_valid l (s\<lparr>ss_store_generation := g\<rparr>)"
  "store_valid l s \<Longrightarrow> \<not> fence_is_zero f \<Longrightarrow> store_valid l (s\<lparr>ss_fence := f\<rparr>)"
  by (simp_all add: store_valid_def)

lemma encode_store_nonempty: "encode_store_state s \<noteq> []"
  by (simp add: encode_store_state_def write_store_state_def take_checked_def put_simps le16_def)

lemma rewrite_snapshot_ok:
  assumes "rewrite_snapshot g io d = (st, d')" "is_ok st" "store_valid (ds_limits d) (ds_state d)" "g \<noteq> 0"
    "length (encode_store_state (ds_state d)) \<le> k_record_payload" "limits_are_sane (ds_limits d)"
  shows "document_ok (d'\<lparr>ds_next_sequence := 2\<rparr>) \<and> ds_journal_records d' = 1 \<and>
    ds_state d' = (ds_state d)\<lparr>ss_store_generation := g\<rparr> \<and> ds_limits d' = ds_limits d \<and> ds_identity d' = ds_identity d"
proof -
  let ?s = "(ds_state d)\<lparr>ss_store_generation := g\<rparr>"
  let ?frame = "frame_record Rt_Snapshot 1 g (encode_store_state ?s)"
  have small: "length (encode_store_state ?s) \<le> k_record_payload" using assms(5) by (simp add: length_encode_store)
  have io: "io = Replace_Done" and d': "d' = d\<lparr>ds_state := ?s, ds_open := True, ds_file := ?frame,
      ds_journal_bytes := of_nat (length ?frame), ds_journal_records := 1\<rparr>"
    using assms(1,2) encode_store_nonempty[of ?s]
    by (auto simp: rewrite_snapshot_def Let_def split: if_splits replace_io.splits)
  have "decode_store_state (ds_limits d) (encode_store_state ?s) = ok ?s"
    by (rule decode_encode_store_state[OF store_valid_update(1)[OF assms(3,4)]])
  moreover have "0 < unat (max_journal_records (ds_limits d))"
    using assms(6) by (simp add: limits_are_sane_def unat_gt_0)
  moreover have "ds_file d' = journal_bytes g 1 [(Rt_Snapshot, encode_store_state ?s)]" using d' by simp
  ultimately have "document_ok (d'\<lparr>ds_next_sequence := 2\<rparr>)"
    using d' small assms(4,6) unfolding document_ok_def
    by (intro conjI, simp, simp, intro exI[of _ "encode_store_state ?s"] exI[of _ "[]"] exI[of _ ?s])
       (simp add: entries_ok_def)
  then show ?thesis using d' by simp
qed

lemma document_ok_update [simp]:
  "document_ok (d\<lparr>ds_recovery := r\<rparr>) = document_ok d" "document_ok (d\<lparr>ds_identity := i\<rparr>) = document_ok d"
  "document_ok (d\<lparr>ds_open := b\<rparr>) = document_ok d"
  by (simp_all add: document_ok_def)

lemma compact_ok:
  assumes "compact io d = (st, d')" "is_ok st" "compactable (ds_limits d) (ds_state d)" "limits_are_sane (ds_limits d)"
  shows "document_ok d' \<and> ds_journal_records d' = 1 \<and> ds_limits d' = ds_limits d \<and> ds_identity d' = ds_identity d \<and>
    (\<exists>g. ds_state d' = (ds_state d)\<lparr>ss_store_generation := g\<rparr>)"
proof -
  let ?g = "ss_store_generation (ds_state d)"
  have g: "?g \<noteq> - 1" using assms(1,2) by (auto simp: compact_def split: if_splits)
  then have "?g + 1 \<noteq> 0" by (metis add.inverse_unique add.commute)
  obtain st' d1 where r: "rewrite_snapshot (?g + 1) io d = (st', d1)" by fastforce
  have "is_ok st'" and d': "\<exists>rec. d' = d1\<lparr>ds_next_sequence := 2, ds_recovery := rec\<rparr>"
    using assms(1,2) g r by (auto simp: compact_def split: if_splits)
  from rewrite_snapshot_ok[OF r this(1)] \<open>?g + 1 \<noteq> 0\<close> assms(3,4)
  have "document_ok (d1\<lparr>ds_next_sequence := 2\<rparr>)" "ds_journal_records d1 = 1" "ds_limits d1 = ds_limits d"
    "ds_identity d1 = ds_identity d" "ds_state d1 = (ds_state d)\<lparr>ss_store_generation := ?g + 1\<rparr>"
    by (auto simp: compactable_def)
  then show ?thesis using d' by auto
qed

text \<open>A record that replays as the live state changes keeps document and state in step.\<close>

definition in_step :: "limits \<Rightarrow> record_type \<Rightarrow> u8 list \<Rightarrow> (store_state \<Rightarrow> store_state) \<Rightarrow> store_state \<Rightarrow> bool" where
  "in_step l type payload change live \<longleftrightarrow> (\<forall>g s. same_document s (live\<lparr>ss_store_generation := g\<rparr>) \<longrightarrow>
     (\<exists>s'. replay_record l type payload s = Inr s' \<and> same_document s' (change (live\<lparr>ss_store_generation := g\<rparr>))))"

lemma write_record_ok:
  assumes ok: "document_ok d" and wr: "write_record io type payload d = (st, d')" "is_ok st"
    and room: "ds_journal_records d < ucast (max_journal_records (ds_limits d))"
    and payload: "length payload \<le> k_record_payload" "type \<noteq> Rt_Snapshot"
    and step: "in_step (ds_limits d) type payload change (ds_state d)"
    and gen: "ss_store_generation (change (ds_state d)) = ss_store_generation (ds_state d)"
  shows "document_ok (d'\<lparr>ds_state := change (ds_state d')\<rparr>) \<and> ds_state d' = ds_state d \<and> ds_limits d' = ds_limits d \<and>
    ds_identity d' = ds_identity d"
proof -
  let ?l = "ds_limits d" and ?g = "ss_store_generation (ds_state d)"
  obtain p es s0 s where doc: "ds_file d = journal_bytes ?g 1 ((Rt_Snapshot, p) # es)"
    and p: "length p \<le> k_record_payload" and es: "entries_ok es" "length es < unat (max_journal_records ?l)"
    and counts: "ds_next_sequence d = 2 + of_nat (length es)" "ds_journal_records d = 1 + of_nat (length es)"
      "ds_journal_bytes d = of_nat (length (ds_file d))"
    and s: "decode_store_state ?l p = ok s0" "replay_entries ?l es s0 = Inr s" "same_document s (ds_state d)"
    using ok unfolding document_ok_def by blast
  let ?e = "(type, payload)"
  have d': "d' = d\<lparr>ds_file := ds_file d @ frame_record type (ds_next_sequence d) ?g payload, ds_next_sequence := ds_next_sequence d + 1,
      ds_journal_bytes := ds_journal_bytes d + of_nat (length (frame_record type (ds_next_sequence d) ?g payload)),
      ds_journal_records := ds_journal_records d + 1\<rparr>"
    using wr by (auto simp: write_record_def Let_def split: append_io.splits)
  obtain s' where s': "replay_record ?l type payload s = Inr s'" "same_document s' (change (ds_state d))"
    using step[unfolded in_step_def, rule_format, of s ?g] s(3) by auto
  have fewer: "Suc (length es) < unat (max_journal_records ?l)" using room document_room[OF es(2)] counts(2) by simp
  have "replay_entries ?l (es @ [?e]) s0 = Inr s'" using replay_entries_append[OF s(2), of "[?e]"] s'(1) by simp
  moreover have "ds_file d' = journal_bytes ?g 1 ((Rt_Snapshot, p) # es @ [?e])" using d' doc counts(1) by simp
  moreover have "entries_ok (es @ [?e])" using es(1) payload by (auto simp: entries_ok_def)
  ultimately have "document_ok (d'\<lparr>ds_state := change (ds_state d)\<rparr>)"
    using ok gen fewer counts p s(1) s'(2) d' unfolding document_ok_def
    by (intro conjI, simp, simp, intro exI[of _ p] exI[of _ "es @ [?e]"] exI[of _ s0] exI[of _ s'])
       (simp add: add.assoc add.commute)
  then show ?thesis using d' by simp
qed

lemma in_step_generation: "in_step l type payload change live \<Longrightarrow> in_step l type payload change (live\<lparr>ss_store_generation := g\<rparr>)"
  by (simp add: in_step_def)

lemma append_payload_ok:
  assumes ok: "document_ok d" and append: "append_payload io type payload d = (st, d')" "is_ok st"
    and room: "roomy d" and type: "type \<noteq> Rt_Snapshot"
    and step: "in_step (ds_limits d) type payload change (ds_state d)"
    and gen: "\<And>s. ss_store_generation (change s) = ss_store_generation s"
  shows "document_ok (d'\<lparr>ds_state := change (ds_state d')\<rparr>) \<and> ds_limits d' = ds_limits d \<and> ds_identity d' = ds_identity d \<and>
    (\<exists>g. ds_state d' = (ds_state d)\<lparr>ss_store_generation := g\<rparr>)"
proof -
  have small: "length payload \<le> k_record_payload" using append by (auto simp: append_payload_def not_less split: if_splits)
  show ?thesis
  proof (cases "over_bounds d")
    case True
    obtain st1 d1 where c: "compact (io_replace io) d = (st1, d1)" by fastforce
    then have st1: "is_ok st1" and w: "write_record (io_append io) type payload d1 = (st, d')"
      using append True by (auto simp: append_payload_def split: if_splits)
    have r: "compactable (ds_limits d) (ds_state d)" "1 < max_journal_records (ds_limits d)" "limits_are_sane (ds_limits d)"
      using room True ok by (simp_all add: roomy_def document_ok_def)
    from compact_ok[OF c st1 r(1,3)] obtain g where d1: "document_ok d1" "ds_journal_records d1 = 1"
      "ds_limits d1 = ds_limits d" "ds_identity d1 = ds_identity d" "ds_state d1 = (ds_state d)\<lparr>ss_store_generation := g\<rparr>" by blast
    have "ds_journal_records d1 < ucast (max_journal_records (ds_limits d1))"
      using r(2) d1(2,3) by (simp add: word_less_nat_alt unat_ucast_u32)
    from write_record_ok[OF d1(1) w append(2) this small type, of change] in_step_generation[OF step, of g] gen d1
    show ?thesis by auto
  next
    case False
    then have w: "write_record (io_append io) type payload d = (st, d')"
      using append by (auto simp: append_payload_def split: if_splits)
    have "ds_journal_records d < ucast (max_journal_records (ds_limits d))" using room False by (simp add: roomy_def)
    from write_record_ok[OF ok w append(2) this small type step gen] show ?thesis
      by (auto intro: exI[of _ "ss_store_generation (ds_state d)"])
  qed
qed

lemma commit_ok:
  assumes "document_ok d" "commit io type payload unencodable change d = (st, d')" "is_ok st" "roomy d" "type \<noteq> Rt_Snapshot"
    and "payload \<noteq> [] \<Longrightarrow> in_step (ds_limits d) type payload change (ds_state d)"
    and "\<And>s. ss_store_generation (change s) = ss_store_generation s"
  shows "document_ok d' \<and> ds_limits d' = ds_limits d \<and> ds_identity d' = ds_identity d \<and>
    (\<exists>g. ds_state d' = change ((ds_state d)\<lparr>ss_store_generation := g\<rparr>))"
proof -
  have nonempty: "payload \<noteq> []" using assms(2,3) by (auto simp: commit_def)
  obtain st1 d1 where a: "append_payload io type payload d = (st1, d1)" by fastforce
  then have "is_ok st1" "d' = d1\<lparr>ds_state := change (ds_state d1)\<rparr>"
    using assms(2,3) nonempty by (auto simp: commit_def split: if_splits)
  with append_payload_ok[OF assms(1) a _ assms(4,5) assms(6)[OF nonempty] assms(7)] show ?thesis by auto
qed

section \<open>Every mutation is in step\<close>

lemma in_step_simple:
  assumes "\<And>g f. replay_record l type payload (live\<lparr>ss_store_generation := g, ss_fence := f\<rparr>) =
      Inr (change (live\<lparr>ss_store_generation := g, ss_fence := f\<rparr>))"
    and "\<And>s f. change (s\<lparr>ss_fence := f\<rparr>) = (change s)\<lparr>ss_fence := f\<rparr>"
    and "\<And>s. ss_fence (change s) = ss_fence s"
    and "\<And>s. br_epoch ` set (ss_boot_ledger (change s)) = br_epoch ` set (ss_boot_ledger s)"
  shows "in_step l type payload change live"
  unfolding in_step_def
proof (intro allI impI)
  fix g s
  let ?live = "live\<lparr>ss_store_generation := g\<rparr>"
  assume "same_document s ?live"
  then obtain b e where s: "s = ?live\<lparr>ss_fence := (ss_fence live)\<lparr>fv_boot := b, fv_epoch := e\<rparr>\<rparr>"
    and e: "e = fv_epoch (ss_fence live) \<or> e \<le> fv_epoch (ss_fence live) \<and> fv_epoch (ss_fence live) \<in> br_epoch ` set (ss_boot_ledger live)"
    unfolding same_document_def by auto
  have "replay_record l type payload s = Inr (change s)" unfolding s by (rule assms(1))
  moreover have "same_document (change s) (change ?live)"
    unfolding same_document_def assms(3,4) s assms(2) using e by (intro exI[of _ b] exI[of _ e]) simp
  ultimately show "\<exists>s'. replay_record l type payload s = Inr s' \<and> same_document s' (change ?live)" by blast
qed

lemma in_step_fence:
  assumes "\<not> fence_is_zero f"
  shows "in_step l Rt_FenceAdvance (encode_fence f) (\<lambda>s. s\<lparr>ss_fence := f\<rparr>) live"
  unfolding in_step_def
proof (intro allI impI)
  fix g s assume "same_document s (live\<lparr>ss_store_generation := g\<rparr>)"
  then have "s\<lparr>ss_fence := f\<rparr> = live\<lparr>ss_store_generation := g, ss_fence := f\<rparr>" by (auto simp: same_document_def)
  then show "\<exists>s'. replay_record l Rt_FenceAdvance (encode_fence f) s = Inr s' \<and>
      same_document s' (live\<lparr>ss_store_generation := g, ss_fence := f\<rparr>)" using replay_fence[OF assms] by simp
qed

lemma update_first_keeps: "(\<And>x. k (g x) = k x) \<Longrightarrow> k ` set (update_first P g xs) = k ` set xs"
  by (metis map_update_first image_set)

definition journal_ok :: "durable_store \<Rightarrow> bool" where
  "journal_ok d \<longleftrightarrow> document_ok d \<and> knows_boot d"

lemma commit_keeps:
  assumes "journal_ok d" "commit io type payload unencodable change d = (st, d')" "is_ok st" "roomy d" "type \<noteq> Rt_Snapshot"
    and "payload \<noteq> [] \<Longrightarrow> in_step (ds_limits d) type payload change (ds_state d)"
    and "\<And>s. ss_store_generation (change s) = ss_store_generation s" "\<And>s. ss_boot_ledger (change s) = ss_boot_ledger s"
  shows "journal_ok d' \<and> (\<exists>g. ds_state d' = change ((ds_state d)\<lparr>ss_store_generation := g\<rparr>))"
  using commit_ok[OF _ assms(2-7)] assms(1) assms(8) by (auto simp: journal_ok_def knows_boot_def)

lemma check_resources_error: "check_resources pr rs = Some (oc, detail) \<Longrightarrow> oc \<noteq> Oc_Ok"
  by (induction pr rs rule: check_resources.induct) (auto split: if_splits)

lemma check_selectors_error: "check_selectors ps ss = Some (oc, detail) \<Longrightarrow> oc \<noteq> Oc_Ok"
  by (induction ps ss rule: check_selectors.induct) (auto split: if_splits)

lemma check_edges_error: "check_edges rs ss pe es = Some (oc, detail) \<Longrightarrow> oc \<noteq> Oc_Ok"
  by (induction rs ss pe es rule: check_edges.induct) (auto split: if_splits option.splits)

lemmas check_errors = check_resources_error check_selectors_error check_edges_error

lemma canonicalize_cases:
  "(\<exists>def. canonicalize_topology t l = ok def) \<or> (\<exists>oc detail. canonicalize_topology t l = failure oc detail \<and> oc \<noteq> Oc_Ok)"
  unfolding canonicalize_topology_def Let_def
  by (auto dest: check_errors split: option.splits)

lemma set_topology_keeps:
  assumes "journal_ok d" "store_set_topology io t d = (st, d')" "is_ok st" "roomy d"
  shows "journal_ok d'"
proof -
  obtain def where def: "canonicalize_topology t (ds_limits d) = ok def"
    and c: "commit io Rt_TopologyDefinition (encode_topology def) ''topology payload could not be encoded''
      (\<lambda>s. s\<lparr>ss_topology := Some def, ss_topology_generation := td_generation def\<rparr>) d = (st, d')"
    using assms(2,3)
    using canonicalize_cases[of t "ds_limits d"]
    by (auto simp: store_set_topology_def Let_def encode_record_payload_def split: if_splits)
  have "in_step (ds_limits d) Rt_TopologyDefinition (encode_topology def)
      (\<lambda>s. s\<lparr>ss_topology := Some def, ss_topology_generation := td_generation def\<rparr>) (ds_state d)" if "encode_topology def \<noteq> []"
    by (rule in_step_simple) (simp_all add: replay_topology[OF def that])
  then show ?thesis using commit_keeps[OF assms(1) c assms(3,4)] by simp
qed

lemma set_policy_keeps:
  assumes "journal_ok d" "store_set_policy io p d = (st, d')" "is_ok st" "roomy d" "policy_valid (ds_limits d) p"
  shows "journal_ok d'"
proof -
  have c: "commit io Rt_ContainmentPolicyRecord (encode_policy p) ''policy payload could not be encoded''
      (\<lambda>s. s\<lparr>ss_policy := Some p\<rparr>) d = (st, d')"
    using assms(2,3) by (auto simp: store_set_policy_def encode_record_payload_def split: if_splits)
  have "in_step (ds_limits d) Rt_ContainmentPolicyRecord (encode_policy p) (\<lambda>s. s\<lparr>ss_policy := Some p\<rparr>) (ds_state d)"
    by (rule in_step_simple) (simp_all add: replay_policy[OF assms(5)])
  then show ?thesis using commit_keeps[OF assms(1) c assms(3,4)] by simp
qed

lemma advance_fence_keeps:
  assumes "journal_ok d" "store_advance_fence io f d = (st, d')" "is_ok st" "roomy d" "\<not> fence_is_zero f"
  shows "journal_ok d'"
  using commit_keeps[OF assms(1) _ assms(3,4), of io Rt_FenceAdvance "encode_fence f"] assms(2) in_step_fence[OF assms(5)]
  by (auto simp: store_advance_fence_def encode_record_payload_def)

lemma append_lineage_keeps:
  assumes "journal_ok d" "store_append_lineage io r d = (st, d')" "is_ok st" "roomy d" "lineage_valid r"
  shows "journal_ok d'"
proof -
  let ?change = "\<lambda>s. s\<lparr>ss_lineage := trim_front (max_retained_lineage (ds_limits d)) (ss_lineage s @ [r]), ss_lineage_sequence := lr_sequence r\<rparr>"
  have fresh: "\<not> (id_valid (ss_lineage_sequence (ds_state d)) \<and> lr_sequence r \<le> ss_lineage_sequence (ds_state d))"
    and c: "commit io Rt_LineageAppend (encode_lineage r) ''lineage payload could not be encoded'' ?change d = (st, d')"
    using assms(2,3) by (auto simp: store_append_lineage_def encode_record_payload_def split: if_splits)
  have "in_step (ds_limits d) Rt_LineageAppend (encode_lineage r) ?change (ds_state d)"
    by (rule in_step_simple) (use fresh in \<open>simp_all add: replay_lineage_append[OF assms(5)]\<close>)
  then show ?thesis using commit_keeps[OF assms(1) c assms(3,4)] by simp
qed

lemma upsert_finding_keeps:
  assumes "journal_ok d" "store_upsert_finding io f d = (st, d')" "is_ok st" "roomy d" "finding_valid (ds_limits d) f"
    "length (upsert f (ss_findings (ds_state d))) \<le> unat (max_retained_findings (ds_limits d))"
  shows "journal_ok d'"
proof -
  let ?change = "\<lambda>s. s\<lparr>ss_findings := trim_front (max_retained_findings (ds_limits d)) (upsert f (ss_findings s)),
    ss_finding_sequence := fi_generation f\<rparr>"
  have gen: "id_valid (fi_generation f)"
    and c: "commit io Rt_FindingUpsert (encode_finding f) ''finding payload could not be encoded'' ?change d = (st, d')"
    using assms(2,3) by (auto simp: store_upsert_finding_def encode_record_payload_def split: if_splits)
  have "in_step (ds_limits d) Rt_FindingUpsert (encode_finding f) ?change (ds_state d)"
    by (rule in_step_simple) (use assms(6) in \<open>simp_all add: replay_finding[OF assms(5) gen]\<close>)
  then show ?thesis using commit_keeps[OF assms(1) c assms(3,4)] by simp
qed

lemma append_keeps:
  assumes "journal_ok d" "append_payload io type payload d = (st, d')" "is_ok st" "roomy d" "type \<noteq> Rt_Snapshot"
    and "in_step (ds_limits d) type payload change (ds_state d)"
    and "\<And>s. ss_store_generation (change s) = ss_store_generation s"
    and "\<And>s. br_boot ` set (ss_boot_ledger s) \<subseteq> br_boot ` set (ss_boot_ledger (change s))"
  shows "journal_ok (d'\<lparr>ds_state := change (ds_state d')\<rparr>)"
proof -
  have "document_ok d" using assms(1) by (simp add: journal_ok_def)
  from append_payload_ok[OF this assms(2-7)] obtain g where
    "document_ok (d'\<lparr>ds_state := change (ds_state d')\<rparr>)" "ds_identity d' = ds_identity d"
    "ds_state d' = (ds_state d)\<lparr>ss_store_generation := g\<rparr>" by blast
  then show ?thesis using assms(1) assms(8)[of "ds_state d'"] by (auto simp: journal_ok_def knows_boot_def)
qed

lemma withdraw_finding_keeps:
  assumes "journal_ok d" "store_withdraw_finding io k cause now reason d = (st, d')" "is_ok st" "roomy d"
    "list_ex (\<lambda>f. fi_id f = k) (ss_findings (ds_state d))"
  shows "journal_ok d'"
proof -
  let ?payload = "encode_finding_withdrawal k cause now reason txt_withdrawn_by_the_owning_runtime"
  let ?change = "\<lambda>s. s\<lparr>ss_findings := update_first (\<lambda>f. fi_id f = k)
      (\<lambda>f. f\<lparr>fi_state := Fs_Withdrawn, fi_cause := cause, fi_updated_at := now,
         fi_explanation := ex_add reason (id_to_string k) txt_withdrawn_by_the_owning_runtime (fi_explanation f)\<rparr>)
      (ss_findings s)\<rparr>"
  have "max_explanation_reasons (ds_limits d) \<noteq> 0"
    using assms(1) by (simp add: journal_ok_def document_ok_def limits_are_sane_def)
  then obtain st1 d1 where a: "append_payload io Rt_FindingWithdraw ?payload d = (st1, d1)" "is_ok st1"
    and d': "d' = d1\<lparr>ds_state := ?change (ds_state d1)\<rparr>"
    using assms(2,3) by (auto simp: store_withdraw_finding_def encode_withdrawal_of Let_def split: if_splits prod.splits)
  have "in_step (ds_limits d) Rt_FindingWithdraw ?payload ?change (ds_state d)"
    by (rule in_step_simple) (use assms(5) in \<open>simp_all add: replay_withdrawal\<close>)
  from append_keeps[OF assms(1) a assms(4) _ this] show ?thesis
    using d' by simp
qed

lemma close_keeps:
  assumes "journal_ok d" "store_close io flushed clean now d = (st, d')" "is_ok st" "roomy d"
  shows "journal_ok d'"
proof -
  let ?boot = "pi_boot (ds_identity d)"
  let ?change = "\<lambda>s. s\<lparr>ss_boot_ledger := update_first (\<lambda>b. br_boot b = ?boot)
      (\<lambda>b. b\<lparr>br_clean_shutdown := True, br_closed_at := now\<rparr>) (ss_boot_ledger s)\<rparr>"
  have known: "?boot \<in> br_boot ` set (ss_boot_ledger (ds_state d))" using assms(1) by (simp add: journal_ok_def knows_boot_def)
  have step: "in_step (ds_limits d) Rt_Note (encode_shutdown_marker ?boot True now) ?change (ds_state d)"
    by (rule in_step_simple) (use known in \<open>simp_all add: replay_shutdown update_first_keeps\<close>)
  have closed: "journal_ok (x\<lparr>ds_open := False\<rparr>) = journal_ok x" for x by (simp add: journal_ok_def knows_boot_def)
  show ?thesis
  proof (cases "ds_open d \<and> clean \<and> id_valid ?boot")
    case True
    obtain st1 d1 where a: "append_payload io Rt_Note (encode_shutdown_marker ?boot True now) d = (st1, d1)" by fastforce
    then have "is_ok st1" "d' = d1\<lparr>ds_state := ?change (ds_state d1)\<rparr>\<lparr>ds_open := False\<rparr>"
      using assms(2,3) True by (auto simp: store_close_def Let_def split: if_splits)
    with append_keeps[OF assms(1) a _ assms(4) _ step] show ?thesis by (simp add: closed update_first_keeps)
  next
    case False
    then have "d' = d \<or> d' = d\<lparr>ds_open := False\<rparr>" using assms(2) by (auto simp: store_close_def Let_def split: if_splits)
    then show ?thesis using assms(1) closed by auto
  qed
qed

section \<open>Minting a boot\<close>

lemma mint_fold:
  "foldl (\<lambda>(b, i, e) r. (max b (br_boot r), max i (br_incarnation r), max e (br_epoch r))) (b, i, e) rs =
     (fold max (map br_boot rs) b, fold max (map br_incarnation rs) i, fold max (map br_epoch rs) e)"
  by (induction rs arbitrary: b i e) (simp_all add: max.commute)

lemma fold_max_eq: "fold max xs (a :: 'a :: linorder) = Max (insert a (set xs))"
  using Max.set_eq_fold[of a xs] by simp

lemma fold_max_upper: "x = a \<or> x \<in> set xs \<Longrightarrow> x \<le> fold max xs (a :: 'a :: linorder)"
  unfolding fold_max_eq by (rule Max_ge) auto

lemma word_less_next:
  assumes "x \<le> y" "y \<noteq> - 1"
  shows "x < y + (1 :: u64)"
proof -
  have "unat y < 2 ^ 64" using unsigned_less[of y, where ?'a = nat] by simp
  moreover have "unat y \<noteq> 2 ^ 64 - 1" using assms(2) by (auto simp: word_unat_eq_iff unsigned_minus_1_eq_mask mask_eq_exp_minus_1)
  ultimately have "unat (y + 1) = unat y + 1" by (simp add: unat_word_ariths)
  then show ?thesis using assms(1) by (simp add: word_less_nat_alt word_le_nat_alt)
qed

text \<open>The minted boot, incarnation and epoch lie above everything the document has seen.\<close>

lemma mint_boot_fresh:
  assumes "mint_boot producer now s = Some b"
  shows "\<forall>r \<in> set (ss_boot_ledger s). br_boot r < br_boot b \<and> br_incarnation r < br_incarnation b \<and> br_epoch r < br_epoch b"
    and "fv_epoch (ss_fence s) < br_epoch b" "br_producer b = producer" "br_boot b \<noteq> 0" "br_epoch b \<noteq> 0"
proof -
  let ?b = "fold max (map br_boot (ss_boot_ledger s)) 0" and ?i = "fold max (map br_incarnation (ss_boot_ledger s)) 0"
    and ?e = "fold max (map br_epoch (ss_boot_ledger s)) (fv_epoch (ss_fence s))"
  have e0: "(if id_valid (fv_epoch (ss_fence s)) then fv_epoch (ss_fence s) else 0) = fv_epoch (ss_fence s)"
    by (simp add: id_valid_def)
  have m: "?b \<noteq> - 1" "?i \<noteq> - 1" "?e \<noteq> - 1" and b: "br_boot b = ?b + 1" "br_incarnation b = ?i + 1" "br_epoch b = ?e + 1"
    "br_producer b = producer"
    using assms by (auto simp: mint_boot_def mint_limits_def e0 mint_fold split: if_splits)
  show "\<forall>r \<in> set (ss_boot_ledger s). br_boot r < br_boot b \<and> br_incarnation r < br_incarnation b \<and> br_epoch r < br_epoch b"
    using m by (auto simp: b intro!: word_less_next fold_max_upper)
  show "fv_epoch (ss_fence s) < br_epoch b" using m by (auto simp: b intro!: word_less_next fold_max_upper)
  show "br_producer b = producer" by (rule b)
  have "x \<noteq> - 1 \<Longrightarrow> x + 1 \<noteq> 0" for x :: u64 by (metis add.inverse_unique add.commute)
  then show "br_boot b \<noteq> 0" "br_epoch b \<noteq> 0" using m b by auto
qed

lemma mint_boot_same:
  assumes "same_document s live"
  shows "mint_boot producer now s = mint_boot producer now live"
proof -
  obtain b e where s: "s = live\<lparr>ss_fence := (ss_fence live)\<lparr>fv_boot := b, fv_epoch := e\<rparr>\<rparr>"
    and e: "e = fv_epoch (ss_fence live) \<or> e \<le> fv_epoch (ss_fence live) \<and> fv_epoch (ss_fence live) \<in> br_epoch ` set (ss_boot_ledger live)"
    using assms unfolding same_document_def by blast
  let ?es = "map br_epoch (ss_boot_ledger live)" and ?L = "fv_epoch (ss_fence live)"
  have "fold max ?es e = fold max ?es ?L"
    using e
  proof
    assume le: "e \<le> ?L \<and> ?L \<in> br_epoch ` set (ss_boot_ledger live)"
    then have "?L \<le> fold max ?es e" by (auto intro!: fold_max_upper)
    moreover have "e \<le> fold max ?es ?L" using le fold_max_upper[of ?L ?L ?es] by (blast intro: order_trans)
    moreover have "fold max ?es e \<in> insert e (set ?es)" "fold max ?es ?L \<in> insert ?L (set ?es)"
      unfolding fold_max_eq by (rule Max_in; simp)+
    moreover have "\<forall>x \<in> set ?es. x \<le> fold max ?es e \<and> x \<le> fold max ?es ?L" by (auto intro!: fold_max_upper)
    ultimately show ?thesis by (metis antisym insertE)
  qed simp
  then show ?thesis using s by (auto simp: mint_boot_def mint_limits_def mint_fold id_valid_def)
qed

section \<open>Restarting\<close>

definition open_state :: "boot_record \<Rightarrow> store_state \<Rightarrow> store_state" where
  "open_state b s = s\<lparr>ss_boot_ledger := ss_boot_ledger s @ [b],
     ss_fence := (ss_fence s)\<lparr>fv_boot := br_boot b, fv_epoch := br_epoch b\<rparr>\<rparr>"

lemma in_step_boot:
  assumes "mint_boot producer now live = Some b"
  shows "in_step l Rt_BootAdvance (encode_boot_record b) (open_state b) live"
  unfolding in_step_def
proof (intro allI impI)
  fix g s
  let ?live = "live\<lparr>ss_store_generation := g\<rparr>"
  assume same: "same_document s ?live"
  then obtain x e where s: "s = ?live\<lparr>ss_fence := (ss_fence live)\<lparr>fv_boot := x, fv_epoch := e\<rparr>\<rparr>" and e: "e \<le> fv_epoch (ss_fence live)"
    unfolding same_document_def by auto
  note fresh = mint_boot_fresh[OF assms]
  have "br_boot b \<notin> br_boot ` set (ss_boot_ledger s)" using fresh(1) s by auto
  then have "replay_record l Rt_BootAdvance (encode_boot_record b) s = Inr (s\<lparr>ss_boot_ledger := ss_boot_ledger s @ [b]\<rparr>)"
    by (rule replay_boot_advance)
  moreover have "same_document (s\<lparr>ss_boot_ledger := ss_boot_ledger s @ [b]\<rparr>) (open_state b ?live)"
    unfolding same_document_def open_state_def s using e fresh(2) by - (rule exI[of _ x], rule exI[of _ e], auto)
  ultimately show "\<exists>s'. replay_record l Rt_BootAdvance (encode_boot_record b) s = Inr s' \<and> same_document s' (open_state b ?live)"
    by blast
qed

lemma open_state_same: "same_document s live \<Longrightarrow> open_state b (s\<lparr>ss_store_generation := g\<rparr>) = open_state b (live\<lparr>ss_store_generation := g\<rparr>)"
  by (auto simp: same_document_def open_state_def)

lemma compactable_same: "same_document s live \<Longrightarrow> compactable l live \<Longrightarrow> compactable l s"
  by (auto simp: same_document_def compactable_def length_encode_store fence_is_zero_def id_valid_def intro!: store_valid_update(2))

text \<open>What a reader of the document sees, whatever part of an append was under way when it was cut.\<close>

lemma reader_sees:
  assumes ok: "document_ok d" and q: "torn_tail q" and sc: "scan_document (ds_limits d) (ds_file d @ q) = r"
  obtains sc s where "r = Inr sc" "sc_records sc \<noteq> []" "sc_torn sc = None \<longleftrightarrow> q = []" "\<And>s'. replay_records (ds_limits d) (sc_records sc) s' = Inr s"
    "same_document s (ds_state d)" "document_ok (blank_store (ds_limits d) path sc (ds_file d @ q) s)"
    "roomy d \<Longrightarrow> roomy (blank_store (ds_limits d) path sc (ds_file d @ q) s)"
    "over_bounds (blank_store (ds_limits d) path sc (ds_file d @ q) s) = over_bounds d"
proof -
  let ?l = "ds_limits d" and ?g = "ss_store_generation (ds_state d)"
  obtain p es s0 s where doc: "ds_file d = journal_bytes ?g 1 ((Rt_Snapshot, p) # es)"
    and p: "length p \<le> k_record_payload" and es: "entries_ok es" "length es < unat (max_journal_records ?l)"
    and counts: "ds_next_sequence d = 2 + of_nat (length es)" "ds_journal_records d = 1 + of_nat (length es)"
      "ds_journal_bytes d = of_nat (length (ds_file d))"
    and s: "decode_store_state ?l p = ok s0" "replay_entries ?l es s0 = Inr s" "same_document s (ds_state d)"
    using ok unfolding document_ok_def by blast
  have g: "?g \<noteq> 0" "limits_are_sane ?l" using ok by (simp_all add: document_ok_def)
  from scan_journal[OF g(1) p es q] doc sc obtain torn where
    sc: "r = Inr ((scanned (length (ds_file d)) ?g (2 + of_nat (length es)) (journal_records ?g 1 ((Rt_Snapshot, p) # es)))\<lparr>sc_torn := torn\<rparr>)"
    and torn: "torn = None \<longleftrightarrow> q = []"
    by auto
  let ?sc = "(scanned (length (ds_file d)) ?g (2 + of_nat (length es)) (journal_records ?g 1 ((Rt_Snapshot, p) # es)))\<lparr>sc_torn := torn\<rparr>"
  have "replay_record ?l Rt_Snapshot p s' = Inr s0" for s'
    using s(1) by (simp add: replay_record_def decode_record_payload_def apply_delta_def)
  then have replay: "replay_records ?l (sc_records ?sc) s' = Inr s" for s'
    using s(2) by (simp add: replay_journal_records)
  have gen: "ss_store_generation s = ?g" using s(3) by (auto simp: same_document_def)
  let ?d = "blank_store ?l path ?sc (ds_file d @ q) s"
  have d: "ds_state ?d = s" "ds_limits ?d = ?l" "ds_file ?d = ds_file d" "ds_next_sequence ?d = ds_next_sequence d"
    "ds_journal_bytes ?d = ds_journal_bytes d" "ds_journal_records ?d = ds_journal_records d"
    using counts by (simp_all add: blank_store_def)
  have "document_ok ?d"
    unfolding document_ok_def d gen using ok doc p es counts s(1,2)
    by (intro conjI, simp add: document_ok_def, simp add: document_ok_def,
        intro exI[of _ p] exI[of _ es] exI[of _ s0] exI[of _ s]) simp
  moreover have over: "over_bounds ?d = over_bounds d" unfolding over_bounds_def by (simp only: d)
  moreover have "roomy ?d" if "roomy d"
    using that compactable_same[OF s(3)] unfolding roomy_def over d by auto
  ultimately show ?thesis using that[of ?sc s] sc replay s(3) torn by simp
qed

theorem reopen_recovers:
  assumes ok: "document_ok d" and q: "torn_tail q" and room: "roomy d"
    and opened: "open_document io (ds_limits d) path producer (ds_file d @ q) = ok d'"
  shows "\<exists>b g. mint_boot producer (oi_now io) (ds_state d) = Some b \<and>
    ds_state d' = open_state b ((ds_state d)\<lparr>ss_store_generation := g\<rparr>) \<and> pi_boot (ds_identity d') = br_boot b \<and>
    ds_limits d' = ds_limits d \<and> journal_ok d'"
proof -
  obtain sc s where sc: "scan_document (ds_limits d) (ds_file d @ q) = Inr sc" "sc_records sc \<noteq> []"
    "\<And>s'. replay_records (ds_limits d) (sc_records sc) s' = Inr s" and same: "same_document s (ds_state d)"
    and blank: "document_ok (blank_store (ds_limits d) path sc (ds_file d @ q) s)"
      "roomy (blank_store (ds_limits d) path sc (ds_file d @ q) s)"
    using reader_sees[OF ok q refl, of path] room by metis
  let ?d = "blank_store (ds_limits d) path sc (ds_file d @ q) s"
  have st: "ds_state ?d = s" "ds_limits ?d = ds_limits d" by (simp_all add: blank_store_def)
  obtain b where b: "mint_boot producer (oi_now io) s = Some b" and ex: "open_existing io path b ?d = ok d'"
    using opened sc by (auto simp: open_document_def Let_def st split: if_splits option.splits)
  obtain st1 d1 where a: "append_payload (oi_write io) Rt_BootAdvance (encode_boot_record b) ?d = (st1, d1)" by fastforce
  then have st1: "is_ok st1" and d': "d' = finish_open path b (d1\<lparr>ds_state := open_state b (ds_state d1)\<rparr>)"
    using ex by (auto simp: open_existing_def open_state_def split: if_splits)
  have "in_step (ds_limits ?d) Rt_BootAdvance (encode_boot_record b) (open_state b) (ds_state ?d)"
    unfolding st by (rule in_step_boot[OF b])
  from append_payload_ok[OF blank(1) a st1 blank(2) _ this] obtain g where
    d1: "document_ok (d1\<lparr>ds_state := open_state b (ds_state d1)\<rparr>)" "ds_limits d1 = ds_limits d"
      "ds_state d1 = s\<lparr>ss_store_generation := g\<rparr>"
    unfolding st by (auto simp: open_state_def)
  have "document_ok d'" unfolding d' finish_open_def using d1(1) by simp
  moreover have "knows_boot d'" by (simp add: d' finish_open_def knows_boot_def open_state_def)
  ultimately show ?thesis
    using b d1 open_state_same[OF same, of b g] mint_boot_same[OF same] by (auto simp: d' finish_open_def journal_ok_def)
qed

text \<open>An append into a document with room succeeds when the file system does.\<close>

lemma append_succeeds:
  assumes "ds_open d" "roomy d" "length payload \<le> k_record_payload" "io = \<lparr>io_replace = Replace_Done, io_append = Append_Done\<rparr>"
    "over_bounds d \<Longrightarrow> ss_store_generation (ds_state d) \<noteq> - 1"
  shows "is_ok (fst (append_payload io type payload d))"
proof -
  have w: "is_ok (fst (write_record Append_Done type payload d1))" for d1 by (simp add: write_record_def Let_def)
  show ?thesis
  proof (cases "over_bounds d")
    case True
    have "length (encode_store_state (ds_state d)) \<le> k_snapshot_payload"
      using assms(2) True by (simp add: roomy_def compactable_def k_record_payload_def k_snapshot_payload_def)
    then have "is_ok (fst (compact Replace_Done d))"
      using assms(1,5) True
      by (simp add: compact_def rewrite_snapshot_def Let_def encode_store_nonempty length_encode_store split: prod.splits)
    then show ?thesis using assms True w by (auto simp: append_payload_def split: prod.splits)
  qed (use assms w in \<open>simp add: append_payload_def\<close>)
qed

theorem reopen_succeeds:
  assumes ok: "document_ok d" and q: "torn_tail q" and room: "roomy d" "\<not> over_bounds d"
    and io: "is_ok (oi_handle io)" "oi_write io = \<lparr>io_replace = Replace_Done, io_append = Append_Done\<rparr>"
    and mint: "mint_boot producer (oi_now io) (ds_state d) \<noteq> None"
  shows "\<exists>d'. open_document io (ds_limits d) path producer (ds_file d @ q) = ok d'"
proof -
  obtain sc s where sc: "scan_document (ds_limits d) (ds_file d @ q) = Inr sc" "sc_records sc \<noteq> []"
    "\<And>s'. replay_records (ds_limits d) (sc_records sc) s' = Inr s" and same: "same_document s (ds_state d)"
    and blank: "roomy (blank_store (ds_limits d) path sc (ds_file d @ q) s)"
      "\<not> over_bounds (blank_store (ds_limits d) path sc (ds_file d @ q) s)"
    using reader_sees[OF ok q refl, of path] room by metis
  let ?d = "blank_store (ds_limits d) path sc (ds_file d @ q) s"
  have st: "ds_state ?d = s" "ds_open ?d" by (simp_all add: blank_store_def)
  obtain b where b: "mint_boot producer (oi_now io) s = Some b" using mint mint_boot_same[OF same] by fastforce
  have "length (encode_boot_record b) \<le> k_record_payload" by (simp add: k_record_payload_def)
  from append_succeeds[OF st(2) blank(1) this io(2), of Rt_BootAdvance] blank(2)
  have "is_ok (fst (append_payload (oi_write io) Rt_BootAdvance (encode_boot_record b) ?d))" by simp
  then show ?thesis
    using sc b io(1) st(1) by (auto simp: open_document_def open_existing_def Let_def split: prod.splits)
qed

section \<open>A fresh store\<close>

lemma fresh_valid:
  assumes "limits_are_sane l"
  shows "store_valid l (default_store_state\<lparr>ss_fence := first_fence b, ss_boot_ledger := [b]\<rparr>)"
proof -
  have "1 \<le> unat (max_boot_records l)" using assms by (simp add: limits_are_sane_def unat_gt_0 Suc_le_eq)
  then show ?thesis
    by (simp add: store_valid_def default_store_state_def k_record_version_def topology_matches_def first_fence_def
        fence_is_zero_def id_valid_def)
qed

lemma fresh_small:
  "length (encode_store_state (default_store_state\<lparr>ss_fence := first_fence b, ss_boot_ledger := [b]\<rparr>)) \<le> k_record_payload"
  by (simp add: encode_store_state_def write_store_state_def take_checked_def put_simps write_optional_def write_blob_def
      default_store_state_def put_counted_def k_record_payload_def)

theorem fresh_document_ok:
  assumes "limits_are_sane l" "open_document io l path producer [] = ok d"
  shows "journal_ok d \<and> ds_limits d = l"
proof -
  have scan: "scan_document l [] = Inr scan_start" by (simp add: scan_document_def scan_from.simps scan_start_def)
  let ?d = "blank_store l path scan_start [] default_store_state"
  obtain b where fresh: "open_fresh io path b ?d = ok d"
    using assms(2) scan by (auto simp: open_document_def scan_start_def Let_def split: if_splits option.splits)
  let ?s = "default_store_state\<lparr>ss_fence := first_fence b, ss_boot_ledger := [b]\<rparr>"
  let ?d0 = "?d\<lparr>ds_open := False, ds_state := ?s\<rparr>"
  obtain st d1 where r: "rewrite_snapshot 1 (io_replace (oi_write io)) ?d0 = (st, d1)" by fastforce
  then have "is_ok st" and d: "d = finish_open path b (d1\<lparr>ds_next_sequence := 2\<rparr>)"
    using fresh by (auto simp: open_fresh_def split: if_splits)
  from rewrite_snapshot_ok[OF r this(1)] fresh_valid[OF assms(1), of b] fresh_small[of b] assms(1)
  have "document_ok (d1\<lparr>ds_next_sequence := 2\<rparr>)" "ds_state d1 = ?s\<lparr>ss_store_generation := 1\<rparr>" "ds_limits d1 = l"
    by (auto simp: blank_store_def)
  then show ?thesis by (simp add: d finish_open_def journal_ok_def knows_boot_def)
qed

section \<open>Histories of a store\<close>

inductive journal_step :: "durable_store \<Rightarrow> durable_store \<Rightarrow> bool" where
  topology_step: "roomy d \<Longrightarrow> store_set_topology io t d = (st, d') \<Longrightarrow> is_ok st \<Longrightarrow> journal_step d d'"
| policy_step: "roomy d \<Longrightarrow> policy_valid (ds_limits d) p \<Longrightarrow> store_set_policy io p d = (st, d') \<Longrightarrow> is_ok st \<Longrightarrow> journal_step d d'"
| fence_step: "roomy d \<Longrightarrow> \<not> fence_is_zero f \<Longrightarrow> store_advance_fence io f d = (st, d') \<Longrightarrow> is_ok st \<Longrightarrow> journal_step d d'"
| lineage_step: "roomy d \<Longrightarrow> lineage_valid r \<Longrightarrow> store_append_lineage io r d = (st, d') \<Longrightarrow> is_ok st \<Longrightarrow> journal_step d d'"
| finding_step: "roomy d \<Longrightarrow> finding_valid (ds_limits d) f \<Longrightarrow>
    length (upsert f (ss_findings (ds_state d))) \<le> unat (max_retained_findings (ds_limits d)) \<Longrightarrow>
    store_upsert_finding io f d = (st, d') \<Longrightarrow> is_ok st \<Longrightarrow> journal_step d d'"
| withdraw_step: "roomy d \<Longrightarrow> list_ex (\<lambda>f. fi_id f = k) (ss_findings (ds_state d)) \<Longrightarrow>
    store_withdraw_finding io k cause now reason d = (st, d') \<Longrightarrow> is_ok st \<Longrightarrow> journal_step d d'"
| close_step: "roomy d \<Longrightarrow> store_close io flushed clean now d = (st, d') \<Longrightarrow> is_ok st \<Longrightarrow> journal_step d d'"
| restart_step: "roomy d \<Longrightarrow> torn_tail q \<Longrightarrow> open_document oio (ds_limits d) path producer (ds_file d @ q) = ok d' \<Longrightarrow>
    journal_step d d'"

definition fresh_store :: "durable_store \<Rightarrow> bool" where
  "fresh_store d \<longleftrightarrow> (\<exists>io l path producer. limits_are_sane l \<and> open_document io l path producer [] = ok d)"

lemma journal_step_keeps:
  assumes "journal_step d d'" "journal_ok d"
  shows "journal_ok d'"
  using assms(1)
proof cases
  case restart_step
  have "document_ok d" using assms(2) by (simp add: journal_ok_def)
  from reopen_recovers[OF this restart_step(2,1,3)] show ?thesis by blast
qed (rule set_topology_keeps set_policy_keeps advance_fence_keeps append_lineage_keeps upsert_finding_keeps
    withdraw_finding_keeps close_keeps; (rule assms(2))?; assumption)+

interpretation journal_machine: invariant_machine fresh_store journal_step journal_ok
  by unfold_locales (auto simp: fresh_store_def dest: fresh_document_ok journal_step_keeps)

end
