(* ===== verification/Runtime.thy ===== *)
theory Runtime
  imports Journal_Replay
begin

text \<open>
  The runtime facade of src/runtime.cpp: the state one coordinator owns - definitions, policy, evidence,
  findings, plans, applications, lineage and the durable store - and every operation of class Runtime
  that changes or reports it.

  The mutex and the observer callback, which runs on a copy after the lock is released, are not
  represented: each operation is one atomic step. Where an operation calls the store several times,
  \<open>io i\<close> is what the file system answers to the i-th call. A Runtime whose implementation pointer is
  null is None (\<open>facade\<close>). \<open>topology\<close> and \<open>has_topology\<close>, \<open>policy\<close> and \<open>has_policy\<close>, \<open>store\<close> and
  \<open>has_store\<close> are one optional field each, since the code sets them together.
\<close>

section \<open>Texts\<close>

definition txt_restored_from_durable_state :: string where
  "txt_restored_from_durable_state = ''restored from durable state; the producing incarnation is gone''"

definition txt_restart_restored_definitions :: string where
  "txt_restart_restored_definitions =
     ''restart restored definitions, policy and lineage; observations, leases, grants and in-flight intents were dropped''"

definition txt_forwarding_generation_must_advance :: string where
  "txt_forwarding_generation_must_advance = ''forwarding generation must advance past the current generation''"

definition txt_fabric_epoch_must_advance :: string where
  "txt_fabric_epoch_must_advance = ''fabric epoch must advance past the current fabric epoch''"

definition txt_topology_generation_must_advance :: string where
  "txt_topology_generation_must_advance = ''topology generation must advance past the installed generation''"

definition txt_policy_generation_must_advance :: string where
  "txt_policy_generation_must_advance = ''policy generation must advance past the installed generation''"

definition txt_only_a_confirmed_loop_becomes :: string where
  "txt_only_a_confirmed_loop_becomes = ''only a confirmed loop becomes a finding; the assessment is ''"

definition txt_the_assessment_binds_a_fence :: string where
  "txt_the_assessment_binds_a_fence = ''the assessment binds a fence that is no longer current''"

definition txt_an_affirmative_assessment_without :: string where
  "txt_an_affirmative_assessment_without = ''an affirmative assessment without a witness is not publishable''"

definition txt_the_installed_definition_is_not :: string where
  "txt_the_installed_definition_is_not = ''the installed definition is not the generation the finding binds''"

definition txt_a_witness_in_the_assessment_failed :: string where
  "txt_a_witness_in_the_assessment_failed =
     ''a witness in the assessment failed independent revalidation at publish time''"

definition txt_every_witness_was_independently :: string where
  "txt_every_witness_was_independently = ''every witness was independently revalidated at publish time''"

definition txt_the_finding_is_fenced :: string where
  "txt_the_finding_is_fenced = ''the finding is fenced and can no longer authorize containment''"

definition txt_the_plan_is_fenced :: string where
  "txt_the_plan_is_fenced = ''the plan is fenced and no longer authorizes action''"

definition txt_a_requested_target_is_not_part :: string where
  "txt_a_requested_target_is_not_part = ''a requested target is not part of the authorized plan''"

definition txt_the_intent_was_issued_under :: string where
  "txt_the_intent_was_issued_under = ''the intent was issued under a superseded fence''"

definition txt_the_applier_acknowledged_the_intent :: string where
  "txt_the_applier_acknowledged_the_intent = ''the applier acknowledged the intent; the effect is still unverified''"

definition txt_the_effect_names_a_target :: string where
  "txt_the_effect_names_a_target = ''the effect names a target the intent never contained''"

definition txt_the_effect_was_observed_under :: string where
  "txt_the_effect_was_observed_under = ''the effect was observed under a fence that is not current''"

definition txt_a_verified_effect_for_this_target :: string where
  "txt_a_verified_effect_for_this_target = ''a verified effect for this target is already recorded''"

definition txt_an_independent_observation_confirms :: string where
  "txt_an_independent_observation_confirms = ''an independent observation confirms the target is contained''"

definition txt_no_verified_effect_has_been_recorded :: string where
  "txt_no_verified_effect_has_been_recorded = ''no verified effect has been recorded for this target''"

section \<open>State\<close>

record runtime_config =
  rc_limits :: limits
  rc_producer :: u64
  rc_store_path :: string
  rc_previous_shutdown_was_clean :: bool
  rc_boot_tick :: u64
  rc_origin :: evidence_origin

record runtime_counters =
  kt_observations_submitted :: u64
  kt_observations_rejected :: u64
  kt_assessments_run :: u64
  kt_findings_published :: u64
  kt_findings_refused :: u64
  kt_findings_fenced :: u64
  kt_plans_computed :: u64
  kt_intents_issued :: u64
  kt_intents_refused :: u64
  kt_effects_recorded :: u64
  kt_effects_unverified :: u64
  kt_lineage_records :: u64
  kt_retained_attempts :: u64

definition no_counters :: runtime_counters where
  "no_counters = \<lparr>kt_observations_submitted = 0, kt_observations_rejected = 0, kt_assessments_run = 0,
     kt_findings_published = 0, kt_findings_refused = 0, kt_findings_fenced = 0, kt_plans_computed = 0,
     kt_intents_issued = 0, kt_intents_refused = 0, kt_effects_recorded = 0, kt_effects_unverified = 0,
     kt_lineage_records = 0, kt_retained_attempts = 0\<rparr>"

text \<open>\<open>std::map\<close>: of the plans the order of the keys matters (retention drops the first), of the
  applications only lookups do.\<close>

record runtime =
  rt_config :: runtime_config
  rt_open :: bool
  rt_identity :: process_identity
  rt_fence :: fence_vector
  rt_topology :: "topology option"
  rt_policy :: "containment_policy option"
  rt_ledger :: evidence_ledger
  rt_findings :: finding_registry
  rt_store :: "durable_store option"
  rt_recovery :: recovery_report
  rt_lineage :: "lineage_record list"
  rt_plans :: "(u64 \<times> containment_plan) list"
  rt_applications :: "u64 \<Rightarrow> containment_application option"
  rt_counters :: runtime_counters

abbreviation rt_limits :: "runtime \<Rightarrow> limits" where
  "rt_limits r \<equiv> rc_limits (rt_config r)"

definition count_up :: "(runtime_counters \<Rightarrow> runtime_counters) \<Rightarrow> runtime \<Rightarrow> runtime" where
  "count_up g r = r\<lparr>rt_counters := g (rt_counters r)\<rparr>"

text \<open>\<open>plans[id] = plan\<close> and \<open>plans.erase(plans.begin())\<close>. With a limit of zero the code erases the end of an
  empty map, which C++ leaves undefined; here nothing is erased.\<close>

definition put_plan :: "containment_plan \<Rightarrow> (u64 \<times> containment_plan) list \<Rightarrow> (u64 \<times> containment_plan) list" where
  "put_plan p ps = (if list_ex (\<lambda>e. fst e = pl_id p) ps then map (\<lambda>e. if fst e = pl_id p then (fst e, p) else e) ps
     else insert_sorted fst (pl_id p, p) ps)"

definition retain_plan :: "limits \<Rightarrow> containment_plan \<Rightarrow> (u64 \<times> containment_plan) list \<Rightarrow> (u64 \<times> containment_plan) list" where
  "retain_plan l p ps = put_plan p (if length ps \<ge> unat (max_retained_plans l) then tl ps else ps)"

section \<open>Opening\<close>

definition default_recovery :: "limits \<Rightarrow> recovery_report" where
  "default_recovery l = \<lparr>rp_outcome = Oc_Invalid, rp_records_read = 0, rp_records_applied = 0, rp_bytes_read = 0,
     rp_torn_tail_recovered = False, rp_torn_tail_bytes = 0, rp_trailing_garbage = False,
     rp_snapshot_compacted = False, rp_explanation = new_explanation (max_explanation_reasons l)\<rparr>"

definition blank_runtime :: "runtime_config \<Rightarrow> runtime" where
  "blank_runtime c = \<lparr>rt_config = c, rt_open = False, rt_identity = \<lparr>pi_boot = 0, pi_incarnation = 0, pi_epoch = 0, pi_producer = 0\<rparr>,
     rt_fence = zero_fence, rt_topology = None, rt_policy = None, rt_ledger = new_ledger (rc_limits c),
     rt_findings = new_registry (rc_limits c), rt_store = None, rt_recovery = default_recovery (rc_limits c),
     rt_lineage = [], rt_plans = [], rt_applications = Map.empty, rt_counters = no_counters\<rparr>"

text \<open>A durable finding is restored as fenced history only.\<close>

definition restored_finding :: "finding \<Rightarrow> finding" where
  "restored_finding f = f\<lparr>fi_state := Fs_Fenced, fi_cause := Cause_BootAdvanced,
     fi_explanation := ex_add R_FindingFencedByRestart (id_to_string (fi_id f)) txt_restored_from_durable_state
       (fi_explanation f)\<rparr>"

definition restore_findings :: "finding list \<Rightarrow> finding_registry \<Rightarrow> finding_registry" where
  "restore_findings fs reg = foldl (\<lambda>reg f. snd (register_finding (restored_finding f) reg)) reg fs"

definition restored_fence :: "process_identity \<Rightarrow> store_state \<Rightarrow> fence_vector" where
  "restored_fence identity s =
     (let f = (ss_fence s)\<lparr>fv_boot := pi_boot identity, fv_epoch := pi_epoch identity\<rparr>;
          f = (case ss_topology s of Some t \<Rightarrow> (if id_valid (fv_topology f) then f else f\<lparr>fv_topology := td_generation t\<rparr>)
               | None \<Rightarrow> f);
          f = (if id_valid (fv_forwarding f) then f else f\<lparr>fv_forwarding := 1\<rparr>);
          f = (if id_valid (fv_policy f) then f
               else f\<lparr>fv_policy := (case ss_policy s of Some p \<Rightarrow> po_generation p | None \<Rightarrow> 1)\<rparr>)
      in if id_valid (fv_fabric_epoch f) then f else f\<lparr>fv_fabric_epoch := 1\<rparr>)"

definition restore_runtime :: "runtime_config \<Rightarrow> durable_store \<Rightarrow> runtime" where
  "restore_runtime c d =
     (let s = ds_state d; r = blank_runtime c
      in r\<lparr>rt_store := Some d, rt_identity := ds_identity d, rt_topology := ss_topology s, rt_policy := ss_policy s,
          rt_lineage := ss_lineage s, rt_findings := restore_findings (ss_findings s) (rt_findings r),
          rt_fence := restored_fence (ds_identity d) s,
          rt_recovery := (ds_recovery d)\<lparr>rp_explanation := ex_add R_DynamicStateNotRestored (rc_store_path c)
            txt_restart_restored_definitions (rp_explanation (ds_recovery d))\<rparr>\<rparr>)"

definition memory_runtime :: "runtime_config \<Rightarrow> runtime" where
  "memory_runtime c =
     (let r = blank_runtime c
      in r\<lparr>rt_identity := \<lparr>pi_boot = 1, pi_incarnation = 1, pi_epoch = 1, pi_producer = rc_producer c\<rparr>,
          rt_fence := zero_fence\<lparr>fv_boot := 1, fv_epoch := 1, fv_forwarding := 1, fv_policy := 1, fv_fabric_epoch := 1\<rparr>,
          rt_recovery := (rt_recovery r)\<lparr>rp_outcome := Oc_Ok, rp_explanation := ex_add R_RestartFreshIncarnation ''in-memory''
            ''the runtime was opened without durable state'' (rp_explanation (rt_recovery r))\<rparr>\<rparr>)"

definition finish_runtime :: "runtime \<Rightarrow> runtime" where
  "finish_runtime r =
     r\<lparr>rt_findings := snd (fence_boot (rt_fence r) (rc_boot_tick (rt_config r)) (rt_findings r)),
       rt_fence := (rt_fence r)\<lparr>fv_topology := (case rt_topology r of Some t \<Rightarrow> td_generation t | None \<Rightarrow> 1)\<rparr>,
       rt_open := True\<rparr>"

definition runtime_open :: "open_io \<Rightarrow> runtime_config \<Rightarrow> runtime result" where
  "runtime_open io c =
     (if \<not> limits_are_sane (rc_limits c) then failure Oc_Unsupported txt_limit_set_is_not_sane
      else if rc_store_path c \<noteq> [] then
        (let opened = open_or_create io (rc_store_path c) (rc_limits c) (rc_producer c)
         in case r_value opened of None \<Rightarrow> failure (r_outcome opened) (r_detail opened)
            | Some d \<Rightarrow> ok (finish_runtime (restore_runtime c d)))
      else ok (finish_runtime (memory_runtime c)))"

section \<open>Sequencing, the store and the lineage\<close>

text \<open>\<open>if (!status.is_ok()) return status;\<close> between two steps.\<close>

definition then_do :: "status \<times> 'r \<Rightarrow> ('r \<Rightarrow> 'a result \<times> 'r) \<Rightarrow> 'a result \<times> 'r" where
  "then_do p k = (case p of (st, r) \<Rightarrow> if is_ok st then k r else (failure (r_outcome st) (r_detail st), r))"

definition on_store :: "(durable_store \<Rightarrow> status \<times> durable_store) \<Rightarrow> runtime \<Rightarrow> status \<times> runtime" where
  "on_store call r = (case rt_store r of None \<Rightarrow> (status_ok, r)
     | Some d \<Rightarrow> (case call d of (st, d') \<Rightarrow> (st, r\<lparr>rt_store := Some d'\<rparr>)))"

definition next_sequence :: "lineage_record list \<Rightarrow> u64" where
  "next_sequence ls = (if ls = [] then 1 else case id_try_next (lr_sequence (last ls)) of Some n \<Rightarrow> n | None \<Rightarrow> 0)"

definition append_lineage :: "store_io \<Rightarrow> authority_kind \<Rightarrow> u64 \<Rightarrow> u64 \<Rightarrow> u64 \<Rightarrow> fence_vector \<Rightarrow> digest \<Rightarrow> reason_code \<Rightarrow>
    severity \<Rightarrow> u64 \<Rightarrow> runtime \<Rightarrow> status \<times> runtime" where
  "append_lineage io kind finding plan intent bound_fence subject reason sev now r =
     (let n = next_sequence (rt_lineage r)
      in if \<not> id_valid n then (failure Oc_Exhausted ''lineage sequence space is exhausted'', r)
         else let entry = \<lparr>lr_id = n, lr_sequence = n, lr_recorded_at = now, lr_kind = kind, lr_finding = finding,
                    lr_plan = plan, lr_intent = intent, lr_fence = bound_fence, lr_subject_digest = subject,
                    lr_reason = reason, lr_severity = sev\<rparr>
              in then_do (on_store (store_append_lineage io entry) r) (\<lambda>r.
                   let kept = trim_front (max_retained_lineage (rt_limits r)) (rt_lineage r @ [entry])
                   in (status_ok, count_up (\<lambda>k. k\<lparr>kt_lineage_records := kt_lineage_records k + 1,
                         kt_retained_attempts := of_nat (length kept)\<rparr>) (r\<lparr>rt_lineage := kept\<rparr>))))"

text \<open>Every live finding that does not bind the new fence is fenced.\<close>

definition fence_live :: "u64 \<Rightarrow> runtime \<Rightarrow> runtime" where
  "fence_live now r = (case fence_stale (rt_fence r) now (rt_findings r) of (fenced, reg) \<Rightarrow>
     count_up (\<lambda>k. k\<lparr>kt_findings_fenced := kt_findings_fenced k + of_nat (length fenced)\<rparr>) (r\<lparr>rt_findings := reg\<rparr>))"

definition commit_fence :: "(nat \<Rightarrow> store_io) \<Rightarrow> nat \<Rightarrow> digest \<Rightarrow> u64 \<Rightarrow> runtime \<Rightarrow> status \<times> runtime" where
  "commit_fence io i subject now r =
     then_do (on_store (store_advance_fence (io i) (rt_fence r)) r) (\<lambda>r.
       append_lineage (io (Suc i)) Auth_Withdrawal 0 0 0 (rt_fence r) subject R_FindingFencedByGenerationChange Sev_Critical now
         (fence_live now r))"

section \<open>Authority and definitions\<close>

definition advance_forwarding :: "(nat \<Rightarrow> store_io) \<Rightarrow> u64 \<Rightarrow> u64 \<Rightarrow> runtime \<Rightarrow> status \<times> runtime" where
  "advance_forwarding io generation now r =
     (if \<not> id_valid generation \<or> generation \<le> fv_forwarding (rt_fence r)
        then (failure Oc_Stale txt_forwarding_generation_must_advance, r)
      else let fence = (rt_fence r)\<lparr>fv_forwarding := generation\<rparr>
           in commit_fence io 0 (fence_digest fence) now (r\<lparr>rt_fence := fence\<rparr>))"

definition advance_fabric_epoch :: "(nat \<Rightarrow> store_io) \<Rightarrow> u64 \<Rightarrow> u64 \<Rightarrow> runtime \<Rightarrow> status \<times> runtime" where
  "advance_fabric_epoch io epoch now r =
     (if \<not> id_valid epoch \<or> epoch \<le> fv_fabric_epoch (rt_fence r)
        then (failure Oc_Stale txt_fabric_epoch_must_advance, r)
      else let fence = (rt_fence r)\<lparr>fv_fabric_epoch := epoch\<rparr>
           in commit_fence io 0 (fence_digest fence) now (r\<lparr>rt_fence := fence\<rparr>))"

definition advance_epoch :: "(nat \<Rightarrow> store_io) \<Rightarrow> u64 \<Rightarrow> runtime \<Rightarrow> status \<times> runtime" where
  "advance_epoch io now r =
     (case id_try_next (fv_epoch (rt_fence r)) of
        None \<Rightarrow> (failure Oc_Exhausted ''coordinator epoch space is exhausted'', r)
      | Some n \<Rightarrow> let fence = (rt_fence r)\<lparr>fv_epoch := n\<rparr>
          in commit_fence io 0 (fence_digest fence) now
               (r\<lparr>rt_fence := fence, rt_identity := (rt_identity r)\<lparr>pi_epoch := n\<rparr>\<rparr>))"

definition set_topology :: "(nat \<Rightarrow> store_io) \<Rightarrow> topology \<Rightarrow> u64 \<Rightarrow> runtime \<Rightarrow> status \<times> runtime" where
  "set_topology io t now r =
     (let canonical = canonicalize_topology t (rt_limits r)
      in case r_value canonical of
           None \<Rightarrow> (failure (r_outcome canonical) (r_detail canonical), r)
         | Some def \<Rightarrow>
             if (case rt_topology r of Some old \<Rightarrow> td_generation def \<le> td_generation old | None \<Rightarrow> False)
               then (failure Oc_Stale txt_topology_generation_must_advance, r)
             else then_do (on_store (store_set_topology (io 0) def) r) (\<lambda>r.
               commit_fence io 1 (topology_digest def) now
                 (r\<lparr>rt_topology := Some def, rt_fence := (rt_fence r)\<lparr>fv_topology := td_generation def\<rparr>\<rparr>)))"

definition set_policy :: "(nat \<Rightarrow> store_io) \<Rightarrow> containment_policy \<Rightarrow> u64 \<Rightarrow> runtime \<Rightarrow> status \<times> runtime" where
  "set_policy io p now r =
     (if \<not> id_valid (po_generation p) then (failure Oc_Invalid ''policy generation must be non-zero'', r)
      else if (case rt_policy r of Some old \<Rightarrow> po_generation p \<le> po_generation old | None \<Rightarrow> False)
        then (failure Oc_Stale txt_policy_generation_must_advance, r)
      else then_do (on_store (store_set_policy (io 0) p) r) (\<lambda>r.
        let r = r\<lparr>rt_policy := Some p, rt_fence := (rt_fence r)\<lparr>fv_policy := po_generation p\<rparr>\<rparr>
        in then_do (on_store (store_advance_fence (io 1) (rt_fence r)) r) (\<lambda>r. (status_ok, fence_live now r))))"

section \<open>Evidence and detection\<close>

definition submit_observation :: "forwarding_observation \<Rightarrow> u64 \<Rightarrow> runtime \<Rightarrow> status \<times> runtime" where
  "submit_observation ob now r =
     (case submit ob (rt_ledger r) of (st, g) \<Rightarrow> (st, count_up (\<lambda>k.
        if is_ok st then k\<lparr>kt_observations_submitted := kt_observations_submitted k + 1\<rparr>
        else k\<lparr>kt_observations_rejected := kt_observations_rejected k + 1\<rparr>) (r\<lparr>rt_ledger := g\<rparr>)))"

definition clear_evidence :: "runtime \<Rightarrow> status \<times> runtime" where
  "clear_evidence r = (status_ok, r\<lparr>rt_ledger := clear_dynamic_state (rt_ledger r)\<rparr>)"

definition observation_count :: "runtime \<Rightarrow> nat" where
  "observation_count r = length (el_observations (rt_ledger r))"

definition detect :: "u64 \<Rightarrow> u64 list \<Rightarrow> runtime \<Rightarrow> loop_assessment result \<times> runtime" where
  "detect now scope r =
     (case rt_topology r of None \<Rightarrow> (failure Oc_NotFound ''no topology definition is installed'', r)
      | Some t \<Rightarrow> (assess (rt_limits r) \<lparr>dr_topology = Some t, dr_ledger = Some (rt_ledger r), dr_fence = rt_fence r,
            dr_now = now, dr_scope = scope\<rparr>,
          count_up (\<lambda>k. k\<lparr>kt_assessments_run := kt_assessments_run k + 1\<rparr>) r))"

section \<open>Publishing a finding\<close>

definition witness_revalidates :: "u64 \<Rightarrow> runtime \<Rightarrow> topology \<Rightarrow> loop_witness \<Rightarrow> bool" where
  "witness_revalidates now r t w =
     (case r_value (revalidate (rt_limits r) w t (rt_ledger r) (rt_fence r) now) of None \<Rightarrow> False | Some v \<Rightarrow> wv_valid v)"

definition next_generation :: "finding list \<Rightarrow> u64" where
  "next_generation fs = (if fs = [] then 1 else fi_generation (last fs) + 1)"

text \<open>The finding of an assessment. Its identity is the digest of its other facts.\<close>

definition finding_of :: "runtime \<Rightarrow> loop_assessment \<Rightarrow> u64 \<Rightarrow> finding" where
  "finding_of r a now =
     (let f = default_finding\<lparr>fi_generation := next_generation (fr_findings (rt_findings r)), fi_assessment := la_id a,
            fi_assessment_digest := assessment_digest a, fi_fence := la_fence a, fi_state := Fs_Confirmed,
            fi_outcome := la_outcome a, fi_flags := la_flags a, fi_witnesses := map lw_id (la_witnesses a),
            fi_resources := implicated_resources a, fi_selectors := implicated_selectors a,
            fi_created_at := now, fi_updated_at := now, fi_origin := la_origin a,
            fi_explanation := ex_add R_WitnessSuccessfullyValidated ''finding'' txt_every_witness_was_independently
              (new_explanation (max_explanation_reasons (rt_limits r)))\<rparr>
      in f\<lparr>fi_id := content_addressed_id (finding_digest f)\<rparr>)"

definition refuse_finding :: "outcome \<Rightarrow> string \<Rightarrow> runtime \<Rightarrow> finding result \<times> runtime" where
  "refuse_finding oc detail r =
     (failure oc detail, count_up (\<lambda>k. k\<lparr>kt_findings_refused := kt_findings_refused k + 1\<rparr>) r)"

definition commit_finding :: "(nat \<Rightarrow> store_io) \<Rightarrow> finding \<Rightarrow> u64 \<Rightarrow> runtime \<Rightarrow> finding result \<times> runtime" where
  "commit_finding io f now r =
     then_do (on_store (store_upsert_finding (io 0) f) r) (\<lambda>r.
       case register_finding f (rt_findings r) of (registered, reg) \<Rightarrow>
         if \<not> has_value registered then (failure (r_outcome registered) (r_detail registered), r\<lparr>rt_findings := reg\<rparr>)
         else then_do (append_lineage (io 1) Auth_Recommendation (fi_id f) 0 0 (fi_fence f) (finding_digest f)
             R_WitnessSuccessfullyValidated Sev_Critical now (r\<lparr>rt_findings := reg\<rparr>)) (\<lambda>r.
           (ok f, count_up (\<lambda>k. k\<lparr>kt_findings_published := kt_findings_published k + 1\<rparr>) r)))"

definition publish_finding :: "(nat \<Rightarrow> store_io) \<Rightarrow> loop_assessment \<Rightarrow> u64 \<Rightarrow> runtime \<Rightarrow> finding result \<times> runtime" where
  "publish_finding io a now r =
     (if la_outcome a \<noteq> Loop_LoopConfirmed
        then refuse_finding Oc_Refused (txt_only_a_confirmed_loop_becomes @ name_loop_outcome (la_outcome a)) r
      else if la_fence a \<noteq> rt_fence r then refuse_finding Oc_Stale txt_the_assessment_binds_a_fence r
      else if la_witnesses a = [] then refuse_finding Oc_Refused txt_an_affirmative_assessment_without r
      else case rt_topology r of None \<Rightarrow> refuse_finding Oc_Stale txt_the_installed_definition_is_not r
        | Some t \<Rightarrow>
            if td_generation t \<noteq> fv_topology (la_fence a) then refuse_finding Oc_Stale txt_the_installed_definition_is_not r
            else if \<not> list_all (witness_revalidates now r t) (la_witnesses a)
              then (failure Oc_Refused txt_a_witness_in_the_assessment_failed, r)
            else commit_finding io (finding_of r a now) now r)"

section \<open>Planning\<close>

definition plan_reason :: "containment_plan \<Rightarrow> reason_code" where
  "plan_reason p = (case ex_reasons (pl_explanation p) of [] \<Rightarrow> R_ContainmentPlanValidated | e # _ \<Rightarrow> er_code e)"

text \<open>The plan is attached to the first live finding of the assessment.\<close>

definition attach_to_finding :: "store_io \<Rightarrow> u64 \<Rightarrow> containment_plan \<Rightarrow> u64 \<Rightarrow> runtime \<Rightarrow> status \<times> runtime" where
  "attach_to_finding io assessment p now r =
     (case find (\<lambda>f. fi_assessment f = assessment \<and> \<not> is_terminal f) (fr_findings (rt_findings r)) of
        None \<Rightarrow> (status_ok, r)
      | Some f \<Rightarrow> append_lineage io Auth_Eligibility (fi_id f) (pl_id p) 0 (pl_fence p) (plan_digest p) (plan_reason p)
          Sev_Warning now (r\<lparr>rt_findings := snd (attach_plan (fi_id f) (pl_id p) now (rt_findings r))\<rparr>))"

definition runtime_plan :: "(nat \<Rightarrow> store_io) \<Rightarrow> loop_assessment \<Rightarrow> u64 \<Rightarrow> runtime \<Rightarrow> containment_plan result \<times> runtime" where
  "runtime_plan io a now r =
     (case (rt_topology r, rt_policy r) of
        (Some t, Some policy) \<Rightarrow>
          (let planned = plan_containment (rt_limits r) a t policy
           in case r_value planned of None \<Rightarrow> (failure (r_outcome planned) (r_detail planned), r)
              | Some p \<Rightarrow> then_do (attach_to_finding (io 0) (la_id a) p now
                  (count_up (\<lambda>k. k\<lparr>kt_plans_computed := kt_plans_computed k + 1\<rparr>)
                    (r\<lparr>rt_plans := retain_plan (rt_limits r) p (rt_plans r)\<rparr>))) (\<lambda>r. (ok p, r)))
      | _ \<Rightarrow> (failure Oc_NotFound ''a topology and a containment policy are required'', r))"

section \<open>Authorizing containment\<close>

definition refuse_intent :: "outcome \<Rightarrow> string \<Rightarrow> runtime \<Rightarrow> containment_intent result \<times> runtime" where
  "refuse_intent oc detail r =
     (failure oc detail, count_up (\<lambda>k. k\<lparr>kt_intents_refused := kt_intents_refused k + 1\<rparr>) r)"

definition find_target :: "containment_plan \<Rightarrow> u64 \<Rightarrow> containment_target option" where
  "find_target p target = find (\<lambda>c. ct_resource c = target) (pl_targets p)"

text \<open>The cost of the requested targets; None when one of them is not a target of the plan.\<close>

definition requested_cost :: "containment_plan \<Rightarrow> u64 list \<Rightarrow> u64 option" where
  "requested_cost p targets = foldl (\<lambda>acc target. case acc of None \<Rightarrow> None
     | Some cost \<Rightarrow> (case find_target p target of None \<Rightarrow> None | Some c \<Rightarrow> Some (cost + ucast (ct_cost c))))
     (Some 0) targets"

definition intent_selectors :: "containment_plan \<Rightarrow> u64 list \<Rightarrow> u64 list" where
  "intent_selectors p targets =
     sort_unique (concat (map ct_selectors (filter (\<lambda>c. binary_search targets (ct_resource c)) (pl_targets p))))"

definition intent_of :: "runtime \<Rightarrow> u64 \<Rightarrow> containment_plan \<Rightarrow> u64 list \<Rightarrow> u64 \<Rightarrow> u64 \<Rightarrow> containment_intent" where
  "intent_of r finding p targets now lease =
     (let i = \<lparr>ci_id = 0, ci_plan = pl_id p, ci_finding = finding, ci_assessment = pl_assessment p, ci_fence = rt_fence r,
            ci_issued_by = rt_identity r, ci_targets = targets, ci_selectors = intent_selectors p targets,
            ci_issued_at = now, ci_expires_at = now + lease, ci_plan_digest = plan_digest p\<rparr>
      in i\<lparr>ci_id := content_addressed_id (intent_digest i)\<rparr>)"

definition application_of :: "runtime \<Rightarrow> containment_intent \<Rightarrow> containment_application" where
  "application_of r i = \<lparr>ap_intent = ci_id i, ap_plan = ci_plan i, ap_finding = ci_finding i, ap_fence = rt_fence r,
     ap_applier = rt_identity r, ap_targets = ci_targets i, ap_acknowledgements = [], ap_effects = [],
     ap_explanation = ex_add R_RequestAccepted (id_to_string (ci_id i)) ''a bounded containment intent was authorized''
       (new_explanation (max_explanation_reasons (rt_limits r)))\<rparr>"

definition issue_intent :: "store_io \<Rightarrow> containment_intent \<Rightarrow> u64 \<Rightarrow> runtime \<Rightarrow> containment_intent result \<times> runtime" where
  "issue_intent io i now r =
     (let reg = snd (attach_intent (ci_finding i) (ci_id i) now (rt_findings r));
          reg = snd (update_state (ci_finding i) Fs_ContainmentRequested Cause_None now R_RequestAccepted
            ''a bounded containment intent was issued'' reg)
      in then_do (append_lineage io Auth_Authorization (ci_finding i) (ci_plan i) (ci_id i) (rt_fence r) (intent_digest i)
           R_RequestAccepted Sev_Critical now
           (r\<lparr>rt_findings := reg, rt_applications := (rt_applications r)(ci_id i \<mapsto> application_of r i)\<rparr>)) (\<lambda>r.
         (ok i, count_up (\<lambda>k. k\<lparr>kt_intents_issued := kt_intents_issued k + 1\<rparr>) r)))"

definition authorize_targets :: "store_io \<Rightarrow> u64 \<Rightarrow> containment_plan \<Rightarrow> containment_grant \<Rightarrow> u64 \<Rightarrow> u64 \<Rightarrow> u64 list \<Rightarrow>
    runtime \<Rightarrow> containment_intent result \<times> runtime" where
  "authorize_targets io finding p grant now lease targets r =
     (let targets = sort (if targets = [] then target_resources p else targets)
      in if adjacent_dup targets then (failure Oc_Invalid ''target set contains duplicates'', r)
         else case requested_cost p targets of None \<Rightarrow> refuse_intent Oc_Refused txt_a_requested_target_is_not_part r
           | Some cost \<Rightarrow> (let authorized = authorize grant targets cost (rt_fence r) now
               in if \<not> is_ok authorized then refuse_intent (r_outcome authorized) (r_detail authorized) r
                  else issue_intent io (intent_of r finding p targets now lease) now r))"

definition authorize_containment :: "(nat \<Rightarrow> store_io) \<Rightarrow> u64 \<Rightarrow> containment_grant \<Rightarrow> u64 \<Rightarrow> u64 \<Rightarrow> u64 list \<Rightarrow> runtime \<Rightarrow>
    containment_intent result \<times> runtime" where
  "authorize_containment io finding grant now lease targets r =
     (case find_finding (rt_findings r) finding of
        None \<Rightarrow> (failure Oc_NotFound ''finding is not registered'', r)
      | Some f \<Rightarrow>
          if is_terminal f \<or> fi_fence f \<noteq> rt_fence r then refuse_intent Oc_Fenced txt_the_finding_is_fenced r
          else case map_of (rt_plans r) (fi_plan f) of
              None \<Rightarrow> refuse_intent Oc_NotFound ''the finding has no retained containment plan'' r
            | Some p \<Rightarrow>
                if \<not> authorizes_action p
                  then refuse_intent Oc_Refused (''the plan does not authorize action: '' @ name_containment_outcome (pl_outcome p)) r
                else if pl_fence p \<noteq> rt_fence r then refuse_intent Oc_Fenced txt_the_plan_is_fenced r
                else authorize_targets (io 0) finding p grant now lease targets r)"

section \<open>Acknowledgements, effects, withdrawal\<close>

text \<open>The state of the finding is changed, the lineage is written, and then the answer of the change is given.\<close>

definition record_outcome :: "store_io \<Rightarrow> u64 \<Rightarrow> containment_application \<Rightarrow> finding_state \<Rightarrow> reason_code \<Rightarrow> string \<Rightarrow>
    authority_kind \<Rightarrow> u64 \<Rightarrow> digest \<Rightarrow> severity \<Rightarrow> runtime \<Rightarrow> status \<times> runtime" where
  "record_outcome io now a state code detail kind intent subject sev r =
     (case update_state (ap_finding a) state Cause_None now code detail (rt_findings r) of (updated, reg) \<Rightarrow>
        then_do (append_lineage io kind (ap_finding a) (ap_plan a) intent (rt_fence r) subject code sev now
          (r\<lparr>rt_findings := reg\<rparr>)) (\<lambda>r. (updated, r)))"

definition record_acknowledgement :: "(nat \<Rightarrow> store_io) \<Rightarrow> containment_acknowledgement \<Rightarrow> u64 \<Rightarrow> runtime \<Rightarrow> status \<times> runtime" where
  "record_acknowledgement io ack now r =
     (case rt_applications r (ca_intent ack) of None \<Rightarrow> (failure Oc_NotFound ''intent is not registered'', r)
      | Some a \<Rightarrow>
          if ap_fence a \<noteq> rt_fence r then (failure Oc_Fenced txt_the_intent_was_issued_under, r)
          else if now > 0 \<and> length (ap_acknowledgements a) \<ge> 4
            then (failure Oc_Exhausted ''acknowledgement history is bounded'', r)
          else record_outcome (io 0) now a Fs_ContainmentAppliedUnverified R_AcknowledgementIsNotEffect
            txt_the_applier_acknowledged_the_intent Auth_Acknowledgement (ca_intent ack) (ca_intent_digest ack) Sev_Warning
            (r\<lparr>rt_applications := (rt_applications r)(ca_intent ack \<mapsto>
               a\<lparr>ap_acknowledgements := ap_acknowledgements a @ [ack]\<rparr>)\<rparr>))"

definition add_effect :: "verified_effect \<Rightarrow> containment_application \<Rightarrow> containment_application" where
  "add_effect e a =
     (let a = a\<lparr>ap_effects := sort_key ve_target (ap_effects a @ [e]),
            ap_explanation := ex_add R_EffectVerifiedForTarget (id_to_string (ve_target e))
              txt_an_independent_observation_confirms (ap_explanation a)\<rparr>
      in if fully_verified a then a
         else a\<lparr>ap_explanation := foldl (\<lambda>x missing. ex_add R_EffectUnverifiedForTarget (id_to_string missing)
           txt_no_verified_effect_has_been_recorded x) (ap_explanation a) (unverified_targets a)\<rparr>)"

definition count_effect :: "bool \<Rightarrow> runtime_counters \<Rightarrow> runtime_counters" where
  "count_effect complete k = k\<lparr>kt_effects_recorded := kt_effects_recorded k + 1,
     kt_effects_unverified := (if complete then kt_effects_unverified k else kt_effects_unverified k + 1)\<rparr>"

definition record_verified_effect :: "(nat \<Rightarrow> store_io) \<Rightarrow> u64 \<Rightarrow> verified_effect \<Rightarrow> u64 \<Rightarrow> runtime \<Rightarrow> status \<times> runtime" where
  "record_verified_effect io intent e now r =
     (case rt_applications r intent of None \<Rightarrow> (failure Oc_NotFound ''intent is not registered'', r)
      | Some a \<Rightarrow>
          if ap_fence a \<noteq> rt_fence r then (failure Oc_Fenced txt_the_intent_was_issued_under, r)
          else if \<not> binary_search (ap_targets a) (ve_target e) then (failure Oc_Refused txt_the_effect_names_a_target, r)
          else if ve_fence e \<noteq> rt_fence r then (failure Oc_Stale txt_the_effect_was_observed_under, r)
          else if list_ex (\<lambda>x. ve_target x = ve_target e) (ap_effects a)
            then (failure Oc_AlreadyExists txt_a_verified_effect_for_this_target, r)
          else
            let a = add_effect e a; complete = fully_verified a;
                r = count_up (count_effect complete) (r\<lparr>rt_applications := (rt_applications r)(intent \<mapsto> a)\<rparr>)
            in record_outcome (io 0) now a (if complete then Fs_ContainmentVerified else Fs_ContainmentAppliedUnverified)
                 (if complete then R_EffectVerifiedForTarget else R_EffectUnverifiedForTarget)
                 (if complete then ''every target carries an independently verified effect''
                  else ''at least one target has no verified effect'')
                 Auth_VerifiedEffect intent (application_digest a) (if complete then Sev_Notice else Sev_Warning) r)"

definition withdraw_finding :: "(nat \<Rightarrow> store_io) \<Rightarrow> u64 \<Rightarrow> reason_code \<Rightarrow> u64 \<Rightarrow> string \<Rightarrow> runtime \<Rightarrow> status \<times> runtime" where
  "withdraw_finding io finding reason now detail r =
     (if find_finding (rt_findings r) finding = None then (failure Oc_NotFound ''finding is not registered'', r)
      else then_do (on_store (store_withdraw_finding (io 0) finding Cause_ExplicitWithdrawal now reason) r) (\<lambda>r.
        case update_state finding Fs_Withdrawn Cause_ExplicitWithdrawal now reason detail (rt_findings r) of (updated, reg) \<Rightarrow>
          then_do (updated, r\<lparr>rt_findings := reg\<rparr>) (\<lambda>r.
            append_lineage (io 1) Auth_Withdrawal finding 0 0 (rt_fence r) zero_digest reason Sev_Critical now r)))"

section \<open>Reports\<close>

definition summaries :: "runtime \<Rightarrow> finding_summary list" where
  "summaries r = map (\<lambda>f. case map_of (rt_plans r) (fi_plan f) of None \<Rightarrow> summarize f
     | Some p \<Rightarrow> (summarize f)\<lparr>fs_containment := pl_outcome p, fs_target_count := length (pl_targets p)\<rparr>)
     (fr_findings (rt_findings r))"

definition find_plan :: "u64 \<Rightarrow> runtime \<Rightarrow> containment_plan option" where
  "find_plan k r = map_of (rt_plans r) k"

definition state_digest :: "runtime \<Rightarrow> digest" where
  "state_digest r = sha256 (fence_bytes (rt_fence r) @
     (case rt_topology r of None \<Rightarrow> zero_digest | Some t \<Rightarrow> topology_digest t) @
     (case rt_policy r of None \<Rightarrow> zero_digest | Some p \<Rightarrow> policy_digest p) @
     ledger_digest (rt_ledger r) @ registry_digest (rt_findings r) @ le64 (of_nat (length (rt_lineage r))) @
     concat (map lineage_digest (rt_lineage r)))"

text \<open>The text \<open>describe\<close> assembles. It calls \<open>state_digest\<close>, which locks the mutex that \<open>describe\<close> holds.\<close>

definition describe :: "runtime \<Rightarrow> string" where
  "describe r = ''runtime identity='' @ identity_to_string (rt_identity r) @ newline @
     ''fence='' @ fence_to_string (rt_fence r) @ newline @
     ''topology='' @ (case rt_topology r of None \<Rightarrow> ''none'' | Some t \<Rightarrow> id_to_string (td_generation t)) @
     '' edges='' @ dec_digits (case rt_topology r of None \<Rightarrow> 0 | Some t \<Rightarrow> length (td_edges t)) @ newline @
     ''policy='' @ (case rt_policy r of None \<Rightarrow> ''none'' | Some p \<Rightarrow> id_to_string (po_generation p)) @ newline @
     ''observations='' @ dec_digits (observation_count r) @ newline @
     ''findings='' @ dec_digits (length (fr_findings (rt_findings r))) @ '' live='' @
     dec_digits (live_count (rt_findings r)) @ newline @
     ''lineage='' @ dec_digits (length (rt_lineage r)) @ newline @
     ''state_digest='' @ to_hex (state_digest r) @ newline"

section \<open>Closing, and the facade\<close>

definition runtime_close :: "store_io \<Rightarrow> status \<Rightarrow> bool \<Rightarrow> u64 \<Rightarrow> runtime \<Rightarrow> status \<times> runtime" where
  "runtime_close io flushed clean now r =
     (if \<not> rt_open r then (status_ok, r)
      else on_store (store_close io flushed clean now) (r\<lparr>rt_open := False\<rparr>))"

definition facade :: "(runtime \<Rightarrow> 'a result \<times> runtime) \<Rightarrow> runtime option \<Rightarrow> 'a result \<times> runtime option" where
  "facade operation impl = (case impl of None \<Rightarrow> (failure Oc_Invalid ''runtime is not open'', None)
     | Some r \<Rightarrow> (case operation r of (res, r') \<Rightarrow> (res, Some r')))"

end
