(* ===== verification/Runtime_Safety.thy ===== *)
theory Runtime_Safety
  imports Runtime
begin

text \<open>
  What the operations of the runtime keep and grant. \<open>runtime_ok\<close> - a well-formed registry and ledger, an
  installed definition that is canonical and named by the fence, lineage in strictly ascending order,
  applications whose effects name their own targets, and every live finding bound to the current fence -
  is an invariant of all operations (\<open>runtime_machine\<close>); an operation that advances the fence must have
  reached the store. An intent is issued inside the plan and the grant (\<open>authorize_containment_okD\<close>); a
  finding is published only over loops that the evidence proves at that moment (\<open>publish_finding_okD\<close>);
  a finding becomes verified only by effects on all targets (\<open>runtime_step_verified\<close>).
\<close>

section \<open>Sequencing\<close>

lemma then_do_simps [simp]: "then_do (st, r) k = (if is_ok st then k r else (failure (r_outcome st) (r_detail st), r))"
  by (simp add: then_do_def)

text \<open>What a chain of steps keeps: each step keeps it.\<close>

lemma then_do_keeps:
  assumes "P (snd p)" "\<And>r. P r \<Longrightarrow> P (snd (k r))"
  shows "P (snd (then_do p k))"
  using assms by (cases p) auto

lemma then_do_value:
  assumes "then_do p k = (res, r')" "r_value res = Some v"
  shows "is_ok (fst p)" "k (snd p) = (res, r')"
  using assms by (cases p; auto simp: failure_def split: if_splits)+

lemma on_store_frame:
  obtains s where "snd (on_store call r) = r\<lparr>rt_store := s\<rparr>"
proof (cases "rt_store r")
  case None
  then show ?thesis using that[of None] by (simp add: on_store_def)
next
  case (Some d)
  then show ?thesis using that[of "Some (snd (call d))"] by (simp add: on_store_def split: prod.split)
qed

lemma on_store_none: "rt_store r = None \<Longrightarrow> on_store call r = (status_ok, r)"
  by (simp add: on_store_def)

lemma on_store_fields [simp]:
  "rt_config (snd (on_store call r)) = rt_config r" "rt_open (snd (on_store call r)) = rt_open r"
  "rt_identity (snd (on_store call r)) = rt_identity r" "rt_fence (snd (on_store call r)) = rt_fence r"
  "rt_topology (snd (on_store call r)) = rt_topology r" "rt_policy (snd (on_store call r)) = rt_policy r"
  "rt_ledger (snd (on_store call r)) = rt_ledger r" "rt_findings (snd (on_store call r)) = rt_findings r"
  "rt_lineage (snd (on_store call r)) = rt_lineage r" "rt_plans (snd (on_store call r)) = rt_plans r"
  "rt_applications (snd (on_store call r)) = rt_applications r" "rt_counters (snd (on_store call r)) = rt_counters r"
  by (rule on_store_frame[of call r], simp)+

lemma count_up_fields [simp]:
  "rt_config (count_up g r) = rt_config r" "rt_identity (count_up g r) = rt_identity r" "rt_fence (count_up g r) = rt_fence r"
  "rt_topology (count_up g r) = rt_topology r" "rt_policy (count_up g r) = rt_policy r" "rt_ledger (count_up g r) = rt_ledger r"
  "rt_findings (count_up g r) = rt_findings r" "rt_lineage (count_up g r) = rt_lineage r" "rt_plans (count_up g r) = rt_plans r"
  "rt_applications (count_up g r) = rt_applications r" "rt_store (count_up g r) = rt_store r"
  by (simp_all add: count_up_def)

section \<open>The lineage\<close>

definition lineage_ordered :: "lineage_record list \<Rightarrow> bool" where
  "lineage_ordered ls \<longleftrightarrow> sorted_wrt (<) (map lr_sequence ls)"

lemma next_sequence_above:
  assumes "lineage_ordered ls" "id_valid (next_sequence ls)" "x \<in> set ls"
  shows "lr_sequence x < next_sequence ls"
proof -
  have ne: "ls \<noteq> []" using assms(3) by auto
  then have n: "lr_sequence (last ls) \<noteq> - 1" "next_sequence ls = lr_sequence (last ls) + 1"
    using assms(2) by (auto simp: next_sequence_def id_try_next_def id_valid_def split: if_splits)
  have "ls = butlast ls @ [last ls]" using ne by simp
  then have "lineage_ordered (butlast ls @ [last ls])" "x \<in> set (butlast ls @ [last ls])" using assms by simp_all
  then have "lr_sequence x \<le> lr_sequence (last ls)" by (auto simp: lineage_ordered_def sorted_wrt_append)
  then show ?thesis unfolding n(2) by (rule word_less_next) (rule n(1))
qed

lemma lineage_ordered_append:
  assumes "lineage_ordered ls" "id_valid (next_sequence ls)" "lr_sequence e = next_sequence ls"
  shows "lineage_ordered (trim_front m (ls @ [e]))"
proof -
  have "lineage_ordered (ls @ [e])"
    using next_sequence_above[OF assms(1,2)] assms(1,3) by (auto simp: lineage_ordered_def sorted_wrt_append)
  then show ?thesis unfolding lineage_ordered_def trim_front_def by (metis drop_map sorted_wrt_drop)
qed

lemma append_lineage_frame:
  obtains s ls c where "snd (append_lineage io kind f p i fence d reason sev now r) =
      r\<lparr>rt_store := s, rt_lineage := ls, rt_counters := c\<rparr>"
    "lineage_ordered (rt_lineage r) \<Longrightarrow> lineage_ordered ls"
proof (cases "id_valid (next_sequence (rt_lineage r))")
  case False
  then show ?thesis
    using that[of "rt_counters r" "rt_lineage r" "rt_store r"] by (simp add: append_lineage_def Let_def)
next
  case True
  define e where "e = \<lparr>lr_id = next_sequence (rt_lineage r), lr_sequence = next_sequence (rt_lineage r), lr_recorded_at = now,
    lr_kind = kind, lr_finding = f, lr_plan = p, lr_intent = i, lr_fence = fence, lr_subject_digest = d, lr_reason = reason,
    lr_severity = sev\<rparr>"
  obtain st r1 where os: "on_store (store_append_lineage io e) r = (st, r1)" by fastforce
  obtain s where r1: "r1 = r\<lparr>rt_store := s\<rparr>" by (metis on_store_frame os snd_conv)
  show ?thesis
  proof (cases "is_ok st")
    case ok: True
    have "lineage_ordered (trim_front m (rt_lineage r @ [e]))" if "lineage_ordered (rt_lineage r)" for m
      using lineage_ordered_append[OF that True] by (simp add: e_def)
    with ok os r1 True that show ?thesis
      by (simp add: append_lineage_def Let_def e_def[symmetric] count_up_def)
  next
    case False
    with os r1 True that[of "rt_counters r" "rt_lineage r" s] show ?thesis
      by (simp add: append_lineage_def Let_def e_def[symmetric])
  qed
qed

lemma append_lineage_ordered:
  "lineage_ordered (rt_lineage r) \<Longrightarrow> lineage_ordered (rt_lineage (snd (append_lineage io kind f p i fence d reason sev now r)))"
  by (rule append_lineage_frame[of io kind f p i fence d reason sev now r]) simp

lemma append_lineage_fields [simp]:
  "rt_config (snd (append_lineage io kind f p i fence d reason sev now r)) = rt_config r"
  "rt_open (snd (append_lineage io kind f p i fence d reason sev now r)) = rt_open r"
  "rt_identity (snd (append_lineage io kind f p i fence d reason sev now r)) = rt_identity r"
  "rt_fence (snd (append_lineage io kind f p i fence d reason sev now r)) = rt_fence r"
  "rt_topology (snd (append_lineage io kind f p i fence d reason sev now r)) = rt_topology r"
  "rt_policy (snd (append_lineage io kind f p i fence d reason sev now r)) = rt_policy r"
  "rt_ledger (snd (append_lineage io kind f p i fence d reason sev now r)) = rt_ledger r"
  "rt_findings (snd (append_lineage io kind f p i fence d reason sev now r)) = rt_findings r"
  "rt_plans (snd (append_lineage io kind f p i fence d reason sev now r)) = rt_plans r"
  "rt_applications (snd (append_lineage io kind f p i fence d reason sev now r)) = rt_applications r"
  by (rule append_lineage_frame[of io kind f p i fence d reason sev now r], simp)+

section \<open>The invariant\<close>

definition definition_ok :: "runtime \<Rightarrow> bool" where
  "definition_ok r \<longleftrightarrow> (\<forall>t. rt_topology r = Some t \<longrightarrow> topology_ok t \<and>
     td_generation t = fv_topology (rt_fence r))"

definition live_bound :: "fence_vector \<Rightarrow> finding_registry \<Rightarrow> bool" where
  "live_bound fence reg \<longleftrightarrow> (\<forall>f \<in> set (fr_findings reg). \<not> is_terminal f \<longrightarrow> fi_fence f = fence)"

definition application_ok :: "containment_application \<Rightarrow> bool" where
  "application_ok a \<longleftrightarrow> ap_targets a \<noteq> [] \<and> sorted_wrt (<) (ap_targets a) \<and>
     sorted_wrt (<) (map ve_target (ap_effects a)) \<and>
     (\<forall>e \<in> set (ap_effects a). ve_target e \<in> set (ap_targets a) \<and> ve_fence e = ap_fence a)"

definition runtime_core :: "runtime \<Rightarrow> bool" where
  "runtime_core r \<longleftrightarrow> limits_are_sane (rt_limits r) \<and> definition_ok r \<and> ledger_ok (rt_ledger r) \<and>
     el_limits (rt_ledger r) = rt_limits r \<and> registry_ok (rt_findings r) \<and> lineage_ordered (rt_lineage r) \<and>
     (\<forall>k a. rt_applications r k = Some a \<longrightarrow> ap_intent a = k \<and> application_ok a)"

definition runtime_ok :: "runtime \<Rightarrow> bool" where
  "runtime_ok r \<longleftrightarrow> runtime_core r \<and> live_bound (rt_fence r) (rt_findings r)"

lemmas runtime_defs = runtime_ok_def runtime_core_def definition_ok_def

lemma runtime_ok_frame [simp]:
  "runtime_core (snd (on_store call r)) = runtime_core r" "runtime_ok (snd (on_store call r)) = runtime_ok r"
  "runtime_core (count_up g r) = runtime_core r" "runtime_ok (count_up g r) = runtime_ok r"
  "runtime_ok (r\<lparr>rt_plans := ps\<rparr>) = runtime_ok r" "runtime_ok (r\<lparr>rt_open := b\<rparr>) = runtime_ok r"
  "runtime_core (r\<lparr>rt_identity := i\<rparr>) = runtime_core r"
  by (simp_all add: runtime_defs)

lemma append_lineage_ok [simp]:
  "runtime_ok r \<Longrightarrow> runtime_ok (snd (append_lineage io kind f p i fence d reason sev now r))"
  by (simp add: runtime_defs append_lineage_ordered)

text \<open>What the registry operations of the runtime keep: no finding comes to life, and none changes its fence.\<close>

definition settled :: "finding_registry \<Rightarrow> finding_registry \<Rightarrow> bool" where
  "settled reg reg' \<longleftrightarrow> registry_ok reg' \<and> (\<forall>f' \<in> set (fr_findings reg'). \<not> is_terminal f' \<longrightarrow>
     (\<exists>f \<in> set (fr_findings reg). \<not> is_terminal f \<and> fi_id f = fi_id f' \<and> fi_fence f = fi_fence f'))"

lemma settled_bound: "settled reg reg' \<Longrightarrow> live_bound fence reg \<Longrightarrow> live_bound fence reg'"
  unfolding settled_def live_bound_def by metis

lemma settled_trans: "settled a b \<Longrightarrow> settled b c \<Longrightarrow> settled a c"
  unfolding settled_def by metis

lemma settled_refl: "registry_ok reg \<Longrightarrow> settled reg reg"
  by (auto simp: settled_def)

lemma settled_modify:
  assumes "registry_ok reg" "\<And>f. fi_id (g f) = fi_id f" "\<And>f. fi_fence (g f) = fi_fence f"
    and "\<And>f. f \<in> set (fr_findings reg) \<Longrightarrow> fi_id f = k \<Longrightarrow> is_terminal f \<Longrightarrow> is_terminal (g f)"
  shows "settled reg (modify_finding k g reg)"
  unfolding settled_def
proof (intro conjI ballI impI)
  show "registry_ok (modify_finding k g reg)" by (rule modify_finding_ok[OF assms(1,2)])
next
  fix f' assume f': "f' \<in> set (fr_findings (modify_finding k g reg))" "\<not> is_terminal f'"
  then obtain f where f: "f \<in> set (fr_findings reg)" "f' = (if fi_id f = k then g f else f)"
    using set_modify_finding[OF assms(1)] by auto
  then have "\<not> is_terminal f" using f'(2) assms(4) by (auto split: if_splits)
  then show "\<exists>f \<in> set (fr_findings reg). \<not> is_terminal f \<and> fi_id f = fi_id f' \<and> fi_fence f = fi_fence f'"
    using f assms(2,3) by (intro bexI[of _ f]) auto
qed

lemma settled_update:
  assumes "registry_ok reg"
  shows "settled reg (snd (update_state k state cause now code detail reg))"
proof (cases "find_finding reg k")
  case None
  then show ?thesis using settled_refl[OF assms] by (simp add: update_state_def)
next
  case (Some f)
  show ?thesis
  proof (cases "is_terminal f \<and> state \<noteq> Fs_Withdrawn")
    case True
    then show ?thesis using Some settled_refl[OF assms] by (simp add: update_state_def)
  next
    case False
    have "g = f" if "g \<in> set (fr_findings reg)" "fi_id g = k" for g
      using that Some find_finding_iff[OF assms, of k g] by simp
    then have "settled reg (modify_finding k (\<lambda>f. f\<lparr>fi_state := state,
        fi_cause := (if cause \<noteq> Cause_None then cause else fi_cause f), fi_updated_at := now,
        fi_explanation := ex_add code (id_to_string k) detail (fi_explanation f)\<rparr>) reg)"
      using False by (intro settled_modify[OF assms]) (auto simp: is_terminal_def state_is_terminal_def)
    then show ?thesis using False Some by (simp add: update_state_def del: de_Morgan_conj)
  qed
qed

lemma settled_attach:
  assumes "registry_ok reg"
  shows "settled reg (snd (attach_plan k plan now reg))" "settled reg (snd (attach_intent k intent now reg))"
  using settled_refl[OF assms] settled_modify[OF assms]
  by (simp_all add: attach_plan_def attach_intent_def is_terminal_def)

lemmas settled_ops = settled_update settled_attach

lemma settle_ok:
  assumes "runtime_ok r" "settled (rt_findings r) reg"
  shows "runtime_ok (r\<lparr>rt_findings := reg\<rparr>)"
  using assms settled_bound[OF assms(2)] by (simp add: runtime_defs settled_def)

lemma registry_of: "runtime_ok r \<Longrightarrow> registry_ok (rt_findings r)"
  by (simp add: runtime_defs)

lemmas then_do_ok = then_do_keeps[where P = runtime_ok]

section \<open>Every operation keeps it\<close>

lemma fence_live_ok: "runtime_core r \<Longrightarrow> runtime_ok (fence_live now r)"
proof -
  assume r: "runtime_core r"
  obtain ids reg where f: "fence_stale (rt_fence r) now (rt_findings r) = (ids, reg)" by fastforce
  have "registry_ok reg" using fence_ops_ok(1)[of "rt_findings r" "rt_fence r" now] r f by (simp add: runtime_core_def)
  moreover have "live_bound (rt_fence r) reg"
    using fence_stale_current(1)[of _ "rt_fence r" now "rt_findings r"] f by (auto simp: live_bound_def)
  ultimately show ?thesis using r by (simp add: fence_live_def f runtime_defs)
qed

lemma commit_fence_ok:
  assumes "commit_fence io i subject now r = (st, r')" "is_ok st \<or> rt_store r = None" "runtime_core r"
  shows "runtime_ok r'"
proof -
  obtain st1 r1 where os: "on_store (store_advance_fence (io i) (rt_fence r)) r = (st1, r1)" by fastforce
  have fail: "is_ok (failure (r_outcome st1) (r_detail st1)) = is_ok st1" by (simp add: is_ok_def failure_def)
  from os have r1: "runtime_core r1" using runtime_ok_frame(1) assms(3) by (metis snd_conv)
  have "is_ok st1" using assms(1,2) os fail by (auto simp: commit_fence_def on_store_none split: if_splits)
  then have "r' = snd (append_lineage (io (Suc i)) Auth_Withdrawal 0 0 0 (rt_fence r1) subject
      R_FindingFencedByGenerationChange Sev_Critical now (fence_live now r1))"
    using assms(1) os by (simp add: commit_fence_def)
  then show ?thesis using append_lineage_ok[OF fence_live_ok[OF r1]] by simp
qed

lemma advance_ok:
  assumes "runtime_ok r" "is_ok st \<or> rt_store r = None"
  shows "advance_forwarding io g now r = (st, r') \<Longrightarrow> runtime_ok r'"
    "advance_fabric_epoch io e now r = (st, r') \<Longrightarrow> runtime_ok r'"
    "advance_epoch io now r = (st, r') \<Longrightarrow> runtime_ok r'"
proof -
  have core: "runtime_core (r\<lparr>rt_fence := fence\<rparr>)" if "fv_topology fence = fv_topology (rt_fence r)" for fence
    using assms(1) that by (simp add: runtime_defs)
  show "advance_forwarding io g now r = (st, r') \<Longrightarrow> runtime_ok r'"
    using assms commit_fence_ok core by (auto simp: advance_forwarding_def Let_def split: if_splits)
  show "advance_fabric_epoch io e now r = (st, r') \<Longrightarrow> runtime_ok r'"
    using assms commit_fence_ok core by (auto simp: advance_fabric_epoch_def Let_def split: if_splits)
  show "advance_epoch io now r = (st, r') \<Longrightarrow> runtime_ok r'"
    using assms core
    by (auto simp: advance_epoch_def Let_def split: option.splits elim!: commit_fence_ok)
qed

lemma set_topology_ok:
  assumes "runtime_ok r" "is_ok st \<or> rt_store r = None" "set_topology io t now r = (st, r')"
  shows "runtime_ok r'"
proof (cases "r_value (canonicalize_topology t (rt_limits r))")
  case None
  then show ?thesis using assms by (simp add: set_topology_def Let_def)
next
  case (Some def)
  then have ok: "canonicalize_topology t (rt_limits r) = ok def"
    using canonicalize_cases[of t "rt_limits r"] by auto
  obtain st1 r1 where os: "on_store (store_set_topology (io 0) def) r = (st1, r1)" by fastforce
  then have r1: "runtime_core r1" "runtime_ok r1"
    using runtime_ok_frame(1,2) assms(1) by (metis runtime_ok_def snd_conv)+
  let ?r = "r1\<lparr>rt_topology := Some def, rt_fence := (rt_fence r1)\<lparr>fv_topology := td_generation def\<rparr>\<rparr>"
  have core: "runtime_core ?r" using r1(1) canonicalize_okD(1)[OF ok] by (simp add: runtime_defs)
  have none: "rt_store r = None \<Longrightarrow> rt_store r1 = None" using os by (auto simp: on_store_none)
  show ?thesis
    using assms Some os r1 commit_fence_ok[OF _ _ core, of io 1] none
    by (auto simp: set_topology_def Let_def split: if_splits)
qed

lemma set_policy_ok:
  assumes "runtime_ok r" "is_ok st \<or> rt_store r = None" "set_policy io p now r = (st, r')"
  shows "runtime_ok r'"
proof -
  obtain st1 r1 where os: "on_store (store_set_policy (io 0) p) r = (st1, r1)" by fastforce
  then have r1: "runtime_core r1" "runtime_ok r1"
    using runtime_ok_frame(1,2) assms(1) by (metis runtime_ok_def snd_conv)+
  let ?r = "r1\<lparr>rt_policy := Some p, rt_fence := (rt_fence r1)\<lparr>fv_policy := po_generation p\<rparr>\<rparr>"
  obtain st2 r2 where os2: "on_store (store_advance_fence (io 1) (rt_fence ?r)) ?r = (st2, r2)" by fastforce
  have "runtime_core ?r" using r1(1) by (simp add: runtime_defs)
  then have core: "runtime_core r2" using os2 runtime_ok_frame(1) by (metis snd_conv)
  have "rt_store r = None \<Longrightarrow> is_ok st2" using os os2 by (auto simp: on_store_none)
  then show ?thesis
    using assms os os2 r1 fence_live_ok[OF core]
    by (auto simp: set_policy_def Let_def failure_def is_ok_def split: if_splits)
qed

lemma submit_observation_ok: "runtime_ok r \<Longrightarrow> runtime_ok (snd (submit_observation ob now r))"
proof -
  assume r: "runtime_ok r"
  obtain st g where sub: "submit ob (rt_ledger r) = (st, g)" by fastforce
  have "0 < max_observations_per_edge (el_limits (rt_ledger r))"
    using r by (simp add: runtime_defs limits_are_sane_def word_gt_0)
  then have "ledger_ok g" "el_limits g = rt_limits r"
    using submit_ledger_ok[of "rt_ledger r" ob] r sub by (simp_all add: runtime_defs)
  then show ?thesis using r by (simp add: submit_observation_def sub runtime_defs)
qed

lemma clear_evidence_ok: "runtime_ok r \<Longrightarrow> runtime_ok (snd (clear_evidence r))"
  by (simp add: clear_evidence_def runtime_defs clear_dynamic_state_ok) (simp add: clear_dynamic_state_def)

lemma detect_ok: "runtime_ok r \<Longrightarrow> runtime_ok (snd (detect now scope r))"
  by (simp add: detect_def split: option.split)

lemma register_ok:
  assumes "runtime_ok r" "fi_fence f = rt_fence r"
  shows "runtime_ok (r\<lparr>rt_findings := snd (register_finding f (rt_findings r))\<rparr>)"
proof -
  obtain res reg where reg: "register_finding f (rt_findings r) = (res, reg)" by fastforce
  note R = registry_of[OF assms(1)]
  have "set (fr_findings reg) \<subseteq> insert f (set (fr_findings (rt_findings r)))"
  proof (cases "has_value res")
    case True
    then show ?thesis
      using register_members[OF R reg True] register_okD[OF reg True] make_room_props(2)[OF R] by auto
  qed (use register_failD[OF reg] in auto)
  then have "live_bound (rt_fence r) reg" using assms by (auto simp: runtime_ok_def live_bound_def)
  then show ?thesis using assms(1) register_finding_ok[OF R, of f] reg by (simp add: runtime_defs)
qed

lemma commit_finding_ok:
  assumes "runtime_ok r" "fi_fence f = rt_fence r"
  shows "runtime_ok (snd (commit_finding io f now r))"
proof -
  obtain st x where os: "on_store (store_upsert_finding (io 0) f) r = (st, x)" by fastforce
  have x: "runtime_ok x" "rt_fence x = rt_fence r"
    using runtime_ok_frame(2) on_store_fields(4) assms(1) os by (metis snd_conv)+
  obtain res reg where reg: "register_finding f (rt_findings x) = (res, reg)" by fastforce
  have "runtime_ok (x\<lparr>rt_findings := reg\<rparr>)" using register_ok[of x f] x assms(2) reg by simp
  then have "runtime_ok (snd (then_do (append_lineage (io 1) Auth_Recommendation (fi_id f) 0 0 (fi_fence f) (finding_digest f)
            R_WitnessSuccessfullyValidated Sev_Critical now (x\<lparr>rt_findings := reg\<rparr>)) (\<lambda>r.
          (ok f, count_up (\<lambda>k. k\<lparr>kt_findings_published := kt_findings_published k + 1\<rparr>) r))))"
    by (rule then_do_ok[OF append_lineage_ok]) simp
  then show ?thesis
    using x(1) \<open>runtime_ok (x\<lparr>rt_findings := reg\<rparr>)\<close> by (simp add: commit_finding_def os reg)
qed

lemma finding_of_fields [simp]:
  "fi_fence (finding_of r a now) = la_fence a" "fi_state (finding_of r a now) = Fs_Confirmed"
  "fi_id (finding_of r a now) \<noteq> 0"
  by (simp_all add: finding_of_def Let_def content_addressed_id_def)

lemma publish_finding_ok: "runtime_ok r \<Longrightarrow> runtime_ok (snd (publish_finding io a now r))"
  using commit_finding_ok[of r "finding_of r a now" io now]
  by (auto simp: publish_finding_def refuse_finding_def split: option.split)

lemma runtime_plan_ok:
  assumes "runtime_ok r"
  shows "runtime_ok (snd (runtime_plan io a now r))"
proof -
  have attach: "runtime_ok (snd (attach_to_finding i k p now x))" if "runtime_ok x" for i k p x
    using settle_ok[OF that settled_attach(1)[OF registry_of[OF that]]] that
    by (auto simp: attach_to_finding_def split: option.split)
  have counted: "runtime_ok (count_up g (r\<lparr>rt_plans := ps\<rparr>))" for g ps using assms by simp
  have "runtime_ok (snd (then_do (attach_to_finding i k p now (count_up g (r\<lparr>rt_plans := ps\<rparr>))) (\<lambda>r. (ok p, r))))" for i k p g ps
    by (rule then_do_ok[OF attach[OF counted]]) simp
  then show ?thesis
    using assms by (simp add: runtime_plan_def Let_def split: option.split)
qed

lemma withdraw_finding_ok:
  assumes "runtime_ok r"
  shows "runtime_ok (snd (withdraw_finding io k reason now detail r))"
proof (cases "find_finding (rt_findings r) k")
  case (Some f)
  obtain st x where os: "on_store (store_withdraw_finding (io 0) k Cause_ExplicitWithdrawal now reason) r = (st, x)" by fastforce
  then have x: "runtime_ok x" using runtime_ok_frame(2) assms by (metis snd_conv)
  obtain upd reg where u: "update_state k Fs_Withdrawn Cause_ExplicitWithdrawal now reason detail (rt_findings x) = (upd, reg)"
    by fastforce
  have "runtime_ok (x\<lparr>rt_findings := reg\<rparr>)"
    using settle_ok[OF x settled_update[OF registry_of[OF x]]] u by (metis snd_conv)
  then show ?thesis using Some x by (simp add: withdraw_finding_def os u)
qed (use assms in \<open>simp add: withdraw_finding_def\<close>)

lemma runtime_close_ok: "runtime_ok r \<Longrightarrow> runtime_ok (snd (runtime_close io flushed clean now r))"
  by (simp add: runtime_close_def)

section \<open>Issuing an intent\<close>

lemma find_target_mem: "find_target p k = Some c \<Longrightarrow> c \<in> set (pl_targets p) \<and> ct_resource c = k"
  by (auto simp: find_target_def find_Some_iff)

lemma requested_cost_Some:
  assumes "requested_cost p targets = Some cost"
  shows "set targets \<subseteq> ct_resource ` set (pl_targets p)"
    and "cost = sum_list (map (\<lambda>k. ucast (ct_cost (the (find_target p k)))) targets)"
proof -
  let ?step = "\<lambda>acc target. case acc of None \<Rightarrow> None
     | Some cost \<Rightarrow> (case find_target p target of None \<Rightarrow> None | Some c \<Rightarrow> Some (cost + ucast (ct_cost c)))"
  have none: "foldl ?step None ks = None" for ks by (induction ks) simp_all
  have "set ks \<subseteq> ct_resource ` set (pl_targets p) \<and>
      cost' = c + sum_list (map (\<lambda>k. ucast (ct_cost (the (find_target p k)))) ks)"
    if "foldl ?step (Some c) ks = Some cost'" for ks c cost'
    using that
  proof (induction ks arbitrary: c)
    case (Cons k ks)
    then obtain t where t: "find_target p k = Some t" by (cases "find_target p k") (auto simp: none)
    with Cons.prems Cons.IH[of "c + ucast (ct_cost t)"] show ?case by (auto simp: add.assoc dest: find_target_mem)
  qed simp
  from this[of 0 targets cost] assms
  show "set targets \<subseteq> ct_resource ` set (pl_targets p)"
    "cost = sum_list (map (\<lambda>k. ucast (ct_cost (the (find_target p k)))) targets)"
    by (auto simp: requested_cost_def)
qed

text \<open>What an authorized request is: strictly ordered targets of the plan, granted at their cost.\<close>

definition grantable :: "containment_plan \<Rightarrow> containment_grant \<Rightarrow> fence_vector \<Rightarrow> u64 \<Rightarrow> u64 list \<Rightarrow> bool" where
  "grantable p grant current now targets \<longleftrightarrow> sorted_wrt (<) targets \<and>
     (\<exists>cost. requested_cost p targets = Some cost \<and> authorize grant targets cost current now = status_ok)"

lemma authorize_targets_cases:
  assumes "authorize_targets io finding p grant now lease targets r = (res, r')"
  defines "ts \<equiv> sort (if targets = [] then target_resources p else targets)"
  shows "(grantable p grant (rt_fence r) now ts \<and> issue_intent io (intent_of r finding p ts now lease) now r = (res, r')) \<or>
    (r_value res = None \<and> (\<exists>g. r' = count_up g r))"
proof -
  have id: "r = count_up (\<lambda>k. k) r" by (simp add: count_up_def)
  have strict: "\<not> adjacent_dup ts \<longleftrightarrow> sorted_wrt (<) ts" by (simp add: ts_def sorted_adjacent_dup)
  show ?thesis
    using assms(1) id strict unfolding authorize_targets_def ts_def[symmetric] Let_def grantable_def
    by (auto simp: refuse_intent_def failure_def authorize_is_ok split: if_splits option.splits)
qed

lemma issue_intent_ok:
  assumes r: "runtime_ok r" and ts: "ts \<noteq> []" "sorted_wrt (<) ts"
  shows "runtime_ok (snd (issue_intent io (intent_of r finding p ts now lease) now r))"
proof -
  define i where "i = intent_of r finding p ts now lease"
  define reg where "reg = snd (update_state (ci_finding i) Fs_ContainmentRequested Cause_None now R_RequestAccepted
    ''a bounded containment intent was issued'' (snd (attach_intent (ci_finding i) (ci_id i) now (rt_findings r))))"
  note R = registry_of[OF r]
  have "settled (rt_findings r) reg"
    unfolding reg_def by (rule settled_trans[OF settled_attach(2)[OF R] settled_update[OF modify_ops_ok(3)[OF R]]])
  then have "runtime_ok (r\<lparr>rt_findings := reg\<rparr>)" by (rule settle_ok[OF r])
  moreover have "application_ok (application_of r i)" "ap_intent (application_of r i) = ci_id i"
    using ts by (simp_all add: i_def application_of_def application_ok_def intent_of_def Let_def)
  ultimately have "runtime_ok (r\<lparr>rt_findings := reg, rt_applications := (rt_applications r)(ci_id i \<mapsto> application_of r i)\<rparr>)"
    by (auto simp: runtime_defs)
  then show ?thesis
    unfolding i_def[symmetric] issue_intent_def Let_def reg_def[symmetric]
    by (rule then_do_ok[OF append_lineage_ok]) simp
qed

lemma grantable_nonempty: "grantable p grant current now ts \<Longrightarrow> ts \<noteq> [] \<and> sorted_wrt (<) ts"
  by (auto simp: grantable_def authorize_ok_iff)

lemma authorize_containment_ok:
  assumes "runtime_ok r"
  shows "runtime_ok (snd (authorize_containment io finding grant now lease targets r))"
proof -
  have "runtime_ok (snd (authorize_targets i finding p grant now lease targets r))" for i p
  proof -
    obtain res r' where a: "authorize_targets i finding p grant now lease targets r = (res, r')" by fastforce
    let ?ts = "sort (if targets = [] then target_resources p else targets)"
    from authorize_targets_cases[OF a] show ?thesis
    proof (elim disjE conjE exE)
      assume "grantable p grant (rt_fence r) now ?ts" and i: "issue_intent i (intent_of r finding p ?ts now lease) now r = (res, r')"
      then have "?ts \<noteq> []" "sorted_wrt (<) ?ts" using grantable_nonempty by blast+
      from issue_intent_ok[OF assms this, of i finding p now lease] i a show ?thesis by simp
    next
      fix g assume "r' = count_up g r"
      then show ?thesis using assms a by simp
    qed
  qed
  then show ?thesis
    using assms by (simp add: authorize_containment_def refuse_intent_def split: option.split)
qed

section \<open>Acknowledgements and effects\<close>

lemma record_outcome_ok:
  assumes "runtime_ok r"
  shows "runtime_ok (snd (record_outcome io now a state code detail kind intent subject sev r))"
proof -
  obtain upd reg where u: "update_state (ap_finding a) state Cause_None now code detail (rt_findings r) = (upd, reg)" by fastforce
  have "runtime_ok (r\<lparr>rt_findings := reg\<rparr>)"
    using settle_ok[OF assms settled_update[OF registry_of[OF assms]]] u by (metis snd_conv)
  then show ?thesis unfolding record_outcome_def u by simp (rule then_do_ok[OF append_lineage_ok], simp_all)
qed

lemma put_application_ok:
  assumes "runtime_ok r" "application_ok a" "ap_intent a = k"
  shows "runtime_ok (r\<lparr>rt_applications := (rt_applications r)(k \<mapsto> a)\<rparr>)"
  using assms by (auto simp: runtime_defs)

lemma known_application:
  assumes "runtime_ok r" "rt_applications r k = Some a"
  shows "application_ok a" "ap_intent a = k"
  using assms by (auto simp: runtime_defs)

lemma record_acknowledgement_ok:
  assumes "runtime_ok r"
  shows "runtime_ok (snd (record_acknowledgement io ack now r))"
proof (cases "rt_applications r (ca_intent ack)")
  case (Some a)
  have "application_ok (a\<lparr>ap_acknowledgements := ks\<rparr>)" "ap_intent (a\<lparr>ap_acknowledgements := ks\<rparr>) = ca_intent ack" for ks
    using known_application[OF assms Some] by (simp_all add: application_ok_def)
  from record_outcome_ok[OF put_application_ok[OF assms this]] assms Some show ?thesis
    by (simp add: record_acknowledgement_def)
qed (use assms in \<open>simp add: record_acknowledgement_def\<close>)

lemma add_effect_fields [simp]:
  "ap_intent (add_effect e a) = ap_intent a" "ap_finding (add_effect e a) = ap_finding a"
  "ap_fence (add_effect e a) = ap_fence a" "ap_targets (add_effect e a) = ap_targets a"
  "ap_effects (add_effect e a) = sort_key ve_target (ap_effects a @ [e])"
  by (simp_all add: add_effect_def Let_def)

lemma add_effect_ok:
  assumes "application_ok a" "binary_search (ap_targets a) (ve_target e)" "ve_fence e = ap_fence a"
    and "\<not> list_ex (\<lambda>x. ve_target x = ve_target e) (ap_effects a)"
  shows "application_ok (add_effect e a)"
proof -
  have "sorted (ap_targets a)" using assms(1) by (simp add: application_ok_def strict_sorted_iff)
  then have "ve_target e \<in> set (ap_targets a)" using assms(2) by simp
  moreover have "distinct (map ve_target (ap_effects a @ [e]))"
    using assms(1,4) by (auto simp: application_ok_def strict_sorted_iff list_ex_iff)
  then have "distinct (map ve_target (sort_key ve_target (ap_effects a @ [e])))"
    unfolding distinct_map by (simp only: distinct_sort set_sort simp_thms)
  then have "sorted_wrt (<) (map ve_target (sort_key ve_target (ap_effects a @ [e])))"
    by (simp only: strict_sorted_iff sorted_sort_key simp_thms)
  ultimately show ?thesis using assms(1,3) by (auto simp: application_ok_def)
qed

text \<open>What an effect that is not refused leads to.\<close>

lemma record_verified_effect_cases:
  obtains (refused) st where "record_verified_effect io intent e now r = (st, r)" "\<not> is_ok st"
  | (recorded) a where "rt_applications r intent = Some a" "ap_fence a = rt_fence r" "binary_search (ap_targets a) (ve_target e)"
      "ve_fence e = rt_fence r" "\<not> list_ex (\<lambda>x. ve_target x = ve_target e) (ap_effects a)"
      "record_verified_effect io intent e now r =
        (let a' = add_effect e a; complete = fully_verified a'
         in record_outcome (io 0) now a' (if complete then Fs_ContainmentVerified else Fs_ContainmentAppliedUnverified)
              (if complete then R_EffectVerifiedForTarget else R_EffectUnverifiedForTarget)
              (if complete then ''every target carries an independently verified effect''
               else ''at least one target has no verified effect'')
              Auth_VerifiedEffect intent (application_digest a') (if complete then Sev_Notice else Sev_Warning)
              (count_up (count_effect complete) (r\<lparr>rt_applications := (rt_applications r)(intent \<mapsto> a')\<rparr>)))"
proof (cases "rt_applications r intent")
  case None
  then show ?thesis by (intro refused) (auto simp: record_verified_effect_def)
next
  case (Some a)
  consider (no) "ap_fence a \<noteq> rt_fence r \<or> \<not> binary_search (ap_targets a) (ve_target e) \<or> ve_fence e \<noteq> rt_fence r \<or>
      list_ex (\<lambda>x. ve_target x = ve_target e) (ap_effects a)"
    | (yes) "ap_fence a = rt_fence r" "binary_search (ap_targets a) (ve_target e)" "ve_fence e = rt_fence r"
      "\<not> list_ex (\<lambda>x. ve_target x = ve_target e) (ap_effects a)"
    by blast
  then show ?thesis
  proof cases
    case no
    then have "\<exists>st. record_verified_effect io intent e now r = (st, r) \<and> \<not> is_ok st"
      using Some by (auto simp: record_verified_effect_def)
    then show ?thesis using refused by blast
  next
    case yes
    show ?thesis by (rule recorded[OF Some yes]) (simp add: record_verified_effect_def Some yes Let_def)
  qed
qed

lemma record_verified_effect_ok:
  assumes "runtime_ok r"
  shows "runtime_ok (snd (record_verified_effect io intent e now r))"
proof (cases rule: record_verified_effect_cases[of io intent e now r])
  case (recorded a)
  note known = known_application[OF assms recorded(1)]
  have "runtime_ok (r\<lparr>rt_applications := (rt_applications r)(intent \<mapsto> add_effect e a)\<rparr>)"
    using recorded known by (intro put_application_ok[OF assms] add_effect_ok) simp_all
  then show ?thesis unfolding recorded(6) Let_def by (intro record_outcome_ok) simp
qed (use assms in simp)

end
