(* ===== verification/Runtime_History.thy ===== *)
theory Runtime_History
  imports Runtime_Safety
begin

text \<open>
  Histories of a runtime: how it starts (\<open>runtime_open\<close> on an empty or on an existing document), the step
  relation of its operations (\<open>runtime_step\<close>), the invariant over all histories (\<open>runtime_machine\<close>), and
  what a successful publication, authorization or verification says about the state it happened in.
\<close>

section \<open>What a store restores\<close>

text \<open>A definition that comes out of the document is canonical: the decoder canonicalizes it.\<close>

lemma decoded_topology_ok:
  assumes "r_value (decode_topology l bytes) = Some t"
  shows "topology_ok t"
proof (cases "parse_topology l bytes")
  case (Inl e)
  then show ?thesis using assms by (cases e) (simp add: decode_topology_def failure_def)
next
  case (Inr x)
  then obtain b rest where "parse_topology l bytes = Inr (b, rest)" by (cases x) simp
  then obtain d where d: "r_value (canonicalize_topology d (tb_limits b)) = Some t"
    using assms by (auto simp: decode_topology_def build_def)
  then have "canonicalize_topology d (tb_limits b) = ok t"
    using canonicalize_cases[of d "tb_limits b"] by (elim disjE exE) (auto simp: failure_def)
  then show ?thesis by (rule canonicalize_okD(1))
qed

definition stored_ok :: "store_state \<Rightarrow> bool" where
  "stored_ok s \<longleftrightarrow> (\<forall>t. ss_topology s = Some t \<longrightarrow> topology_ok t)"

lemma stored_ok_default: "stored_ok default_store_state" "stored_ok (default_store_state\<lparr>ss_store_generation := g\<rparr>)"
  by (simp_all add: stored_ok_def default_store_state_def)

lemma read_optional_value:
  "read_optional a b c decode bytes = Inr (Some x, rest) \<Longrightarrow> \<exists>blob. r_value (decode blob) = Some x"
  by (auto simp: read_optional_def read_then_def lift_result_def read_value_def split: sum.splits if_splits option.splits prod.splits)

lemma read_thenE:
  assumes "read_then p f bytes = Inr z"
  obtains x rest where "p bytes = Inr (x, rest)" "f x rest = Inr z"
  using assms by (auto simp: read_then_def split: sum.splits prod.splits)

lemma decoded_store_ok:
  assumes "r_value (decode_store_state l bytes) = Some s"
  shows "stored_ok s"
proof -
  obtain rest where p: "parse_store_state l bytes = Inr (s, rest)"
    using assms by (auto simp: decode_store_state_def run_decoder_def failure_def split: sum.splits prod.splits)
  show ?thesis
    using p unfolding parse_store_state_def
    by (elim read_thenE) (auto simp: stored_ok_def read_value_def dest!: read_optional_value decoded_topology_ok)
qed

lemma replayed_store_ok:
  assumes "replay_record l type payload s = Inr s'" "stored_ok s"
  shows "stored_ok s'"
  using assms decoded_store_ok[of l payload] decoded_topology_ok[of l payload]
  by (cases type) (auto simp: replay_record_def decode_record_payload_def apply_delta_def map_result_def Let_def
      stored_ok_def replay_lineage_def replay_upsert_def replay_withdraw_def replay_boot_def
      split: option.splits list.splits if_splits)

lemma replayed_document_ok:
  "replay_records l rs s = Inr s' \<Longrightarrow> stored_ok s \<Longrightarrow> stored_ok s'"
  by (induction rs arbitrary: s) (auto split: sum.splits dest: replayed_store_ok)

text \<open>What an append does to the state in memory, whatever the file system answers.\<close>

lemma rewrite_snapshot_state:
  "rewrite_snapshot g io d = (st, d') \<Longrightarrow> ds_state d' = (ds_state d)\<lparr>ss_store_generation := g\<rparr> \<and> ds_limits d' = ds_limits d"
  by (auto simp: rewrite_snapshot_def Let_def split: if_splits replace_io.splits)

lemma compact_state:
  assumes "compact io d = (st, d')"
  shows "(\<exists>g. ds_state d' = (ds_state d)\<lparr>ss_store_generation := g\<rparr>) \<and> ds_limits d' = ds_limits d"
proof -
  have same: "\<exists>g. ds_state d = (ds_state d)\<lparr>ss_store_generation := g\<rparr>"
    by (rule exI[of _ "ss_store_generation (ds_state d)"]) simp
  obtain st1 d1 where r: "rewrite_snapshot (ss_store_generation (ds_state d) + 1) io d = (st1, d1)" by fastforce
  then show ?thesis
    using assms same rewrite_snapshot_state[OF r] by (auto simp: compact_def split: if_splits)
qed

lemma append_payload_state:
  assumes "append_payload io type payload d = (st, d')"
  shows "(\<exists>g. ds_state d' = (ds_state d)\<lparr>ss_store_generation := g\<rparr>) \<and> ds_limits d' = ds_limits d"
proof -
  have same: "\<exists>g. ds_state d = (ds_state d)\<lparr>ss_store_generation := g\<rparr>"
    by (rule exI[of _ "ss_store_generation (ds_state d)"]) simp
  have w: "ds_state (snd (write_record a type payload x)) = ds_state x" "ds_limits (snd (write_record a type payload x)) = ds_limits x" for a x
    by (auto simp: write_record_def Let_def split: append_io.split)
  obtain st1 d1 where c: "compact (io_replace io) d = (st1, d1)" by fastforce
  show ?thesis
    using assms same compact_state[OF c] w[of "io_append io" d] w[of "io_append io" d1]
    by (auto simp: append_payload_def c split: if_splits)
qed

lemma finish_open_fields [simp]: "ds_state (finish_open path b d) = ds_state d" "ds_limits (finish_open path b d) = ds_limits d"
  by (simp_all add: finish_open_def)

lemma blank_store_fields [simp]: "ds_state (blank_store l path sc bytes s) = s" "ds_limits (blank_store l path sc bytes s) = l"
  by (simp_all add: blank_store_def)

lemma fresh_opened:
  assumes "open_fresh io path b (blank_store l path sc bytes s) = ok d"
  shows "stored_ok (ds_state d) \<and> ds_limits d = l"
proof -
  let ?d = "(blank_store l path sc bytes s)\<lparr>ds_open := False,
    ds_state := default_store_state\<lparr>ss_fence := first_fence b, ss_boot_ledger := [b]\<rparr>\<rparr>"
  obtain st d' where r: "rewrite_snapshot 1 (io_replace (oi_write io)) ?d = (st, d')" by fastforce
  then have "d = finish_open path b (d'\<lparr>ds_next_sequence := 2\<rparr>)"
    using assms by (simp add: open_fresh_def split: if_splits)
  then show ?thesis using rewrite_snapshot_state[OF r] by (simp add: stored_ok_def default_store_state_def)
qed

lemma existing_opened:
  assumes "open_existing io path b (blank_store l path sc bytes s) = ok d" "stored_ok s"
  shows "stored_ok (ds_state d) \<and> ds_limits d = l"
proof -
  obtain st d' where r: "append_payload (oi_write io) Rt_BootAdvance (encode_boot_record b) (blank_store l path sc bytes s) = (st, d')"
    by fastforce
  then have "d = finish_open path b (d'\<lparr>ds_state := (ds_state d')\<lparr>ss_boot_ledger := ss_boot_ledger (ds_state d') @ [b],
            ss_fence := (ss_fence (ds_state d'))\<lparr>fv_boot := br_boot b, fv_epoch := br_epoch b\<rparr>\<rparr>\<rparr>)"
    using assms(1) by (simp add: open_existing_def split: if_splits)
  then show ?thesis using append_payload_state[OF r] assms(2) by (auto simp: stored_ok_def)
qed

text \<open>An answer that carries a store is a success.\<close>

lemma failure_value [simp]: "r_value (failure oc detail) = None"
  by (simp add: failure_def)

lemma open_fresh_value: "r_value (open_fresh io path b d) = Some d' \<Longrightarrow> open_fresh io path b d = ok d'"
  by (cases "rewrite_snapshot 1 (io_replace (oi_write io)) (d\<lparr>ds_open := False,
    ds_state := default_store_state\<lparr>ss_fence := first_fence b, ss_boot_ledger := [b]\<rparr>\<rparr>)")
    (simp add: open_fresh_def split: if_splits)

lemma open_existing_value: "r_value (open_existing io path b d) = Some d' \<Longrightarrow> open_existing io path b d = ok d'"
  by (cases "append_payload (oi_write io) Rt_BootAdvance (encode_boot_record b) d")
    (simp add: open_existing_def split: if_splits)

lemma open_document_value:
  assumes "r_value (open_document io l path producer bytes) = Some d"
  shows "open_document io l path producer bytes = ok d"
proof (cases "scan_document l bytes")
  case (Inl e)
  then show ?thesis using assms by (cases e) (simp add: open_document_def)
next
  case (Inr sc)
  let ?s0 = "default_store_state\<lparr>ss_store_generation := (if sc_generation sc = 0 then 1 else sc_generation sc)\<rparr>"
  show ?thesis
  proof (cases "replay_records l (sc_records sc) ?s0")
    case (Inl e)
    then show ?thesis using assms Inr by (cases e) (simp add: open_document_def split del: if_split)
  next
    case s: (Inr s)
    let ?d = "blank_store l path sc bytes (if sc_records sc = [] then default_store_state else s)"
    show ?thesis
    proof (cases "is_ok (oi_handle io)")
      case True
      then show ?thesis
        using assms Inr s open_fresh_value[of io path _ ?d d] open_existing_value[of io path _ ?d d]
        by (cases "mint_boot producer (oi_now io) (ds_state ?d)"; cases "sc_records sc = []")
          (simp_all add: open_document_def Let_def split del: if_split)
    next
      case False
      then show ?thesis using assms Inr s by (simp add: open_document_def split del: if_split)
    qed
  qed
qed

lemma open_or_create_value:
  "r_value (open_or_create io path l producer) = Some d \<Longrightarrow> open_or_create io path l producer = ok d"
  using open_document_value[of io l path producer _ d]
  by (auto simp: open_or_create_def split: if_splits option.splits)

lemma opened_store_ok:
  assumes "open_or_create io path l producer = ok d"
  shows "stored_ok (ds_state d)" "ds_limits d = l"
proof -
  obtain bytes where opened: "open_document io l path producer bytes = ok d"
    using assms by (auto simp: open_or_create_def split: if_splits option.splits)
  obtain sc where sc: "scan_document l bytes = Inr sc"
    using opened by (cases "scan_document l bytes") (auto simp: open_document_def)
  let ?s0 = "default_store_state\<lparr>ss_store_generation := (if sc_generation sc = 0 then 1 else sc_generation sc)\<rparr>"
  obtain s where s: "replay_records l (sc_records sc) ?s0 = Inr s"
    using opened sc by (cases "replay_records l (sc_records sc) ?s0") (auto simp: open_document_def simp del: if_split)
  have ops: "\<exists>b. open_fresh io path b (blank_store l path sc bytes default_store_state) = ok d \<or>
      open_existing io path b (blank_store l path sc bytes s) = ok d"
    using opened sc s by (auto simp: open_document_def Let_def split: if_splits option.splits)
  have "stored_ok s" by (rule replayed_document_ok[OF s stored_ok_default(2)])
  then have "stored_ok (ds_state d) \<and> ds_limits d = l" using ops fresh_opened existing_opened by blast
  then show "stored_ok (ds_state d)" "ds_limits d = l" by simp_all
qed

section \<open>Opening\<close>

lemma restore_findings_ok:
  assumes "registry_ok reg" "\<forall>f \<in> set (fr_findings reg). is_terminal f"
  shows "registry_ok (restore_findings fs reg) \<and> (\<forall>f \<in> set (fr_findings (restore_findings fs reg)). is_terminal f)"
  using assms
proof (induction fs arbitrary: reg)
  case Nil
  then show ?case by (simp add: restore_findings_def)
next
  case (Cons f fs)
  obtain res reg1 where reg: "register_finding (restored_finding f) reg = (res, reg1)" by fastforce
  have t: "is_terminal (restored_finding f)" by (simp add: restored_finding_def is_terminal_def state_is_terminal_def)
  have "\<forall>g \<in> set (fr_findings reg1). is_terminal g"
  proof (cases "has_value res")
    case True
    then show ?thesis
      using register_members[OF Cons.prems(1) reg True] register_okD[OF reg True] make_room_props(2)[OF Cons.prems(1)]
        Cons.prems(2) t by auto
  qed (use register_failD[OF reg] Cons.prems(2) in auto)
  moreover have "registry_ok reg1" using register_finding_ok[OF Cons.prems(1), of "restored_finding f"] reg by simp
  ultimately show ?case using Cons.IH[of reg1] reg by (simp add: restore_findings_def)
qed

text \<open>Before \<open>finish_runtime\<close>: what both ways of opening establish.\<close>

definition idle :: "runtime \<Rightarrow> bool" where
  "idle r \<longleftrightarrow> registry_ok (rt_findings r) \<and> (\<forall>f \<in> set (fr_findings (rt_findings r)). is_terminal f) \<and>
     rt_ledger r = new_ledger (rt_limits r) \<and> rt_plans r = [] \<and> rt_applications r = Map.empty \<and>
     (\<forall>t. rt_topology r = Some t \<longrightarrow> topology_ok t)"

lemma restore_runtime_idle:
  assumes "stored_ok (ds_state d)"
  shows "idle (restore_runtime c d)"
  using assms restore_findings_ok[OF new_registry_ok[of "rc_limits c"], of "ss_findings (ds_state d)"]
  by (simp add: idle_def restore_runtime_def Let_def blank_runtime_def stored_ok_def new_registry_def)

lemma memory_runtime_idle: "idle (memory_runtime c)"
  using new_registry_ok[of "rc_limits c"]
  by (simp add: idle_def memory_runtime_def Let_def blank_runtime_def new_registry_def)

lemma finish_runtime_fields [simp]:
  "rt_config (finish_runtime r) = rt_config r" "rt_identity (finish_runtime r) = rt_identity r"
  "rt_topology (finish_runtime r) = rt_topology r" "rt_policy (finish_runtime r) = rt_policy r"
  "rt_ledger (finish_runtime r) = rt_ledger r" "rt_store (finish_runtime r) = rt_store r"
  "rt_lineage (finish_runtime r) = rt_lineage r" "rt_plans (finish_runtime r) = rt_plans r"
  "rt_applications (finish_runtime r) = rt_applications r" "rt_open (finish_runtime r)"
  "fv_topology (rt_fence (finish_runtime r)) = (case rt_topology r of Some t \<Rightarrow> td_generation t | None \<Rightarrow> 1)"
  "fv_boot (rt_fence (finish_runtime r)) = fv_boot (rt_fence r)" "fv_epoch (rt_fence (finish_runtime r)) = fv_epoch (rt_fence r)"
  by (simp_all add: finish_runtime_def)

lemma finish_runtime_idle: "idle r \<Longrightarrow> idle (finish_runtime r)"
  using fence_ops_ok(3)[of "rt_findings r"]
  by (auto simp: idle_def finish_runtime_def fence_boot_def fence_where_def is_terminal_def state_is_terminal_def
      split: if_splits)

text \<open>Every way to open a runtime.\<close>

lemma runtime_open_cases:
  assumes "runtime_open io c = ok r"
  obtains (memory) "limits_are_sane (rc_limits c)" "rc_store_path c = []" "r = finish_runtime (memory_runtime c)"
  | (restored) d where "limits_are_sane (rc_limits c)" "rc_store_path c \<noteq> []"
      "open_or_create io (rc_store_path c) (rc_limits c) (rc_producer c) = ok d" "r = finish_runtime (restore_runtime c d)"
proof (cases "rc_store_path c = []")
  case True
  then show ?thesis using assms memory by (auto simp: runtime_open_def split: if_splits)
next
  case False
  let ?o = "open_or_create io (rc_store_path c) (rc_limits c) (rc_producer c)"
  have sane: "limits_are_sane (rc_limits c)" using assms by (auto simp: runtime_open_def split: if_splits)
  obtain d where d: "r_value ?o = Some d" "r = finish_runtime (restore_runtime c d)"
    using assms False sane by (auto simp: runtime_open_def Let_def split: option.splits)
  have "?o = ok d" by (rule open_or_create_value[OF d(1)])
  then show ?thesis using restored[OF sane False _ d(2)] by blast
qed

lemma runtime_open_config: "runtime_open io c = ok r \<Longrightarrow> rt_config r = c \<and> limits_are_sane (rt_limits r)"
  by (elim runtime_open_cases) (simp_all add: memory_runtime_def restore_runtime_def blank_runtime_def Let_def)

lemma runtime_open_idle: "runtime_open io c = ok r \<Longrightarrow> idle r"
  by (elim runtime_open_cases)
    (simp_all add: finish_runtime_idle memory_runtime_idle restore_runtime_idle opened_store_ok)

lemma idle_ok:
  assumes "idle r" "limits_are_sane (rt_limits r)" "lineage_ordered (rt_lineage r)"
    and "\<And>t. rt_topology r = Some t \<Longrightarrow> td_generation t = fv_topology (rt_fence r)"
  shows "runtime_ok r"
  using assms by (simp add: idle_def runtime_defs live_bound_def new_ledger_ok) (simp add: new_ledger_def)

lemma runtime_open_ok:
  assumes "runtime_open io c = ok r" "lineage_ordered (rt_lineage r)"
  shows "runtime_ok r"
proof (rule idle_ok[OF runtime_open_idle[OF assms(1)] _ assms(2)])
  show "limits_are_sane (rt_limits r)" using runtime_open_config[OF assms(1)] by (rule conjunct2)
  show "td_generation t = fv_topology (rt_fence r)" if "rt_topology r = Some t" for t
    using assms(1) that by (elim runtime_open_cases) simp_all
qed

section \<open>Histories\<close>

text \<open>One operation of the runtime. An operation that advances the fence succeeds, or there is no store.\<close>

inductive runtime_step :: "runtime \<Rightarrow> runtime \<Rightarrow> bool" where
  forwarding: "advance_forwarding io g now r = (st, r') \<Longrightarrow> is_ok st \<or> rt_store r = None \<Longrightarrow> runtime_step r r'"
| fabric_epoch: "advance_fabric_epoch io g now r = (st, r') \<Longrightarrow> is_ok st \<or> rt_store r = None \<Longrightarrow> runtime_step r r'"
| epoch: "advance_epoch io now r = (st, r') \<Longrightarrow> is_ok st \<or> rt_store r = None \<Longrightarrow> runtime_step r r'"
| topology: "set_topology io t now r = (st, r') \<Longrightarrow> is_ok st \<or> rt_store r = None \<Longrightarrow> runtime_step r r'"
| policy: "set_policy io p now r = (st, r') \<Longrightarrow> is_ok st \<or> rt_store r = None \<Longrightarrow> runtime_step r r'"
| observe: "runtime_step r (snd (submit_observation ob now r))"
| clear: "runtime_step r (snd (clear_evidence r))"
| detection: "runtime_step r (snd (detect now scope r))"
| publication: "runtime_step r (snd (publish_finding io a now r))"
| planning: "runtime_step r (snd (runtime_plan io a now r))"
| authorization: "runtime_step r (snd (authorize_containment io k grant now lease targets r))"
| acknowledgement: "runtime_step r (snd (record_acknowledgement io ack now r))"
| effect: "runtime_step r (snd (record_verified_effect io i e now r))"
| withdrawal: "runtime_step r (snd (withdraw_finding io k reason now detail r))"
| closing: "runtime_step r (snd (runtime_close sio flushed clean now r))"

inductive_cases runtime_stepE: "runtime_step r r'"

definition runtime_start :: "runtime \<Rightarrow> bool" where
  "runtime_start r \<longleftrightarrow> (\<exists>io c. runtime_open io c = ok r) \<and> lineage_ordered (rt_lineage r)"

lemma runtime_step_ok:
  assumes "runtime_step r r'" "runtime_ok r"
  shows "runtime_ok r'"
  using assms(1)
proof cases
  case forwarding
  then show ?thesis using advance_ok(1)[OF assms(2)] by blast
next
  case fabric_epoch
  then show ?thesis using advance_ok(2)[OF assms(2)] by blast
next
  case epoch
  then show ?thesis using advance_ok(3)[OF assms(2)] by blast
next
  case topology
  then show ?thesis using set_topology_ok[OF assms(2)] by blast
next
  case policy
  then show ?thesis using set_policy_ok[OF assms(2)] by blast
qed (simp_all add: assms(2) submit_observation_ok clear_evidence_ok detect_ok publish_finding_ok runtime_plan_ok
    authorize_containment_ok record_acknowledgement_ok record_verified_effect_ok withdraw_finding_ok runtime_close_ok)

interpretation runtime_machine: invariant_machine runtime_start runtime_step runtime_ok
  by unfold_locales (auto simp: runtime_start_def runtime_open_ok runtime_step_ok)

end
