(* ===== verification/Runtime_Contract.thy ===== *)
theory Runtime_Contract
  imports Runtime_History
begin

text \<open>
  What a successful operation of the runtime says about the state it happened in: a published finding
  (\<open>publish_finding_okD\<close>), an issued intent (\<open>authorize_containment_okD\<close>), a finding that becomes verified
  (\<open>runtime_step_verified\<close>); and that detection followed by publication succeeds (\<open>detected_publishes\<close>).
\<close>

section \<open>Publication\<close>

lemma witness_revalidates_iff:
  assumes "topology_ok t" "ledger_ok (rt_ledger r)"
  shows "witness_revalidates now r t w \<longleftrightarrow>
    loop_at t (rt_ledger r) (rt_fence r) now (lw_cycle w) (lw_hops w) (lw_selectors w) \<and>
    canonical_witness t (rt_ledger r) (rt_fence r) (rt_limits r) w"
proof -
  obtain v where v: "validate_witness w t (rt_ledger r) (rt_fence r) now (rt_limits r) = ok v"
    using validate_witness_ok by blast
  show ?thesis
    using validate_witness_valid_iff[OF assms v] by (simp add: witness_revalidates_def revalidate_def v)
qed

lemma commit_finding_okD:
  assumes "commit_finding io f now r = (res, r')" "r_value res = Some g"
  shows "g = f" "rt_fence r' = rt_fence r" "\<exists>k. register_finding f (rt_findings r) = (ok k, rt_findings r')"
proof -
  obtain st x where os: "on_store (store_upsert_finding (io 0) f) r = (st, x)" by fastforce
  have x: "rt_findings x = rt_findings r" "rt_fence x = rt_fence r" using on_store_fields(4,8) os by (metis snd_conv)+
  obtain res1 reg where reg: "register_finding f (rt_findings r) = (res1, reg)" by fastforce
  have st: "is_ok st" and hv: "has_value res1"
    using assms by (auto simp: commit_finding_def os x reg split: if_splits)
  obtain st2 y where al: "append_lineage (io 1) Auth_Recommendation (fi_id f) 0 0 (fi_fence f) (finding_digest f)
      R_WitnessSuccessfullyValidated Sev_Critical now (x\<lparr>rt_findings := reg\<rparr>) = (st2, y)" by fastforce
  have y: "rt_findings y = reg" "rt_fence y = rt_fence r"
    using append_lineage_fields(4,8)[of "io 1" Auth_Recommendation "fi_id f" 0 0 "fi_fence f" "finding_digest f"
        R_WitnessSuccessfullyValidated Sev_Critical now "x\<lparr>rt_findings := reg\<rparr>"] unfolding al by (simp_all add: x)
  have "g = f \<and> rt_fence r' = rt_fence y \<and> rt_findings r' = rt_findings y"
    using assms st hv by (auto simp: commit_finding_def os x reg al simp del: One_nat_def split: if_splits)
  then show "g = f" "rt_fence r' = rt_fence r" "\<exists>k. register_finding f (rt_findings r) = (ok k, rt_findings r')"
    using y reg register_okD[OF reg hv] by auto
qed

lemma publish_finding_okD:
  assumes r: "runtime_ok r" and p: "publish_finding io a now r = (res, r')" "r_value res = Some f"
  shows "f = finding_of r a now" "la_outcome a = Loop_LoopConfirmed" "la_fence a = rt_fence r" "la_witnesses a \<noteq> []"
    "f \<in> set (fr_findings (rt_findings r'))" "rt_fence r' = rt_fence r"
    "\<exists>t. rt_topology r = Some t \<and> (\<forall>w \<in> set (la_witnesses a).
       loop_at t (rt_ledger r) (rt_fence r) now (lw_cycle w) (lw_hops w) (lw_selectors w) \<and>
       canonical_witness t (rt_ledger r) (rt_fence r) (rt_limits r) w)"
proof -
  obtain t where t: "rt_topology r = Some t" "list_all (witness_revalidates now r t) (la_witnesses a)"
    and a: "la_outcome a = Loop_LoopConfirmed" "la_fence a = rt_fence r" "la_witnesses a \<noteq> []"
    and c: "commit_finding io (finding_of r a now) now r = (res, r')"
    using p by (auto simp: publish_finding_def refuse_finding_def split: if_splits option.splits)
  note D = commit_finding_okD[OF c p(2)]
  show "f = finding_of r a now" "la_outcome a = Loop_LoopConfirmed" "la_fence a = rt_fence r" "la_witnesses a \<noteq> []"
    "rt_fence r' = rt_fence r" using D a by simp_all
  obtain k where k: "register_finding f (rt_findings r) = (ok k, rt_findings r')" using D by blast
  have "has_value (ok k :: u64 result)" by simp
  then show "f \<in> set (fr_findings (rt_findings r'))" using register_members[OF registry_of[OF r] k] by simp
  have ok: "topology_ok t" "ledger_ok (rt_ledger r)" using r t(1) by (auto simp: runtime_defs)
  show "\<exists>t. rt_topology r = Some t \<and> (\<forall>w \<in> set (la_witnesses a).
       loop_at t (rt_ledger r) (rt_fence r) now (lw_cycle w) (lw_hops w) (lw_selectors w) \<and>
       canonical_witness t (rt_ledger r) (rt_fence r) (rt_limits r) w)"
    using t(2) by (intro exI[of _ t]) (simp add: t(1) list_all_iff witness_revalidates_iff[OF ok])
qed

text \<open>The lineage record of a publication, and whether the document takes both records of one.\<close>

definition publication_entry :: "finding \<Rightarrow> u64 \<Rightarrow> runtime \<Rightarrow> lineage_record" where
  "publication_entry f now r =
     \<lparr>lr_id = next_sequence (rt_lineage r), lr_sequence = next_sequence (rt_lineage r), lr_recorded_at = now,
      lr_kind = Auth_Recommendation, lr_finding = fi_id f, lr_plan = 0, lr_intent = 0, lr_fence = fi_fence f,
      lr_subject_digest = finding_digest f, lr_reason = R_WitnessSuccessfullyValidated, lr_severity = Sev_Critical\<rparr>"

definition publication_written :: "(nat \<Rightarrow> store_io) \<Rightarrow> finding \<Rightarrow> u64 \<Rightarrow> runtime \<Rightarrow> bool" where
  "publication_written io f now r = (case rt_store r of None \<Rightarrow> True
     | Some d \<Rightarrow> (case store_upsert_finding (io 0) f d of (st, d') \<Rightarrow>
         is_ok st \<and> is_ok (fst (store_append_lineage (io 1) (publication_entry f now r) d'))))"

lemma commit_finding_written:
  assumes "id_valid (next_sequence (rt_lineage r))" "register_finding f (rt_findings r) = (ok k, reg)"
  shows "has_value (fst (commit_finding io f now r)) \<longleftrightarrow> publication_written io f now r"
    "publication_written io f now r \<Longrightarrow> fst (commit_finding io f now r) = ok f"
proof -
  have "has_value (fst (commit_finding io f now r)) = publication_written io f now r \<and>
    (publication_written io f now r \<longrightarrow> fst (commit_finding io f now r) = ok f)"
  proof (cases "rt_store r")
    case None
    then show ?thesis
      using assms by (simp add: commit_finding_def on_store_none append_lineage_def Let_def publication_written_def)
  next
    case (Some d)
    obtain st d' where u: "store_upsert_finding (io 0) f d = (st, d')" by fastforce
    obtain st2 d2 where l: "store_append_lineage (io 1) (publication_entry f now r) d' = (st2, d2)" by fastforce
    have "\<not> is_ok st2 \<longrightarrow> r_outcome st2 \<noteq> Oc_Ok" by (simp add: is_ok_def)
    then show ?thesis
      using assms Some u l
      by (simp add: commit_finding_def on_store_def append_lineage_def Let_def publication_written_def
          publication_entry_def del: One_nat_def)
  qed
  then show "has_value (fst (commit_finding io f now r)) \<longleftrightarrow> publication_written io f now r"
    "publication_written io f now r \<Longrightarrow> fst (commit_finding io f now r) = ok f" by blast+
qed

text \<open>What the detector confirms is published at once, unless the registry has no room, the identity is
  taken, the lineage is exhausted or the document does not take the records.\<close>

lemma detected_publishes:
  assumes r: "runtime_ok r" and d: "detect now scope r = (ok a, r1)" "la_outcome a = Loop_LoopConfirmed"
    and fence: "id_valid (fv_boot (rt_fence r))" and seq: "id_valid (next_sequence (rt_lineage r))"
    and room: "fi_id (finding_of r a now) \<notin> fi_id ` set (fr_findings (rt_findings r))"
      "length (fr_findings (rt_findings r)) < unat (max_retained_findings (fr_limits (rt_findings r)))"
  shows "has_value (fst (publish_finding io a now r1)) \<longleftrightarrow> publication_written io (finding_of r a now) now r"
    "publication_written io (finding_of r a now) now r \<Longrightarrow> fst (publish_finding io a now r1) = ok (finding_of r a now)"
proof -
  obtain t where t: "rt_topology r = Some t" and a: "assess (rt_limits r) (question t (rt_ledger r) (rt_fence r) now scope) = ok a"
    and r1: "r1 = count_up (\<lambda>k. k\<lparr>kt_assessments_run := kt_assessments_run k + 1\<rparr>) r"
    using d(1) by (auto simp: detect_def question_def split: option.splits)
  have ok: "topology_ok t" "ledger_ok (rt_ledger r)" "td_generation t = fv_topology (rt_fence r)"
    using r t by (auto simp: runtime_defs)
  have f1: "finding_of r1 a now = finding_of r a now" by (simp add: r1 finding_of_def Let_def)
  have w: "witness_revalidates now r1 t = witness_revalidates now r t"
    by (rule ext) (simp add: r1 witness_revalidates_def)
  have la: "la_fence a = rt_fence r" by (rule assess_okD(1)[OF a])
  have all: "list_all (witness_revalidates now r t) (la_witnesses a)"
    using assess_witnesses_sound[OF ok(1,2) a] by (simp add: list_all_iff witness_revalidates_iff[OF ok(1,2)])
  have ne: "la_witnesses a \<noteq> []" by (rule assess_confirmed_witnesses[OF a d(2)])
  let ?f = "finding_of r a now"
  have "\<not> fence_is_zero (fi_fence ?f)" using fence la by (auto simp: fence_is_zero_def id_valid_def)
  then have "has_value (fst (register_finding ?f (rt_findings r)))"
    using register_refused_full[OF registry_of[OF r], of ?f] room fence la by (simp add: id_valid_def)
  then obtain k reg where reg: "register_finding ?f (rt_findings r) = (ok k, reg)"
    by (cases "register_finding ?f (rt_findings r)") (auto dest: register_okD)
  have p: "publish_finding io a now r1 = commit_finding io ?f now r1"
    using d(2) la ne t ok(3) all by (simp add: publish_finding_def f1 w r1[THEN arg_cong, of rt_topology] r1[THEN arg_cong, of rt_fence])
  have "publication_entry ?f now r1 = publication_entry ?f now r" by (simp add: r1 publication_entry_def)
  then have "publication_written io ?f now r1 = publication_written io ?f now r"
    by (simp add: r1 publication_written_def split: option.split prod.split)
  moreover have "id_valid (next_sequence (rt_lineage r1))" "register_finding ?f (rt_findings r1) = (ok k, reg)"
    using seq reg by (simp_all add: r1)
  ultimately show "has_value (fst (publish_finding io a now r1)) \<longleftrightarrow> publication_written io ?f now r"
    "publication_written io ?f now r \<Longrightarrow> fst (publish_finding io a now r1) = ok ?f"
    using commit_finding_written unfolding p by blast+
qed

section \<open>Authorization\<close>

lemma issue_intent_okD:
  assumes "issue_intent io i now r = (res, r')" "r_value res = Some j"
  shows "j = i \<and> rt_fence r' = rt_fence r \<and> rt_applications r' (ci_id i) = Some (application_of r i)"
proof -
  define reg where "reg = snd (update_state (ci_finding i) Fs_ContainmentRequested Cause_None now R_RequestAccepted
    ''a bounded containment intent was issued'' (snd (attach_intent (ci_finding i) (ci_id i) now (rt_findings r))))"
  let ?r = "r\<lparr>rt_findings := reg, rt_applications := (rt_applications r)(ci_id i \<mapsto> application_of r i)\<rparr>"
  have a: "then_do (append_lineage io Auth_Authorization (ci_finding i) (ci_plan i) (ci_id i) (rt_fence r) (intent_digest i)
           R_RequestAccepted Sev_Critical now ?r) (\<lambda>r.
         (ok i, count_up (\<lambda>k. k\<lparr>kt_intents_issued := kt_intents_issued k + 1\<rparr>) r)) = (res, r')"
    using assms(1) by (simp add: issue_intent_def Let_def reg_def)
  from then_do_value[OF a assms(2)] show ?thesis using assms(2) by auto
qed

lemma authorize_containment_okD:
  assumes r: "runtime_ok r" and a: "authorize_containment io k grant now lease targets r = (res, r')" "r_value res = Some i"
  obtains f p where "find_finding (rt_findings r) k = Some f" "\<not> is_terminal f" "fi_fence f = rt_fence r"
    "map_of (rt_plans r) (fi_plan f) = Some p" "authorizes_action p" "pl_fence p = rt_fence r"
    "grantable p grant (rt_fence r) now (ci_targets i)"
    "i = intent_of r k p (ci_targets i) now lease"
    "targets \<noteq> [] \<Longrightarrow> set (ci_targets i) = set targets"
    "rt_applications r' (ci_id i) = Some (application_of r i)"
proof -
  obtain f p where f: "find_finding (rt_findings r) k = Some f" "\<not> is_terminal f" "fi_fence f = rt_fence r"
    "map_of (rt_plans r) (fi_plan f) = Some p" "authorizes_action p" "pl_fence p = rt_fence r"
    and t: "authorize_targets (io 0) k p grant now lease targets r = (res, r')"
    using a by (auto simp: authorize_containment_def refuse_intent_def split: if_splits option.splits)
  define ts where "ts = sort (if targets = [] then target_resources p else targets)"
  from authorize_targets_cases[OF t] a(2) have g: "grantable p grant (rt_fence r) now ts"
    and i: "issue_intent (io 0) (intent_of r k p ts now lease) now r = (res, r')" by (auto simp: ts_def)
  from issue_intent_okD[OF i a(2)] have i: "i = intent_of r k p ts now lease"
    "rt_applications r' (ci_id i) = Some (application_of r i)" by auto
  then have ts: "ci_targets i = ts" by (simp add: intent_of_def Let_def)
  have "set ts = set targets" if "targets \<noteq> []" using that by (simp add: ts_def)
  then show ?thesis using that[OF f] g i unfolding ts by blast
qed

section \<open>Verification\<close>

text \<open>No finding of the new registry counts as verified that did not before.\<close>

definition none_verified :: "finding_registry \<Rightarrow> finding_registry \<Rightarrow> bool" where
  "none_verified reg reg' \<longleftrightarrow> (\<forall>f' \<in> set (fr_findings reg'). fi_state f' = Fs_ContainmentVerified \<longrightarrow>
     (\<exists>f \<in> set (fr_findings reg). fi_id f = fi_id f' \<and> fi_state f = Fs_ContainmentVerified))"

lemma none_verified_refl: "none_verified reg reg"
  by (auto simp: none_verified_def)

lemma none_verified_trans: "none_verified a b \<Longrightarrow> none_verified b c \<Longrightarrow> none_verified a c"
  unfolding none_verified_def by metis

lemma update_first_members: "x \<in> set (update_first P g xs) \<Longrightarrow> x \<in> set xs \<or> (\<exists>y \<in> set xs. P y \<and> x = g y)"
  by (induction xs) (auto split: if_splits)

lemma none_verified_modify:
  assumes "\<And>f. fi_id (g f) = fi_id f" "\<And>f. fi_state (g f) = Fs_ContainmentVerified \<Longrightarrow> fi_state f = Fs_ContainmentVerified"
  shows "none_verified reg (modify_finding k g reg)"
  unfolding none_verified_def modify_finding_def using assms by (auto dest!: update_first_members)

lemma none_verified_ops:
  shows "state \<noteq> Fs_ContainmentVerified \<Longrightarrow> none_verified reg (snd (update_state k state cause now code detail reg))"
    "none_verified reg (snd (attach_plan k plan now reg))" "none_verified reg (snd (attach_intent k intent now reg))"
    "none_verified reg (snd (fence_stale current now reg))"
proof -
  show "none_verified reg (snd (update_state k state cause now code detail reg))" if "state \<noteq> Fs_ContainmentVerified"
    unfolding update_state_def using that
    by (auto simp: none_verified_refl split: option.split intro!: none_verified_modify)
  show "none_verified reg (snd (attach_plan k plan now reg))" "none_verified reg (snd (attach_intent k intent now reg))"
    by (auto simp: attach_plan_def attach_intent_def none_verified_refl intro!: none_verified_modify)
  show "none_verified reg (snd (fence_stale current now reg))"
    by (auto simp: none_verified_def fence_stale_def fence_where_def split: if_splits)
qed

lemma none_verified_register:
  assumes "registry_ok reg" "fi_state f \<noteq> Fs_ContainmentVerified"
  shows "none_verified reg (snd (register_finding f reg))"
proof -
  obtain res reg' where r: "register_finding f reg = (res, reg')" by fastforce
  show ?thesis
  proof (cases "has_value res")
    case True
    then show ?thesis
      using register_members[OF assms(1) r True] register_okD[OF r True] make_room_props(2)[OF assms(1)] r assms(2)
      by (auto simp: none_verified_def)
  qed (use register_failD[OF r] r none_verified_refl in auto)
qed

text \<open>The same for the operations of the runtime.\<close>

abbreviation calm :: "finding_registry \<Rightarrow> runtime \<Rightarrow> bool" where
  "calm reg r \<equiv> none_verified reg (rt_findings r)"

lemma calm_then_do:
  "calm reg (snd p) \<Longrightarrow> (\<And>x. calm reg x \<Longrightarrow> calm reg (snd (k x))) \<Longrightarrow> calm reg (snd (then_do p k))"
  by (rule then_do_keeps)

lemma fence_live_calm: "calm reg r \<Longrightarrow> calm reg (fence_live now r)"
  using none_verified_ops(4)[of "rt_findings r" "rt_fence r" now]
  by (auto simp: fence_live_def split: prod.split intro: none_verified_trans)

lemma commit_fence_calm: "calm reg r \<Longrightarrow> calm reg (snd (commit_fence io i subject now r))"
  unfolding commit_fence_def by (rule calm_then_do) (simp_all add: fence_live_calm)

lemma advance_calm:
  "calm (rt_findings r) (snd (advance_forwarding io g now r))"
  "calm (rt_findings r) (snd (advance_fabric_epoch io g now r))"
  "calm (rt_findings r) (snd (advance_epoch io now r))"
  by (auto simp: advance_forwarding_def advance_fabric_epoch_def advance_epoch_def Let_def none_verified_refl
      commit_fence_calm split: option.split)

lemma set_topology_calm: "calm (rt_findings r) (snd (set_topology io t now r))"
  by (auto simp: set_topology_def Let_def none_verified_refl split: option.split
      intro!: calm_then_do commit_fence_calm)

lemma set_policy_calm: "calm (rt_findings r) (snd (set_policy io p now r))"
  by (auto simp: set_policy_def Let_def none_verified_refl split: option.split intro!: calm_then_do fence_live_calm)

lemma submit_calm: "calm (rt_findings r) (snd (submit_observation ob now r))"
  "calm (rt_findings r) (snd (clear_evidence r))" "calm (rt_findings r) (snd (detect now scope r))"
  by (auto simp: submit_observation_def clear_evidence_def detect_def none_verified_refl split: prod.split option.split)

lemma publish_calm:
  assumes "runtime_ok r"
  shows "calm (rt_findings r) (snd (publish_finding io a now r))"
proof -
  have "calm (rt_findings r) (snd (commit_finding io (finding_of r a now) now r))"
  proof -
    obtain st x where os: "on_store (store_upsert_finding (io 0) (finding_of r a now)) r = (st, x)" by fastforce
    have x: "rt_findings x = rt_findings r" using on_store_fields(8) os by (metis snd_conv)
    obtain res reg where reg: "register_finding (finding_of r a now) (rt_findings r) = (res, reg)" by fastforce
    have "none_verified (rt_findings r) reg"
      using none_verified_register[OF registry_of[OF assms], of "finding_of r a now"] reg by simp
    then show ?thesis
      by (auto simp: commit_finding_def os x reg none_verified_refl intro!: calm_then_do)
  qed
  then show ?thesis
    by (auto simp: publish_finding_def refuse_finding_def none_verified_refl split: option.split)
qed

lemma plan_calm: "calm (rt_findings r) (snd (runtime_plan io a now r))"
proof -
  have "calm (rt_findings x) (snd (attach_to_finding i k p now x))" for i k p x
    using none_verified_ops(2) by (auto simp: attach_to_finding_def none_verified_refl split: option.split)
  then have "calm (rt_findings r) (snd (attach_to_finding i k p now (count_up g (r\<lparr>rt_plans := ps\<rparr>))))" for i k p g ps
    using none_verified_refl by (simp add: attach_to_finding_def none_verified_ops(2) split: option.split)
  then show ?thesis
    by (auto simp: runtime_plan_def Let_def none_verified_refl split: option.split intro!: calm_then_do)
qed

lemma issue_calm: "calm (rt_findings r) (snd (issue_intent io i now r))"
  unfolding issue_intent_def Let_def
  by (rule calm_then_do) (simp_all add: none_verified_trans[OF none_verified_ops(3) none_verified_ops(1)])

lemma authorize_calm: "calm (rt_findings r) (snd (authorize_containment io k grant now lease targets r))"
  by (auto simp: authorize_containment_def authorize_targets_def refuse_intent_def Let_def none_verified_refl issue_calm
      split: option.split)

lemma record_outcome_calm:
  assumes "state \<noteq> Fs_ContainmentVerified"
  shows "calm (rt_findings r) (snd (record_outcome io now a state code detail kind intent subject sev r))"
proof -
  obtain upd reg where u: "update_state (ap_finding a) state Cause_None now code detail (rt_findings r) = (upd, reg)" by fastforce
  have "none_verified (rt_findings r) reg" using none_verified_ops(1)[OF assms] u by (metis snd_conv)
  then show ?thesis by (auto simp: record_outcome_def u intro!: calm_then_do)
qed

lemma acknowledgement_calm: "calm (rt_findings r) (snd (record_acknowledgement io ack now r))"
  using record_outcome_calm[of Fs_ContainmentAppliedUnverified "r\<lparr>rt_applications := _\<rparr>"]
  by (auto simp: record_acknowledgement_def none_verified_refl split: option.split)

lemma withdraw_calm: "calm (rt_findings r) (snd (withdraw_finding io k reason now detail r))"
proof -
  obtain st x where os: "on_store (store_withdraw_finding (io 0) k Cause_ExplicitWithdrawal now reason) r = (st, x)" by fastforce
  have x: "rt_findings x = rt_findings r" using on_store_fields(8) os by (metis snd_conv)
  obtain upd reg where u: "update_state k Fs_Withdrawn Cause_ExplicitWithdrawal now reason detail (rt_findings r) = (upd, reg)"
    by fastforce
  have "none_verified (rt_findings r) reg" using none_verified_ops(1)[of Fs_Withdrawn] u by (metis finding_state.distinct snd_conv)
  then show ?thesis by (auto simp: withdraw_finding_def os x u none_verified_refl)
qed

lemma find_modify_finding:
  assumes "\<And>f. fi_id (g f) = fi_id f"
  shows "find_finding (modify_finding k g reg) k = map_option g (find_finding reg k)"
proof -
  have "find (\<lambda>f. fi_id f = k) (update_first (\<lambda>f. fi_id f = k) g fs) = map_option g (find (\<lambda>f. fi_id f = k) fs)" for fs
    by (induction fs) (simp_all add: assms)
  then show ?thesis by (simp add: find_finding_def modify_finding_def)
qed

lemma record_outcome_fields:
  "rt_applications (snd (record_outcome io now a state code detail kind intent subject sev r)) = rt_applications r"
  "rt_fence (snd (record_outcome io now a state code detail kind intent subject sev r)) = rt_fence r"
  "rt_findings (snd (record_outcome io now a state code detail kind intent subject sev r)) =
     snd (update_state (ap_finding a) state Cause_None now code detail (rt_findings r))"
proof -
  obtain upd reg where u: "update_state (ap_finding a) state Cause_None now code detail (rt_findings r) = (upd, reg)" by fastforce
  let ?l = "append_lineage io kind (ap_finding a) (ap_plan a) intent (rt_fence r) subject code sev now (r\<lparr>rt_findings := reg\<rparr>)"
  have "snd (record_outcome io now a state code detail kind intent subject sev r) = snd ?l"
    by (cases ?l) (simp add: record_outcome_def u)
  then show
    "rt_applications (snd (record_outcome io now a state code detail kind intent subject sev r)) = rt_applications r"
    "rt_fence (snd (record_outcome io now a state code detail kind intent subject sev r)) = rt_fence r"
    "rt_findings (snd (record_outcome io now a state code detail kind intent subject sev r)) =
      snd (update_state (ap_finding a) state Cause_None now code detail (rt_findings r))"
    by (simp_all add: u)
qed

text \<open>The application whose effects cover all its targets.\<close>

definition verified_by :: "containment_application \<Rightarrow> fence_vector \<Rightarrow> finding \<Rightarrow> bool" where
  "verified_by a current f \<longleftrightarrow> ap_finding a = fi_id f \<and> ap_fence a = current \<and> ap_targets a \<noteq> [] \<and>
     set (ap_targets a) = ve_target ` set (ap_effects a) \<and> (\<forall>e \<in> set (ap_effects a). ve_fence e = current)"

lemma effect_verifies:
  assumes r: "runtime_ok r" and f': "f' \<in> set (fr_findings (rt_findings (snd (record_verified_effect io i e now r))))"
    "fi_state f' = Fs_ContainmentVerified"
    and new: "\<nexists>f. f \<in> set (fr_findings (rt_findings r)) \<and> fi_id f = fi_id f' \<and> fi_state f = Fs_ContainmentVerified"
  shows "\<exists>a. rt_applications (snd (record_verified_effect io i e now r)) i = Some a \<and>
    verified_by a (rt_fence (snd (record_verified_effect io i e now r))) f'"
proof (cases rule: record_verified_effect_cases[of io i e now r])
  case refused
  then show ?thesis using f' new by auto
next
  case (recorded a)
  let ?a = "add_effect e a"
  note known = known_application[OF r recorded(1)]
  have ok: "application_ok ?a" using known recorded by (intro add_effect_ok) simp_all
  have v: "fully_verified ?a"
  proof (rule ccontr)
    assume no: "\<not> fully_verified ?a"
    have "calm (rt_findings r) (snd (record_verified_effect io i e now r))"
      using record_outcome_calm[of Fs_ContainmentAppliedUnverified "count_up _ (r\<lparr>rt_applications := _\<rparr>)"]
      unfolding recorded(6) Let_def by (simp add: no)
    then show False using f' new by (auto simp: none_verified_def)
  qed
  have "sorted (ap_targets ?a)" using ok by (simp add: application_ok_def strict_sorted_iff)
  then have "set (ap_targets ?a) \<subseteq> ve_target ` set (ap_effects ?a)" "ap_targets ?a \<noteq> []"
    using v fully_verified_sorted_iff[of ?a] by auto
  moreover have "ve_target ` set (ap_effects ?a) \<subseteq> set (ap_targets ?a)" "\<forall>x \<in> set (ap_effects ?a). ve_fence x = rt_fence r"
    using ok recorded(2) by (auto simp: application_ok_def)
  moreover have "ap_finding ?a = fi_id f'"
  proof -
    have "f' \<in> set (fr_findings (snd (update_state (ap_finding ?a) Fs_ContainmentVerified Cause_None now
        R_EffectVerifiedForTarget ''every target carries an independently verified effect'' (rt_findings r))))"
      using f'(1) unfolding recorded(6) Let_def by (simp add: v record_outcome_fields)
    then have "f' \<in> set (fr_findings (rt_findings r)) \<or> fi_id f' = ap_finding ?a"
      by (auto simp: update_state_def modify_finding_def split: option.splits if_splits dest!: update_first_members)
    then show ?thesis using new f'(2) by auto
  qed
  ultimately have "verified_by ?a (rt_fence r) f'"
    unfolding verified_by_def using recorded(2) by (intro conjI subset_antisym) simp_all
  moreover have "rt_applications (snd (record_verified_effect io i e now r)) i = Some ?a"
    "rt_fence (snd (record_verified_effect io i e now r)) = rt_fence r"
    unfolding recorded(6) Let_def by (simp_all add: record_outcome_fields)
  ultimately show ?thesis by simp
qed

lemma runtime_step_verified:
  assumes r: "runtime_ok r" and step: "runtime_step r r'"
    and f': "f' \<in> set (fr_findings (rt_findings r'))" "fi_state f' = Fs_ContainmentVerified"
    and new: "\<nexists>f. f \<in> set (fr_findings (rt_findings r)) \<and> fi_id f = fi_id f' \<and> fi_state f = Fs_ContainmentVerified"
  shows "\<exists>i a. rt_applications r' i = Some a \<and> verified_by a (rt_fence r') f'"
proof -
  have calm: "\<not> calm (rt_findings r) r'" using f' new by (auto simp: none_verified_def)
  show ?thesis
    using step
  proof cases
    case (forwarding io g now st)
    with calm advance_calm(1)[of r io g now] show ?thesis by simp
  next
    case (fabric_epoch io g now st)
    with calm advance_calm(2)[of r io g now] show ?thesis by simp
  next
    case (epoch io now st)
    with calm advance_calm(3)[of r io now] show ?thesis by simp
  next
    case (topology io t now st)
    with calm set_topology_calm[of r io t now] show ?thesis by simp
  next
    case (policy io p now st)
    with calm set_policy_calm[of r io p now] show ?thesis by simp
  next
    case (effect io i e now)
    with effect_verifies[OF r, of f' io i e now] f' new show ?thesis by auto
  next
    case (closing sio flushed clean now)
    then have "rt_findings r' = rt_findings r" by (simp add: runtime_close_def)
    with calm show ?thesis by (simp add: none_verified_refl)
  qed (use calm submit_calm publish_calm[OF r] plan_calm authorize_calm acknowledgement_calm withdraw_calm in simp_all)
qed

end
