(* ===== verification/Runtime_Mirror.thy ===== *)
theory Runtime_Mirror
  imports Runtime_History
begin

text \<open>
  The runtime and its store agree. In every history, whatever the file system answers, the definition, the
  policy and the lineage that the runtime holds are those of the store (\<open>mirror_machine\<close>): each operation
  writes before it changes memory, and leaves memory alone when the write fails. So a restart from the
  document gives them back (\<open>restart_restores\<close>).
\<close>

section \<open>What a write does to the store\<close>

lemma commit_state:
  assumes "commit io type payload txt change d = (st, d')"
  obtains g where "ds_limits d' = ds_limits d"
    "ds_state d' = (if is_ok st then change ((ds_state d)\<lparr>ss_store_generation := g\<rparr>) else (ds_state d)\<lparr>ss_store_generation := g\<rparr>)"
proof (cases "payload = []")
  case True
  then show ?thesis using assms that[of "ss_store_generation (ds_state d)"] by (auto simp: commit_def)
next
  case False
  obtain st1 d1 where a: "append_payload io type payload d = (st1, d1)" by fastforce
  from append_payload_state[OF a] obtain g where "ds_state d1 = (ds_state d)\<lparr>ss_store_generation := g\<rparr>" "ds_limits d1 = ds_limits d"
    by blast
  then show ?thesis using assms a False that[of g] by (auto simp: commit_def split: if_splits)
qed

definition same_definitions :: "durable_store \<Rightarrow> durable_store \<Rightarrow> bool" where
  "same_definitions d d' \<longleftrightarrow> ds_limits d' = ds_limits d \<and> ss_topology (ds_state d') = ss_topology (ds_state d) \<and>
     ss_policy (ds_state d') = ss_policy (ds_state d) \<and> ss_lineage (ds_state d') = ss_lineage (ds_state d)"

lemma same_definitions_refl: "same_definitions d d"
  by (simp add: same_definitions_def)

lemma append_payload_same: "append_payload io type payload d = (st, d') \<Longrightarrow> same_definitions d d'"
  by (drule append_payload_state) (auto simp: same_definitions_def)

lemma commit_same:
  assumes "\<And>s. ss_topology (change s) = ss_topology s" "\<And>s. ss_policy (change s) = ss_policy s"
    "\<And>s. ss_lineage (change s) = ss_lineage s"
  shows "same_definitions d (snd (commit io type payload txt change d))"
proof -
  obtain st d' where k: "commit io type payload txt change d = (st, d')" by fastforce
  then show ?thesis by (rule commit_state) (simp add: k same_definitions_def assms)
qed

lemma store_keeps:
  "same_definitions d (snd (store_advance_fence io f d))" "same_definitions d (snd (store_upsert_finding io x d))"
  "same_definitions d (snd (store_withdraw_finding io k cause now reason d))"
  "same_definitions d (snd (store_close io flushed clean now d))"
proof -
  show "same_definitions d (snd (store_advance_fence io f d))" unfolding store_advance_fence_def by (rule commit_same) simp_all
  show "same_definitions d (snd (store_upsert_finding io x d))"
    by (auto simp: store_upsert_finding_def same_definitions_refl intro!: commit_same)
  show "same_definitions d (snd (store_withdraw_finding io k cause now reason d))"
    by (auto simp: store_withdraw_finding_def Let_def same_definitions_refl split: prod.split dest!: append_payload_same)
      (auto simp: same_definitions_def)
  show "same_definitions d (snd (store_close io flushed clean now d))"
    by (auto simp: store_close_def Let_def same_definitions_refl split: prod.splits if_splits dest!: append_payload_same)
      (auto simp: same_definitions_def)
qed

section \<open>Agreement\<close>

definition mirrors :: "runtime \<Rightarrow> bool" where
  "mirrors r \<longleftrightarrow> (\<forall>d. rt_store r = Some d \<longrightarrow> ds_limits d = rt_limits r \<and> ss_topology (ds_state d) = rt_topology r \<and>
     ss_policy (ds_state d) = rt_policy r \<and> ss_lineage (ds_state d) = rt_lineage r)"

lemma mirrors_update [simp]:
  "mirrors (count_up g r) = mirrors r" "mirrors (r\<lparr>rt_fence := f\<rparr>) = mirrors r" "mirrors (r\<lparr>rt_identity := i\<rparr>) = mirrors r"
  "mirrors (r\<lparr>rt_findings := reg\<rparr>) = mirrors r" "mirrors (r\<lparr>rt_applications := m\<rparr>) = mirrors r"
  "mirrors (r\<lparr>rt_plans := ps\<rparr>) = mirrors r" "mirrors (r\<lparr>rt_ledger := l\<rparr>) = mirrors r" "mirrors (r\<lparr>rt_open := b\<rparr>) = mirrors r"
  by (simp_all add: mirrors_def)

lemma mirrors_on_store:
  assumes "mirrors r" "\<And>d. same_definitions d (snd (call d))"
  shows "mirrors (snd (on_store call r))"
proof (cases "rt_store r")
  case None
  then show ?thesis using assms(1) by (simp add: on_store_def)
next
  case (Some d)
  then show ?thesis using assms(1) assms(2)[of d]
    by (cases "call d") (auto simp: on_store_def mirrors_def same_definitions_def)
qed

lemmas then_do_mirrors = then_do_keeps[where P = mirrors]

lemma append_lineage_mirrors:
  assumes "mirrors r"
  shows "mirrors (snd (append_lineage io kind f p i fence dg reason sev now r))"
proof (cases "id_valid (next_sequence (rt_lineage r)) \<and> rt_store r \<noteq> None")
  case False
  then show ?thesis
    using assms by (auto simp: append_lineage_def Let_def on_store_none mirrors_def)
next
  case True
  then obtain d where d: "rt_store r = Some d" by blast
  define e where "e = \<lparr>lr_id = next_sequence (rt_lineage r), lr_sequence = next_sequence (rt_lineage r), lr_recorded_at = now,
    lr_kind = kind, lr_finding = f, lr_plan = p, lr_intent = i, lr_fence = fence, lr_subject_digest = dg, lr_reason = reason,
    lr_severity = sev\<rparr>"
  obtain st d' where c: "store_append_lineage io e d = (st, d')" by fastforce
  have m: "ds_limits d = rt_limits r" "ss_topology (ds_state d) = rt_topology r" "ss_policy (ds_state d) = rt_policy r"
    "ss_lineage (ds_state d) = rt_lineage r" using assms d by (simp_all add: mirrors_def)
  have "ds_limits d' = ds_limits d \<and> ss_topology (ds_state d') = ss_topology (ds_state d) \<and> ss_policy (ds_state d') = ss_policy (ds_state d) \<and>
    ss_lineage (ds_state d') = (if is_ok st then trim_front (max_retained_lineage (ds_limits d)) (ss_lineage (ds_state d) @ [e])
      else ss_lineage (ds_state d))"
    using c unfolding store_append_lineage_def by (auto split: if_splits elim!: commit_state)
  then show ?thesis
    using True m by (auto simp: append_lineage_def Let_def e_def[symmetric] on_store_def d c mirrors_def)
qed

lemma commit_fence_mirrors: "mirrors r \<Longrightarrow> mirrors (snd (commit_fence io i subject now r))"
  unfolding commit_fence_def
  by (rule then_do_mirrors)
    (auto simp: store_keeps fence_live_def split: prod.split intro!: mirrors_on_store append_lineage_mirrors)

lemma advance_mirrors:
  assumes "mirrors r"
  shows "mirrors (snd (advance_forwarding io g now r))" "mirrors (snd (advance_fabric_epoch io g now r))"
    "mirrors (snd (advance_epoch io now r))"
  using assms by (auto simp: advance_forwarding_def advance_fabric_epoch_def advance_epoch_def Let_def
      split: option.split intro!: commit_fence_mirrors)

lemma canonicalize_idempotent:
  assumes "canonicalize_topology d l = ok t"
  shows "canonicalize_topology t l = ok t"
  by (rule canonicalize_permute[OF assms]) (simp_all add: canonicalize_okD[OF assms])

lemma set_topology_mirrors:
  assumes "mirrors r"
  shows "mirrors (snd (set_topology io t now r))"
proof (cases "r_value (canonicalize_topology t (rt_limits r))")
  case None
  then show ?thesis using assms by (simp add: set_topology_def Let_def)
next
  case (Some def)
  then have ok: "canonicalize_topology t (rt_limits r) = ok def"
    using canonicalize_cases[of t "rt_limits r"] by auto
  obtain st x where os: "on_store (store_set_topology (io 0) def) r = (st, x)" by fastforce
  have "(is_ok st \<longrightarrow> mirrors (x\<lparr>rt_topology := Some def\<rparr>)) \<and> (\<not> is_ok st \<longrightarrow> mirrors x)"
  proof (cases "rt_store r")
    case None
    then show ?thesis using os by (auto simp: on_store_none mirrors_def)
  next
    case (Some d)
    have m: "ds_limits d = rt_limits r" "ss_topology (ds_state d) = rt_topology r" "ss_policy (ds_state d) = rt_policy r"
      "ss_lineage (ds_state d) = rt_lineage r" using assms Some by (simp_all add: mirrors_def)
    obtain d' where c: "store_set_topology (io 0) def d = (st, d')" and x: "x = r\<lparr>rt_store := Some d'\<rparr>"
      using os Some by (auto simp: on_store_def split: prod.splits)
    have "ds_limits d' = ds_limits d \<and> ss_policy (ds_state d') = ss_policy (ds_state d) \<and>
      ss_lineage (ds_state d') = ss_lineage (ds_state d) \<and>
      ss_topology (ds_state d') = (if is_ok st then Some def else ss_topology (ds_state d))"
      using c canonicalize_idempotent[OF ok] m(1) unfolding store_set_topology_def
      by (auto simp: Let_def split: if_splits elim!: commit_state)
    then show ?thesis using m by (simp add: x mirrors_def)
  qed
  then show ?thesis
    using assms Some os by (auto simp: set_topology_def Let_def intro!: commit_fence_mirrors)
qed

lemma set_policy_mirrors:
  assumes "mirrors r"
  shows "mirrors (snd (set_policy io p now r))"
proof -
  obtain st x where os: "on_store (store_set_policy (io 0) p) r = (st, x)" by fastforce
  have x: "(is_ok st \<longrightarrow> mirrors (x\<lparr>rt_policy := Some p\<rparr>)) \<and> (\<not> is_ok st \<longrightarrow> mirrors x)"
  proof (cases "rt_store r")
    case None
    then show ?thesis using os by (auto simp: on_store_none mirrors_def)
  next
    case (Some d)
    have m: "ds_limits d = rt_limits r" "ss_topology (ds_state d) = rt_topology r" "ss_policy (ds_state d) = rt_policy r"
      "ss_lineage (ds_state d) = rt_lineage r" using assms Some by (simp_all add: mirrors_def)
    obtain d' where c: "store_set_policy (io 0) p d = (st, d')" and x: "x = r\<lparr>rt_store := Some d'\<rparr>"
      using os Some by (auto simp: on_store_def split: prod.splits)
    have "ds_limits d' = ds_limits d \<and> ss_topology (ds_state d') = ss_topology (ds_state d) \<and>
      ss_lineage (ds_state d') = ss_lineage (ds_state d) \<and>
      ss_policy (ds_state d') = (if is_ok st then Some p else ss_policy (ds_state d))"
      using c unfolding store_set_policy_def by (auto simp: Let_def split: if_splits elim!: commit_state)
    then show ?thesis using m by (simp add: x mirrors_def)
  qed
  have "mirrors (snd (then_do (on_store (store_advance_fence (io 1) f) y) (\<lambda>r. (status_ok, fence_live now r))))"
    if "mirrors y" for y f
    by (rule then_do_mirrors)
      (auto simp: store_keeps fence_live_def that split: prod.split intro!: mirrors_on_store)
  then show ?thesis using assms os x by (auto simp: set_policy_def Let_def)
qed

lemma commit_finding_mirrors:
  assumes "mirrors r"
  shows "mirrors (snd (commit_finding io f now r))"
  unfolding commit_finding_def
  by (rule then_do_mirrors)
    (auto simp: store_keeps assms split: prod.split intro!: mirrors_on_store then_do_mirrors append_lineage_mirrors)

lemma finding_mirrors:
  assumes "mirrors r"
  shows "mirrors (snd (publish_finding io a now r))" "mirrors (snd (runtime_plan io a now r))"
    "mirrors (snd (withdraw_finding io k reason now detail r))"
proof -
  show "mirrors (snd (publish_finding io a now r))"
    using assms by (auto simp: publish_finding_def refuse_finding_def commit_finding_mirrors split: option.split)
  show "mirrors (snd (runtime_plan io a now r))"
    using assms by (auto simp: runtime_plan_def attach_to_finding_def Let_def split: option.split
        intro!: then_do_mirrors append_lineage_mirrors)
  show "mirrors (snd (withdraw_finding io k reason now detail r))"
    using assms by (auto simp: withdraw_finding_def store_keeps split: prod.split
        intro!: then_do_mirrors append_lineage_mirrors mirrors_on_store)
qed

lemma intent_mirrors:
  assumes "mirrors r"
  shows "mirrors (snd (authorize_containment io k grant now lease targets r))" "mirrors (snd (record_acknowledgement io ack now r))"
    "mirrors (snd (record_verified_effect io i e now r))"
proof -
  have o: "mirrors (snd (record_outcome sio now a state code detail kind intent subject sev x))" if "mirrors x"
    for sio a state code detail kind intent subject sev x
    using that by (auto simp: record_outcome_def split: prod.split intro!: then_do_mirrors append_lineage_mirrors)
  show "mirrors (snd (authorize_containment io k grant now lease targets r))"
    using assms by (auto simp: authorize_containment_def authorize_targets_def issue_intent_def refuse_intent_def Let_def
        split: option.split intro!: then_do_mirrors append_lineage_mirrors)
  show "mirrors (snd (record_acknowledgement io ack now r))"
    using assms o by (auto simp: record_acknowledgement_def split: option.split)
  show "mirrors (snd (record_verified_effect io i e now r))"
    using assms o by (auto simp: record_verified_effect_def Let_def split: option.split)
qed

lemma runtime_step_mirrors:
  assumes "runtime_step r r'" "mirrors r"
  shows "mirrors r'"
  using assms(1)
proof cases
  case (forwarding io g now st)
  then show ?thesis using advance_mirrors(1)[OF assms(2), of io g now] by simp
next
  case (fabric_epoch io g now st)
  then show ?thesis using advance_mirrors(2)[OF assms(2), of io g now] by simp
next
  case (epoch io now st)
  then show ?thesis using advance_mirrors(3)[OF assms(2), of io now] by simp
next
  case (topology io t now st)
  then show ?thesis using set_topology_mirrors[OF assms(2), of io t now] by simp
next
  case (policy io p now st)
  then show ?thesis using set_policy_mirrors[OF assms(2), of io p now] by simp
next
  case closing
  then show ?thesis using assms(2) by (auto simp: runtime_close_def store_keeps intro!: mirrors_on_store)
qed (use assms(2) finding_mirrors intent_mirrors in
    \<open>auto simp: submit_observation_def clear_evidence_def detect_def split: prod.split option.split\<close>)

lemma runtime_open_mirrors: "runtime_open io c = ok r \<Longrightarrow> mirrors r"
  by (elim runtime_open_cases) (auto simp: mirrors_def memory_runtime_def restore_runtime_def blank_runtime_def Let_def
      dest: opened_store_ok(2))

interpretation mirror_machine: invariant_machine runtime_start runtime_step mirrors
  by unfold_locales (auto simp: runtime_start_def runtime_open_mirrors runtime_step_mirrors)

section \<open>Restarting the runtime\<close>

lemma restart_restores:
  assumes m: "mirrors r" "rt_store r = Some d" and doc: "document_ok d" "roomy d" "torn_tail q"
    and opened: "runtime_open io c = ok r'" "rc_limits c = rt_limits r" "rc_store_path c \<noteq> []"
    and read: "oi_inspected io = None" "oi_content io = Some (ok (ds_file d @ q))"
  shows "rt_topology r' = rt_topology r" "rt_policy r' = rt_policy r" "rt_lineage r' = rt_lineage r"
    "fv_boot (rt_fence r') \<notin> br_boot ` set (ss_boot_ledger (ds_state d))"
proof -
  have l: "ds_limits d = rc_limits c" using m opened(2) by (simp add: mirrors_def)
  obtain d' where o: "open_or_create io (rc_store_path c) (rc_limits c) (rc_producer c) = ok d'"
    and r': "r' = finish_runtime (restore_runtime c d')"
    using opened(1,3) by (elim runtime_open_cases) auto
  have "open_document io (ds_limits d) (rc_store_path c) (rc_producer c) (ds_file d @ q) = ok d'"
    using o read by (auto simp: l open_or_create_def split: if_splits)
  from reopen_recovers[OF doc(1,3,2) this] obtain b g where b: "mint_boot (rc_producer c) (oi_now io) (ds_state d) = Some b"
    and d': "ds_state d' = open_state b ((ds_state d)\<lparr>ss_store_generation := g\<rparr>)" "pi_boot (ds_identity d') = br_boot b" by blast
  show "rt_topology r' = rt_topology r" "rt_policy r' = rt_policy r" "rt_lineage r' = rt_lineage r"
    using m by (simp_all add: r' d' restore_runtime_def Let_def open_state_def mirrors_def)
  have boot: "fv_boot (rt_fence r') = pi_boot (ds_identity d')"
    by (simp_all add: r' restore_runtime_def Let_def restored_fence_def split: option.split)
  show "fv_boot (rt_fence r') \<notin> br_boot ` set (ss_boot_ledger (ds_state d))"
    using mint_boot_fresh(1)[OF b] by (auto simp: boot d')
qed

end
