(* ===== verification/Spec_Core.thy ===== *)
theory Spec_Core
  imports Core
begin

text \<open>
  The properties of the shared primitives: enumerations, identities, checked arithmetic, digests,
  fence vectors and explanations. Each rests on the lemmas of the theory that models the code.
\<close>

section \<open>Enumerations and identities\<close>

text \<open>Every enumerator survives the trip through its raw byte and through its name. The wire and
  the journal store raw bytes and the topology text names, so a reader gets back what was written.\<close>

theorem enums_roundtrip:
  "enum_from_u32 values_reason_code (ucast (enum_raw values_reason_code code)) = Some code \<and>
   enum_parse name_reason_code values_reason_code (name_reason_code code) = Some code \<and>
   enum_from_u32 values_outcome (ucast (enum_raw values_outcome oc)) = Some oc \<and>
   enum_parse name_outcome values_outcome (name_outcome oc) = Some oc \<and>
   enum_from_u32 values_finding_state (ucast (enum_raw values_finding_state fs)) = Some fs \<and>
   enum_parse name_finding_state values_finding_state (name_finding_state fs) = Some fs \<and>
   enum_from_u32 values_hop_resolution (ucast (enum_raw values_hop_resolution hr)) = Some hr \<and>
   enum_parse name_hop_resolution values_hop_resolution (name_hop_resolution hr) = Some hr"
  by (simp add: reason_code.from_raw reason_code.parse_name outcome.from_raw outcome.parse_name
      finding_state.from_raw finding_state.parse_name hop_resolution.from_raw hop_resolution.parse_name)

text \<open>The identity parser accepts exactly the texts of one to twenty decimal digits whose value is
  a non-zero 64-bit number, and answers that number; nothing wraps.\<close>

theorem id_parse_iff:
  "id_parse t = Some v \<longleftrightarrow> t \<noteq> [] \<and> length t \<le> 20 \<and> list_all is_digit t \<and>
     dec_value t < 2 ^ 64 \<and> unat v = dec_value t \<and> v \<noteq> 0"
proof -
  have "id_parse t = Some v \<longleftrightarrow> t \<noteq> [] \<and> length t \<le> 20 \<and>
      (\<exists>n. parse_digits 0 t = Some n \<and> n \<noteq> 0 \<and> v = word_of_nat n)"
    by (auto simp: id_parse_def split: option.splits)
  also have "\<dots> \<longleftrightarrow> t \<noteq> [] \<and> length t \<le> 20 \<and> list_all is_digit t \<and>
      dec_value t \<le> u64_max \<and> dec_value t \<noteq> 0 \<and> v = word_of_nat (dec_value t)"
    by (auto simp: parse_digits_iff[of 0, simplified])
  also have "\<dots> \<longleftrightarrow> t \<noteq> [] \<and> length t \<le> 20 \<and> list_all is_digit t \<and>
     dec_value t < 2 ^ 64 \<and> unat v = dec_value t \<and> v \<noteq> 0"
  proof -
    have "unat v = n \<longleftrightarrow> v = word_of_nat n" if "n < 2 ^ 64" for n
      using that by (simp add: word_unat_eq_iff unat_of_nat)
    moreover have "dec_value t \<le> u64_max \<longleftrightarrow> dec_value t < 2 ^ 64" by (rule iffI) (simp_all add: u64_max_def)
    moreover have "unat v = 0 \<longleftrightarrow> v = 0" by (rule unat_eq_0)
    ultimately show ?thesis by metis
  qed
  finally show ?thesis .
qed

text \<open>Printing an identity and parsing the text gives the identity back, but for the absent
  identity 0, whose text is refused.\<close>

theorem id_text_roundtrip:
  "id_parse (id_to_string v) = (if v = 0 then None else Some v)"
proof -
  have d: "list_all is_digit (id_to_string v)" "dec_value (id_to_string v) = unat v" "id_to_string v \<noteq> []"
    using dec_digits_value[of "unat v"] by (simp_all add: id_to_string_def)
  have lt: "unat v < 2 ^ 64" using unsigned_less[of v, where ?'a = nat] by simp
  then have len: "length (id_to_string v) \<le> 20"
    using length_dec_digits[of "unat v" 20] by (simp add: id_to_string_def)
  have "id_parse (id_to_string v) = Some w \<longleftrightarrow> w = v \<and> v \<noteq> 0" for w
    unfolding id_parse_iff using d len lt by (auto simp: word_unat_eq_iff)
  then show ?thesis by (cases "id_parse (id_to_string v)") auto
qed

section \<open>Checked arithmetic\<close>

lemma unat_max_word: "unat (- 1 :: 'a::len word) = 2 ^ LENGTH('a) - 1"
  by (simp add: unsigned_minus_1_eq_mask mask_eq_exp_minus_1)

lemma max_minus_less: "- 1 - b < a \<longleftrightarrow> 2 ^ LENGTH('a) \<le> unat a + unat b" for a b :: "'a::len word"
proof -
  have "unat (- 1 - b) = 2 ^ LENGTH('a) - 1 - unat b" by (simp add: unat_sub unat_max_word)
  moreover have "unat b < 2 ^ LENGTH('a)" using unsigned_less[of b, where ?'a = nat] .
  ultimately show ?thesis unfolding word_less_nat_alt by arith
qed

text \<open>Checked addition and multiplication answer exactly when the mathematical result fits the
  width, and then it is that result.\<close>

theorem checked_arithmetic_exact:
  "checked_add_u64 a b = (if unat a + unat b < 2 ^ 64 then Some (word_of_nat (unat a + unat b)) else None) \<and>
   checked_mul_u64 a b = (if unat a * unat b < 2 ^ 64 then Some (word_of_nat (unat a * unat b)) else None) \<and>
   checked_add_u32 c d = (if unat c + unat d < 2 ^ 32 then Some (word_of_nat (unat c + unat d)) else None)"
proof (intro conjI)
  show "checked_add_u64 a b = (if unat a + unat b < 2 ^ 64 then Some (word_of_nat (unat a + unat b)) else None)"
    using max_minus_less[of b a] by (simp add: checked_add_u64_def not_less)
  show "checked_add_u32 c d = (if unat c + unat d < 2 ^ 32 then Some (word_of_nat (unat c + unat d)) else None)"
    using max_minus_less[of d c] by (simp add: checked_add_u32_def not_less)
  have "a \<noteq> 0 \<and> b > (- 1) div a \<longleftrightarrow> \<not> unat a * unat b < 2 ^ 64"
  proof (cases "a = 0")
    case False
    then have "unat ((- 1) div a) < unat b \<longleftrightarrow> 2 ^ 64 - 1 < unat b * unat a"
      using div_less_iff_less_mult[of "unat a" "2 ^ 64 - 1" "unat b"]
      by (simp add: unat_div unat_max_word unat_gt_0)
    with False show ?thesis by (auto simp: word_less_nat_alt mult.commute)
  qed simp
  then show "checked_mul_u64 a b = (if unat a * unat b < 2 ^ 64 then Some (word_of_nat (unat a * unat b)) else None)"
    by (auto simp: checked_mul_u64_def)
qed

section \<open>Digests\<close>

text \<open>Hashing a message in pieces, whatever the pieces, is the reference SHA-256 of the whole: the
  padded message cut into 64-byte blocks and folded through the compression function.\<close>

theorem sha_streaming_is_reference:
  "sha256_segments segments = sha_reference (concat segments)"
  using sha_finish_reference[OF sha_represents_segments[OF sha_represents_init, of segments]]
  by (simp add: sha256_segments_def)

text \<open>The hexadecimal text of a digest parses back to the digest, and whatever parses is a digest
  of the full length.\<close>

theorem digest_hex_roundtrip:
  assumes "length d = k_digest_bytes"
  shows "from_hex (to_hex d) = Some d \<and> length (to_hex d) = 64 \<and>
    (case from_hex text of None \<Rightarrow> True | Some d' \<Rightarrow> length d' = k_digest_bytes)"
  using from_hex_to_hex[OF assms] assms by (auto simp: k_digest_bytes_def from_hex_length split: option.split)

theorem digest_hex_roundtrip_witness:
  "from_hex (to_hex (replicate 32 0xAB)) = Some (replicate 32 0xAB)"
  using digest_hex_roundtrip[of "replicate 32 0xAB" "[]"] by (simp add: k_digest_bytes_def)

section \<open>Fences\<close>

text \<open>The fence cause is None for equal fences only, so no advance of any generation passes as
  current, and the order of fences is a strict linear order that agrees with equality.\<close>

theorem fence_discrimination:
  "(fence_cause candidate current = Cause_None \<longleftrightarrow> candidate = current) \<and>
   \<not> fence_less candidate candidate \<and>
   (fence_less candidate current \<or> candidate = current \<or> fence_less current candidate) \<and>
   \<not> (fence_less candidate current \<and> fence_less current candidate)"
  by (auto simp: fence_less_key)

section \<open>Explanations\<close>

text \<open>Below its capacity an explanation depends on the reasons added and not on the order they are
  added in, and it drops none.\<close>

theorem explanation_order_independent:
  assumes "mset reasons = mset reasons'" "length reasons \<le> unat m"
  shows "ex_add_all reasons (new_explanation m) = ex_add_all reasons' (new_explanation m) \<and>
    ex_dropped (ex_add_all reasons (new_explanation m)) = 0 \<and>
    length (ex_reasons (ex_add_all reasons (new_explanation m))) = length reasons"
proof -
  let ?e = "ex_add_all reasons (new_explanation m)" and ?e' = "ex_add_all reasons' (new_explanation m)"
  have new: "ex_reasons (new_explanation m) = []" "ex_max (new_explanation m) = m" "ex_dropped (new_explanation m) = 0"
    by (simp_all add: new_explanation_def)
  have len: "length reasons' = length reasons" using assms(1) by (metis size_mset)
  have e: "mset (ex_reasons ?e) = image_mset bounded_reason (mset reasons)" "ex_max ?e = m" "ex_dropped ?e = 0"
    using ex_add_all_mset[of "new_explanation m" reasons] assms(2) by (simp_all add: new)
  have e': "mset (ex_reasons ?e') = image_mset bounded_reason (mset reasons')" "ex_max ?e' = m" "ex_dropped ?e' = 0"
    using ex_add_all_mset[of "new_explanation m" reasons'] assms(2) by (simp_all add: new len)
  have "ex_reasons ?e = ex_reasons ?e'"
  proof (rule sorted_key_mset_unique)
    show "sorted (map reason_key (ex_reasons ?e))" "sorted (map reason_key (ex_reasons ?e'))"
      using explanation_ok_add_all[OF explanation_ok_new] unfolding explanation_ok_def by blast+
    show "mset (ex_reasons ?e) = mset (ex_reasons ?e')" unfolding e(1) e'(1) assms(1) ..
  qed
  moreover have "length (ex_reasons ?e) = length reasons"
    using arg_cong[OF e(1), of size] by simp
  ultimately show ?thesis using e(2,3) e'(2,3) by (auto intro: explanation.equality)
qed

theorem explanation_order_independent_witness:
  "ex_add_all [(R_RequestAccepted, ''a'', ''''), (R_LimitsExceeded, ''b'', '''')] (new_explanation 4) =
   ex_add_all [(R_LimitsExceeded, ''b'', ''''), (R_RequestAccepted, ''a'', '''')] (new_explanation 4)"
  using explanation_order_independent[of "[(R_RequestAccepted, ''a'', ''''), (R_LimitsExceeded, ''b'', '''')]"
      "[(R_LimitsExceeded, ''b'', ''''), (R_RequestAccepted, ''a'', '''')]" 4] by simp

text \<open>An explanation built by any number of insertions stays sorted and within its capacity, and
  its texts within their byte bounds.\<close>

theorem explanation_bounded: "explanation_ok (ex_add_all reasons (new_explanation m))"
  by (rule explanation_ok_add_all) simp

end
