(* ===== verification/Spec_Detection.thy ===== *)
theory Spec_Detection
  imports Example_Fabric Exclusion
begin

text \<open>
  The properties of definitions, evidence and detection. The witnesses instantiate them on the
  fabric of \<open>Example_Fabric\<close>.
\<close>

section \<open>Definitions\<close>

text \<open>C40: a definition the canonicaliser accepts is well formed: the generation and every identity are
  present, resources, selectors and edges are strictly ordered, every edge joins two declared
  resources of its domain over declared selectors, both indices agree with the edges, nothing was
  added or lost, and the configured bounds hold.\<close>

theorem canonicalize_wellformed:
  assumes "canonicalize_topology d l = ok t"
  shows "topology_ok t \<and> td_generation t = td_generation d \<and>
    mset (td_resources t) = mset (td_resources d) \<and> mset (td_edges t) = mset (td_edges d) \<and>
    mset (td_selectors t) = mset (td_selectors d) \<and>
    length (td_resources t) \<le> unat (max_resources l) \<and> length (td_edges t) \<le> unat (max_edges l) \<and>
    length (td_selectors t) \<le> unat (max_selectors l)"
  using canonicalize_okD[OF assms] by simp

theorem canonicalize_wellformed_witness:
  "topology_ok ring \<and> mset (td_edges ring) = mset (td_edges ring_definition)"
  using canonicalize_wellformed[OF ring_canonical] by simp

text \<open>The canonical form does not depend on the order in which resources, edges and selectors were
  inserted.\<close>

theorem canonicalize_order_independent:
  assumes "canonicalize_topology d l = ok t"
    and "td_generation d' = td_generation d" "mset (td_resources d') = mset (td_resources d)"
    and "mset (td_edges d') = mset (td_edges d)" "mset (td_selectors d') = mset (td_selectors d)"
  shows "canonicalize_topology d' l = ok t"
  by (rule canonicalize_permute[OF assms])

theorem canonicalize_order_independent_witness:
  "canonicalize_topology (demo_definition [3, 2, 1] [demo_edge 1 1 2 [10, 20], demo_edge 2 2 1 [10, 20]]) small_limits
     = ok ring"
  by (rule canonicalize_order_independent[OF ring_canonical])
     (simp_all add: ring_definition_def demo_definition_def empty_topology_def)

text \<open>On a well-formed definition the lookups are exact: a resource or a selector is found exactly
  when it is declared, and the out-edges of a resource are, in order, exactly the edges that leave
  it, although they are read from the compressed adjacency.\<close>

theorem lookups_exact:
  assumes "topology_ok t"
  shows "(find_resource t i = Some r \<longleftrightarrow> r \<in> set (td_resources t) \<and> rr_id r = i) \<and>
    (find_selector t i = Some s \<longleftrightarrow> s \<in> set (td_selectors t) \<and> ts_id s = i) \<and>
    out_edges t from = filter (\<lambda>k. fe_from (td_edges t ! k) = from) [0..<length (td_edges t)] \<and>
    (find_edge t j = Some e \<longrightarrow> e \<in> set (td_edges t) \<and> fe_id e = j)"
  using find_resource_iff[OF assms] find_selector_iff[OF assms] out_edges_exact[OF assms]
    find_edge_SomeD[OF assms] by blast

theorem lookups_exact_witness: "out_edges ring 2 = filter (\<lambda>k. fe_from (td_edges ring ! k) = 2) [0..<2] \<and> out_edges ring 2 = [1]"
proof -
  have "length (td_edges ring) = 2" by code_simp
  moreover have "out_edges ring 2 = [1]" by code_simp
  ultimately show ?thesis using lookups_exact[OF ring_ok] by metis
qed

text \<open>The duplicate check of edge identities compares neighbours in the order (from, to, identity)
  only. Two edges with identity 1 are refused when they are neighbours, but the same two are accepted
  when another edge sorts between them, and the accepted definition holds one identity twice.\<close>

theorem duplicate_edge_identity_accepted:
  "r_outcome (canonicalize_topology (demo_definition [1, 2]
      [demo_edge 1 1 2 [10], demo_edge 1 2 1 [10]]) small_limits) = Oc_AlreadyExists \<and>
   map_option (\<lambda>t. map fe_id (td_edges t)) (r_value (canonicalize_topology (demo_definition [1, 2, 3]
      [demo_edge 1 1 2 [10], demo_edge 1 2 1 [10], demo_edge 2 1 3 [10]]) small_limits)) = Some [1, 2, 1]"
  by (intro conjI) code_simp+

section \<open>Evidence\<close>

text \<open>Whatever is submitted, in whatever order, and however often the ledger is cleared by a restart,
  its three indices agree, every stored observation passed the structural checks and is at most at
  the high-water mark of its producer, and the global and per-edge bounds hold.\<close>

theorem ledger_history_ok:
  assumes "limits_are_sane l" "ledger_step\<^sup>*\<^sup>* (new_ledger l) g"
  shows "ledger_ok g"
  using ledger_machine.steps_inv[OF assms(2)] ledger_machine.inv_initial[of "new_ledger l"] assms(1)
  by (auto simp: ledger_start_def)

theorem ledger_history_ok_witness: "ledger_ok stale_ledger"
  unfolding stale_ledger_def by (rule ledger_history_ok[OF small_limits_sane submit_all_steps])

text \<open>A submission is accepted exactly when it is structurally sound, its identity is new, its
  sequence is beyond everything its producer said in that boot and epoch, and the ledger has room.
  An accepted observation is stored and nothing else is; a refused one leaves every observation,
  index and high-water mark as it was.\<close>

theorem submit_accepts_iff:
  assumes "ledger_ok g" "0 < max_observations_per_edge (el_limits g)"
  shows "(is_ok (fst (submit ob g)) \<longleftrightarrow> admissible ob g) \<and>
    (admissible ob g \<longrightarrow> ob \<in> set (el_observations (snd (submit ob g))) \<and>
       set (el_observations (snd (submit ob g))) \<subseteq> insert ob (set (el_observations g))) \<and>
    (\<not> admissible ob g \<longrightarrow> (\<exists>stats. snd (submit ob g) = g\<lparr>el_stats := stats\<rparr>))"
proof -
  have "ledger_core g" using assms(1) by (simp add: ledger_ok_def)
  then show ?thesis
    using submit_refused[of g ob] submit_accepted(1,3,4)[OF assms(1) _ assms(2), of ob] by auto
qed

theorem submit_accepts_iff_witness:
  "is_ok (fst (submit (demo_observation 3 1 1 2 Ev_Absent [10] 1) ring_ledger)) =
     admissible (demo_observation 3 1 1 2 Ev_Absent [10] 1) ring_ledger \<and>
   is_ok (fst (submit (demo_observation 3 1 1 2 Ev_Absent [10] 1) ring_ledger)) \<and>
   \<not> is_ok (fst (submit (demo_observation 2 1 1 2 Ev_Absent [10] 1) ring_ledger))"
proof -
  have "0 < max_observations_per_edge (el_limits ring_ledger)" by code_simp
  moreover have "is_ok (fst (submit (demo_observation 3 1 1 2 Ev_Absent [10] 1) ring_ledger))"
    "\<not> is_ok (fst (submit (demo_observation 2 1 1 2 Ev_Absent [10] 1) ring_ledger))" by code_simp+
  ultimately show ?thesis using submit_accepts_iff[OF ring_ledger_ok(1)] by metis
qed

text \<open>C17: a hop is proven open exactly when the definition does not close it, some exactly bound
  observation says that one of its selectors traverses it, and no exactly bound observation says
  that it does not; the proven selectors are exactly those so observed. The definition closes a hop only
  when an endpoint is administratively disabled or the link is down: an unknown administrative or link
  state does not stop exact evidence, although the comment at evidence.cpp:134-136 says that such a hop
  stays unproven (a finding).\<close>

theorem hop_proven_open_iff:
  assumes "topology_ok t" "ledger_ok g" "i < length (td_edges t)"
    and "find_resource t (fe_from (td_edges t ! i)) = Some source"
    and "find_resource t (fe_to (td_edges t ! i)) = Some target"
    and "obs = filter (\<lambda>ob. fo_edge ob = fe_id (td_edges t ! i)) (el_observations g)"
  shows "\<exists>h. resolve g t i current now = ok h \<and>
    (hr_resolution h = Hop_ProvenOpen \<longleftrightarrow>
      \<not> definition_closes source target (td_edges t ! i) \<and>
      (\<nexists>ob. exact_statement Ev_Absent obs current now ob) \<and>
      (\<exists>ob. exact_statement Ev_Present obs current now ob \<and>
         set (fo_selectors ob) \<inter> set (fe_selectors (td_edges t ! i)) \<noteq> {})) \<and>
    (hr_resolution h = Hop_ProvenOpen \<longrightarrow> (\<forall>s. s \<in> set (hr_effective h) \<longleftrightarrow>
      s \<in> set (fe_selectors (td_edges t ! i)) \<and>
      (\<exists>ob. exact_statement Ev_Present obs current now ob \<and> s \<in> set (fo_selectors ob))))"
proof -
  obtain h where h: "resolve g t i current now = ok h" using resolve_value[OF assms(3)] by blast
  then have "resolve_hop t i obs current now (el_limits g) = ok h"
    using resolve_spec[OF assms(2,3)] assms(6) by simp
  from resolve_hop_proven_open(1,2)[OF assms(1,3-5) this] h show ?thesis by blast
qed

theorem hop_proven_open_iff_witness:
  "\<exists>h. resolve ring_ledger ring 0 demo_fence 5 = ok h \<and> hr_resolution h = Hop_ProvenOpen \<and> 10 \<in> set (hr_effective h) \<and>
    (\<exists>ob. exact_statement Ev_Present (filter (\<lambda>ob. fo_edge ob = fe_id (td_edges ring ! 0)) (el_observations ring_ledger))
       demo_fence 5 ob)"
proof -
  have e: "0 < length (td_edges ring)" "find_resource ring (fe_from (td_edges ring ! 0)) = Some (demo_resource 1)"
    "find_resource ring (fe_to (td_edges ring ! 0)) = Some (demo_resource 2)"
    and r: "map_option hr_resolution (r_value (resolve ring_ledger ring 0 demo_fence 5)) = Some Hop_ProvenOpen"
    "map_option hr_effective (r_value (resolve ring_ledger ring 0 demo_fence 5)) = Some [10]" by code_simp+
  obtain h where h: "resolve ring_ledger ring 0 demo_fence 5 = ok h"
    using hop_proven_open_iff[OF ring_ok ring_ledger_ok(1) e refl, of demo_fence 5] by blast
  with r have "hr_resolution h = Hop_ProvenOpen" "hr_effective h = [10]" by simp_all
  with h show ?thesis
    using hop_proven_open_iff[OF ring_ok ring_ledger_ok(1) e refl, of demo_fence 5] by auto
qed

lemma same_observations:
  assumes "ledger_ok g" "ledger_ok g'" "set (el_observations g') = set (el_observations g)"
  shows "el_observations g' = el_observations g"
  using assms strict_sorted_key_unique[of observation_key "el_observations g'" "el_observations g"]
  by (simp add: ledger_ok_def ledger_core_def)

text \<open>Hops are resolved from the set of stored observations: two ledgers with the same observations,
  however they got them, resolve every hop alike.\<close>

theorem resolution_order_independent:
  assumes "ledger_ok g" "ledger_ok g'" "set (el_observations g') = set (el_observations g)"
    and "el_limits g' = el_limits g"
  shows "resolve_all g' t current now = resolve_all g t current now"
proof -
  have "resolve g' t i current now = resolve g t i current now" if "i < length (td_edges t)" for i
    using same_observations[OF assms(1-3)] assms(4) resolve_spec[OF assms(1) that] resolve_spec[OF assms(2) that] by simp
  then show ?thesis unfolding resolve_all_ok by (intro arg_cong[of _ _ ok] map_cong) simp_all
qed

theorem resolution_order_independent_witness:
  "resolve_all (submit_all [demo_observation 2 2 2 1 Ev_Present [20] 2, demo_observation 3 1 1 2 Ev_Present [10] 2])
     ring demo_fence 5 =
   resolve_all (submit_all [demo_observation 2 2 2 1 Ev_Present [20] 2, demo_observation 2 2 2 1 Ev_Present [20] 2,
     demo_observation 3 1 1 2 Ev_Present [10] 2]) ring demo_fence 5"
proof (rule resolution_order_independent[OF submit_all_ok submit_all_ok])
qed code_simp+

section \<open>Witnesses\<close>

text \<open>C14: the independent validator accepts a witness exactly when it is a loop: a non-empty cycle of
  distinct resources in canonical rotation, every hop of which is, for every named selector, an
  enabled edge proven open by exactly bound evidence, with the fence, the evidence digest and the
  cross-domain mark that the definition and the ledger give. It never fails to answer.\<close>

theorem validator_exact:
  assumes "topology_ok t" "ledger_ok g"
  shows "\<exists>v. validate_witness w t g current now l = ok v \<and>
    (wv_valid v \<longleftrightarrow> loop_at t g current now (lw_cycle w) (lw_hops w) (lw_selectors w) \<and>
       canonical_witness t g current l w) \<and>
    (wv_valid v \<longleftrightarrow> wv_outcome v = Loop_LoopConfirmed)"
  using validate_witness_ok[of w t g current now l] validate_witness_valid_iff[OF assms]
    validate_witness_outcome by blast

theorem validator_exact_witness:
  "loop_at ring ring_ledger demo_fence 5 [1, 2] [1, 2] [10]"
proof -
  obtain v where "validate_witness (with_evidence_digest ring_ledger ring_witness) ring ring_ledger demo_fence 5 small_limits = ok v"
      "wv_valid v" using ring_witness_valid by blast
  with validator_exact[OF ring_ok ring_ledger_ok(1), of "with_evidence_digest ring_ledger ring_witness" demo_fence 5 small_limits]
  show ?thesis by (auto simp: with_evidence_digest_def ring_witness_def)
qed

section \<open>Detection\<close>

text \<open>C18: the existence probe is exact: it finds a cycle among the edges of a strength class exactly when
  there is one. Kahn's elimination terminates on every input.\<close>

theorem probe_exact:
  assumes "edges_in_range (cp_node_count p) (cp_edges p)"
  shows "has_cycle highest p \<longleftrightarrow> \<not> acyclic (edge_rel (usable_edges highest (cp_edges p)))"
  using has_cycle_iff[OF assms] by (auto simp: acyclic_def)

theorem probe_exact_witness:
  "\<not> acyclic (edge_rel [\<lparr>pe_from = 0, pe_to = 1, pe_klass = Class_Proven\<rparr>, \<lparr>pe_from = 1, pe_to = 0, pe_klass = Class_Proven\<rparr>])"
proof -
  let ?p = "\<lparr>cp_node_count = 2, cp_edges = [\<lparr>pe_from = 0, pe_to = 1, pe_klass = Class_Proven\<rparr>,
     \<lparr>pe_from = 1, pe_to = 0, pe_klass = Class_Proven\<rparr>]\<rparr>"
  have "edges_in_range (cp_node_count ?p) (cp_edges ?p)" by (simp add: edges_in_range_def)
  moreover have "has_cycle Class_Proven ?p" by code_simp
  ultimately have "\<not> acyclic (edge_rel (usable_edges Class_Proven (cp_edges ?p)))" using probe_exact by blast
  then show ?thesis by (simp add: usable_edges_def)
qed

lemma loop_excluded:
  assumes "topology_ok t" "distinct (map fe_id (td_edges t))" "ledger_ok g"
    and "acyclic (carry_rel Class_Proven t (resolved_hops g t fence now) s)"
    and "loop_at t g fence now cycle hops selectors"
  shows "s \<notin> set selectors"
  using loop_at_cyclic[OF assms(1-3,5)] assms(4) by metis

text \<open>C1: when the detector answers NO_LOOP on a well-formed definition with distinct edge identities,
  then for every selector in scope each cycle of admitting edges passes a hop excluded for it, either
  closed for it by the definition or by exactly bound evidence (denied, or affirmed for other
  selectors only) or, without any exactly bound statement, merely left out because the stale
  statements about it name other selectors; when no statement is stale, the hops that are not closed
  form no cycle; and in any case the evidence contains no loop for it. The narrowing by stale
  statements is what the code does (evidence.cpp 252-262), against the README, and is a finding.\<close>

theorem no_loop_sound:
  assumes "topology_ok t" "distinct (map fe_id (td_edges t))" "ledger_ok g"
    and "assess l (question t g fence now scope) = ok a" "la_outcome a = Loop_NoLoop"
    and "scope = [] \<or> s \<in> set scope"
  shows "acyclic (hop_rel t (\<lambda>i. \<not> closed_for t g fence now i s \<and> \<not> hidden_by_stale t g fence now i s) s) \<and>
    ((\<forall>ob \<in> set (el_observations g). \<not> stale_present fence now ob) \<longrightarrow>
       acyclic (hop_rel t (\<lambda>i. \<not> closed_for t g fence now i s) s)) \<and>
    (\<forall>cycle hops selectors. loop_at t g fence now cycle hops selectors \<longrightarrow> s \<notin> set selectors)"
proof -
  have oc: "la_outcome a \<in> {Loop_NoLoop, Loop_Unknown, Loop_Conflict}" using assms(5) by simp
  note c = assess_conclusive[OF assms(1,4) oc]
  have ac: "acyclic (carry_rel k t (resolved_hops g t fence now) s)" if "k \<in> {Class_Proven, Class_Conflicted}" for k
    using acyclic_in_scope[OF assms(1,2) c(5) _ assms(6)] c(1) c(2)[OF assms(5)] that by auto
  from ac[of Class_Conflicted]
  have "acyclic (hop_rel t (\<lambda>i. \<not> closed_for t g fence now i s \<and> \<not> hidden_by_stale t g fence now i s) s)"
    by (simp add: carry_rel_hop_rel[OF assms(1,3)])
  moreover from this not_hidden[of g fence now t]
  have "acyclic (hop_rel t (\<lambda>i. \<not> closed_for t g fence now i s) s)"
    if "\<forall>ob \<in> set (el_observations g). \<not> stale_present fence now ob" using that by simp
  ultimately show ?thesis
    using ac[of Class_Proven] loop_excluded[OF assms(1-3), of fence now s] by auto
qed

definition denied_ledger :: evidence_ledger where
  "denied_ledger = submit_all [demo_observation 1 1 1 2 Ev_Absent [10] 1]"

theorem no_loop_sound_witness:
  "acyclic (hop_rel ring (\<lambda>i. \<not> closed_for ring denied_ledger demo_fence 5 i 10) 10) \<and>
   acyclic (hop_rel ring (\<lambda>i. \<not> closed_for ring stale_ledger demo_fence 5 i 10 \<and>
     \<not> hidden_by_stale ring stale_ledger demo_fence 5 i 10) 10)"
proof -
  have oc: "la_outcome (finalize (ring_search denied_ledger)) = Loop_NoLoop"
    "la_outcome (finalize (ring_search stale_ledger)) = Loop_NoLoop" unfolding finalize_fields by code_simp+
  have "ledger_ok denied_ledger" unfolding denied_ledger_def by (rule submit_all_ok)
  moreover have "list_all (\<lambda>ob. \<not> stale_present demo_fence 5 ob) (el_observations denied_ledger)" by code_simp
  ultimately show ?thesis
    using no_loop_sound[OF ring_ok ring_edge_ids _ ring_assessment oc(1), of 10]
      no_loop_sound[OF ring_ok ring_edge_ids ring_ledger_ok(2) ring_assessment oc(2), of 10] by (simp add: list_all_iff)
qed

text \<open>C2: when the detector answers LOOP_CONFIRMED there is a witness, and every witness it returns is a
  loop of the evidence in canonical form; no other answer carries a witness.\<close>

theorem confirmed_sound:
  assumes "topology_ok t" "ledger_ok g" "assess l (question t g fence now scope) = ok a"
  shows "(la_outcome a = Loop_LoopConfirmed \<longleftrightarrow> la_witnesses a \<noteq> []) \<and>
    (\<forall>w \<in> set (la_witnesses a). loop_at t g fence now (lw_cycle w) (lw_hops w) (lw_selectors w) \<and>
       canonical_witness t g fence l w)"
  using assess_witnesses_sound[OF assms] assess_confirmed_witnesses[OF assms(3)] assess_okD(5)[OF assms(3)] by blast

theorem confirmed_sound_witness:
  "\<exists>w :: loop_witness. loop_at ring ring_ledger demo_fence 5 (lw_cycle w) (lw_hops w) (lw_selectors w)"
proof -
  have "la_outcome (finalize (ring_search ring_ledger)) = Loop_LoopConfirmed" unfolding finalize_fields by (rule ring_confirmed)
  with confirmed_sound[OF ring_ok ring_ledger_ok(1) ring_assessment] obtain w
    where "w \<in> set (la_witnesses (finalize (ring_search ring_ledger)))" by (metis list.set_sel(1))
  then have "loop_at ring ring_ledger demo_fence 5 (lw_cycle w) (lw_hops w) (lw_selectors w)"
    using confirmed_sound[OF ring_ok ring_ledger_ok(1) ring_assessment] by simp
  then show ?thesis by (rule exI)
qed

text \<open>C13: no answer but LOOP_CONFIRMED, INDETERMINATE, INVALID and STALE is given while the evidence
  proves a loop in scope: NO_LOOP, UNKNOWN and CONFLICT all exclude one. UNKNOWN and CONFLICT are only
  answered when a cycle through unproven or contradicted hops is possible.\<close>

theorem weak_answers_hide_no_loop:
  assumes "topology_ok t" "distinct (map fe_id (td_edges t))" "ledger_ok g"
    and "assess l (question t g fence now scope) = ok a"
    and "la_outcome a \<in> {Loop_NoLoop, Loop_Unknown, Loop_Conflict}"
  shows "(\<forall>cycle hops selectors. loop_at t g fence now cycle hops selectors \<longrightarrow>
      (\<forall>s \<in> set selectors. scope \<noteq> [] \<and> s \<notin> set scope)) \<and>
    (la_outcome a = Loop_Unknown \<longrightarrow> (\<exists>s. \<not> acyclic (carry_rel Class_Unproven t (resolved_hops g t fence now) s))) \<and>
    (la_outcome a = Loop_Conflict \<longrightarrow> (\<exists>s. \<not> acyclic (carry_rel Class_Conflicted t (resolved_hops g t fence now) s)))"
proof (intro conjI)
  note c = assess_conclusive[OF assms(1,4,5)]
  have "acyclic (carry_rel Class_Proven t (resolved_hops g t fence now) s)" if "scope = [] \<or> s \<in> set scope" for s
    by (rule acyclic_in_scope[OF assms(1,2) c(5,1) that])
  then show "\<forall>cycle hops selectors. loop_at t g fence now cycle hops selectors \<longrightarrow>
      (\<forall>s \<in> set selectors. scope \<noteq> [] \<and> s \<notin> set scope)"
    using loop_excluded[OF assms(1-3)] by metis
  show "la_outcome a = Loop_Unknown \<longrightarrow> (\<exists>s. \<not> acyclic (carry_rel Class_Unproven t (resolved_hops g t fence now) s))"
    "la_outcome a = Loop_Conflict \<longrightarrow> (\<exists>s. \<not> acyclic (carry_rel Class_Conflicted t (resolved_hops g t fence now) s))"
    using c(3,4) by (auto simp: cycle_at_def)
qed

theorem weak_answers_hide_no_loop_witness:
  "\<exists>s. \<not> acyclic (carry_rel Class_Unproven ring (resolved_hops (new_ledger small_limits) ring demo_fence 5) s)"
proof -
  have "la_outcome (finalize (ring_search (new_ledger small_limits))) = Loop_Unknown"
    unfolding finalize_fields by code_simp
  then show ?thesis
    using weak_answers_hide_no_loop[OF ring_ok ring_edge_ids new_ledger_ok ring_assessment] by blast
qed

text \<open>The ring: class 10 and class 20 are each left on one of its hops by the stale ledger.\<close>

lemma stale_ledger_unbound: "\<forall>ob \<in> set (el_observations stale_ledger). \<not> exactly_bound {ob} demo_fence 5 ob"
  unfolding list.pred_set[symmetric] by code_simp

lemma ring_statements:
  "statements_about ring stale_ledger 0 = [demo_observation 1 1 1 2 Ev_Present [10] 2]"
  "statements_about ring stale_ledger 1 = [demo_observation 2 2 2 1 Ev_Present [20] 2]"
  by code_simp+

lemma ring_edges: "td_edges ring = [demo_edge 1 1 2 [10, 20], demo_edge 2 2 1 [10, 20]]"
  by (simp add: ring_def)

lemma ring_hidden:
  "hidden_by_stale ring stale_ledger demo_fence 5 0 20" "hidden_by_stale ring stale_ledger demo_fence 5 1 10"
  by (simp_all add: hidden_by_stale_def no_exact_statement[OF stale_ledger_unbound])
    (simp_all add: ring_statements ring_statements(2)[unfolded One_nat_def] ring_edges stale_present_def demo_observation_def demo_fence_def demo_edge_def)

lemma acyclic_empty: "acyclic {}"
  by (simp add: acyclic_def)

lemma ring_stale_acyclic:
  "acyclic (hop_rel ring (\<lambda>i. P i \<and> \<not> hidden_by_stale ring stale_ledger demo_fence 5 i s) s)"
proof -
  have "hop_rel ring (\<lambda>i. P i \<and> \<not> hidden_by_stale ring stale_ledger demo_fence 5 i s) s \<subseteq>
      (if s = 10 then {(1, 2)} else {(2, 1)})"
    using ring_hidden by (auto simp: hop_rel_def ring_edges demo_edge_def less_Suc_eq)
  moreover have "acyclic (if s = 10 then {(1, 2)} else {(2, 1) :: u64 \<times> u64})" by (simp add: acyclic_empty)
  ultimately show ?thesis by (rule acyclic_subset[rotated])
qed

lemma ring_cyclic: "\<not> acyclic (hop_rel ring (\<lambda>i. \<not> disabled_by_definition ring i) 10)"
proof -
  have up: "find_resource ring r = Some q \<Longrightarrow> rr_admin q \<noteq> Admin_Disabled" for r q
    using find_resource_iff[OF ring_ok, of r q] by (auto simp: ring_def demo_resource_def)
  then have "\<not> disabled_by_definition ring i" if "i < 2" for i
    using that by (auto simp: disabled_by_definition_def ring_edges demo_edge_def less_Suc_eq numeral_2_eq_2)
  then have "(1, 2) \<in> hop_rel ring (\<lambda>i. \<not> disabled_by_definition ring i) 10"
    "(2, 1) \<in> hop_rel ring (\<lambda>i. \<not> disabled_by_definition ring i) 10"
    by (auto simp: hop_rel_def ring_edges demo_edge_def intro: exI[of _ 0] exI[of _ 1])
  then show ?thesis unfolding acyclic_def by (meson r_into_trancl' trancl_into_trancl)
qed

text \<open>C39: stale evidence is not treated as absent, although the README says that it is: let every
  observation be bound to another fence or generation, or expired, so that the evidence proves nothing. If
  the classes these stale statements name leave no cycle, a conclusive answer (LOOP_CONFIRMED, NO_LOOP,
  UNKNOWN or CONFLICT) is NO_LOOP; yet when the
  edges that admit a class in scope form a cycle that the definition does not close, a conclusive
  answer without any evidence is UNKNOWN.\<close>

theorem stale_evidence_hides_loop:
  assumes "topology_ok t" "distinct (map fe_id (td_edges t))" "ledger_ok g"
    and "\<forall>ob \<in> set (el_observations g). \<not> exactly_bound {ob} fence now ob"
    and "\<forall>s. acyclic (hop_rel t (\<lambda>i. \<not> disabled_by_definition t i \<and> \<not> hidden_by_stale t g fence now i s) s)"
    and "assess l (question t g fence now scope) = ok a" "la_outcome a \<in> {Loop_LoopConfirmed, Loop_NoLoop, Loop_Unknown, Loop_Conflict}"
    and "\<not> acyclic (hop_rel t (\<lambda>i. \<not> disabled_by_definition t i) s)" "scope = [] \<or> s \<in> set scope"
    and "assess l (question t (new_ledger l) fence now scope) = ok b"
    and "la_outcome b \<in> {Loop_LoopConfirmed, Loop_NoLoop, Loop_Unknown, Loop_Conflict}"
  shows "la_outcome a = Loop_NoLoop \<and> la_outcome b = Loop_Unknown"
proof
  let ?open = "\<lambda>g i s. \<not> closed_for t g fence now i s \<and> \<not> hidden_by_stale t g fence now i s"
  have ac: "acyclic (carry_rel k t (resolved_hops g t fence now) s)" for k s
    using assms(5) acyclic_subset[OF _ carry_rel_open[OF assms(1,3)]] closed_when_stale[OF assms(4)] by simp
  show "la_outcome a = Loop_NoLoop"
    using conclusive_cyclic[OF assms(1-3,6,7)] ac by blast
  have g: "ledger_ok (new_ledger l)" "el_observations (new_ledger l) = []" by (rule new_ledger_ok) (simp add: new_ledger_def)
  have nop: "hop_rel t (\<lambda>i. ?open (new_ledger l) i s) s = hop_rel t (\<lambda>i. \<not> disabled_by_definition t i) s" for s
    using closed_when_stale[of "new_ledger l" fence now t] not_hidden[of "new_ledger l" fence now t] g(2) by simp
  show "la_outcome b = Loop_Unknown"
    using unproven_answer[OF assms(1,2) g(1) _ assms(10,11,9)] assms(8) nop g(2) by simp
qed

theorem stale_evidence_hides_loop_witness:
  "la_outcome (finalize (ring_search stale_ledger)) = Loop_NoLoop \<and>
   la_outcome (finalize (ring_search (new_ledger small_limits))) = Loop_Unknown"
proof (rule stale_evidence_hides_loop[OF ring_ok ring_edge_ids ring_ledger_ok(2) _ _ ring_assessment _ _ _ ring_assessment])
  show "\<forall>ob \<in> set (el_observations stale_ledger). \<not> exactly_bound {ob} demo_fence 5 ob"
    unfolding list.pred_set[symmetric] by code_simp
  have c: "la_outcome (finalize (ring_search stale_ledger)) = Loop_NoLoop"
    "la_outcome (finalize (ring_search (new_ledger small_limits))) = Loop_Unknown" unfolding finalize_fields by code_simp+
  then show "la_outcome (finalize (ring_search stale_ledger)) \<in> {Loop_LoopConfirmed, Loop_NoLoop, Loop_Unknown, Loop_Conflict}"
    "la_outcome (finalize (ring_search (new_ledger small_limits))) \<in> {Loop_LoopConfirmed, Loop_NoLoop, Loop_Unknown, Loop_Conflict}"
    by simp_all
  show "\<forall>s. acyclic (hop_rel ring (\<lambda>i. \<not> disabled_by_definition ring i \<and>
      \<not> hidden_by_stale ring stale_ledger demo_fence 5 i s) s)"
    by (rule allI, rule ring_stale_acyclic)
  show "\<not> acyclic (hop_rel ring (\<lambda>i. \<not> disabled_by_definition ring i) 10)" by (rule ring_cyclic)
qed simp

end
