(* ===== verification/Spec_Containment.thy ===== *)
theory Spec_Containment
  imports Greedy Example_Plan Exclusion
begin

text \<open>
  The properties of containment: the solvers, the plan validator, the planner and the shadow
  definition, each with an instance.
\<close>

section \<open>The solvers\<close>

text \<open>C19: the solver is exact. An affirmative answer is a hitting set at its real cost; PLAN_OPTIMAL has the
  least cost, then the fewest targets, then the smallest identities among all hitting sets; and
  PROVEN_INFEASIBLE is answered exactly when there is none, budget or not.\<close>

theorem solver_exact:
  assumes "instance_ok inst" "sol = solve_hitting_set inst"
  shows "(hs_outcome sol \<in> {Con_PlanOptimal, Con_PlanFeasible} \<longrightarrow>
      is_hitting_set inst (hs_targets sol) \<and> unat (hs_total_cost sol) = resources_cost inst (hs_targets sol)) \<and>
    (hs_outcome sol = Con_PlanOptimal \<longrightarrow> (\<forall>R. is_hitting_set inst R \<longrightarrow>
      resources_key inst (hs_targets sol) \<le> resources_key inst R)) \<and>
    (hs_outcome sol = Con_ProvenInfeasible \<longleftrightarrow> (\<nexists>R. is_hitting_set inst R)) \<and>
    hs_outcome sol \<in> {Con_PlanOptimal, Con_PlanFeasible, Con_ProvenInfeasible, Con_SearchLimitReached}"
  using solve_hitting_set_spec(1-4)[OF assms(1)] unfolding assms(2) by blast

definition demo_instance :: hitting_instance where
  "demo_instance = \<lparr>hi_sets = [[1, 2], [2, 3], [3, 1]], hi_options = [(1, 5), (2, 1), (3, 2)], hi_max_nodes = 100\<rparr>"

lemma demo_instance_ok: "instance_ok demo_instance"
  by (simp add: instance_ok_def demo_instance_def)

lemma demo_solution: "hs_outcome (solve_hitting_set demo_instance) = Con_PlanOptimal"
    "hs_targets (solve_hitting_set demo_instance) = [2, 3]"
  by code_simp+

theorem solver_exact_witness:
  "is_hitting_set demo_instance [2, 3] \<and> resources_key demo_instance [2, 3] \<le> resources_key demo_instance [1, 2]"
proof -
  have "is_hitting_set demo_instance [1, 2]" by (simp add: is_hitting_set_def demo_instance_def)
  then show ?thesis using solver_exact[OF demo_instance_ok refl] demo_solution by (metis insertI1)
qed

text \<open>The branch-and-bound solver agrees with the exhaustive reference solver on every instance of up
  to 24 options on which it does not run out of its node budget: the same outcome, the same targets,
  the same cost and the same proofs.\<close>

theorem solver_agrees_with_reference:
  assumes "instance_ok inst" "length (hi_options inst) \<le> 24"
    and "hs_outcome (solve_hitting_set inst) \<notin> {Con_PlanFeasible, Con_SearchLimitReached}"
  shows "hs_outcome (solve_hitting_set inst) = hs_outcome (solve_hitting_set_reference inst) \<and>
    hs_targets (solve_hitting_set inst) = hs_targets (solve_hitting_set_reference inst) \<and>
    hs_total_cost (solve_hitting_set inst) = hs_total_cost (solve_hitting_set_reference inst) \<and>
    hs_proved_minimum (solve_hitting_set inst) = hs_proved_minimum (solve_hitting_set_reference inst) \<and>
    hs_proved_infeasible (solve_hitting_set inst) = hs_proved_infeasible (solve_hitting_set_reference inst)"
  by (rule solve_agrees_with_reference[OF assms])

theorem solver_agrees_with_reference_witness: "hs_targets (solve_hitting_set_reference demo_instance) = [2, 3]"
proof -
  have "length (hi_options demo_instance) \<le> 24" by (simp add: demo_instance_def)
  from solver_agrees_with_reference[OF demo_instance_ok this] demo_solution show ?thesis by simp
qed

text \<open>The greedy recommendation covers every set that has an option at all, within as many rounds as
  there are sets.\<close>

theorem greedy_covers_all:
  assumes "\<forall>S \<in> set (hi_sets inst). sorted S" "S \<in> set (hi_sets inst)" "set S \<inter> fst ` set (hi_options inst) \<noteq> {}"
  shows "set S \<inter> set (greedy_recommendation inst) \<noteq> {}"
  by (rule greedy_covers[OF assms])

theorem greedy_covers_all_witness: "set [1, 3] \<inter> set (greedy_recommendation (demo_instance\<lparr>hi_sets := [[1, 2], [2, 3], [1, 3]]\<rparr>)) \<noteq> {}"
  by (rule greedy_covers_all) (simp_all add: demo_instance_def)

section \<open>The planner\<close>

text \<open>C20: an affirmative plan contains exactly what it may: it is only made for a confirmed loop, its
  targets are in strict order, each an eligible resource of the definition at its cost on a
  confirmed witness, the costs add up, and every confirmed witness has a target on its cycle. A plan
  that authorises an action is optimal and within the policy's target and cost budgets.\<close>

theorem plan_sound:
  assumes "topology_ok t" "length (td_resources t) \<le> 2 ^ 32" "plan_containment l a t policy = ok p"
  shows "(pl_outcome p \<in> {Con_PlanOptimal, Con_PlanFeasible} \<longrightarrow>
      la_outcome a = Loop_LoopConfirmed \<and> affirmative_ok p a t policy) \<and>
    (authorizes_action p \<longrightarrow> pl_outcome p = Con_PlanOptimal \<and> affirmative_ok p a t policy \<and>
      length (pl_targets p) \<le> unat (po_max_targets policy) \<and> pl_total_cost p \<le> po_max_total_cost policy)"
  using plan_affirmative[OF assms] plan_within_budget[OF assms] by (auto simp: authorizes_action_def)

theorem plan_sound_witness:
  "affirmative_ok (finalize_plan (demo_plan ring [ring_witness])) (demo_confirmed [ring_witness]) ring demo_policy \<and>
   authorizes_action (finalize_plan (demo_plan ring [ring_witness]))"
proof -
  have "authorizes_action (finalize_plan (demo_plan ring [ring_witness]))"
    by (simp add: authorizes_action_def ring_plan_fields del: finalize_plan_fields)
  then show ?thesis using plan_sound[OF ring_ok ring_size ring_planned] by blast
qed

text \<open>C21: no set of eligible resources that breaks every confirmed witness costs less than a plan that is
  published as optimal.\<close>

theorem plan_optimal:
  assumes "topology_ok t" "length (td_resources t) \<le> 2 ^ 32" "plan_containment l a t policy = ok p"
    and "pl_outcome p = Con_PlanOptimal" "\<forall>r \<in> R. eligible t policy r \<noteq> None"
    and "\<forall>w \<in> set (la_witnesses a). set (lw_cycle w) \<inter> R \<noteq> {}"
  shows "unat (pl_total_cost p) \<le> (\<Sum>r \<in> R. unat (rr_cost (the (eligible t policy r))))"
  by (rule plan_optimal_minimal[OF assms])

theorem plan_optimal_witness: "1 \<le> (\<Sum>r \<in> {1, 2}. unat (rr_cost (the (eligible ring demo_policy r))))"
proof -
  have "\<forall>r \<in> {1, 2}. eligible ring demo_policy r \<noteq> None" by code_simp
  moreover have "\<forall>w \<in> set (la_witnesses (demo_confirmed [ring_witness])). set (lw_cycle w) \<inter> {1, 2} \<noteq> {}" by code_simp
  ultimately show ?thesis
    using plan_optimal[OF ring_ok ring_size ring_planned ring_plan_fields(1), of "{1, 2}", unfolded ring_plan_fields] by simp
qed

text \<open>C22: a published infeasibility is true: some confirmed witness has no eligible resource on its
  cycle, so no set of eligible resources breaks every witness.\<close>

theorem plan_infeasible_true:
  assumes "topology_ok t" "length (td_resources t) \<le> 2 ^ 32" "plan_containment l a t policy = ok p"
    and "pl_outcome p = Con_ProvenInfeasible"
  shows "\<exists>w \<in> set (la_witnesses a). \<forall>r \<in> set (lw_cycle w). eligible t policy r = None"
  by (rule plan_infeasible[OF assms])

theorem plan_infeasible_true_witness: "eligible rings demo_policy 3 = None"
proof -
  have "rings_witnesses 1 \<noteq> []" "length (td_resources rings) \<le> 2 ^ 32" by (simp_all add: rings_witnesses_def rings_def)
  moreover have "pl_outcome (finalize_plan (demo_plan rings (rings_witnesses 1))) = Con_ProvenInfeasible"
    using rings_plan(2) by (simp add: plan_summary_def)
  ultimately have "\<exists>w \<in> set (rings_witnesses 1). \<forall>r \<in> set (lw_cycle w). eligible rings demo_policy r = None"
    using plan_infeasible_true[OF rings_ok _ demo_plan_containment] by (simp add: demo_confirmed_def)
  moreover have "eligible rings demo_policy 1 \<noteq> None" by code_simp
  ultimately show ?thesis by (auto simp: rings_witnesses_def demo_witness_def)
qed

text \<open>C26: the plan validator accepts an affirmative plan only when it is what a plan should be: bound to the
  assessment, its fence and the policy, with targets in strict order that are eligible resources at
  their cost on the cycles of confirmed witnesses, costs that add up and a target on every confirmed
  witness. It accepts every such plan each of whose targets lies on a witness with an ascending
  cycle. Without that a correct plan may be refused, since rotated cycles are searched by bisection:
  a finding, shown by rotated_cycle_refused.\<close>

theorem plan_validator_exact:
  assumes "pl_outcome p \<in> {Con_PlanOptimal, Con_PlanFeasible}"
  shows "\<exists>v. validate_plan p a t policy l = ok v \<and> (pv_valid v \<longrightarrow> plan_correct p a t policy) \<and>
    (plan_correct p a t policy \<longrightarrow> (\<forall>c \<in> set (pl_targets p). \<exists>w \<in> set (la_witnesses a). sorted (lw_cycle w) \<and>
       ct_resource c \<in> set (lw_cycle w)) \<longrightarrow> pv_valid v)"
  using plan_valid_affirmative[OF assms(1), of a t policy l] affirmative_ok_spec[of p a t policy]
    affirmative_spec_ok[of p a t policy]
  by (auto simp: plan_correct_def plan_valid_def check_plan_binding_def validate_plan_def)

theorem plan_validator_exact_witness:
  "\<exists>v. validate_plan ((digest_free [])\<lparr>pl_outcome := Con_PlanOptimal, pl_targets := [ring_target], pl_total_cost := 1\<rparr>)
     (demo_confirmed [ring_witness]) ring demo_policy small_limits = ok v \<and> pv_valid v"
proof -
  let ?p = "(digest_free [])\<lparr>pl_outcome := Con_PlanOptimal, pl_targets := [ring_target], pl_total_cost := 1\<rparr>"
    and ?a = "demo_confirmed [ring_witness]"
  have p: "pl_outcome ?p \<in> {Con_PlanOptimal, Con_PlanFeasible}" "pl_fence ?p = la_fence ?a" "pl_assessment ?p = la_id ?a"
    "pl_policy_generation ?p = po_generation demo_policy" "pl_targets ?p = [ring_target]" "la_witnesses ?a = [ring_witness]"
    by (simp_all add: digest_free_def demo_confirmed_def blank_assessment_def demo_policy_def)
  have "ct_resource ring_target = 1" "lw_cycle ring_witness = [1, 2]" by (simp_all add: ring_target_def ring_witness_def)
  moreover have "find_resource ring 1 = Some (demo_resource 1)" "targets_cost [ring_target] = 1" by code_simp+
  moreover have "may_contain demo_policy (demo_resource 1)" "ct_cost ring_target = rr_cost (demo_resource 1)" by code_simp+
  ultimately have "affirmative_spec ?p ?a ring demo_policy"
    unfolding affirmative_spec_def p(5,6) by (simp add: target_ok_def)
  with p(2-4) have "plan_correct ?p ?a ring demo_policy" by (simp add: plan_correct_def)
  with plan_validator_exact[OF p(1), of ?a ring demo_policy small_limits]
  show ?thesis unfolding p(5,6) by (auto simp: ring_target_def ring_witness_def)
qed

text \<open>A confirmed loop may have a plan that the planner then refuses. The cycle 1, 3, 2 is a loop of
  the evidence in canonical rotation and its resource 2 is eligible, but cycles are searched by
  bisection although they are rotated, not sorted: the target is found on no witness, and the
  answer is INVALID.\<close>

theorem rotated_cycle_refused:
  "loop_at triangle triangle_ledger demo_fence 5 (lw_cycle triangle_witness) (lw_hops triangle_witness)
     (lw_selectors triangle_witness) \<and>
   eligible triangle demo_policy 2 \<noteq> None \<and> 2 \<in> set (lw_cycle triangle_witness) \<and>
   plan_containment small_limits (demo_confirmed [triangle_witness]) triangle demo_policy =
     ok (finalize_plan (demo_plan triangle [triangle_witness])) \<and>
   pl_outcome (finalize_plan (demo_plan triangle [triangle_witness])) = Con_Invalid"
proof (intro conjI)
  show "eligible triangle demo_policy 2 \<noteq> None" "2 \<in> set (lw_cycle triangle_witness)" by code_simp+
  show "pl_outcome (finalize_plan (demo_plan triangle [triangle_witness])) = Con_Invalid"
    using triangle_plan by (simp add: plan_summary_def)
qed (simp_all add: triangle_loop demo_plan_containment)

text \<open>With the identities the detector gives its witnesses, all zero, a true infeasibility is answered
  INVALID: the certificate names its witness by identity, and the validator re-derives it on the
  first witness with that identity. With distinct identities the same plan is PROVEN_INFEASIBLE.\<close>

theorem shared_identity_hides_infeasibility:
  "plan_containment small_limits (demo_confirmed (rings_witnesses i)) rings demo_policy =
     ok (finalize_plan (demo_plan rings (rings_witnesses i))) \<and>
   pl_outcome (finalize_plan (demo_plan rings (rings_witnesses 0))) = Con_Invalid \<and>
   pl_outcome (finalize_plan (demo_plan rings (rings_witnesses 1))) = Con_ProvenInfeasible"
  using rings_plan by (simp add: plan_summary_def demo_plan_containment rings_witnesses_def)

section \<open>The shadow definition\<close>

text \<open>C23: the shadow definition of a plan, for a definition with distinct edge identities (which the
  canonicaliser does not enforce, a finding), is well formed, and a hop is open in it exactly when it
  was open before and no target names it for that traffic. So only the traffic the plan names is cut,
  and no loop appears: a loop of the shadow was one before, and no class gains an edge. Resources keep
  their administrative state: containment.hpp:201 says that the targets are administratively disabled,
  but the code removes their selectors from the hops instead.\<close>

theorem shadow_exact:
  assumes "topology_ok t" "distinct (map fe_id (td_edges t))" "apply_containment_shadow t p l = ok t'"
  shows "topology_ok t' \<and> (hop_open t' g fence now hop u v s \<longleftrightarrow> hop_open t g fence now hop u v s \<and>
    \<not> (\<exists>c \<in> set (pl_targets p). hop \<in> set (ct_hops c) \<and> s \<in> set (ct_selectors c))) \<and>
    (loop_at t' g fence now cycle hops selectors \<longrightarrow> loop_at t g fence now cycle hops selectors) \<and>
    hop_rel t' (\<lambda>_. True) s \<subseteq> hop_rel t (\<lambda>_. True) s \<and>
    map rr_admin (td_resources t') = map rr_admin (td_resources t)"
proof -
  note sh = shadow_spec[OF assms]
  have "loop_at t g fence now cycle hops selectors" if "loop_at t' g fence now cycle hops selectors"
    using that unfolding loop_at_def shadow_hop_open[OF assms] by blast
  moreover have "hop_rel t' (\<lambda>_. True) s \<subseteq> hop_rel t (\<lambda>_. True) s"
    by (auto simp: hop_rel_def sh(5) shadow_edge_selector)
  ultimately show ?thesis using sh(1) shadow_hop_open[OF assms] by (simp add: sh(3) comp_def)
qed

theorem shadow_exact_witness: "topology_ok shadowed_ring \<and> \<not> hop_open shadowed_ring ring_ledger demo_fence 5 1 1 2 10"
proof -
  have "1 \<in> set (ct_hops ring_target) \<and> 10 \<in> set (ct_selectors ring_target)" by (simp add: ring_target_def)
  then show ?thesis
    using shadow_exact[OF ring_ok ring_edge_ids ring_shadow, of ring_ledger demo_fence 5 1 1 2 10 "[]" "[]" "[]"]
    unfolding ring_plan_fields by auto
qed

text \<open>The plan works: in the shadow definition no loop runs along a confirmed witness, for any of its
  traffic, when the bisection finds one of the plan's targets on the cycle of the witness.\<close>

theorem shadow_breaks_witness:
  assumes "topology_ok t" "distinct (map fe_id (td_edges t))" "apply_containment_shadow t p l = ok t'"
    and "pl_targets p = build_targets t (la_witnesses a) resources reason"
    and "w \<in> set (la_witnesses a)" "c \<in> set (pl_targets p)" "binary_search (lw_cycle w) (ct_resource c)"
    and "set selectors \<inter> set (lw_selectors w) \<noteq> {}"
  shows "\<not> loop_at t' g fence now (lw_cycle w) (lw_hops w) selectors"
  by (rule shadow_breaks[OF assms])

theorem shadow_breaks_witness_witness:
  "\<not> loop_at shadowed_ring ring_ledger demo_fence 5 [1, 2] [1, 2] [10]"
proof -
  have "build_targets ring [ring_witness] [1] Target_MinimumCostHittingSet = [ring_target]" by code_simp
  moreover have "binary_search (lw_cycle ring_witness) (ct_resource ring_target)" by code_simp
  ultimately show ?thesis
    using shadow_breaks_witness[OF ring_ok ring_edge_ids ring_shadow, of "demo_confirmed [ring_witness]" "[1]"
        Target_MinimumCostHittingSet ring_witness ring_target "[10]" ring_ledger demo_fence 5]
    unfolding ring_plan_fields by (simp add: demo_confirmed_def ring_witness_def)
qed

end
