(* ===== verification/Spec_Wire.thy ===== *)
theory Spec_Wire
  imports Example_Fabric Messages Authority
begin

text \<open>
  The properties of the wire protocol, of the findings and of containment authority: what a stream of
  frames delivers, which messages survive the wire, what a grant authorizes, what an application proves
  and how findings live and end.
\<close>

section \<open>Frames and streams\<close>

text \<open>C24: a byte string decodes to a frame exactly when it is the encoding of that frame: header fields in
  the protocol's domain, declared length equal to the payload's, and the integrity digest of header
  and payload. So no two byte strings carry one frame, and nothing else is ever accepted.\<close>

theorem frame_codec_exact:
  "decode_frame bytes = ok f \<longleftrightarrow> frame_valid f \<and>
     encode_frame (fh_type (df_header f)) (fh_session (df_header f)) (fh_sequence (df_header f)) (df_payload f) 0 = ok bytes"
  using decode_frame_iff[of bytes f] encode_frame_bytes[of f] by (auto simp: ok_def)

definition demo_frame :: "message_type \<Rightarrow> u64 \<Rightarrow> u8 list \<Rightarrow> decoded_frame" where
  "demo_frame t n payload = \<lparr>df_header = \<lparr>fh_magic = k_wire_magic, fh_version = k_wire_version, fh_type = t, fh_flags = 0,
     fh_session = 7, fh_sequence = n, fh_payload_length = word_of_nat (length payload)\<rparr>, df_payload = payload\<rparr>"

lemma demo_frame_valid: "length payload \<le> k_frame_payload \<Longrightarrow> frame_valid (demo_frame t n payload)"
  by (simp add: frame_valid_def demo_frame_def)

lemma feed_all_new:
  "decoder_reads (fst (feed_all chunks (new_frame_decoder, []))) (snd (feed_all chunks (new_frame_decoder, []))) (concat chunks)"
  using feed_all_reads[OF decoder_reads_new, of chunks] by simp

lemma finish_reads:
  assumes "decoder_reads d frames bytes"
  shows "is_ok (fst (finish_stream d)) \<longleftrightarrow> (case frames_of bytes of (fs, rest, e) \<Rightarrow> rest = [] \<and> e = None)"
proof -
  obtain fs rest e where parse: "frames_of bytes = (fs, rest, e)" by (metis prod_cases3)
  then show ?thesis
    using assms by (cases e) (auto simp: decoder_reads_def finish_stream_def decoder_fail_def Let_def)
qed

text \<open>How the transport cuts the stream into reads does not matter: the frames delivered, and
  whether the end of the stream is accepted, depend only on the bytes. A session that receives one
  byte at a time behaves as one that receives everything at once.\<close>

theorem stream_chunking_irrelevant:
  "snd (feed_all chunks (new_frame_decoder, [])) = snd (feed_all [concat chunks] (new_frame_decoder, [])) \<and>
   is_ok (fst (finish_stream (fst (feed_all chunks (new_frame_decoder, []))))) =
     is_ok (fst (finish_stream (fst (feed_all [concat chunks] (new_frame_decoder, [])))))"
  using feed_all_new[of chunks] feed_all_new[of "[concat chunks]"]
  by (auto simp: finish_reads[OF feed_all_new] decoder_reads_def split: prod.splits)

text \<open>Every frame of a well-formed stream is delivered, in order and once, however the stream is cut
  into reads; a stream that stops inside a further frame delivers the complete ones, is not treated as
  corrupt, and is refused at its end exactly when bytes of the unfinished frame are left.\<close>

theorem stream_delivers:
  assumes "list_all frame_valid fs" "frame_valid f" "frame_bytes f = p @ q" "q \<noteq> []"
    and "concat chunks = concat (map frame_bytes fs) @ p"
  shows "snd (feed_all chunks (new_frame_decoder, [])) = fs \<and>
    \<not> fd_failed (fst (feed_all chunks (new_frame_decoder, []))) \<and>
    (is_ok (fst (finish_stream (fst (feed_all chunks (new_frame_decoder, []))))) \<longleftrightarrow> p = [])"
proof -
  have "frames_of p = ([], p, None)"
    using next_frame_prefix[OF assms(2-4)] by (simp add: frames_of.simps)
  then have "frames_of (concat chunks) = (fs, p, None)"
    using frames_of_frames[of fs p] assms(1,5) by (simp add: list_all_iff)
  then show ?thesis
    using feed_all_new[of chunks] finish_reads[OF feed_all_new, of chunks] by (simp add: decoder_reads_def)
qed

theorem stream_delivers_witness:
  "snd (feed_all [frame_bytes (demo_frame Msg_Hello 1 [5]) @ [0x4C], [0x57, 0x47]] (new_frame_decoder, [])) = [demo_frame Msg_Hello 1 [5]] \<and>
   \<not> is_ok (fst (finish_stream (fst (feed_all [frame_bytes (demo_frame Msg_Hello 1 [5]) @ [0x4C], [0x57, 0x47]] (new_frame_decoder, [])))))"
proof -
  let ?f = "demo_frame Msg_Hello 1 [5]"
  have v: "frame_valid ?f" by (rule demo_frame_valid) (simp add: k_frame_payload_def)
  have "take 3 (header_bytes (df_header ?f)) = [0x4C, 0x57, 0x47]" by code_simp
  then have "frame_bytes ?f = [0x4C, 0x57, 0x47] @ drop 3 (frame_bytes ?f)"
    using append_take_drop_id[of 3 "frame_bytes ?f"] by (simp add: frame_bytes_def)
  from stream_delivers[of "[?f]" ?f, OF _ v this, of "[frame_bytes ?f @ [0x4C], [0x57, 0x47]]"] v
  show ?thesis by (simp add: frame_bytes_def)
qed

lemma frames_of_length:
  "case frames_of bytes of (fs, rest, e) \<Rightarrow> 64 * length fs + length rest \<le> length bytes"
proof (induction bytes rule: frames_of.induct)
  case (1 bytes)
  show ?case
  proof (cases "next_frame bytes")
    case (Step_Frame f n)
    have "64 \<le> n \<and> n \<le> length bytes"
      using Step_Frame
      by (auto simp: next_frame_def Let_def k_wire_header_bytes_def k_digest_bytes_def split: if_splits option.splits)
    then show ?thesis
      using 1[OF Step_Frame] Step_Frame by (auto simp: frames_of.simps[of bytes] split: prod.splits)
  qed (simp_all add: frames_of.simps[of bytes])
qed

text \<open>C36: the decoding loop makes progress: it returns on every input and hands over at most one frame
  for every 64 bytes it was fed, so no input makes it spin on one position or produce frames from nothing.\<close>

theorem stream_progress:
  "64 * length (snd (feed_all chunks (new_frame_decoder, []))) \<le> length (concat chunks)"
  using feed_all_new[of chunks] frames_of_length[of "concat chunks"] by (auto simp: decoder_reads_def split: prod.splits)

section \<open>Payloads\<close>

text \<open>A topology that was built survives the wire exactly when all its labels have at most 128
  bytes. A longer label, which the builder accepts, makes the encoder answer the empty payload, which
  no reader accepts.\<close>

theorem topology_wire_roundtrip:
  assumes "canonicalize_topology d l = ok t"
  shows "decode_topology l (encode_topology t) = ok t \<longleftrightarrow> labels_fit t"
proof
  show "decode_topology l (encode_topology t) = ok t" if "labels_fit t"
    by (rule decode_encode_topology[OF assms that])
next
  assume "decode_topology l (encode_topology t) = ok t"
  moreover have "decode_topology l [] \<noteq> ok t"
    by (simp add: decode_topology_def parse_topology_def read_then_def or_fail_def read_u16_def read_fixed_def ok_def failure_def)
  ultimately show "labels_fit t" using encode_topology_overflow[of t] by metis
qed

theorem topology_wire_roundtrip_witness:
  "decode_topology small_limits (encode_topology ring) = ok ring"
proof -
  have "labels_fit ring" by code_simp
  then show ?thesis using topology_wire_roundtrip[OF ring_canonical] by simp
qed

text \<open>The three messages that carry containment - the intent, its acknowledgement and the report of
  an observed effect - are read back exactly as they were written, whenever they respect the limits the
  reader checks.\<close>

theorem containment_messages_roundtrip:
  assumes "contain_intent_valid l intent" "contain_ack_valid l ack" "effect_report_valid l effect"
  shows "decode_contain_intent l (encode_contain_intent intent) = ok intent \<and>
    decode_contain_ack l (encode_contain_ack l ack) = ok ack \<and>
    decode_effect_report l (encode_effect_report effect) = ok effect"
  using contain_intent_payload.decode_encode[OF assms(1)] contain_ack_payload.decode_encode[OF assms(2)]
    effect_report_payload.decode_encode[OF assms(3)] by simp

definition demo_identity :: process_identity where
  "demo_identity = \<lparr>pi_boot = 1, pi_incarnation = 1, pi_epoch = 1, pi_producer = 9\<rparr>"

definition demo_intent :: contain_intent_message where
  "demo_intent = \<lparr>cm_intent = 3, cm_plan = 2, cm_finding = 1, cm_fence = demo_fence, cm_issued_by = demo_identity,
     cm_targets = [1, 2], cm_selectors = [10], cm_issued_at = 5, cm_expires_at = 50, cm_plan_digest = zero_digest\<rparr>"

definition demo_ack :: contain_ack_message where
  "demo_ack = \<lparr>km_intent = 3, km_session = 7, km_applier = demo_identity, km_sequence = 1, km_acknowledged_at = 6,
     km_intent_digest = zero_digest, km_outcome = Oc_Ok, km_reason = R_WireFrameAccepted, km_detail = ''done''\<rparr>"

definition demo_effect :: effect_report_message where
  "demo_effect = \<lparr>vm_intent = 3, vm_target = 1, vm_observation = 4, vm_fence = demo_fence, vm_verified_at = 7,
     vm_origin = Origin_Synthetic, vm_observation_payload = demo_observation 4 1 1 2 Ev_Absent [10] 1,
     vm_has_observation = True\<rparr>"

theorem containment_messages_roundtrip_witness:
  "decode_contain_intent small_limits (encode_contain_intent demo_intent) = ok demo_intent \<and>
   decode_contain_ack small_limits (encode_contain_ack small_limits demo_ack) = ok demo_ack \<and>
   decode_effect_report small_limits (encode_effect_report demo_effect) = ok demo_effect"
proof -
  have "contain_intent_valid small_limits demo_intent" "contain_ack_valid small_limits demo_ack" by code_simp+
  moreover have "length (encode_observation (vm_observation_payload demo_effect)) = 161" by code_simp
  then have "effect_report_valid small_limits demo_effect"
    by (simp add: effect_report_valid_def demo_effect_def demo_fence_def fence_is_zero_def id_valid_def k_frame_payload_def
        observation_valid_def demo_observation_def small_limits_def zero_digest_def)
  ultimately show ?thesis by (rule containment_messages_roundtrip)
qed

section \<open>Authority\<close>

text \<open>C25: a grant authorizes exactly what it names: an active grant, under the very fence it was issued
  for, before its expiry, for a non-empty set of targets inside its scope and within its two budgets.
  Everything else is refused.\<close>

theorem authorize_exact:
  assumes "sorted (cg_scope g)"
  shows "is_ok (authorize g targets cost current now) \<longleftrightarrow>
    cg_state g = Grant_Active \<and> cg_fence g = current \<and> now \<le> cg_expires_at g \<and> targets \<noteq> [] \<and>
    length targets \<le> unat (cg_max_targets g) \<and> cost \<le> cg_max_total_cost g \<and> set targets \<subseteq> set (cg_scope g)"
  unfolding authorize_is_ok authorize_ok_iff using assms by (auto simp: grant_is_active_def)

definition demo_grant :: containment_grant where
  "demo_grant = \<lparr>cg_id = 4, cg_policy_generation = 1, cg_fence = demo_fence, cg_scope = [1, 2], cg_max_targets = 2,
     cg_max_total_cost = 5, cg_issued_at = 0, cg_expires_at = 100, cg_issued_by = 9, cg_state = Grant_Active\<rparr>"

theorem authorize_exact_witness:
  "is_ok (authorize demo_grant [2] 3 demo_fence 10) \<and> \<not> is_ok (authorize demo_grant [3] 3 demo_fence 10)"
  using authorize_exact[of demo_grant "[2]" 3 demo_fence 10] authorize_exact[of demo_grant "[3]" 3 demo_fence 10]
  by (simp add: demo_grant_def)

text \<open>Containment counts as verified exactly when every target has a reported effect of its own;
  acknowledgements, however many, prove nothing.\<close>

theorem fully_verified_exact:
  assumes "sorted (ap_targets a)"
  shows "(fully_verified a \<longleftrightarrow> ap_targets a \<noteq> [] \<and> set (ap_targets a) \<subseteq> ve_target ` set (ap_effects a)) \<and>
    fully_verified (a\<lparr>ap_acknowledgements := ks\<rparr>) = fully_verified a"
  using fully_verified_sorted_iff[OF assms] by auto

definition demo_application :: "u64 list \<Rightarrow> containment_application" where
  "demo_application verified = \<lparr>ap_intent = 3, ap_plan = 2, ap_finding = 1, ap_fence = demo_fence, ap_applier = demo_identity,
     ap_targets = [1, 2], ap_acknowledgements = [], ap_effects = map (\<lambda>t. \<lparr>ve_target = t, ve_observation = 4, ve_fence = demo_fence,
       ve_verified_at = 7, ve_origin = Origin_Synthetic\<rparr>) verified, ap_explanation = new_explanation 16\<rparr>"

definition demo_acknowledgement :: containment_acknowledgement where
  "demo_acknowledgement = \<lparr>ca_intent = 3, ca_session = 7, ca_applier = demo_identity, ca_sequence = 1,
     ca_acknowledged_at = 6, ca_intent_digest = zero_digest\<rparr>"

theorem fully_verified_exact_witness:
  "fully_verified (demo_application [2, 1]) \<and>
   \<not> fully_verified ((demo_application [2])\<lparr>ap_acknowledgements := [demo_acknowledgement]\<rparr>)"
  using fully_verified_exact[of "demo_application [2, 1]" "[]"]
    fully_verified_exact[of "demo_application [2]" "[demo_acknowledgement]"]
  by (simp add: demo_application_def)

section \<open>Findings\<close>

text \<open>In every history of operations the registry holds findings with pairwise different non-zero
  identities in ascending order, and never more than its limit.\<close>

theorem registry_history_ok:
  assumes "registry_step\<^sup>*\<^sup>* (new_registry l) r"
  shows "sorted_wrt (<) (map fi_id (fr_findings r)) \<and> 0 \<notin> fi_id ` set (fr_findings r) \<and>
    length (fr_findings r) \<le> unat (max_retained_findings (fr_limits r))"
  using registry_machine.steps_inv[OF assms new_registry_ok] by (auto simp: registry_ok_def id_valid_def)

definition demo_finding :: "u64 \<Rightarrow> finding_state \<Rightarrow> u64 \<Rightarrow> finding" where
  "demo_finding k state now = \<lparr>fi_id = k, fi_generation = 1, fi_assessment = 1, fi_assessment_digest = zero_digest, fi_fence = demo_fence,
     fi_state = state, fi_cause = Cause_None, fi_outcome = Loop_LoopConfirmed, fi_flags = 0, fi_witnesses = [1],
     fi_resources = [1, 2], fi_selectors = [10], fi_plan = 0, fi_intent = 0, fi_created_at = 0, fi_updated_at = now,
     fi_origin = Origin_Synthetic, fi_explanation = new_explanation 16\<rparr>"

definition demo_registry :: finding_registry where
  "demo_registry = snd (register_finding (demo_finding 2 Fs_Withdrawn 4)
     (snd (register_finding (demo_finding 5 Fs_Confirmed 3) (new_registry (small_limits\<lparr>max_retained_findings := 2\<rparr>)))))"

lemma demo_registry_steps: "registry_step\<^sup>*\<^sup>* (new_registry (small_limits\<lparr>max_retained_findings := 2\<rparr>)) demo_registry"
  unfolding demo_registry_def by (meson register_step rtranclp.rtrancl_into_rtrancl rtranclp.rtrancl_refl)

lemma demo_registry_findings: "fr_findings demo_registry = [demo_finding 2 Fs_Withdrawn 4, demo_finding 5 Fs_Confirmed 3]"
  by code_simp

lemma demo_registry_ok: "registry_ok demo_registry"
  by (rule registry_machine.steps_inv[OF demo_registry_steps new_registry_ok])

theorem registry_history_ok_witness: "sorted_wrt (<) (map fi_id (fr_findings demo_registry))"
  using registry_history_ok[OF demo_registry_steps] by simp

text \<open>C35: no operation of the registry revives a finding: one that is withdrawn, stale, fenced or rejected
  stays so in every operation that keeps it.\<close>

theorem terminal_is_final:
  assumes "registry_ok r" "registry_step r r'" "f \<in> set (fr_findings r)" "is_terminal f"
    and "f' \<in> set (fr_findings r')" "fi_id f' = fi_id f"
  shows "is_terminal f'"
  by (rule step_keeps_terminal[OF assms])

theorem terminal_is_final_witness:
  "is_terminal (hd (fr_findings (snd (update_state 2 Fs_Confirmed Cause_None 9 R_WireFrameAccepted ''retry'' demo_registry))))"
proof (rule terminal_is_final[OF demo_registry_ok update_step])
  show "demo_finding 2 Fs_Withdrawn 4 \<in> set (fr_findings demo_registry)" by (simp add: demo_registry_findings)
  show "is_terminal (demo_finding 2 Fs_Withdrawn 4)" by code_simp
  show "hd (fr_findings (snd (update_state 2 Fs_Confirmed Cause_None 9 R_WireFrameAccepted ''retry'' demo_registry)))
    \<in> set (fr_findings (snd (update_state 2 Fs_Confirmed Cause_None 9 R_WireFrameAccepted ''retry'' demo_registry)))"
    by (rule hd_in_set) code_simp
  show "fi_id (hd (fr_findings (snd (update_state 2 Fs_Confirmed Cause_None 9 R_WireFrameAccepted ''retry'' demo_registry))))
    = fi_id (demo_finding 2 Fs_Withdrawn 4)" by code_simp
qed

text \<open>The registry never evicts authority: registering a well-formed new finding is refused exactly
  when the registry is full and every finding in it is live, and no registration removes a live one.\<close>

theorem live_findings_kept:
  assumes "registry_ok r" "id_valid (fi_id f)" "\<not> fence_is_zero (fi_fence f)" "id_valid (fv_boot (fi_fence f))"
    and "fi_id f \<notin> fi_id ` set (fr_findings r)"
  shows "(has_value (fst (register_finding f r)) \<longleftrightarrow>
      length (fr_findings r) < unat (max_retained_findings (fr_limits r)) \<or> \<not> list_all (\<lambda>g. \<not> is_terminal g) (fr_findings r)) \<and>
    set (filter (\<lambda>g. \<not> is_terminal g) (fr_findings r)) \<subseteq> set (fr_findings (snd (register_finding f r)))"
  using register_refused_full[OF assms] register_keeps_live[OF assms(1)] by (auto simp: list_all_iff)

theorem live_findings_kept_witness:
  "has_value (fst (register_finding (demo_finding 7 Fs_Confirmed 9) demo_registry)) \<and>
   demo_finding 5 Fs_Confirmed 3 \<in> set (fr_findings (snd (register_finding (demo_finding 7 Fs_Confirmed 9) demo_registry)))"
proof -
  have "id_valid (fi_id (demo_finding 7 Fs_Confirmed 9))" "\<not> fence_is_zero (fi_fence (demo_finding 7 Fs_Confirmed 9))"
    "id_valid (fv_boot (fi_fence (demo_finding 7 Fs_Confirmed 9)))" by code_simp+
  moreover have "fi_id (demo_finding 7 Fs_Confirmed 9) \<notin> fi_id ` set (fr_findings demo_registry)"
    unfolding demo_registry_findings by (simp add: demo_finding_def)
  moreover have "is_terminal (demo_finding 2 Fs_Withdrawn 4)" "\<not> is_terminal (demo_finding 5 Fs_Confirmed 3)" by code_simp+
  ultimately show ?thesis
    using live_findings_kept[OF demo_registry_ok, of "demo_finding 7 Fs_Confirmed 9"] by (auto simp: demo_registry_findings)
qed

end
