(* ===== verification/Spec_Durable.thy ===== *)
theory Spec_Durable
  imports Spec_Wire Journal_Replay
begin

text \<open>
  The properties of the durable document: what survives the disk, what a torn write leaves behind, what
  a restart recovers, and four ways in which an acknowledged write makes the document unreadable.
\<close>

section \<open>Records and documents\<close>

text \<open>A store state within the limits of the reader is read back from its document exactly as it was
  written: definition, policy, boot ledger, lineage, findings, fence and counters.\<close>

theorem store_document_roundtrip:
  assumes "store_valid l s"
  shows "decode_store_state l (encode_store_state s) = ok s"
  by (rule decode_encode_store_state[OF assms])

definition demo_boot :: "u64 \<Rightarrow> boot_record" where
  "demo_boot n = \<lparr>br_id = n, br_boot = n, br_incarnation = n, br_epoch = n, br_producer = 9, br_started_at = 3, br_closed_at = 0,
     br_clean_shutdown = False\<rparr>"

definition demo_store :: store_state where
  "demo_store = default_store_state\<lparr>ss_fence := demo_fence, ss_boot_ledger := [demo_boot 1],
     ss_topology := Some ring, ss_topology_generation := 1\<rparr>"

lemma ring_durable: "topology_durable small_limits ring"
proof -
  have "canonicalize_topology ring small_limits = ok ring" "labels_fit ring" by code_simp+
  moreover have "length (encode_topology ring) = 235" by code_simp
  ultimately show ?thesis by (simp add: topology_durable_def k_snapshot_payload_def)
qed

lemma small_limits_counts:
  "max_boot_records small_limits = 4096" "max_journal_records small_limits = 100000" "max_journal_bytes small_limits = 67108864"
  by (simp_all add: small_limits_def default_limits_def)

lemma demo_store_valid: "store_valid small_limits demo_store"
proof -
  have "td_generation ring = 1" by (simp add: ring_def)
  then show ?thesis
    using ring_durable small_limits_counts
    by (simp add: store_valid_def demo_store_def default_store_state_def topology_matches_def k_record_version_def
        demo_fence_def fence_is_zero_def id_valid_def)
qed

theorem store_document_roundtrip_witness:
  "decode_store_state small_limits (encode_store_state demo_store) = ok demo_store"
  by (rule store_document_roundtrip[OF demo_store_valid])

text \<open>A crash in the middle of an append is recognised wherever it strikes: whatever strict, non-empty
  prefix of the record reached the disk after a good document, the reader reports a torn tail there,
  never a record and never corruption; and the complete record is read as that record.\<close>

theorem torn_write_recognised:
  assumes "s \<noteq> 0" "length payload \<le> k_record_payload" "frame_record t s g payload = written @ lost" "written \<noteq> []"
  shows "if lost = []
    then decode_record_at (good @ written) (length good) = Rec_Ok \<lparr>dr_type = t, dr_version = k_record_version,
       dr_flags = g, dr_sequence = s, dr_payload = payload\<rparr> (length (good @ written))
    else \<exists>detail. decode_record_at (good @ written) (length good) =
       Rec_Torn R_PersistenceTornTailRecovered detail (length (good @ written))"
proof (cases "lost = []")
  case True
  then have "written = frame_record t s g payload" using assms(3) by simp
  then show ?thesis using True decode_record_frame[OF assms(1,2), of good t g "[]"] by (simp add: add.assoc)
next
  case False
  then show ?thesis using decode_record_prefix[OF assms False, of good] by simp
qed

lemma demo_torn:
  "frame_record Rt_FenceAdvance 5 1 (encode_fence demo_fence) =
     take 20 (frame_record Rt_FenceAdvance 5 1 (encode_fence demo_fence)) @ drop 20 (frame_record Rt_FenceAdvance 5 1 (encode_fence demo_fence))"
  "take 20 (frame_record Rt_FenceAdvance 5 1 (encode_fence demo_fence)) \<noteq> []"
  "drop 20 (frame_record Rt_FenceAdvance 5 1 (encode_fence demo_fence)) \<noteq> []"
  "length (encode_fence demo_fence) \<le> k_record_payload"
proof -
  let ?r = "frame_record Rt_FenceAdvance 5 1 (encode_fence demo_fence)"
  show "?r = take 20 ?r @ drop 20 ?r" by simp
  have "length (take 20 ?r) = 20" "length (drop 20 ?r) = 116" by simp_all
  then show "take 20 ?r \<noteq> []" "drop 20 ?r \<noteq> []" by fastforce+
  show "length (encode_fence demo_fence) \<le> k_record_payload" by (simp add: k_record_payload_def)
qed

theorem torn_write_recognised_witness:
  "\<exists>detail. decode_record_at (encode_boot_record (demo_boot 1) @ take 20 (frame_record Rt_FenceAdvance 5 1 (encode_fence demo_fence)))
     (length (encode_boot_record (demo_boot 1))) = Rec_Torn R_PersistenceTornTailRecovered detail 77"
  using torn_write_recognised[OF _ demo_torn(4,1,2), of "encode_boot_record (demo_boot 1)"] demo_torn(3) by simp

section \<open>Restarts\<close>

text \<open>A concrete store: a fresh document on the small limits.\<close>

definition demo_io :: open_io where
  "demo_io = \<lparr>oi_inspected = None, oi_content = None, oi_handle = status_ok,
     oi_write = \<lparr>io_replace = Replace_Done, io_append = Append_Done\<rparr>, oi_now = 3\<rparr>"

definition fresh_boot :: boot_record where
  "fresh_boot = \<lparr>br_id = 1, br_boot = 1, br_incarnation = 1, br_epoch = 1, br_producer = 9, br_started_at = 3, br_closed_at = 0,
     br_clean_shutdown = False\<rparr>"

lemma fresh_opens:
  assumes "limits_are_sane l" "255 \<le> max_journal_bytes l"
  obtains d where "open_document demo_io l ''store'' 9 [] = ok d" "ds_open d" "ds_limits d = l"
    "ds_state d = default_store_state\<lparr>ss_fence := first_fence fresh_boot, ss_boot_ledger := [fresh_boot]\<rparr>"
    "ds_journal_records d = 1" "\<not> ds_journal_bytes d > max_journal_bytes l"
proof -
  have scan: "scan_document l [] = Inr scan_start" by (simp add: scan_document_def scan_from.simps scan_start_def)
  have mint: "mint_boot 9 3 default_store_state = Some fresh_boot" by code_simp
  let ?s = "default_store_state\<lparr>ss_fence := first_fence fresh_boot, ss_boot_ledger := [fresh_boot]\<rparr>"
  have len: "length (encode_store_state ?s) = 167" and len1: "length (encode_store_state (?s\<lparr>ss_store_generation := 1\<rparr>)) = 167"
    by (simp_all add: encode_store_state_def write_store_state_def take_checked_def put_simps write_optional_def write_blob_def
      default_store_state_def put_counted_def)
  let ?d = "blank_store l ''store'' scan_start [] default_store_state"
  obtain st d1 where r: "rewrite_snapshot 1 Replace_Done (?d\<lparr>ds_open := False, ds_state := ?s\<rparr>) = (st, d1)" by fastforce
  then have st: "is_ok st" and d1: "ds_open d1" "ds_limits d1 = l" "ds_state d1 = ?s\<lparr>ss_store_generation := 1\<rparr>"
      "ds_journal_records d1 = 1" "ds_journal_bytes d1 = 255"
    using len1 by (auto simp: rewrite_snapshot_def Let_def encode_store_nonempty k_snapshot_payload_def blank_store_def)
  have gen: "?s\<lparr>ss_store_generation := 1\<rparr> = ?s" by (simp add: default_store_state_def)
  have "open_document demo_io l ''store'' 9 [] = ok (finish_open ''store'' fresh_boot (d1\<lparr>ds_next_sequence := 2\<rparr>))"
    using r st mint scan
    by (simp add: open_document_def Let_def demo_io_def open_fresh_def scan_start_def blank_store_def)
  then show ?thesis
    by (rule that) (use d1 gen assms(2) in \<open>simp_all add: finish_open_def not_less\<close>)
qed

text \<open>C8: in every history of a store - any successful mutations within the reader's limits, compactions,
  crashes in the middle of an append and restarts, in any order - the document on disk replays, without
  an error, to the state in memory; only the boot and the epoch of the fence may differ, which an open
  mints in memory.\<close>

theorem document_mirrors_state:
  assumes "fresh_store d0" "journal_step\<^sup>*\<^sup>* d0 d"
  shows "\<exists>sc s. scan_document (ds_limits d) (ds_file d) = Inr sc \<and> sc_torn sc = None \<and>
    replay_records (ds_limits d) (sc_records sc) default_store_state = Inr s \<and> same_document s (ds_state d)"
proof -
  have ok: "document_ok d"
    using journal_machine.steps_inv[OF assms(2) journal_machine.inv_initial[OF assms(1)]] by (simp add: journal_ok_def)
  have none: "torn_tail []" by (simp add: torn_tail_def)
  show ?thesis using reader_sees[OF ok none refl] by (metis append_Nil2)
qed

lemma fresh_opens_small:
  obtains d where "fresh_store d" "ds_open d" "ds_limits d = small_limits" "roomy d" "\<not> over_bounds d" "document_ok d"
    "ds_state d = default_store_state\<lparr>ss_fence := first_fence fresh_boot, ss_boot_ledger := [fresh_boot]\<rparr>"
proof -
  have "255 \<le> max_journal_bytes small_limits" by (simp add: small_limits_counts)
  from fresh_opens[OF small_limits_sane this] obtain d where d: "open_document demo_io small_limits ''store'' 9 [] = ok d"
    "ds_open d" "ds_limits d = small_limits"
    "ds_state d = default_store_state\<lparr>ss_fence := first_fence fresh_boot, ss_boot_ledger := [fresh_boot]\<rparr>"
    "ds_journal_records d = 1" "\<not> ds_journal_bytes d > max_journal_bytes small_limits" by blast
  have "\<not> over_bounds d" using d by (simp add: over_bounds_def small_limits_counts)
  moreover have "fresh_store d" using d(1) small_limits_sane by (auto simp: fresh_store_def)
  moreover have "roomy d" using d calculation(1) by (simp add: roomy_def small_limits_counts)
  moreover have "document_ok d" using fresh_document_ok[OF small_limits_sane d(1)] by (simp add: journal_ok_def)
  ultimately show ?thesis using that d by blast
qed

theorem document_mirrors_state_witness:
  "\<exists>(d :: durable_store) sc s. ds_open d \<and> ss_boot_ledger (ds_state d) = [fresh_boot] \<and> scan_document small_limits (ds_file d) = Inr sc \<and>
    replay_records small_limits (sc_records sc) default_store_state = Inr s \<and> same_document s (ds_state d)"
proof -
  obtain d where d: "fresh_store d" "ds_open d" "ds_limits d = small_limits" "roomy d" "\<not> over_bounds d" "document_ok d"
    "ds_state d = default_store_state\<lparr>ss_fence := first_fence fresh_boot, ss_boot_ledger := [fresh_boot]\<rparr>"
    by (rule fresh_opens_small)
  from document_mirrors_state[OF d(1) rtranclp.rtrancl_refl] obtain sc s where
    "scan_document small_limits (ds_file d) = Inr sc" "same_document s (ds_state d)"
    "replay_records small_limits (sc_records sc) default_store_state = Inr s" unfolding d(3) by blast
  then show ?thesis using d(2,7) by - (rule exI[of _ d], rule exI[of _ sc], rule exI[of _ s], simp)
qed

text \<open>C7: a restart recovers the last state in memory, after a history of a store that was created fresh and
  then saw successful mutations with room in the journal and records within the reader's limits,
  compactions, appends cut short by a crash, and restarts, in any order. Wherever in the middle of an
  append the process stopped, opening the document again succeeds (given room for one record, a journal
  within its bounds, boot numbers left and a file system that works) and the recovered state is the
  last state in memory, with one new boot in the ledger and in the fence. Histories with a failed
  write are not covered: a failed compaction can lose acknowledged records, a finding.\<close>

theorem restart_recovers:
  assumes "fresh_store d0" "journal_step\<^sup>*\<^sup>* d0 d" "torn_tail q" "roomy d" "\<not> over_bounds d"
    and "mint_boot producer (oi_now io) (ds_state d) = Some b" "is_ok (oi_handle io)"
    and "oi_write io = \<lparr>io_replace = Replace_Done, io_append = Append_Done\<rparr>" "oi_inspected io = None"
    and "oi_content io = Some (ok (ds_file d @ q))" "path \<noteq> []" "producer \<noteq> 0"
  shows "\<exists>d' g. open_or_create io path (ds_limits d) producer = ok d' \<and>
    ds_state d' = (ds_state d)\<lparr>ss_store_generation := g, ss_boot_ledger := ss_boot_ledger (ds_state d) @ [b],
      ss_fence := (ss_fence (ds_state d))\<lparr>fv_boot := br_boot b, fv_epoch := br_epoch b\<rparr>\<rparr>"
proof -
  have ok: "document_ok d"
    using journal_machine.steps_inv[OF assms(2) journal_machine.inv_initial[OF assms(1)]] by (simp add: journal_ok_def)
  from reopen_succeeds[OF ok assms(3-5,7,8), of producer path] assms(6) obtain d' where
    d': "open_document io (ds_limits d) path producer (ds_file d @ q) = ok d'" by auto
  have "limits_are_sane (ds_limits d)" using ok by (simp add: document_ok_def)
  then have "open_or_create io path (ds_limits d) producer = ok d'"
    using assms(9-12) d' by (simp add: open_or_create_def id_valid_def)
  then show ?thesis using reopen_recovers[OF ok assms(3,4) d'] assms(6) by (auto simp: open_state_def)
qed

theorem restart_recovers_witness:
  "\<exists>(d :: durable_store) d'. ds_open d \<and> open_or_create (demo_io\<lparr>oi_content := Some (ok (ds_file d @
       take 20 (frame_record Rt_FenceAdvance 5 1 (encode_fence demo_fence))))\<rparr>) ''store'' small_limits 9 = ok d' \<and>
     length (ss_boot_ledger (ds_state d')) = 2"
proof -
  let ?q = "take 20 (frame_record Rt_FenceAdvance 5 1 (encode_fence demo_fence))"
  obtain d where d: "fresh_store d" "ds_open d" "ds_limits d = small_limits" "roomy d" "\<not> over_bounds d" "document_ok d"
    "ds_state d = default_store_state\<lparr>ss_fence := first_fence fresh_boot, ss_boot_ledger := [fresh_boot]\<rparr>"
    by (rule fresh_opens_small)
  have "(5 :: u64) \<noteq> 0" by simp
  then have torn: "torn_tail ?q" unfolding torn_tail_def using demo_torn(1,3,4) by blast
  have "mint_boot 9 3 (ds_state d) \<noteq> None" unfolding d(7) by code_simp
  then obtain b where b: "mint_boot 9 3 (ds_state d) = Some b" by blast
  let ?io = "demo_io\<lparr>oi_content := Some (ok (ds_file d @ ?q))\<rparr>"
  have io: "oi_now ?io = 3" "is_ok (oi_handle ?io)" "oi_write ?io = \<lparr>io_replace = Replace_Done, io_append = Append_Done\<rparr>"
    "oi_inspected ?io = None" "oi_content ?io = Some (ok (ds_file d @ ?q))" "''store'' \<noteq> []" "(9 :: u64) \<noteq> 0"
    by (simp_all add: demo_io_def)
  obtain d' g where "open_or_create ?io ''store'' (ds_limits d) 9 = ok d'"
    "ds_state d' = (ds_state d)\<lparr>ss_store_generation := g, ss_boot_ledger := ss_boot_ledger (ds_state d) @ [b],
      ss_fence := (ss_fence (ds_state d))\<lparr>fv_boot := br_boot b, fv_epoch := br_epoch b\<rparr>\<rparr>"
    using restart_recovers[OF d(1) rtranclp.rtrancl_refl torn d(4,5) _ io(2-7), of b] b io(1) by auto
  then show ?thesis using d(2,7) unfolding d(3) by - (rule exI[of _ d], rule exI[of _ d'], simp)
qed

text \<open>Authority is never reused: the boot, the incarnation and the epoch minted at an open are strictly
  greater than every one the document has recorded, and the epoch also than the one of the fence.\<close>

theorem minted_boot_is_fresh:
  assumes "mint_boot producer now s = Some b"
  shows "list_all (\<lambda>r. br_boot r < br_boot b \<and> br_incarnation r < br_incarnation b \<and> br_epoch r < br_epoch b) (ss_boot_ledger s) \<and>
    fv_epoch (ss_fence s) < br_epoch b"
  using mint_boot_fresh[OF assms] by (simp add: list_all_iff)

theorem minted_boot_is_fresh_witness:
  "\<exists>b. mint_boot 9 5 demo_store = Some b \<and> 1 < br_epoch b"
proof -
  have "mint_boot 9 5 demo_store \<noteq> None" by code_simp
  then obtain b where "mint_boot 9 5 demo_store = Some b" by blast
  with minted_boot_is_fresh[OF this] show ?thesis by (auto simp: demo_store_def demo_boot_def)
qed

section \<open>Documents made unreadable\<close>

text \<open>C37: the writer of snapshots accepts payloads up to 32 MiB, the reader of records refuses payloads above
  4 MiB: a document whose snapshot has a size in between is written without complaint and is refused as
  corrupt by every later open.\<close>

theorem large_snapshot_unreadable:
  assumes "k_record_payload < length (encode_store_state (ds_state d))"
    and "length (encode_store_state (ds_state d)) \<le> k_snapshot_payload"
  shows "is_ok (fst (rewrite_snapshot g Replace_Done d)) \<and>
    scan_document l (ds_file (snd (rewrite_snapshot g Replace_Done d))) =
      Inl (Oc_IntegrityFailure, txt_durable_store_refused @ txt_declared_payload_length_exceeds_the)"
proof -
  let ?s = "(ds_state d)\<lparr>ss_store_generation := g\<rparr>"
  have len: "k_record_payload < length (encode_store_state ?s)" "length (encode_store_state ?s) \<le> k_snapshot_payload"
    using assms by (simp_all add: length_encode_store)
  have w: "is_ok (fst (rewrite_snapshot g Replace_Done d))"
    "ds_file (snd (rewrite_snapshot g Replace_Done d)) = frame_record Rt_Snapshot 1 g (encode_store_state ?s)"
    using len(2) by (simp_all add: rewrite_snapshot_def Let_def encode_store_nonempty)
  from decode_large_snapshot[OF len, of 1 Rt_Snapshot g "[]"]
  have "scan_document l (frame_record Rt_Snapshot 1 g (encode_store_state ?s)) =
      Inl (Oc_IntegrityFailure, txt_durable_store_refused @ txt_declared_payload_length_exceeds_the)"
    unfolding scan_document_def by (subst scan_from.simps) (simp add: scan_start_def)
  then show ?thesis using w by simp
qed

theorem large_snapshot_unreadable_witness: "\<exists>d l. is_ok (fst (rewrite_snapshot 2 Replace_Done d)) \<and>
    scan_document l (ds_file (snd (rewrite_snapshot 2 Replace_Done d))) =
      Inl (Oc_IntegrityFailure, txt_durable_store_refused @ txt_declared_payload_length_exceeds_the)"
proof -
  let ?s = "default_store_state\<lparr>ss_boot_ledger := replicate 100000 fresh_boot\<rparr>"
  obtain d :: durable_store where d: "ds_state d = ?s" by (metis durable_store.select_convs(4))
  have "length (encode_store_state ?s) = 6100106"
    by (simp add: encode_store_state_def write_store_state_def take_checked_def put_simps write_optional_def write_blob_def
      default_store_state_def put_counted_def list_ex_iff length_concat sum_list_replicate)
  with large_snapshot_unreadable[of d 2] show ?thesis unfolding d by (auto simp: k_record_payload_def k_snapshot_payload_def)
qed

text \<open>When a compaction fails before its snapshot is installed, the generation in memory has moved on
  although the document has not. The next acknowledged record carries the new generation, and every later
  open refuses the whole document as superseded.\<close>

theorem failed_compaction_loses_document:
  assumes "document_ok d" "ds_open d" "ss_store_generation (ds_state d) \<noteq> - 1" "\<not> over_bounds d"
    and "length (encode_store_state (ds_state d)) \<le> k_snapshot_payload" "type \<noteq> Rt_Snapshot" "length payload \<le> k_record_payload"
    and "io_append io = Append_Done"
  shows "case append_payload io type payload (snd (compact (Replace_Failed True why) d)) of (st, d') \<Rightarrow>
    is_ok st \<and> (\<exists>detail. scan_document (ds_limits d) (ds_file d') = Inl (Oc_Stale, detail))"
proof -
  let ?g = "ss_store_generation (ds_state d)"
  let ?d1 = "d\<lparr>ds_state := (ds_state d)\<lparr>ss_store_generation := ?g + 1\<rparr>, ds_open := True\<rparr>"
  have d1: "snd (compact (Replace_Failed True why) d) = ?d1"
    using assms(2,3,5)
    by (simp add: compact_def rewrite_snapshot_def Let_def encode_store_nonempty length_encode_store)
  have over: "\<not> over_bounds ?d1" using assms(4) by (simp add: over_bounds_def)
  let ?d2 = "?d1\<lparr>ds_file := ds_file d @ frame_record type (ds_next_sequence d) (?g + 1) payload,
    ds_next_sequence := ds_next_sequence d + 1,
    ds_journal_bytes := ds_journal_bytes d + of_nat (length (frame_record type (ds_next_sequence d) (?g + 1) payload)),
    ds_journal_records := ds_journal_records d + 1\<rparr>"
  have d2: "append_payload io type payload ?d1 = (status_ok, ?d2)"
    using over assms(7,8) by (simp add: append_payload_def write_record_def Let_def)
  obtain p es s where doc: "ds_file d = journal_bytes ?g 1 ((Rt_Snapshot, p) # es)" "length p \<le> k_record_payload" "entries_ok es"
    "length es < unat (max_journal_records (ds_limits d))" "ds_next_sequence d = 2 + of_nat (length es)" "?g \<noteq> 0"
    using assms(1) unfolding document_ok_def by blast
  have "?g + 1 \<noteq> ?g" by simp
  then have "\<exists>detail. scan_document (ds_limits d) (ds_file ?d2) = Inl (Oc_Stale, detail)"
    using scan_bad_record[OF doc(6,2,3,4) assms(6) document_next_nonzero[OF doc(4)] assms(7), of "?g + 1" "[]"] doc(1,5) by auto
  then show ?thesis unfolding d1 d2 by simp
qed

theorem failed_compaction_loses_document_witness:
  "\<exists>d detail. ds_open d \<and> scan_document small_limits (ds_file (snd (append_payload \<lparr>io_replace = Replace_Done, io_append = Append_Done\<rparr>
     Rt_FenceAdvance (encode_fence demo_fence) (snd (compact (Replace_Failed True ''disk full'') d))))) = Inl (Oc_Stale, detail)"
proof -
  obtain d where d: "fresh_store d" "ds_open d" "ds_limits d = small_limits" "roomy d" "\<not> over_bounds d" "document_ok d"
    "ds_state d = default_store_state\<lparr>ss_fence := first_fence fresh_boot, ss_boot_ledger := [fresh_boot]\<rparr>"
    by (rule fresh_opens_small)
  have "ss_store_generation (ds_state d) \<noteq> - 1" "length (encode_store_state (ds_state d)) \<le> k_snapshot_payload"
    using fresh_small[of fresh_boot] by (simp_all add: d(7) default_store_state_def k_record_payload_def k_snapshot_payload_def)
  from failed_compaction_loses_document[OF d(6,2) this(1) d(5) this(2), of Rt_FenceAdvance "encode_fence demo_fence"
      "\<lparr>io_replace = Replace_Done, io_append = Append_Done\<rparr>" "''disk full''"] d(2,3) demo_torn(4)
  show ?thesis by (auto split: prod.splits)
qed

text \<open>When an append reaches the disk but its flush fails, the operation reports failure and the sequence
  number is kept for the next record. Once the next append succeeds the document holds one number twice,
  and every later open refuses it.\<close>

theorem failed_flush_loses_document:
  assumes "document_ok d" "ds_open d" "\<not> over_bounds d" "ds_journal_records d < ucast (max_journal_records (ds_limits d))"
    and "type \<noteq> Rt_Snapshot" "length payload \<le> k_record_payload" "type' \<noteq> Rt_Snapshot" "length payload' \<le> k_record_payload"
  shows "case append_payload \<lparr>io_replace = Replace_Done, io_append = Append_Unsynced why\<rparr> type payload d of (st, d') \<Rightarrow>
    \<not> is_ok st \<and> (case append_payload \<lparr>io_replace = Replace_Done, io_append = Append_Done\<rparr> type' payload' d' of (st', d'') \<Rightarrow>
      is_ok st' \<and> (\<exists>detail. scan_document (ds_limits d) (ds_file d'') = Inl (Oc_IntegrityFailure, detail)))"
proof -
  let ?g = "ss_store_generation (ds_state d)" and ?s = "ds_next_sequence d"
  let ?d1 = "d\<lparr>ds_file := ds_file d @ frame_record type ?s ?g payload\<rparr>"
  let ?d2 = "?d1\<lparr>ds_file := ds_file ?d1 @ frame_record type' ?s ?g payload', ds_next_sequence := ?s + 1,
    ds_journal_bytes := ds_journal_bytes d + of_nat (length (frame_record type' ?s ?g payload')),
    ds_journal_records := ds_journal_records d + 1\<rparr>"
  have d1: "append_payload \<lparr>io_replace = Replace_Done, io_append = Append_Unsynced why\<rparr> type payload d = (failure Oc_IoFailure why, ?d1)"
    using assms(2,3,6) by (simp add: append_payload_def write_record_def Let_def)
  have "\<not> over_bounds ?d1" using assms(3) by (simp add: over_bounds_def)
  then have d2: "append_payload \<lparr>io_replace = Replace_Done, io_append = Append_Done\<rparr> type' payload' ?d1 = (status_ok, ?d2)"
    using assms(2,8) by (simp add: append_payload_def write_record_def Let_def)
  obtain p es s where doc: "ds_file d = journal_bytes ?g 1 ((Rt_Snapshot, p) # es)" "length p \<le> k_record_payload" "entries_ok es"
    "length es < unat (max_journal_records (ds_limits d))" "?s = 2 + of_nat (length es)" "?g \<noteq> 0"
    "ds_journal_records d = 1 + of_nat (length es)"
    using assms(1) unfolding document_ok_def by blast
  let ?es = "es @ [(type, payload)]"
  have more: "length ?es < unat (max_journal_records (ds_limits d))"
    using document_room[OF doc(4)] assms(4) doc(7) by simp
  have "entries_ok ?es" using doc(3) assms(5,6) by (auto simp: entries_ok_def)
  moreover have "?s \<noteq> 2 + of_nat (length ?es)" using doc(5) by simp
  moreover have "ds_file ?d2 = journal_bytes ?g 1 ((Rt_Snapshot, p) # ?es) @ frame_record type' ?s ?g payload' @ []"
    using doc(1,5) by simp
  ultimately have "\<exists>detail. scan_document (ds_limits d) (ds_file ?d2) = Inl (Oc_IntegrityFailure, detail)"
    using scan_bad_record[OF doc(6,2) _ more assms(7) _ assms(8), of ?s ?g "[]"] document_next_nonzero[OF doc(4)] doc(5) by auto
  then show ?thesis unfolding d1 by (simp add: d2)
qed

theorem failed_flush_loses_document_witness:
  "\<exists>(d :: durable_store) detail. ds_open d \<and> scan_document small_limits (ds_file (snd (append_payload
     \<lparr>io_replace = Replace_Done, io_append = Append_Done\<rparr> Rt_FenceAdvance (encode_fence demo_fence)
     (snd (append_payload \<lparr>io_replace = Replace_Done, io_append = Append_Unsynced ''fsync''\<rparr> Rt_FenceAdvance
       (encode_fence demo_fence) d))))) = Inl (Oc_IntegrityFailure, detail)"
proof -
  obtain d where d: "fresh_store d" "ds_open d" "ds_limits d = small_limits" "roomy d" "\<not> over_bounds d" "document_ok d"
    "ds_state d = default_store_state\<lparr>ss_fence := first_fence fresh_boot, ss_boot_ledger := [fresh_boot]\<rparr>"
    by (rule fresh_opens_small)
  have "ds_journal_records d < ucast (max_journal_records (ds_limits d))" using d(4,5) by (simp add: roomy_def)
  from failed_flush_loses_document[OF d(6,2,5) this _ demo_torn(4) _ demo_torn(4), of Rt_FenceAdvance Rt_FenceAdvance "''fsync''"] d(2,3)
  show ?thesis by (auto split: prod.splits)
qed

text \<open>C38: the bound on the number of records is off by one: an append into a document that holds exactly the
  maximum is accepted without compaction, and the document then has one record more than any reader accepts.\<close>

theorem record_bound_off_by_one:
  assumes "document_ok d" "ds_open d" "\<not> over_bounds d" "ds_journal_records d = ucast (max_journal_records (ds_limits d))"
    and "type \<noteq> Rt_Snapshot" "length payload \<le> k_record_payload" "io_append io = Append_Done"
  shows "case append_payload io type payload d of (st, d') \<Rightarrow>
    is_ok st \<and> scan_document (ds_limits d) (ds_file d') = Inl (Oc_Exhausted, txt_durable_journal_exceeds_its_record)"
proof -
  let ?g = "ss_store_generation (ds_state d)" and ?s = "ds_next_sequence d"
  let ?d1 = "d\<lparr>ds_file := ds_file d @ frame_record type ?s ?g payload, ds_next_sequence := ?s + 1,
    ds_journal_bytes := ds_journal_bytes d + of_nat (length (frame_record type ?s ?g payload)),
    ds_journal_records := ds_journal_records d + 1\<rparr>"
  have d1: "append_payload io type payload d = (status_ok, ?d1)"
    using assms(2,3,6,7) by (simp add: append_payload_def write_record_def Let_def)
  obtain p es s where doc: "ds_file d = journal_bytes ?g 1 ((Rt_Snapshot, p) # es)" "length p \<le> k_record_payload" "entries_ok es"
    "length es < unat (max_journal_records (ds_limits d))" "?s = 2 + of_nat (length es)" "?g \<noteq> 0"
    "ds_journal_records d = 1 + of_nat (length es)"
    using assms(1) unfolding document_ok_def by blast
  have "Suc (length es) = unat (max_journal_records (ds_limits d))"
    using document_room[OF doc(4)] assms(4) doc(4,7) by simp
  from scan_too_many[OF doc(6,2,3) this assms(5,6), of "[]"] show ?thesis by (simp add: d1 doc(1,5))
qed

theorem record_bound_off_by_one_witness:
  "\<exists>(d :: durable_store) l. ds_open d \<and> scan_document l (ds_file (snd (append_payload \<lparr>io_replace = Replace_Done, io_append = Append_Done\<rparr>
     Rt_FenceAdvance (encode_fence demo_fence) d))) = Inl (Oc_Exhausted, txt_durable_journal_exceeds_its_record)"
proof -
  let ?l = "small_limits\<lparr>max_journal_records := 1\<rparr>"
  have sane: "limits_are_sane ?l" by code_simp
  have "255 \<le> max_journal_bytes ?l" by (simp add: small_limits_counts)
  from fresh_opens[OF sane this] obtain d where d: "open_document demo_io ?l ''store'' 9 [] = ok d" "ds_open d" "ds_limits d = ?l"
    "ds_journal_records d = 1" "\<not> ds_journal_bytes d > max_journal_bytes ?l" by blast
  have "\<not> over_bounds d" using d by (simp add: over_bounds_def)
  moreover have "document_ok d" using fresh_document_ok[OF sane d(1)] by (simp add: journal_ok_def)
  ultimately have "scan_document ?l (ds_file (snd (append_payload \<lparr>io_replace = Replace_Done, io_append = Append_Done\<rparr>
      Rt_FenceAdvance (encode_fence demo_fence) d))) = Inl (Oc_Exhausted, txt_durable_journal_exceeds_its_record)"
    using record_bound_off_by_one[of d Rt_FenceAdvance "encode_fence demo_fence" "\<lparr>io_replace = Replace_Done, io_append = Append_Done\<rparr>"]
      d demo_torn(4) by (auto split: prod.splits)
  with d(2) show ?thesis by blast
qed

end
