(* ===== verification/Spec_Runtime.thy ===== *)
theory Spec_Runtime
  imports Runtime_Contract Runtime_Mirror Example_Plan Spec_Wire Spec_Durable
begin

text \<open>
  The properties of the runtime: what holds in all its histories, what a published finding, an issued intent
  and a verified finding stand for, what detection leads to, and what survives a restart. The example is an
  in-memory runtime on the ring of \<open>Example_Fabric\<close>.
\<close>

section \<open>A runtime on the ring\<close>

definition demo_config :: "string \<Rightarrow> runtime_config" where
  "demo_config path = \<lparr>rc_limits = small_limits, rc_producer = 9, rc_store_path = path,
     rc_previous_shutdown_was_clean = True, rc_boot_tick = 0, rc_origin = Origin_Synthetic\<rparr>"

definition demo_opened :: runtime where
  "demo_opened = finish_runtime (memory_runtime (demo_config []))"

definition demo_installed :: runtime where
  "demo_installed = snd (set_topology (\<lambda>_. oi_write demo_io) ring_definition 1 demo_opened)"

definition demo_observe :: "u64 \<Rightarrow> u64 \<Rightarrow> u64 \<Rightarrow> u64 list \<Rightarrow> runtime \<Rightarrow> runtime" where
  "demo_observe i u v ss r = snd (submit_observation (demo_observation i i u v Ev_Present ss 1) 2 r)"

definition ring_runtime :: runtime where
  "ring_runtime = demo_observe 2 2 1 [10, 20] (demo_observe 1 1 2 [10] demo_installed)"

lemma demo_opens: "runtime_open demo_io (demo_config []) = ok demo_opened"
  by (simp add: runtime_open_def demo_config_def small_limits_sane demo_opened_def)

lemma demo_start: "runtime_start demo_opened"
  unfolding runtime_start_def using demo_opens
  by (auto simp: demo_opened_def memory_runtime_def blank_runtime_def Let_def lineage_ordered_def)

lemma ring_runtime_steps: "runtime_step\<^sup>*\<^sup>* demo_opened ring_runtime"
proof -
  have "rt_store demo_opened = None" by (simp add: demo_opened_def memory_runtime_def blank_runtime_def Let_def)
  then have "runtime_step demo_opened demo_installed"
    by (intro runtime_step.topology[of "\<lambda>_. oi_write demo_io" ring_definition 1 _ "fst (set_topology (\<lambda>_. oi_write demo_io) ring_definition 1 demo_opened)"])
      (simp_all add: demo_installed_def)
  moreover have "runtime_step r (demo_observe i u v ss r)" for i u v ss r
    unfolding demo_observe_def by (rule observe)
  ultimately show ?thesis unfolding ring_runtime_def by (meson converse_rtranclp_into_rtranclp rtranclp.rtrancl_refl)
qed

lemma ring_runtime_ok: "runtime_ok ring_runtime"
  by (rule runtime_machine.steps_inv[OF ring_runtime_steps runtime_machine.inv_initial[OF demo_start]])

lemma demo_opened_fields:
  "rt_topology demo_opened = None" "rt_store demo_opened = None" "rt_config demo_opened = demo_config []"
  "rt_findings demo_opened = new_registry small_limits" "rt_ledger demo_opened = new_ledger small_limits"
  "rt_fence demo_opened = demo_fence" "rt_lineage demo_opened = []" "rt_plans demo_opened = []"
  "rt_applications demo_opened = Map.empty"
  by (simp_all add: demo_opened_def memory_runtime_def blank_runtime_def demo_config_def finish_runtime_def Let_def
      fence_boot_def fence_where_def new_registry_def zero_fence_def demo_fence_def)

lemma small_limits_config: "rc_limits (demo_config path) = small_limits" "max_retained_lineage small_limits = 4096"
  "max_retained_findings small_limits = 512"
  by (simp_all add: demo_config_def small_limits_def default_limits_def)

lemma demo_installed_fields:
  "rt_topology demo_installed = Some ring" "rt_store demo_installed = None" "rt_config demo_installed = demo_config []"
  "rt_findings demo_installed = new_registry small_limits" "rt_ledger demo_installed = new_ledger small_limits"
  "rt_fence demo_installed = demo_fence" "next_sequence (rt_lineage demo_installed) = 2"
  "rt_applications demo_installed = Map.empty" "rt_plans demo_installed = []"
proof -
  have fence: "demo_fence\<lparr>fv_topology := td_generation ring\<rparr> = demo_fence" by (simp add: ring_def demo_fence_def)
  show "rt_topology demo_installed = Some ring" "rt_store demo_installed = None" "rt_config demo_installed = demo_config []"
    "rt_findings demo_installed = new_registry small_limits" "rt_ledger demo_installed = new_ledger small_limits"
    "rt_fence demo_installed = demo_fence" "next_sequence (rt_lineage demo_installed) = 2"
    "rt_applications demo_installed = Map.empty" "rt_plans demo_installed = []"
    by (simp_all add: demo_installed_def set_topology_def Let_def demo_opened_fields small_limits_config ring_canonical
        on_store_none commit_fence_def fence_live_def fence_stale_def fence_where_def new_registry_def fence
        append_lineage_def next_sequence_def id_try_next_def id_valid_def trim_front_def count_up_def)
qed

lemma ring_runtime_fields:
  "rt_topology ring_runtime = Some ring" "rt_store ring_runtime = None" "rt_config ring_runtime = demo_config []"
  "rt_findings ring_runtime = new_registry small_limits" "rt_ledger ring_runtime = ring_ledger"
  "rt_fence ring_runtime = demo_fence" "next_sequence (rt_lineage ring_runtime) = 2"
  by (simp_all add: ring_runtime_def demo_observe_def submit_observation_def ring_ledger_def submit_all_def
      demo_installed_fields split: prod.split)

section \<open>Histories\<close>

text \<open>C5: in every history of a runtime in which each operation that advances the fence or installs a definition or
  a policy succeeds, or there is no store to write to (other operations may fail in any way), from any
  document whose lineage is in order: every finding that is not terminal binds the current fence; the installed definition is well formed and the one the fence names;
  the lineage is in strictly ascending order; and the recorded effects of an intent are for its own
  targets, one each, under its own fence. The exclusion is needed: when the write of a new fence fails, the
  fence in memory has moved and live findings keep the old one (finding at runtime.cpp:257).\<close>

theorem live_authority_is_current:
  assumes "runtime_open io c = ok r0" "sorted_wrt (<) (map lr_sequence (rt_lineage r0))" "runtime_step\<^sup>*\<^sup>* r0 r"
  shows "list_all (\<lambda>f. is_terminal f \<or> fi_fence f = rt_fence r) (fr_findings (rt_findings r)) \<and>
    pred_option (\<lambda>t. topology_ok t \<and> td_generation t = fv_topology (rt_fence r)) (rt_topology r) \<and>
    sorted_wrt (<) (map lr_sequence (rt_lineage r)) \<and>
    pred_option (\<lambda>a. ap_intent a = k \<and> sorted_wrt (<) (map ve_target (ap_effects a)) \<and>
      list_all (\<lambda>e. ve_target e \<in> set (ap_targets a) \<and> ve_fence e = ap_fence a) (ap_effects a)) (rt_applications r k)"
proof -
  have "runtime_start r0" unfolding runtime_start_def lineage_ordered_def using assms(1,2) by blast
  from runtime_machine.steps_inv[OF assms(3) runtime_machine.inv_initial[OF this]] have r: "runtime_ok r" .
  then show ?thesis
    by (auto simp: runtime_defs live_bound_def lineage_ordered_def application_ok_def list_all_iff option.pred_set
        elim: option.set_cases)
qed

text \<open>C15: the detector's confirmed answer can be published: right after a detection that confirms a loop, with
  nothing in between, over a store or without one, publication succeeds exactly when the document takes
  its two records (the finding and its lineage record), unless the registry is full, the identity of the
  finding is taken, the lineage numbers are exhausted or the fence carries no boot. Without a store
  there is nothing to write, so it succeeds.\<close>

theorem confirmed_loop_is_published:
  assumes "runtime_ok r" "detect now scope r = (ok a, r1)" "la_outcome a = Loop_LoopConfirmed"
    and "id_valid (fv_boot (rt_fence r))" "id_valid (next_sequence (rt_lineage r))"
    and "fi_id (finding_of r a now) \<notin> fi_id ` set (fr_findings (rt_findings r))"
    and "length (fr_findings (rt_findings r)) < unat (max_retained_findings (fr_limits (rt_findings r)))"
  shows "(has_value (fst (publish_finding io a now r1)) \<longleftrightarrow> publication_written io (finding_of r a now) now r) \<and>
    (publication_written io (finding_of r a now) now r \<longrightarrow> fst (publish_finding io a now r1) = ok (finding_of r a now)) \<and>
    (rt_store r = None \<longrightarrow> publication_written io (finding_of r a now) now r) \<and>
    fi_state (finding_of r a now) = Fs_Confirmed"
  using detected_publishes[OF assms, of io] by (simp add: publication_written_def)

lemma ring_detection: "detect 5 [] ring_runtime = (ok (finalize (ring_search ring_ledger)),
    count_up (\<lambda>k. k\<lparr>kt_assessments_run := kt_assessments_run k + 1\<rparr>) ring_runtime)"
  using ring_assessment[of ring_ledger] by (simp add: detect_def ring_runtime_fields small_limits_config question_def)

lemma ring_publishable:
  "la_outcome (finalize (ring_search ring_ledger)) = Loop_LoopConfirmed" "id_valid (fv_boot (rt_fence ring_runtime))"
  "id_valid (next_sequence (rt_lineage ring_runtime))" "fr_findings (rt_findings ring_runtime) = []"
  "0 < unat (max_retained_findings (fr_limits (rt_findings ring_runtime)))"
  by (simp_all add: finalize_fields ring_confirmed ring_runtime_fields demo_fence_def id_valid_def new_registry_def small_limits_config)

theorem confirmed_loop_is_published_witness:
  "\<exists>a f :: finding. fst (detect 5 [] ring_runtime) = ok a \<and>
    fst (publish_finding (\<lambda>_. oi_write demo_io) a 5 (snd (detect 5 [] ring_runtime))) = ok f"
  using confirmed_loop_is_published[OF ring_runtime_ok ring_detection ring_publishable(1-3), of "\<lambda>_. oi_write demo_io"]
    ring_publishable(4,5) ring_runtime_fields(2) unfolding ring_detection by (auto simp: ring_detection)

text \<open>A state of the example with one live, published finding.\<close>

lemma ring_published:
  obtains f r where "runtime_step\<^sup>*\<^sup>* demo_opened r" "publish_finding (\<lambda>_. oi_write demo_io) (finalize (ring_search ring_ledger)) 5
      (snd (detect 5 [] ring_runtime)) = (ok f, r)" "f \<in> set (fr_findings (rt_findings r))" "fi_state f = Fs_Confirmed"
proof -
  let ?a = "finalize (ring_search ring_ledger)" and ?io = "\<lambda>_. oi_write demo_io"
  obtain r where p: "publish_finding ?io ?a 5 (snd (detect 5 [] ring_runtime)) = (ok (finding_of ring_runtime ?a 5), r)"
    using detected_publishes(2)[OF ring_runtime_ok ring_detection ring_publishable(1-3), of ?io]
      ring_publishable(4,5) ring_runtime_fields(2) unfolding ring_detection publication_written_def
    by (cases "publish_finding ?io ?a 5 (count_up (\<lambda>k. k\<lparr>kt_assessments_run := kt_assessments_run k + 1\<rparr>) ring_runtime)") auto
  have "runtime_step ring_runtime (snd (detect 5 [] ring_runtime))" by (rule detection)
  moreover have "runtime_step (snd (detect 5 [] ring_runtime)) r"
    using publication[of "snd (detect 5 [] ring_runtime)" ?io ?a 5] p by simp
  ultimately have steps: "runtime_step\<^sup>*\<^sup>* demo_opened r"
    using ring_runtime_steps by (meson rtranclp.rtrancl_into_rtrancl)
  have "runtime_ok (snd (detect 5 [] ring_runtime))" by (rule detect_ok[OF ring_runtime_ok])
  from publish_finding_okD(5)[OF this p] show ?thesis using that[OF steps p] by simp
qed

theorem live_authority_is_current_witness:
  "\<exists>(r :: runtime) f. \<not> is_terminal f \<and> f \<in> set (fr_findings (rt_findings r)) \<and> fi_fence f = rt_fence r"
proof -
  obtain f r where r: "runtime_step\<^sup>*\<^sup>* demo_opened r" "f \<in> set (fr_findings (rt_findings r))" "fi_state f = Fs_Confirmed"
    by (rule ring_published)
  have "sorted_wrt (<) (map lr_sequence (rt_lineage demo_opened))" by (simp add: demo_opened_fields)
  from live_authority_is_current[OF demo_opens this r(1), of 0]
  have "is_terminal f \<or> fi_fence f = rt_fence r" using r(2) by (simp add: list_all_iff)
  moreover have "\<not> is_terminal f" using r(3) by (simp add: is_terminal_def state_is_terminal_def)
  ultimately show ?thesis using r(2) by blast
qed

text \<open>C3: a finding is published only when, at that moment, every witness it rests on is a loop of the installed
  definition and the current evidence, in canonical form and under the current fence; the finding is then
  registered as confirmed.\<close>

theorem published_findings_are_loops:
  assumes "runtime_ok r" "publish_finding io a now r = (ok f, r')"
  shows "f \<in> set (fr_findings (rt_findings r')) \<and> fi_state f = Fs_Confirmed \<and> fi_fence f = rt_fence r \<and> la_witnesses a \<noteq> [] \<and>
    (\<exists>t. rt_topology r = Some t \<and> (\<forall>w \<in> set (la_witnesses a).
       loop_at t (rt_ledger r) (rt_fence r) now (lw_cycle w) (lw_hops w) (lw_selectors w) \<and>
       canonical_witness t (rt_ledger r) (rt_fence r) (rt_limits r) w))"
  using publish_finding_okD[OF assms] by simp

theorem published_findings_are_loops_witness:
  "\<exists>w :: loop_witness. loop_at ring ring_ledger demo_fence 5 (lw_cycle w) (lw_hops w) (lw_selectors w)"
proof -
  obtain f r where p: "publish_finding (\<lambda>_. oi_write demo_io) (finalize (ring_search ring_ledger)) 5
      (snd (detect 5 [] ring_runtime)) = (ok f, r)" by (rule ring_published)
  have "runtime_ok (snd (detect 5 [] ring_runtime))" by (rule detect_ok[OF ring_runtime_ok])
  from published_findings_are_loops[OF this p] show ?thesis
    by (auto simp: ring_detection ring_runtime_fields) (metis list.set_intros(1) list.exhaust)
qed

section \<open>Authority\<close>

text \<open>C4: an intent is issued only for a live finding under the current fence with a plan of that fence that
  authorizes action, and only inside both the plan and the grant: its targets are distinct targets of the
  plan and of the grant's scope, within the grant's count and cost, under an active grant. The runtime
  then knows the intent with exactly these targets.\<close>

theorem intents_stay_inside_authority:
  assumes "authorize_containment io k grant now lease targets r = (ok i, r')" "runtime_ok r" "sorted (cg_scope grant)"
  shows "\<exists>f p. find_finding (rt_findings r) k = Some f \<and> \<not> is_terminal f \<and> fi_fence f = rt_fence r \<and>
    map_of (rt_plans r) (fi_plan f) = Some p \<and> authorizes_action p \<and> pl_fence p = rt_fence r \<and>
    grant_is_active grant (rt_fence r) now \<and> ci_fence i = rt_fence r \<and> ci_finding i = k \<and> ci_plan i = pl_id p \<and>
    ci_targets i \<noteq> [] \<and> sorted_wrt (<) (ci_targets i) \<and>
    set (ci_targets i) \<subseteq> ct_resource ` set (pl_targets p) \<inter> set (cg_scope grant) \<and>
    length (ci_targets i) \<le> unat (cg_max_targets grant) \<and>
    sum_list (map (\<lambda>t. ucast (ct_cost (the (find_target p t)))) (ci_targets i)) \<le> cg_max_total_cost grant \<and>
    map_option ap_targets (rt_applications r' (ci_id i)) = Some (ci_targets i)"
proof -
  have "r_value (ok i) = Some i" by simp
  from authorize_containment_okD[OF assms(2,1) this] obtain f p where f: "find_finding (rt_findings r) k = Some f"
    "\<not> is_terminal f" "fi_fence f = rt_fence r" "map_of (rt_plans r) (fi_plan f) = Some p" "authorizes_action p"
    "pl_fence p = rt_fence r" and g: "grantable p grant (rt_fence r) now (ci_targets i)"
    and i: "i = intent_of r k p (ci_targets i) now lease" and a: "rt_applications r' (ci_id i) = Some (application_of r i)"
    by metis
  obtain cost where cost: "requested_cost p (ci_targets i) = Some cost" "sorted_wrt (<) (ci_targets i)"
    "authorize grant (ci_targets i) cost (rt_fence r) now = status_ok"
    using g by (auto simp: grantable_def)
  have "ci_fence i = rt_fence r" "ci_finding i = k" "ci_plan i = pl_id p"
    by (subst i, simp add: intent_of_def Let_def)+
  moreover note requested_cost_Some[OF cost(1)] cost(3)[unfolded authorize_ok_iff] authorize_scope[OF assms(3) cost(3)]
  moreover have "map_option ap_targets (rt_applications r' (ci_id i)) = Some (ci_targets i)"
    by (simp add: a application_of_def)
  ultimately show ?thesis using f cost(2) by blast
qed

definition planned_target :: containment_target where
  "planned_target = \<lparr>ct_resource = 1, ct_domain = 1, ct_cost = 1, ct_reason = Target_SoleBreakOfWitness, ct_witnesses = [1],
     ct_selectors = [10], ct_hops = [1]\<rparr>"

definition planned_runtime :: runtime where
  "planned_runtime = ring_runtime\<lparr>rt_findings := (new_registry small_limits)\<lparr>fr_findings := [(demo_finding 5 Fs_Confirmed 3)\<lparr>fi_plan := 7\<rparr>]\<rparr>,
     rt_plans := [(7, (digest_free zero_digest)\<lparr>pl_id := 7, pl_outcome := Con_PlanOptimal, pl_within_budget := True,
       pl_targets := [planned_target]\<rparr>)]\<rparr>"

lemma planned_runtime_ok: "runtime_ok planned_runtime"
proof -
  have "registry_ok (rt_findings planned_runtime)"
    by (simp add: planned_runtime_def registry_ok_def new_registry_def demo_finding_def id_valid_def small_limits_config)
  moreover have "live_bound (rt_fence planned_runtime) (rt_findings planned_runtime)"
    by (simp add: live_bound_def planned_runtime_def demo_finding_def ring_runtime_fields)
  ultimately show ?thesis
    using ring_runtime_ok by (simp add: runtime_defs) (simp add: planned_runtime_def)
qed

lemma planned_authorizes:
  "\<exists>i r'. authorize_containment (\<lambda>_. oi_write demo_io) 5 demo_grant 10 20 [] planned_runtime = (ok i, r')"
proof -
  let ?p = "(digest_free zero_digest)\<lparr>pl_id := 7, pl_outcome := Con_PlanOptimal, pl_within_budget := True,
       pl_targets := [planned_target]\<rparr>"
  let ?f = "(demo_finding 5 Fs_Confirmed 3)\<lparr>fi_plan := 7\<rparr>"
  let ?r = planned_runtime
  have f: "find_finding (rt_findings ?r) 5 = Some ?f" "\<not> is_terminal ?f" "fi_fence ?f = demo_fence" "fi_plan ?f = 7"
    by (simp_all add: planned_runtime_def find_finding_def new_registry_def demo_finding_def is_terminal_def state_is_terminal_def)
  have r: "map_of (rt_plans ?r) 7 = Some ?p" "rt_fence ?r = demo_fence" "rt_store ?r = None" "next_sequence (rt_lineage ?r) = 2"
    by (simp_all add: planned_runtime_def ring_runtime_fields)
  have p: "authorizes_action ?p" "pl_fence ?p = demo_fence" "target_resources ?p = [1]" "requested_cost ?p [1] = Some 1"
    by (simp_all add: authorizes_action_def digest_free_def target_resources_def requested_cost_def find_target_def planned_target_def)
  have g: "authorize demo_grant [1] 1 demo_fence 10 = status_ok" by code_simp
  have "fst (issue_intent io i now ?r) = ok i" for io i now
    by (simp add: issue_intent_def Let_def append_lineage_def r on_store_none id_valid_def)
  then show ?thesis
    by (simp add: authorize_containment_def f r p authorize_targets_def Let_def g) (metis prod.collapse)
qed

theorem intents_stay_inside_authority_witness:
  "\<exists>i r'. authorize_containment (\<lambda>_. oi_write demo_io) 5 demo_grant 10 20 [] planned_runtime = (ok i, r') \<and>
    set (ci_targets i) \<subseteq> {1, 2}"
proof -
  obtain i r' where a: "authorize_containment (\<lambda>_. oi_write demo_io) 5 demo_grant 10 20 [] planned_runtime = (ok i, r')"
    using planned_authorizes by blast
  have scope: "sorted (cg_scope demo_grant)" "set (cg_scope demo_grant) = {1, 2}" by (simp_all add: demo_grant_def)
  from intents_stay_inside_authority[OF a planned_runtime_ok scope(1)] scope(2) a show ?thesis by blast
qed

text \<open>C6: a finding becomes verified in no other way than by effects: when an operation leads to a finding that
  counts as containment-verified and did not before, the runtime holds an intent for it, issued under the
  current fence, with an effect recorded under that fence for each of its targets. Acknowledgements and
  everything else never do it.\<close>

theorem verified_only_by_effects:
  assumes "runtime_ok r" "runtime_step r r'" "f' \<in> set (fr_findings (rt_findings r'))" "fi_state f' = Fs_ContainmentVerified"
    and "(fi_id f', Fs_ContainmentVerified) \<notin> (\<lambda>f. (fi_id f, fi_state f)) ` set (fr_findings (rt_findings r))"
  shows "\<exists>i a. rt_applications r' i = Some a \<and> ap_finding a = fi_id f' \<and> ap_fence a = rt_fence r' \<and> ap_targets a \<noteq> [] \<and>
    set (ap_targets a) = ve_target ` set (ap_effects a) \<and> ve_fence ` set (ap_effects a) \<subseteq> {rt_fence r'}"
proof -
  have "\<nexists>f. f \<in> set (fr_findings (rt_findings r)) \<and> fi_id f = fi_id f' \<and> fi_state f = Fs_ContainmentVerified"
    using assms(5) by (force simp: image_iff)
  from runtime_step_verified[OF assms(1-4) this] show ?thesis by (fastforce simp: verified_by_def)
qed

definition acting_runtime :: runtime where
  "acting_runtime = ring_runtime\<lparr>rt_findings := (new_registry small_limits)\<lparr>fr_findings := [demo_finding 1 Fs_ContainmentRequested 3]\<rparr>,
     rt_applications := [3 \<mapsto> demo_application [2]]\<rparr>"

definition last_effect :: verified_effect where
  "last_effect = \<lparr>ve_target = 1, ve_observation = 4, ve_fence = demo_fence, ve_verified_at = 7, ve_origin = Origin_Synthetic\<rparr>"

lemma acting_runtime_ok: "runtime_ok acting_runtime"
proof -
  have "registry_ok (rt_findings acting_runtime)"
    by (simp add: acting_runtime_def registry_ok_def new_registry_def demo_finding_def id_valid_def small_limits_config)
  moreover have "live_bound (rt_fence acting_runtime) (rt_findings acting_runtime)"
    by (simp add: live_bound_def acting_runtime_def demo_finding_def ring_runtime_fields)
  moreover have "\<forall>k a. rt_applications acting_runtime k = Some a \<longrightarrow> ap_intent a = k \<and> application_ok a"
    by (auto simp: acting_runtime_def demo_application_def application_ok_def split: if_splits)
  moreover have "rt_config acting_runtime = rt_config ring_runtime" "rt_ledger acting_runtime = rt_ledger ring_runtime"
    "rt_lineage acting_runtime = rt_lineage ring_runtime" "rt_topology acting_runtime = rt_topology ring_runtime"
    "rt_fence acting_runtime = rt_fence ring_runtime"
    by (simp_all add: acting_runtime_def)
  ultimately show ?thesis using ring_runtime_ok unfolding runtime_defs by metis
qed

lemma acting_verified:
  "map fi_state (fr_findings (rt_findings (snd (record_verified_effect io 3 last_effect now acting_runtime)))) = [Fs_ContainmentVerified]"
proof -
  let ?a = "demo_application [2]"
  have a: "rt_applications acting_runtime 3 = Some ?a" "rt_fence acting_runtime = demo_fence" "ap_fence ?a = demo_fence"
    "ve_fence last_effect = demo_fence"
    by (simp_all add: acting_runtime_def ring_runtime_fields demo_application_def last_effect_def)
  have "binary_search (ap_targets ?a) (ve_target last_effect)" "fully_verified (add_effect last_effect ?a)"
    "\<not> list_ex (\<lambda>x. ve_target x = ve_target last_effect) (ap_effects ?a)" by code_simp+
  moreover have "ap_finding ?a = 1" by (simp add: demo_application_def)
  moreover have "fi_state (demo_finding 1 Fs_ContainmentRequested 3) = Fs_ContainmentRequested" "fi_id (demo_finding 1 Fs_ContainmentRequested 3) = 1"
    by (simp_all add: demo_finding_def)
  ultimately show ?thesis
    by (simp add: record_verified_effect_def a Let_def record_outcome_fields)
      (simp add: acting_runtime_def update_state_def find_finding_def modify_finding_def is_terminal_def state_is_terminal_def)
qed

theorem verified_only_by_effects_witness:
  "\<exists>i a. rt_applications (snd (record_verified_effect (\<lambda>_. oi_write demo_io) 3 last_effect 8 acting_runtime)) i = Some a \<and>
    set (ap_targets a) = ve_target ` set (ap_effects a)"
proof -
  let ?r = "snd (record_verified_effect (\<lambda>_. oi_write demo_io) 3 last_effect 8 acting_runtime)"
  obtain f where f: "f \<in> set (fr_findings (rt_findings ?r))" "fi_state f = Fs_ContainmentVerified"
    using acting_verified[of "\<lambda>_. oi_write demo_io" 8] by (auto simp: map_eq_Cons_conv)
  have "(fi_id f, Fs_ContainmentVerified) \<notin> (\<lambda>f. (fi_id f, fi_state f)) ` set (fr_findings (rt_findings acting_runtime))"
    by (simp add: acting_runtime_def demo_finding_def)
  moreover have "runtime_step acting_runtime ?r" by (rule effect)
  ultimately obtain i a where "rt_applications ?r i = Some a" "set (ap_targets a) = ve_target ` set (ap_effects a)"
    using verified_only_by_effects[OF acting_runtime_ok _ f] by metis
  then show ?thesis by - (rule exI[of _ i], rule exI[of _ a], simp)
qed

section \<open>Restart\<close>

text \<open>C16: opening a runtime grants nothing: whatever the document says, every finding in the opened runtime is
  terminal, and it holds no evidence, no plan and no application.\<close>

theorem opening_grants_nothing:
  assumes "runtime_open io c = ok r"
  shows "list_all is_terminal (fr_findings (rt_findings r)) \<and> el_observations (rt_ledger r) = [] \<and> rt_plans r = [] \<and>
    rt_applications r = Map.empty \<and> rt_open r"
proof -
  have "rt_open r" using assms by (rule runtime_open_cases) simp_all
  then show ?thesis using runtime_open_idle[OF assms] by (simp add: idle_def list_all_iff new_ledger_def)
qed

text \<open>C9: what a runtime was told survives it: after a history as in C5, and provided that at its end the document
  replays to the state the store holds in memory and has room for a record (document_ok and roomy are
  assumed of the last state: C8 gives the first for successful mutations, it is not derived here for
  histories in which writes fail), a runtime that is opened from the document under the same limits - even one with a record cut
  short at its end - has the same definition, policy and lineage, under a boot that the document has
  never recorded.\<close>

theorem restart_keeps_definitions:
  assumes "runtime_open io0 c0 = ok r0" "sorted_wrt (<) (map lr_sequence (rt_lineage r0))" "runtime_step\<^sup>*\<^sup>* r0 r"
    and "rt_store r = Some d" "document_ok d" "roomy d" "torn_tail q"
    and "runtime_open io c = ok r'" "rc_limits c = rt_limits r" "rc_store_path c \<noteq> []"
    and "oi_inspected io = None" "oi_content io = Some (ok (ds_file d @ q))"
  shows "rt_topology r' = rt_topology r \<and> rt_policy r' = rt_policy r \<and> rt_lineage r' = rt_lineage r \<and>
    fv_boot (rt_fence r') \<notin> br_boot ` set (ss_boot_ledger (ds_state d))"
proof -
  have "runtime_start r0" unfolding runtime_start_def lineage_ordered_def using assms(1,2) by blast
  from mirror_machine.steps_inv[OF assms(3) mirror_machine.inv_initial[OF this]]
  show ?thesis using restart_restores[OF _ assms(4-12)] by blast
qed

theorem restart_keeps_definitions_witness:
  "\<exists>(r0 :: runtime) d r'. rt_store r0 = Some d \<and> runtime_open (demo_io\<lparr>oi_content := Some (ok (ds_file d @
       take 20 (frame_record Rt_FenceAdvance 5 1 (encode_fence demo_fence))))\<rparr>) (demo_config ''store'') = ok r' \<and>
     rt_lineage r' = rt_lineage r0 \<and> fv_boot (rt_fence r') \<noteq> 1"
proof -
  let ?q = "take 20 (frame_record Rt_FenceAdvance 5 1 (encode_fence demo_fence))" and ?c = "demo_config ''store''"
  have "255 \<le> max_journal_bytes small_limits" by (simp add: small_limits_counts)
  from fresh_opens[OF small_limits_sane this] obtain d where d: "open_document demo_io small_limits ''store'' 9 [] = ok d"
    "ds_limits d = small_limits" "ds_state d = default_store_state\<lparr>ss_fence := first_fence fresh_boot, ss_boot_ledger := [fresh_boot]\<rparr>"
    "ds_journal_records d = 1" "\<not> ds_journal_bytes d > max_journal_bytes small_limits" by blast
  have over: "\<not> over_bounds d" using d by (simp add: over_bounds_def small_limits_counts)
  have room: "roomy d" using d over by (simp add: roomy_def small_limits_counts)
  have doc: "document_ok d" using fresh_document_ok[OF small_limits_sane d(1)] by (simp add: journal_ok_def)
  define r0 where "r0 = finish_runtime (restore_runtime ?c d)"
  have c: "rc_limits ?c = small_limits" "rc_store_path ?c = ''store''" "rc_producer ?c = 9" by (simp_all add: demo_config_def)
  have "open_or_create demo_io ''store'' small_limits 9 = ok d"
    using d(1) by (simp add: open_or_create_def small_limits_sane demo_io_def id_valid_def)
  then have open0: "runtime_open demo_io ?c = ok r0" by (simp add: runtime_open_def c small_limits_sane r0_def)
  have r0: "rt_store r0 = Some d" "rt_config r0 = ?c" "rt_lineage r0 = []"
    using d(3) by (simp_all add: r0_def restore_runtime_def blank_runtime_def Let_def default_store_state_def)
  have "(5 :: u64) \<noteq> 0" by simp
  then have torn: "torn_tail ?q" unfolding torn_tail_def using demo_torn(1,3,4) by blast
  let ?io = "demo_io\<lparr>oi_content := Some (ok (ds_file d @ ?q))\<rparr>"
  have io: "is_ok (oi_handle ?io)" "oi_write ?io = \<lparr>io_replace = Replace_Done, io_append = Append_Done\<rparr>"
    "oi_inspected ?io = None" "oi_content ?io = Some (ok (ds_file d @ ?q))" "oi_now ?io = 3" by (simp_all add: demo_io_def)
  have "mint_boot 9 3 (ds_state d) \<noteq> None" unfolding d(3) by code_simp
  then obtain d' where "open_document ?io small_limits ''store'' 9 (ds_file d @ ?q) = ok d'"
    using reopen_succeeds[OF doc torn room over io(1,2), of 9 "''store''"] unfolding d(2) io(5) by blast
  then have "open_or_create ?io ''store'' small_limits 9 = ok d'"
    using io(3,4) by (simp add: open_or_create_def small_limits_sane id_valid_def)
  then obtain r' where open': "runtime_open ?io ?c = ok r'" by (simp add: runtime_open_def c small_limits_sane)
  have "sorted_wrt (<) (map lr_sequence (rt_lineage r0))" "rc_limits ?c = rt_limits r0" "rc_store_path ?c \<noteq> []"
    by (simp_all add: r0 c)
  from restart_keeps_definitions[OF open0 this(1) rtranclp.rtrancl_refl r0(1) doc room torn open' this(2,3) io(3,4)]
  show ?thesis using r0(1) open' d(3) by - (rule exI[of _ r0], rule exI[of _ d], rule exI[of _ r'], simp add: fresh_boot_def)
qed

theorem opening_grants_nothing_witness:
  "list_all is_terminal (fr_findings (rt_findings demo_opened)) \<and> rt_plans demo_opened = []"
  using opening_grants_nothing[OF demo_opens] by simp

section \<open>A verified finding that is not\<close>

text \<open>C34: an acknowledgement is said never to move a finding to a verified state, but it moves one out of it: for
  every intent under the current fence that is fully verified and whose finding is ContainmentVerified, an
  acknowledgement (one of the four that are kept) sets the finding back to applied-unverified,
  although the intent keeps all its effects and is still fully verified.\<close>

theorem late_acknowledgement_undoes_verification:
  assumes "rt_applications r (ca_intent ack) = Some a" "ap_fence a = rt_fence r" "fully_verified a"
    and "length (ap_acknowledgements a) < 4"
    and "find_finding (rt_findings r) (ap_finding a) = Some f" "fi_state f = Fs_ContainmentVerified"
  shows "map_option fi_state (find_finding (rt_findings (snd (record_acknowledgement io ack now r))) (ap_finding a)) =
      Some Fs_ContainmentAppliedUnverified \<and>
    (\<exists>a'. rt_applications (snd (record_acknowledgement io ack now r)) (ca_intent ack) = Some a' \<and>
       fully_verified a' \<and> ap_effects a' = ap_effects a \<and> ap_finding a' = ap_finding a)"
proof -
  have room: "\<not> 4 \<le> length (ap_acknowledgements a)" using assms(4) by simp
  let ?a = "a\<lparr>ap_acknowledgements := ap_acknowledgements a @ [ack]\<rparr>"
  have "unverified_targets ?a = unverified_targets a" by (simp add: unverified_targets_def verified_targets_def)
  then have "fully_verified ?a" using assms(3) by (simp add: fully_verified_def split: if_splits)
  moreover have "rt_applications (snd (record_acknowledgement io ack now r)) (ca_intent ack) = Some ?a"
    using room by (simp add: record_acknowledgement_def assms(1,2) record_outcome_fields)
  moreover have "\<not> is_terminal f" using assms(6) by (simp add: is_terminal_def state_is_terminal_def)
  then have "map_option fi_state (find_finding (rt_findings (snd (record_acknowledgement io ack now r))) (ap_finding a)) =
      Some Fs_ContainmentAppliedUnverified"
    using room by (simp add: record_acknowledgement_def assms(1,2,5) record_outcome_fields update_state_def find_modify_finding)
  ultimately show ?thesis by simp
qed

text \<open>The state right after the last effect of an intent.\<close>

definition settled_runtime :: runtime where
  "settled_runtime = snd (record_verified_effect (\<lambda>_. oi_write demo_io) 3 last_effect 8 acting_runtime)"

lemma settled_fields:
  "rt_applications settled_runtime 3 = Some (add_effect last_effect (demo_application [2]))" "rt_fence settled_runtime = demo_fence"
  "map_option fi_state (find_finding (rt_findings settled_runtime) 1) = Some Fs_ContainmentVerified"
proof -
  let ?a = "demo_application [2]"
  have a: "rt_applications acting_runtime 3 = Some ?a" "rt_fence acting_runtime = demo_fence" "ap_fence ?a = demo_fence"
    "ve_fence last_effect = demo_fence" "ap_finding ?a = 1"
    by (simp_all add: acting_runtime_def ring_runtime_fields demo_application_def last_effect_def)
  have v: "binary_search (ap_targets ?a) (ve_target last_effect)" "fully_verified (add_effect last_effect ?a)"
    "\<not> list_ex (\<lambda>x. ve_target x = ve_target last_effect) (ap_effects ?a)" by code_simp+
  have f: "find_finding (rt_findings acting_runtime) 1 = Some (demo_finding 1 Fs_ContainmentRequested 3)"
    "\<not> is_terminal (demo_finding 1 Fs_ContainmentRequested 3)"
    by (simp_all add: acting_runtime_def find_finding_def demo_finding_def is_terminal_def state_is_terminal_def)
  show "rt_applications settled_runtime 3 = Some (add_effect last_effect ?a)" "rt_fence settled_runtime = demo_fence"
    "map_option fi_state (find_finding (rt_findings settled_runtime) 1) = Some Fs_ContainmentVerified"
    by (simp_all add: settled_runtime_def record_verified_effect_def a v Let_def record_outcome_fields update_state_def
        find_modify_finding f count_up_def)
qed

theorem late_acknowledgement_undoes_verification_witness:
  "map_option fi_state (find_finding (rt_findings (snd (record_acknowledgement (\<lambda>_. oi_write demo_io) demo_acknowledgement 9
     settled_runtime))) 1) = Some Fs_ContainmentAppliedUnverified"
proof -
  let ?a = "add_effect last_effect (demo_application [2])"
  have a: "ca_intent demo_acknowledgement = 3" "ap_fence ?a = demo_fence" "fully_verified ?a" "length (ap_acknowledgements ?a) < 4" "ap_finding ?a = 1"
    by code_simp+
  obtain f where "find_finding (rt_findings settled_runtime) 1 = Some f" "fi_state f = Fs_ContainmentVerified"
    using settled_fields(3) by auto
  then show ?thesis
    using late_acknowledgement_undoes_verification[of settled_runtime demo_acknowledgement ?a f] settled_fields(1,2) a by simp
qed

end
