(* ===== verification/Topology_Text.thy ===== *)
theory Topology_Text
  imports Wire
begin

text \<open>
  The text form of a definition: \<open>topology_to_text\<close> and \<open>topology_from_text\<close> of src/topology.cpp with
  their lexical helpers. A position in a line is the rest of the line; the loop over the lines is
  \<open>text_lines\<close>, which threads the builder and whether a generation was declared. std::from_chars into
  an unsigned integer (digits only, no sign, out of range is an error) followed by the check that
  nothing is left over is \<open>from_chars\<close>.

  The lemmas: one per lexical helper, stating what it reads off the text the printer writes, then one
  per directive; \<open>from_text_to_text\<close> puts them together: a definition that was built, whose labels
  have neither a quote nor a line feed, is read back from its text unchanged.
\<close>

section \<open>Texts\<close>

definition txt_topology_line_lacks_generation :: string where
  "txt_topology_line_lacks_generation = ''topology line lacks generation''"

definition txt_invalid_topology_generation :: string where
  "txt_invalid_topology_generation = ''invalid topology generation''"

definition txt_unknown_administrative_state :: string where
  "txt_unknown_administrative_state = ''unknown administrative state''"

definition txt_invalid_edge_endpoint_identity :: string where
  "txt_invalid_edge_endpoint_identity = ''invalid edge endpoint identity''"

definition txt_topology_generation_was_not_declared :: string where
  "txt_topology_generation_was_not_declared = ''topology generation was not declared''"

definition txt_unknown_directive_on_line :: string where
  "txt_unknown_directive_on_line = ''unknown directive on line ''"

section \<open>Lexical helpers\<close>

definition from_chars :: "nat \<Rightarrow> string \<Rightarrow> nat option" where
  "from_chars maximum text =
     (if text \<noteq> [] \<and> list_all is_digit text \<and> dec_value text \<le> maximum then Some (dec_value text) else None)"

definition parse_u64 :: "string \<Rightarrow> u64 option" where
  "parse_u64 text = map_option word_of_nat (from_chars (2 ^ 64 - 1) text)"

definition parse_u32 :: "string \<Rightarrow> u32 option" where
  "parse_u32 text = map_option word_of_nat (from_chars (2 ^ 32 - 1) text)"

definition quote :: char where
  "quote = CHR 0x22"

definition unquote :: "string \<Rightarrow> string" where
  "unquote raw = (if length raw \<ge> 2 \<and> hd raw = quote \<and> last raw = quote then butlast (tl raw) else raw)"

definition is_blank :: "char \<Rightarrow> bool" where
  "is_blank c \<longleftrightarrow> c = CHR '' '' \<or> c = CHR 0x09"

function split_ws :: "string \<Rightarrow> string list" where
  "split_ws line =
     (let rest = dropWhile is_blank line
      in if rest = [] then []
         else takeWhile (\<lambda>c. \<not> is_blank c) rest # split_ws (dropWhile (\<lambda>c. \<not> is_blank c) rest))"
  by pat_completeness auto

text \<open>A word that was not empty was taken off the line.\<close>

lemma split_ws_shorter:
  assumes "dropWhile is_blank line \<noteq> []"
  shows "length (dropWhile (\<lambda>c. \<not> is_blank c) (dropWhile is_blank line)) < length line"
proof -
  obtain c cs where cs: "dropWhile is_blank line = c # cs" using assms by (cases "dropWhile is_blank line") auto
  have "\<not> is_blank c" using hd_dropWhile[OF assms] cs by simp
  then have "length (dropWhile (\<lambda>c. \<not> is_blank c) (c # cs)) \<le> length cs"
    by (simp add: length_dropWhile_le)
  also have "\<dots> < length line" using length_dropWhile_le[of is_blank line] cs by simp
  finally show ?thesis using cs by simp
qed

termination split_ws
  by (relation "measure length") (simp_all add: split_ws_shorter)

declare split_ws.simps [simp del]

text \<open>The value after an equals sign: up to the closing quote, or up to the next space.\<close>

definition split_value :: "string \<Rightarrow> string \<times> string" where
  "split_value text =
     (if text \<noteq> [] \<and> hd text = quote
      then let inner = takeWhile (\<lambda>c. c \<noteq> quote) (tl text); rest = dropWhile (\<lambda>c. c \<noteq> quote) (tl text)
           in (quote # inner @ take 1 rest, drop 1 rest)
      else (takeWhile (\<lambda>c. c \<noteq> CHR '' '') text, dropWhile (\<lambda>c. c \<noteq> CHR '' '') text))"

function split_fields :: "string \<Rightarrow> (string \<times> string) list" where
  "split_fields text =
     (let start = dropWhile (\<lambda>c. c = CHR '' '') text;
          rest = dropWhile (\<lambda>c. c \<noteq> CHR ''='') start
      in if rest = [] then []
         else (takeWhile (\<lambda>c. c \<noteq> CHR ''='') start, fst (split_value (tl rest))) #
           split_fields (snd (split_value (tl rest))))"
  by pat_completeness auto

lemma split_value_length: "length (snd (split_value text)) \<le> length text"
proof -
  have "length (drop 1 (dropWhile (\<lambda>c. c \<noteq> quote) (tl text))) \<le> length text"
    using length_dropWhile_le[of "\<lambda>c. c \<noteq> quote" "tl text"] unfolding length_drop length_tl by linarith
  then show ?thesis by (simp add: split_value_def Let_def length_dropWhile_le)
qed

lemma split_fields_shorter:
  assumes "dropWhile P (dropWhile Q text) \<noteq> []"
  shows "length (snd (split_value (tl (dropWhile P (dropWhile Q text))))) < length text"
proof -
  have "length (dropWhile P (dropWhile Q text)) \<le> length text"
    by (rule order_trans[OF length_dropWhile_le length_dropWhile_le])
  then show ?thesis
    using split_value_length[of "tl (dropWhile P (dropWhile Q text))"] assms
    by (cases "dropWhile P (dropWhile Q text)") auto
qed

termination split_fields
  by (relation "measure length") (simp_all add: split_fields_shorter)

declare split_fields.simps [simp del]

definition find_field :: "(string \<times> string) list \<Rightarrow> string \<Rightarrow> string option" where
  "find_field kvs key = map_option snd (find (\<lambda>(k, v). k = key) kvs)"

text \<open>The loops over std::string_view::find: the pieces between two separators.\<close>

fun split_on :: "char \<Rightarrow> string \<Rightarrow> string list" where
  "split_on sep [] = [[]]"
| "split_on sep (c # cs) =
     (if c = sep then [] # split_on sep cs
      else (c # hd (split_on sep cs)) # tl (split_on sep cs))"

section \<open>The printer\<close>

definition selector_text :: "traffic_selector \<Rightarrow> string" where
  "selector_text s = ''selector '' @ id_to_string (ts_id s) @ '' kind='' @ name_traffic_selector_kind (ts_kind s) @
     '' label='' @ [quote] @ ts_label s @ [quote]"

definition resource_text :: "resource_record \<Rightarrow> string" where
  "resource_text r = ''resource '' @ id_to_string (rr_id r) @ '' domain='' @ id_to_string (rr_domain r) @
     '' kind='' @ name_resource_kind (rr_kind r) @ '' admin='' @ name_administrative_state (rr_admin r) @
     '' containable='' @ (if rr_containable r then ''1'' else ''0'') @
     '' cost='' @ dec_digits (unat (rr_cost r)) @ '' label='' @ [quote] @ rr_label r @ [quote]"

definition edge_text :: "forwarding_edge \<Rightarrow> string" where
  "edge_text e = ''edge '' @ id_to_string (fe_id e) @ '' from='' @ id_to_string (fe_from e) @
     '' to='' @ id_to_string (fe_to e) @ '' domain='' @ id_to_string (fe_domain e) @
     '' link='' @ name_link_state (fe_link e) @ '' selectors='' @
     join_with '','' (map id_to_string (fe_selectors e))"

definition generation_text :: "u64 \<Rightarrow> string" where
  "generation_text g = ''topology generation='' @ id_to_string g"

definition topology_to_text :: "topology \<Rightarrow> string" where
  "topology_to_text t = generation_text (td_generation t) @ newline @
     concat (map (\<lambda>s. selector_text s @ newline) (td_selectors t)) @
     concat (map (\<lambda>r. resource_text r @ newline) (td_resources t)) @
     concat (map (\<lambda>e. edge_text e @ newline) (td_edges t))"

section \<open>The parser\<close>

text \<open>A failure of a directive is the failure of the whole text.\<close>

definition then_parse :: "'a result \<Rightarrow> ('a \<Rightarrow> 'b result) \<Rightarrow> 'b result" where
  "then_parse r f = (case r_value r of Some v \<Rightarrow> f v | None \<Rightarrow> failure (r_outcome r) (r_detail r))"

definition need :: "'a option \<Rightarrow> string \<Rightarrow> 'a result" where
  "need v detail = (case v of Some x \<Rightarrow> ok x | None \<Rightarrow> failure Oc_Invalid detail)"

definition valid_identity :: "string \<Rightarrow> u64 option" where
  "valid_identity text = (case parse_u64 text of Some i \<Rightarrow> if id_valid i then Some i else None | None \<Rightarrow> None)"

text \<open>An enumerator by name; the default when the field is absent.\<close>

definition enum_field :: "('e \<Rightarrow> string) \<Rightarrow> 'e list \<Rightarrow> 'e \<Rightarrow> string option \<Rightarrow> string \<Rightarrow> 'e result" where
  "enum_field name vals absent field detail =
     (case field of None \<Rightarrow> ok absent | Some v \<Rightarrow> need (enum_parse name vals v) detail)"

definition label_field :: "string option \<Rightarrow> string" where
  "label_field field = (case field of None \<Rightarrow> [] | Some v \<Rightarrow> unquote v)"

text \<open>The builder's answer to a line, with the number of the line in front of its detail.\<close>

definition added :: "string \<Rightarrow> nat \<Rightarrow> status \<times> topology_builder \<Rightarrow> topology_builder result" where
  "added directive n answer =
     (if is_ok (fst answer) then ok (snd answer)
      else failure (r_outcome (fst answer)) (directive @ '' line '' @ dec_digits n @ '': '' @ r_detail (fst answer)))"

definition topology_line :: "string \<Rightarrow> string list \<Rightarrow> topology_builder \<Rightarrow> topology_builder result" where
  "topology_line line parts b =
     (let kvs = split_fields (drop (length (parts ! 0)) line)
      in then_parse (need (find_field kvs ''generation'') txt_topology_line_lacks_generation)
           (\<lambda>text. then_parse (need (valid_identity text) txt_invalid_topology_generation)
           (\<lambda>g. ok (b\<lparr>tb_generation := g\<rparr>))))"

definition selector_line :: "nat \<Rightarrow> string \<Rightarrow> string list \<Rightarrow> topology_builder \<Rightarrow> topology_builder result" where
  "selector_line n line parts b =
     (if length parts < 2 then failure Oc_Invalid ''selector line lacks identity''
      else then_parse (need (valid_identity (parts ! 1)) ''invalid selector identity'') (\<lambda>i.
        let kvs = split_fields (drop (length (parts ! 0) + 1 + length (parts ! 1)) line)
        in then_parse (enum_field name_traffic_selector_kind values_traffic_selector_kind Sel_FlowClass
             (find_field kvs ''kind'') ''unknown selector kind'') (\<lambda>kind.
           added ''selector'' n (add_selector \<lparr>ts_id = i, ts_kind = kind,
             ts_label = label_field (find_field kvs ''label'')\<rparr> b))))"

definition resource_line :: "nat \<Rightarrow> string \<Rightarrow> string list \<Rightarrow> topology_builder \<Rightarrow> topology_builder result" where
  "resource_line n line parts b =
     (if length parts < 2 then failure Oc_Invalid ''resource line lacks identity''
      else then_parse (need (valid_identity (parts ! 1)) ''invalid resource identity'') (\<lambda>i.
        let kvs = split_fields (drop (length (parts ! 0) + 1 + length (parts ! 1)) line)
        in then_parse (need (Option.bind (find_field kvs ''domain'') valid_identity) ''invalid resource domain'') (\<lambda>d.
           then_parse (enum_field name_resource_kind values_resource_kind Kind_Unsupported
             (find_field kvs ''kind'') ''unknown resource kind'') (\<lambda>kind.
           then_parse (enum_field name_administrative_state values_administrative_state Admin_Unknown
             (find_field kvs ''admin'') txt_unknown_administrative_state) (\<lambda>admin.
           then_parse (case find_field kvs ''cost'' of None \<Rightarrow> ok 1
               | Some v \<Rightarrow> need (parse_u32 v) ''invalid resource cost'') (\<lambda>cost.
           added ''resource'' n (add_resource \<lparr>rr_id = i, rr_domain = d, rr_kind = kind, rr_admin = admin,
             rr_containable = (find_field kvs ''containable'' = Some ''1''), rr_cost = cost,
             rr_label = label_field (find_field kvs ''label'')\<rparr> b)))))))"

fun selector_tokens :: "string list \<Rightarrow> u64 list result" where
  "selector_tokens [] = ok []"
| "selector_tokens (token # tokens) =
     (if token = [] then selector_tokens tokens
      else then_parse (need (valid_identity token) ''invalid edge selector'') (\<lambda>s.
        then_parse (selector_tokens tokens) (\<lambda>ss. ok (s # ss))))"

definition edge_line :: "nat \<Rightarrow> string \<Rightarrow> string list \<Rightarrow> topology_builder \<Rightarrow> topology_builder result" where
  "edge_line n line parts b =
     (if length parts < 2 then failure Oc_Invalid ''edge line lacks identity''
      else then_parse (need (valid_identity (parts ! 1)) ''invalid edge identity'') (\<lambda>i.
        let kvs = split_fields (drop (length (parts ! 0) + 1 + length (parts ! 1)) line)
        in case (find_field kvs ''from'', find_field kvs ''to'', find_field kvs ''domain'') of
             (Some from, Some to, Some domain) \<Rightarrow>
               (case (parse_u64 from, parse_u64 to, parse_u64 domain) of
                  (Some f, Some t, Some d) \<Rightarrow>
                    then_parse (enum_field name_link_state values_link_state Link_Unknown
                      (find_field kvs ''link'') ''unknown link state'') (\<lambda>link.
                    then_parse (case find_field kvs ''selectors'' of None \<Rightarrow> ok []
                        | Some list \<Rightarrow> selector_tokens (split_on (CHR '','') list)) (\<lambda>ss.
                    added ''edge'' n (add_edge \<lparr>fe_id = i, fe_from = f, fe_to = t, fe_domain = d,
                      fe_link = link, fe_selectors = sort ss\<rparr> b)))
                | _ \<Rightarrow> failure Oc_Invalid txt_invalid_edge_endpoint_identity)
           | _ \<Rightarrow> failure Oc_Invalid ''edge line lacks endpoints''))"

definition text_line :: "nat \<Rightarrow> string \<Rightarrow> topology_builder \<times> bool \<Rightarrow> (topology_builder \<times> bool) result" where
  "text_line n line st =
     (let parts = split_ws line
      in if parts = [] then ok st
         else if parts ! 0 = ''topology'' then then_parse (topology_line line parts (fst st)) (\<lambda>b. ok (b, True))
         else if parts ! 0 = ''selector'' then then_parse (selector_line n line parts (fst st)) (\<lambda>b. ok (b, snd st))
         else if parts ! 0 = ''resource'' then then_parse (resource_line n line parts (fst st)) (\<lambda>b. ok (b, snd st))
         else if parts ! 0 = ''edge'' then then_parse (edge_line n line parts (fst st)) (\<lambda>b. ok (b, snd st))
         else failure Oc_Invalid (txt_unknown_directive_on_line @ dec_digits n))"

fun text_lines :: "nat \<Rightarrow> string list \<Rightarrow> topology_builder \<times> bool \<Rightarrow> (topology_builder \<times> bool) result" where
  "text_lines n [] st = ok st"
| "text_lines n (line # lines) st = then_parse (text_line n line st) (text_lines (Suc n) lines)"

definition topology_from_text :: "string \<Rightarrow> limits \<Rightarrow> topology result" where
  "topology_from_text text l =
     then_parse (text_lines 1 (split_on (CHR 0x0A) text) (new_builder l, False)) (\<lambda>(b, have_generation).
       if \<not> have_generation then failure Oc_Invalid txt_topology_generation_was_not_declared else build b)"

section \<open>Reading off what the printer writes\<close>

lemma then_parse_simps [simp]:
  "then_parse (ok v) f = f v" "then_parse (failure oc d) f = failure oc d"
  by (simp_all add: then_parse_def)

lemma need_simps [simp]: "need (Some v) d = ok v" "need None d = failure Oc_Invalid d"
  by (simp_all add: need_def)

lemma split_ws_word:
  assumes "w \<noteq> []" "\<forall>c \<in> set w. \<not> is_blank c" "rest = [] \<or> is_blank (hd rest)"
  shows "split_ws (w @ rest) = w # split_ws rest"
proof -
  have "dropWhile is_blank (w @ rest) = w @ rest"
    using assms(1,2) by (cases w) auto
  moreover have "takeWhile (\<lambda>c. \<not> is_blank c) (w @ rest) = w" "dropWhile (\<lambda>c. \<not> is_blank c) (w @ rest) = rest"
    using assms(2,3) by (cases rest; auto simp: takeWhile_append dropWhile_append)+
  ultimately show ?thesis
    using assms(1) by (subst split_ws.simps) (simp add: Let_def)
qed

lemma split_ws_space [simp]: "split_ws (CHR '' '' # rest) = split_ws rest"
  by (subst (1 2) split_ws.simps) (simp add: is_blank_def)

lemma split_fields_plain:
  assumes "k \<noteq> []" "hd k \<noteq> CHR '' ''" "CHR ''='' \<notin> set k" "CHR '' '' \<notin> set v"
    and "v = [] \<or> hd v \<noteq> quote" "rest = [] \<or> hd rest = CHR '' ''"
  shows "split_fields (CHR '' '' # k @ CHR ''='' # v @ rest) = (k, v) # split_fields rest"
proof -
  have start: "dropWhile (\<lambda>c. c = CHR '' '') (k @ CHR ''='' # v @ rest) = k @ CHR ''='' # v @ rest"
    using assms(1,2) by (cases k) auto
  have key: "takeWhile (\<lambda>c. c \<noteq> CHR ''='') (k @ CHR ''='' # v @ rest) = k"
      "dropWhile (\<lambda>c. c \<noteq> CHR ''='') (k @ CHR ''='' # v @ rest) = CHR ''='' # v @ rest"
    using assms(3) by (simp_all add: takeWhile_append dropWhile_append)
  have "hd (v @ rest) \<noteq> quote \<or> v @ rest = []"
    using assms(5,6) by (cases v; cases rest) (auto simp: quote_def)
  moreover have "takeWhile (\<lambda>c. c \<noteq> CHR '' '') (v @ rest) = v" "dropWhile (\<lambda>c. c \<noteq> CHR '' '') (v @ rest) = rest"
    using assms(4,6) by (cases rest; auto simp: takeWhile_append dropWhile_append)+
  ultimately have "split_value (v @ rest) = (v, rest)" by (auto simp: split_value_def)
  then show ?thesis by (subst split_fields.simps) (simp add: start key Let_def)
qed

lemma split_fields_quoted:
  assumes "k \<noteq> []" "hd k \<noteq> CHR '' ''" "CHR ''='' \<notin> set k" "quote \<notin> set v"
  shows "split_fields (CHR '' '' # k @ CHR ''='' # quote # v @ quote # rest) =
    (k, quote # v @ [quote]) # split_fields rest"
proof -
  let ?quoted = "quote # v @ quote # rest"
  have start: "dropWhile (\<lambda>c. c = CHR '' '') (k @ CHR ''='' # ?quoted) = k @ CHR ''='' # ?quoted"
    using assms(1,2) by (cases k) auto
  have key: "takeWhile (\<lambda>c. c \<noteq> CHR ''='') (k @ CHR ''='' # ?quoted) = k"
      "dropWhile (\<lambda>c. c \<noteq> CHR ''='') (k @ CHR ''='' # ?quoted) = CHR ''='' # ?quoted"
    using assms(3) by (simp_all add: takeWhile_append dropWhile_append)
  have "takeWhile (\<lambda>c. c \<noteq> quote) (v @ quote # rest) = v" "dropWhile (\<lambda>c. c \<noteq> quote) (v @ quote # rest) = quote # rest"
    using assms(4) by (auto simp: takeWhile_append dropWhile_append)
  then have "split_value ?quoted = (quote # v @ [quote], rest)" by (simp add: split_value_def)
  then show ?thesis by (subst split_fields.simps) (simp add: start key Let_def)
qed

lemma unquote_quoted [simp]: "unquote (quote # v @ [quote]) = v"
  by (simp add: unquote_def)

text \<open>Digits are neither blanks, separators nor quotes.\<close>

lemma digits_plain:
  assumes "c \<in> set (dec_digits n)"
  shows "\<not> is_blank c" "c \<noteq> CHR '' ''" "c \<noteq> CHR '',''" "c \<noteq> quote" "c \<noteq> CHR 0x0A"
proof -
  have "is_digit c" using dec_digits_value[of n] assms by (auto simp: list_all_iff)
  then show "\<not> is_blank c" "c \<noteq> CHR '' ''" "c \<noteq> CHR '',''" "c \<noteq> quote" "c \<noteq> CHR 0x0A"
    by (auto simp: is_digit_def is_blank_def quote_def less_eq_char_def)
qed

lemma id_plain:
  "id_to_string i \<noteq> []" "\<forall>c \<in> set (id_to_string i). \<not> is_blank c" "CHR '' '' \<notin> set (id_to_string i)"
  "CHR '','' \<notin> set (id_to_string i)" "CHR 0x0A \<notin> set (id_to_string i)" "hd (id_to_string i) \<noteq> quote"
proof -
  show ne: "id_to_string i \<noteq> []" using dec_digits_value[of "unat i"] by (simp add: id_to_string_def)
  show "\<forall>c \<in> set (id_to_string i). \<not> is_blank c" "CHR '' '' \<notin> set (id_to_string i)"
      "CHR '','' \<notin> set (id_to_string i)" "CHR 0x0A \<notin> set (id_to_string i)"
    unfolding id_to_string_def using digits_plain by blast+
  show "hd (id_to_string i) \<noteq> quote"
    using digits_plain(4)[of "hd (id_to_string i)" "unat i"] hd_in_set[OF ne] by (simp add: id_to_string_def)
qed

lemma parse_u64_id [simp]: "parse_u64 (id_to_string i) = Some i"
proof -
  have "unat i < 2 ^ LENGTH(64)" by (rule unsigned_less)
  then show ?thesis
    using dec_digits_value[of "unat i"] by (simp add: parse_u64_def from_chars_def id_to_string_def)
qed

lemma valid_identity_id: "id_valid i \<Longrightarrow> valid_identity (id_to_string i) = Some i"
  by (simp add: valid_identity_def)

lemma parse_u32_digits [simp]: "parse_u32 (dec_digits (unat (c :: u32))) = Some c"
proof -
  have "unat c < 2 ^ LENGTH(32)" by (rule unsigned_less)
  then show ?thesis using dec_digits_value[of "unat c"] by (simp add: parse_u32_def from_chars_def)
qed

text \<open>What an unquoted value needs; every enumerator's name has it.\<close>

definition plain_value :: "string \<Rightarrow> bool" where
  "plain_value v \<longleftrightarrow> list_all (\<lambda>c. c \<noteq> CHR '' '' \<and> c \<noteq> quote \<and> c \<noteq> CHR 0x0A) v"

lemma names_plain [simp]:
  "plain_value (name_traffic_selector_kind k)" "plain_value (name_resource_kind rk)"
  "plain_value (name_administrative_state a)" "plain_value (name_link_state ls)"
proof -
  show "plain_value (name_traffic_selector_kind k)" by (cases k) (simp_all add: plain_value_def quote_def)
  show "plain_value (name_resource_kind rk)" by (cases rk) (simp_all add: plain_value_def quote_def)
  show "plain_value (name_administrative_state a)" by (cases a) (simp_all add: plain_value_def quote_def)
  show "plain_value (name_link_state ls)" by (cases ls) (simp_all add: plain_value_def quote_def)
qed

lemma numbers_plain [simp]: "plain_value (dec_digits n)" "plain_value (id_to_string i)"
  using digits_plain by (auto simp: plain_value_def id_to_string_def list_all_iff)

lemma flag_plain [simp]: "plain_value (if b then ''1'' else ''0'')"
  by (simp add: plain_value_def quote_def)

lemma join_plain [simp]: "plain_value (join_with '','' (map id_to_string ss))"
proof (induction ss rule: induct_list012)
  case (3 i j ss)
  then show ?case using numbers_plain(2)[of i] by (simp add: plain_value_def quote_def)
qed (simp_all add: plain_value_def[of "[]"])

text \<open>A sequence of fields, each behind a space, splits into the fields.\<close>

definition put_fields :: "(string \<times> string) list \<Rightarrow> string" where
  "put_fields kvs = concat (map (\<lambda>(k, v). CHR '' '' # k @ CHR ''='' # v) kvs)"

definition field_ok :: "string \<times> string \<Rightarrow> bool" where
  "field_ok kv \<longleftrightarrow> fst kv \<noteq> [] \<and> hd (fst kv) \<noteq> CHR '' '' \<and> CHR ''='' \<notin> set (fst kv) \<and>
     (plain_value (snd kv) \<or> (\<exists>label. snd kv = quote # label @ [quote] \<and> quote \<notin> set label))"

lemma split_put_fields:
  assumes "list_all field_ok kvs"
  shows "split_fields (put_fields kvs) = kvs"
  using assms
proof (induction kvs)
  case Nil
  show ?case by (subst split_fields.simps) (simp add: put_fields_def)
next
  case (Cons kv kvs)
  obtain k v where kv: "kv = (k, v)" by (cases kv)
  have key: "k \<noteq> []" "hd k \<noteq> CHR '' ''" "CHR ''='' \<notin> set k" and IH: "split_fields (put_fields kvs) = kvs"
    using Cons by (simp_all add: field_ok_def kv)
  have put: "put_fields (kv # kvs) = CHR '' '' # k @ CHR ''='' # v @ put_fields kvs"
    by (simp add: put_fields_def kv)
  have next_field: "put_fields kvs = [] \<or> hd (put_fields kvs) = CHR '' ''"
    by (cases kvs) (auto simp: put_fields_def)
  consider "plain_value v" | label where "v = quote # label @ [quote]" "quote \<notin> set label"
    using Cons.prems by (auto simp: field_ok_def kv)
  then show ?case
  proof cases
    case 1
    then have "CHR '' '' \<notin> set v" "v = [] \<or> hd v \<noteq> quote"
      by (auto simp: plain_value_def list_all_iff dest: hd_in_set)
    then show ?thesis unfolding put using split_fields_plain[OF key _ _ next_field, of v] by (simp add: IH kv)
  next
    case 2
    then show ?thesis unfolding put using split_fields_quoted[OF key 2(2)] by (simp add: IH kv)
  qed
qed

section \<open>The directives\<close>

definition label_plain :: "string \<Rightarrow> bool" where
  "label_plain label \<longleftrightarrow> length label \<le> 128 \<and> quote \<notin> set label \<and> CHR 0x0A \<notin> set label"

text \<open>A printed directive: its first two words, and the fields after them.\<close>

lemma directive_parts:
  assumes "w \<noteq> []" "\<forall>c \<in> set w. \<not> is_blank c" "list_all field_ok kvs"
    and "line = w @ CHR '' '' # id_to_string i @ put_fields kvs"
  shows "split_ws line = w # id_to_string i # split_ws (put_fields kvs)"
    and "split_fields (drop (length w + 1 + length (id_to_string i)) line) = kvs"
proof -
  have "put_fields kvs = [] \<or> is_blank (hd (put_fields kvs))"
    by (cases kvs) (auto simp: put_fields_def is_blank_def)
  then show "split_ws line = w # id_to_string i # split_ws (put_fields kvs)"
    using split_ws_word[OF assms(1,2), of "CHR '' '' # id_to_string i @ put_fields kvs"]
      split_ws_word[OF id_plain(1,2), of "put_fields kvs" i] by (simp add: is_blank_def assms(4))
  show "split_fields (drop (length w + 1 + length (id_to_string i)) line) = kvs"
    using split_put_fields[OF assms(3)] by (simp add: assms(4))
qed

lemma quoted_ok: "label_plain label \<Longrightarrow> field_ok (''label'', quote # label @ [quote])"
  by (auto simp: field_ok_def label_plain_def)

lemma plain_ok: "plain_value v \<Longrightarrow> k \<noteq> [] \<and> hd k \<noteq> CHR '' '' \<and> CHR ''='' \<notin> set k \<Longrightarrow> field_ok (k, v)"
  by (simp add: field_ok_def)

lemmas parse_simps = valid_identity_id enum_field_def label_field_def find_field_def added_def

lemma selector_line_text:
  assumes "id_valid (ts_id s)" "label_plain (ts_label s)" "length (tb_selectors b) < unat (max_selectors (tb_limits b))"
  shows "text_line n (selector_text s) (b, g) = ok (b\<lparr>tb_selectors := tb_selectors b @ [s]\<rparr>, g)"
proof -
  let ?kvs = "[(''kind'', name_traffic_selector_kind (ts_kind s)), (''label'', quote # ts_label s @ [quote])]"
  have kvs: "list_all field_ok ?kvs" using assms(2) by (simp add: quoted_ok plain_ok)
  have shown: "selector_text s = ''selector'' @ CHR '' '' # id_to_string (ts_id s) @ put_fields ?kvs"
    by (simp add: selector_text_def put_fields_def)
  note parts = directive_parts[OF _ _ kvs shown]
  have "split_ws (selector_text s) = ''selector'' # id_to_string (ts_id s) # split_ws (put_fields ?kvs)"
    by (rule parts) (simp_all add: is_blank_def)
  moreover have "split_fields (drop (length ''selector'' + 1 + length (id_to_string (ts_id s))) (selector_text s)) = ?kvs"
    by (rule parts) (simp_all add: is_blank_def)
  ultimately show ?thesis
    using assms by (simp add: text_line_def selector_line_def parse_simps traffic_selector_kind.parse_name
      add_selector_def label_plain_def)
qed

lemma resource_line_text:
  assumes "id_valid (rr_id r)" "id_valid (rr_domain r)" "\<not> (rr_containable r \<and> rr_cost r = 0)" "label_plain (rr_label r)"
    "length (tb_resources b) < unat (max_resources (tb_limits b))"
  shows "text_line n (resource_text r) (b, g) = ok (b\<lparr>tb_resources := tb_resources b @ [r]\<rparr>, g)"
proof -
  let ?kvs = "[(''domain'', id_to_string (rr_domain r)), (''kind'', name_resource_kind (rr_kind r)),
    (''admin'', name_administrative_state (rr_admin r)), (''containable'', if rr_containable r then ''1'' else ''0''),
    (''cost'', dec_digits (unat (rr_cost r))), (''label'', quote # rr_label r @ [quote])]"
  have kvs: "list_all field_ok ?kvs" using assms(4) by (simp add: quoted_ok plain_ok)
  have shown: "resource_text r = ''resource'' @ CHR '' '' # id_to_string (rr_id r) @ put_fields ?kvs"
    by (simp add: resource_text_def put_fields_def)
  note parts = directive_parts[OF _ _ kvs shown]
  have "split_ws (resource_text r) = ''resource'' # id_to_string (rr_id r) # split_ws (put_fields ?kvs)"
    by (rule parts) (simp_all add: is_blank_def)
  moreover have "split_fields (drop (length ''resource'' + 1 + length (id_to_string (rr_id r))) (resource_text r)) = ?kvs"
    by (rule parts) (simp_all add: is_blank_def)
  ultimately show ?thesis
    using assms by (auto simp: text_line_def resource_line_def parse_simps resource_kind.parse_name
      administrative_state.parse_name add_resource_def label_plain_def)
qed

text \<open>A list of selectors, between commas.\<close>

lemma split_on_piece: "sep \<notin> set p \<Longrightarrow> split_on sep (p @ sep # rest) = p # split_on sep rest"
  by (induction p) auto

lemma split_on_last: "sep \<notin> set p \<Longrightarrow> split_on sep p = [p]"
  by (induction p) auto

lemma selector_tokens_join:
  "\<forall>s \<in> set ss. id_valid s \<Longrightarrow> selector_tokens (split_on (CHR '','') (join_with '','' (map id_to_string ss))) = ok ss"
proof (induction ss rule: induct_list012)
  case (2 s)
  then show ?case by (simp add: split_on_last id_plain valid_identity_id)
next
  case (3 s s' ss)
  then show ?case using split_on_piece[OF id_plain(4)] by (simp add: id_plain valid_identity_id)
qed simp

lemma edge_line_text:
  assumes "edge_ok rs ss e" "\<forall>s \<in> set (fe_selectors e). id_valid s"
    "length (tb_edges b) < unat (max_edges (tb_limits b))"
  shows "text_line n (edge_text e) (b, g) = ok (b\<lparr>tb_edges := tb_edges b @ [e]\<rparr>, g)"
proof -
  let ?kvs = "[(''from'', id_to_string (fe_from e)), (''to'', id_to_string (fe_to e)),
    (''domain'', id_to_string (fe_domain e)), (''link'', name_link_state (fe_link e)),
    (''selectors'', join_with '','' (map id_to_string (fe_selectors e)))]"
  have kvs: "list_all field_ok ?kvs" by (simp add: plain_ok)
  have shown: "edge_text e = ''edge'' @ CHR '' '' # id_to_string (fe_id e) @ put_fields ?kvs"
    by (simp add: edge_text_def put_fields_def)
  note parts = directive_parts[OF _ _ kvs shown]
  have "split_ws (edge_text e) = ''edge'' # id_to_string (fe_id e) # split_ws (put_fields ?kvs)"
    by (rule parts) (simp_all add: is_blank_def)
  moreover have "split_fields (drop (length ''edge'' + 1 + length (id_to_string (fe_id e))) (edge_text e)) = ?kvs"
    by (rule parts) (simp_all add: is_blank_def)
  moreover have "sort (fe_selectors e) = fe_selectors e" "strictly_increasing (fe_selectors e)"
    using assms(1) by (auto simp: edge_ok_def strict_sorted_iff sorted_sort_id strictly_increasing_iff)
  ultimately show ?thesis
    using assms by (simp add: text_line_def edge_line_def parse_simps link_state.parse_name selector_tokens_join
      add_edge_def edge_ok_def)
qed

section \<open>The round trip\<close>

lemma text_lines_append:
  "text_lines n (xs @ ys) st = then_parse (text_lines n xs st) (text_lines (n + length xs) ys)"
proof (induction xs arbitrary: n st)
  case (Cons line xs)
  show ?case
    by (cases "r_value (text_line n line st)") (simp_all add: then_parse_def Cons[unfolded then_parse_def] split: option.split)
qed simp

text \<open>Lines that each add one record: the state after them is a function of the records added.\<close>

lemma text_lines_records:
  assumes "\<And>i. i < length xs \<Longrightarrow> text_line (n + i) (print (xs ! i)) (f (take i xs)) = ok (f (take (Suc i) xs))"
  shows "text_lines n (map print xs) (f []) = ok (f xs)"
proof -
  have "k \<le> length xs \<Longrightarrow> text_lines n (map print (take k xs)) (f []) = ok (f (take k xs))" for k
  proof (induction k)
    case (Suc k)
    then have "map print (take (Suc k) xs) = map print (take k xs) @ [print (xs ! k)]"
      by (simp add: take_Suc_conv_app_nth)
    moreover have "text_line (n + k) (print (xs ! k)) (f (take k xs)) = ok (f (take (Suc k) xs))"
      using Suc.prems assms by simp
    ultimately show ?case using Suc by (simp add: text_lines_append)
  qed simp
  from this[of "length xs"] show ?thesis by simp
qed

lemma split_lines:
  assumes "\<forall>line \<in> set lines. CHR 0x0A \<notin> set line"
  shows "split_on (CHR 0x0A) (concat (map (\<lambda>line. line @ newline) lines)) = lines @ [[]]"
  using assms by (induction lines) (simp_all add: newline_def split_on_piece)

definition text_of_lines :: "topology \<Rightarrow> string list" where
  "text_of_lines t = generation_text (td_generation t) # map selector_text (td_selectors t) @
     map resource_text (td_resources t) @ map edge_text (td_edges t)"

lemma topology_to_text_lines:
  "topology_to_text t = concat (map (\<lambda>line. line @ newline) (text_of_lines t))"
  by (simp add: topology_to_text_def text_of_lines_def comp_def)

definition labels_plain :: "topology \<Rightarrow> bool" where
  "labels_plain t \<longleftrightarrow> list_all (\<lambda>s. label_plain (ts_label s)) (td_selectors t) \<and>
     list_all (\<lambda>r. label_plain (rr_label r)) (td_resources t)"

lemma plain_no_newline: "plain_value v \<Longrightarrow> CHR 0x0A \<notin> set v"
  by (auto simp: plain_value_def list_all_iff)

lemma no_newline:
  assumes "labels_plain t" "line \<in> set (text_of_lines t)"
  shows "CHR 0x0A \<notin> set line"
proof -
  have s: "CHR 0x0A \<notin> set (selector_text s)" if "label_plain (ts_label s)" for s
    using that by (simp add: selector_text_def label_plain_def plain_no_newline quote_def)
  have r: "CHR 0x0A \<notin> set (resource_text r)" if "label_plain (rr_label r)" for r
    using that by (simp add: resource_text_def label_plain_def plain_no_newline quote_def)
  have e: "CHR 0x0A \<notin> set (edge_text e)" for e
    by (simp add: edge_text_def plain_no_newline)
  show ?thesis
    using assms s r e by (auto simp: text_of_lines_def generation_text_def labels_plain_def list_all_iff plain_no_newline)
qed

lemma generation_line_text:
  assumes "id_valid g"
  shows "text_line n (generation_text g) (b, h) = ok (b\<lparr>tb_generation := g\<rparr>, True)"
proof -
  let ?kvs = "[(''generation'', id_to_string g)]"
  have shown: "generation_text g = ''topology'' @ put_fields ?kvs"
    by (simp add: generation_text_def put_fields_def)
  have "split_ws (''topology'' @ put_fields ?kvs) = ''topology'' # split_ws (put_fields ?kvs)"
    by (rule split_ws_word) (simp_all add: is_blank_def put_fields_def)
  moreover have "split_fields (put_fields ?kvs) = ?kvs"
    by (rule split_put_fields) (simp add: plain_ok)
  ultimately show ?thesis
    unfolding shown using assms by (simp add: text_line_def topology_line_def find_field_def valid_identity_id)
qed

lemma from_text_to_text:
  assumes built: "canonicalize_topology d l = ok t" and plain: "labels_plain t"
  shows "topology_from_text (topology_to_text t) l = ok t"
proof -
  note okD = canonicalize_okD[OF built]
  note tok = okD(1)[unfolded topology_ok_def]
  let ?ss = "td_selectors t" and ?rs = "td_resources t" and ?es = "td_edges t"
  let ?b = "\<lambda>ss rs es. (\<lparr>tb_limits = l, tb_generation = td_generation t, tb_resources = rs,
      tb_edges = es, tb_selectors = ss\<rparr>, True)"
  have selectors: "text_lines n (map selector_text ?ss) (?b [] [] []) = ok (?b ?ss [] [])" for n
  proof (rule text_lines_records)
    fix i assume i: "i < length ?ss"
    then have "id_valid (ts_id (?ss ! i))" "label_plain (ts_label (?ss ! i))"
      using tok plain by (auto simp: labels_plain_def list_all_length)
    then show "text_line (n + i) (selector_text (?ss ! i)) (?b (take i ?ss) [] []) = ok (?b (take (Suc i) ?ss) [] [])"
      using i okD(9) by (simp add: selector_line_text take_Suc_conv_app_nth)
  qed
  have resources: "text_lines n (map resource_text ?rs) (?b ?ss [] []) = ok (?b ?ss ?rs [])" for n
  proof (rule text_lines_records)
    fix i assume i: "i < length ?rs"
    then have "?rs ! i \<in> set ?rs" "label_plain (rr_label (?rs ! i))"
      using plain by (auto simp: labels_plain_def list_all_length)
    then show "text_line (n + i) (resource_text (?rs ! i)) (?b ?ss (take i ?rs) []) = ok (?b ?ss (take (Suc i) ?rs) [])"
      using i tok okD(7) by (subst resource_line_text) (auto simp: take_Suc_conv_app_nth)
  qed
  have edges: "text_lines n (map edge_text ?es) (?b ?ss ?rs []) = ok (?b ?ss ?rs ?es)" for n
  proof (rule text_lines_records)
    fix i assume i: "i < length ?es"
    then have e: "edge_ok ?rs ?ss (?es ! i)" using tok by simp
    have "id_valid s" if "s \<in> set (fe_selectors (?es ! i))" for s
    proof -
      obtain x where "find_sorted ts_id ?ss s = Some x" using e \<open>s \<in> _\<close> by (auto simp: edge_ok_def)
      then show "id_valid s" using find_sorted_SomeD tok by metis
    qed
    then show "text_line (n + i) (edge_text (?es ! i)) (?b ?ss ?rs (take i ?es)) = ok (?b ?ss ?rs (take (Suc i) ?es))"
      using i e okD(8) by (subst edge_line_text[OF e]) (auto simp: take_Suc_conv_app_nth)
  qed
  have "text_lines n [[]] st = ok st" for n st
  proof -
    have "split_ws [] = []" by (subst split_ws.simps) simp
    then show ?thesis by (simp add: text_line_def)
  qed
  then have "text_lines 1 (text_of_lines t @ [[]]) (new_builder l, False) = ok (?b ?ss ?rs ?es)"
    using tok selectors resources edges
    by (simp add: text_of_lines_def text_lines_append generation_line_text new_builder_def)
  moreover have "split_on (CHR 0x0A) (topology_to_text t) = text_of_lines t @ [[]]"
    unfolding topology_to_text_lines using no_newline[OF plain] by (intro split_lines) blast
  moreover have "build (fst (?b ?ss ?rs ?es)) = ok t"
    unfolding build_def by (simp, rule canonicalize_permute[OF built]) (simp_all add: okD(2-5))
  ultimately show ?thesis by (simp add: topology_from_text_def)
qed

end
