(* ===== verification/Connection.thy ===== *)
theory Connection
  imports Frames
begin

text \<open>
  The loopback transport of src/net.cpp: class Socket, class Listener and class FramedConnection.

  The operating system is the environment. A call that is made once has its answer as an argument; a
  call in a loop has the list of its answers, and a loop whose answers are used up has not returned
  (None). An answer to a wait is a function of the time the code is ready to wait. Clock readings
  are the milliseconds since the loop started. A socket is its handle, the open handles of the process
  are a list.

  The lemmas: a handle that is not returned to the caller is closed again; what \<open>send_all\<close> hands to the
  system is a prefix of the bytes, all of them exactly when it succeeds; \<open>receive_frame\<close> hands over the
  frames of the stream in order (\<open>receive_frames\<close>), and after a protocol error nothing any more.
\<close>

section \<open>Handles\<close>

type_synonym handle = u64

type_synonym handles = "handle list"

definition k_no_socket_handle :: handle where
  "k_no_socket_handle = - 1"

definition close_native :: "handle \<Rightarrow> handles \<Rightarrow> handles" where
  "close_native h os = (if h = k_no_socket_handle then os else remove1 h os)"

text \<open>Closing forgets the handle, so a second close is a no-op.\<close>

definition socket_close :: "handle \<times> handles \<Rightarrow> handle \<times> handles" where
  "socket_close s = (if fst s = k_no_socket_handle then s
     else (k_no_socket_handle, close_native (fst s) (snd s)))"

text \<open>The answer of select, and the time it is given.\<close>

datatype wait_answer = Wait_Ready | Wait_Expired | Wait_Failed

definition wait_timeout :: "u32 \<Rightarrow> nat \<times> nat" where
  "wait_timeout deadline_ms = (unat (deadline_ms div 1000), unat ((deadline_ms mod 1000) * 1000))"

definition remaining_ms :: "u32 \<Rightarrow> u64 \<Rightarrow> u32" where
  "remaining_ms deadline elapsed = ucast (ucast deadline - elapsed)"

section \<open>Connecting, listening, accepting\<close>

text \<open>A pending connect: the time it took so far, the answer of the wait, the error read off the socket.\<close>

datatype connect_answer =
    Connect_Done | Connect_Refused | Connect_Pending u64 "u32 \<Rightarrow> wait_answer" "int option"

record connect_io =
  cn_handle :: handle
  cn_non_blocking :: bool
  cn_connect :: connect_answer

definition connect_loopback :: "connect_io \<Rightarrow> u32 \<Rightarrow> handles \<Rightarrow> handle result \<times> handles" where
  "connect_loopback io deadline os =
     (let h = cn_handle io
      in if h = k_no_socket_handle then (failure Oc_IoFailure ''socket creation failed'', os)
         else let os = h # os; give_up = (\<lambda>oc detail. (failure oc detail, close_native h os))
         in if \<not> cn_non_blocking io then give_up Oc_IoFailure ''cannot switch the socket to non-blocking mode''
            else case cn_connect io of
                Connect_Done \<Rightarrow> (ok h, os)
              | Connect_Refused \<Rightarrow> give_up Oc_IoFailure ''connect failed immediately''
              | Connect_Pending elapsed wait err \<Rightarrow>
                  (case wait (if elapsed \<ge> ucast deadline then 0 else deadline - ucast elapsed) of
                     Wait_Expired \<Rightarrow> give_up Oc_Indeterminate ''connect deadline expired''
                   | Wait_Failed \<Rightarrow> give_up Oc_IoFailure ''connect wait failed''
                   | Wait_Ready \<Rightarrow> (case err of
                         None \<Rightarrow> give_up Oc_IoFailure ''connect status could not be read''
                       | Some e \<Rightarrow> if e \<noteq> 0 then give_up Oc_IoFailure ''connect was refused'' else (ok h, os))))"

record listener =
  ln_handle :: handle
  ln_port :: u16

record listen_io =
  li_handle :: handle
  li_bound :: bool
  li_listening :: bool
  li_non_blocking :: bool
  li_port :: "u16 option"

definition listen_loopback :: "listen_io \<Rightarrow> handles \<Rightarrow> listener result \<times> handles" where
  "listen_loopback io os =
     (let h = li_handle io
      in if h = k_no_socket_handle then (failure Oc_IoFailure ''listener socket creation failed'', os)
         else let os = h # os; give_up = (\<lambda>detail. (failure Oc_IoFailure detail, close_native h os))
         in if \<not> li_bound io then give_up ''listener bind failed''
            else if \<not> li_listening io then give_up ''listener listen failed''
            else if \<not> li_non_blocking io then give_up ''listener could not be made non-blocking''
            else case li_port io of None \<Rightarrow> give_up ''listener address could not be read''
                 | Some port \<Rightarrow> (ok \<lparr>ln_handle = h, ln_port = port\<rparr>, os))"

datatype accept_turn =
    Accept_Socket handle bool | Accept_Failed | Accept_Blocked u64 "u32 \<Rightarrow> wait_answer"

fun accept_loop :: "u32 \<Rightarrow> accept_turn list \<Rightarrow> handles \<Rightarrow> (handle result \<times> handles) option" where
  "accept_loop deadline [] os = None"
| "accept_loop deadline (Accept_Socket h configured # turns) os =
     Some (if configured then (ok h, h # os)
           else (failure Oc_IoFailure ''accepted socket could not be configured'', close_native h (h # os)))"
| "accept_loop deadline (Accept_Failed # turns) os =
     Some (failure Oc_Interrupted ''accept failed or the listener was closed'', os)"
| "accept_loop deadline (Accept_Blocked elapsed wait # turns) os =
     (if elapsed \<ge> ucast deadline then Some (failure Oc_Indeterminate ''accept deadline expired'', os)
      else case wait (remaining_ms deadline elapsed) of
          Wait_Expired \<Rightarrow> Some (failure Oc_Indeterminate ''accept deadline expired'', os)
        | Wait_Failed \<Rightarrow> Some (failure Oc_Interrupted ''accept wait failed or was released'', os)
        | Wait_Ready \<Rightarrow> accept_loop deadline turns os)"

definition accept_connection :: "u32 \<Rightarrow> accept_turn list \<Rightarrow> listener \<Rightarrow> handles \<Rightarrow> (handle result \<times> handles) option" where
  "accept_connection deadline turns ln os =
     (if ln_handle ln = k_no_socket_handle then Some (failure Oc_Invalid ''listener is not open'', os)
      else accept_loop deadline turns os)"

definition listener_close :: "listener \<times> handles \<Rightarrow> listener \<times> handles" where
  "listener_close s = (if ln_handle (fst s) = k_no_socket_handle then s
     else ((fst s)\<lparr>ln_handle := k_no_socket_handle\<rparr>, close_native (ln_handle (fst s)) (snd s)))"

section \<open>Sending and receiving bytes\<close>

text \<open>One turn of the send loop: a chunk was taken (its size is positive), an error, or would block.\<close>

datatype send_turn = Sent nat | Send_Failed | Send_Blocked u64 "u32 \<Rightarrow> wait_answer"

text \<open>The answer, and the bytes that were not taken.\<close>

fun send_loop :: "u32 \<Rightarrow> u8 list \<Rightarrow> send_turn list \<Rightarrow> (status \<times> u8 list) option" where
  "send_loop deadline [] turns = Some (status_ok, [])"
| "send_loop deadline (b # bs) [] = None"
| "send_loop deadline (b # bs) (Sent n # turns) = send_loop deadline (drop n (b # bs)) turns"
| "send_loop deadline (b # bs) (Send_Failed # turns) = Some (failure Oc_IoFailure ''send failed'', b # bs)"
| "send_loop deadline (b # bs) (Send_Blocked elapsed wait # turns) =
     (if elapsed \<ge> ucast deadline then Some (failure Oc_Indeterminate ''send deadline expired'', b # bs)
      else case wait (remaining_ms deadline elapsed) of
          Wait_Expired \<Rightarrow> Some (failure Oc_Indeterminate ''send deadline expired'', b # bs)
        | Wait_Failed \<Rightarrow> Some (failure Oc_IoFailure ''send wait failed'', b # bs)
        | Wait_Ready \<Rightarrow> send_loop deadline (b # bs) turns)"

definition send_all :: "u32 \<Rightarrow> handle \<Rightarrow> u8 list \<Rightarrow> send_turn list \<Rightarrow> (status \<times> u8 list) option" where
  "send_all deadline s bytes turns =
     (if s = k_no_socket_handle then Some (failure Oc_Invalid ''socket is not open'', bytes)
      else send_loop deadline bytes turns)"

datatype recv_turn = Recv "u8 list" | Recv_Closed | Recv_Failed | Recv_Blocked u64 "u32 \<Rightarrow> wait_answer"

fun recv_loop :: "u32 \<Rightarrow> recv_turn list \<Rightarrow> u8 list result option" where
  "recv_loop deadline [] = None"
| "recv_loop deadline (Recv bytes # turns) = Some (ok bytes)"
| "recv_loop deadline (Recv_Closed # turns) = Some (failure Oc_Interrupted ''peer closed the connection'')"
| "recv_loop deadline (Recv_Failed # turns) = Some (failure Oc_IoFailure ''receive failed'')"
| "recv_loop deadline (Recv_Blocked elapsed wait # turns) =
     (if elapsed \<ge> ucast deadline then Some (failure Oc_Indeterminate ''receive deadline expired'')
      else case wait (remaining_ms deadline elapsed) of
          Wait_Expired \<Rightarrow> Some (failure Oc_Indeterminate ''receive deadline expired'')
        | Wait_Failed \<Rightarrow> Some (failure Oc_IoFailure ''receive wait failed'')
        | Wait_Ready \<Rightarrow> recv_loop deadline turns)"

definition recv_some :: "u32 \<Rightarrow> handle \<Rightarrow> recv_turn list \<Rightarrow> u8 list result option" where
  "recv_some deadline s turns =
     (if s = k_no_socket_handle then Some (failure Oc_Invalid ''socket is not open'')
      else recv_loop deadline turns)"

section \<open>Framed connections\<close>

record connection =
  fc_socket :: handle
  fc_decoder :: frame_decoder
  fc_pending :: "decoded_frame list"
  fc_decoder_failed :: bool

definition new_connection :: "handle \<Rightarrow> connection" where
  "new_connection s = \<lparr>fc_socket = s, fc_decoder = new_frame_decoder, fc_pending = [], fc_decoder_failed = False\<rparr>"

definition send_frame :: "message_type \<Rightarrow> u64 \<Rightarrow> u64 \<Rightarrow> u8 list \<Rightarrow> u32 \<Rightarrow> u32 \<Rightarrow> send_turn list \<Rightarrow> connection \<Rightarrow>
    (status \<times> u8 list) option" where
  "send_frame type session sequence payload deadline flags turns c =
     (let frame = encode_frame type session sequence payload flags
      in case r_value frame of None \<Rightarrow> Some (failure (r_outcome frame) (r_detail frame), [])
         | Some bytes \<Rightarrow> send_all deadline (fc_socket c) bytes turns)"

text \<open>The turns of the receive loop: the clock, and the answers to the read of that turn.\<close>

type_synonym rounds = "(u64 \<times> recv_turn list) list"

fun receive_loop :: "u32 \<Rightarrow> rounds \<Rightarrow> connection \<Rightarrow> (decoded_frame result \<times> connection \<times> rounds) option" where
  "receive_loop deadline [] c = None"
| "receive_loop deadline ((elapsed, turns) # rounds) c =
     (if elapsed \<ge> ucast deadline then Some (failure Oc_Indeterminate ''receive deadline expired'', c, rounds)
      else case recv_some (remaining_ms deadline elapsed) (fc_socket c) turns of
          None \<Rightarrow> None
        | Some received \<Rightarrow>
            (case r_value received of
               None \<Rightarrow> Some (failure (r_outcome received) (r_detail received), c, rounds)
             | Some bytes \<Rightarrow>
                 (case feed bytes (fc_decoder c) [] of (fed, d, frames) \<Rightarrow>
                    if \<not> is_ok fed
                    then Some (failure (r_outcome fed) (r_detail fed), c\<lparr>fc_decoder := d, fc_decoder_failed := True\<rparr>, rounds)
                    else case frames of
                        [] \<Rightarrow> receive_loop deadline rounds (c\<lparr>fc_decoder := d\<rparr>)
                      | f # fs \<Rightarrow> Some (ok f, c\<lparr>fc_decoder := d, fc_pending := fs\<rparr>, rounds))))"

definition receive_frame :: "u32 \<Rightarrow> rounds \<Rightarrow> connection \<Rightarrow> (decoded_frame result \<times> connection \<times> rounds) option" where
  "receive_frame deadline rounds c =
     (if fc_decoder_failed c
        then Some (failure Oc_IntegrityFailure ''the decoder already failed permanently'', c, rounds)
      else case fc_pending c of
          f # fs \<Rightarrow> Some (ok f, c\<lparr>fc_pending := fs\<rparr>, rounds)
        | [] \<Rightarrow> receive_loop deadline rounds c)"

definition connection_close :: "connection \<times> handles \<Rightarrow> connection \<times> handles" where
  "connection_close s = (case socket_close (fc_socket (fst s), snd s) of (h, os) \<Rightarrow> ((fst s)\<lparr>fc_socket := h\<rparr>, os))"

definition loopback_endpoint :: "u16 \<Rightarrow> string" where
  "loopback_endpoint port = ''127.0.0.1:'' @ dec_digits (unat port)"

text \<open>The frames a caller gets by calling \<open>receive_frame\<close> n times.\<close>

fun receive_frames :: "u32 \<Rightarrow> nat \<Rightarrow> rounds \<Rightarrow> connection \<Rightarrow> (decoded_frame result list \<times> connection \<times> rounds) option" where
  "receive_frames deadline 0 rounds c = Some ([], c, rounds)"
| "receive_frames deadline (Suc n) rounds c =
     (case receive_frame deadline rounds c of None \<Rightarrow> None
      | Some (res, c, rounds) \<Rightarrow>
          (case receive_frames deadline n rounds c of None \<Rightarrow> None
           | Some (rs, c, rounds) \<Rightarrow> Some (res # rs, c, rounds)))"

section \<open>Handles are not lost\<close>

text \<open>A call that fails has closed what it opened; a call that succeeds opened exactly what it returns.\<close>

definition opens :: "handle result \<times> handles \<Rightarrow> handles \<Rightarrow> bool" where
  "opens answer os \<longleftrightarrow> (case r_value (fst answer) of None \<Rightarrow> snd answer = os | Some h \<Rightarrow> snd answer = h # os)"

lemma close_native_new [simp]: "h \<noteq> k_no_socket_handle \<Longrightarrow> close_native h (h # os) = os"
  by (simp add: close_native_def)

lemma connect_opens: "opens (connect_loopback io deadline os) os"
  by (simp add: opens_def connect_loopback_def Let_def split: connect_answer.split wait_answer.split option.split)

lemma listen_opens:
  "case listen_loopback io os of (res, os') \<Rightarrow> (case r_value res of None \<Rightarrow> os' = os | Some ln \<Rightarrow> os' = ln_handle ln # os)"
  by (simp add: listen_loopback_def Let_def split: option.split)

lemma accept_opens:
  assumes "\<forall>h configured. Accept_Socket h configured \<in> set turns \<longrightarrow> h \<noteq> k_no_socket_handle"
    and "accept_loop deadline turns os = Some answer"
  shows "opens answer os"
  using assms
  by (induction deadline turns os rule: accept_loop.induct)
     (auto simp: opens_def split: if_splits wait_answer.splits)

lemma socket_close_idempotent: "socket_close (socket_close s) = socket_close s"
  by (simp add: socket_close_def)

section \<open>Sending\<close>

lemma send_loop_suffix:
  assumes "send_loop deadline bytes turns = Some (st, unsent)"
  shows "(\<exists>sent. bytes = sent @ unsent) \<and> (is_ok st \<longleftrightarrow> unsent = [])"
  using assms
proof (induction deadline bytes turns rule: send_loop.induct)
  case (3 deadline b bs n turns)
  then obtain sent where "drop n (b # bs) = sent @ unsent" "is_ok st \<longleftrightarrow> unsent = []" by auto
  moreover have "b # bs = take n (b # bs) @ drop n (b # bs)" by simp
  ultimately show ?case by (metis append_assoc)
qed (auto split: if_splits wait_answer.splits)

section \<open>Receiving\<close>

text \<open>The connection between two reads: the bytes of an unfinished frame, no failure.\<close>

definition awaiting :: "connection \<Rightarrow> u8 list \<Rightarrow> bool" where
  "awaiting c unread \<longleftrightarrow> \<not> fc_decoder_failed c \<and> \<not> fd_failed (fc_decoder c) \<and> \<not> fd_finished (fc_decoder c) \<and>
     fd_consumed (fc_decoder c) \<le> length (fd_buffer (fc_decoder c)) \<and>
     drop (fd_consumed (fc_decoder c)) (fd_buffer (fc_decoder c)) = unread \<and> frames_of unread = ([], unread, None)"

lemma awaiting_new: "awaiting (new_connection s) []"
  by (simp add: awaiting_def new_connection_def new_frame_decoder_def frames_of.simps next_frame_def k_wire_header_bytes_def)

lemma feed_unread:
  assumes "\<not> fd_failed d" "\<not> fd_finished d" "drop (fd_consumed d) (fd_buffer d) = unread"
    and "frames_of (unread @ bytes) = (fs, rest, e)"
  obtains st d' where "feed bytes d [] = (st, d', fs)" "fd_finished d' = False"
    "case e of None \<Rightarrow> is_ok st \<and> \<not> fd_failed d' \<and> fd_consumed d' \<le> length (fd_buffer d') \<and>
        drop (fd_consumed d') (fd_buffer d') = rest
      | Some (code, detail) \<Rightarrow> \<not> is_ok st \<and> fd_failed d' \<and> fd_reason d' = code \<and> fd_detail d' = detail"
proof -
  let ?d = "d\<lparr>fd_buffer := unread @ bytes, fd_consumed := 0\<rparr>"
  have "feed bytes d [] = drain ?d []" using assms(1-3) by (simp add: feed_def)
  moreover have "\<not> fd_failed ?d" "fd_consumed ?d \<le> length (fd_buffer ?d)"
      "frames_of (drop (fd_consumed ?d) (fd_buffer ?d)) = (fs, rest, e)"
    using assms by simp_all
  from drain_frames[OF this, of "[]"] obtain st d' where "drain ?d [] = (st, d', fs)" "fd_finished d' = fd_finished ?d"
    "case e of None \<Rightarrow> is_ok st \<and> \<not> fd_failed d' \<and> fd_consumed d' \<le> length (fd_buffer d') \<and>
        drop (fd_consumed d') (fd_buffer d') = rest
      | Some (code, detail) \<Rightarrow> \<not> is_ok st \<and> fd_failed d' \<and> fd_reason d' = code \<and> fd_detail d' = detail"
    by auto
  ultimately show ?thesis using that assms(2) by simp
qed

text \<open>What is left of a stream is incomplete: the parser stops there because it needs more.\<close>

lemma frames_of_rest: "frames_of bytes = (fs, rest, None) \<Longrightarrow> frames_of rest = ([], rest, None)"
proof (induction bytes arbitrary: fs rule: frames_of.induct)
  case (1 bytes)
  show ?case
  proof (cases "next_frame bytes")
    case Step_More
    then show ?thesis using 1(2) by (simp add: frames_of.simps[of bytes]) (simp add: frames_of.simps[of rest])
  next
    case (Step_Fail code detail)
    then show ?thesis using 1(2) by (simp add: frames_of.simps[of bytes])
  next
    case (Step_Frame f n)
    then show ?thesis using 1(2) 1(1)[OF Step_Frame]
      by (auto simp: frames_of.simps[of bytes] split: prod.splits)
  qed
qed

lemma frames_of_nothing: "frames_of bytes = ([], [], e) \<Longrightarrow> bytes = []"
  by (cases "next_frame bytes") (simp_all add: frames_of.simps[of bytes] split: prod.splits)

text \<open>A turn that reads a chunk.\<close>

definition reads :: "u32 \<Rightarrow> handle \<Rightarrow> u64 \<times> recv_turn list \<Rightarrow> u8 list \<Rightarrow> bool" where
  "reads deadline s turn chunk \<longleftrightarrow> fst turn < ucast deadline \<and>
     recv_some (remaining_ms deadline (fst turn)) s (snd turn) = Some (ok chunk) \<and> chunk \<noteq> []"

lemma receive_loop_delivers:
  assumes "awaiting c unread" "fc_pending c = []" "list_all2 (reads deadline (fc_socket c)) rounds chunks"
    and "frames_of (unread @ concat chunks) = (f # fs, [], None)"
  shows "\<exists>c' rounds' unread' chunks' gs. receive_loop deadline rounds c = Some (ok f, c', rounds') \<and>
    awaiting c' unread' \<and> fc_socket c' = fc_socket c \<and> list_all2 (reads deadline (fc_socket c)) rounds' chunks' \<and>
    frames_of (unread' @ concat chunks') = (gs, [], None) \<and> fs = fc_pending c' @ gs"
  using assms
proof (induction deadline rounds c arbitrary: unread chunks rule: receive_loop.induct)
  case (1 deadline c)
  then have "frames_of unread = (f # fs, [], None)" by simp
  then show ?case using "1.prems"(1) by (simp add: awaiting_def)
next
  case (2 deadline elapsed turns rounds c)
  obtain chunk rest where chunks: "chunks = chunk # rest" "reads deadline (fc_socket c) (elapsed, turns) chunk"
      "list_all2 (reads deadline (fc_socket c)) rounds rest"
    using "2.prems"(3) by (auto simp: list_all2_Cons1)
  have read: "\<not> elapsed \<ge> ucast deadline" "recv_some (remaining_ms deadline elapsed) (fc_socket c) turns = Some (ok chunk)"
    using chunks(2) by (simp_all add: reads_def not_le)
  obtain fs1 unread1 e1 where parse: "frames_of (unread @ chunk) = (fs1, unread1, e1)" by (metis prod_cases3)
  have all: "frames_of ((unread @ chunk) @ concat rest) = (f # fs, [], None)" using "2.prems"(4) chunks(1) by simp
  note split_all = all[unfolded frames_of_append[of "unread @ chunk" "concat rest"] parse]
  then have e1: "e1 = None" by (cases e1) (auto split: prod.splits)
  obtain gs1 where gs1: "frames_of (unread1 @ concat rest) = (gs1, [], None)" "f # fs = fs1 @ gs1"
    using split_all by (auto simp: e1 split: prod.splits)
  have d: "\<not> fd_failed (fc_decoder c)" "\<not> fd_finished (fc_decoder c)"
      "drop (fd_consumed (fc_decoder c)) (fd_buffer (fc_decoder c)) = unread"
    using "2.prems"(1) by (simp_all add: awaiting_def)
  obtain st d' where feed: "feed chunk (fc_decoder c) [] = (st, d', fs1)" "fd_finished d' = False"
      "is_ok st \<and> \<not> fd_failed d' \<and> fd_consumed d' \<le> length (fd_buffer d') \<and> drop (fd_consumed d') (fd_buffer d') = unread1"
    by (rule feed_unread[OF d parse[unfolded e1], unfolded option.case])
  note fed = feed(1,2) feed(3)[THEN conjunct1] feed(3)[THEN conjunct2, THEN conjunct1]
    feed(3)[THEN conjunct2, THEN conjunct2, THEN conjunct1] feed(3)[THEN conjunct2, THEN conjunct2, THEN conjunct2]
  have rest1: "frames_of unread1 = ([], unread1, None)" using frames_of_rest parse e1 by blast
  show ?case
  proof (cases fs1)
    case Nil
    let ?c = "c\<lparr>fc_decoder := d'\<rparr>"
    have "awaiting ?c unread1" "fc_pending ?c = []" "fc_socket ?c = fc_socket c"
      using "2.prems"(1,2) fed rest1 by (simp_all add: awaiting_def)
    moreover have "receive_loop deadline ((elapsed, turns) # rounds) c = receive_loop deadline rounds ?c"
      using read fed Nil by simp
    ultimately show ?thesis
      using "2.IH"[OF read result_simps(1) feed(1)[symmetric] refl _ Nil, of unread1 rest] fed(3) chunks(3) gs1 Nil by simp
  next
    case (Cons g gs)
    let ?c = "c\<lparr>fc_decoder := d', fc_pending := gs\<rparr>"
    have "awaiting ?c unread1" using "2.prems"(1) fed rest1 by (simp add: awaiting_def)
    moreover have "receive_loop deadline ((elapsed, turns) # rounds) c = Some (ok f, ?c, rounds)"
      using read fed Cons gs1(2) by simp
    ultimately show ?thesis using chunks(3) gs1 Cons by fastforce
  qed
qed

lemma receive_frames_deliver:
  assumes "awaiting c unread" "list_all2 (reads deadline (fc_socket c)) rounds chunks"
    and "frames_of (unread @ concat chunks) = (gs, [], None)"
  shows "\<exists>c'. receive_frames deadline (length (fc_pending c @ gs)) rounds c = Some (map ok (fc_pending c @ gs), c', []) \<and>
    awaiting c' [] \<and> fc_pending c' = []"
  using assms
proof (induction "length (fc_pending c @ gs)" arbitrary: c unread rounds chunks gs)
  case 0
  then have "unread @ concat chunks = []" using frames_of_nothing[of "unread @ concat chunks" None] by simp
  moreover have "chunks = []" if "concat chunks = []"
    using that "0.prems"(2) by (cases chunks) (auto simp: list_all2_Cons2 reads_def)
  ultimately have "unread = []" "chunks = []" by auto
  then show ?case using 0 by simp
next
  case (Suc n)
  show ?case
  proof (cases "fc_pending c")
    case (Cons f fs)
    let ?c = "c\<lparr>fc_pending := fs\<rparr>"
    have "awaiting ?c unread" "fc_socket ?c = fc_socket c" "n = length (fc_pending ?c @ gs)"
      using Suc.prems(1) Suc.hyps(2) Cons by (simp_all add: awaiting_def)
    moreover have "receive_frame deadline rounds c = Some (ok f, ?c, rounds)"
      using Suc.prems(1) Cons by (simp add: receive_frame_def awaiting_def)
    ultimately show ?thesis
      using Suc.hyps(1)[of ?c gs unread rounds chunks] Suc.prems(2,3) Suc.hyps(2) Cons by fastforce
  next
    case Nil
    then obtain f fs where gs: "gs = f # fs" using Suc.hyps(2) by (cases gs) auto
    obtain c' rounds' unread' chunks' hs where r: "receive_loop deadline rounds c = Some (ok f, c', rounds')"
        "awaiting c' unread'" "fc_socket c' = fc_socket c" "list_all2 (reads deadline (fc_socket c)) rounds' chunks'"
        "frames_of (unread' @ concat chunks') = (hs, [], None)" "fs = fc_pending c' @ hs"
      using receive_loop_delivers[OF Suc.prems(1) Nil Suc.prems(2)] Suc.prems(3) gs by blast
    have "receive_frame deadline rounds c = Some (ok f, c', rounds')"
      using r(1) Nil Suc.prems(1) by (simp add: receive_frame_def awaiting_def)
    then show ?thesis
      using Suc.hyps(1)[of c' hs unread' rounds' chunks'] r Suc.hyps(2) gs Nil by fastforce
  qed
qed

end
