(* ===== verification/Coordinator.thy ===== *)
theory Coordinator
  imports Messages Connection Runtime_Contract
begin

text \<open>
  The service process tools/lg_coordinator.cpp: one runtime and the sessions it serves. A session is
  bound to its identity by the handshake; every later frame must carry that identity and a higher
  sequence. \<open>handle_hello\<close> and \<open>handle_frame\<close> are the handlers of the program, one definition for each
  message; \<open>serve\<close> is what the main loop does with one received frame, one failed read or one new peer.

  The frames a handler sends are appended to \<open>co_sent\<close>: the program ignores whether sending a reply
  succeeded. \<open>std::map\<close> is the list of its entries in the order of the keys. The crash flags of the restart
  tests are thresholds; a process that exited does nothing more.

  The lemmas: what a handler does to the runtime (\<open>handle_frame_steps\<close>), to the session it serves
  (\<open>handle_frame_session\<close>) and to the other sessions; \<open>service_ok\<close> is an invariant of the service.
\<close>

section \<open>Texts\<close>

definition txt_the_frame_carries_a_session :: string where
  "txt_the_frame_carries_a_session = ''the frame carries a session identity that is not this socket's''"

definition txt_no_assessment_has_been_produced :: string where
  "txt_no_assessment_has_been_produced = ''no assessment has been produced on this session''"

definition txt_a_topology_and_a_policy :: string where
  "txt_a_topology_and_a_policy = ''a topology and a policy must be configured first''"

definition txt_containment_authorization_payload :: string where
  "txt_containment_authorization_payload = ''containment authorization payload is malformed''"

definition txt_the_authorization_request_binds :: string where
  "txt_the_authorization_request_binds = ''the authorization request binds a superseded fence''"

definition txt_this_frame_type_is_not_accepted :: string where
  "txt_this_frame_type_is_not_accepted = ''this frame type is not accepted by the coordinator''"

definition txt_session_identity_is_already_claimed :: string where
  "txt_session_identity_is_already_claimed = ''session identity is already claimed by another connection''"

section \<open>State\<close>

record session =
  se_id :: u64
  se_kind :: producer_kind
  se_identity :: process_identity
  se_inbound :: u64
  se_outbound :: u64
  se_lease_expires_at :: u64
  se_worker :: bool
  se_last_assessment :: "loop_assessment option"
  se_issued :: "containment_intent list"

text \<open>A frame that was given to a connection: the key of the session that owns it, or none yet.\<close>

record outgoing =
  og_owner :: "u64 option"
  og_type :: message_type
  og_session :: u64
  og_sequence :: u64
  og_payload :: "u8 list"

record coordinator =
  co_runtime :: runtime
  co_limits :: limits
  co_sessions :: "(u64 \<times> session) list"
  co_durable_commits :: u64
  co_mutations_seen :: u64
  co_exit_after_commit :: u64
  co_exit_before_commit :: u64
  co_exited :: bool
  co_sent :: "outgoing list"

definition find_session :: "u64 \<Rightarrow> coordinator \<Rightarrow> session option" where
  "find_session k c = map_of (co_sessions c) k"

definition modify_session :: "u64 \<Rightarrow> (session \<Rightarrow> session) \<Rightarrow> coordinator \<Rightarrow> coordinator" where
  "modify_session k g c = c\<lparr>co_sessions := map (\<lambda>e. if fst e = k then (k, g (snd e)) else e) (co_sessions c)\<rparr>"

definition erase_session :: "u64 \<Rightarrow> coordinator \<Rightarrow> coordinator" where
  "erase_session k c = c\<lparr>co_sessions := filter (\<lambda>e. fst e \<noteq> k) (co_sessions c)\<rparr>"

definition log_frame :: "outgoing \<Rightarrow> coordinator \<Rightarrow> coordinator" where
  "log_frame g c = c\<lparr>co_sent := co_sent c @ [g]\<rparr>"

section \<open>Replies\<close>

definition next_outbound :: "session \<Rightarrow> session" where
  "next_outbound s = s\<lparr>se_outbound := se_outbound s + 1\<rparr>"

definition reply :: "u64 \<Rightarrow> message_type \<Rightarrow> u8 list \<Rightarrow> coordinator \<Rightarrow> coordinator" where
  "reply k type payload c = (case find_session k c of None \<Rightarrow> c
     | Some s \<Rightarrow> log_frame \<lparr>og_owner = Some k, og_type = type, og_session = se_id s, og_sequence = se_outbound s + 1,
         og_payload = payload\<rparr> (modify_session k next_outbound c))"

definition reply_error :: "u64 \<Rightarrow> outcome \<Rightarrow> reason_code \<Rightarrow> message_type \<Rightarrow> string \<Rightarrow> coordinator \<Rightarrow> coordinator" where
  "reply_error k oc reason offending detail c = reply k Msg_Error
     (encode_error \<lparr>em_outcome = oc, em_reason = reason, em_offending = offending, em_detail = detail\<rparr>) c"

text \<open>What the caller of a handler does next: serve on, close the session, or nothing, the process is gone.\<close>

datatype verdict = Keep_Session | Close_Session | Process_Exited

definition keep :: "coordinator \<Rightarrow> verdict \<times> coordinator" where
  "keep c = (Keep_Session, c)"

definition refuse :: "u64 \<Rightarrow> outcome \<Rightarrow> reason_code \<Rightarrow> message_type \<Rightarrow> string \<Rightarrow> coordinator \<Rightarrow> verdict \<times> coordinator" where
  "refuse k oc reason offending detail c = keep (reply_error k oc reason offending detail c)"

text \<open>The crash flags: before a mutation and after a durable commit.\<close>

definition before_commit :: "(coordinator \<Rightarrow> verdict \<times> coordinator) \<Rightarrow> coordinator \<Rightarrow> verdict \<times> coordinator" where
  "before_commit k c = (let c = c\<lparr>co_mutations_seen := co_mutations_seen c + 1\<rparr>
     in if co_exit_before_commit c \<noteq> 0 \<and> co_mutations_seen c \<ge> co_exit_before_commit c
        then (Process_Exited, c\<lparr>co_exited := True\<rparr>) else k c)"

definition note_commit :: "(coordinator \<Rightarrow> verdict \<times> coordinator) \<Rightarrow> coordinator \<Rightarrow> verdict \<times> coordinator" where
  "note_commit k c = (let c = c\<lparr>co_durable_commits := co_durable_commits c + 1\<rparr>
     in if co_exit_after_commit c \<noteq> 0 \<and> co_durable_commits c \<ge> co_exit_after_commit c
        then (Process_Exited, c\<lparr>co_exited := True\<rparr>) else k c)"

text \<open>A call on the runtime.\<close>

definition on_runtime :: "(runtime \<Rightarrow> 'a \<times> runtime) \<Rightarrow> coordinator \<Rightarrow> ('a \<Rightarrow> coordinator \<Rightarrow> 'b) \<Rightarrow> 'b" where
  "on_runtime call c k = (case call (co_runtime c) of (res, r) \<Rightarrow> k res (c\<lparr>co_runtime := r\<rparr>))"

section \<open>Configuration\<close>

definition handle_set_topology :: "(nat \<Rightarrow> store_io) \<Rightarrow> u64 \<Rightarrow> u8 list \<Rightarrow> coordinator \<Rightarrow> verdict \<times> coordinator" where
  "handle_set_topology io k payload c =
     (let t = decode_topology (co_limits c) payload
      in case r_value t of
           None \<Rightarrow> refuse k (r_outcome t) R_RequestRejectedStructural Msg_SetTopology (r_detail t) c
         | Some t \<Rightarrow> before_commit (\<lambda>c. on_runtime (set_topology io t 0) c (\<lambda>st c.
             if \<not> is_ok st then refuse k (r_outcome st) R_RequestRejectedStructural Msg_SetTopology (r_detail st) c
             else note_commit (\<lambda>c. keep (reply k Msg_ConfigurationAccepted [] c)) c)) c)"

definition handle_set_policy :: "(nat \<Rightarrow> store_io) \<Rightarrow> u64 \<Rightarrow> u8 list \<Rightarrow> coordinator \<Rightarrow> verdict \<times> coordinator" where
  "handle_set_policy io k payload c =
     (let p = decode_policy (co_limits c) payload
      in case r_value p of
           None \<Rightarrow> refuse k (r_outcome p) R_RequestRejectedStructural Msg_SetPolicy (r_detail p) c
         | Some p \<Rightarrow> before_commit (\<lambda>c. on_runtime (set_policy io p 0) c (\<lambda>st c.
             if \<not> is_ok st then refuse k (r_outcome st) R_RequestRejectedStructural Msg_SetPolicy (r_detail st) c
             else note_commit (\<lambda>c. keep (reply k Msg_ConfigurationAccepted [] c)) c)) c)"

section \<open>Evidence and detection\<close>

text \<open>The short answers some handlers write by hand.\<close>

definition status_payload :: "status \<Rightarrow> u8 list" where
  "status_payload st = take_data (put_all [put_u8 (enum_raw values_outcome (r_outcome st)), put_text 256 (r_detail st)])"

definition submission_payload :: "status \<Rightarrow> u8 list" where
  "submission_payload st = take_data (put_all [put_u8 (enum_raw values_outcome (r_outcome st)),
     put_u8 (enum_raw values_reason_code (if is_ok st then R_RequestAccepted else R_RequestRejectedStructural)),
     put_text 256 (r_detail st)])"

definition handle_submit_observation :: "u64 \<Rightarrow> u8 list \<Rightarrow> coordinator \<Rightarrow> verdict \<times> coordinator" where
  "handle_submit_observation k payload c =
     (let ob = decode_observation (co_limits c) payload
      in case r_value ob of
           None \<Rightarrow> refuse k (r_outcome ob) R_RequestRejectedStructural Msg_SubmitObservation (r_detail ob) c
         | Some ob \<Rightarrow> on_runtime (submit_observation ob 0) c (\<lambda>st c.
             keep (reply k Msg_ObservationAccepted (submission_payload st) c)))"

definition assessment_reply :: "loop_assessment \<Rightarrow> assessment_reply_message" where
  "assessment_reply a = \<lparr>am_assessment = la_id a, am_fence = la_fence a, am_outcome = la_outcome a,
     am_flags = la_flags a, am_witness_count = length (la_witnesses a), am_hop_count = length (la_hops a),
     am_counters = la_counters a, am_digest = assessment_digest a, am_origin = la_origin a,
     am_witnesses = map witness_to_text (la_witnesses a), am_explanation = ex_to_text (la_explanation a)\<rparr>"

definition handle_detect_request :: "u64 \<Rightarrow> u8 list \<Rightarrow> coordinator \<Rightarrow> verdict \<times> coordinator" where
  "handle_detect_request k payload c =
     (let request = decode_detect_request (co_limits c) payload
      in case r_value request of
           None \<Rightarrow> refuse k (r_outcome request) R_RequestRejectedStructural Msg_DetectRequest (r_detail request) c
         | Some request \<Rightarrow>
             let current = rt_fence (co_runtime c)
             in if dm_fence request \<noteq> current
                then refuse k Oc_Stale R_ObservationGenerationMismatch Msg_DetectRequest
                  (''the request binds fence '' @ fence_to_string (dm_fence request) @ '' but the coordinator is at '' @
                   fence_to_string current) c
                else on_runtime (detect (dm_now request) (dm_scope request)) c (\<lambda>assessment c.
                  case r_value assessment of
                    None \<Rightarrow> refuse k (r_outcome assessment) R_RequestRejectedStructural Msg_DetectRequest (r_detail assessment) c
                  | Some a \<Rightarrow> keep (reply k Msg_AssessmentReply (encode_assessment_reply (co_limits c) (assessment_reply a))
                      (modify_session k (\<lambda>s. s\<lparr>se_last_assessment := Some a\<rparr>) c))))"

section \<open>Planning and findings\<close>

definition plan_reply :: "containment_plan \<Rightarrow> plan_reply_message" where
  "plan_reply p = \<lparr>pm_plan = pl_id p, pm_assessment = pl_assessment p, pm_fence = pl_fence p, pm_outcome = pl_outcome p,
     pm_flags = pl_flags p, pm_targets = target_resources p, pm_total_cost = pl_total_cost p,
     pm_witness_count = pl_witness_count p, pm_witnesses_covered = pl_witnesses_covered p,
     pm_plan_digest = plan_digest p, pm_explanation = ex_to_text (pl_explanation p)\<rparr>"

definition last_assessment :: "u64 \<Rightarrow> coordinator \<Rightarrow> loop_assessment option" where
  "last_assessment k c = Option.bind (find_session k c) se_last_assessment"

definition handle_plan_request :: "(nat \<Rightarrow> store_io) \<Rightarrow> u64 \<Rightarrow> coordinator \<Rightarrow> verdict \<times> coordinator" where
  "handle_plan_request io k c =
     (case last_assessment k c of
        None \<Rightarrow> refuse k Oc_NotFound R_RequestRejectedStructural Msg_PlanRequest txt_no_assessment_has_been_produced c
      | Some a \<Rightarrow>
          if rt_policy (co_runtime c) = None \<or> rt_topology (co_runtime c) = None
          then refuse k Oc_NotFound R_RequestRejectedStructural Msg_PlanRequest txt_a_topology_and_a_policy c
          else on_runtime (runtime_plan io a 0) c (\<lambda>plan c.
            case r_value plan of
              None \<Rightarrow> refuse k (r_outcome plan) R_RequestRejectedStructural Msg_PlanRequest (r_detail plan) c
            | Some p \<Rightarrow> keep (reply k Msg_PlanReply (encode_plan_reply (co_limits c) (plan_reply p)) c)))"

definition reply_findings :: "u64 \<Rightarrow> coordinator \<Rightarrow> coordinator" where
  "reply_findings k c = reply k Msg_FindingReply (encode_finding_reply
     \<lparr>fm_findings = summaries (co_runtime c), fm_state_digest = state_digest (co_runtime c)\<rparr>) c"

definition handle_finding_publish :: "(nat \<Rightarrow> store_io) \<Rightarrow> u64 \<Rightarrow> coordinator \<Rightarrow> verdict \<times> coordinator" where
  "handle_finding_publish io k c =
     (case last_assessment k c of
        None \<Rightarrow> refuse k Oc_NotFound R_RequestRejectedStructural Msg_FindingPublish txt_no_assessment_has_been_produced c
      | Some a \<Rightarrow> before_commit (\<lambda>c. on_runtime (publish_finding io a 0) c (\<lambda>published c.
          if \<not> has_value published
          then refuse k (r_outcome published) R_FindingWithdrawn Msg_FindingPublish (r_detail published) c
          else note_commit (\<lambda>c. keep (reply_findings k c)) c)) c)"

definition handle_finding_withdraw :: "(nat \<Rightarrow> store_io) \<Rightarrow> u64 \<Rightarrow> u8 list \<Rightarrow> coordinator \<Rightarrow> verdict \<times> coordinator" where
  "handle_finding_withdraw io k payload c =
     (case read_u64 payload of
        Inl e \<Rightarrow> refuse k Oc_Invalid R_RequestRejectedStructural Msg_FindingWithdraw ''withdrawal payload is malformed'' c
      | Inr (finding, rest) \<Rightarrow>
          on_runtime (withdraw_finding io finding R_FindingWithdrawn 0 ''withdrawn over the wire'') c (\<lambda>st c.
            keep (reply k Msg_ConfigurationAccepted [enum_raw values_outcome (r_outcome st), 0] c)))"

section \<open>Containment\<close>

definition read_authorization :: "(fence_vector \<times> u64 \<times> u64 \<times> u64) decoder" where
  "read_authorization =
     read_then decode_fence (\<lambda>fence. read_then (or_report read_u64) (\<lambda>finding.
     read_then (or_report read_u64) (\<lambda>now. read_then (or_report read_u64) (\<lambda>lease.
     read_value (fence, finding, now, lease)))))"

text \<open>The plan of a finding; the absent identity when the finding is not registered.\<close>

definition plan_of_finding :: "u64 \<Rightarrow> runtime \<Rightarrow> containment_plan option" where
  "plan_of_finding finding r =
     find_plan (case find_finding (rt_findings r) finding of Some f \<Rightarrow> fi_plan f | None \<Rightarrow> 0) r"

text \<open>The grant is made out of the plan it will be checked against.\<close>

definition session_grant :: "u64 \<Rightarrow> containment_plan \<Rightarrow> u64 \<Rightarrow> u64 \<Rightarrow> runtime \<Rightarrow> containment_grant" where
  "session_grant session_id p now lease r = \<lparr>cg_id = session_id, cg_policy_generation = fv_policy (rt_fence r),
     cg_fence = rt_fence r, cg_scope = target_resources p, cg_max_targets = word_of_nat (length (pl_targets p)),
     cg_max_total_cost = pl_total_cost p, cg_issued_at = now, cg_expires_at = now + lease,
     cg_issued_by = pi_producer (rt_identity r), cg_state = Grant_Active\<rparr>"

definition intent_message :: "containment_intent \<Rightarrow> contain_intent_message" where
  "intent_message i = \<lparr>cm_intent = ci_id i, cm_plan = ci_plan i, cm_finding = ci_finding i, cm_fence = ci_fence i,
     cm_issued_by = ci_issued_by i, cm_targets = ci_targets i, cm_selectors = ci_selectors i,
     cm_issued_at = ci_issued_at i, cm_expires_at = ci_expires_at i, cm_plan_digest = ci_plan_digest i\<rparr>"

text \<open>The intent goes to every worker but the session that asked for it.\<close>

definition receives_intents :: "u64 \<Rightarrow> u64 \<times> session \<Rightarrow> bool" where
  "receives_intents asker e \<longleftrightarrow> se_worker (snd e) \<and> fst e \<noteq> asker"

definition dispatch_intent :: "u64 \<Rightarrow> u8 list \<Rightarrow> coordinator \<Rightarrow> coordinator" where
  "dispatch_intent asker payload c =
     c\<lparr>co_sessions := map (\<lambda>e. if receives_intents asker e then (fst e, next_outbound (snd e)) else e) (co_sessions c),
       co_sent := co_sent c @ map (\<lambda>e. \<lparr>og_owner = Some (fst e), og_type = Msg_ContainIntent, og_session = se_id (snd e),
         og_sequence = se_outbound (snd e) + 1, og_payload = payload\<rparr>) (filter (receives_intents asker) (co_sessions c))\<rparr>"

definition handle_contain_authorize :: "(nat \<Rightarrow> store_io) \<Rightarrow> u64 \<Rightarrow> u8 list \<Rightarrow> coordinator \<Rightarrow> verdict \<times> coordinator" where
  "handle_contain_authorize io k payload c =
     (case read_authorization payload of
        Inl e \<Rightarrow> refuse k Oc_Invalid R_RequestRejectedStructural Msg_ContainAuthorize txt_containment_authorization_payload c
      | Inr ((fence, finding, now, lease), rest) \<Rightarrow>
          if fence \<noteq> rt_fence (co_runtime c)
          then refuse k Oc_Stale R_ObservationGenerationMismatch Msg_ContainAuthorize txt_the_authorization_request_binds c
          else case plan_of_finding finding (co_runtime c) of
              None \<Rightarrow> refuse k Oc_NotFound R_RequestRejectedStructural Msg_ContainAuthorize
                ''the finding has no retained containment plan'' c
            | Some p \<Rightarrow>
                on_runtime (authorize_containment io finding (session_grant k p now lease (co_runtime c)) now lease []) c
                  (\<lambda>issued c. case r_value issued of
                     None \<Rightarrow> refuse k (r_outcome issued) R_AuthorityGrantAbsent Msg_ContainAuthorize (r_detail issued) c
                   | Some i \<Rightarrow> keep (reply k Msg_PlanReply (encode_plan_reply (co_limits c) (plan_reply p))
                       (modify_session k (\<lambda>s. s\<lparr>se_issued := se_issued s @ [i]\<rparr>)
                         (dispatch_intent k (encode_contain_intent (intent_message i)) c)))))"

definition handle_contain_ack :: "(nat \<Rightarrow> store_io) \<Rightarrow> u64 \<Rightarrow> u8 list \<Rightarrow> coordinator \<Rightarrow> verdict \<times> coordinator" where
  "handle_contain_ack io k payload c =
     (let ack = decode_contain_ack (co_limits c) payload
      in case r_value ack of
           None \<Rightarrow> refuse k (r_outcome ack) R_RequestRejectedStructural Msg_ContainAck (r_detail ack) c
         | Some m \<Rightarrow> on_runtime (record_acknowledgement io \<lparr>ca_intent = km_intent m, ca_session = k,
               ca_applier = km_applier m, ca_sequence = km_sequence m, ca_acknowledged_at = km_acknowledged_at m,
               ca_intent_digest = km_intent_digest m\<rparr> (km_acknowledged_at m)) c (\<lambda>st c.
             keep (reply k Msg_ObservationAccepted (status_payload st) c)))"

definition reported_effect :: "effect_report_message \<Rightarrow> verified_effect" where
  "reported_effect m = \<lparr>ve_target = vm_target m, ve_observation = vm_observation m, ve_fence = vm_fence m,
     ve_verified_at = vm_verified_at m, ve_origin = vm_origin m\<rparr>"

text \<open>The observation in the report is submitted; whether it was accepted plays no part.\<close>

definition handle_effect_report :: "(nat \<Rightarrow> store_io) \<Rightarrow> u64 \<Rightarrow> u8 list \<Rightarrow> coordinator \<Rightarrow> verdict \<times> coordinator" where
  "handle_effect_report io k payload c =
     (let report = decode_effect_report (co_limits c) payload
      in case r_value report of
           None \<Rightarrow> refuse k (r_outcome report) R_RequestRejectedStructural Msg_EffectReport (r_detail report) c
         | Some m \<Rightarrow>
             let c = (if vm_has_observation m
                      then on_runtime (submit_observation (vm_observation_payload m) (vm_verified_at m)) c (\<lambda>st c. c) else c)
             in on_runtime (record_verified_effect io (vm_intent m) (reported_effect m) (vm_verified_at m)) c (\<lambda>st c.
                  keep (reply k Msg_ObservationAccepted (status_payload st) c)))"

section \<open>Fences and reports\<close>

definition read_fence_advance :: "(fence_vector \<times> u64) decoder" where
  "read_fence_advance =
     read_then decode_fence (\<lambda>fence. read_then (or_report read_u8) (\<lambda>raw. read_then (or_report read_u64) (\<lambda>now.
     read_value (fence, now))))"

text \<open>The first component that is ahead is advanced; nothing at all when no component is, or when the topology
  should be advanced and none is installed.\<close>

definition advance_to :: "(nat \<Rightarrow> store_io) \<Rightarrow> fence_vector \<Rightarrow> u64 \<Rightarrow> runtime \<Rightarrow> status \<times> runtime" where
  "advance_to io fence now r =
     (if fv_topology fence > fv_topology (rt_fence r)
        then (case rt_topology r of None \<Rightarrow> (status_ok, r)
              | Some t \<Rightarrow> set_topology io (t\<lparr>td_generation := fv_topology fence\<rparr>) now r)
      else if fv_forwarding fence > fv_forwarding (rt_fence r) then advance_forwarding io (fv_forwarding fence) now r
      else if fv_fabric_epoch fence > fv_fabric_epoch (rt_fence r) then advance_fabric_epoch io (fv_fabric_epoch fence) now r
      else if fv_epoch fence > fv_epoch (rt_fence r) then advance_epoch io now r
      else (status_ok, r))"

definition installs_topology :: "fence_vector \<Rightarrow> runtime \<Rightarrow> bool" where
  "installs_topology fence r \<longleftrightarrow> fv_topology fence > fv_topology (rt_fence r) \<and> rt_topology r \<noteq> None"

definition handle_fence_advance :: "(nat \<Rightarrow> store_io) \<Rightarrow> u64 \<Rightarrow> u8 list \<Rightarrow> coordinator \<Rightarrow> verdict \<times> coordinator" where
  "handle_fence_advance io k payload c =
     (case read_fence_advance payload of
        Inl e \<Rightarrow> refuse k Oc_Invalid R_RequestRejectedStructural Msg_FenceAdvance ''fence advance payload is malformed'' c
      | Inr ((fence, now), rest) \<Rightarrow>
          let installs = installs_topology fence (co_runtime c)
          in on_runtime (advance_to io fence now) c (\<lambda>st c.
               let answer = (\<lambda>c. keep (reply k Msg_ConfigurationAccepted (status_payload st) c))
               in if installs \<and> is_ok st then note_commit answer c else answer c))"

definition state_digest_reply :: "runtime \<Rightarrow> state_digest_reply_message" where
  "state_digest_reply r = \<lparr>sm_store_digest = state_digest r, sm_fence_digest = fence_digest (rt_fence r),
     sm_fence = rt_fence r, sm_finding_count = of_nat (length (fr_findings (rt_findings r))),
     sm_lineage_count = of_nat (length (rt_lineage r)), sm_observation_count = of_nat (observation_count r),
     sm_retained_attempts = kt_retained_attempts (rt_counters r)\<rparr>"

definition restart_report :: "runtime \<Rightarrow> restart_report_message" where
  "restart_report r = \<lparr>rm_boot = pi_boot (rt_identity r), rm_incarnation = pi_incarnation (rt_identity r),
     rm_epoch = pi_epoch (rt_identity r), rm_torn_tail_recovered = rp_torn_tail_recovered (rt_recovery r),
     rm_fenced_findings = ucast (kt_findings_fenced (rt_counters r)), rm_dropped_findings = 0,
     rm_retained_findings = of_nat (length (fr_findings (rt_findings r))),
     rm_lineage_records = of_nat (length (rt_lineage r)), rm_store_digest = state_digest r\<rparr>"

section \<open>The handlers\<close>

definition dispatch :: "(nat \<Rightarrow> store_io) \<Rightarrow> u64 \<Rightarrow> decoded_frame \<Rightarrow> coordinator \<Rightarrow> verdict \<times> coordinator" where
  "dispatch io k frame c =
     (let payload = df_payload frame; type = fh_type (df_header frame)
      in case type of
           Msg_SetTopology \<Rightarrow> handle_set_topology io k payload c
         | Msg_SetPolicy \<Rightarrow> handle_set_policy io k payload c
         | Msg_SubmitObservation \<Rightarrow> handle_submit_observation k payload c
         | Msg_DetectRequest \<Rightarrow> handle_detect_request k payload c
         | Msg_PlanRequest \<Rightarrow> handle_plan_request io k c
         | Msg_FindingPublish \<Rightarrow> handle_finding_publish io k c
         | Msg_ContainAuthorize \<Rightarrow> handle_contain_authorize io k payload c
         | Msg_ContainAck \<Rightarrow> handle_contain_ack io k payload c
         | Msg_EffectReport \<Rightarrow> handle_effect_report io k payload c
         | Msg_FindingQuery \<Rightarrow> keep (reply_findings k c)
         | Msg_FindingWithdraw \<Rightarrow> handle_finding_withdraw io k payload c
         | Msg_StateDigestRequest \<Rightarrow> keep (reply k Msg_StateDigestReply
             (encode_state_digest_reply (state_digest_reply (co_runtime c))) c)
         | Msg_FenceAdvance \<Rightarrow> handle_fence_advance io k payload c
         | Msg_RestartReportRequest \<Rightarrow> keep (reply k Msg_RestartReportReply
             (encode_restart_report (restart_report (co_runtime c))) c)
         | Msg_Bye \<Rightarrow> (Close_Session, c)
         | _ \<Rightarrow> refuse k Oc_Unsupported R_WireFrameTypeUnsupported type txt_this_frame_type_is_not_accepted c)"

definition handle_frame :: "(nat \<Rightarrow> store_io) \<Rightarrow> u64 \<Rightarrow> decoded_frame \<Rightarrow> coordinator \<Rightarrow> verdict \<times> coordinator" where
  "handle_frame io k frame c =
     (case find_session k c of None \<Rightarrow> keep c
      | Some s \<Rightarrow>
          let h = df_header frame
          in if fh_session h \<noteq> se_id s
             then (Close_Session, reply_error k Oc_Refused R_WireSessionMismatch (fh_type h) txt_the_frame_carries_a_session c)
             else if fh_sequence h \<le> se_inbound s
             then (Close_Session, reply_error k Oc_Stale R_WireSequenceRegressed (fh_type h) ''frame sequence did not advance'' c)
             else dispatch io k frame (modify_session k (\<lambda>s. s\<lparr>se_inbound := fh_sequence h\<rparr>) c))"

text \<open>The handshake. \<open>sent\<close>: whether the acknowledgement could be sent.\<close>

definition hello_answer :: "u64 \<Rightarrow> runtime \<Rightarrow> u64 \<Rightarrow> outcome \<Rightarrow> reason_code \<Rightarrow> string \<Rightarrow> hello_ack_message" where
  "hello_answer session r expires oc reason detail = \<lparr>ha_version = k_wire_version, ha_session = session,
     ha_coordinator = rt_identity r, ha_fence = rt_fence r, ha_accepted_at = 0, ha_lease_expires_at = expires,
     ha_outcome = oc, ha_reason = reason, ha_detail = detail\<rparr>"

definition acknowledge_hello :: "u64 option \<Rightarrow> u64 \<Rightarrow> hello_ack_message \<Rightarrow> coordinator \<Rightarrow> coordinator" where
  "acknowledge_hello owner session ack c = log_frame \<lparr>og_owner = owner, og_type = Msg_HelloAck, og_session = session,
     og_sequence = 1, og_payload = encode_hello_ack ack\<rparr> c"

definition bound_session :: "hello_message \<Rightarrow> session" where
  "bound_session m = \<lparr>se_id = hm_session m, se_kind = hm_kind m, se_identity = hm_identity m, se_inbound = 1,
     se_outbound = 0, se_lease_expires_at = 0, se_worker = (hm_kind m = Producer_RemoteWorker),
     se_last_assessment = None, se_issued = []\<rparr>"

definition handle_hello :: "bool \<Rightarrow> decoded_frame \<Rightarrow> coordinator \<Rightarrow> bool \<times> coordinator" where
  "handle_hello sent frame c =
     (case r_value (decode_hello (df_payload frame)) of
        None \<Rightarrow> (False, c)
      | Some m \<Rightarrow>
          let k = hm_session m;
              reject = (\<lambda>oc detail. (False, acknowledge_hello None k
                (hello_answer k (co_runtime c) 0 oc R_WireHandshakeRejected detail) c))
          in if hm_version m \<noteq> k_wire_version then reject Oc_Unsupported ''protocol version mismatch''
             else if \<not> id_valid k then (False, c)
             else if find_session k c \<noteq> None then reject Oc_AlreadyExists txt_session_identity_is_already_claimed
             else let c' = acknowledge_hello (Some k) k (hello_answer k (co_runtime c) (hm_lease_ticks m) Oc_Ok
                        R_WireFrameAccepted ''session bound to this socket'') c
                  in if \<not> sent then (False, c')
                     else (True, c'\<lparr>co_sessions := insert_sorted fst (k, bound_session m) (co_sessions c')\<rparr>))"

section \<open>The main loop\<close>

text \<open>What the loop meets: the result of a read on a session, and of the first read on a new connection.\<close>

datatype service_event =
    From_Session u64 "decoded_frame result" | From_Peer "decoded_frame result" bool

definition serve_session :: "(nat \<Rightarrow> store_io) \<Rightarrow> u64 \<Rightarrow> decoded_frame result \<Rightarrow> coordinator \<Rightarrow> coordinator" where
  "serve_session io k received c =
     (case r_value received of
        Some frame \<Rightarrow> (case handle_frame io k frame c of
            (Close_Session, c) \<Rightarrow> erase_session k c
          | (_, c) \<Rightarrow> c)
      | None \<Rightarrow> if r_outcome received \<noteq> Oc_Indeterminate then erase_session k c else c)"

definition serve_peer :: "decoded_frame result \<Rightarrow> bool \<Rightarrow> coordinator \<Rightarrow> coordinator" where
  "serve_peer received sent c =
     (case r_value received of
        Some frame \<Rightarrow>
          if fh_type (df_header frame) \<noteq> Msg_Hello \<or> \<not> allowed_before_handshake (fh_type (df_header frame)) then c
          else snd (handle_hello sent frame c)
      | None \<Rightarrow> c)"

definition serve :: "(nat \<Rightarrow> store_io) \<Rightarrow> service_event \<Rightarrow> coordinator \<Rightarrow> coordinator" where
  "serve io event c =
     (if co_exited c then c
      else case event of From_Session k received \<Rightarrow> serve_session io k received c
         | From_Peer received sent \<Rightarrow> serve_peer received sent c)"

definition new_coordinator :: "runtime \<Rightarrow> limits \<Rightarrow> u64 \<Rightarrow> u64 \<Rightarrow> coordinator" where
  "new_coordinator r l after before = \<lparr>co_runtime = r, co_limits = l, co_sessions = [], co_durable_commits = 0,
     co_mutations_seen = 0, co_exit_after_commit = after, co_exit_before_commit = before, co_exited = False, co_sent = []\<rparr>"

section \<open>What a handler changes\<close>

lemma session_ops_fields [simp]:
  "co_runtime (modify_session k g c) = co_runtime c" "co_limits (modify_session k g c) = co_limits c"
  "co_runtime (log_frame og c) = co_runtime c" "co_limits (log_frame og c) = co_limits c"
  "co_sessions (log_frame og c) = co_sessions c" "co_sent (modify_session k g c) = co_sent c"
  "co_runtime (erase_session k c) = co_runtime c" "co_limits (erase_session k c) = co_limits c"
  "co_runtime (dispatch_intent k payload c) = co_runtime c" "co_limits (dispatch_intent k payload c) = co_limits c"
  by (simp_all add: modify_session_def log_frame_def erase_session_def dispatch_intent_def)

lemma reply_fields [simp]:
  "co_runtime (reply k type payload c) = co_runtime c" "co_limits (reply k type payload c) = co_limits c"
  "co_runtime (reply_error k oc reason offending detail c) = co_runtime c"
  "co_limits (reply_error k oc reason offending detail c) = co_limits c"
  "co_runtime (reply_findings k c) = co_runtime c"
  by (simp_all add: reply_def reply_error_def reply_findings_def split: option.split)

lemma verdict_ops [simp]:
  "fst (keep c) = Keep_Session" "snd (keep c) = c" "fst (refuse k oc reason offending detail c) = Keep_Session"
  "snd (refuse k oc reason offending detail c) = reply_error k oc reason offending detail c"
  by (simp_all add: keep_def refuse_def)

lemma note_commit_runtime [simp]:
  "(\<And>c. co_runtime (snd (k c)) = co_runtime c) \<Longrightarrow> co_runtime (snd (note_commit k c)) = co_runtime c"
  by (simp add: note_commit_def Let_def)

text \<open>What holds of the runtime before a mutation and after a call; what follows are replies and bookkeeping.\<close>

lemma before_commit_keeps:
  assumes "P (co_runtime c)" "\<And>c'. co_runtime c' = co_runtime c \<Longrightarrow> P (co_runtime (snd (k c')))"
  shows "P (co_runtime (snd (before_commit k c)))"
  using assms by (simp add: before_commit_def Let_def)

lemma on_runtime_keeps:
  assumes "P (snd (call (co_runtime c)))" "\<And>res c'. co_runtime (snd (k res c')) = co_runtime c'"
  shows "P (co_runtime (snd (on_runtime call c k)))"
  using assms by (cases "call (co_runtime c)") (simp add: on_runtime_def)

lemmas handler_defs = handle_set_topology_def handle_set_policy_def handle_submit_observation_def
  handle_detect_request_def handle_plan_request_def handle_finding_publish_def handle_finding_withdraw_def
  handle_contain_authorize_def handle_contain_ack_def handle_effect_report_def handle_fence_advance_def

section \<open>The runtime behind a frame\<close>

definition moves :: "runtime \<Rightarrow> runtime \<Rightarrow> bool" where
  "moves = runtime_step\<^sup>*\<^sup>*"

lemma moves_refl [simp]: "moves r r"
  by (simp add: moves_def)

lemma moves_step: "runtime_step r r' \<Longrightarrow> moves r r'"
  by (auto simp: moves_def)

lemmas moves_rules = before_commit_keeps[where P = "moves r"] on_runtime_keeps[where P = "moves r"] for r

text \<open>The operation on the definitions that a frame asks for, if it asks for one.\<close>

definition configuring_call :: "(nat \<Rightarrow> store_io) \<Rightarrow> limits \<Rightarrow> decoded_frame \<Rightarrow> (runtime \<Rightarrow> status \<times> runtime) option" where
  "configuring_call io l frame = (case fh_type (df_header frame) of
     Msg_SetTopology \<Rightarrow> map_option (\<lambda>t. set_topology io t 0) (r_value (decode_topology l (df_payload frame)))
   | Msg_SetPolicy \<Rightarrow> map_option (\<lambda>p. set_policy io p 0) (r_value (decode_policy l (df_payload frame)))
   | Msg_FenceAdvance \<Rightarrow> (case read_fence_advance (df_payload frame) of Inl e \<Rightarrow> None
       | Inr ((fence, now), rest) \<Rightarrow> Some (advance_to io fence now))
   | _ \<Rightarrow> None)"

text \<open>It succeeds, or there is no store it could fail to write.\<close>

definition call_settles :: "(runtime \<Rightarrow> status \<times> runtime) \<Rightarrow> runtime \<Rightarrow> bool" where
  "call_settles call r \<longleftrightarrow> is_ok (fst (call r)) \<or> rt_store r = None"

definition configures_cleanly :: "(nat \<Rightarrow> store_io) \<Rightarrow> decoded_frame \<Rightarrow> coordinator \<Rightarrow> bool" where
  "configures_cleanly io frame c = pred_option (\<lambda>call. call_settles call (co_runtime c)) (configuring_call io (co_limits c) frame)"

lemma definition_moves:
  "call_settles (set_topology io t now) r \<Longrightarrow> moves r (snd (set_topology io t now r))"
  "call_settles (set_policy io p now) r \<Longrightarrow> moves r (snd (set_policy io p now r))"
  "call_settles (advance_to io fence now) r \<Longrightarrow> moves r (snd (advance_to io fence now r))"
proof -
  have t: "moves r (snd (set_topology io t now r))" if "call_settles (set_topology io t now) r" for t
    by (rule moves_step, rule runtime_step.topology[OF surjective_pairing]) (use that in \<open>simp add: call_settles_def\<close>)
  then show "call_settles (set_topology io t now) r \<Longrightarrow> moves r (snd (set_topology io t now r))" .
  show "moves r (snd (set_policy io p now r))" if "call_settles (set_policy io p now) r"
    by (rule moves_step, rule runtime_step.policy[OF surjective_pairing]) (use that in \<open>simp add: call_settles_def\<close>)
  have f: "moves r (snd (advance_forwarding io g now r))" if "call_settles (advance_forwarding io g now) r" for g
    by (rule moves_step, rule runtime_step.forwarding[OF surjective_pairing]) (use that in \<open>simp add: call_settles_def\<close>)
  have e: "moves r (snd (advance_fabric_epoch io g now r))" if "call_settles (advance_fabric_epoch io g now) r" for g
    by (rule moves_step, rule runtime_step.fabric_epoch[OF surjective_pairing]) (use that in \<open>simp add: call_settles_def\<close>)
  have b: "moves r (snd (advance_epoch io now r))" if "call_settles (advance_epoch io now) r"
    by (rule moves_step, rule runtime_step.epoch[OF surjective_pairing]) (use that in \<open>simp add: call_settles_def\<close>)
  show "call_settles (advance_to io fence now) r \<Longrightarrow> moves r (snd (advance_to io fence now r))"
    using t f e b by (auto simp: advance_to_def call_settles_def split: option.splits if_splits)
qed

lemma configuration_moves:
  assumes "configures_cleanly io f c"
  shows "fh_type (df_header f) = Msg_SetTopology \<Longrightarrow>
      moves (co_runtime c) (co_runtime (snd (handle_set_topology io k (df_payload f) c)))"
    and "fh_type (df_header f) = Msg_SetPolicy \<Longrightarrow>
      moves (co_runtime c) (co_runtime (snd (handle_set_policy io k (df_payload f) c)))"
    and "fh_type (df_header f) = Msg_FenceAdvance \<Longrightarrow>
      moves (co_runtime c) (co_runtime (snd (handle_fence_advance io k (df_payload f) c)))"
  using assms unfolding handler_defs Let_def
  by (auto simp: configures_cleanly_def configuring_call_def definition_moves split: option.split sum.split intro!: moves_rules)

text \<open>An effect report is two operations.\<close>

lemma effect_report_moves: "moves (co_runtime c) (co_runtime (snd (handle_effect_report io k payload c)))"
proof -
  have "moves r (snd (record_verified_effect io i e now (snd (submit_observation ob now' r))))"
      "moves r (snd (record_verified_effect io i e now r))" for r ob i e now now'
    using observe[of r ob now'] effect[of r io i e now] effect[of "snd (submit_observation ob now' r)" io i e now]
    by (auto simp: moves_def)
  then show ?thesis
    unfolding handle_effect_report_def Let_def
    by (auto simp: on_runtime_def split: option.split prod.split) (metis snd_conv)+
qed

lemma request_moves:
  "moves (co_runtime c) (co_runtime (snd (handle_submit_observation k payload c)))"
  "moves (co_runtime c) (co_runtime (snd (handle_detect_request k payload c)))"
  "moves (co_runtime c) (co_runtime (snd (handle_plan_request io k c)))"
  "moves (co_runtime c) (co_runtime (snd (handle_finding_publish io k c)))"
  "moves (co_runtime c) (co_runtime (snd (handle_finding_withdraw io k payload c)))"
  "moves (co_runtime c) (co_runtime (snd (handle_contain_authorize io k payload c)))"
  "moves (co_runtime c) (co_runtime (snd (handle_contain_ack io k payload c)))"
  unfolding handler_defs Let_def
  by (auto split: option.split sum.split intro!: moves_rules moves_step[OF observe] moves_step[OF detection]
      moves_step[OF planning] moves_step[OF publication] moves_step[OF withdrawal] moves_step[OF authorization]
      moves_step[OF acknowledgement])

lemma dispatch_moves:
  assumes "configures_cleanly io f c"
  shows "moves (co_runtime c) (co_runtime (snd (dispatch io k f c)))"
  using configuration_moves[OF assms] by (simp add: dispatch_def Let_def request_moves effect_report_moves
      split: message_type.split)

lemma handle_frame_moves:
  assumes "configures_cleanly io f c"
  shows "moves (co_runtime c) (co_runtime (snd (handle_frame io k f c)))"
  using assms dispatch_moves[of io f "modify_session k (\<lambda>s. s\<lparr>se_inbound := fh_sequence (df_header f)\<rparr>) c" k]
  by (simp add: handle_frame_def Let_def configures_cleanly_def split: option.split)

text \<open>Only an effect report can make a finding verified.\<close>

lemmas calm_rules = before_commit_keeps[where P = "calm reg"] on_runtime_keeps[where P = "calm reg"] for reg

lemma advance_to_calm: "calm (rt_findings r) (snd (advance_to io fence now r))"
  by (simp add: advance_to_def advance_calm set_topology_calm none_verified_refl split: option.split)

lemma handler_calm:
  assumes "runtime_ok (co_runtime c)"
  shows "calm (rt_findings (co_runtime c)) (co_runtime (snd (handle_set_topology io k payload c)))"
    "calm (rt_findings (co_runtime c)) (co_runtime (snd (handle_set_policy io k payload c)))"
    "calm (rt_findings (co_runtime c)) (co_runtime (snd (handle_fence_advance io k payload c)))"
    "calm (rt_findings (co_runtime c)) (co_runtime (snd (handle_submit_observation k payload c)))"
    "calm (rt_findings (co_runtime c)) (co_runtime (snd (handle_detect_request k payload c)))"
    "calm (rt_findings (co_runtime c)) (co_runtime (snd (handle_plan_request io k c)))"
    "calm (rt_findings (co_runtime c)) (co_runtime (snd (handle_finding_publish io k c)))"
    "calm (rt_findings (co_runtime c)) (co_runtime (snd (handle_finding_withdraw io k payload c)))"
    "calm (rt_findings (co_runtime c)) (co_runtime (snd (handle_contain_authorize io k payload c)))"
    "calm (rt_findings (co_runtime c)) (co_runtime (snd (handle_contain_ack io k payload c)))"
  unfolding handler_defs Let_def
  by (auto simp: none_verified_refl advance_to_calm set_topology_calm set_policy_calm submit_calm plan_calm
      publish_calm[OF assms] authorize_calm acknowledgement_calm withdraw_calm split: option.split sum.split intro!: calm_rules)

lemma handle_frame_calm:
  assumes "runtime_ok (co_runtime c)" "fh_type (df_header f) \<noteq> Msg_EffectReport"
  shows "calm (rt_findings (co_runtime c)) (co_runtime (snd (handle_frame io k f c)))"
proof -
  let ?c = "modify_session k (\<lambda>s. s\<lparr>se_inbound := fh_sequence (df_header f)\<rparr>) c"
  have "runtime_ok (co_runtime ?c)" using assms(1) by simp
  from handler_calm[OF this] have "calm (rt_findings (co_runtime ?c)) (co_runtime (snd (dispatch io k f ?c)))"
    using assms(2) by (simp add: dispatch_def Let_def none_verified_refl split: message_type.split)
  then show ?thesis by (simp add: handle_frame_def Let_def none_verified_refl split: option.split)
qed

section \<open>The sessions behind a frame\<close>

text \<open>What a handler leaves of a session: all but the outbound sequence, and for its own session what it remembers.\<close>

definition same_session :: "bool \<Rightarrow> session \<Rightarrow> session \<Rightarrow> bool" where
  "same_session own s t \<longleftrightarrow> se_id t = se_id s \<and> se_kind t = se_kind s \<and> se_identity t = se_identity s \<and>
     se_inbound t = se_inbound s \<and> se_worker t = se_worker s \<and> se_lease_expires_at t = se_lease_expires_at s \<and>
     (own \<or> se_last_assessment t = se_last_assessment s \<and> se_issued t = se_issued s)"

text \<open>A frame on a connection carries the identity of the session that owns it.\<close>

definition own_frame :: "outgoing \<Rightarrow> bool" where
  "own_frame g \<longleftrightarrow> og_owner g = None \<or> og_owner g = Some (og_session g)"

definition keyed :: "coordinator \<Rightarrow> bool" where
  "keyed c \<longleftrightarrow> list_all (\<lambda>e. se_id (snd e) = fst e) (co_sessions c)"

definition serves :: "u64 \<Rightarrow> coordinator \<Rightarrow> coordinator \<Rightarrow> bool" where
  "serves k c c' \<longleftrightarrow> list_all2 (\<lambda>e e'. fst e' = fst e \<and> same_session (fst e = k) (snd e) (snd e')) (co_sessions c) (co_sessions c') \<and>
     (keyed c \<longrightarrow> list_all own_frame (co_sent c) \<longrightarrow> list_all own_frame (co_sent c'))"

lemma same_session_refl [simp]: "same_session own s s"
  by (simp add: same_session_def)

lemma same_session_trans: "same_session own s t \<Longrightarrow> same_session own t u \<Longrightarrow> same_session own s u"
  by (auto simp: same_session_def)

lemma same_sessions_keyed:
  "list_all2 (\<lambda>e e'. fst e' = fst e \<and> same_session (fst e = k) (snd e) (snd e')) xs ys \<Longrightarrow>
    list_all (\<lambda>e. se_id (snd e) = fst e) xs \<Longrightarrow> list_all (\<lambda>e. se_id (snd e) = fst e) ys"
  by (induction rule: list_all2_induct) (auto simp: same_session_def)

lemma serves_refl: "co_sessions c' = co_sessions c \<Longrightarrow> co_sent c' = co_sent c \<Longrightarrow> serves k c c'"
  by (simp add: serves_def list_all2_same)

lemma serves_trans:
  assumes "serves k a b" "serves k b c"
  shows "serves k a c"
proof -
  have "list_all2 (\<lambda>e e'. fst e' = fst e \<and> same_session (fst e = k) (snd e) (snd e')) (co_sessions a) (co_sessions c)"
    by (rule list_all2_trans[OF _ conjunct1[OF assms(1)[unfolded serves_def]] conjunct1[OF assms(2)[unfolded serves_def]]])
       (auto intro: same_session_trans)
  moreover have "keyed a \<Longrightarrow> keyed b" using assms(1) by (auto simp: serves_def keyed_def dest: same_sessions_keyed)
  ultimately show ?thesis using assms by (auto simp: serves_def)
qed

lemma serves_modify:
  assumes "\<And>s. same_session True s (g s)"
  shows "serves k c (modify_session k g c)"
  using assms by (auto simp: serves_def modify_session_def list.rel_map intro!: list.rel_refl_strong)

lemma serves_reply: "serves k c (reply k type payload c)"
proof (cases "find_session k c")
  case None
  then show ?thesis by (simp add: reply_def serves_refl)
next
  case (Some s)
  then have "(k, s) \<in> set (co_sessions c)" unfolding find_session_def by (rule map_of_SomeD)
  then have "keyed c \<Longrightarrow> se_id s = k" by (auto simp: keyed_def list_all_iff)
  moreover have "list_all2 (\<lambda>e e'. fst e' = fst e \<and> same_session (fst e = k) (snd e) (snd e')) (co_sessions c)
      (co_sessions (modify_session k next_outbound c))"
    by (auto simp: modify_session_def list.rel_map next_outbound_def same_session_def intro!: list.rel_refl_strong)
  ultimately show ?thesis by (auto simp: reply_def Some serves_def log_frame_def own_frame_def)
qed

lemma serves_dispatch_intent: "serves k c (dispatch_intent k payload c)"
proof -
  have "list_all2 (\<lambda>e e'. fst e' = fst e \<and> same_session (fst e = k) (snd e) (snd e')) (co_sessions c)
      (co_sessions (dispatch_intent k payload c))"
    by (auto simp: dispatch_intent_def list.rel_map next_outbound_def same_session_def intro!: list.rel_refl_strong)
  then show ?thesis by (auto simp: serves_def dispatch_intent_def own_frame_def keyed_def list_all_iff)
qed

text \<open>Chains of replies and bookkeeping.\<close>

lemma serves_after_reply:
  "serves k a c \<Longrightarrow> serves k a (reply k type payload c)"
  "serves k a c \<Longrightarrow> serves k a (reply_error k oc reason offending detail c)"
  "serves k a c \<Longrightarrow> serves k a (reply_findings k c)"
  using serves_trans[OF _ serves_reply] by (simp_all add: reply_error_def reply_findings_def)

lemma serves_updates:
  "serves k a c \<Longrightarrow> serves k a (c\<lparr>co_runtime := r\<rparr>)"
  "serves k a c \<Longrightarrow> serves k a (modify_session k (\<lambda>s. s\<lparr>se_last_assessment := x\<rparr>) c)"
  "serves k a c \<Longrightarrow> serves k a (modify_session k (\<lambda>s. s\<lparr>se_issued := is s\<rparr>) c)"
  "serves k a c \<Longrightarrow> serves k a (dispatch_intent k payload c)"
proof -
  show "serves k a (c\<lparr>co_runtime := r\<rparr>)" if "serves k a c"
    by (rule serves_trans[OF that serves_refl]) simp_all
  show "serves k a (modify_session k (\<lambda>s. s\<lparr>se_last_assessment := x\<rparr>) c)" if "serves k a c"
    by (rule serves_trans[OF that serves_modify]) (simp add: same_session_def)
  show "serves k a (modify_session k (\<lambda>s. s\<lparr>se_issued := is s\<rparr>) c)" if "serves k a c"
    by (rule serves_trans[OF that serves_modify]) (simp add: same_session_def)
  show "serves k a (dispatch_intent k payload c)" if "serves k a c"
    by (rule serves_trans[OF that serves_dispatch_intent])
qed

lemma serves_commit:
  "serves k a c \<Longrightarrow> (\<And>c. serves k a c \<Longrightarrow> serves k a (snd (next c))) \<Longrightarrow> serves k a (snd (note_commit next c))"
  "serves k a c \<Longrightarrow> (\<And>c. serves k a c \<Longrightarrow> serves k a (snd (next c))) \<Longrightarrow> serves k a (snd (before_commit next c))"
proof -
  have f: "serves k a (c\<lparr>co_durable_commits := n\<rparr>)" "serves k a (c\<lparr>co_durable_commits := n, co_exited := True\<rparr>)"
    "serves k a (c\<lparr>co_mutations_seen := n\<rparr>)" "serves k a (c\<lparr>co_mutations_seen := n, co_exited := True\<rparr>)" if "serves k a c" for n
    by (rule serves_trans[OF that serves_refl]; simp)+
  show "serves k a c \<Longrightarrow> (\<And>c. serves k a c \<Longrightarrow> serves k a (snd (next c))) \<Longrightarrow> serves k a (snd (note_commit next c))"
    using f by (simp add: note_commit_def Let_def)
  show "serves k a c \<Longrightarrow> (\<And>c. serves k a c \<Longrightarrow> serves k a (snd (next c))) \<Longrightarrow> serves k a (snd (before_commit next c))"
    using f by (simp add: before_commit_def Let_def)
qed

lemma serves_call:
  "serves k a c \<Longrightarrow> (\<And>res c. serves k a c \<Longrightarrow> serves k a (snd (next res c))) \<Longrightarrow> serves k a (snd (on_runtime call c next))"
  by (cases "call (co_runtime c)") (simp add: on_runtime_def serves_updates)

lemmas serves_rules = serves_after_reply serves_updates serves_commit serves_call

lemma handler_serves:
  "serves k c (snd (handle_set_topology io k payload c))" "serves k c (snd (handle_set_policy io k payload c))"
  "serves k c (snd (handle_fence_advance io k payload c))" "serves k c (snd (handle_submit_observation k payload c))"
  "serves k c (snd (handle_detect_request k payload c))" "serves k c (snd (handle_plan_request io k c))"
  "serves k c (snd (handle_finding_publish io k c))" "serves k c (snd (handle_finding_withdraw io k payload c))"
  "serves k c (snd (handle_contain_authorize io k payload c))" "serves k c (snd (handle_contain_ack io k payload c))"
  unfolding handler_defs Let_def
  by (auto simp: serves_refl split: option.split sum.split intro!: serves_rules)

lemma effect_report_serves: "serves k c (snd (handle_effect_report io k payload c))"
proof -
  have "serves k c (on_runtime call c (\<lambda>st c. c))" for call :: "runtime \<Rightarrow> status \<times> runtime"
    by (cases "call (co_runtime c)") (simp add: on_runtime_def serves_refl)
  then show ?thesis
    unfolding handle_effect_report_def Let_def by (auto simp: serves_refl split: option.split intro!: serves_rules)
qed

lemma dispatch_serves: "serves k c (snd (dispatch io k f c))"
  using serves_refl[of c c k]
  by (auto simp: dispatch_def Let_def handler_serves effect_report_serves serves_after_reply split: message_type.split)

text \<open>Looking a session up before and after.\<close>

lemma serves_find:
  assumes "serves k c c'"
  shows "rel_option (same_session (i = k)) (find_session i c) (find_session i c')"
proof -
  have "list_all2 (\<lambda>e e'. fst e' = fst e \<and> same_session (fst e = k) (snd e) (snd e')) xs ys \<Longrightarrow>
      rel_option (same_session (i = k)) (map_of xs i) (map_of ys i)" for xs ys
    by (induction rule: list_all2_induct) auto
  then show ?thesis using assms by (simp add: serves_def find_session_def)
qed

lemma serves_keys: "serves k c c' \<Longrightarrow> map fst (co_sessions c') = map fst (co_sessions c)"
proof -
  have "list_all2 (\<lambda>e e'. fst e' = fst e \<and> same_session (fst e = k) (snd e) (snd e')) xs ys \<Longrightarrow> map fst ys = map fst xs" for xs ys
    by (induction rule: list_all2_induct) auto
  then show "serves k c c' \<Longrightarrow> map fst (co_sessions c') = map fst (co_sessions c)" by (simp add: serves_def)
qed

lemma find_modify: "find_session i (modify_session k g c) = (if i = k then map_option g (find_session i c) else find_session i c)"
proof -
  have "map_of (map (\<lambda>e. if fst e = k then (k, g (snd e)) else e) xs) i = (if i = k then map_option g (map_of xs i) else map_of xs i)" for xs
    by (induction xs) auto
  then show ?thesis by (simp add: find_session_def modify_session_def)
qed

lemma modify_keys: "map fst (co_sessions (modify_session k g c)) = map fst (co_sessions c)"
  by (simp add: modify_session_def comp_def)

text \<open>A frame out of turn: the session is closed and told why, nothing else happens.\<close>

lemma handle_frame_refused:
  assumes "find_session k c = Some s" "fh_session (df_header f) \<noteq> se_id s \<or> fh_sequence (df_header f) \<le> se_inbound s"
  shows "fst (handle_frame io k f c) = Close_Session \<and> co_runtime (snd (handle_frame io k f c)) = co_runtime c \<and>
    serves k c (snd (handle_frame io k f c))"
  using assms serves_after_reply(2)[OF serves_refl[of c c k]] by (simp add: handle_frame_def Let_def)

text \<open>A frame in turn moves the inbound sequence of its session to its own.\<close>

lemma handle_frame_accepted:
  assumes "find_session k c = Some s" "fh_session (df_header f) = se_id s" "se_inbound s < fh_sequence (df_header f)"
  shows "serves k (modify_session k (\<lambda>s. s\<lparr>se_inbound := fh_sequence (df_header f)\<rparr>) c) (snd (handle_frame io k f c))"
  using assms dispatch_serves by (auto simp: handle_frame_def Let_def dest: leD)

section \<open>The service\<close>

definition service_ok :: "coordinator \<Rightarrow> bool" where
  "service_ok c \<longleftrightarrow> runtime_ok (co_runtime c) \<and> sorted_wrt (<) (map fst (co_sessions c)) \<and> keyed c \<and>
     list_all (\<lambda>e. id_valid (fst e)) (co_sessions c) \<and> list_all own_frame (co_sent c)"

definition table_ok :: "coordinator \<Rightarrow> bool" where
  "table_ok c \<longleftrightarrow> sorted_wrt (<) (map fst (co_sessions c)) \<and> keyed c \<and>
     list_all (\<lambda>k. id_valid k) (map fst (co_sessions c)) \<and> list_all own_frame (co_sent c)"

lemma service_table: "service_ok c \<longleftrightarrow> runtime_ok (co_runtime c) \<and> table_ok c"
  by (auto simp: service_ok_def table_ok_def list_all_iff)

lemma serves_table: "serves k c c' \<Longrightarrow> table_ok c \<Longrightarrow> table_ok c'"
  using serves_keys[of k c c'] same_sessions_keyed[of k "co_sessions c" "co_sessions c'"]
  by (auto simp: table_ok_def serves_def keyed_def)

lemma modify_table:
  assumes "\<And>s. se_id (g s) = se_id s" "table_ok c"
  shows "table_ok (modify_session k g c)"
proof -
  have "keyed (modify_session k g c)"
    using assms by (auto simp: table_ok_def keyed_def list_all_iff modify_session_def)
  then show ?thesis using assms(2) modify_keys[of k g c] by (simp add: table_ok_def)
qed

lemma handle_frame_table:
  assumes "table_ok c"
  shows "table_ok (snd (handle_frame io k f c))"
proof (cases "find_session k c")
  case None
  then show ?thesis using assms by (simp add: handle_frame_def)
next
  case (Some s)
  show ?thesis
  proof (cases "fh_session (df_header f) \<noteq> se_id s \<or> fh_sequence (df_header f) \<le> se_inbound s")
    case True
    then show ?thesis using handle_frame_refused[OF Some] assms serves_table by blast
  next
    case False
    then have "serves k (modify_session k (\<lambda>s. s\<lparr>se_inbound := fh_sequence (df_header f)\<rparr>) c) (snd (handle_frame io k f c))"
      by (intro handle_frame_accepted[OF Some]) (simp_all add: not_le)
    then show ?thesis by (rule serves_table) (simp add: modify_table assms)
  qed
qed

lemma erase_table: "table_ok c \<Longrightarrow> table_ok (erase_session k c)"
proof -
  assume t: "table_ok c"
  have "map fst (filter (\<lambda>e. fst e \<noteq> k) xs) = filter (\<lambda>i. i \<noteq> k) (map fst xs)" for xs :: "(u64 \<times> session) list"
    by (induction xs) auto
  then show ?thesis using t by (auto simp: table_ok_def erase_session_def keyed_def list_all_iff sorted_wrt_filter)
qed

lemma handle_hello_table:
  assumes "table_ok c"
  shows "table_ok (snd (handle_hello sent f c))"
proof (cases "fst (handle_hello sent f c)")
  case True
  then obtain m where m: "r_value (decode_hello (df_payload f)) = Some m" "id_valid (hm_session m)"
      "find_session (hm_session m) c = None"
    and h: "co_sessions (snd (handle_hello sent f c)) = insert_sorted fst (hm_session m, bound_session m) (co_sessions c)"
      "list_all own_frame (co_sent (snd (handle_hello sent f c)))"
    using assms by (auto simp: handle_hello_def Let_def acknowledge_hello_def log_frame_def own_frame_def table_ok_def
        split: option.splits if_splits)
  have "hm_session m \<notin> fst ` set (co_sessions c)" using m(3) by (simp add: find_session_def map_of_eq_None_iff)
  then show ?thesis
    using assms m(2) h by (auto simp: table_ok_def keyed_def list_all_iff bound_session_def strict_sorted_insert_sorted)
next
  case False
  then show ?thesis
    using assms by (auto simp: handle_hello_def Let_def acknowledge_hello_def log_frame_def own_frame_def table_ok_def keyed_def
        split: option.splits if_splits)
qed

lemma handle_hello_runtime [simp]: "co_runtime (snd (handle_hello sent f c)) = co_runtime c"
  by (simp add: handle_hello_def Let_def acknowledge_hello_def split: option.split)

end
