(* ===== verification/Service.thy ===== *)
theory Service
  imports Coordinator
begin

text \<open>
  The life of the service of tools/lg_coordinator.cpp: the fixture it can install at its start
  (tools/tool_common.hpp), the steps of its main loop (\<open>service_step\<close>), the invariant of all its
  histories (\<open>service_machine\<close>) and how they project to the histories of its runtime
  (\<open>service_refines_runtime\<close>). A frame that changes a definition or the fence is a step when its operation
  succeeds or there is no store; only a failing write to the store is left out.
  \<open>sent_intents\<close> says which intents a frame can cause to be sent, and to whom.
\<close>

section \<open>The fixture\<close>

definition synthetic_resource :: "nat \<Rightarrow> resource_record" where
  "synthetic_resource index = (let i = of_nat (index + 1)
     in \<lparr>rr_id = i, rr_domain = 1, rr_kind = Kind_Switch, rr_admin = Admin_Enabled, rr_containable = True,
         rr_cost = 1, rr_label = ''synthetic-switch-'' @ id_to_string i\<rparr>)"

definition synthetic_edge :: "nat \<Rightarrow> nat \<Rightarrow> forwarding_edge" where
  "synthetic_edge nodes index = \<lparr>fe_id = of_nat (index + 1), fe_from = of_nat (index + 1),
     fe_to = of_nat ((index + 1) mod nodes + 1), fe_domain = 1, fe_link = Link_Up, fe_selectors = [1]\<rparr>"

text \<open>The answers of the builder are dropped, as in the source.\<close>

definition synthetic_ring :: "nat \<Rightarrow> u64 \<Rightarrow> topology result" where
  "synthetic_ring nodes generation =
     (let b = (new_builder default_limits)\<lparr>tb_generation := generation\<rparr>;
          b = snd (add_selector \<lparr>ts_id = 1, ts_kind = Sel_FlowClass, ts_label = ''synthetic-flow''\<rparr> b);
          b = foldl (\<lambda>b index. snd (add_resource (synthetic_resource index) b)) b [0..<nodes];
          b = foldl (\<lambda>b index. snd (add_edge (synthetic_edge nodes index) b)) b [0..<nodes]
      in build b)"

definition synthetic_policy :: "u64 \<Rightarrow> containment_policy" where
  "synthetic_policy generation = \<lparr>po_generation = generation, po_max_targets = 4, po_max_total_cost = 32,
     po_kinds = [Kind_Switch, Kind_PortGroup, Kind_NextHopGroup], po_domains = [], po_cross_domain = False,
     po_max_search_nodes = 0\<rparr>"

text \<open>The definitions installed at the start: the ring one generation after the stored one, and then the policy.
  A failure ends the process.\<close>

definition give_up :: "coordinator \<Rightarrow> verdict \<times> coordinator" where
  "give_up c = (Process_Exited, c\<lparr>co_exited := True\<rparr>)"

definition install_ring :: "(nat \<Rightarrow> store_io) \<Rightarrow> nat \<Rightarrow> coordinator \<Rightarrow> verdict \<times> coordinator" where
  "install_ring io ring c =
     (if ring = 0 then keep c
      else let generation = (case rt_topology (co_runtime c) of None \<Rightarrow> 1 | Some t \<Rightarrow> td_generation t + 1)
           in case r_value (synthetic_ring ring generation) of
                None \<Rightarrow> give_up c
              | Some t \<Rightarrow> on_runtime (set_topology io t 0) c (\<lambda>st c. if is_ok st then note_commit keep c else give_up c))"

definition install_policy :: "(nat \<Rightarrow> store_io) \<Rightarrow> nat \<Rightarrow> u64 option \<Rightarrow> coordinator \<Rightarrow> verdict \<times> coordinator" where
  "install_policy io ring requested c =
     (if requested = None \<and> ring = 0 then keep c
      else let asked = (case requested of None \<Rightarrow> 0 | Some g \<Rightarrow> g);
               generation = (if asked = 0
                 then (case rt_policy (co_runtime c) of None \<Rightarrow> 1 | Some p \<Rightarrow> po_generation p + 1) else asked)
           in on_runtime (set_policy io (synthetic_policy generation) 0) c
                (\<lambda>st c. if is_ok st then note_commit keep c else give_up c))"

definition install_fixture :: "(nat \<Rightarrow> store_io) \<Rightarrow> (nat \<Rightarrow> store_io) \<Rightarrow> nat \<Rightarrow> u64 option \<Rightarrow>
    coordinator \<Rightarrow> verdict \<times> coordinator" where
  "install_fixture io io' ring requested c =
     (case install_ring io ring c of
        (Keep_Session, c) \<Rightarrow> install_policy io' ring requested c
      | stopped \<Rightarrow> stopped)"

section \<open>Steps\<close>

text \<open>What is served does not ask for an operation whose write to the store fails.\<close>

definition settles :: "(nat \<Rightarrow> store_io) \<Rightarrow> service_event \<Rightarrow> coordinator \<Rightarrow> bool" where
  "settles io event c \<longleftrightarrow> (case event of
     From_Session k received \<Rightarrow> pred_option (\<lambda>f. configures_cleanly io f c) (r_value received)
   | From_Peer received sent \<Rightarrow> True)"

text \<open>The step of the loop: whatever was received, when it is of no consequence to the runtime (refused, say) or
  the operation on the definitions it asks for, if any, succeeds or has no store to write.\<close>

inductive service_step :: "coordinator \<Rightarrow> coordinator \<Rightarrow> bool" where
  serving: "settles io event c \<or> co_runtime (serve io event c) = co_runtime c \<Longrightarrow> service_step c (serve io event c)"

inductive_cases service_stepE: "service_step c c'"

definition service_start :: "coordinator \<Rightarrow> bool" where
  "service_start c \<longleftrightarrow> (\<exists>r l after before. runtime_start r \<and> c = new_coordinator r l after before)"

lemma verdict_runtime: "co_runtime (case x of (Close_Session, c) \<Rightarrow> erase_session k c | (_, c) \<Rightarrow> c) = co_runtime (snd x)"
  by (cases x) (simp split: verdict.split)

lemma serve_moves:
  assumes "settles io event c \<or> co_runtime (serve io event c) = co_runtime c"
  shows "moves (co_runtime c) (co_runtime (serve io event c))"
proof (cases "co_runtime (serve io event c) = co_runtime c")
  case False
  with assms show ?thesis
    using handle_frame_moves[of io _ c]
    by (cases event)
      (auto simp: serve_def serve_session_def serve_peer_def settles_def verdict_runtime split: option.splits if_splits)
qed simp

lemma verdict_table: "table_ok (snd x) \<Longrightarrow> table_ok (case x of (Close_Session, c) \<Rightarrow> erase_session k c | (_, c) \<Rightarrow> c)"
  by (cases x) (simp add: erase_table split: verdict.split)

lemma serve_table: "table_ok c \<Longrightarrow> table_ok (serve io event c)"
  by (simp add: serve_def serve_session_def serve_peer_def handle_frame_table handle_hello_table erase_table verdict_table
      split: service_event.split option.splits)

lemma service_refines_runtime: "service_step c c' \<Longrightarrow> runtime_step\<^sup>*\<^sup>* (co_runtime c) (co_runtime c')"
  by (elim service_stepE) (use serve_moves in \<open>auto simp: moves_def\<close>)

lemma service_runs_runtime: "service_step\<^sup>*\<^sup>* c c' \<Longrightarrow> runtime_step\<^sup>*\<^sup>* (co_runtime c) (co_runtime c')"
  by (induction rule: rtranclp_induct) (use service_refines_runtime in force)+

interpretation service_machine: invariant_machine service_start service_step service_ok
proof
  show "service_ok c" if "service_start c" for c
    using that runtime_machine.inv_initial by (auto simp: service_start_def service_ok_def new_coordinator_def keyed_def)
  show "service_ok c'" if "service_ok c" "service_step c c'" for c c'
    using that(2)
  proof cases
    case (serving event io)
    have "runtime_ok (co_runtime c')"
      using runtime_machine.steps_inv[OF service_refines_runtime[OF that(2)]] that(1) by (simp add: service_ok_def)
    then show ?thesis using that(1) serving serve_table by (simp add: service_table)
  qed
qed

section \<open>Intents on the wire\<close>

text \<open>The frames a handler adds, none of them an intent.\<close>

definition quiet :: "coordinator \<Rightarrow> coordinator \<Rightarrow> bool" where
  "quiet a c \<longleftrightarrow> (\<exists>added. co_sent c = co_sent a @ added \<and> list_all (\<lambda>g. og_type g \<noteq> Msg_ContainIntent) added)"

lemma quiet_same: "co_sent c = co_sent a \<Longrightarrow> quiet a c"
  by (simp add: quiet_def)

lemma quiet_reply:
  assumes "quiet a c" "type \<noteq> Msg_ContainIntent"
  shows "quiet a (reply k type payload c)"
  using assms by (auto simp: quiet_def reply_def log_frame_def split: option.split)

lemma quiet_replies:
  "quiet a c \<Longrightarrow> quiet a (reply_error k oc reason offending detail c)" "quiet a c \<Longrightarrow> quiet a (reply_findings k c)"
  by (simp_all add: reply_error_def reply_findings_def quiet_reply)

lemma quiet_modify: "quiet a c \<Longrightarrow> quiet a (modify_session k g c)"
  by (simp add: quiet_def)

lemma quiet_commit:
  "quiet a c \<Longrightarrow> (\<And>c. quiet a c \<Longrightarrow> quiet a (snd (next c))) \<Longrightarrow> quiet a (snd (note_commit next c))"
  "quiet a c \<Longrightarrow> (\<And>c. quiet a c \<Longrightarrow> quiet a (snd (next c))) \<Longrightarrow> quiet a (snd (before_commit next c))"
  by (simp_all add: note_commit_def before_commit_def Let_def quiet_def)

lemma quiet_call:
  "quiet a c \<Longrightarrow> (\<And>res c. quiet a c \<Longrightarrow> quiet a (snd (next res c))) \<Longrightarrow> quiet a (snd (on_runtime call c next))"
  by (cases "call (co_runtime c)") (simp add: on_runtime_def quiet_def)

lemma quiet_submit: "quiet a c \<Longrightarrow> quiet a (on_runtime call c (\<lambda>st c. c))"
  by (cases "call (co_runtime c)") (simp add: on_runtime_def quiet_def)

lemmas quiet_rules = quiet_reply quiet_replies quiet_modify quiet_commit quiet_call quiet_submit

lemma handlers_quiet:
  "quiet c (snd (handle_set_topology io k payload c))" "quiet c (snd (handle_set_policy io k payload c))"
  "quiet c (snd (handle_fence_advance io k payload c))" "quiet c (snd (handle_submit_observation k payload c))"
  "quiet c (snd (handle_detect_request k payload c))" "quiet c (snd (handle_plan_request io k c))"
  "quiet c (snd (handle_finding_publish io k c))" "quiet c (snd (handle_finding_withdraw io k payload c))"
  "quiet c (snd (handle_contain_ack io k payload c))" "quiet c (snd (handle_effect_report io k payload c))"
  unfolding handler_defs Let_def
  by (auto simp: quiet_same split: option.split sum.split intro!: quiet_rules)

text \<open>The intents a frame causes: each is one the runtime issued for it, and goes to a worker other than the asker.\<close>

definition issued_to :: "coordinator \<Rightarrow> coordinator \<Rightarrow> u64 \<Rightarrow> containment_intent \<Rightarrow> outgoing \<Rightarrow> bool" where
  "issued_to c c' asker i g \<longleftrightarrow> og_payload g = encode_contain_intent (intent_message i) \<and>
     (\<exists>e \<in> set (co_sessions c). se_worker (snd e) \<and> fst e \<noteq> asker \<and> og_owner g = Some (fst e)) \<and>
     rt_applications (co_runtime c') (ci_id i) = Some (application_of (co_runtime c) i)"

text \<open>Without a list of targets the intent has all targets of the plan.\<close>

lemma authorize_all_targets:
  assumes "authorize_containment io k grant now lease [] r = (res, r')" "r_value res = Some i"
    and "find_finding (rt_findings r) k = Some f" "map_of (rt_plans r) (fi_plan f) = Some p"
  shows "ci_targets i = target_resources p"
proof -
  have t: "authorize_targets (io 0) k p grant now lease [] r = (res, r')"
    using assms by (auto simp: authorize_containment_def refuse_intent_def split: if_splits)
  have "sort (target_resources p) = target_resources p" by (simp add: target_resources_def sorted_sort_id)
  then have "issue_intent (io 0) (intent_of r k p (target_resources p) now lease) now r = (res, r')"
    using authorize_targets_cases[OF t] assms(2) by auto
  from issue_intent_okD[OF this assms(2)] show ?thesis by (simp add: intent_of_def Let_def)
qed

lemma not_quiet: "co_sent c' = co_sent c @ added \<Longrightarrow> g \<in> set added \<Longrightarrow> og_type g = Msg_ContainIntent \<Longrightarrow> \<not> quiet c c'"
  by (auto simp: quiet_def list_all_iff)

text \<open>When a request for containment sends an intent, the runtime issued it for that request.\<close>

lemma authorize_loud:
  assumes "\<not> quiet c (snd (handle_contain_authorize io k payload c))"
  obtains finding now lease q i res r where "plan_of_finding finding (co_runtime c) = Some q"
    "authorize_containment io finding (session_grant k q now lease (co_runtime c)) now lease [] (co_runtime c) = (res, r)"
    "r_value res = Some i"
    "snd (handle_contain_authorize io k payload c) = reply k Msg_PlanReply (encode_plan_reply (co_limits c) (plan_reply q))
       (modify_session k (\<lambda>s. s\<lparr>se_issued := se_issued s @ [i]\<rparr>)
         (dispatch_intent k (encode_contain_intent (intent_message i)) (c\<lparr>co_runtime := r\<rparr>)))"
proof (cases "read_authorization payload")
  case (Inl e)
  then have "quiet c (snd (handle_contain_authorize io k payload c))"
    by (auto simp: handle_contain_authorize_def quiet_same intro!: quiet_rules)
  then show ?thesis using assms by blast
next
  case (Inr x)
  obtain fence finding now lease rest where read: "read_authorization payload = Inr ((fence, finding, now, lease), rest)"
    using Inr by (cases x) auto
  obtain q where q: "fence = rt_fence (co_runtime c)" "plan_of_finding finding (co_runtime c) = Some q"
    using assms
    by (cases "plan_of_finding finding (co_runtime c)"; cases "fence = rt_fence (co_runtime c)")
       (auto simp: handle_contain_authorize_def read quiet_same intro!: quiet_rules)
  obtain res r where call: "authorize_containment io finding (session_grant k q now lease (co_runtime c)) now lease [] (co_runtime c) = (res, r)"
    by fastforce
  show ?thesis
  proof (cases "r_value res")
    case None
    then have "quiet c (snd (handle_contain_authorize io k payload c))"
      by (auto simp: handle_contain_authorize_def read q on_runtime_def call quiet_same intro!: quiet_rules)
    then show ?thesis using assms by blast
  next
    case (Some i)
    then show ?thesis
      using that[OF q(2) call Some] by (simp add: handle_contain_authorize_def read q on_runtime_def call)
  qed
qed

lemma authorize_sends:
  assumes r: "runtime_ok (co_runtime c)" and sent: "co_sent (snd (handle_contain_authorize io k payload c)) = co_sent c @ added"
    and g: "g \<in> set added" "og_type g = Msg_ContainIntent"
  obtains i f p now lease where "issued_to c (snd (handle_contain_authorize io k payload c)) k i g"
    "find_finding (rt_findings (co_runtime c)) (ci_finding i) = Some f" "\<not> is_terminal f"
    "fi_fence f = rt_fence (co_runtime c)" "map_of (rt_plans (co_runtime c)) (fi_plan f) = Some p"
    "authorizes_action p" "pl_fence p = rt_fence (co_runtime c)" "ci_fence i = rt_fence (co_runtime c)"
    "ci_targets i = target_resources p"
proof -
  obtain finding now lease q i res r' where loud0: "plan_of_finding finding (co_runtime c) = Some q" and loud:
    "authorize_containment io finding (session_grant k q now lease (co_runtime c)) now lease [] (co_runtime c) = (res, r')"
    "r_value res = Some i"
    "snd (handle_contain_authorize io k payload c) = reply k Msg_PlanReply (encode_plan_reply (co_limits c) (plan_reply q))
       (modify_session k (\<lambda>s. s\<lparr>se_issued := se_issued s @ [i]\<rparr>)
         (dispatch_intent k (encode_contain_intent (intent_message i)) (c\<lparr>co_runtime := r'\<rparr>)))"
    by (rule authorize_loud[OF not_quiet[OF sent g]])
  obtain f p where f: "find_finding (rt_findings (co_runtime c)) finding = Some f" "\<not> is_terminal f"
    "fi_fence f = rt_fence (co_runtime c)" "map_of (rt_plans (co_runtime c)) (fi_plan f) = Some p" "authorizes_action p"
    "pl_fence p = rt_fence (co_runtime c)"
    "grantable p (session_grant k q now lease (co_runtime c)) (rt_fence (co_runtime c)) now (ci_targets i)"
    "i = intent_of (co_runtime c) finding p (ci_targets i) now lease"
    "rt_applications r' (ci_id i) = Some (application_of (co_runtime c) i)"
    by (rule authorize_containment_okD[OF r loud(1,2)]) blast
  have intent: "ci_finding (intent_of r finding p ts now lease) = finding" "ci_fence (intent_of r finding p ts now lease) = rt_fence r"
    for r ts by (simp_all add: intent_of_def Let_def)
  have i: "ci_finding i = finding" "ci_fence i = rt_fence (co_runtime c)"
    by (rule f(8)[THEN arg_cong, of ci_finding, unfolded intent], rule f(8)[THEN arg_cong, of ci_fence, unfolded intent])
  have targets: "ci_targets i = target_resources p" by (rule authorize_all_targets[OF loud(1,2) f(1,4)])
  let ?frame = "\<lambda>e. \<lparr>og_owner = Some (fst e), og_type = Msg_ContainIntent, og_session = se_id (snd e),
       og_sequence = se_outbound (snd e) + 1, og_payload = encode_contain_intent (intent_message i)\<rparr>"
  have "\<exists>answer. co_sent (snd (handle_contain_authorize io k payload c)) =
      (co_sent c @ map ?frame (filter (receives_intents k) (co_sessions c))) @ answer \<and>
      list_all (\<lambda>g. og_type g \<noteq> Msg_ContainIntent) answer"
    unfolding loud(3) by (auto simp: reply_def log_frame_def dispatch_intent_def split: option.split)
  then have "g \<in> ?frame ` set (filter (receives_intents k) (co_sessions c))"
    using sent g by (auto simp: list_all_iff)
  then have "issued_to c (snd (handle_contain_authorize io k payload c)) k i g"
    using f(9) by (auto simp: issued_to_def receives_intents_def loud(3))
  then show ?thesis using that[of i f p] f(1-6) i targets by simp
qed

lemma frame_sends:
  assumes "runtime_ok (co_runtime c)" "co_sent (snd (handle_frame io k f c)) = co_sent c @ added" "g \<in> set added"
    "og_type g = Msg_ContainIntent"
  obtains s i fi p where "fh_type (df_header f) = Msg_ContainAuthorize" "find_session k c = Some s"
    "fh_session (df_header f) = se_id s" "se_inbound s < fh_sequence (df_header f)"
    "issued_to c (snd (handle_frame io k f c)) k i g" "find_finding (rt_findings (co_runtime c)) (ci_finding i) = Some fi"
    "\<not> is_terminal fi" "fi_fence fi = rt_fence (co_runtime c)" "map_of (rt_plans (co_runtime c)) (fi_plan fi) = Some p"
    "authorizes_action p" "pl_fence p = rt_fence (co_runtime c)" "ci_fence i = rt_fence (co_runtime c)"
    "ci_targets i = target_resources p"
proof -
  have loud: "\<not> quiet c (snd (handle_frame io k f c))" by (rule not_quiet[OF assms(2-4)])
  obtain s where s: "find_session k c = Some s" "fh_session (df_header f) = se_id s" "se_inbound s < fh_sequence (df_header f)"
    using loud by (cases "find_session k c")
      (auto simp: handle_frame_def Let_def quiet_same quiet_replies not_le split: if_splits)
  let ?c = "modify_session k (\<lambda>s. s\<lparr>se_inbound := fh_sequence (df_header f)\<rparr>) c"
  have d: "handle_frame io k f c = dispatch io k f ?c"
    using s by (auto simp: handle_frame_def Let_def dest: leD)
  have "\<not> quiet ?c (snd (dispatch io k f ?c))" using loud unfolding d by (simp add: quiet_def)
  then have t: "fh_type (df_header f) = Msg_ContainAuthorize"
    by (cases "fh_type (df_header f)")
      (simp_all add: dispatch_def Let_def handlers_quiet quiet_same quiet_replies quiet_reply)
  then have h: "handle_frame io k f c = handle_contain_authorize io k (df_payload f) ?c"
    by (simp add: d dispatch_def)
  have sent: "co_sent (snd (handle_contain_authorize io k (df_payload f) ?c)) = co_sent ?c @ added"
    using assms(2) h by simp
  have same: "issued_to c c' k i g" if "issued_to ?c c' k i g" for c' i
    using that by (auto simp: issued_to_def modify_session_def split: if_splits)
  from authorize_sends[OF _ sent assms(3,4)] assms(1) obtain i fi p where
    "issued_to ?c (snd (handle_contain_authorize io k (df_payload f) ?c)) k i g"
    "find_finding (rt_findings (co_runtime c)) (ci_finding i) = Some fi" "\<not> is_terminal fi"
    "fi_fence fi = rt_fence (co_runtime c)" "map_of (rt_plans (co_runtime c)) (fi_plan fi) = Some p"
    "authorizes_action p" "pl_fence p = rt_fence (co_runtime c)" "ci_fence i = rt_fence (co_runtime c)"
    "ci_targets i = target_resources p"
    by (metis session_ops_fields(1))
  then show ?thesis using that t s same h by metis
qed

end
