(* ===== verification/Spec_Service.thy ===== *)
theory Spec_Service
  imports Topology_Text Service Spec_Runtime
begin

text \<open>
  The properties of the text form of a definition, of a framed connection and of the service: what is read
  back from a text, what a connection hands over, what a session may do, and what the service does not
  check. The example is a service over the in-memory runtime of \<open>Spec_Runtime\<close>.
\<close>

section \<open>Definitions as text\<close>

text \<open>C28: a definition that was built, and whose labels have at most 128 bytes and neither a quote nor a line
  feed, is read back from its canonical text unchanged.\<close>

theorem text_roundtrip:
  assumes "canonicalize_topology d l = ok t" "labels_plain t"
  shows "topology_from_text (topology_to_text t) l = ok t"
  by (rule from_text_to_text[OF assms])

theorem text_roundtrip_witness:
  "topology_from_text (topology_to_text ring) small_limits = ok ring"
proof -
  have "labels_plain ring" by code_simp
  then show ?thesis by (rule text_roundtrip[OF ring_canonical])
qed

text \<open>A selector line with a space in front of it: the words are the same, but the fields are looked for one
  character too early, in the last digit of the identity.\<close>

lemma split_fields_space: "split_fields (CHR '' '' # text) = split_fields text"
  by (subst (1 2) split_fields.simps) simp

lemma indented_selector_line:
  assumes "id_valid (ts_id s)" "label_plain (ts_label s)" "length (tb_selectors b) < unat (max_selectors (tb_limits b))"
  shows "text_line n (CHR '' '' # selector_text s) (b, g) =
    ok (b\<lparr>tb_selectors := tb_selectors b @ [s\<lparr>ts_kind := Sel_FlowClass\<rparr>]\<rparr>, g)"
proof -
  let ?id = "id_to_string (ts_id s)" and ?v = "name_traffic_selector_kind (ts_kind s)"
  let ?kvs = "[(''kind'', ?v), (''label'', quote # ts_label s @ [quote])]"
  let ?key = "last ?id # '' kind''" and ?rest = "put_fields [(''label'', quote # ts_label s @ [quote])]"
  have kvs: "list_all field_ok ?kvs" using assms(2) by (simp add: quoted_ok plain_ok)
  have shown: "selector_text s = ''selector'' @ CHR '' '' # ?id @ put_fields ?kvs"
    by (simp add: selector_text_def put_fields_def)
  have words: "split_ws (CHR '' '' # selector_text s) = ''selector'' # ?id # split_ws (put_fields ?kvs)"
    unfolding split_ws_space by (rule directive_parts[OF _ _ kvs shown]) (simp_all add: is_blank_def)
  have id_split: "?id = butlast ?id @ [last ?id]" using id_plain(1) by simp
  have "drop (length ''selector'' + 1 + length ?id) (CHR '' '' # selector_text s) =
      drop (length (butlast ?id)) ((butlast ?id @ [last ?id]) @ put_fields ?kvs)"
    unfolding id_split[symmetric] shown using id_plain(1)[of "ts_id s"] by (cases "length ?id") simp_all
  then have tail: "drop (length ''selector'' + 1 + length ?id) (CHR '' '' # selector_text s) = ?key @ CHR ''='' # ?v @ ?rest"
    by (simp add: put_fields_def)
  have digit: "is_digit (last ?id)"
    using dec_digits_value[of "unat (ts_id s)"] last_in_set[OF id_plain(1)[of "ts_id s"]]
    by (auto simp: id_to_string_def list_all_iff)
  have key: "?key \<noteq> []" "hd ?key \<noteq> CHR '' ''" "CHR ''='' \<notin> set ?key"
  proof -
    have "\<not> is_digit (CHR ''='')" "\<not> is_digit (CHR '' '')" by code_simp+
    then have "last ?id \<noteq> CHR ''=''" "last ?id \<noteq> CHR '' ''" using digit by metis+
    then show "?key \<noteq> []" "hd ?key \<noteq> CHR '' ''" "CHR ''='' \<notin> set ?key" by auto
  qed
  have v: "CHR '' '' \<notin> set ?v" "?v = [] \<or> hd ?v \<noteq> quote"
    using names_plain(1)[of "ts_kind s"] by (auto simp: plain_value_def list_all_iff dest: hd_in_set)
  have "split_fields (?key @ CHR ''='' # ?v @ ?rest) = (?key, ?v) # split_fields ?rest"
    using split_fields_plain[OF key v, of ?rest] by (simp add: split_fields_space put_fields_def)
  also have "split_fields ?rest = [(''label'', quote # ts_label s @ [quote])]"
    using kvs by (intro split_put_fields) simp
  finally have "split_fields (drop (length ''selector'' + 1 + length ?id) (CHR '' '' # selector_text s)) =
      [(?key, ?v), (''label'', quote # ts_label s @ [quote])]" unfolding tail .
  then show ?thesis
    using assms words by (simp add: text_line_def selector_line_def parse_simps add_selector_def label_plain_def)
qed

text \<open>A label that closes its own quote and goes on with another selector's line.\<close>

definition swallowing_label :: "traffic_selector \<Rightarrow> traffic_selector \<Rightarrow> string" where
  "swallowing_label s s' = ts_label s @ [quote] @ newline @ butlast (selector_text s')"

lemma swallowed_text:
  "selector_text (s\<lparr>ts_label := swallowing_label s s'\<rparr>) = selector_text s @ newline @ selector_text s'"
proof -
  have "butlast (selector_text s') @ [quote] = selector_text s'" by (simp add: selector_text_def butlast_append)
  then show ?thesis by (simp add: selector_text_def[of s] selector_text_def[of "s\<lparr>ts_label := l\<rparr>" for l] swallowing_label_def)
qed

text \<open>C32: the parser is said to be strict, but it finds the fields of a line by counting characters from its start:
  every printed selector line with a space in front of it is accepted, while the builder has room, and
  silently loses its kind, so the selector becomes a flow class. And the printer escapes nothing, so it
  is not injective: for every definition that was built, with labels that round-trip (C28) and two selectors
  side by side, the definition whose first label swallows the second selector's line has the same text,
  and is read back as the other one.\<close>

theorem text_form_is_not_strict:
  assumes "canonicalize_topology d l = ok t" "labels_plain t" "td_selectors t = xs @ [s, s'] @ ys"
    and "length (tb_selectors b) < unat (max_selectors (tb_limits b))"
    and "u = t\<lparr>td_selectors := xs @ [s\<lparr>ts_label := swallowing_label s s'\<rparr>] @ ys\<rparr>"
  shows "text_line n (CHR '' '' # selector_text s) (b, g) =
      ok (b\<lparr>tb_selectors := tb_selectors b @ [s\<lparr>ts_kind := Sel_FlowClass\<rparr>]\<rparr>, g) \<and>
    topology_to_text u = topology_to_text t \<and> u \<noteq> t \<and> topology_from_text (topology_to_text u) l = ok t"
proof -
  have "topology_ok t" by (rule canonicalize_okD(1)[OF assms(1)])
  then have "id_valid (ts_id s)" "label_plain (ts_label s)"
    using assms(2,3) by (simp_all add: topology_ok_def labels_plain_def)
  moreover have same: "topology_to_text u = topology_to_text t"
    by (simp add: assms(3,5) topology_to_text_def swallowed_text)
  moreover have "length (td_selectors u) \<noteq> length (td_selectors t)" by (simp add: assms(3,5))
  then have "u \<noteq> t" by blast
  ultimately show ?thesis
    using indented_selector_line assms(4) from_text_to_text[OF assms(1,2)] by simp
qed

definition two_selectors :: topology where
  "two_selectors = empty_topology\<lparr>td_generation := 1, td_selectors :=
     [\<lparr>ts_id = 5, ts_kind = Sel_PrefixPair, ts_label = ''a''\<rparr>, \<lparr>ts_id = 9, ts_kind = Sel_FlowClass, ts_label = ''b''\<rparr>],
     td_adjacency := [0]\<rparr>"

definition injecting_definition :: topology where
  "injecting_definition = empty_topology\<lparr>td_generation := 1, td_selectors :=
     [\<lparr>ts_id = 5, ts_kind = Sel_PrefixPair, ts_label = ''a'' @ [quote] @ newline @ ''selector 9 kind=FlowClass label='' @ [quote] @ ''b''\<rparr>],
     td_adjacency := [0]\<rparr>"

theorem text_form_is_not_strict_witness:
  "canonicalize_topology injecting_definition small_limits = ok injecting_definition \<and>
   topology_from_text (topology_to_text injecting_definition) small_limits = ok two_selectors \<and>
   text_line 2 ('' '' @ ''selector 5 kind=PrefixPair label='' @ [quote] @ ''a'' @ [quote]) (new_builder small_limits, True) =
     ok ((new_builder small_limits)\<lparr>tb_selectors := [\<lparr>ts_id = 5, ts_kind = Sel_FlowClass, ts_label = ''a''\<rparr>]\<rparr>, True)"
proof -
  let ?s = "\<lparr>ts_id = 5, ts_kind = Sel_PrefixPair, ts_label = ''a''\<rparr>" and ?s' = "\<lparr>ts_id = 9, ts_kind = Sel_FlowClass, ts_label = ''b''\<rparr>"
  have own: "canonicalize_topology injecting_definition small_limits = ok injecting_definition"
    "canonicalize_topology two_selectors small_limits = ok two_selectors" "labels_plain two_selectors" by code_simp+
  have texts: "selector_text ?s = ''selector 5 kind=PrefixPair label='' @ [quote] @ ''a'' @ [quote]"
    "swallowing_label ?s ?s' = ''a'' @ [quote] @ newline @ ''selector 9 kind=FlowClass label='' @ [quote] @ ''b''" by code_simp+
  have two: "td_selectors two_selectors = [] @ [?s, ?s'] @ []" by (simp add: two_selectors_def)
  have inj: "injecting_definition = two_selectors\<lparr>td_selectors := [] @ [?s\<lparr>ts_label := swallowing_label ?s ?s'\<rparr>] @ []\<rparr>"
    unfolding texts by (simp add: injecting_definition_def two_selectors_def)
  have "length (tb_selectors (new_builder small_limits)) < unat (max_selectors (tb_limits (new_builder small_limits)))" by code_simp
  note strict = text_form_is_not_strict[OF own(2,3) two this inj, of 2 True]
  show ?thesis
  proof (intro conjI)
    show "topology_from_text (topology_to_text injecting_definition) small_limits = ok two_selectors" using strict by blast
    show "text_line 2 ('' '' @ ''selector 5 kind=PrefixPair label='' @ [quote] @ ''a'' @ [quote]) (new_builder small_limits, True) =
       ok ((new_builder small_limits)\<lparr>tb_selectors := [\<lparr>ts_id = 5, ts_kind = Sel_FlowClass, ts_label = ''a''\<rparr>]\<rparr>, True)"
      using strict[THEN conjunct1] by (simp add: texts(1) new_builder_def)
  qed (rule own(1))
qed

section \<open>Connections\<close>

text \<open>C27: a connection hands over exactly the frames its peer sent, in order, one for each call, however the
  bytes are cut into reads and however often a read has to wait, as long as no deadline expires.\<close>

theorem connection_delivers:
  assumes "list_all frame_valid fs" "list_all2 (reads deadline s) rounds chunks"
    and "concat chunks = concat (map frame_bytes fs)"
  shows "\<exists>c. receive_frames deadline (length fs) rounds (new_connection s) = Some (map ok fs, c, []) \<and> fc_pending c = []"
proof -
  have "frames_of (concat (map frame_bytes fs) @ []) = (fs @ [], [], None)"
    using assms(1) by (intro frames_of_frames) (simp_all add: list_all_iff frames_of.simps next_frame_def k_wire_header_bytes_def)
  then have "frames_of ([] @ concat chunks) = (fs, [], None)" using assms(3) by simp
  with receive_frames_deliver[OF awaiting_new[of s], of deadline rounds chunks fs] assms(2)
  show ?thesis by (auto simp: new_connection_def)
qed

lemma frame_bytes_split:
  assumes "k < 64"
  shows "frame_bytes f = take k (frame_bytes f) @ drop k (frame_bytes f)" "drop k (frame_bytes f) \<noteq> []"
    "0 < k \<Longrightarrow> take k (frame_bytes f) \<noteq> []"
proof -
  have "64 \<le> length (frame_bytes f)" by (simp add: frame_bytes_def)
  then show "drop k (frame_bytes f) \<noteq> []" "0 < k \<Longrightarrow> take k (frame_bytes f) \<noteq> []" using assms by auto
qed simp

theorem connection_delivers_witness:
  "\<exists>c. receive_frames 100 1 [(0, [Recv (take 40 (frame_bytes (demo_frame Msg_Hello 1 [5])))]),
     (3, [Recv_Blocked 1 (\<lambda>_. Wait_Ready), Recv (drop 40 (frame_bytes (demo_frame Msg_Hello 1 [5])))])] (new_connection 4) =
   Some ([ok (demo_frame Msg_Hello 1 [5])], c, []) \<and> fc_pending c = []"
proof -
  let ?f = "demo_frame Msg_Hello 1 [5]"
  have "frame_valid ?f" by (rule demo_frame_valid) (simp add: k_frame_payload_def)
  moreover have "remaining_ms 100 3 = 97" "\<not> 97 \<le> (1::u64)" by code_simp+
  then have "list_all2 (reads 100 4) [(0, [Recv (take 40 (frame_bytes ?f))]),
      (3, [Recv_Blocked 1 (\<lambda>_. Wait_Ready), Recv (drop 40 (frame_bytes ?f))])] [take 40 (frame_bytes ?f), drop 40 (frame_bytes ?f)]"
    using frame_bytes_split[of 40 ?f] by (simp add: reads_def recv_some_def k_no_socket_handle_def)
  ultimately show ?thesis
    using connection_delivers[of "[?f]" 100 4 "[(0, [Recv (take 40 (frame_bytes ?f))]),
      (3, [Recv_Blocked 1 (\<lambda>_. Wait_Ready), Recv (drop 40 (frame_bytes ?f))])]" "[take 40 (frame_bytes ?f), drop 40 (frame_bytes ?f)]"]
    by (simp del: receive_frames.simps)
qed

lemma receive_read:
  assumes "fc_socket c \<noteq> k_no_socket_handle" "\<not> fc_decoder_failed c" "fc_pending c = []" "elapsed < ucast deadline"
    and "feed bytes (fc_decoder c) [] = (fed, d, frames)"
  shows "\<not> is_ok fed \<Longrightarrow> receive_frame deadline ((elapsed, [Recv bytes]) # rounds) c =
      Some (failure (r_outcome fed) (r_detail fed), c\<lparr>fc_decoder := d, fc_decoder_failed := True\<rparr>, rounds)"
    "is_ok fed \<Longrightarrow> frames = f # fs \<Longrightarrow> receive_frame deadline ((elapsed, [Recv bytes]) # rounds) c =
      Some (ok f, c\<lparr>fc_decoder := d, fc_pending := fs\<rparr>, rounds)"
  using assms assms(4)[unfolded not_le[symmetric]] by (auto simp: receive_frame_def recv_some_def)

lemma drain_frame:
  assumes "next_frame (drop (fd_consumed d) (fd_buffer d)) = Step_Frame f n"
  shows "drain d frames = drain (d\<lparr>fd_consumed := fd_consumed d + n\<rparr>) (frames @ [f])"
  unfolding drain.simps[of d frames] using assms by simp

lemma drain_failing:
  assumes "next_frame (drop (fd_consumed d) (fd_buffer d)) = Step_Fail code detail" "\<not> fd_failed d"
  shows "drain d frames = (failure Oc_IntegrityFailure detail, d\<lparr>fd_failed := True, fd_reason := code, fd_detail := detail\<rparr>, frames)"
  unfolding drain.simps[of d frames] using assms by (simp add: decoder_fail_def)

lemma drain_empty:
  assumes "drop (fd_consumed d) (fd_buffer d) = []"
  shows "drain d frames = (status_ok, d, frames)"
  unfolding drain.simps[of d frames] assms by (simp add: next_frame_def k_wire_header_bytes_def)

text \<open>C31: when a read brings a complete frame together with bytes that violate the protocol, the frame is lost: the
  call fails and so does every later one. The same bytes in two reads deliver the frame first. So what a
  receiver sees of a stream that ends in a violation depends on how the transport cuts it.\<close>

theorem coalesced_frame_is_lost:
  assumes "frame_valid f" "next_frame g = Step_Fail code detail" "s \<noteq> k_no_socket_handle"
  shows "map_option fst (receive_frames 1000 (Suc (Suc 0)) [(0, [Recv (frame_bytes f)]), (0, [Recv g])] (new_connection s)) =
      Some [ok f, failure Oc_IntegrityFailure detail] \<and>
    map_option fst (receive_frames 1000 (Suc (Suc 0)) [(0, [Recv (frame_bytes f @ g)])] (new_connection s)) =
      Some [failure Oc_IntegrityFailure detail, failure Oc_IntegrityFailure ''the decoder already failed permanently'']"
proof -
  let ?n = "length (frame_bytes f)" and ?c = "new_connection s"
  let ?fail = "\<lambda>d. d\<lparr>fd_failed := True, fd_reason := code, fd_detail := detail\<rparr>"
  let ?d = "new_frame_decoder\<lparr>fd_buffer := frame_bytes f, fd_consumed := ?n\<rparr>"
  have f: "next_frame (frame_bytes f @ rest) = Step_Frame f ?n" for rest by (rule next_frame_bytes[OF assms(1)])
  have zero: "(0 :: u64) < ucast (1000 :: u32)" by code_simp
  have both: "feed (frame_bytes f @ g) new_frame_decoder [] = (failure Oc_IntegrityFailure detail,
      ?fail (new_frame_decoder\<lparr>fd_buffer := frame_bytes f @ g, fd_consumed := ?n\<rparr>), [f])"
    using drain_frame[of "new_frame_decoder\<lparr>fd_buffer := frame_bytes f @ g\<rparr>" f ?n "[]"]
      drain_failing[of "new_frame_decoder\<lparr>fd_buffer := frame_bytes f @ g, fd_consumed := ?n\<rparr>" code detail "[f]"] f[of g] assms(2)
    by (simp add: feed_def new_frame_decoder_def)
  have first: "feed (frame_bytes f) new_frame_decoder [] = (status_ok, ?d, [f])"
    using drain_frame[of "new_frame_decoder\<lparr>fd_buffer := frame_bytes f\<rparr>" f ?n "[]"] drain_empty[of ?d "[f]"] f[of "[]"]
    by (simp add: feed_def new_frame_decoder_def)
  have second: "feed g ?d [] = (failure Oc_IntegrityFailure detail, ?fail (?d\<lparr>fd_buffer := g, fd_consumed := 0\<rparr>), [])"
    using drain_failing[of "?d\<lparr>fd_buffer := g, fd_consumed := 0\<rparr>" code detail "[]"] assms(2)
    by (simp add: feed_def new_frame_decoder_def)
  have c: "fc_socket ?c \<noteq> k_no_socket_handle" "\<not> fc_decoder_failed ?c" "fc_pending ?c = []" "fc_decoder ?c = new_frame_decoder"
    using assms(3) by (simp_all add: new_connection_def)
  have lost: "receive_frame 1000 [(0, [Recv (frame_bytes f @ g)])] ?c = Some (failure Oc_IntegrityFailure detail,
      ?c\<lparr>fc_decoder := ?fail (new_frame_decoder\<lparr>fd_buffer := frame_bytes f @ g, fd_consumed := ?n\<rparr>), fc_decoder_failed := True\<rparr>, [])"
    using receive_read(1)[OF c(1-3) zero both[folded c(4)]] by (simp add: c(4))
  have got: "receive_frame 1000 [(0, [Recv (frame_bytes f)]), (0, [Recv g])] ?c =
      Some (ok f, ?c\<lparr>fc_decoder := ?d, fc_pending := []\<rparr>, [(0, [Recv g])])"
    using receive_read(2)[OF c(1-3) zero first[folded c(4)]] by (simp add: c(4))
  let ?c2 = "?c\<lparr>fc_decoder := ?d, fc_pending := []\<rparr>"
  have "fc_socket ?c2 \<noteq> k_no_socket_handle" "\<not> fc_decoder_failed ?c2" "fc_pending ?c2 = []" using c by simp_all
  moreover have "feed g (fc_decoder ?c2) [] = (failure Oc_IntegrityFailure detail, ?fail (?d\<lparr>fd_buffer := g, fd_consumed := 0\<rparr>), [])"
    using second by simp
  ultimately have "receive_frame 1000 [(0, [Recv g])] ?c2 = Some (failure Oc_IntegrityFailure detail,
      ?c2\<lparr>fc_decoder := ?fail (?d\<lparr>fd_buffer := g, fd_consumed := 0\<rparr>), fc_decoder_failed := True\<rparr>, [])"
    using receive_read(1)[of ?c2 0 1000 g] zero by simp
  with lost got show ?thesis
    by (simp add: receive_frame_def)
qed

theorem coalesced_frame_is_lost_witness:
  "map_option fst (receive_frames 1000 (Suc (Suc 0)) [(0, [Recv (frame_bytes (demo_frame Msg_Hello 1 [5]) @ replicate 32 0)])] (new_connection 4)) =
     Some [failure Oc_IntegrityFailure txt_frame_magic_mismatch, failure Oc_IntegrityFailure ''the decoder already failed permanently'']"
proof -
  have v: "frame_valid (demo_frame Msg_Hello 1 [5])" by (rule demo_frame_valid) (simp add: k_frame_payload_def)
  have "next_frame (replicate 32 0) = Step_Fail R_WireFrameBadMagic txt_frame_magic_mismatch"
  proof -
    have "take 4 (replicate 32 (0::u8)) = [0, 0, 0, 0]" "le_value [0, 0, 0, 0] \<noteq> k_wire_magic" by code_simp+
    then show ?thesis by (simp add: next_frame_def u32_at_def k_wire_header_bytes_def)
  qed
  from coalesced_frame_is_lost[OF v this, of 4] show ?thesis by (simp add: k_no_socket_handle_def)
qed

section \<open>Sessions\<close>

definition demo_session :: "u64 \<Rightarrow> producer_kind \<Rightarrow> session" where
  "demo_session k kind = \<lparr>se_id = k, se_kind = kind, se_identity = demo_identity, se_inbound = 1, se_outbound = 0,
     se_lease_expires_at = 0, se_worker = (kind = Producer_RemoteWorker), se_last_assessment = None, se_issued = []\<rparr>"

definition demo_service :: "runtime \<Rightarrow> coordinator" where
  "demo_service r = (new_coordinator r small_limits 0 0)\<lparr>co_sessions :=
     [(3, demo_session 3 Producer_RemoteWorker), (7, demo_session 7 Producer_Operator)]\<rparr>"

definition frame_in_turn :: "session \<Rightarrow> decoded_frame \<Rightarrow> bool" where
  "frame_in_turn s f \<longleftrightarrow> fh_session (df_header f) = se_id s \<and> se_inbound s < fh_sequence (df_header f)"

text \<open>C11: a session acts only as itself and only once for each sequence: a frame with another identity or without
  a higher sequence closes the session and leaves the runtime as it was; a frame that was served moves the
  session's inbound sequence to its own, so that the same frame again is refused. No frame changes who another
  session is, what it may send next, or which assessment and intents it holds.\<close>

theorem session_discipline:
  assumes "find_session k c = Some s"
  shows "(\<not> frame_in_turn s f \<longrightarrow> fst (handle_frame io k f c) = Close_Session \<and> co_runtime (snd (handle_frame io k f c)) = co_runtime c) \<and>
    (frame_in_turn s f \<longrightarrow> (\<exists>s'. find_session k (snd (handle_frame io k f c)) = Some s' \<and> se_id s' = se_id s \<and>
       se_identity s' = se_identity s \<and> se_inbound s' = fh_sequence (df_header f) \<and> \<not> frame_in_turn s' f)) \<and>
    (\<forall>i t. i \<noteq> k \<and> find_session i c = Some t \<longrightarrow> (\<exists>t'. find_session i (snd (handle_frame io k f c)) = Some t' \<and>
       same_session False t t'))"
proof (cases "frame_in_turn s f")
  case True
  let ?moved = "modify_session k (\<lambda>s. s\<lparr>se_inbound := fh_sequence (df_header f)\<rparr>) c"
  have serves: "serves k ?moved (snd (handle_frame io k f c))"
    using True by (intro handle_frame_accepted[OF assms]) (simp_all add: frame_in_turn_def)
  have "rel_option (same_session True) (find_session k ?moved) (find_session k (snd (handle_frame io k f c)))"
    using serves_find[OF serves, of k] by simp
  then obtain s' where "find_session k (snd (handle_frame io k f c)) = Some s'" "same_session True (s\<lparr>se_inbound := fh_sequence (df_header f)\<rparr>) s'"
    using assms by (auto simp: find_modify option_rel_Some1)
  moreover have "\<exists>t'. find_session i (snd (handle_frame io k f c)) = Some t' \<and> same_session False t t'"
    if "i \<noteq> k" "find_session i c = Some t" for i t
    using serves_find[OF serves, of i] that by (auto simp: find_modify option_rel_Some1)
  ultimately show ?thesis using True by (auto simp: same_session_def frame_in_turn_def)
next
  case False
  then have refused: "fst (handle_frame io k f c) = Close_Session" "co_runtime (snd (handle_frame io k f c)) = co_runtime c"
      "serves k c (snd (handle_frame io k f c))"
    using handle_frame_refused[OF assms, of f io] by (auto simp: frame_in_turn_def not_less)
  have "\<exists>t'. find_session i (snd (handle_frame io k f c)) = Some t' \<and> same_session False t t'"
    if "i \<noteq> k" "find_session i c = Some t" for i t
    using serves_find[OF refused(3), of i] that by (auto simp: option_rel_Some1)
  with refused False show ?thesis by blast
qed

theorem session_discipline_witness:
  "fst (handle_frame (\<lambda>_. oi_write demo_io) 7 (demo_frame Msg_PlanRequest 1 []) (demo_service ring_runtime)) = Close_Session \<and>
   (\<exists>s'. find_session 7 (snd (handle_frame (\<lambda>_. oi_write demo_io) 7 (demo_frame Msg_PlanRequest 2 []) (demo_service ring_runtime))) = Some s' \<and>
     se_inbound s' = 2)"
proof -
  have s: "find_session 7 (demo_service ring_runtime) = Some (demo_session 7 Producer_Operator)"
    by (simp add: find_session_def demo_service_def)
  have "\<not> frame_in_turn (demo_session 7 Producer_Operator) (demo_frame Msg_PlanRequest 1 [])"
    "frame_in_turn (demo_session 7 Producer_Operator) (demo_frame Msg_PlanRequest 2 [])"
    "fh_sequence (df_header (demo_frame Msg_PlanRequest 2 [])) = 2"
    by (simp_all add: frame_in_turn_def demo_session_def demo_frame_def)
  then show ?thesis
    using session_discipline[OF s, of "demo_frame Msg_PlanRequest 1 []"] session_discipline[OF s, of "demo_frame Msg_PlanRequest 2 []"]
    by metis
qed

text \<open>C33: sequences are documented to increase strictly from 1, but the service sends two frames with sequence 1: the
  acknowledgement of the handshake, and then the first reply of the session.\<close>

theorem first_reply_repeats_sequence:
  assumes "r_value (decode_hello (df_payload f)) = Some m" "fst (handle_hello True f c)"
  shows "\<exists>ack answer. co_sent (snd (handle_hello True f c)) = co_sent c @ [ack] \<and>
    co_sent (reply (hm_session m) type payload (snd (handle_hello True f c))) = co_sent c @ [ack, answer] \<and>
    og_session ack = hm_session m \<and> og_session answer = hm_session m \<and> og_sequence ack = 1 \<and> og_sequence answer = 1"
proof -
  have h: "co_sent (snd (handle_hello True f c)) = co_sent c @ [\<lparr>og_owner = Some (hm_session m), og_type = Msg_HelloAck,
      og_session = hm_session m, og_sequence = 1, og_payload = encode_hello_ack (hello_answer (hm_session m) (co_runtime c)
        (hm_lease_ticks m) Oc_Ok R_WireFrameAccepted ''session bound to this socket'')\<rparr>]"
    "co_sessions (snd (handle_hello True f c)) = insert_sorted fst (hm_session m, bound_session m) (co_sessions c)"
    "find_session (hm_session m) c = None"
    using assms by (auto simp: handle_hello_def Let_def acknowledge_hello_def log_frame_def split: if_splits)
  have "map_of (insert_sorted fst (j, x) xs) j = Some x" if "map_of xs j = None" for j :: u64 and x :: session and xs
    using that in_set_takeD[of _ _ xs]
    by (force simp: insert_sorted_def Let_def map_of_eq_None_iff map_add_def split: option.split dest: map_of_SomeD)
  then have "find_session (hm_session m) (snd (handle_hello True f c)) = Some (bound_session m)"
    using h(2,3) by (simp add: find_session_def)
  then show ?thesis
    by (simp add: reply_def log_frame_def h(1) bound_session_def)
qed

definition demo_hello :: hello_message where
  "demo_hello = \<lparr>hm_version = k_wire_version, hm_session = 5, hm_identity = demo_identity, hm_kind = Producer_Operator,
     hm_origin = Origin_Synthetic, hm_nonce = 1, hm_lease_ticks = 9\<rparr>"

lemma demo_hello_decodes: "decode_hello (df_payload (demo_frame Msg_Hello 1 (encode_hello demo_hello))) = ok demo_hello"
  using hello_payload.decode_encode[of demo_hello] by (simp add: demo_frame_def)

lemma demo_hello_accepted: "fst (handle_hello True (demo_frame Msg_Hello 1 (encode_hello demo_hello)) (demo_service r))"
  by (simp add: handle_hello_def demo_hello_decodes Let_def find_session_def demo_service_def)
    (simp add: demo_hello_def id_valid_def)

theorem first_reply_repeats_sequence_witness:
  "\<exists>ack answer. co_sent (reply 5 Msg_Error [] (snd (handle_hello True (demo_frame Msg_Hello 1 (encode_hello demo_hello))
     (demo_service ring_runtime)))) = [ack, answer] \<and> og_sequence ack = og_sequence answer"
proof -
  have m: "r_value (decode_hello (df_payload (demo_frame Msg_Hello 1 (encode_hello demo_hello)))) = Some demo_hello"
    by (simp add: demo_hello_decodes)
  have "co_sent (demo_service ring_runtime) = []" "hm_session demo_hello = 5"
    by (simp_all add: demo_service_def new_coordinator_def demo_hello_def)
  then show ?thesis
    using first_reply_repeats_sequence[OF m demo_hello_accepted[of ring_runtime], of Msg_Error "[]"] by auto
qed

section \<open>Histories\<close>

text \<open>C10: whatever is received, from whichever sessions and in whatever order, over a store or without one, the
  service does to its runtime only what the runtime's own operations do: a history of the service is a
  history of the runtime. At every moment the runtime's invariant holds, the sessions have distinct valid
  identities, their own, and every frame given to a session's connection carries that session's identity.
  One kind of step is left out, as it is for the runtime: a frame that asks for a new definition, policy
  or fence, over a store, whose operation fails after it has changed the runtime, as it does when the store
  does not take the write (a successful one, or one that is refused and changes nothing, is a step).\<close>

theorem service_histories:
  assumes "service_start c" "service_step\<^sup>*\<^sup>* c c'"
  shows "runtime_step\<^sup>*\<^sup>* (co_runtime c) (co_runtime c') \<and> runtime_ok (co_runtime c') \<and>
    distinct (map fst (co_sessions c')) \<and> (\<forall>k s. find_session k c' = Some s \<longrightarrow> se_id s = k \<and> id_valid k) \<and>
    list_all own_frame (co_sent c')"
proof -
  have inv: "service_ok c'"
    by (rule service_machine.steps_inv[OF assms(2) service_machine.inv_initial[OF assms(1)]])
  then have "distinct (map fst (co_sessions c'))"
    by (auto simp: service_ok_def strict_sorted_iff)
  moreover have "\<forall>k s. find_session k c' = Some s \<longrightarrow> se_id s = k \<and> id_valid k"
    using inv by (auto simp: service_ok_def keyed_def list_all_iff find_session_def dest!: map_of_SomeD)
  ultimately show ?thesis
    using service_runs_runtime[OF assms(2)] inv by (simp add: service_ok_def)
qed

theorem service_histories_witness:
  "\<forall>payload. runtime_ok (co_runtime (serve (\<lambda>_. oi_write demo_io) (From_Session 5 (ok (demo_frame Msg_FenceAdvance 2 payload)))
     (serve (\<lambda>_. oi_write demo_io) (From_Peer (ok (demo_frame Msg_Hello 1 (encode_hello demo_hello))) True)
       (new_coordinator demo_opened small_limits 0 0))))"
proof
  fix payload
  let ?c = "new_coordinator demo_opened small_limits 0 0" and ?io = "\<lambda>_ :: nat. oi_write demo_io"
  let ?d = "serve ?io (From_Peer (ok (demo_frame Msg_Hello 1 (encode_hello demo_hello))) True) ?c"
  have start: "service_start ?c" using demo_start by (auto simp: service_start_def)
  have one: "service_step ?c ?d" by (rule serving) (simp add: settles_def)
  have two: "service_step ?d (serve ?io (From_Session 5 (ok (demo_frame Msg_FenceAdvance 2 payload))) ?d)"
  proof (rule serving, rule disjI1)
    have "co_runtime ?d = demo_opened"
      by (simp add: serve_def serve_peer_def) (simp add: new_coordinator_def)
    then have "rt_store (co_runtime ?d) = None" by (simp add: demo_opened_fields)
    then show "settles ?io (From_Session 5 (ok (demo_frame Msg_FenceAdvance 2 payload))) ?d"
      by (simp add: settles_def configures_cleanly_def call_settles_def option.pred_True)
  qed
  from service_histories[OF start rtranclp.rtrancl_into_rtrancl[OF r_into_rtranclp[of service_step, OF one] two]]
  show "runtime_ok (co_runtime (serve ?io (From_Session 5 (ok (demo_frame Msg_FenceAdvance 2 payload))) ?d))"
    by blast
qed

section \<open>Containment\<close>

text \<open>C12: an intent goes out for one reason only: a request for containment, in turn, on a session. It goes only to
  workers, never back to the asker; the runtime issued it for this request, under the current fence, for a
  live finding with a plan of that fence that authorizes action, and it names exactly the plan's targets.\<close>

theorem intents_go_to_workers:
  assumes "runtime_ok (co_runtime c)" "co_sent (snd (handle_frame io k f c)) = co_sent c @ sent"
    "g \<in> set sent" "og_type g = Msg_ContainIntent"
  shows "fh_type (df_header f) = Msg_ContainAuthorize \<and> (\<exists>s. find_session k c = Some s \<and> frame_in_turn s f) \<and>
    (\<exists>i fi p. issued_to c (snd (handle_frame io k f c)) k i g \<and> ci_fence i = rt_fence (co_runtime c) \<and>
      find_finding (rt_findings (co_runtime c)) (ci_finding i) = Some fi \<and> \<not> is_terminal fi \<and>
      fi_fence fi = rt_fence (co_runtime c) \<and> map_of (rt_plans (co_runtime c)) (fi_plan fi) = Some p \<and>
      authorizes_action p \<and> pl_fence p = rt_fence (co_runtime c) \<and> ci_targets i = target_resources p)"
proof -
  obtain s i fi p where "fh_type (df_header f) = Msg_ContainAuthorize" "find_session k c = Some s"
    "fh_session (df_header f) = se_id s" "se_inbound s < fh_sequence (df_header f)"
    "issued_to c (snd (handle_frame io k f c)) k i g" "find_finding (rt_findings (co_runtime c)) (ci_finding i) = Some fi"
    "\<not> is_terminal fi" "fi_fence fi = rt_fence (co_runtime c)" "map_of (rt_plans (co_runtime c)) (fi_plan fi) = Some p"
    "authorizes_action p" "pl_fence p = rt_fence (co_runtime c)" "ci_fence i = rt_fence (co_runtime c)"
    "ci_targets i = target_resources p"
    by (rule frame_sends[OF assms])
  then show ?thesis unfolding frame_in_turn_def by blast
qed

definition authorize_payload :: "u8 list" where
  "authorize_payload = encode_fence demo_fence @ [5, 0, 0, 0, 0, 0, 0, 0] @ [10, 0, 0, 0, 0, 0, 0, 0] @ [20, 0, 0, 0, 0, 0, 0, 0]"

lemma authorize_payload_reads: "read_authorization authorize_payload = Inr ((demo_fence, 5, 10, 20), [])"
proof -
  have "read_u64 [5, 0, 0, 0, 0, 0, 0, 0, 10, 0, 0, 0, 0, 0, 0, 0, 20, 0, 0, 0, 0, 0, 0, 0] =
      Inr (5, [10, 0, 0, 0, 0, 0, 0, 0, 20, 0, 0, 0, 0, 0, 0, 0])"
    "read_u64 [10, 0, 0, 0, 0, 0, 0, 0, 20, 0, 0, 0, 0, 0, 0, 0] = Inr (10, [20, 0, 0, 0, 0, 0, 0, 0])"
    "read_u64 [20, 0, 0, 0, 0, 0, 0, 0] = Inr (20, [])" "\<not> fence_is_zero demo_fence" by code_simp+
  then show ?thesis by (simp add: read_authorization_def authorize_payload_def read_then_def or_report_def read_value_def)
qed

text \<open>A runtime with a plan for a live finding, and what the service's own grant lets through.\<close>

definition granted_plan :: containment_plan where
  "granted_plan = (digest_free zero_digest)\<lparr>pl_id := 7, pl_outcome := Con_PlanOptimal, pl_within_budget := True,
     pl_targets := [planned_target], pl_total_cost := 1\<rparr>"

definition granted_runtime :: runtime where
  "granted_runtime = planned_runtime\<lparr>rt_plans := [(7, granted_plan)]\<rparr>"

lemma granted_runtime_ok: "runtime_ok granted_runtime"
  using planned_runtime_ok by (simp add: runtime_defs granted_runtime_def)

lemma granted_authorizes:
  obtains i r' where "plan_of_finding 5 granted_runtime = Some granted_plan" "rt_fence granted_runtime = demo_fence"
    "authorize_containment (\<lambda>_. oi_write demo_io) 5 (session_grant 7 granted_plan 10 20 granted_runtime) 10 20 [] granted_runtime = (ok i, r')"
proof -
  let ?f = "(demo_finding 5 Fs_Confirmed 3)\<lparr>fi_plan := 7\<rparr>"
  let ?r = granted_runtime
  have f: "find_finding (rt_findings ?r) 5 = Some ?f" "\<not> is_terminal ?f" "fi_fence ?f = demo_fence" "fi_plan ?f = 7"
    by (simp_all add: granted_runtime_def planned_runtime_def find_finding_def new_registry_def demo_finding_def is_terminal_def
        state_is_terminal_def)
  have r: "map_of (rt_plans ?r) 7 = Some granted_plan" "rt_fence ?r = demo_fence" "rt_store ?r = None" "next_sequence (rt_lineage ?r) = 2"
    by (simp_all add: granted_runtime_def planned_runtime_def ring_runtime_fields)
  have p: "authorizes_action granted_plan" "pl_fence granted_plan = demo_fence" "target_resources granted_plan = [1]"
    "requested_cost granted_plan [1] = Some 1"
    by (simp_all add: granted_plan_def authorizes_action_def digest_free_def target_resources_def requested_cost_def
        find_target_def planned_target_def)
  have "authorize (session_grant 7 granted_plan 10 20 ?r) [1] 1 demo_fence 10 = status_ok"
    unfolding authorize_ok_iff
    by (simp add: session_grant_def r p grant_is_active_def) (simp add: granted_plan_def binary_search_def lower_bound_def)
  moreover have "fst (issue_intent io i now ?r) = ok i" for io i now
    by (simp add: issue_intent_def Let_def append_lineage_def r on_store_none id_valid_def)
  ultimately have "fst (authorize_containment (\<lambda>_. oi_write demo_io) 5 (session_grant 7 granted_plan 10 20 ?r) 10 20 [] ?r) =
      ok (intent_of ?r 5 granted_plan [1] 10 20)"
    by (simp add: authorize_containment_def f r p authorize_targets_def Let_def)
  moreover have "plan_of_finding 5 ?r = Some granted_plan" by (simp add: plan_of_finding_def find_plan_def f r)
  ultimately show ?thesis using that r(2) by (metis prod.collapse)
qed

lemma granted_sends:
  obtains g rest where "co_sent (snd (handle_frame (\<lambda>_. oi_write demo_io) 7 (demo_frame Msg_ContainAuthorize 2 authorize_payload)
      (demo_service granted_runtime))) = co_sent (demo_service granted_runtime) @ g # rest" "og_type g = Msg_ContainIntent"
proof -
  let ?c = "demo_service granted_runtime" and ?f = "demo_frame Msg_ContainAuthorize 2 authorize_payload"
  obtain i r' where i: "plan_of_finding 5 granted_runtime = Some granted_plan" "rt_fence granted_runtime = demo_fence"
    "authorize_containment (\<lambda>_. oi_write demo_io) 5 (session_grant 7 granted_plan 10 20 granted_runtime) 10 20 [] granted_runtime = (ok i, r')"
    by (rule granted_authorizes)
  let ?d = "modify_session 7 (\<lambda>s. s\<lparr>se_inbound := 2\<rparr>) ?c"
  have two: "\<not> (2 :: u64) \<le> 1" by code_simp
  have "handle_frame (\<lambda>_. oi_write demo_io) 7 ?f ?c = handle_contain_authorize (\<lambda>_. oi_write demo_io) 7 authorize_payload ?d"
    using two by (simp add: handle_frame_def dispatch_def Let_def find_session_def demo_service_def demo_session_def demo_frame_def)
  moreover have "co_runtime ?d = granted_runtime" by (simp add: demo_service_def new_coordinator_def)
  ultimately have h: "co_sent (snd (handle_frame (\<lambda>_. oi_write demo_io) 7 ?f ?c)) =
      co_sent (reply 7 Msg_PlanReply (encode_plan_reply (co_limits ?d) (plan_reply granted_plan))
        (modify_session 7 (\<lambda>s. s\<lparr>se_issued := se_issued s @ [i]\<rparr>)
          (dispatch_intent 7 (encode_contain_intent (intent_message i)) (?d\<lparr>co_runtime := r'\<rparr>))))"
    by (simp add: handle_contain_authorize_def authorize_payload_reads i on_runtime_def keep_def)
  obtain g :: outgoing where g: "co_sent (dispatch_intent 7 (encode_contain_intent (intent_message i)) (?d\<lparr>co_runtime := r'\<rparr>)) = co_sent ?c @ [g]"
    "og_type g = Msg_ContainIntent"
    by (simp add: dispatch_intent_def modify_session_def demo_service_def receives_intents_def demo_session_def)
  have "\<exists>rest. co_sent (reply 7 type payload e) = co_sent e @ rest" for type payload e
    by (auto simp: reply_def log_frame_def split: option.split)
  from this[of Msg_PlanReply "encode_plan_reply (co_limits ?d) (plan_reply granted_plan)" "modify_session 7 (\<lambda>s. s\<lparr>se_issued := se_issued s @ [i]\<rparr>)
      (dispatch_intent 7 (encode_contain_intent (intent_message i)) (?d\<lparr>co_runtime := r'\<rparr>))"]
  obtain rest where "co_sent (snd (handle_frame (\<lambda>_. oi_write demo_io) 7 ?f ?c)) = co_sent ?c @ g # rest"
    unfolding h by (auto simp: g(1))
  then show ?thesis using that g(2) by blast
qed

theorem intents_go_to_workers_witness:
  "\<exists>g i. og_owner g = Some 3 \<and> og_payload g = encode_contain_intent (intent_message i) \<and> ci_targets i = [1] \<and>
     g \<in> set (co_sent (snd (handle_frame (\<lambda>_. oi_write demo_io) 7 (demo_frame Msg_ContainAuthorize 2 authorize_payload)
       (demo_service granted_runtime))))"
proof -
  let ?c = "demo_service granted_runtime" and ?f = "demo_frame Msg_ContainAuthorize 2 authorize_payload"
  obtain g rest where g: "co_sent (snd (handle_frame (\<lambda>_. oi_write demo_io) 7 ?f ?c)) = co_sent ?c @ g # rest" "og_type g = Msg_ContainIntent"
    by (rule granted_sends)
  have r: "co_runtime ?c = granted_runtime" by (simp add: demo_service_def new_coordinator_def)
  have "runtime_ok (co_runtime ?c)" using granted_runtime_ok r by simp
  from intents_go_to_workers[OF this g(1) list.set_intros(1) g(2)] obtain i :: containment_intent and fi :: finding and p :: containment_plan where
    i: "issued_to ?c (snd (handle_frame (\<lambda>_. oi_write demo_io) 7 ?f ?c)) 7 i g"
      "map_of (rt_plans granted_runtime) (fi_plan fi) = Some p" "ci_targets i = target_resources p"
    unfolding r by blast
  have "p = granted_plan" using i(2) by (simp add: granted_runtime_def split: if_splits)
  then have "ci_targets i = [1]" using i(3) by (simp add: granted_plan_def target_resources_def planned_target_def)
  moreover have "og_owner g = Some 3" "og_payload g = encode_contain_intent (intent_message i)"
    using i(1) by (auto simp: issued_to_def demo_service_def demo_session_def)
  ultimately show ?thesis using g(1) by (auto intro!: exI[of _ g])
qed

lemma effect_ignores_evidence:
  "rt_findings (snd (record_verified_effect io intent e now (r\<lparr>rt_ledger := g, rt_counters := k\<rparr>))) =
     rt_findings (snd (record_verified_effect io intent e now r))"
  "rt_applications (snd (record_verified_effect io intent e now (r\<lparr>rt_ledger := g, rt_counters := k\<rparr>))) =
     rt_applications (snd (record_verified_effect io intent e now r))"
  by (simp_all add: record_verified_effect_def Let_def record_outcome_fields count_up_def split: option.split)

text \<open>C29: the program calls an effect verified because an observation shows it, and sends the observation along with
  the report. But the handler records the effect whether or not the evidence accepts the observation, and
  even when there is none: the findings and applications afterwards are those of a report without evidence.\<close>

theorem effect_needs_no_observation:
  assumes "decode_effect_report (co_limits c) payload = ok m"
  shows "rt_findings (co_runtime (snd (handle_effect_report io k payload c))) =
      rt_findings (snd (record_verified_effect io (vm_intent m) (reported_effect m) (vm_verified_at m) (co_runtime c))) \<and>
    rt_applications (co_runtime (snd (handle_effect_report io k payload c))) =
      rt_applications (snd (record_verified_effect io (vm_intent m) (reported_effect m) (vm_verified_at m) (co_runtime c)))"
proof -
  have "\<exists>g t. snd (submit_observation ob now r) = r\<lparr>rt_ledger := g, rt_counters := t\<rparr>" for ob now r
    by (cases "submit ob (rt_ledger r)") (auto simp: submit_observation_def count_up_def)
  then obtain g t where g: "snd (submit_observation (vm_observation_payload m) (vm_verified_at m) (co_runtime c)) =
      (co_runtime c)\<lparr>rt_ledger := g, rt_counters := t\<rparr>"
    by blast
  show ?thesis
    using assms g
    by (cases "submit_observation (vm_observation_payload m) (vm_verified_at m) (co_runtime c)")
      (simp add: handle_effect_report_def Let_def on_runtime_def keep_def effect_ignores_evidence case_prod_beta)
qed

definition bare_report :: effect_report_message where
  "bare_report = \<lparr>vm_intent = 3, vm_target = 1, vm_observation = 4, vm_fence = demo_fence, vm_verified_at = 7,
     vm_origin = Origin_Synthetic, vm_observation_payload = default_observation, vm_has_observation = False\<rparr>"

theorem effect_needs_no_observation_witness:
  "map fi_state (fr_findings (rt_findings (co_runtime (snd (handle_effect_report (\<lambda>_. oi_write demo_io) 7
     (encode_effect_report bare_report) (demo_service acting_runtime)))))) = [Fs_ContainmentVerified]"
proof -
  have "effect_report_valid small_limits bare_report"
    by (simp add: effect_report_valid_def bare_report_def demo_fence_def fence_is_zero_def id_valid_def)
  from effect_report_payload.decode_encode[OF this]
  have m: "decode_effect_report (co_limits (demo_service acting_runtime)) (encode_effect_report bare_report) = ok bare_report"
    by (simp add: demo_service_def new_coordinator_def)
  have "reported_effect bare_report = last_effect" "vm_intent bare_report = 3" "vm_verified_at bare_report = 7"
    "co_runtime (demo_service acting_runtime) = acting_runtime"
    by (simp_all add: bare_report_def reported_effect_def last_effect_def demo_service_def new_coordinator_def)
  then show ?thesis
    using effect_needs_no_observation[OF m, of "\<lambda>_. oi_write demo_io" 7] acting_verified[of "\<lambda>_. oi_write demo_io" 7] by simp
qed

text \<open>The cost the service passes is recomputed from the targets; for a plan in order it is the sum of their costs.\<close>

lemma requested_cost_all:
  assumes "sorted_wrt (<) (map ct_resource (pl_targets p))"
  shows "target_resources p = map ct_resource (pl_targets p)"
    "requested_cost p (target_resources p) = Some (targets_cost (pl_targets p))"
proof -
  have d: "distinct (map ct_resource (pl_targets p))" and srt: "sorted (map ct_resource (pl_targets p))"
    using assms by (simp_all add: strict_sorted_iff)
  then show ids: "target_resources p = map ct_resource (pl_targets p)"
    by (simp add: target_resources_def sorted_sort_id)
  have found: "find_target p (ct_resource c) = Some c" if "c \<in> set (pl_targets p)" for c
  proof -
    have "find (\<lambda>c'. ct_resource c' = ct_resource c) cs = Some c" if "c \<in> set cs" "distinct (map ct_resource cs)" for cs
      using that by (induction cs) (auto dest: image_eqI[of _ ct_resource])
    then show ?thesis using that d by (simp add: find_target_def)
  qed
  have "foldl (\<lambda>acc target. case acc of None \<Rightarrow> None
      | Some cost \<Rightarrow> (case find_target p target of None \<Rightarrow> None | Some c \<Rightarrow> Some (cost + ucast (ct_cost c))))
      (Some x) (map ct_resource cs) = Some (x + targets_cost cs)" if "set cs \<subseteq> set (pl_targets p)" for cs x
    using that by (induction cs arbitrary: x) (simp_all add: found targets_cost_def add.assoc)
  from this[of "pl_targets p" 0] show "requested_cost p (target_resources p) = Some (targets_cost (pl_targets p))"
    by (simp add: requested_cost_def ids)
qed

text \<open>C30: authorization is documented as a bounded grant that permits a specific target set. The service makes the
  grant out of the plan it is asked about, so the check against it can refuse nothing but time: for every
  plan that the planner makes of a well-formed definition and that authorizes action, the targets and the cost that the service asks for (the sum
  recomputed from the targets, which is the plan's total) are granted in full, unless the lease wraps
  around the clock.\<close>

theorem session_grant_refuses_no_plan:
  assumes "topology_ok t" "length (td_resources t) \<le> 2 ^ 32" "plan_containment l a t policy = ok p" "authorizes_action p"
  shows "requested_cost p (target_resources p) = Some (pl_total_cost p) \<and>
    (is_ok (authorize (session_grant session_id p now lease r) (target_resources p)
      (the (requested_cost p (target_resources p))) (rt_fence r) now) \<longleftrightarrow> now \<le> now + lease)"
proof -
  have oc: "pl_outcome p = Con_PlanOptimal" "pl_within_budget p" using assms(4) by (simp_all add: authorizes_action_def)
  have ok: "affirmative_ok p a t policy" using plan_affirmative[OF assms(1-3)] oc(1) by simp
  note cost = requested_cost_all[of p]
  have len: "length (pl_targets p) \<le> unat (po_max_targets policy)" using plan_within_budget[OF assms(1-3)] oc by simp
  have "length (pl_targets p) < 2 ^ LENGTH(32)" by (rule le_less_trans[OF len unsigned_less])
  then have "length (target_resources p) \<le> unat (word_of_nat (length (pl_targets p)) :: u32)"
    by (simp add: target_resources_def unat_of_nat)
  moreover have "target_resources p \<noteq> []"
    using ok by (simp add: affirmative_ok_def target_resources_def flip: length_greater_0_conv)
  moreover have "binary_search (target_resources p) t" if "t \<in> set (target_resources p)" for t
    using that binary_search_iff[of "target_resources p" t] by (simp add: target_resources_def)
  moreover have "is_ok st \<longleftrightarrow> st = status_ok" if "st = authorize g ts cost f n" for st g ts cost f n
    unfolding that by (auto simp: authorize_def split: option.split)
  moreover have "requested_cost p (target_resources p) = Some (pl_total_cost p)"
    using cost ok by (simp add: affirmative_ok_def)
  ultimately show ?thesis
    by (simp add: authorize_ok_iff grant_is_active_def session_grant_def)
qed

theorem session_grant_refuses_no_plan_witness:
  "requested_cost (finalize_plan (demo_plan ring [ring_witness])) [1] = Some 1 \<and>
   is_ok (authorize (session_grant 7 (finalize_plan (demo_plan ring [ring_witness])) 10 20 demo_opened) [1] 1 (rt_fence demo_opened) 10) \<and>
   \<not> is_ok (authorize (session_grant 7 (finalize_plan (demo_plan ring [ring_witness])) 10 (- 5) demo_opened) [1] 1 (rt_fence demo_opened) 10)"
proof -
  let ?p = "finalize_plan (demo_plan ring [ring_witness])"
  have lease: "(10 :: u64) \<le> 10 + 20" "\<not> (10 :: u64) \<le> 10 + (- 5)" by code_simp+
  have "authorizes_action ?p" by (simp add: authorizes_action_def ring_plan_fields del: finalize_plan_fields)
  note granted = session_grant_refuses_no_plan[OF ring_ok ring_size ring_planned this, of 7 10 _ demo_opened, unfolded ring_plan_fields]
  have "target_resources ?p = [1]" by (simp add: target_resources_def ring_plan_fields ring_target_def del: finalize_plan_fields)
  note granted = granted[unfolded this]
  have cost: "requested_cost ?p [1] = Some 1" using granted[of 20] by (rule conjunct1)
  show ?thesis using cost granted[of 20, unfolded cost option.sel] granted[of "- 5", unfolded cost option.sel] lease by blast
qed

end
