(* ===== verification/Spec2Isabelle.thy ===== *)
theory Spec2Isabelle
  imports LG_Prelude Enums Digest Core Topology Evidence Witness Cycle_Probe Detect Exclusion HittingSet Greedy
    Containment Shadow Example_Fabric Example_Plan Codec Wire Frames Authority Finding Messages Durable Journal
    Journal_Replay Runtime Runtime_Safety Runtime_History Runtime_Contract Runtime_Mirror Spec_Core Spec_Detection
    Spec_Containment Spec_Wire Spec_Durable Spec_Runtime Topology_Text Connection Coordinator Service Spec_Service
begin

text \<open>
  Loop-Guard: a model of the forwarding-loop detector and its correctness.

  The program answers, for a fabric of governed resources and forwarding edges, whether some
  traffic class circulates. Parts of the program and the theories that model them, in the order
  in which they build on each other:

  \<^item> \<open>LG_Prelude\<close>: machine integers (\<open>u8\<close>, \<open>u32\<close>, \<open>u64\<close> are words), the standard library algorithms
    the sources call (lower bound by halving, binary search, sorting with a key, unique, set
    intersection), compressed adjacency (count, prefix sums, fill) and a locale of state machines
    with invariants.
  \<^item> \<open>Enums\<close> (src/src/enums.cpp, enums.hpp): every enumeration with names, raw bytes and parsers.
  \<^item> \<open>Digest\<close> (digest.cpp): SHA-256 as the streaming class the code has, and a reference function.
  \<^item> \<open>Core\<close> (core.cpp, id.hpp, limits.hpp, result.hpp): identities, checked arithmetic, limits,
    fence vectors, bounded explanations, structured results.
  \<^item> \<open>Topology\<close> (topology.cpp): the builder, canonicalisation, the two indices and the lookups.
  \<^item> \<open>Evidence\<close> (evidence.cpp): observations, the ledger with its three indices, and the
    resolution of a hop from its observations.
  \<^item> \<open>Witness\<close> (witness.cpp): loop witnesses, canonical rotation, the independent validator.
  \<^item> \<open>Cycle_Probe\<close> (class CycleProbe of detect.cpp): Kahn's elimination as an existence test.
  \<^item> \<open>Detect\<close> (detect.cpp): the detector, phase by phase. \<open>Exclusion\<close>: which hops it leaves out of a traffic
    class, in terms of the definition and the observations only.
  \<^item> \<open>HittingSet\<close>, \<open>Greedy\<close>, \<open>Containment\<close>, \<open>Shadow\<close> (containment.cpp): the branch-and-bound, exhaustive
    and greedy solvers; the policy, the planner and the plan validator; the shadow definition.
  \<^item> \<open>Codec\<close>, \<open>Wire\<close>, \<open>Frames\<close>, \<open>Messages\<close> (wire.cpp): byte writers and readers, the codecs of fences,
    definitions, policies and observations; frames and the incremental decoder; every message.
  \<^item> \<open>Authority\<close> (authority.cpp): grants, the authorisation ladder, applications and what they prove,
    lineage records. \<open>Finding\<close> (finding.cpp): findings and their registry as a state machine.
  \<^item> \<open>Durable\<close>, \<open>Journal\<close> (persistence.cpp): record frames, the codec of the whole document, and the
    store: scan, replay, minting, mutations, compaction, close. \<open>Journal_Replay\<close>: what a reader recovers
    from the document that a store wrote.
  \<^item> \<open>Runtime\<close> (runtime.cpp): the coordinator's state and operations, which tie the other parts together.
    \<open>Runtime_Safety\<close>: its invariant, operation by operation; \<open>Runtime_History\<close>: opening, the step relation
    and the state machine; \<open>Runtime_Contract\<close>: what successful operations stand for; \<open>Runtime_Mirror\<close>: the
    agreement of the runtime with its store.
  \<^item> \<open>Topology_Text\<close> (topology.cpp): definitions as text, printer and parser.
  \<^item> \<open>Connection\<close> (net.cpp): sockets and listeners by their handles, the send and receive loops with their
    deadlines, framed connections.
  \<^item> \<open>Coordinator\<close> (src/tools/lg_coordinator.cpp): the service: its sessions, the handshake and one handler for
    each message. \<open>Service\<close>: its fixture (tool_common.hpp), its histories as a step relation, and which
    intents a frame sends.
  \<^item> \<open>Example_Fabric\<close>, \<open>Example_Plan\<close>: concrete fabrics and plans on which the properties are instantiated.
  \<^item> \<open>Spec_Core\<close>, \<open>Spec_Detection\<close>, \<open>Spec_Containment\<close>, \<open>Spec_Wire\<close>, \<open>Spec_Durable\<close>, \<open>Spec_Runtime\<close>,
    \<open>Spec_Service\<close>: the properties, numbered as in the manifest.

  How state corresponds. A C++ class is a record; a method that changes the object takes the record
  last and returns the changed one, paired with its result when it has one. \<open>Result<T>\<close> is the
  record \<open>result\<close>: outcome, optional value, detail text. A std::vector is a list, a std::map or
  unordered_map is a function to \<open>option\<close> where only lookups matter and a sorted list where its
  order matters (the ordered map of observations). Pointers to stored observations are copies; the
  ledger invariant (\<open>ledger_ok\<close>) states that they agree with the store. A 64-bit or 32-bit field
  is a word, so its arithmetic wraps as in the program; sizes and indices are naturals, since every
  container is bounded by the limits far below 2 ^ 64. Human-readable texts are kept as constants
  named after their words (\<open>txt_...\<close>).

  Loops. Structural loops are \<open>fun\<close>. Kahn's queue, the eviction loop, the explicit-stack
  depth-first enumeration and the block loop of SHA-256 have termination proofs with measures. The
  hitting-set recursion is structural in a depth of one more than the number of sets, since every
  call covers one more set (\<open>solve_hitting_set_spec\<close> shows that the depth is never the limit); the
  greedy loop is structural in the number of sets, and \<open>greedy_loop_spec\<close> shows that more rounds
  change nothing. So every operation of the model returns on every input.

  What the lemmas show. \<open>Topology\<close>: a definition that canonicalisation accepts satisfies
  \<open>topology_ok\<close>, on which the lookups are exact and the adjacency lists exactly the out-edges.
  \<open>Evidence\<close>: \<open>ledger_ok\<close> is an invariant of every operation (an interpretation of the locale
  \<open>invariant_machine\<close>), submission is accepted exactly for admissible observations, and a hop is
  proven open exactly when exactly bound evidence says so. \<open>Witness\<close>: the validator decides
  \<open>loop_at\<close>, the definition of a forwarding loop in terms of the definition and the evidence only.
  \<open>Cycle_Probe\<close>: the probe is exact. \<open>Detect\<close>: the answers NO_LOOP and LOOP_CONFIRMED are sound with
  respect to \<open>loop_at\<close>, and UNKNOWN and CONFLICT never hide a proven loop. \<open>Exclusion\<close>: a hop is left out of
  the search for a class exactly when it is closed for it by the definition or by exactly bound evidence
  (\<open>closed_for\<close>) or when, with no exactly bound statement about it, the stale statements name other classes
  (\<open>hidden_by_stale\<close>); the second is against the README, so NO_LOOP means the absence of a cycle only up to
  hops hidden that way (\<open>no_loop_sound\<close>, \<open>stale_evidence_hides_loop\<close>). \<open>HittingSet\<close>: the solver is
  exact and agrees with the reference solver. \<open>Containment\<close>: what the validator accepts is what a plan
  should be (\<open>affirmative_ok_spec\<close>; the converse needs an ascending witness cycle for each target, since
  rotated cycles are searched by bisection), published plans are accepted by it, an optimal plan is a cheapest one, an infeasibility is true. \<open>Shadow\<close>: the shadow
  definition closes exactly the hops the plan names, for the traffic the plan names.

  \<open>Codec\<close> states what an encoder and a reader owe each other as locales (\<open>codec\<close>, \<open>reader_codec\<close>,
  \<open>payload_codec\<close>); every entity and message of \<open>Wire\<close>, \<open>Messages\<close> and \<open>Durable\<close> is an interpretation, so
  lists, optional fields and nested payloads of them come for free. \<open>Frames\<close>: the incremental decoder
  computes a reference parser of the whole stream (\<open>feed_all_reads\<close>), whatever the chunks. \<open>Finding\<close>: the
  registry invariant, terminal states and retention. \<open>Journal_Replay\<close>: \<open>document_ok\<close> relates the bytes on
  disk to the state in memory; it is an invariant of all histories of mutations, crashes and restarts
  (\<open>journal_machine\<close>), and a restart recovers that state (\<open>reopen_recovers\<close>, \<open>reopen_succeeds\<close>).

  \<open>Runtime_Safety\<close> and \<open>Runtime_History\<close>: in every history of \<open>runtime_step\<close> live findings bind the current
  fence, the lineage ascends and effects belong to their intents (\<open>runtime_machine\<close>). A step that advances
  the fence or installs a definition or policy succeeds or has no store: the code changes the fence in memory before it writes, so a failed write leaves live
  findings under an old fence (they authorize nothing, since authorization compares the fences).
  All other operations may fail in any way. \<open>Runtime_Mirror\<close>: definition, policy and lineage agree with the
  store in these histories (\<open>mirror_machine\<close>). \<open>Runtime_Contract\<close>: publication, authorization and verification.

  \<open>Topology_Text\<close>: what the parser reads off each line the printer writes, up to the round trip.
  \<open>Connection\<close>: no handle is lost, what was sent is a prefix, and the frames a connection hands over are those
  of the stream (\<open>receive_frames_deliver\<close>). \<open>Coordinator\<close>: every handler moves the runtime by its own operations
  (\<open>handle_frame_moves\<close>), only effect reports can verify (\<open>handle_frame_calm\<close>), and other sessions keep what is
  theirs (\<open>serves\<close>). \<open>Service\<close>: the service refines the runtime (\<open>service_refines_runtime\<close>) and keeps its
  session table in order (\<open>service_machine\<close>). A step of the service is whatever is received, over a store or
  without one, except a frame whose new definition, policy or fence the store fails to write.

  The file system. The content of the store's file is a field of its record, and what the system
  answers to an append or to the atomic replacement of the file (done, cut short after some bytes,
  arrived but not synced, failed) is an argument of the operation. Histories (\<open>journal_step\<close>) consist of
  operations that succeed, with arguments the reader's limits admit and room in the document, and of
  restarts after an append that was cut short anywhere. The cases left out are real: \<open>Spec_Durable\<close>
  proves of four of them that the document becomes unreadable.

  The network. A call that waits takes the list of what the operating system and the clock will answer, one
  turn for each system call, and is undefined when the list ends before the call returns. The service takes
  the frames that its connections deliver, in any order, as events; a frame it sends is appended to a log with
  the session that owns the connection, and the program ignores whether it arrived.

  Simplifications, each without effect on the results stated. std::sort is a stable sort by the
  same key; it differs only on elements with equal keys, which canonicalisation refuses (for edges
  with one identity see \<open>duplicate_edge_identity_accepted\<close>). The DFS keeps the masks of the
  current path in its frames instead of an array indexed by depth. Capacity reservation, move
  semantics and the mutex of the runtime are not represented.

  Not modelled: the system calls themselves, of which the model takes the answers; the mutual exclusion of
  threads; src/tools/lg_worker.cpp and lgctl.cpp, which send fixed sequences of messages and print the answers;
  the command line and the printed reports of the tools; build stamps, tests, fuzz targets and benchmarks.
\<close>

end
